(* ===== verification/O3_Prelude.thy ===== *)
theory O3_Prelude
  imports Main
begin

text \<open>
  Shared vocabulary of the development: the exceptions of the Python sources as values, the
  small list and bit idioms the models repeat (the \<open>next((i for i, e in enumerate(xs) if ...), None)\<close>
  search, the XOR fold of an address, the saturating counter, the mask \<open>(1 << n) - 1\<close>), and the
  lemmas about them.
\<close>

unbundle bit_operations_syntax

section \<open>Exceptions as values\<close>

text \<open>
  A raise, a failed \<open>assert\<close> or a failing subscript of the source is a branch \<open>Inl\<close> of a result.
\<close>

datatype py_error = AssertionError | IndexError | KeyError | ValueError | StopIteration
  | RuntimeError | TypeError | AttributeError | ZeroDivisionError | OverflowError | StructError

type_synonym 'a py = "py_error + 'a"

definition py_bind :: "'a py \<Rightarrow> ('a \<Rightarrow> 'b py) \<Rightarrow> 'b py" where
  "py_bind r f = (case r of Inl e \<Rightarrow> Inl e | Inr x \<Rightarrow> f x)"

definition py_assert :: "bool \<Rightarrow> unit py" where
  "py_assert b = (if b then Inr () else Inl AssertionError)"

text \<open>\<open>xs[i] = y\<close> and \<open>xs[i]\<close> with a non-negative index.\<close>

definition py_upd :: "'a list \<Rightarrow> nat \<Rightarrow> 'a \<Rightarrow> 'a list py" where
  "py_upd xs i y = (if i < length xs then Inr (xs[i := y]) else Inl IndexError)"

definition py_nth :: "'a list \<Rightarrow> nat \<Rightarrow> 'a py" where
  "py_nth xs i = (if i < length xs then Inr (xs ! i) else Inl IndexError)"

lemma py_upd_Inr [simp]: "i < length xs \<Longrightarrow> py_upd xs i y = Inr (xs[i := y])"
  by (simp add: py_upd_def)

lemma py_nth_Inr [simp]: "i < length xs \<Longrightarrow> py_nth xs i = Inr (xs ! i)"
  by (simp add: py_nth_def)

lemma py_bind_simps [simp]:
  "py_bind (Inl e) f = Inl e" "py_bind (Inr x) f = f x"
  by (simp_all add: py_bind_def)

lemma py_bind_Inr_iff: "py_bind r f = Inr y \<longleftrightarrow> (\<exists>x. r = Inr x \<and> f x = Inr y)"
  by (cases r) auto

lemma bind_InrE:
  assumes "py_bind m f = Inr y"
  obtains x where "m = Inr x" "f x = Inr y"
  using assms by (auto simp: py_bind_Inr_iff)

text \<open>A dictionary lookup that raises when the key is missing.\<close>

definition py_key :: "'a option \<Rightarrow> 'a py" where
  "py_key x = (case x of None \<Rightarrow> Inl KeyError | Some y \<Rightarrow> Inr y)"

lemma py_key_Inr_iff [simp]: "py_key x = Inr y \<longleftrightarrow> x = Some y"
  by (simp add: py_key_def split: option.split)

lemma py_assert_Inr_iff [simp]: "py_assert b = Inr u \<longleftrightarrow> b"
  by (simp add: py_assert_def)

section \<open>Control-flow kinds and return-stack actions\<close>

text \<open>
  The two-bit codes of \<open>btb_model.py\<close>, \<open>ubtb_model.py\<close>, \<open>ifu_f1_model.py\<close> and \<open>ras_model.py\<close>
  (0 to 3 in this order).
\<close>

datatype cfi = CFI_NONE | CFI_BR | CFI_JAL | CFI_JALR

datatype ras_action = RAS_NONE | RAS_PUSH | RAS_POP | RAS_POP_PUSH

section \<open>First match in a list\<close>

text \<open>\<open>next((i for i, e in enumerate(xs) if P e), None)\<close>\<close>

fun first_idx :: "('a \<Rightarrow> bool) \<Rightarrow> 'a list \<Rightarrow> nat option" where
  "first_idx P [] = None"
| "first_idx P (x # xs) = (if P x then Some 0 else map_option Suc (first_idx P xs))"

lemma first_idx_None: "first_idx P xs = None \<longleftrightarrow> (\<forall>x \<in> set xs. \<not> P x)"
  by (induction xs) auto

lemma first_idx_Some:
  "first_idx P xs = Some i \<longleftrightarrow> i < length xs \<and> P (xs ! i) \<and> (\<forall>j < i. \<not> P (xs ! j))"
proof (induction xs arbitrary: i)
  case Nil
  then show ?case by simp
next
  case (Cons x xs)
  show ?case
    by (cases i) (use Cons.IH in \<open>auto simp: less_Suc_eq_0_disj\<close>)
qed

lemma first_idx_SomeD:
  assumes "first_idx P xs = Some i"
  shows "i < length xs" "P (xs ! i)"
  using assms by (simp_all add: first_idx_Some)

lemma first_idx_find: "map_option (\<lambda>i. xs ! i) (first_idx P xs) = find P xs"
  by (induction xs) (auto simp: option.map_comp comp_def)

section \<open>Rows of tagged entries\<close>

text \<open>
  A row of a tagged table is a list of optional entries; the first way holding the tag answers.
  \<open>row_lookup\<close> is the abstract view of a row: a map from tags to entries.
\<close>

definition tag_match :: "('e \<Rightarrow> nat) \<Rightarrow> nat \<Rightarrow> 'e option \<Rightarrow> bool" where
  "tag_match etag tag e = (case e of None \<Rightarrow> False | Some x \<Rightarrow> etag x = tag)"

lemma tag_match_simps [simp]:
  "\<not> tag_match etag tag None" "tag_match etag tag (Some x) \<longleftrightarrow> etag x = tag"
  by (simp_all add: tag_match_def)

lemma tag_match_iff: "tag_match etag tag e \<longleftrightarrow> (\<exists>x. e = Some x \<and> etag x = tag)"
  by (cases e) auto

definition row_lookup :: "('e \<Rightarrow> nat) \<Rightarrow> 'e option list \<Rightarrow> nat \<Rightarrow> 'e option" where
  "row_lookup etag row tag = Option.bind (find (tag_match etag tag) row) (\<lambda>e. e)"

definition tags_distinct :: "('e \<Rightarrow> nat) \<Rightarrow> 'e option list \<Rightarrow> bool" where
  "tags_distinct etag row \<longleftrightarrow>
     (\<forall>i j x y. i < length row \<longrightarrow> j < length row \<longrightarrow> row ! i = Some x \<longrightarrow> row ! j = Some y \<longrightarrow>
        etag x = etag y \<longrightarrow> i = j)"

lemma tags_distinctD:
  "tags_distinct etag row \<Longrightarrow> i < length row \<Longrightarrow> j < length row \<Longrightarrow> row ! i = Some x \<Longrightarrow>
   row ! j = Some y \<Longrightarrow> etag x = etag y \<Longrightarrow> i = j"
  unfolding tags_distinct_def by blast

lemma tags_distinctI:
  assumes "\<And>i j x y. i < length row \<Longrightarrow> j < length row \<Longrightarrow> row ! i = Some x \<Longrightarrow> row ! j = Some y \<Longrightarrow>
    etag x = etag y \<Longrightarrow> i = j"
  shows "tags_distinct etag row"
  unfolding tags_distinct_def using assms by blast

lemma row_lookup_first_idx:
  "row_lookup etag row tag =
     (case first_idx (tag_match etag tag) row of None \<Rightarrow> None | Some i \<Rightarrow> row ! i)"
  unfolding row_lookup_def first_idx_find [symmetric]
  by (cases "first_idx (tag_match etag tag) row") auto

lemma row_lookup_None:
  "row_lookup etag row tag = None \<longleftrightarrow> (\<forall>i < length row. \<not> tag_match etag tag (row ! i))"
proof (cases "first_idx (tag_match etag tag) row")
  case None
  then have "row_lookup etag row tag = None" by (simp add: row_lookup_first_idx)
  moreover from None have "\<forall>i < length row. \<not> tag_match etag tag (row ! i)"
    by (simp add: first_idx_None all_set_conv_all_nth)
  ultimately show ?thesis by simp
next
  case (Some i)
  then have i: "i < length row" "tag_match etag tag (row ! i)" by (auto dest: first_idx_SomeD)
  then have "row_lookup etag row tag \<noteq> None"
    using Some by (auto simp: row_lookup_first_idx tag_match_iff)
  with i show ?thesis by auto
qed

lemma row_lookup_SomeD:
  assumes "row_lookup etag row tag = Some x"
  shows "\<exists>i < length row. row ! i = Some x \<and> etag x = tag"
proof -
  from assms obtain i where "first_idx (tag_match etag tag) row = Some i" "row ! i = Some x"
    by (auto simp: row_lookup_first_idx split: option.splits)
  with first_idx_SomeD [OF this(1)] show ?thesis by auto
qed

lemma row_lookup_SomeI:
  assumes "tags_distinct etag row" "i < length row" "row ! i = Some x" "etag x = tag"
  shows "row_lookup etag row tag = Some x"
proof -
  have "row_lookup etag row tag \<noteq> None"
    using assms by (auto simp: row_lookup_None tag_match_iff)
  then obtain y j where "row_lookup etag row tag = Some y" "j < length row" "row ! j = Some y"
    "etag y = tag"
    using row_lookup_SomeD by (metis not_None_eq)
  with assms show ?thesis by (metis tags_distinctD option.inject)
qed

text \<open>
  Writing an entry into the way that holds its tag, or into any way when no way holds it, keeps the
  tags distinct and updates the row's map at the entry's tag; the tag the way held before is gone.
\<close>

definition way_free_for :: "('e \<Rightarrow> nat) \<Rightarrow> 'e option list \<Rightarrow> nat \<Rightarrow> nat \<Rightarrow> bool" where
  "way_free_for etag row w tag \<longleftrightarrow>
     w < length row \<and> (\<forall>i < length row. i \<noteq> w \<longrightarrow> \<not> tag_match etag tag (row ! i))"

lemma way_free_forI_match:
  assumes "tags_distinct etag row" "first_idx (tag_match etag tag) row = Some w"
  shows "way_free_for etag row w tag"
proof -
  from assms(2) obtain x where "w < length row" "row ! w = Some x" "etag x = tag"
    using first_idx_SomeD [OF assms(2)] by (auto simp: tag_match_iff)
  with assms(1) show ?thesis
    unfolding way_free_for_def tag_match_iff by (metis tags_distinctD)
qed

lemma way_free_forI_absent:
  "first_idx (tag_match etag tag) row = None \<Longrightarrow> w < length row \<Longrightarrow> way_free_for etag row w tag"
  by (auto simp: way_free_for_def first_idx_None)

lemma tags_distinct_update:
  assumes d: "tags_distinct etag row" and f: "way_free_for etag row w (etag x)"
  shows "tags_distinct etag (row[w := Some x])"
proof (rule tags_distinctI)
  fix i j y z
  assume "i < length (row[w := Some x])" "j < length (row[w := Some x])"
    "row[w := Some x] ! i = Some y" "row[w := Some x] ! j = Some z" "etag y = etag z"
  then show "i = j"
    using f tags_distinctD [OF d, of i j y z] unfolding way_free_for_def tag_match_iff
    by (cases "i = w"; cases "j = w") auto
qed

lemma row_lookup_update_same:
  assumes d: "tags_distinct etag row" and f: "way_free_for etag row w (etag x)"
  shows "row_lookup etag (row[w := Some x]) (etag x) = Some x"
  using f by (intro row_lookup_SomeI [OF tags_distinct_update [OF d f], where i = w])
    (simp_all add: way_free_for_def)

lemma row_lookup_update_other:
  assumes d: "tags_distinct etag row" and f: "way_free_for etag row w (etag x)" and t: "tag \<noteq> etag x"
  shows "row_lookup etag (row[w := Some x]) tag =
    (if tag_match etag tag (row ! w) then None else row_lookup etag row tag)"
proof (cases "row_lookup etag (row[w := Some x]) tag")
  case None
  then have "\<not> tag_match etag tag (row ! w) \<Longrightarrow> row_lookup etag row tag = None"
    unfolding row_lookup_None by (metis length_list_update nth_list_update_neq)
  with None show ?thesis by simp
next
  case (Some y)
  then obtain i where i: "i < length row" "row[w := Some x] ! i = Some y" "etag y = tag"
    using row_lookup_SomeD by fastforce
  with t f have "i \<noteq> w" by (auto simp: way_free_for_def)
  with i have y: "row ! i = Some y" by simp
  with i d have "row_lookup etag row tag = Some y" by (intro row_lookup_SomeI)
  moreover have "\<not> tag_match etag tag (row ! w)"
  proof
    assume "tag_match etag tag (row ! w)"
    then obtain z where "row ! w = Some z" "etag z = tag" by (auto simp: tag_match_iff)
    with f i y d \<open>i \<noteq> w\<close> show False
      unfolding way_free_for_def by (metis tags_distinctD)
  qed
  ultimately show ?thesis using Some by simp
qed

lemma tags_distinct_replicate [simp]: "tags_distinct etag (replicate n None)"
  by (simp add: tags_distinct_def)

lemma row_lookup_replicate [simp]: "row_lookup etag (replicate n None) tag = None"
  by (simp add: row_lookup_None)

section \<open>Masks, powers of two and bit length\<close>

text \<open>\<open>n.bit_length()\<close> of a non-negative Python integer.\<close>

fun bit_length :: "nat \<Rightarrow> nat" where
  "bit_length n = (if n = 0 then 0 else Suc (bit_length (n div 2)))"

declare bit_length.simps [simp del]

lemma bit_length_0 [simp]: "bit_length 0 = 0"
  by (simp add: bit_length.simps)

lemma bit_length_exp [simp]: "bit_length (2 ^ k) = Suc k"
proof (induction k)
  case 0
  show ?case by (simp add: bit_length.simps [of "Suc 0"])
next
  case (Suc k)
  then show ?case by (subst bit_length.simps) simp
qed

lemma bit_length_1 [simp]: "bit_length (Suc 0) = Suc 0"
  using bit_length_exp [of 0] by simp

text \<open>The power-of-two test \<open>n & (n - 1) == 0\<close> of the constructors.\<close>

definition pow2_test :: "nat \<Rightarrow> bool" where
  "pow2_test n \<longleftrightarrow> n AND (n - 1) = 0"

lemma pow2_test_exp [simp]: "pow2_test (2 ^ k)"
proof -
  have "(2 ^ k :: nat) AND (2 ^ k - 1) = (2 ^ k) AND mask k"
    by (simp add: mask_eq_exp_minus_1)
  also have "\<dots> = take_bit k (2 ^ k)"
    by (simp add: take_bit_eq_mask)
  finally show ?thesis by (simp add: pow2_test_def)
qed

lemma and_double: "(2 * a) AND (2 * b) = 2 * (a AND (b::nat))"
  using push_bit_and [of 1 a b] by (simp add: push_bit_eq_mult mult.commute)

lemma pow2_test_imp_exp: "pow2_test n \<Longrightarrow> 0 < n \<Longrightarrow> \<exists>k. n = 2 ^ k"
proof (induction n rule: less_induct)
  case (less n)
  show ?case
  proof (cases "even n")
    case True
    then obtain m where m: "n = 2 * m" by blast
    with less.prems have "0 < m" by simp
    have "n AND (n - 1) = 2 * (m AND (m - 1))"
    proof -
      have "n - 1 = Suc (2 * (m - 1))" using m \<open>0 < m\<close> by simp
      moreover have "(2 * m) AND Suc (2 * (m - 1)) = (2 * m) AND (2 * (m - 1))"
      proof (rule bit_eqI)
        fix i
        have "bit (2 * m) i \<and> bit (Suc (2 * (m - 1))) i \<longleftrightarrow> bit (2 * m) i \<and> bit (2 * (m - 1)) i"
          by (cases i) (simp_all add: bit_Suc bit_0)
        then show "bit ((2 * m) AND Suc (2 * (m - 1))) i = bit ((2 * m) AND (2 * (m - 1))) i"
          by (simp only: bit_and_iff)
      qed
      ultimately show ?thesis using m by (simp add: and_double)
    qed
    with less.prems have "pow2_test m" by (simp add: pow2_test_def)
    with less.IH [of m] m \<open>0 < m\<close> obtain k where "m = 2 ^ k" by auto
    with m show ?thesis by (intro exI [of _ "Suc k"]) simp
  next
    case False
    then obtain m where m: "n = Suc (2 * m)" by (auto elim: oddE)
    have "n AND (n - 1) = 2 * m"
    proof (rule bit_eqI)
      fix i
      have "bit (Suc (2 * m)) i \<and> bit (2 * m) i \<longleftrightarrow> bit (2 * m) i"
        by (cases i) (simp_all add: bit_Suc bit_0)
      then show "bit (n AND (n - 1)) i = bit (2 * m) i"
        by (simp only: m bit_and_iff diff_Suc_1)
    qed
    with less.prems have "m = 0" by (simp add: pow2_test_def)
    with m show ?thesis by (intro exI [of _ 0]) simp
  qed
qed

lemma and_mask_mod: "(x::nat) AND (2 ^ k - 1) = x mod 2 ^ k"
  by (simp only: mask_eq_exp_minus_1 [symmetric] take_bit_eq_mask [symmetric] take_bit_eq_mod)

lemma and_mask_less: "(x::nat) AND (2 ^ k - 1) < 2 ^ k"
  by (simp only: and_mask_mod) simp

lemma pow2_and_less: "pow2_test n \<Longrightarrow> 0 < n \<Longrightarrow> (x::nat) AND (n - 1) < n"
  using pow2_test_imp_exp [of n] and_mask_less by auto

lemma bit_test_iff: "((x::nat) AND push_bit b 1 \<noteq> 0) \<longleftrightarrow> bit x b"
  by (simp add: bit_iff_and_push_bit_not_eq_0)

lemma less_exp_bit_iff: "(x::nat) < 2 ^ n \<longleftrightarrow> (\<forall>i \<ge> n. \<not> bit x i)"
proof
  assume "x < 2 ^ n"
  then have "take_bit n x = x" by (simp add: take_bit_nat_eq_self_iff)
  then show "\<forall>i \<ge> n. \<not> bit x i" by (metis bit_take_bit_iff not_less)
next
  assume *: "\<forall>i \<ge> n. \<not> bit x i"
  have "take_bit n x = x"
    by (rule bit_eqI) (use * in \<open>auto simp: bit_take_bit_iff intro: leI\<close>)
  then show "x < 2 ^ n" by (simp add: take_bit_nat_eq_self_iff)
qed

lemma or_less_exp: "(x::nat) < 2 ^ n \<Longrightarrow> y < 2 ^ n \<Longrightarrow> x OR y < 2 ^ n"
  by (simp add: less_exp_bit_iff bit_or_iff)

lemma xor_less_exp: "(x::nat) < 2 ^ n \<Longrightarrow> y < 2 ^ n \<Longrightarrow> x XOR y < 2 ^ n"
  by (simp add: less_exp_bit_iff bit_xor_iff)

lemma push_bit_one_less_exp: "i < n \<Longrightarrow> push_bit i (1::nat) < 2 ^ n"
  by (simp add: push_bit_eq_mult)

text \<open>\<open>x & ~m\<close> on non-negative Python integers.\<close>

definition and_not :: "nat \<Rightarrow> nat \<Rightarrow> nat" where
  "and_not x m = nat (int x AND NOT (int m))"

lemma bit_and_not: "bit (and_not x m) i \<longleftrightarrow> bit x i \<and> \<not> bit m i"
proof -
  have "int (and_not x m) = int x AND NOT (int m)" by (simp add: and_not_def)
  then have "bit (and_not x m) i = bit (int x AND NOT (int m)) i" by (metis bit_of_nat_iff_bit)
  then show ?thesis by (simp add: bit_and_iff bit_not_iff bit_of_nat_iff_bit)
qed

lemma and_not_mask: "and_not x (2 ^ k - 1) = x - x mod 2 ^ k"
proof -
  have "and_not x (mask k) = push_bit k (drop_bit k x)"
    by (rule bit_eqI) (auto simp: bit_and_not bit_mask_iff bit_push_bit_iff bit_drop_bit_eq)
  then show ?thesis
    by (simp add: mask_eq_exp_minus_1 push_bit_eq_mult drop_bit_eq_div minus_mod_eq_div_mult)
qed

section \<open>The XOR fold of an address\<close>

text \<open>
  The loop that \<open>BtbModel.tag_of\<close>, \<open>UbtbModel.tag_of\<close> and \<open>TageModel.pc_fold\<close> share: every set bit of
  \<open>pc\<close> at a position from \<open>lo\<close> below \<open>hi\<close> toggles the result's bit \<open>(bit - lo) % width\<close>.
\<close>

definition xor_fold :: "nat \<Rightarrow> nat \<Rightarrow> nat \<Rightarrow> nat \<Rightarrow> nat" where
  "xor_fold lo hi width pc =
     foldl (\<lambda>result b. if pc AND push_bit b 1 \<noteq> 0
                       then result XOR push_bit ((b - lo) mod width) 1 else result)
       0 [lo..<hi]"

lemma xor_fold_Suc:
  "lo \<le> hi \<Longrightarrow> xor_fold lo (Suc hi) w x =
     (if bit x hi then xor_fold lo hi w x XOR push_bit ((hi - lo) mod w) 1
      else xor_fold lo hi w x)"
  by (simp only: xor_fold_def upt_Suc if_True foldl_append foldl_Cons foldl_Nil bit_test_iff)

lemma xor_fold_empty [simp]: "hi \<le> lo \<Longrightarrow> xor_fold lo hi w x = 0"
  by (simp add: xor_fold_def)

lemma xor_fold_less: "0 < w \<Longrightarrow> xor_fold lo hi w x < 2 ^ w"
proof (induction hi)
  case 0
  then show ?case by simp
next
  case (Suc hi)
  show ?case
    using Suc by (cases "lo \<le> hi")
      (simp_all add: xor_fold_Suc xor_less_exp push_bit_one_less_exp del: push_bit_of_1)
qed

text \<open>Each bit of the fold is the parity of the address bits that land on it.\<close>

lemma bit_xor_fold:
  assumes "0 < w"
  shows "bit (xor_fold lo hi w x) j \<longleftrightarrow>
    odd (card {b. lo \<le> b \<and> b < hi \<and> bit x b \<and> (b - lo) mod w = j})"
proof (induction hi)
  case 0
  then show ?case by simp
next
  case (Suc hi)
  let ?S = "\<lambda>h. {b. lo \<le> b \<and> b < h \<and> bit x b \<and> (b - lo) mod w = j}"
  show ?case
  proof (cases "lo \<le> hi \<and> bit x hi \<and> (hi - lo) mod w = j")
    case True
    then have "?S (Suc hi) = insert hi (?S hi)" by (auto simp: less_Suc_eq)
    moreover have "finite (?S hi)" by simp
    moreover have "hi \<notin> ?S hi" by simp
    ultimately have "card (?S (Suc hi)) = Suc (card (?S hi))" by simp
    with True Suc show ?thesis
      by (simp add: xor_fold_Suc bit_xor_iff bit_exp_iff)
  next
    case False
    then have "?S (Suc hi) = ?S hi" by (auto simp: less_Suc_eq)
    moreover have "bit (xor_fold lo (Suc hi) w x) j = bit (xor_fold lo hi w x) j"
      using False by (cases "lo \<le> hi")
        (auto simp: xor_fold_Suc bit_xor_iff bit_exp_iff)
    ultimately show ?thesis using Suc by simp
  qed
qed

text \<open>Bits outside \<open>lo..<hi\<close> do not matter.\<close>

lemma xor_fold_cong:
  assumes "\<And>b. lo \<le> b \<Longrightarrow> b < hi \<Longrightarrow> bit x b = bit y b"
  shows "xor_fold lo hi w x = xor_fold lo hi w y"
proof -
  have "b \<in> set [lo..<hi] \<Longrightarrow> (x AND push_bit b 1 \<noteq> 0) = (y AND push_bit b 1 \<noteq> 0)" for b
    using assms by (simp only: bit_test_iff) simp
  then show ?thesis unfolding xor_fold_def by (intro foldl_cong) auto
qed

section \<open>Saturating counters\<close>

definition sat_inc :: "nat \<Rightarrow> nat \<Rightarrow> nat" where
  "sat_inc m c = min m (c + 1)"

definition sat_dec :: "nat \<Rightarrow> nat" where
  "sat_dec c = nat (max 0 (int c - 1))"

lemma sat_dec_eq [simp]: "sat_dec c = c - 1"
  by (simp add: sat_dec_def)

lemma sat_inc_le [simp]: "sat_inc m c \<le> m"
  by (simp add: sat_inc_def)

lemma sat_dec_le: "c \<le> m \<Longrightarrow> sat_dec c \<le> m"
  by simp

end
