(* ===== verification/BPU_Records.thy ===== *)
theory BPU_Records
  imports O3_Prelude
begin

text \<open>
  The packed records of the branch prediction unit and the slow-prediction oracle:
  \<open>sim/cocotb/bpu/bpu_model.py\<close>. A record layout is a list of named fields, most significant first; a
  value is a finite map from names to integers. The oracle enumerates the candidate transfers of a
  fetch region and selects the oldest.
\<close>

section \<open>The codec\<close>

type_synonym fields = "(string \<times> nat) list"

type_synonym field_values = "string \<Rightarrow> int option"

definition fv_get :: "field_values \<Rightarrow> string \<Rightarrow> int" where
  "fv_get vals name = (case vals name of None \<Rightarrow> 0 | Some v \<Rightarrow> v)"

definition bpu_encode :: "fields \<Rightarrow> field_values \<Rightarrow> int" where
  "bpu_encode fs vals =
     foldl (\<lambda>bits (name, width). push_bit width bits OR (fv_get vals name AND (push_bit width 1 - 1))) 0 fs"

fun bpu_decode_loop :: "fields \<Rightarrow> field_values \<times> int \<Rightarrow> field_values \<times> int" where
  "bpu_decode_loop [] (result, bits) = (result, bits)"
| "bpu_decode_loop ((name, width) # fs) (result, bits) =
     bpu_decode_loop fs (result(name \<mapsto> bits AND (push_bit width 1 - 1)), drop_bit width bits)"

definition bpu_decode :: "fields \<Rightarrow> int \<Rightarrow> field_values py" where
  "bpu_decode fs bits =
     (let (result, rest) = bpu_decode_loop (rev fs) (Map.empty, bits) in
      if rest = 0 then Inr result else Inl AssertionError)"

definition fields_width :: "fields \<Rightarrow> nat" where
  "fields_width fs = sum_list (map snd fs)"

section \<open>The record layouts\<close>

record rec_sizes =
  rz_addr :: nat
  rz_idw :: nat
  rz_slotw :: nat
  rz_rasptr :: nat
  rz_rascnt :: nat
  rz_folds :: nat
  rz_history :: nat
  rz_meta :: nat

text \<open>The defaults of the constructor, at an address width.\<close>

definition rec_default :: "nat \<Rightarrow> rec_sizes" where
  "rec_default addr = \<lparr>rz_addr = addr, rz_idw = 13, rz_slotw = 3, rz_rasptr = 4, rz_rascnt = 5,
     rz_folds = 150, rz_history = 1024, rz_meta = 128\<rparr>"

definition rz_slots :: "rec_sizes \<Rightarrow> nat" where
  "rz_slots z = push_bit (rz_slotw z) 1"

definition rec_pred :: "rec_sizes \<Rightarrow> fields" where
  "rec_pred z = [(''region_base'', rz_addr z), (''entry_slot'', rz_slotw z),
     (''br_mask'', rz_slots z), (''jal_mask'', rz_slots z), (''cfi_valid'', 1),
     (''cfi_slot'', rz_slotw z), (''cfi_type'', 2), (''ras_action'', 2),
     (''raw_pred_taken'', 1), (''target_missing'', 1),
     (''cfi_target'', rz_addr z), (''next_pc'', rz_addr z),
     (''cfi_is_rvc'', 1), (''is_edge'', 1)]"

definition rec_btb :: "rec_sizes \<Rightarrow> fields" where
  "rec_btb z = [(''hit'', 1), (''br_mask'', rz_slots z), (''jal_mask'', rz_slots z),
     (''cfi_slot'', rz_slotw z), (''cfi_type'', 2), (''ras_action'', 2),
     (''target'', rz_addr z), (''cfi_is_rvc'', 1), (''is_edge'', 1)]"

definition rec_ras :: "rec_sizes \<Rightarrow> fields" where
  "rec_ras z = [(''top_idx'', rz_rasptr z), (''count'', rz_rascnt z), (''top_addr'', rz_addr z)]"

definition rec_tage :: "rec_sizes \<Rightarrow> fields" where
  "rec_tage z = [(''taken_mask'', rz_slots z), (''provider_hit_mask'', rz_slots z), (''meta'', rz_meta z)]"

definition rec_hist :: "rec_sizes \<Rightarrow> fields" where
  "rec_hist z = [(''events'', rz_history z), (''folds'', rz_folds z)]"

definition rec_req :: "rec_sizes \<Rightarrow> fields" where
  "rec_req z = [(''valid'', 1), (''src'', 2), (''sys_kind'', 3), (''ftq_id'', rz_idw z),
     (''slot'', rz_slotw z), (''kill_self'', 1), (''target_pc'', rz_addr z),
     (''hist_inject'', 1), (''hist_branch_pc'', rz_addr z),
     (''hist_target_pc'', rz_addr z), (''ras_fix'', 2), (''ras_push_addr'', rz_addr z),
     (''exec_br_valid'', 1), (''exec_br_taken'', 1)]"

definition rec_resolve :: "rec_sizes \<Rightarrow> fields" where
  "rec_resolve z = [(''valid'', 1), (''mispredict'', 1), (''ftq_id'', rz_idw z), (''slot'', rz_slotw z),
     (''branch_pc'', rz_addr z), (''inst_len'', 3), (''cfi_type'', 2),
     (''ras_action'', 2), (''actual_taken'', 1),
     (''actual_target'', rz_addr z), (''redirect_pc'', rz_addr z)]"

definition rec_sys :: "rec_sizes \<Rightarrow> fields" where
  "rec_sys z = [(''valid'', 1), (''kind'', 3), (''ftq_id'', rz_idw z), (''slot'', rz_slotw z),
     (''target_pc'', rz_addr z)]"

definition rec_train :: "rec_sizes \<Rightarrow> fields" where
  "rec_train z = [(''region_base'', rz_addr z), (''folds'', rz_folds z), (''loop_train'', 9),
     (''tage_meta'', rz_meta z), (''br_commit_mask'', rz_slots z), (''br_taken_mask'', rz_slots z),
     (''cfi_valid'', 1), (''cfi_slot'', rz_slotw z), (''cfi_type'', 2),
     (''ras_action'', 2), (''cfi_target'', rz_addr z), (''mispredicted'', 1),
     (''cfi_is_rvc'', 1), (''is_edge'', 1)]"

text \<open>All layouts of the class \<open>Records\<close>.\<close>

definition rec_layouts :: "rec_sizes \<Rightarrow> fields list" where
  "rec_layouts z = [rec_pred z, rec_btb z, rec_ras z, rec_tage z, rec_hist z, rec_req z, rec_resolve z,
     rec_sys z, rec_train z]"

lemma rec_layouts_distinct: "fs \<in> set (rec_layouts z) \<Longrightarrow> distinct (map fst fs)"
  by (auto simp: rec_layouts_def rec_pred_def rec_btb_def rec_ras_def rec_tage_def rec_hist_def
      rec_req_def rec_resolve_def rec_sys_def rec_train_def)

section \<open>Round trips of the codec\<close>

lemma fields_width_simps [simp]:
  "fields_width [] = 0" "fields_width (f # fs) = snd f + fields_width fs"
  "fields_width (fs @ gs) = fields_width fs + fields_width gs"
  by (simp_all add: fields_width_def)

lemma and_push_mask: "(v::int) AND (push_bit width 1 - 1) = take_bit width v"
  by (simp add: take_bit_eq_mask mask_eq_exp_minus_1)

lemma bpu_decode_step:
  "bpu_decode_loop ((name, w) # fs) (m, x) =
     bpu_decode_loop fs (m(name \<mapsto> take_bit w x), drop_bit w x)"
  by (simp only: bpu_decode_loop.simps and_push_mask)

lemma bpu_encode_snoc:
  "bpu_encode (fs @ [(name, width)]) vals =
     push_bit width (bpu_encode fs vals) OR take_bit width (fv_get vals name)"
  by (simp add: bpu_encode_def and_push_mask [unfolded push_bit_of_1])

lemma bpu_encode_Nil [simp]: "bpu_encode [] vals = 0"
  by (simp add: bpu_encode_def)

lemma low_field: "take_bit w (push_bit w (x::int) OR take_bit w v) = take_bit w v"
  by (rule bit_eqI) (auto simp: bit_or_iff bit_take_bit_iff bit_push_bit_iff)

lemma high_fields: "drop_bit w (push_bit w (x::int) OR take_bit w v) = x"
  by (rule bit_eqI) (auto simp: bit_or_iff bit_take_bit_iff bit_push_bit_iff bit_drop_bit_eq)

lemma split_fields: "push_bit w (drop_bit w (x::int)) OR take_bit w x = x"
  by (rule bit_eqI) (auto simp: bit_or_iff bit_take_bit_iff bit_push_bit_iff bit_drop_bit_eq)

lemma bpu_encode_bounds: "0 \<le> bpu_encode fs vals \<and> bpu_encode fs vals < 2 ^ fields_width fs"
proof (induction fs rule: rev_induct)
  case Nil
  show ?case by simp
next
  case (snoc f fs)
  obtain name w where f: "f = (name, w)" by (cases f)
  let ?x = "bpu_encode fs vals" and ?y = "push_bit w (bpu_encode fs vals) OR take_bit w (fv_get vals name)"
  have "0 \<le> ?y" using snoc by (simp add: push_bit_nonnegative_int_iff)
  moreover have "take_bit (fields_width fs + w) ?y = ?y"
  proof (rule bit_eqI)
    fix i
    have "take_bit (fields_width fs) ?x = ?x" using snoc by (simp add: take_bit_int_eq_self_iff)
    then have "bit ?x j \<Longrightarrow> j < fields_width fs" for j by (metis bit_take_bit_iff)
    from this [of "i - w"] show "bit (take_bit (fields_width fs + w) ?y) i = bit ?y i"
      by (auto simp: bit_take_bit_iff bit_or_iff bit_push_bit_iff)
  qed
  ultimately have "?y < 2 ^ (fields_width fs + w)" by (metis take_bit_int_less_exp)
  with \<open>0 \<le> ?y\<close> show ?case by (simp add: f bpu_encode_snoc)
qed

lemma bpu_decode_loop_Pair:
  "bpu_decode_loop fs (m, x) = (fst (bpu_decode_loop fs (m, x)), drop_bit (fields_width fs) x)"
proof (induction fs arbitrary: m x)
  case (Cons f fs)
  obtain name w where f: "f = (name, w)" by (cases f)
  show ?case unfolding f bpu_decode_step by (subst Cons.IH) (simp add: add.commute)
qed simp

lemma bpu_decode_iff:
  "bpu_decode fs x = (if drop_bit (fields_width fs) x = 0
    then Inr (fst (bpu_decode_loop (rev fs) (Map.empty, x))) else Inl AssertionError)"
proof -
  have "fields_width (rev fs) = fields_width fs" by (simp add: fields_width_def rev_map [symmetric])
  then show ?thesis
    unfolding bpu_decode_def by (subst bpu_decode_loop_Pair) simp
qed

text \<open>The decoded map of an encoded record.\<close>

definition fields_masked :: "fields \<Rightarrow> field_values \<Rightarrow> field_values" where
  "fields_masked fs vals name =
     (case map_of fs name of None \<Rightarrow> None | Some w \<Rightarrow> Some (take_bit w (fv_get vals name)))"

lemma bpu_decode_loop_encode:
  "distinct (map fst fs) \<Longrightarrow>
   bpu_decode_loop (rev fs) (m, bpu_encode fs vals) = (m ++ fields_masked fs vals, 0)"
proof (induction fs arbitrary: m rule: rev_induct)
  case Nil
  have "fields_masked [] vals = Map.empty" by (simp add: fields_masked_def fun_eq_iff)
  then show ?case by simp
next
  case (snoc f fs)
  obtain name w where f: "f = (name, w)" by (cases f)
  have new: "name \<notin> fst ` set fs" using snoc.prems f by auto
  then have none: "map_of fs name = None" by (simp add: map_of_eq_None_iff)
  have "m(name \<mapsto> take_bit w (fv_get vals name)) ++ fields_masked fs vals =
      m ++ fields_masked (fs @ [f]) vals"
    using none by (auto simp: f fun_eq_iff map_add_def fields_masked_def split: option.split)
  moreover have "distinct (map fst fs)" using snoc.prems by simp
  then have "bpu_decode_loop (rev fs) (m(name \<mapsto> take_bit w (fv_get vals name)), bpu_encode fs vals) =
      (m(name \<mapsto> take_bit w (fv_get vals name)) ++ fields_masked fs vals, 0)"
    by (rule snoc.IH)
  ultimately show ?case
    unfolding f rev_append rev.simps append.simps bpu_encode_snoc bpu_decode_step low_field high_fields
    by (simp only:)
qed

text \<open>Decoding an encoded record returns every field, cut to its width, and nothing else.\<close>

theorem bpu_decode_encode:
  assumes "distinct (map fst fs)"
  shows "bpu_decode fs (bpu_encode fs vals) = Inr (fields_masked fs vals)"
  using bpu_decode_loop_encode [OF assms, of Map.empty vals] by (simp add: bpu_decode_def)

lemma bpu_decode_loop_start:
  "name \<notin> fst ` set fs \<Longrightarrow> fst (bpu_decode_loop fs (m, x)) name = m name"
proof (induction fs arbitrary: m x)
  case (Cons f fs)
  then show ?case by (cases f) simp
qed simp

lemma bpu_encode_cong:
  "(\<And>name. name \<in> fst ` set fs \<Longrightarrow> v name = v' name) \<Longrightarrow> bpu_encode fs v = bpu_encode fs v'"
proof (induction fs rule: rev_induct)
  case (snoc f fs)
  then show ?case by (cases f) (simp add: bpu_encode_snoc fv_get_def)
qed simp

lemma bpu_encode_decode_loop:
  "distinct (map fst fs) \<Longrightarrow>
   bpu_encode fs (fst (bpu_decode_loop (rev fs) (m, x))) = take_bit (fields_width fs) x"
proof (induction fs arbitrary: m x rule: rev_induct)
  case Nil
  show ?case by simp
next
  case (snoc f fs)
  obtain name w where f: "f = (name, w)" by (cases f)
  let ?m = "m(name \<mapsto> take_bit w x)"
  have "fst (bpu_decode_loop (rev fs) (?m, drop_bit w x)) name = ?m name"
    using snoc.prems f by (intro bpu_decode_loop_start) auto
  moreover have "distinct (map fst fs)" using snoc.prems by simp
  then have "bpu_encode fs (fst (bpu_decode_loop (rev fs) (?m, drop_bit w x))) =
      take_bit (fields_width fs) (drop_bit w x)" by (rule snoc.IH)
  ultimately have "bpu_encode (fs @ [f]) (fst (bpu_decode_loop (rev (fs @ [f])) (m, x))) =
      push_bit w (take_bit (fields_width fs) (drop_bit w x)) OR take_bit w (fv_get ?m name)"
    unfolding f rev_append rev.simps append.simps bpu_encode_snoc bpu_decode_step fv_get_def
    by (simp only:)
  also have "\<dots> = push_bit w (take_bit (fields_width fs) (drop_bit w x)) OR take_bit w x"
    by (simp add: fv_get_def)
  also have "\<dots> = take_bit (fields_width fs + w) x"
    by (rule bit_eqI) (auto simp: bit_or_iff bit_take_bit_iff bit_push_bit_iff bit_drop_bit_eq)
  finally show ?case by (simp add: f)
qed

text \<open>C19: Decoding accepts exactly the words of the record's width, and re-encoding what it read gives the
  word back; any wider or negative word raises.\<close>

theorem bpu_encode_decode:
  assumes "distinct (map fst fs)"
  shows "if 0 \<le> bits \<and> bits < 2 ^ fields_width fs
    then \<exists>r. bpu_decode fs bits = Inr r \<and> bpu_encode fs r = bits
    else bpu_decode fs bits = Inl AssertionError"
proof -
  have "drop_bit (fields_width fs) bits = 0 \<longleftrightarrow> 0 \<le> bits \<and> bits < 2 ^ fields_width fs"
    by (simp add: drop_bit_eq_div zdiv_eq_0_iff)
      (metis less_le_trans less_le_not_le zero_le_power zero_le_numeral)
  moreover have "0 \<le> bits \<and> bits < 2 ^ fields_width fs \<Longrightarrow> take_bit (fields_width fs) bits = bits"
    by (simp add: take_bit_int_eq_self_iff)
  ultimately show ?thesis
    using bpu_encode_decode_loop [OF assms] by (simp add: bpu_decode_iff)
qed

text \<open>Every record layout of the unit round-trips at every size: encoding stays within the layout's width,
  and decoding the encoding gives every field back.\<close>

theorem bpu_layouts_roundtrip:
  assumes "fs \<in> set (rec_layouts z)"
  shows "0 \<le> bpu_encode fs vals \<and> bpu_encode fs vals < 2 ^ fields_width fs \<and>
    bpu_decode fs (bpu_encode fs vals) = Inr (fields_masked fs vals)"
  using bpu_encode_bounds [of fs vals]
    bpu_decode_loop_encode [OF rec_layouts_distinct [OF assms], of Map.empty vals]
  by (simp add: bpu_decode_def)

section \<open>The slow prediction\<close>

text \<open>The dictionaries of \<open>slow_prediction\<close> with the keys of their layouts; fields are unsigned.\<close>

record slow_pred =
  sp_region_base :: nat
  sp_entry_slot :: nat
  sp_br_mask :: nat
  sp_jal_mask :: nat
  sp_cfi_valid :: nat
  sp_cfi_slot :: nat
  sp_cfi_type :: nat
  sp_ras_action :: nat
  sp_raw_pred_taken :: nat
  sp_target_missing :: nat
  sp_cfi_target :: nat
  sp_next_pc :: nat
  sp_cfi_is_rvc :: nat
  sp_is_edge :: nat

record slow_btb =
  sb_hit :: nat
  sb_br_mask :: nat
  sb_jal_mask :: nat
  sb_cfi_slot :: nat
  sb_cfi_type :: nat
  sb_ras_action :: nat
  sb_target :: nat
  sb_cfi_is_rvc :: nat
  sb_is_edge :: nat

record slow_ras =
  sr_count :: nat
  sr_top_addr :: nat

text \<open>\<open>dict.fromkeys(fast, 0)\<close> after its first update.\<close>

definition slow_start :: "slow_pred \<Rightarrow> nat \<Rightarrow> slow_pred" where
  "slow_start fast slots = \<lparr>sp_region_base = sp_region_base fast, sp_entry_slot = sp_entry_slot fast,
     sp_br_mask = 0, sp_jal_mask = 0, sp_cfi_valid = 0, sp_cfi_slot = 0, sp_cfi_type = 0,
     sp_ras_action = 0, sp_raw_pred_taken = 0, sp_target_missing = 0, sp_cfi_target = 0,
     sp_next_pc = sp_region_base fast + 2 * slots, sp_cfi_is_rvc = 0, sp_is_edge = 0\<rparr>"

text \<open>The list comprehension \<open>choices\<close>.\<close>

definition slow_choices :: "slow_pred \<Rightarrow> slow_btb \<Rightarrow> nat \<Rightarrow> nat \<Rightarrow> nat list" where
  "slow_choices p btb taken_mask slots =
     filter (\<lambda>s. drop_bit s (sp_br_mask p AND taken_mask OR sp_jal_mask p) AND 1 \<noteq> 0 \<or>
                 sb_cfi_type btb = 3 \<and> sb_cfi_slot btb = s)
       [sp_entry_slot p..<slots]"

definition slow_target :: "slow_btb \<Rightarrow> slow_ras \<Rightarrow> nat" where
  "slow_target btb ras =
     (if sb_ras_action btb \<in> {2, 3} \<and> sr_count ras \<noteq> 0 then sr_top_addr ras else sb_target btb)"

definition slow_select :: "slow_pred \<Rightarrow> slow_btb \<Rightarrow> nat \<Rightarrow> slow_ras \<Rightarrow> nat \<Rightarrow> slow_pred" where
  "slow_select p0 btb taken_mask ras slots =
     (if sb_hit btb = 0 then p0 else
      let valid = (push_bit slots 1 - 1) XOR (push_bit (sp_entry_slot p0) 1 - 1);
          p = p0\<lparr>sp_br_mask := sb_br_mask btb AND valid, sp_jal_mask := sb_jal_mask btb AND valid\<rparr>;
          choices = slow_choices p btb taken_mask slots
      in if choices = [] then p else
         let p = p\<lparr>sp_raw_pred_taken := 1\<rparr>; chosen = Min (set choices) in
         if chosen = sb_cfi_slot btb \<and> sb_cfi_type btb \<noteq> 0
         then p\<lparr>sp_cfi_valid := 1, sp_cfi_slot := chosen, sp_cfi_type := sb_cfi_type btb,
                sp_ras_action := sb_ras_action btb, sp_cfi_target := slow_target btb ras,
                sp_next_pc := slow_target btb ras, sp_cfi_is_rvc := sb_cfi_is_rvc btb,
                sp_is_edge := sb_is_edge btb\<rparr>
         else p\<lparr>sp_target_missing := 1\<rparr>)"

definition slow_disagree :: "slow_pred \<Rightarrow> slow_pred \<Rightarrow> bool" where
  "slow_disagree p fast \<longleftrightarrow> sp_cfi_valid p \<noteq> sp_cfi_valid fast \<or>
     (if sp_cfi_valid p \<noteq> 0
      then sp_cfi_slot p \<noteq> sp_cfi_slot fast \<or> sp_cfi_type p \<noteq> sp_cfi_type fast \<or>
           sp_ras_action p \<noteq> sp_ras_action fast \<or> sp_next_pc p \<noteq> sp_next_pc fast \<or>
           sp_cfi_is_rvc p \<noteq> sp_cfi_is_rvc fast \<or> sp_is_edge p \<noteq> sp_is_edge fast
      else sp_next_pc p \<noteq> sp_next_pc fast)"

definition slow_prediction ::
  "slow_pred \<Rightarrow> slow_btb \<Rightarrow> nat \<Rightarrow> slow_ras \<Rightarrow> nat \<Rightarrow> slow_pred \<times> nat" where
  "slow_prediction fast btb taken_mask ras slots =
     (let p = slow_select (slow_start fast slots) btb taken_mask ras slots in
      (p, of_bool (slow_disagree p fast)))"

section \<open>The oldest candidate wins\<close>

text \<open>Slot \<open>s\<close> of the region holds a transfer that is predicted taken.\<close>

definition slow_candidate :: "slow_btb \<Rightarrow> nat \<Rightarrow> nat \<Rightarrow> bool" where
  "slow_candidate btb taken_mask s \<longleftrightarrow>
     (bit (sb_br_mask btb) s \<and> bit taken_mask s) \<or> bit (sb_jal_mask btb) s \<or>
     (sb_cfi_type btb = 3 \<and> sb_cfi_slot btb = s)"

lemma slow_valid_bit:
  "e \<le> s \<Longrightarrow> s < slots \<Longrightarrow> bit ((push_bit slots 1 - 1) XOR (push_bit e 1 - 1) :: nat) s"
  unfolding push_bit_of_1 mask_eq_exp_minus_1 [symmetric] by (simp add: bit_xor_iff bit_mask_iff)

lemma slow_choices_set:
  assumes "sp_br_mask p = sb_br_mask btb AND valid" "sp_jal_mask p = sb_jal_mask btb AND valid"
    "\<And>s. sp_entry_slot p \<le> s \<Longrightarrow> s < slots \<Longrightarrow> bit valid s"
  shows "set (slow_choices p btb taken_mask slots) =
    {s. sp_entry_slot p \<le> s \<and> s < slots \<and> slow_candidate btb taken_mask s}"
proof -
  have one: "drop_bit s x AND 1 \<noteq> 0 \<longleftrightarrow> bit x s" for s and x :: nat
    by (simp add: and_one_eq bit_iff_odd_drop_bit mod2_eq_if)
  show ?thesis
    using assms unfolding slow_choices_def one
    by (auto simp: slow_candidate_def bit_or_iff bit_and_iff)
qed

text \<open>The oldest candidate at or after the entry slot.\<close>

definition slow_oldest :: "nat \<Rightarrow> nat \<Rightarrow> slow_btb \<Rightarrow> nat \<Rightarrow> nat option" where
  "slow_oldest entry slots btb taken_mask = find (slow_candidate btb taken_mask) [entry..<slots]"

lemma slow_oldest_None:
  "slow_oldest entry slots btb m = None \<longleftrightarrow> {s. entry \<le> s \<and> s < slots \<and> slow_candidate btb m s} = {}"
  by (auto simp: slow_oldest_def find_None_iff)

lemma slow_oldest_Some:
  assumes "slow_oldest entry slots btb m = Some s"
  shows "entry \<le> s \<and> s < slots \<and> slow_candidate btb m s \<and>
    Min {s. entry \<le> s \<and> s < slots \<and> slow_candidate btb m s} = s"
proof -
  obtain k where k: "k < length [entry..<slots]" "slow_candidate btb m ([entry..<slots] ! k)"
    "s = [entry..<slots] ! k" "\<forall>j<k. \<not> slow_candidate btb m ([entry..<slots] ! j)"
    using assms unfolding slow_oldest_def find_Some_iff by blast
  then have s: "s = entry + k" "s < slots" by simp_all
  have before: "\<not> slow_candidate btb m t" if "entry \<le> t" "t < s" for t
    using k(4) [rule_format, of "t - entry"] that s by simp
  have "Min {s. entry \<le> s \<and> s < slots \<and> slow_candidate btb m s} = s"
    using k s before by (intro Min_eqI) (auto simp: not_less [symmetric])
  with k s show ?thesis by simp
qed

lemma slow_select_cases:
  "slow_select (slow_start fast slots) btb m ras slots =
    (if sb_hit btb = 0 then slow_start fast slots else
     let valid = (push_bit slots 1 - 1) XOR (push_bit (sp_entry_slot fast) 1 - 1);
         p = (slow_start fast slots)\<lparr>sp_br_mask := sb_br_mask btb AND valid,
                sp_jal_mask := sb_jal_mask btb AND valid\<rparr>
     in case slow_oldest (sp_entry_slot fast) slots btb m of
          None \<Rightarrow> p
        | Some s \<Rightarrow>
            if s = sb_cfi_slot btb \<and> sb_cfi_type btb \<noteq> 0
            then p\<lparr>sp_raw_pred_taken := 1, sp_cfi_valid := 1, sp_cfi_slot := s,
                   sp_cfi_type := sb_cfi_type btb, sp_ras_action := sb_ras_action btb,
                   sp_cfi_target := slow_target btb ras, sp_next_pc := slow_target btb ras,
                   sp_cfi_is_rvc := sb_cfi_is_rvc btb, sp_is_edge := sb_is_edge btb\<rparr>
            else p\<lparr>sp_raw_pred_taken := 1, sp_target_missing := 1\<rparr>)"
proof (cases "sb_hit btb = 0")
  case False
  define valid :: nat where
    "valid = (push_bit slots 1 - 1) XOR (push_bit (sp_entry_slot fast) 1 - 1)"
  define q where "q = (slow_start fast slots)\<lparr>sp_br_mask := sb_br_mask btb AND valid,
      sp_jal_mask := sb_jal_mask btb AND valid\<rparr>"
  have e: "sp_entry_slot (slow_start fast slots) = sp_entry_slot fast" by (simp add: slow_start_def)
  have valid_bit: "bit valid s" if "sp_entry_slot fast \<le> s" "s < slots" for s
    unfolding valid_def using that by (rule slow_valid_bit)
  have c: "set (slow_choices q btb m slots) = {s. sp_entry_slot fast \<le> s \<and> s < slots \<and> slow_candidate btb m s}"
    using slow_choices_set [of q btb valid slots m] valid_bit by (simp add: q_def e)
  then have empty: "slow_choices q btb m slots = [] \<longleftrightarrow> slow_oldest (sp_entry_slot fast) slots btb m = None"
    unfolding slow_oldest_None by (metis set_empty)
  have step: "slow_select (slow_start fast slots) btb m ras slots =
      (if slow_choices q btb m slots = [] then q else
       let p = q\<lparr>sp_raw_pred_taken := 1\<rparr>; chosen = Min (set (slow_choices q btb m slots)) in
       if chosen = sb_cfi_slot btb \<and> sb_cfi_type btb \<noteq> 0
       then p\<lparr>sp_cfi_valid := 1, sp_cfi_slot := chosen, sp_cfi_type := sb_cfi_type btb,
              sp_ras_action := sb_ras_action btb, sp_cfi_target := slow_target btb ras,
              sp_next_pc := slow_target btb ras, sp_cfi_is_rvc := sb_cfi_is_rvc btb,
              sp_is_edge := sb_is_edge btb\<rparr>
       else p\<lparr>sp_target_missing := 1\<rparr>)"
    unfolding slow_select_def Let_def e valid_def [symmetric] q_def [symmetric] if_not_P [OF False] ..
  show ?thesis
  proof (cases "slow_oldest (sp_entry_slot fast) slots btb m")
    case None
    then show ?thesis
      unfolding step valid_def [symmetric] Let_def q_def [symmetric] using False empty by simp
  next
    case (Some s)
    with slow_oldest_Some [OF Some] c have "Min (set (slow_choices q btb m slots)) = s" by simp
    with Some empty show ?thesis
      unfolding step valid_def [symmetric] Let_def q_def [symmetric] using False by simp
  qed
qed (simp add: slow_select_def)

text \<open>What the oracle predicts: on a hit it names the oldest candidate at or after the entry slot when
  that one owns the entry's target, reports a missing target when it does not, and falls through to
  the next region when there is no candidate or no hit; a transfer before the entry slot never counts.\<close>

theorem slow_prediction_oldest:
  fixes fast btb m ras slots
  defines "p \<equiv> fst (slow_prediction fast btb m ras slots)"
    and "oldest \<equiv> (if sb_hit btb = 0 then None else slow_oldest (sp_entry_slot fast) slots btb m)"
    and "seq \<equiv> sp_region_base fast + 2 * slots"
  shows "(case oldest of
      None \<Rightarrow> sp_raw_pred_taken p = 0 \<and> sp_cfi_valid p = 0 \<and> sp_target_missing p = 0 \<and> sp_next_pc p = seq
    | Some s \<Rightarrow> sp_raw_pred_taken p = 1 \<and> sp_entry_slot p \<le> s \<and> s < slots \<and>
        slow_candidate btb m s \<and> (\<forall>t. sp_entry_slot p \<le> t \<longrightarrow> t < s \<longrightarrow> \<not> slow_candidate btb m t) \<and>
        (if s = sb_cfi_slot btb \<and> sb_cfi_type btb \<noteq> 0
         then sp_cfi_valid p = 1 \<and> sp_target_missing p = 0 \<and> sp_cfi_slot p = s \<and>
              sp_cfi_type p = sb_cfi_type btb \<and> sp_next_pc p = slow_target btb ras
         else sp_cfi_valid p = 0 \<and> sp_target_missing p = 1 \<and> sp_next_pc p = seq))"
proof (cases oldest)
  case None
  then show ?thesis
    unfolding p_def slow_prediction_def Let_def fst_conv slow_select_cases
    by (auto simp: oldest_def seq_def slow_start_def split: if_splits)
next
  case (Some s)
  then have hit: "sb_hit btb \<noteq> 0" "slow_oldest (sp_entry_slot fast) slots btb m = Some s"
    by (simp_all add: oldest_def split: if_splits)
  have "\<not> slow_candidate btb m t" if "sp_entry_slot fast \<le> t" "t < s" for t
  proof
    assume "slow_candidate btb m t"
    then have "Min {s. sp_entry_slot fast \<le> s \<and> s < slots \<and> slow_candidate btb m s} \<le> t"
      using that slow_oldest_Some [OF hit(2)] by (intro Min_le) auto
    with that slow_oldest_Some [OF hit(2)] show False by simp
  qed
  with hit Some slow_oldest_Some [OF hit(2)] show ?thesis
    unfolding p_def slow_prediction_def Let_def fst_conv slow_select_cases
    by (simp add: seq_def slow_start_def)
qed

text \<open>When the oracle reports no disagreement, the fast prediction already fetches from the right place: its
  next PC, its validity and, for a taken transfer, its slot, kind and stack action are the slow ones.\<close>

theorem slow_prediction_agree:
  assumes "snd (slow_prediction fast btb m ras slots) = 0"
  defines "p \<equiv> fst (slow_prediction fast btb m ras slots)"
  shows "sp_next_pc fast = sp_next_pc p \<and> sp_cfi_valid fast = sp_cfi_valid p \<and>
    (sp_cfi_valid p \<noteq> 0 \<longrightarrow> sp_cfi_slot fast = sp_cfi_slot p \<and> sp_cfi_type fast = sp_cfi_type p \<and>
       sp_ras_action fast = sp_ras_action p) \<and>
    snd (slow_prediction p btb m ras slots) = 0"
proof -
  have start: "slow_start p slots = slow_start fast slots"
    unfolding p_def slow_prediction_def slow_select_cases Let_def
    by (simp add: slow_start_def split: option.split)
  have "\<not> slow_disagree p fast"
    using assms by (simp add: slow_prediction_def Let_def p_def)
  then have "sp_next_pc fast = sp_next_pc p \<and> sp_cfi_valid fast = sp_cfi_valid p \<and>
    (sp_cfi_valid p \<noteq> 0 \<longrightarrow> sp_cfi_slot fast = sp_cfi_slot p \<and> sp_cfi_type fast = sp_cfi_type p \<and>
       sp_ras_action fast = sp_ras_action p)"
    by (auto simp: slow_disagree_def split: if_splits)
  moreover have "snd (slow_prediction p btb m ras slots) = 0"
    by (simp add: slow_prediction_def start Let_def)
      (simp add: p_def slow_prediction_def Let_def slow_disagree_def)
  ultimately show ?thesis by simp
qed

section \<open>Witnesses\<close>

definition bpu_demo_values :: field_values where
  "bpu_demo_values = [''top_idx'' \<mapsto> 19, ''count'' \<mapsto> 2, ''top_addr'' \<mapsto> -1]"

definition bpu_demo_sizes :: rec_sizes where
  "bpu_demo_sizes = rec_default 8"

theorem bpu_decode_encode_witness:
  "bpu_decode (rec_ras bpu_demo_sizes) (bpu_encode (rec_ras bpu_demo_sizes) bpu_demo_values) =
     Inr (fields_masked (rec_ras bpu_demo_sizes) bpu_demo_values) \<and>
   fields_masked (rec_ras bpu_demo_sizes) bpu_demo_values ''top_idx'' = Some 3"
proof -
  have d: "distinct (map fst (rec_ras bpu_demo_sizes))" by (simp add: rec_ras_def)
  show ?thesis
    using bpu_decode_encode [OF d, of bpu_demo_values]
    by (simp add: fields_masked_def rec_ras_def bpu_demo_sizes_def rec_default_def fv_get_def
        bpu_demo_values_def take_bit_eq_mod)
qed

theorem bpu_encode_decode_witness:
  "\<exists>r. bpu_decode (rec_ras bpu_demo_sizes) 131071 = Inr r \<and> bpu_encode (rec_ras bpu_demo_sizes) r = 131071"
proof -
  have d: "distinct (map fst (rec_ras bpu_demo_sizes))" "fields_width (rec_ras bpu_demo_sizes) = 17"
    by (simp_all add: rec_ras_def bpu_demo_sizes_def rec_default_def)
  from bpu_encode_decode [OF d(1), of 131071] d(2) show ?thesis by simp
qed

theorem bpu_layouts_roundtrip_witness:
  "bpu_decode (rec_pred bpu_demo_sizes) (bpu_encode (rec_pred bpu_demo_sizes) bpu_demo_values) =
     Inr (fields_masked (rec_pred bpu_demo_sizes) bpu_demo_values)"
  using bpu_layouts_roundtrip [of "rec_pred bpu_demo_sizes" bpu_demo_sizes bpu_demo_values]
  by (simp add: rec_layouts_def)

definition slow_demo_btb :: slow_btb where
  "slow_demo_btb = \<lparr>sb_hit = 1, sb_br_mask = 0, sb_jal_mask = 4, sb_cfi_slot = 2, sb_cfi_type = 2,
     sb_ras_action = 0, sb_target = 96, sb_cfi_is_rvc = 0, sb_is_edge = 0\<rparr>"

definition slow_demo_fast :: slow_pred where
  "slow_demo_fast = (slow_start \<lparr>sp_region_base = 32, sp_entry_slot = 1, sp_br_mask = 0, sp_jal_mask = 0,
     sp_cfi_valid = 0, sp_cfi_slot = 0, sp_cfi_type = 0, sp_ras_action = 0, sp_raw_pred_taken = 0,
     sp_target_missing = 0, sp_cfi_target = 0, sp_next_pc = 0, sp_cfi_is_rvc = 0, sp_is_edge = 0\<rparr> 8)
     \<lparr>sp_cfi_valid := 1, sp_cfi_slot := 2, sp_cfi_type := 2, sp_next_pc := 96\<rparr>"

theorem slow_prediction_agree_witness:
  "sp_next_pc (fst (slow_prediction slow_demo_fast slow_demo_btb 0 \<lparr>sr_count = 0, sr_top_addr = 0\<rparr> 8)) = 96"
proof -
  have "snd (slow_prediction slow_demo_fast slow_demo_btb 0 \<lparr>sr_count = 0, sr_top_addr = 0\<rparr> 8) = 0"
    by code_simp
  from slow_prediction_agree [OF this] show ?thesis by (simp add: slow_demo_fast_def)
qed

text \<open>The jump in slot 2 is the oldest candidate seen from slot 1.\<close>

theorem slow_prediction_oldest_witness:
  "sp_cfi_slot (fst (slow_prediction slow_demo_fast slow_demo_btb 0 \<lparr>sr_count = 0, sr_top_addr = 0\<rparr> 8)) = 2"
proof -
  have "slow_oldest (sp_entry_slot slow_demo_fast) 8 slow_demo_btb 0 = Some 2" "sb_hit slow_demo_btb = 1"
    "sb_cfi_slot slow_demo_btb = 2" "sb_cfi_type slow_demo_btb = 2" by code_simp+
  with slow_prediction_oldest [of slow_demo_fast slow_demo_btb 0 "\<lparr>sr_count = 0, sr_top_addr = 0\<rparr>" 8]
  show ?thesis by simp
qed

end
