(* ===== verification/Clocked.thy ===== *)
theory Clocked
  imports O3_Prelude
begin

text \<open>
  The interfaces every clocked reference model of the repository shares. \<open>py_run\<close> feeds a list of
  per-cycle inputs to a \<open>tick\<close> that may raise. The locale \<open>clocked\<close> is the contract of one
  component: its \<open>tick\<close> never raises on legal inputs, keeps the component's invariant, and forgets
  everything on a reset cycle. The locale \<open>train_pipe\<close> is the contract of a table written through
  one pipeline register: it relates the models that write a training packet in the cycle they receive
  it (\<open>legacy_btb_reference.py\<close>, \<open>legacy_tage_reference.py\<close>) with those that write it one cycle later
  and forward the written value to the read of that cycle (\<open>btb_model.py\<close>, \<open>tage_model.py\<close>).
\<close>

section \<open>Runs\<close>

fun py_run :: "('s \<Rightarrow> 'i \<Rightarrow> 's py) \<Rightarrow> 's \<Rightarrow> 'i list \<Rightarrow> 's py" where
  "py_run step s [] = Inr s"
| "py_run step s (i # is) = py_bind (step s i) (\<lambda>s'. py_run step s' is)"

lemma py_run_append:
  "py_run step s (xs @ ys) = py_bind (py_run step s xs) (\<lambda>s'. py_run step s' ys)"
proof (induction xs arbitrary: s)
  case Nil
  show ?case by simp
next
  case (Cons x xs)
  then show ?case by (cases "step s x") simp_all
qed

lemma py_run_total: "py_run (\<lambda>s i. Inr (f s i)) s is = Inr (foldl f s is)"
  by (induction "is" arbitrary: s) simp_all

section \<open>The contract of a clocked component\<close>

text \<open>
  \<open>monitored\<close> is the contract of a checker: a step may raise, and an accepted step whose environment is \<open>ok\<close>
  keeps the invariant. It says nothing about which inputs are accepted.
\<close>

locale monitored =
  fixes init :: 's
    and step :: "'s \<Rightarrow> 'i \<Rightarrow> 's py"
    and ok :: "'s \<Rightarrow> 'i \<Rightarrow> bool"
    and inv :: "'s \<Rightarrow> bool"
  assumes inv_init: "inv init"
    and step_keeps: "inv s \<Longrightarrow> ok s i \<Longrightarrow> step s i = Inr s' \<Longrightarrow> inv s'"
begin

inductive accepted :: "'s \<Rightarrow> bool" where
  accepted_init: "accepted init"
| accepted_step: "accepted s \<Longrightarrow> ok s i \<Longrightarrow> step s i = Inr s' \<Longrightarrow> accepted s'"

lemma accepted_inv: "accepted s \<Longrightarrow> inv s"
  by (induction rule: accepted.induct) (auto intro: inv_init step_keeps)

text \<open>The environment of a whole run.\<close>

fun run_ok :: "'s \<Rightarrow> 'i list \<Rightarrow> bool" where
  "run_ok s [] \<longleftrightarrow> True"
| "run_ok s (i # is) \<longleftrightarrow> ok s i \<and> (case step s i of Inl e \<Rightarrow> True | Inr s' \<Rightarrow> run_ok s' is)"

lemma run_okI: "ok s i \<Longrightarrow> step s i = Inr s' \<Longrightarrow> run_ok s' is \<Longrightarrow> run_ok s (i # is)"
  by simp

lemma run_inv: "inv s \<Longrightarrow> run_ok s is \<Longrightarrow> py_run step s is = Inr s' \<Longrightarrow> inv s'"
proof (induction "is" arbitrary: s)
  case Nil
  then show ?case by simp
next
  case (Cons i "is")
  then obtain s1 where "step s i = Inr s1" "py_run step s1 is = Inr s'"
    by (auto simp: py_bind_Inr_iff)
  with Cons show ?case by (auto intro: step_keeps)
qed

end

text \<open>
  \<open>guarded\<close> lets the legal inputs depend on the state, as a handshake does; \<open>clocked\<close> is the special case
  of an input that is legal or not by itself.
\<close>

locale guarded =
  fixes init :: 's
    and step :: "'s \<Rightarrow> 'i \<Rightarrow> 's py"
    and resets :: "'i \<Rightarrow> bool"
    and legal :: "'s \<Rightarrow> 'i \<Rightarrow> bool"
    and inv :: "'s \<Rightarrow> bool"
  assumes inv_init: "inv init"
    and step_safe: "inv s \<Longrightarrow> legal s i \<Longrightarrow> \<exists>s'. step s i = Inr s' \<and> inv s'"
    and step_reset: "resets i \<Longrightarrow> step s i = Inr init"
begin

text \<open>The states reached by legal inputs.\<close>

inductive reached :: "'s \<Rightarrow> bool" where
  reached_init: "reached init"
| reached_step: "reached s \<Longrightarrow> legal s i \<Longrightarrow> step s i = Inr s' \<Longrightarrow> reached s'"

lemma step_inv: "inv s \<Longrightarrow> legal s i \<Longrightarrow> step s i = Inr s' \<Longrightarrow> inv s'"
  using step_safe by fastforce

lemma reached_inv: "reached s \<Longrightarrow> inv s"
  by (induction rule: reached.induct) (auto intro: inv_init step_inv)

lemma run_after_reset: "resets i \<Longrightarrow> py_run step s (i # is) = py_run step init is"
  by (simp add: step_reset)

lemma run_forgets:
  assumes "py_run step s xs = Inr s1" and "resets i"
  shows "py_run step s (xs @ i # ys) = py_run step init ys"
  using assms by (simp add: py_run_append step_reset)

end

locale clocked =
  fixes init :: 's
    and step :: "'s \<Rightarrow> 'i \<Rightarrow> 's py"
    and resets :: "'i \<Rightarrow> bool"
    and legal :: "'i \<Rightarrow> bool"
    and inv :: "'s \<Rightarrow> bool"
  assumes inv_init: "inv init"
    and step_safe: "inv s \<Longrightarrow> legal i \<Longrightarrow> \<exists>s'. step s i = Inr s' \<and> inv s'"
    and step_reset: "resets i \<Longrightarrow> step s i = Inr init"

sublocale clocked \<subseteq> gd: guarded init step resets "\<lambda>s. legal" inv
  by unfold_locales (fact inv_init step_safe step_reset)+

context clocked
begin

lemma run_safe_from: "inv s \<Longrightarrow> list_all legal is \<Longrightarrow> \<exists>s'. py_run step s is = Inr s' \<and> inv s'"
proof (induction "is" arbitrary: s)
  case Nil
  then show ?case by simp
next
  case (Cons i "is")
  then obtain s1 where "step s i = Inr s1" "inv s1" using step_safe by fastforce
  with Cons show ?case by auto
qed

lemma run_safe: "list_all legal is \<Longrightarrow> \<exists>s'. py_run step init is = Inr s' \<and> inv s'"
  by (rule run_safe_from [OF inv_init])

end

section \<open>A table written through one pipeline register\<close>

text \<open>
  A predictor holds a table \<open>'t\<close> and a read pipeline \<open>'f\<close>. The direct organisation samples the table
  for the read and then writes the cycle's packet; the piped one first writes the packet of the cycle
  before, samples the table so written, and keeps the new packet for the next cycle.
\<close>

locale train_pipe =
  fixes wr :: "'p \<Rightarrow> 't \<Rightarrow> 't"
    and idle :: 'p
    and front :: "'i \<Rightarrow> 't \<Rightarrow> 'f \<Rightarrow> 'f"
    and resets :: "'i \<Rightarrow> bool"
    and t0 :: 't
    and f0 :: 'f
  assumes wr_idle: "wr idle t = t"
begin

fun direct :: "'t \<times> 'f \<Rightarrow> 'i \<times> 'p \<Rightarrow> 't \<times> 'f" where
  "direct (t, f) (i, p) = (if resets i then (t0, f0) else (wr p t, front i t f))"

fun piped :: "'t \<times> 'p \<times> 'f \<Rightarrow> 'i \<times> 'p \<Rightarrow> 't \<times> 'p \<times> 'f" where
  "piped (t, w, f) (i, p) =
     (if resets i then (t0, idle, f0) else (wr w t, p, front i (wr w t) f))"

fun settle :: "'t \<times> 'p \<times> 'f \<Rightarrow> 't \<times> 'f" where
  "settle (t, w, f) = (wr w t, f)"

lemma settle_init: "settle (t0, idle, f0) = (t0, f0)"
  by (simp add: wr_idle)

text \<open>
  Writing the register's packet maps the piped state to the direct one, step by step; the read
  pipeline is the same in both. On a reset cycle the packet register is cleared, so the direct
  machine sees no packet.
\<close>

lemma settle_step: "settle (piped s (i, p)) = direct (settle s) (i, p)"
  by (cases s) (auto simp: wr_idle)

lemma settle_run: "settle (foldl piped s xs) = foldl direct (settle s) xs"
proof (induction xs arbitrary: s)
  case Nil
  show ?case by simp
next
  case (Cons x xs)
  then show ?case by (cases x) (simp add: settle_step del: piped.simps direct.simps settle.simps)
qed

end

end
