(* ===== verification/TAGE.thy ===== *)
theory TAGE
  imports Clocked
begin

text \<open>
  The TAGE direction predictor: \<open>sim/cocotb/tage/tage_model.py\<close> (\<open>TageModel\<close>, training through two
  registers with a bank-conflict handshake) and \<open>legacy_tage_reference.py\<close> (training in the cycle of
  the packet). A bimodal base table, tagged tables of growing history length whose rows hold one counter
  and one usefulness count per slot, the two-stage query pipeline, and the metadata word that carries
  a prediction to its training.
\<close>

section \<open>Data\<close>

record tage_train =
  tt_valid :: bool
  tt_pc :: nat
  tt_folds :: nat
  tt_meta :: nat
  tt_commit_mask :: nat
  tt_taken_mask :: nat

definition tage_train_idle :: tage_train where
  "tage_train_idle = \<lparr>tt_valid = False, tt_pc = 0, tt_folds = 0, tt_meta = 0, tt_commit_mask = 0,
     tt_taken_mask = 0\<rparr>"

record tage_inputs =
  ti_rst :: bool
  ti_query_valid :: bool
  ti_pc :: nat
  ti_folds :: nat
  ti_stall :: bool
  ti_kill :: bool
  ti_train :: tage_train

record tage_response =
  tr_taken_mask :: nat
  tr_provider_hit_mask :: nat
  tr_meta :: nat

definition tage_no_response :: tage_response where
  "tage_no_response = \<lparr>tr_taken_mask = 0, tr_provider_hit_mask = 0, tr_meta = 0\<rparr>"

record tage_row =
  row_valid :: bool
  row_tag :: nat
  row_ctr :: "nat list"
  row_useful :: "nat list"

record tage_query =
  tq_pc :: nat
  tq_folds :: nat
  tq_base_idx :: nat
  tq_idx :: "nat list"
  tq_tags :: "nat list"

record tage_snapshot =
  ts_query :: tage_query
  ts_base :: "nat list"
  ts_rows :: "tage_row list"

section \<open>Parameters\<close>

record tage_cfg =
  tc_vaddr_bits :: nat
  tc_region_bytes :: nat
  tc_slots :: nat
  tc_tables :: nat
  tc_base_entries :: nat
  tc_index_bits :: "nat list"
  tc_tag_bits :: "nat list"
  tc_ctr_bits :: nat
  tc_useful_bits :: nat

definition tc_shift :: "tage_cfg \<Rightarrow> nat" where
  "tc_shift c = bit_length (tc_region_bytes c) - 1"

definition tc_weak_nt :: "tage_cfg \<Rightarrow> nat" where
  "tc_weak_nt c = push_bit (tc_ctr_bits c - 1) 1 - 1"

definition tc_weak_taken :: "tage_cfg \<Rightarrow> nat" where
  "tc_weak_taken c = tc_weak_nt c + 1"

definition tc_ctr_max :: "tage_cfg \<Rightarrow> nat" where
  "tc_ctr_max c = push_bit (tc_ctr_bits c) 1 - 1"

definition tc_useful_max :: "tage_cfg \<Rightarrow> nat" where
  "tc_useful_max c = push_bit (tc_useful_bits c) 1 - 1"

definition tage_base_code :: nat where
  "tage_base_code = 7"

definition tc_alt_offset :: "tage_cfg \<Rightarrow> nat" where
  "tc_alt_offset c = tc_slots c * 3"

definition tc_provider_pred_offset :: "tage_cfg \<Rightarrow> nat" where
  "tc_provider_pred_offset c = tc_alt_offset c + tc_slots c"

definition tc_final_offset :: "tage_cfg \<Rightarrow> nat" where
  "tc_final_offset c = tc_provider_pred_offset c + tc_slots c"

section \<open>State and reset\<close>

record tage_tables =
  tg_base :: "nat list list"
  tg_tagged :: "tage_row list list"

record tage_state = tage_tables +
  tg_pending_train :: tage_train
  tg_write_train :: tage_train
  tg_s1 :: "tage_query option"
  tg_s2 :: "tage_snapshot option"

definition tage_empty_row :: "tage_cfg \<Rightarrow> tage_row" where
  "tage_empty_row c = \<lparr>row_valid = False, row_tag = 0, row_ctr = replicate (tc_slots c) 0,
     row_useful = replicate (tc_slots c) 0\<rparr>"

definition tage_empty :: "tage_cfg \<Rightarrow> tage_tables" where
  "tage_empty c = \<lparr>
     tg_base = replicate (tc_base_entries c) (replicate (tc_slots c) (tc_weak_nt c)),
     tg_tagged = map (\<lambda>t. replicate (push_bit (tc_index_bits c ! t) 1) (tage_empty_row c))
       [0..<tc_tables c]\<rparr>"

definition tage_reset :: "tage_cfg \<Rightarrow> tage_state" where
  "tage_reset c = tage_tables.extend (tage_empty c)
     \<lparr>tg_pending_train = tage_train_idle, tg_write_train = tage_train_idle, tg_s1 = None, tg_s2 = None\<rparr>"

text \<open>
  The constructor's two assertions, and the shapes its callers pass: one index and one tag width for
  each table, no width zero, and table numbers below the metadata code of the base table.
\<close>

definition tage_init :: "tage_cfg \<Rightarrow> tage_state py" where
  "tage_init c = (if pow2_test (tc_region_bytes c) \<and> pow2_test (tc_base_entries c)
                  then Inr (tage_reset c) else Inl AssertionError)"

definition tage_cfg_ok :: "tage_cfg \<Rightarrow> bool" where
  "tage_cfg_ok c \<longleftrightarrow> pow2_test (tc_region_bytes c) \<and> pow2_test (tc_base_entries c) \<and>
     1 < tc_base_entries c \<and> length (tc_index_bits c) = tc_tables c \<and>
     length (tc_tag_bits c) = tc_tables c \<and> 0 \<notin> set (tc_index_bits c) \<and> 0 \<notin> set (tc_tag_bits c) \<and>
     tc_tables c \<le> tage_base_code \<and> 0 < tc_ctr_bits c \<and> 0 < tc_useful_bits c"

section \<open>Queries\<close>

definition tage_pc_fold :: "tage_cfg \<Rightarrow> nat \<Rightarrow> nat \<Rightarrow> nat" where
  "tage_pc_fold c pc width = xor_fold (tc_shift c) (tc_vaddr_bits c) width pc"

text \<open>The loop of \<open>query\<close> over the tables: index and tag of each, at a running offset into the folds.\<close>

fun tage_hashes :: "tage_cfg \<Rightarrow> nat \<Rightarrow> nat \<Rightarrow> nat \<Rightarrow> (nat \<times> nat) list \<Rightarrow> (nat \<times> nat) list" where
  "tage_hashes c pc folds offset [] = []"
| "tage_hashes c pc folds offset ((n, width) # ws) =
     (let hist_idx = drop_bit offset folds AND mask n;
          hist_tag = drop_bit (offset + n) folds AND mask width;
          hist_short = drop_bit (offset + n + width) folds AND mask (width - 1)
      in ((tage_pc_fold c pc n XOR hist_idx) AND mask n,
          (tage_pc_fold c pc width XOR hist_tag XOR push_bit 1 hist_short) AND mask width) #
         tage_hashes c pc folds (offset + (n + 2 * width - 1)) ws)"

definition tage_make_query :: "tage_cfg \<Rightarrow> nat \<Rightarrow> nat \<Rightarrow> tage_query" where
  "tage_make_query c pc folds =
     (let hs = tage_hashes c pc folds 0 (zip (tc_index_bits c) (tc_tag_bits c)) in
      \<lparr>tq_pc = pc, tq_folds = folds,
       tq_base_idx = tage_pc_fold c pc (bit_length (tc_base_entries c) - 1),
       tq_idx = map fst hs, tq_tags = map snd hs\<rparr>)"

definition tage_rows_at :: "tage_cfg \<Rightarrow> 'a tage_tables_scheme \<Rightarrow> nat list \<Rightarrow> tage_row list" where
  "tage_rows_at c s idx = map (\<lambda>t. tg_tagged s ! t ! (idx ! t)) [0..<tc_tables c]"

definition tage_take_snapshot :: "tage_cfg \<Rightarrow> 'a tage_tables_scheme \<Rightarrow> tage_query \<Rightarrow> tage_snapshot" where
  "tage_take_snapshot c s q = \<lparr>ts_query = q, ts_base = tg_base s ! tq_base_idx q,
     ts_rows = tage_rows_at c s (tq_idx q)\<rparr>"

section \<open>Prediction\<close>

text \<open>The loop variables of \<open>predict\<close> for one slot.\<close>

record tage_choice =
  ch_provider :: nat
  ch_ctr :: nat
  ch_pred :: nat
  ch_alt :: nat
  ch_useful :: nat

definition tage_pred_bit :: "tage_cfg \<Rightarrow> nat \<Rightarrow> nat" where
  "tage_pred_bit c ctr = drop_bit (tc_ctr_bits c - 1) ctr AND 1"

fun tage_scan :: "tage_cfg \<Rightarrow> nat \<Rightarrow> nat \<Rightarrow> (tage_row \<times> nat) list \<Rightarrow> tage_choice \<Rightarrow> tage_choice" where
  "tage_scan c slot t [] ch = ch"
| "tage_scan c slot t ((row, tag) # rows) ch =
     tage_scan c slot (Suc t) rows
       (if row_valid row \<and> row_tag row = tag
        then \<lparr>ch_provider = t, ch_ctr = row_ctr row ! slot, ch_pred = tage_pred_bit c (row_ctr row ! slot),
              ch_alt = ch_pred ch, ch_useful = row_useful row ! slot\<rparr>
        else ch)"

definition tage_choose :: "tage_cfg \<Rightarrow> tage_snapshot \<Rightarrow> nat \<Rightarrow> tage_choice" where
  "tage_choose c sn slot =
     (let ctr = ts_base sn ! slot; pred = tage_pred_bit c ctr in
      tage_scan c slot 0 (zip (ts_rows sn) (tq_tags (ts_query sn)))
        \<lparr>ch_provider = tage_base_code, ch_ctr = ctr, ch_pred = pred, ch_alt = pred, ch_useful = 0\<rparr>)"

definition tage_final :: "tage_cfg \<Rightarrow> tage_choice \<Rightarrow> nat" where
  "tage_final c ch =
     (if ch_provider ch \<noteq> tage_base_code \<and> ch_useful ch = 0 \<and>
         (ch_ctr ch = tc_weak_nt c \<or> ch_ctr ch = tc_weak_taken c)
      then ch_alt ch else ch_pred ch)"

definition tage_add_slot :: "tage_cfg \<Rightarrow> tage_snapshot \<Rightarrow> tage_response \<Rightarrow> nat \<Rightarrow> tage_response" where
  "tage_add_slot c sn r slot =
     (let ch = tage_choose c sn slot; final = tage_final c ch in
      \<lparr>tr_taken_mask = tr_taken_mask r OR push_bit slot final,
       tr_provider_hit_mask = tr_provider_hit_mask r OR
         push_bit slot (of_bool (ch_provider ch \<noteq> tage_base_code)),
       tr_meta = tr_meta r OR push_bit (slot * 3) (ch_provider ch)
         OR push_bit (tc_alt_offset c + slot) (ch_alt ch)
         OR push_bit (tc_provider_pred_offset c + slot) (ch_pred ch)
         OR push_bit (tc_final_offset c + slot) final\<rparr>)"

definition tage_predict :: "tage_cfg \<Rightarrow> tage_snapshot \<Rightarrow> tage_response" where
  "tage_predict c sn = foldl (tage_add_slot c sn) tage_no_response [0..<tc_slots c]"

section \<open>Handshake and outputs\<close>

definition tage_ready :: "tage_cfg \<Rightarrow> tage_state \<Rightarrow> tage_inputs \<Rightarrow> bool" where
  "tage_ready c s i =
     (if ti_rst i then False else
      let pending = tg_pending_train s; incoming = ti_train i in
      if \<not> (tt_valid pending \<and> tt_commit_mask pending \<noteq> 0 \<and> tt_commit_mask incoming \<noteq> 0) then True
      else let a = tage_make_query c (tt_pc pending) (tt_folds pending);
               b = tage_make_query c (tt_pc incoming) (tt_folds incoming)
           in tq_base_idx a \<noteq> tq_base_idx b \<and> list_all (\<lambda>(x, y). x \<noteq> y) (zip (tq_idx a) (tq_idx b)))"

definition tage_respond :: "tage_cfg \<Rightarrow> tage_snapshot option \<Rightarrow> tage_inputs \<Rightarrow> bool \<times> tage_response" where
  "tage_respond c s2 i =
     (case s2 of
        Some sn \<Rightarrow> if ti_rst i \<or> ti_stall i \<or> ti_kill i then (False, tage_no_response)
                   else (True, tage_predict c sn)
      | None \<Rightarrow> (False, tage_no_response))"

definition tage_visible :: "tage_cfg \<Rightarrow> tage_state \<Rightarrow> tage_inputs \<Rightarrow> bool \<times> bool \<times> tage_response" where
  "tage_visible c s i =
     (let (valid, r) = tage_respond c (tg_s2 s) i in (valid, tage_ready c s i, r))"

section \<open>Training\<close>

definition tage_train_ctr :: "tage_cfg \<Rightarrow> nat \<Rightarrow> nat \<Rightarrow> nat" where
  "tage_train_ctr c ctr taken = (if taken \<noteq> 0 then sat_inc (tc_ctr_max c) ctr else sat_dec ctr)"

definition tage_train_useful :: "tage_cfg \<Rightarrow> nat \<Rightarrow> bool \<Rightarrow> nat" where
  "tage_train_useful c useful up = (if up then sat_inc (tc_useful_max c) useful else sat_dec useful)"

text \<open>The fields of the metadata word that \<open>train\<close> reads for a slot (lines 188-191).\<close>

definition meta_provider :: "nat \<Rightarrow> nat \<Rightarrow> nat" where
  "meta_provider meta slot = drop_bit (slot * 3) meta AND 7"

definition meta_alt :: "tage_cfg \<Rightarrow> nat \<Rightarrow> nat \<Rightarrow> nat" where
  "meta_alt c meta slot = drop_bit (tc_alt_offset c + slot) meta AND 1"

definition meta_pred :: "tage_cfg \<Rightarrow> nat \<Rightarrow> nat \<Rightarrow> nat" where
  "meta_pred c meta slot = drop_bit (tc_provider_pred_offset c + slot) meta AND 1"

definition meta_final :: "tage_cfg \<Rightarrow> nat \<Rightarrow> nat \<Rightarrow> nat" where
  "meta_final c meta slot = drop_bit (tc_final_offset c + slot) meta AND 1"

text \<open>Rows under training: the working copies and which of them were touched.\<close>

record tage_work =
  tw_base :: "nat list"
  tw_rows :: "tage_row list"
  tw_touched :: "bool list"

definition tage_touch :: "nat \<Rightarrow> tage_row \<Rightarrow> tage_work \<Rightarrow> tage_work" where
  "tage_touch t row w = w\<lparr>tw_rows := (tw_rows w)[t := row], tw_touched := (tw_touched w)[t := True]\<rparr>"

text \<open>Lines 192-199: the provider's counter and usefulness.\<close>

definition tage_train_provider ::
  "tage_cfg \<Rightarrow> tage_query \<Rightarrow> tage_row list \<Rightarrow> nat \<Rightarrow> nat \<Rightarrow> nat \<Rightarrow> tage_work \<Rightarrow> tage_work" where
  "tage_train_provider c q original meta slot actual w =
     (let provider = meta_provider meta slot; alt_pred = meta_alt c meta slot;
          provider_pred = meta_pred c meta slot
      in if provider < tc_tables c \<and> row_valid (original ! provider) \<and>
            row_tag (original ! provider) = tq_tags q ! provider
         then let row = tw_rows w ! provider;
                  row1 = row\<lparr>row_ctr := (row_ctr row)[slot := tage_train_ctr c (row_ctr row ! slot) actual]\<rparr>;
                  row2 = (if provider_pred \<noteq> alt_pred
                          then row1\<lparr>row_useful := (row_useful row)[slot :=
                                 tage_train_useful c (row_useful row ! slot) (provider_pred = actual)]\<rparr>
                          else row1)
              in tage_touch provider row2 w
         else w)"

definition tage_can_allocate :: "tage_query \<Rightarrow> tage_row list \<Rightarrow> nat \<Rightarrow> bool" where
  "tage_can_allocate q rows t \<longleftrightarrow> \<not> row_valid (rows ! t) \<or> row_tag (rows ! t) = tq_tags q ! t \<or>
     list_all (\<lambda>u. u = 0) (row_useful (rows ! t))"

text \<open>Lines 208-213: the row that an allocation in table \<open>t\<close> leaves.\<close>

definition tage_allocated_row :: "tage_cfg \<Rightarrow> tage_query \<Rightarrow> nat \<Rightarrow> nat \<Rightarrow> nat \<Rightarrow> tage_row \<Rightarrow> tage_row" where
  "tage_allocated_row c q t slot actual row =
     (let row1 = (if \<not> row_valid row \<or> row_tag row \<noteq> tq_tags q ! t
                  then \<lparr>row_valid = True, row_tag = tq_tags q ! t,
                        row_ctr = replicate (tc_slots c) (tc_weak_nt c),
                        row_useful = replicate (tc_slots c) 0\<rparr>
                  else row)
      in row1\<lparr>row_ctr := (row_ctr row1)[slot := if actual \<noteq> 0 then tc_weak_taken c else tc_weak_nt c],
              row_useful := (row_useful row1)[slot := 0]\<rparr>)"

text \<open>Lines 200-220: on a misprediction, the first longer table with room allocates; otherwise the
  first longer row ages.\<close>

definition tage_allocate :: "tage_cfg \<Rightarrow> tage_query \<Rightarrow> nat \<Rightarrow> nat \<Rightarrow> nat \<Rightarrow> tage_work \<Rightarrow> tage_work" where
  "tage_allocate c q meta slot actual w =
     (if meta_final c meta slot \<noteq> actual then
        let provider = meta_provider meta slot;
            first_longer = (if provider < tc_tables c then provider + 1 else 0)
        in case find (tage_can_allocate q (tw_rows w)) [first_longer..<tc_tables c] of
             Some t \<Rightarrow> tage_touch t (tage_allocated_row c q t slot actual (tw_rows w ! t)) w
           | None \<Rightarrow>
               if first_longer < tc_tables c
               then let row = tw_rows w ! first_longer in
                    tage_touch first_longer
                      (row\<lparr>row_useful := map (\<lambda>u. tage_train_useful c u False) (row_useful row)\<rparr>) w
               else w
      else w)"

definition tage_train_slot ::
  "tage_cfg \<Rightarrow> tage_query \<Rightarrow> tage_row list \<Rightarrow> tage_train \<Rightarrow> tage_work \<Rightarrow> nat \<Rightarrow> tage_work" where
  "tage_train_slot c q original p w slot =
     (if tt_commit_mask p AND push_bit slot 1 = 0 then w else
      let actual = drop_bit slot (tt_taken_mask p) AND 1;
          w1 = w\<lparr>tw_base := (tw_base w)[slot := tage_train_ctr c (tw_base w ! slot) actual]\<rparr>
      in tage_allocate c q (tt_meta p) slot actual
           (tage_train_provider c q original (tt_meta p) slot actual w1))"

definition tage_train_active :: "tage_train \<Rightarrow> bool" where
  "tage_train_active p \<longleftrightarrow> \<not> (\<not> tt_valid p \<or> tt_commit_mask p = 0)"

definition tage_train_work :: "tage_cfg \<Rightarrow> tage_query \<Rightarrow> tage_train \<Rightarrow> nat list \<Rightarrow> tage_row list \<Rightarrow> tage_work" where
  "tage_train_work c q p base original =
     foldl (tage_train_slot c q original p)
       \<lparr>tw_base = base, tw_rows = original, tw_touched = replicate (tc_tables c) False\<rparr>
       [0..<tc_slots c]"

definition tage_write :: "tage_cfg \<Rightarrow> tage_train \<Rightarrow> tage_tables \<Rightarrow> tage_tables" where
  "tage_write c p s =
     (if \<not> tage_train_active p then s else
      let q = tage_make_query c (tt_pc p) (tt_folds p);
          w = tage_train_work c q p (tg_base s ! tq_base_idx q) (tage_rows_at c s (tq_idx q))
      in \<lparr>tg_base = (tg_base s)[tq_base_idx q := tw_base w],
          tg_tagged = map (\<lambda>t. if tw_touched w ! t
                               then (tg_tagged s ! t)[tq_idx q ! t := tw_rows w ! t]
                               else tg_tagged s ! t) [0..<tc_tables c]\<rparr>)"

section \<open>Cycles\<close>

type_synonym tage_pipe_regs = "tage_query option \<times> tage_snapshot option"

definition tage_front ::
  "tage_cfg \<Rightarrow> tage_inputs \<Rightarrow> tage_tables \<Rightarrow> tage_pipe_regs \<Rightarrow> tage_pipe_regs" where
  "tage_front c i s f =
     (case f of (s1, s2) \<Rightarrow>
        if ti_kill i then (None, None)
        else if \<not> ti_stall i then
          (if ti_query_valid i then Some (tage_make_query c (ti_pc i) (ti_folds i)) else None,
           map_option (tage_take_snapshot c s) s1)
        else (s1, s2))"

definition tage_tick :: "tage_cfg \<Rightarrow> tage_state \<Rightarrow> tage_inputs \<Rightarrow> tage_state" where
  "tage_tick c s i =
     (if ti_rst i then tage_reset c else
      let accepted = tage_ready c s i;
          tab = tage_write c (tg_write_train s) (tage_tables.truncate s);
          (s1, s2) = tage_front c i tab (tg_s1 s, tg_s2 s)
      in tage_tables.extend tab
           \<lparr>tg_pending_train = (if accepted then ti_train i else tage_train_idle),
            tg_write_train = tg_pending_train s, tg_s1 = s1, tg_s2 = s2\<rparr>)"

section \<open>The legacy reference\<close>

record tage_legacy_state = tage_tables +
  tl_s1 :: "tage_query option"
  tl_s2 :: "tage_snapshot option"

definition tage_legacy_reset :: "tage_cfg \<Rightarrow> tage_legacy_state" where
  "tage_legacy_reset c = tage_tables.extend (tage_empty c) \<lparr>tl_s1 = None, tl_s2 = None\<rparr>"

definition tage_legacy_visible ::
  "tage_cfg \<Rightarrow> tage_legacy_state \<Rightarrow> tage_inputs \<Rightarrow> bool \<times> bool \<times> tage_response" where
  "tage_legacy_visible c s i =
     (let (valid, r) = tage_respond c (tl_s2 s) i in (valid, \<not> ti_rst i, r))"

definition tage_legacy_tick :: "tage_cfg \<Rightarrow> tage_legacy_state \<Rightarrow> tage_inputs \<Rightarrow> tage_legacy_state" where
  "tage_legacy_tick c s i =
     (if ti_rst i then tage_legacy_reset c else
      let (s1, s2) = tage_front c i (tage_tables.truncate s) (tl_s1 s, tl_s2 s)
      in tage_tables.extend (tage_write c (ti_train i) (tage_tables.truncate s))
           \<lparr>tl_s1 = s1, tl_s2 = s2\<rparr>)"

section \<open>Provider selection\<close>

definition tage_hit :: "tage_snapshot \<Rightarrow> nat \<Rightarrow> bool" where
  "tage_hit sn t \<longleftrightarrow> row_valid (ts_rows sn ! t) \<and> row_tag (ts_rows sn ! t) = tq_tags (ts_query sn) ! t"

lemma tage_scan_append:
  "tage_scan c slot t (xs @ ys) ch = tage_scan c slot (t + length xs) ys (tage_scan c slot t xs ch)"
  by (induction xs arbitrary: t ch) auto

text \<open>The scan over the first \<open>n\<close> tables, from its start value.\<close>

lemma tage_scan_result:
  fixes c slot rows tags ch0
  assumes "n \<le> length rows" "length tags = length rows"
  defines "ch \<equiv> tage_scan c slot 0 (take n (zip rows tags)) ch0"
  shows "(ch = ch0 \<and> (\<forall>t < n. \<not> (row_valid (rows ! t) \<and> row_tag (rows ! t) = tags ! t))) \<or>
    (ch_provider ch < n \<and> row_valid (rows ! ch_provider ch) \<and>
     row_tag (rows ! ch_provider ch) = tags ! ch_provider ch \<and>
     (\<forall>t. ch_provider ch < t \<longrightarrow> t < n \<longrightarrow> \<not> (row_valid (rows ! t) \<and> row_tag (rows ! t) = tags ! t)) \<and>
     ch_ctr ch = row_ctr (rows ! ch_provider ch) ! slot \<and>
     ch_useful ch = row_useful (rows ! ch_provider ch) ! slot \<and>
     ch_pred ch = tage_pred_bit c (ch_ctr ch))"
  using assms(1) unfolding ch_def
proof (induction n)
  case 0
  then show ?case by simp
next
  case (Suc n)
  let ?ch = "tage_scan c slot 0 (take n (zip rows tags)) ch0"
  have "take (Suc n) (zip rows tags) = take n (zip rows tags) @ [(rows ! n, tags ! n)]"
    using Suc.prems assms(2) by (simp add: take_Suc_conv_app_nth)
  then have step: "tage_scan c slot 0 (take (Suc n) (zip rows tags)) ch0 =
      (if row_valid (rows ! n) \<and> row_tag (rows ! n) = tags ! n
       then \<lparr>ch_provider = n, ch_ctr = row_ctr (rows ! n) ! slot,
             ch_pred = tage_pred_bit c (row_ctr (rows ! n) ! slot), ch_alt = ch_pred ?ch,
             ch_useful = row_useful (rows ! n) ! slot\<rparr> else ?ch)"
    using Suc.prems assms(2) by (simp add: tage_scan_append)
  show ?case
  proof (cases "row_valid (rows ! n) \<and> row_tag (rows ! n) = tags ! n")
    case True
    then show ?thesis unfolding step by simp
  next
    case False
    with Suc.IH Suc.prems show ?thesis unfolding step by (auto simp: less_Suc_eq)
  qed
qed

definition tage_snapshot_ok :: "tage_cfg \<Rightarrow> tage_snapshot \<Rightarrow> bool" where
  "tage_snapshot_ok c sn \<longleftrightarrow> length (ts_rows sn) = tc_tables c \<and>
     length (tq_tags (ts_query sn)) = tc_tables c"

lemma tage_choose_cases:
  assumes "tage_snapshot_ok c sn"
  shows "(ch_provider (tage_choose c sn slot) = tage_base_code \<and>
      ch_ctr (tage_choose c sn slot) = ts_base sn ! slot \<and> (\<forall>t < tc_tables c. \<not> tage_hit sn t) \<or>
    ch_provider (tage_choose c sn slot) < tc_tables c \<and> tage_hit sn (ch_provider (tage_choose c sn slot)) \<and>
      (\<forall>t. ch_provider (tage_choose c sn slot) < t \<longrightarrow> t < tc_tables c \<longrightarrow> \<not> tage_hit sn t) \<and>
      ch_ctr (tage_choose c sn slot) = row_ctr (ts_rows sn ! ch_provider (tage_choose c sn slot)) ! slot \<and>
      ch_useful (tage_choose c sn slot) =
        row_useful (ts_rows sn ! ch_provider (tage_choose c sn slot)) ! slot) \<and>
    ch_pred (tage_choose c sn slot) = tage_pred_bit c (ch_ctr (tage_choose c sn slot))"
  using tage_scan_result [of "tc_tables c" "ts_rows sn" "tq_tags (ts_query sn)" c slot
      "\<lparr>ch_provider = tage_base_code, ch_ctr = ts_base sn ! slot,
        ch_pred = tage_pred_bit c (ts_base sn ! slot),
        ch_alt = tage_pred_bit c (ts_base sn ! slot), ch_useful = 0\<rparr>"] assms
  by (auto simp: tage_choose_def tage_snapshot_ok_def tage_hit_def Let_def)

lemma tage_scan_provider:
  assumes "tage_snapshot_ok c sn" "tage_hit sn t" "t < tc_tables c"
    "\<And>u. t < u \<Longrightarrow> u < tc_tables c \<Longrightarrow> \<not> tage_hit sn u"
  shows "ch_provider (tage_choose c sn slot) = t \<and>
    ch_useful (tage_choose c sn slot) = row_useful (ts_rows sn ! t) ! slot \<and>
    ch_pred (tage_choose c sn slot) = tage_pred_bit c (row_ctr (ts_rows sn ! t) ! slot)"
proof -
  have "ch_provider (tage_choose c sn slot) = t"
    using tage_choose_cases [OF assms(1), of slot] assms(2-) by (metis linorder_neqE_nat)
  with tage_choose_cases [OF assms(1), of slot] assms(2,3) show ?thesis by auto
qed

text \<open>The provider of a slot is the longest-history table that hits, or the base table when none
  does; its counter, its usefulness and the predicted direction are read there.\<close>

theorem tage_choose_longest:
  assumes "tage_snapshot_ok c sn"
  shows "(ch_provider (tage_choose c sn slot) = tage_base_code \<and>
      ch_ctr (tage_choose c sn slot) = ts_base sn ! slot \<and> (\<forall>t < tc_tables c. \<not> tage_hit sn t) \<or>
    ch_provider (tage_choose c sn slot) < tc_tables c \<and> tage_hit sn (ch_provider (tage_choose c sn slot)) \<and>
      (\<forall>t. ch_provider (tage_choose c sn slot) < t \<longrightarrow> t < tc_tables c \<longrightarrow> \<not> tage_hit sn t) \<and>
      ch_ctr (tage_choose c sn slot) = row_ctr (ts_rows sn ! ch_provider (tage_choose c sn slot)) ! slot \<and>
      ch_useful (tage_choose c sn slot) =
        row_useful (ts_rows sn ! ch_provider (tage_choose c sn slot)) ! slot) \<and>
    ch_pred (tage_choose c sn slot) = tage_pred_bit c (ch_ctr (tage_choose c sn slot))"
  using assms by (rule tage_choose_cases)

section \<open>The metadata word carries the prediction to its training\<close>

lemma tage_pred_bit_le: "tage_pred_bit c ctr \<le> Suc 0"
  by (simp add: tage_pred_bit_def and_one_eq)

lemma tage_scan_alt_le:
  "ch_alt ch \<le> 1 \<Longrightarrow> ch_pred ch \<le> 1 \<Longrightarrow>
   ch_alt (tage_scan c slot t rs ch) \<le> 1 \<and> ch_pred (tage_scan c slot t rs ch) \<le> 1"
proof (induction rs arbitrary: t ch)
  case Nil
  then show ?case by simp
next
  case (Cons r rs)
  show ?case by (cases r) (use Cons in \<open>simp add: tage_pred_bit_le\<close>)
qed

lemma tage_choose_bits:
  "ch_alt (tage_choose c sn slot) \<le> 1" "ch_pred (tage_choose c sn slot) \<le> 1"
  "tage_final c (tage_choose c sn slot) \<le> 1"
proof -
  have "ch_alt (tage_choose c sn slot) \<le> 1 \<and> ch_pred (tage_choose c sn slot) \<le> 1"
    unfolding tage_choose_def Let_def by (rule tage_scan_alt_le) (simp_all add: tage_pred_bit_le)
  then show "ch_alt (tage_choose c sn slot) \<le> 1" "ch_pred (tage_choose c sn slot) \<le> 1"
    "tage_final c (tage_choose c sn slot) \<le> 1" by (simp_all add: tage_final_def)
qed

lemma tage_choose_provider_le:
  assumes "tage_cfg_ok c" "tage_snapshot_ok c sn"
  shows "ch_provider (tage_choose c sn slot) \<le> 7"
  using tage_choose_cases [OF assms(2), of slot] assms(1)
  by (auto simp: tage_cfg_ok_def tage_base_code_def)

definition tage_slot_word :: "tage_cfg \<Rightarrow> tage_snapshot \<Rightarrow> nat \<Rightarrow> nat" where
  "tage_slot_word c sn slot =
     (let ch = tage_choose c sn slot in
      push_bit (slot * 3) (ch_provider ch) OR push_bit (tc_alt_offset c + slot) (ch_alt ch)
      OR push_bit (tc_provider_pred_offset c + slot) (ch_pred ch)
      OR push_bit (tc_final_offset c + slot) (tage_final c ch))"

lemma bit_tage_meta_fold:
  "bit (tr_meta (foldl (tage_add_slot c sn) r xs)) k \<longleftrightarrow>
     bit (tr_meta r) k \<or> (\<exists>s \<in> set xs. bit (tage_slot_word c sn s) k)"
proof (induction xs arbitrary: r)
  case Nil
  then show ?case by simp
next
  case (Cons s xs)
  have "bit (tr_meta (tage_add_slot c sn r s)) k \<longleftrightarrow> bit (tr_meta r) k \<or> bit (tage_slot_word c sn s) k"
    by (simp add: tage_add_slot_def tage_slot_word_def Let_def bit_or_iff)
  with Cons show ?case by auto
qed

lemma bit_tage_meta:
  "bit (tr_meta (tage_predict c sn)) k \<longleftrightarrow> (\<exists>s < tc_slots c. bit (tage_slot_word c sn s) k)"
  by (auto simp: tage_predict_def bit_tage_meta_fold tage_no_response_def)

lemma bit_small: "(x::nat) \<le> 1 \<Longrightarrow> bit x i \<longleftrightarrow> i = 0 \<and> x = 1"
  using bit_1_iff [of i, where 'a = nat] by (cases "x = 0") (auto simp: le_Suc_eq)

lemma bit_lt8: "(x::nat) \<le> 7 \<Longrightarrow> bit x i \<Longrightarrow> i < 3"
  using less_exp_bit_iff [of x 3] by (simp, meson not_less)

lemma bit_slot_word:
  assumes "tage_cfg_ok c" "tage_snapshot_ok c sn"
  shows "bit (tage_slot_word c sn s) k \<longleftrightarrow>
    (s * 3 \<le> k \<and> bit (ch_provider (tage_choose c sn s)) (k - s * 3)) \<or>
    (k = tc_alt_offset c + s \<and> ch_alt (tage_choose c sn s) = 1) \<or>
    (k = tc_provider_pred_offset c + s \<and> ch_pred (tage_choose c sn s) = 1) \<or>
    (k = tc_final_offset c + s \<and> tage_final c (tage_choose c sn s) = 1)"
  using tage_choose_bits [of c sn s]
  by (auto simp: tage_slot_word_def Let_def bit_or_iff bit_push_bit_iff bit_small)

lemma tage_slot_word_provider:
  assumes "tage_cfg_ok c" "tage_snapshot_ok c sn" "s * 3 \<le> k"
    "bit (ch_provider (tage_choose c sn s)) (k - s * 3)"
  shows "k - s * 3 < 3"
  using bit_lt8 [OF tage_choose_provider_le [OF assms(1,2)] assms(4)] .

lemma bit_tage_meta_high:
  assumes "tage_cfg_ok c" "tage_snapshot_ok c sn" "tc_alt_offset c \<le> k"
  shows "bit (tr_meta (tage_predict c sn)) k \<longleftrightarrow> (\<exists>s < tc_slots c.
    (k = tc_alt_offset c + s \<and> ch_alt (tage_choose c sn s) = 1) \<or>
    (k = tc_provider_pred_offset c + s \<and> ch_pred (tage_choose c sn s) = 1) \<or>
    (k = tc_final_offset c + s \<and> tage_final c (tage_choose c sn s) = 1))"
proof -
  have "\<not> bit (ch_provider (tage_choose c sn s)) (k - s * 3)" if "s < tc_slots c" for s
  proof
    assume b: "bit (ch_provider (tage_choose c sn s)) (k - s * 3)"
    have "s * 3 \<le> k" using that assms(3) by (simp add: tc_alt_offset_def)
    with tage_slot_word_provider [OF assms(1,2) _ b] have "k < s * 3 + 3" by simp
    with that assms(3) show False by (simp add: tc_alt_offset_def)
  qed
  then show ?thesis unfolding bit_tage_meta bit_slot_word [OF assms(1,2)] by blast
qed

lemma bit_tage_meta_low:
  assumes "tage_cfg_ok c" "tage_snapshot_ok c sn" "slot < tc_slots c" "j < 3"
  shows "bit (tr_meta (tage_predict c sn)) (slot * 3 + j) \<longleftrightarrow> bit (ch_provider (tage_choose c sn slot)) j"
proof -
  have "s = slot" if "s * 3 \<le> slot * 3 + j" "bit (ch_provider (tage_choose c sn s)) (slot * 3 + j - s * 3)" for s
    using tage_slot_word_provider [OF assms(1,2) that] that(1) assms(4) by arith
  moreover have "slot * 3 + j < tc_slots c * 3" using assms(3,4) by arith
  ultimately show ?thesis
    using assms(3) unfolding bit_tage_meta bit_slot_word [OF assms(1,2)]
      tc_alt_offset_def tc_provider_pred_offset_def tc_final_offset_def
    by (metis add_diff_cancel_left' le_add1 not_add_less1 trans_le_add1 not_less)
qed

text \<open>Round trip: the provider, alternate, provider-prediction and final bits that \<open>train\<close> reads out of
  the metadata word are exactly those \<open>predict\<close> packed for the slot.\<close>

theorem tage_meta_roundtrip:
  assumes "tage_cfg_ok c" "tage_snapshot_ok c sn" "slot < tc_slots c"
  shows "meta_provider (tr_meta (tage_predict c sn)) slot = ch_provider (tage_choose c sn slot) \<and>
    meta_alt c (tr_meta (tage_predict c sn)) slot = ch_alt (tage_choose c sn slot) \<and>
    meta_pred c (tr_meta (tage_predict c sn)) slot = ch_pred (tage_choose c sn slot) \<and>
    meta_final c (tr_meta (tage_predict c sn)) slot = tage_final c (tage_choose c sn slot)"
proof -
  let ?m = "tr_meta (tage_predict c sn)"
  note offs = tc_alt_offset_def tc_provider_pred_offset_def tc_final_offset_def
  have one: "drop_bit k x AND 1 = of_bool (bit x k)" for k and x :: nat
    by (simp add: and_one_eq bit_iff_odd_drop_bit mod2_eq_if)
  have hi: "bit ?m (tc_alt_offset c + slot) \<longleftrightarrow> ch_alt (tage_choose c sn slot) = 1"
    "bit ?m (tc_provider_pred_offset c + slot) \<longleftrightarrow> ch_pred (tage_choose c sn slot) = 1"
    "bit ?m (tc_final_offset c + slot) \<longleftrightarrow> tage_final c (tage_choose c sn slot) = 1"
    using assms(3) by (subst bit_tage_meta_high [OF assms(1,2)], (auto simp: offs)[2])+
  have "meta_provider ?m slot = ch_provider (tage_choose c sn slot)"
  proof (rule bit_eqI)
    fix j
    have seven: "(7::nat) = mask 3" by (simp add: mask_eq_exp_minus_1)
    show "bit (meta_provider ?m slot) j = bit (ch_provider (tage_choose c sn slot)) j"
      using bit_tage_meta_low [OF assms, of j] bit_lt8 [OF tage_choose_provider_le [OF assms(1,2)]]
      by (auto simp: meta_provider_def seven bit_and_iff bit_drop_bit_eq bit_mask_iff)
  qed
  then show ?thesis
    using hi tage_choose_bits [of c sn slot]
    unfolding meta_alt_def meta_pred_def meta_final_def one by (auto simp: le_Suc_eq)
qed

section \<open>Well-formed tables\<close>

definition tage_row_ok :: "tage_cfg \<Rightarrow> nat \<Rightarrow> tage_row \<Rightarrow> bool" where
  "tage_row_ok c t r \<longleftrightarrow> length (row_ctr r) = tc_slots c \<and> length (row_useful r) = tc_slots c \<and>
     (\<forall>x \<in> set (row_ctr r). x \<le> tc_ctr_max c) \<and> (\<forall>u \<in> set (row_useful r). u \<le> tc_useful_max c) \<and>
     row_tag r < 2 ^ (tc_tag_bits c ! t)"

definition tage_base_ok :: "tage_cfg \<Rightarrow> nat list \<Rightarrow> bool" where
  "tage_base_ok c b \<longleftrightarrow> length b = tc_slots c \<and> (\<forall>x \<in> set b. x \<le> tc_ctr_max c)"

definition tage_tables_ok :: "tage_cfg \<Rightarrow> 'a tage_tables_scheme \<Rightarrow> bool" where
  "tage_tables_ok c s \<longleftrightarrow> length (tg_base s) = tc_base_entries c \<and>
     (\<forall>b \<in> set (tg_base s). tage_base_ok c b) \<and> length (tg_tagged s) = tc_tables c \<and>
     (\<forall>t < tc_tables c. length (tg_tagged s ! t) = 2 ^ (tc_index_bits c ! t) \<and>
        (\<forall>r \<in> set (tg_tagged s ! t). tage_row_ok c t r))"

definition tage_query_ok :: "tage_cfg \<Rightarrow> tage_query \<Rightarrow> bool" where
  "tage_query_ok c q \<longleftrightarrow> tq_base_idx q < tc_base_entries c \<and> length (tq_idx q) = tc_tables c \<and>
     length (tq_tags q) = tc_tables c \<and>
     (\<forall>t < tc_tables c. tq_idx q ! t < 2 ^ (tc_index_bits c ! t) \<and> tq_tags q ! t < 2 ^ (tc_tag_bits c ! t))"

definition tage_work_ok :: "tage_cfg \<Rightarrow> tage_row list \<Rightarrow> tage_work \<Rightarrow> bool" where
  "tage_work_ok c original w \<longleftrightarrow> tage_base_ok c (tw_base w) \<and> length (tw_rows w) = tc_tables c \<and>
     length (tw_touched w) = tc_tables c \<and>
     (\<forall>t < tc_tables c. tage_row_ok c t (tw_rows w ! t) \<and>
        (\<not> tw_touched w ! t \<longrightarrow> tw_rows w ! t = original ! t))"

lemma length_tage_hashes [simp]: "length (tage_hashes c pc folds off ws) = length ws"
  by (induction c pc folds off ws rule: tage_hashes.induct) (simp_all add: Let_def)

lemma tage_hashes_bound:
  "t < length ws \<Longrightarrow> fst (tage_hashes c pc folds off ws ! t) < 2 ^ fst (ws ! t) \<and>
   snd (tage_hashes c pc folds off ws ! t) < 2 ^ snd (ws ! t)"
proof (induction c pc folds off ws arbitrary: t rule: tage_hashes.induct)
  case (1 c pc folds offset)
  then show ?case by simp
next
  case (2 c pc folds offset n width ws)
  have "x AND mask k < 2 ^ k" for x k :: nat by (simp add: take_bit_eq_mask [symmetric])
  with 2 show ?case by (cases t) (simp_all add: Let_def)
qed

lemma tage_base_entries_exp:
  assumes "tage_cfg_ok c"
  obtains k where "tc_base_entries c = 2 ^ k" "0 < k"
proof -
  have "pow2_test (tc_base_entries c)" "1 < tc_base_entries c" using assms by (simp_all add: tage_cfg_ok_def)
  with pow2_test_imp_exp obtain k where k: "tc_base_entries c = 2 ^ k" by (metis less_trans zero_less_one)
  with \<open>1 < tc_base_entries c\<close> have "0 < k" by (cases k) simp_all
  with k show ?thesis by (rule that)
qed

lemma tage_make_query_ok:
  assumes "tage_cfg_ok c"
  shows "tage_query_ok c (tage_make_query c pc folds)"
proof -
  let ?ws = "zip (tc_index_bits c) (tc_tag_bits c)"
  have len: "length (tc_index_bits c) = tc_tables c" "length (tc_tag_bits c) = tc_tables c"
    using assms by (simp_all add: tage_cfg_ok_def)
  obtain k where k: "tc_base_entries c = 2 ^ k" "0 < k" using tage_base_entries_exp [OF assms] .
  have "tage_pc_fold c pc (bit_length (tc_base_entries c) - 1) < tc_base_entries c"
    using k by (simp add: tage_pc_fold_def xor_fold_less)
  moreover have "fst (tage_hashes c pc folds 0 ?ws ! t) < 2 ^ (tc_index_bits c ! t) \<and>
      snd (tage_hashes c pc folds 0 ?ws ! t) < 2 ^ (tc_tag_bits c ! t)" if "t < tc_tables c" for t
    using tage_hashes_bound [of t ?ws c pc folds 0] that len by simp
  ultimately show ?thesis
    using len by (simp add: tage_query_ok_def tage_make_query_def Let_def)
qed

lemma tage_ctr_bounds:
  assumes "0 < tc_ctr_bits c"
  shows "tc_weak_nt c \<le> tc_ctr_max c" "tc_weak_taken c \<le> tc_ctr_max c"
    "ctr \<le> tc_ctr_max c \<Longrightarrow> tage_train_ctr c ctr x \<le> tc_ctr_max c"
    "u \<le> tc_useful_max c \<Longrightarrow> tage_train_useful c u up \<le> tc_useful_max c"
proof -
  from assms obtain k where k: "tc_ctr_bits c = Suc k" by (auto simp: gr0_conv_Suc)
  have "(1::nat) \<le> 2 ^ k" by simp
  then show "tc_weak_nt c \<le> tc_ctr_max c" "tc_weak_taken c \<le> tc_ctr_max c"
    by (simp_all add: tc_weak_nt_def tc_weak_taken_def tc_ctr_max_def k)
qed (auto simp: tage_train_ctr_def tage_train_useful_def)

lemma ball_set_update: "\<forall>x \<in> set xs. P x \<Longrightarrow> P y \<Longrightarrow> \<forall>x \<in> set (xs[i := y]). P x"
  by (auto dest!: subsetD [OF set_update_subset_insert])

lemma tage_touch_ok:
  assumes "tage_work_ok c original w" "tage_row_ok c t r"
  shows "tage_work_ok c original (tage_touch t r w)"
proof -
  have "tage_row_ok c u ((tw_rows w)[t := r] ! u) \<and>
      (\<not> (tw_touched w)[t := True] ! u \<longrightarrow> (tw_rows w)[t := r] ! u = original ! u)"
    if "u < tc_tables c" for u
    using assms that by (cases "u = t") (simp_all add: tage_work_ok_def)
  with assms(1) show ?thesis by (simp add: tage_work_ok_def tage_touch_def)
qed

lemma tage_row_ok_ctr:
  assumes "tage_row_ok c t r" "y \<le> tc_ctr_max c"
  shows "tage_row_ok c t (r\<lparr>row_ctr := (row_ctr r)[slot := y]\<rparr>)"
  using assms ball_set_update [of "row_ctr r" "\<lambda>x. x \<le> tc_ctr_max c" y slot]
  by (simp add: tage_row_ok_def)

lemma tage_row_ok_useful:
  assumes "tage_row_ok c t r" "y \<le> tc_useful_max c"
  shows "tage_row_ok c t (r\<lparr>row_useful := (row_useful r)[slot := y]\<rparr>)"
  using assms ball_set_update [of "row_useful r" "\<lambda>x. x \<le> tc_useful_max c" y slot]
  by (simp add: tage_row_ok_def)

lemma tage_row_ok_nth:
  "tage_row_ok c t r \<Longrightarrow> slot < tc_slots c \<Longrightarrow> row_ctr r ! slot \<le> tc_ctr_max c"
  "tage_row_ok c t r \<Longrightarrow> slot < tc_slots c \<Longrightarrow> row_useful r ! slot \<le> tc_useful_max c"
  by (simp_all add: tage_row_ok_def)

lemma tage_train_provider_ok:
  assumes "tage_cfg_ok c" "tage_work_ok c original w" "slot < tc_slots c"
  shows "tage_work_ok c original (tage_train_provider c q original meta slot actual w)"
proof (cases "meta_provider meta slot < tc_tables c")
  case True
  let ?row = "tw_rows w ! meta_provider meta slot"
  have bits: "0 < tc_ctr_bits c" using assms(1) by (simp add: tage_cfg_ok_def)
  have row: "tage_row_ok c (meta_provider meta slot) ?row"
    using True assms by (simp add: tage_work_ok_def)
  note nth = tage_row_ok_nth [OF row assms(3)]
  have row1: "tage_row_ok c (meta_provider meta slot)
      (?row\<lparr>row_ctr := (row_ctr ?row)[slot := tage_train_ctr c (row_ctr ?row ! slot) actual]\<rparr>)"
    using row tage_ctr_bounds(3) [OF bits nth(1)] by (rule tage_row_ok_ctr)
  from tage_row_ok_useful [OF row1 tage_ctr_bounds(4) [OF bits nth(2)]] row1 assms(2)
  show ?thesis
    by (simp add: tage_train_provider_def Let_def tage_touch_ok)
qed (use assms in \<open>simp add: tage_train_provider_def Let_def\<close>)

lemma tage_allocated_row_ok:
  assumes "tage_cfg_ok c" "tage_query_ok c q" "tage_row_ok c t r" "t < tc_tables c"
  shows "tage_row_ok c t (tage_allocated_row c q t slot actual r)"
proof -
  have bits: "0 < tc_ctr_bits c" using assms(1) by (simp add: tage_cfg_ok_def)
  let ?r = "if \<not> row_valid r \<or> row_tag r \<noteq> tq_tags q ! t
    then \<lparr>row_valid = True, row_tag = tq_tags q ! t, row_ctr = replicate (tc_slots c) (tc_weak_nt c),
          row_useful = replicate (tc_slots c) 0\<rparr> else r"
  have "tage_row_ok c t ?r"
    using assms tage_ctr_bounds(1) [OF bits] by (simp add: tage_row_ok_def tage_query_ok_def)
  moreover have "(if actual \<noteq> 0 then tc_weak_taken c else tc_weak_nt c) \<le> tc_ctr_max c"
    using tage_ctr_bounds(1,2) [OF bits] by simp
  ultimately have "tage_row_ok c t (?r\<lparr>row_ctr := (row_ctr ?r)[slot :=
      if actual \<noteq> 0 then tc_weak_taken c else tc_weak_nt c]\<rparr>)" by (rule tage_row_ok_ctr)
  from tage_row_ok_useful [OF this, of 0 slot] show ?thesis
    by (simp add: tage_allocated_row_def Let_def)
qed

lemma tage_allocate_ok:
  assumes "tage_cfg_ok c" "tage_query_ok c q" "tage_work_ok c original w" "slot < tc_slots c"
  shows "tage_work_ok c original (tage_allocate c q meta slot actual w)"
proof -
  have rows: "t < tc_tables c \<Longrightarrow> tage_row_ok c t (tw_rows w ! t)" for t
    using assms(3) by (simp add: tage_work_ok_def)
  have alloc: "tage_row_ok c t (tage_allocated_row c q t slot actual (tw_rows w ! t))"
    if "t < tc_tables c" for t
    using assms(1,2) rows [OF that] that by (rule tage_allocated_row_ok)
  have age: "tage_row_ok c t ((tw_rows w ! t)\<lparr>row_useful :=
      map (\<lambda>u. tage_train_useful c u False) (row_useful (tw_rows w ! t))\<rparr>)" if "t < tc_tables c" for t
    using rows [OF that] assms(1) by (auto simp: tage_row_ok_def tage_cfg_ok_def tage_ctr_bounds)
  have "find P [a..<b] = Some t \<Longrightarrow> t < b" for P a b t
    by (auto simp: find_Some_iff)
  with assms(3) alloc age show ?thesis
    by (auto simp: tage_allocate_def Let_def intro!: tage_touch_ok split: option.splits)
qed

lemma tage_train_slot_ok:
  assumes "tage_cfg_ok c" "tage_query_ok c q" "tage_work_ok c original w" "slot < tc_slots c"
  shows "tage_work_ok c original (tage_train_slot c q original p w slot)"
proof -
  have bits: "0 < tc_ctr_bits c" using assms(1) by (simp add: tage_cfg_ok_def)
  have "tw_base w ! slot \<le> tc_ctr_max c"
    using assms(3,4) by (simp add: tage_work_ok_def tage_base_ok_def)
  then have "tage_train_ctr c (tw_base w ! slot) a \<le> tc_ctr_max c" for a
    by (rule tage_ctr_bounds(3) [OF bits])
  with assms(3) have "\<forall>x \<in> set ((tw_base w)[slot := tage_train_ctr c (tw_base w ! slot) a]). x \<le> tc_ctr_max c" for a
    by (intro ball_set_update) (simp_all add: tage_work_ok_def tage_base_ok_def)
  then have "tage_work_ok c original (w\<lparr>tw_base := (tw_base w)[slot := tage_train_ctr c (tw_base w ! slot) a]\<rparr>)" for a
    using assms(3) by (simp add: tage_work_ok_def tage_base_ok_def)
  then show ?thesis
    using assms by (simp add: tage_train_slot_def Let_def tage_allocate_ok tage_train_provider_ok)
qed

lemma tage_train_work_ok:
  assumes "tage_cfg_ok c" "tage_query_ok c q" "tage_base_ok c base" "length original = tc_tables c"
    "\<And>t. t < tc_tables c \<Longrightarrow> tage_row_ok c t (original ! t)"
  shows "tage_work_ok c original (tage_train_work c q p base original)"
proof -
  have "tage_work_ok c original (foldl (tage_train_slot c q original p) w xs)"
    if "tage_work_ok c original w" "set xs \<subseteq> {..<tc_slots c}" for w xs
    using that by (induction xs arbitrary: w) (auto simp: tage_train_slot_ok [OF assms(1,2)])
  then show ?thesis
    using assms(3-) by (simp add: tage_train_work_def tage_work_ok_def atLeast0LessThan)
qed

lemma tage_rows_at_ok:
  assumes "tage_tables_ok c s" "tage_query_ok c q" "t < tc_tables c"
  shows "tage_row_ok c t (tage_rows_at c s (tq_idx q) ! t)"
  using assms by (simp add: tage_rows_at_def tage_tables_ok_def tage_query_ok_def)

lemma length_tage_rows_at [simp]: "length (tage_rows_at c s idx) = tc_tables c"
  by (simp add: tage_rows_at_def)

lemma tage_write_work_ok:
  fixes c p s
  defines "q \<equiv> tage_make_query c (tt_pc p) (tt_folds p)"
  assumes "tage_cfg_ok c" "tage_tables_ok c s"
  shows "tage_work_ok c (tage_rows_at c s (tq_idx q))
    (tage_train_work c q p (tg_base s ! tq_base_idx q) (tage_rows_at c s (tq_idx q)))"
proof (rule tage_train_work_ok [OF assms(2)])
  show q: "tage_query_ok c q" unfolding q_def using assms(2) by (rule tage_make_query_ok)
  with assms(3) show "tage_base_ok c (tg_base s ! tq_base_idx q)"
    by (simp add: tage_tables_ok_def tage_query_ok_def)
  show "length (tage_rows_at c s (tq_idx q)) = tc_tables c" by simp
  show "tage_row_ok c t (tage_rows_at c s (tq_idx q) ! t)" if "t < tc_tables c" for t
    using assms(3) q that by (rule tage_rows_at_ok)
qed

text \<open>Untouched rows are unchanged, so the write stores every working row back.\<close>

lemma tage_write_active:
  fixes c p s
  defines "q \<equiv> tage_make_query c (tt_pc p) (tt_folds p)"
  defines "w \<equiv> tage_train_work c q p (tg_base s ! tq_base_idx q) (tage_rows_at c s (tq_idx q))"
  assumes "tage_cfg_ok c" "tage_tables_ok c s" "tage_train_active p"
  shows "tage_write c p s = \<lparr>tg_base = (tg_base s)[tq_base_idx q := tw_base w],
    tg_tagged = map (\<lambda>t. (tg_tagged s ! t)[tq_idx q ! t := tw_rows w ! t]) [0..<tc_tables c]\<rparr>"
proof -
  have "tage_work_ok c (tage_rows_at c s (tq_idx q)) w"
    unfolding w_def q_def by (rule tage_write_work_ok [OF assms(3,4)])
  then have "\<not> tw_touched w ! t \<Longrightarrow> tw_rows w ! t = tg_tagged s ! t ! (tq_idx q ! t)"
    if "t < tc_tables c" for t
    using that by (simp add: tage_work_ok_def tage_rows_at_def)
  then show ?thesis
    using assms(5) by (auto simp: tage_write_def Let_def q_def [symmetric] w_def [symmetric])
qed

lemma tage_write_ok:
  assumes c: "tage_cfg_ok c" and s: "tage_tables_ok c s"
  shows "tage_tables_ok c (tage_write c p s)"
proof (cases "tage_train_active p")
  case True
  let ?q = "tage_make_query c (tt_pc p) (tt_folds p)"
  let ?w = "tage_train_work c ?q p (tg_base s ! tq_base_idx ?q) (tage_rows_at c s (tq_idx ?q))"
  have w: "tage_work_ok c (tage_rows_at c s (tq_idx ?q)) ?w" using c s by (rule tage_write_work_ok)
  then have "\<forall>b \<in> set ((tg_base s)[tq_base_idx ?q := tw_base ?w]). tage_base_ok c b"
    using s by (intro ball_set_update) (simp_all add: tage_tables_ok_def tage_work_ok_def)
  moreover have "\<forall>r \<in> set ((tg_tagged s ! t)[tq_idx ?q ! t := tw_rows ?w ! t]). tage_row_ok c t r"
    if "t < tc_tables c" for t
    using that s w by (intro ball_set_update) (simp_all add: tage_tables_ok_def tage_work_ok_def)
  ultimately show ?thesis
    using s unfolding tage_write_active [OF c s True] by (simp add: tage_tables_ok_def)
qed (use s in \<open>simp add: tage_write_def\<close>)

section \<open>Runs keep the tables, the queries and the snapshots well formed\<close>

definition tage_snap_wf :: "tage_cfg \<Rightarrow> tage_snapshot \<Rightarrow> bool" where
  "tage_snap_wf c sn \<longleftrightarrow> tage_query_ok c (ts_query sn) \<and> tage_base_ok c (ts_base sn) \<and>
     length (ts_rows sn) = tc_tables c \<and> (\<forall>t < tc_tables c. tage_row_ok c t (ts_rows sn ! t))"

definition tage_wf :: "tage_cfg \<Rightarrow> tage_state \<Rightarrow> bool" where
  "tage_wf c s \<longleftrightarrow> tage_tables_ok c s \<and> pred_option (tage_query_ok c) (tg_s1 s) \<and>
     pred_option (tage_snap_wf c) (tg_s2 s)"

lemma tage_snap_wf_snapshot_ok: "tage_snap_wf c sn \<Longrightarrow> tage_snapshot_ok c sn"
  by (simp add: tage_snap_wf_def tage_snapshot_ok_def tage_query_ok_def)

lemma tage_take_snapshot_wf:
  assumes "tage_tables_ok c s" "tage_query_ok c q"
  shows "tage_snap_wf c (tage_take_snapshot c s q)"
  using assms tage_rows_at_ok [OF assms]
  by (simp add: tage_snap_wf_def tage_take_snapshot_def tage_tables_ok_def tage_query_ok_def)

lemma tage_tables_ok_extend [simp]:
  "tage_tables_ok c (tage_tables.extend t x) \<longleftrightarrow> tage_tables_ok c t"
  "tage_tables_ok c (tage_tables.truncate s) \<longleftrightarrow> tage_tables_ok c s"
  by (simp_all add: tage_tables_ok_def tage_tables.defs)

lemma tage_empty_ok:
  assumes "tage_cfg_ok c"
  shows "tage_tables_ok c (tage_empty c)"
proof -
  have "0 < tc_ctr_bits c" using assms by (simp add: tage_cfg_ok_def)
  with tage_ctr_bounds(1) have "tc_weak_nt c \<le> tc_ctr_max c" by blast
  then show ?thesis
    by (simp add: tage_tables_ok_def tage_empty_def tage_empty_row_def tage_base_ok_def tage_row_ok_def)
qed

lemma tage_wf_reset: "tage_cfg_ok c \<Longrightarrow> tage_wf c (tage_reset c)"
proof -
  assume "tage_cfg_ok c"
  then have "tage_tables_ok c (tage_reset c)" by (simp add: tage_reset_def tage_empty_ok)
  then show ?thesis by (simp add: tage_wf_def) (simp add: tage_reset_def tage_tables.defs)
qed

lemma tage_front_wf:
  assumes "tage_cfg_ok c" "tage_tables_ok c tab" "pred_option (tage_query_ok c) s1"
    "pred_option (tage_snap_wf c) s2"
  shows "pred_option (tage_query_ok c) (fst (tage_front c i tab (s1, s2))) \<and>
    pred_option (tage_snap_wf c) (snd (tage_front c i tab (s1, s2)))"
  using assms by (cases s1)
    (simp_all add: tage_front_def tage_make_query_ok tage_take_snapshot_wf)

lemma tage_tick_wf:
  assumes "tage_cfg_ok c" "tage_wf c s"
  shows "tage_wf c (tage_tick c s i)"
proof (cases "ti_rst i")
  case False
  let ?tab = "tage_write c (tg_write_train s) (tage_tables.truncate s)"
  have tab: "tage_tables_ok c ?tab"
    using assms by (intro tage_write_ok) (simp_all add: tage_wf_def)
  show ?thesis
    using False tab tage_front_wf [OF assms(1) tab, of "tg_s1 s" "tg_s2 s" i] assms(2)
    by (simp add: tage_tick_def tage_wf_def Let_def case_prod_beta tage_tables.defs
        tage_tables_ok_def)
qed (use assms(1) in \<open>simp add: tage_tick_def tage_wf_reset\<close>)

definition tage_inv :: "tage_cfg \<Rightarrow> tage_state \<Rightarrow> bool" where
  "tage_inv c s \<longleftrightarrow> (tage_cfg_ok c \<longrightarrow> tage_wf c s)"

interpretation tage_clk:
  clocked "tage_reset c" "\<lambda>s i. Inr (tage_tick c s i)" ti_rst "\<lambda>i. True" "tage_inv c" for c
  by unfold_locales (auto simp: tage_inv_def tage_wf_reset tage_tick_wf, simp add: tage_tick_def)

text \<open>After any sequence of cycles every counter and usefulness count of the tables is within its
  width, every tag and every stored index too, and so are the rows held in the read pipeline.\<close>

theorem tage_run_wf:
  assumes "tage_cfg_ok c"
  shows "tage_wf c (foldl (tage_tick c) (tage_reset c) is)"
  using tage_clk.run_safe [of "is" c] assms by (simp add: py_run_total tage_inv_def list.pred_True)

section \<open>The two training pipelines\<close>

interpretation tage_pipe:
  train_pipe "tage_write c" tage_train_idle "tage_front c" ti_rst "tage_empty c" "(None, None)" for c
  by unfold_locales (simp add: tage_write_def tage_train_active_def tage_train_idle_def)

abbreviation tage_view :: "tage_state \<Rightarrow> tage_tables \<times> tage_train \<times> tage_pipe_regs" where
  "tage_view s \<equiv> (tage_tables.truncate s, tg_write_train s, (tg_s1 s, tg_s2 s))"

abbreviation tage_legacy_view :: "tage_legacy_state \<Rightarrow> tage_tables \<times> tage_pipe_regs" where
  "tage_legacy_view s \<equiv> (tage_tables.truncate s, (tl_s1 s, tl_s2 s))"

lemma tage_tick_piped:
  "tage_view (tage_tick c s i) = tage_pipe.piped c (tage_view s) (i, tg_pending_train s)"
  by (cases "tage_front c i (tage_write c (tg_write_train s) (tage_tables.truncate s)) (tg_s1 s, tg_s2 s)")
    (simp add: tage_tick_def tage_reset_def Let_def tage_tables.defs)

lemma tage_legacy_tick_direct:
  "tage_legacy_view (tage_legacy_tick c s i) = tage_pipe.direct c (tage_legacy_view s) (i, ti_train i)"
  by (cases "tage_front c i (tage_tables.truncate s) (tl_s1 s, tl_s2 s)")
    (simp add: tage_legacy_tick_def tage_legacy_reset_def tage_tables.defs)

text \<open>The packets a run writes, in the cycle the legacy reference has to receive them.\<close>

fun tage_delayed :: "tage_cfg \<Rightarrow> tage_state \<Rightarrow> tage_inputs list \<Rightarrow> tage_inputs list" where
  "tage_delayed c s [] = []"
| "tage_delayed c s (i # is) =
     i\<lparr>ti_train := tg_pending_train s\<rparr> # tage_delayed c (tage_tick c s i) is"

lemma tage_front_train: "tage_front c (i\<lparr>ti_train := p\<rparr>) = tage_front c i"
  by (simp add: tage_front_def fun_eq_iff)

lemma tage_run_simulation:
  assumes "tage_legacy_view l = tage_pipe.settle c (tage_view s)"
  shows "tage_legacy_view (foldl (tage_legacy_tick c) l (tage_delayed c s is)) =
    tage_pipe.settle c (tage_view (foldl (tage_tick c) s is))"
  using assms
proof (induction "is" arbitrary: s l)
  case Nil
  then show ?case by simp
next
  case (Cons i "is")
  let ?j = "i\<lparr>ti_train := tg_pending_train s\<rparr>"
  have "tage_legacy_view (tage_legacy_tick c l ?j) =
      tage_pipe.direct c (tage_pipe.settle c (tage_view s)) (?j, tg_pending_train s)"
    using tage_legacy_tick_direct [of c l ?j] Cons.prems by simp
  also have "\<dots> = tage_pipe.settle c (tage_view (tage_tick c s i))"
    unfolding tage_tick_piped tage_pipe.settle_step [symmetric]
    by (simp add: tage_front_train)
  finally show ?case using Cons.IH by (simp del: tage_pipe.settle.simps)
qed

text \<open>C2: The two-register training pipeline refines the reference that trains at once: feeding the
  reference each accepted packet one cycle later (as it leaves \<open>pending_train\<close>) reproduces the read
  pipeline, hence every response, and the tables up to the packet still held in \<open>write_train\<close>.\<close>

theorem tage_legacy_refinement:
  fixes c "is"
  defines "s \<equiv> foldl (tage_tick c) (tage_reset c) is"
  defines "l \<equiv> foldl (tage_legacy_tick c) (tage_legacy_reset c) (tage_delayed c (tage_reset c) is)"
  shows "tage_tables.truncate l = tage_write c (tg_write_train s) (tage_tables.truncate s) \<and>
    tl_s1 l = tg_s1 s \<and> tl_s2 l = tg_s2 s \<and>
    (\<forall>i. fst (tage_legacy_visible c l i) = fst (tage_visible c s i) \<and>
         snd (snd (tage_legacy_visible c l i)) = snd (snd (tage_visible c s i)))"
proof -
  have "tage_legacy_view (tage_legacy_reset c) = tage_pipe.settle c (tage_view (tage_reset c))"
    by (simp add: tage_legacy_reset_def tage_reset_def tage_tables.defs tage_pipe.wr_idle)
  from tage_run_simulation [OF this, of "is"] show ?thesis
    by (simp add: s_def [symmetric] l_def [symmetric] tage_legacy_visible_def tage_visible_def
        case_prod_beta)
qed

section \<open>Bank-conflict freedom\<close>

text \<open>Two packets that the handshake lets stand in the pipeline together touch different rows.\<close>

definition tage_disjoint :: "tage_cfg \<Rightarrow> tage_train \<Rightarrow> tage_train \<Rightarrow> bool" where
  "tage_disjoint c a b \<longleftrightarrow>
     (let qa = tage_make_query c (tt_pc a) (tt_folds a); qb = tage_make_query c (tt_pc b) (tt_folds b)
      in tq_base_idx qa \<noteq> tq_base_idx qb \<and> (\<forall>t < tc_tables c. tq_idx qa ! t \<noteq> tq_idx qb ! t))"

lemma tage_ready_disjoint:
  assumes "tage_cfg_ok c" "tage_ready c s i" "tage_train_active (tg_pending_train s)"
    "tage_train_active (ti_train i)"
  shows "tage_disjoint c (tg_pending_train s) (ti_train i)"
proof -
  let ?a = "tage_make_query c (tt_pc (tg_pending_train s)) (tt_folds (tg_pending_train s))"
  let ?b = "tage_make_query c (tt_pc (ti_train i)) (tt_folds (ti_train i))"
  have len: "length (tq_idx ?a) = tc_tables c" "length (tq_idx ?b) = tc_tables c"
    using tage_make_query_ok [OF assms(1)] by (simp_all add: tage_query_ok_def)
  have r: "tq_base_idx ?a \<noteq> tq_base_idx ?b"
    "list_all (\<lambda>(x, y). x \<noteq> y) (zip (tq_idx ?a) (tq_idx ?b))"
    using assms(2-4) by (simp_all add: tage_ready_def tage_train_active_def Let_def split: if_splits)
  have "tq_idx ?a ! t \<noteq> tq_idx ?b ! t" if "t < tc_tables c" for t
    using r(2) that len by (simp add: list_all_length)
  with r(1) show ?thesis by (simp add: tage_disjoint_def)
qed

lemma tage_rows_at_write:
  assumes "length (tg_tagged s) = tc_tables c"
    "\<And>t. t < tc_tables c \<Longrightarrow> idx ! t \<noteq> tq_idx (tage_make_query c (tt_pc p) (tt_folds p)) ! t"
  shows "tage_rows_at c (tage_write c p s) idx = tage_rows_at c s idx"
proof -
  have "tg_tagged (tage_write c p s) ! t ! (idx ! t) = tg_tagged s ! t ! (idx ! t)"
    if "t < tc_tables c" for t
    using assms(2) [OF that] that by (simp add: tage_write_def Let_def)
  then show ?thesis by (simp add: tage_rows_at_def)
qed

lemma tage_write_other_base:
  fixes c p s
  defines "q \<equiv> tage_make_query c (tt_pc p) (tt_folds p)"
  assumes "n \<noteq> tq_base_idx q"
  shows "tg_base (tage_write c p s) ! n = tg_base s ! n"
  using assms by (simp add: tage_write_def Let_def)

lemma tage_write_commute:
  assumes c: "tage_cfg_ok c" and s: "tage_tables_ok c s" and d: "tage_disjoint c a b"
  shows "tage_write c a (tage_write c b s) = tage_write c b (tage_write c a s)"
proof (cases "tage_train_active a \<and> tage_train_active b")
  case True
  define qa qb where "qa = tage_make_query c (tt_pc a) (tt_folds a)"
    and "qb = tage_make_query c (tt_pc b) (tt_folds b)"
  define W where "W p q u = tage_train_work c q p (tg_base u ! tq_base_idx q) (tage_rows_at c u (tq_idx q))"
    for p q and u :: tage_tables
  have len: "length (tg_tagged s) = tc_tables c" using s by (simp add: tage_tables_ok_def)
  have idx: "tq_base_idx qa \<noteq> tq_base_idx qb" "t < tc_tables c \<Longrightarrow> tq_idx qa ! t \<noteq> tq_idx qb ! t" for t
    using d by (simp_all add: tage_disjoint_def Let_def qa_def qb_def)
  have ok: "tage_tables_ok c (tage_write c p s)" for p using c s by (rule tage_write_ok)
  have wr: "tage_write c p u = \<lparr>tg_base = (tg_base u)[tq_base_idx q := tw_base (W p q u)],
      tg_tagged = map (\<lambda>t. (tg_tagged u ! t)[tq_idx q ! t := tw_rows (W p q u) ! t]) [0..<tc_tables c]\<rparr>"
    if "tage_tables_ok c u" "tage_train_active p" "q = tage_make_query c (tt_pc p) (tt_folds p)"
    for p q and u :: tage_tables
    using tage_write_active [OF c that(1,2)] by (simp add: that(3) W_def)
  have same: "W a qa (tage_write c b s) = W a qa s" "W b qb (tage_write c a s) = W b qb s"
    using idx(1) tage_rows_at_write [OF len, of "tq_idx qa" b]
      tage_rows_at_write [OF len, of "tq_idx qb" a] idx(2)
    by (simp_all add: W_def tage_write_other_base qa_def qb_def not_sym)
  note wa = wr [OF s _ qa_def] and wb = wr [OF s _ qb_def]
  have ab: "tage_write c a (tage_write c b s) =
      \<lparr>tg_base = (tg_base (tage_write c b s))[tq_base_idx qa := tw_base (W a qa s)],
       tg_tagged = map (\<lambda>t. (tg_tagged (tage_write c b s) ! t)[tq_idx qa ! t := tw_rows (W a qa s) ! t])
         [0..<tc_tables c]\<rparr>"
    using wr [OF ok _ qa_def] True same by simp
  have ba: "tage_write c b (tage_write c a s) =
      \<lparr>tg_base = (tg_base (tage_write c a s))[tq_base_idx qb := tw_base (W b qb s)],
       tg_tagged = map (\<lambda>t. (tg_tagged (tage_write c a s) ! t)[tq_idx qb ! t := tw_rows (W b qb s) ! t])
         [0..<tc_tables c]\<rparr>"
    using wr [OF ok _ qb_def] True same by simp
  have swap: "xs[tq_idx qb ! t := x, tq_idx qa ! t := y] = xs[tq_idx qa ! t := y, tq_idx qb ! t := x]"
    if "t < tc_tables c" for t x y and xs :: "tage_row list"
    using idx(2) [OF that] by (intro list_update_swap) simp
  show ?thesis
    using True unfolding ab ba by (simp add: wa wb swap list_update_swap [OF idx(1)])
next
  case False
  then show ?thesis by (auto simp: tage_write_def)
qed

text \<open>C3: The \<open>train_ready\<close> handshake keeps the training pipeline free of bank conflicts: an accepted packet
  and the one it follows train in either order with the same result, and writing the first does not
  change any row that the second reads.\<close>

theorem tage_ready_conflict_free:
  assumes "tage_cfg_ok c" "tage_ready c s i" "tage_train_active (tg_pending_train s)"
    "tage_train_active (ti_train i)" "tage_tables_ok c tab"
  shows "tage_write c (ti_train i) (tage_write c (tg_pending_train s) tab) =
      tage_write c (tg_pending_train s) (tage_write c (ti_train i) tab) \<and>
    tage_take_snapshot c (tage_write c (tg_pending_train s) tab)
        (tage_make_query c (tt_pc (ti_train i)) (tt_folds (ti_train i))) =
      tage_take_snapshot c tab (tage_make_query c (tt_pc (ti_train i)) (tt_folds (ti_train i)))"
proof -
  note d = tage_ready_disjoint [OF assms(1-4)]
  have len: "length (tg_tagged tab) = tc_tables c" using assms(5) by (simp add: tage_tables_ok_def)
  have "tage_rows_at c (tage_write c (tg_pending_train s) tab)
      (tq_idx (tage_make_query c (tt_pc (ti_train i)) (tt_folds (ti_train i)))) =
      tage_rows_at c tab (tq_idx (tage_make_query c (tt_pc (ti_train i)) (tt_folds (ti_train i))))"
    using d by (intro tage_rows_at_write [OF len]) (simp add: tage_disjoint_def Let_def not_sym)
  moreover note tage_write_commute [OF assms(1,5) d]
  ultimately show ?thesis
    using d by (simp add: tage_take_snapshot_def tage_write_other_base tage_disjoint_def Let_def not_sym)
qed

section \<open>What one training packet leaves behind\<close>

lemma tage_rows_at_written:
  fixes c p s
  defines "q \<equiv> tage_make_query c (tt_pc p) (tt_folds p)"
  assumes "tage_cfg_ok c" "tage_tables_ok c s" "tage_train_active p" "t < tc_tables c"
  shows "tage_rows_at c (tage_write c p s) (tq_idx q) ! t =
    tw_rows (tage_train_work c q p (tg_base s ! tq_base_idx q) (tage_rows_at c s (tq_idx q))) ! t"
proof -
  have "tq_idx q ! t < length (tg_tagged s ! t)"
    using tage_make_query_ok [OF assms(2)] assms(3,5)
    by (simp add: q_def tage_query_ok_def tage_tables_ok_def)
  with assms(5) show ?thesis
    using tage_write_active [OF assms(2-4)] by (simp add: q_def tage_rows_at_def)
qed

lemma foldl_single:
  assumes "\<And>w x. x \<in> set xs \<Longrightarrow> x \<noteq> k \<Longrightarrow> f w x = w" "distinct xs"
  shows "foldl f w xs = (if k \<in> set xs then f w k else w)"
  using assms by (induction xs arbitrary: w) (auto, metis)

lemma tage_single_slot_work:
  assumes "tt_commit_mask p = push_bit slot 1" "slot < tc_slots c"
  shows "tage_train_work c q p base original = tage_train_slot c q original p
    \<lparr>tw_base = base, tw_rows = original, tw_touched = replicate (tc_tables c) False\<rparr> slot"
proof -
  have "tage_train_slot c q original p w x = w" if "x \<noteq> slot" for w x
  proof -
    have "tt_commit_mask p AND push_bit x 1 = 0"
      using that bit_test_iff [of "push_bit slot 1" x]
      by (simp add: assms(1) bit_exp_iff)
    then show ?thesis by (simp add: tage_train_slot_def)
  qed
  then show ?thesis using assms(2) unfolding tage_train_work_def by (subst foldl_single [where k = slot]) auto
qed

lemma tage_pred_bit_weak:
  assumes "0 < tc_ctr_bits c"
  shows "tage_pred_bit c (tc_weak_taken c) = 1" "tage_pred_bit c (tc_weak_nt c) = 0"
  using assms by (simp_all add: tage_pred_bit_def tc_weak_taken_def tc_weak_nt_def drop_bit_eq_div)

lemma tage_train_provider_other:
  "u \<noteq> meta_provider meta slot \<Longrightarrow>
   tw_rows (tage_train_provider c q original meta slot actual w) ! u = tw_rows w ! u"
  by (simp add: tage_train_provider_def tage_touch_def Let_def)

lemma find_upt_first:
  assumes "a \<le> t" "t < b" "P t" "\<And>u. a \<le> u \<Longrightarrow> u < t \<Longrightarrow> \<not> P u"
  shows "find P [a..<b] = Some t"
  unfolding find_Some_iff using assms by (intro exI [of _ "t - a"]) auto

text \<open>The first table the misprediction path looks at.\<close>

definition tage_first_longer :: "tage_cfg \<Rightarrow> nat \<Rightarrow> nat \<Rightarrow> nat" where
  "tage_first_longer c meta slot =
     (if meta_provider meta slot < tc_tables c then meta_provider meta slot + 1 else 0)"

lemma tage_allocate_work:
  fixes c q original p slot base
  defines "actual \<equiv> drop_bit slot (tt_taken_mask p) AND 1"
  defines "w \<equiv> tage_train_slot c q original p
    \<lparr>tw_base = base, tw_rows = original, tw_touched = replicate (tc_tables c) False\<rparr> slot"
  assumes p: "bit (tt_commit_mask p) slot" "meta_final c (tt_meta p) slot \<noteq> actual"
    and len: "length original = tc_tables c"
    and t: "tage_first_longer c (tt_meta p) slot \<le> t" "t < tc_tables c" "tage_can_allocate q original t"
      "\<And>u. tage_first_longer c (tt_meta p) slot \<le> u \<Longrightarrow> u < t \<Longrightarrow> \<not> tage_can_allocate q original u"
  shows "tw_rows w ! t = tage_allocated_row c q t slot actual (original ! t) \<and>
    (\<forall>u. t < u \<longrightarrow> tw_rows w ! u = original ! u)"
proof -
  let ?w0 = "\<lparr>tw_base = base, tw_rows = original, tw_touched = replicate (tc_tables c) False\<rparr>"
  let ?w1 = "?w0\<lparr>tw_base := base[slot := tage_train_ctr c (base ! slot) actual]\<rparr>"
  let ?w2 = "tage_train_provider c q original (tt_meta p) slot actual ?w1"
  let ?f = "tage_first_longer c (tt_meta p) slot"
  have keep: "tw_rows ?w2 ! u = original ! u" if "?f \<le> u" for u
  proof (cases "meta_provider (tt_meta p) slot < tc_tables c")
    case True
    with that have "u \<noteq> meta_provider (tt_meta p) slot" by (simp add: tage_first_longer_def)
    then show ?thesis by (simp add: tage_train_provider_other)
  qed (simp add: tage_train_provider_def Let_def)
  then have can: "tage_can_allocate q (tw_rows ?w2) u \<longleftrightarrow> tage_can_allocate q original u" if "?f \<le> u" for u
    using that by (simp add: tage_can_allocate_def)
  have "find (tage_can_allocate q (tw_rows ?w2)) [?f..<tc_tables c] = Some t"
    by (intro find_upt_first) (use t can in auto)
  then have "tage_allocate c q (tt_meta p) slot actual ?w2 =
      tage_touch t (tage_allocated_row c q t slot actual (tw_rows ?w2 ! t)) ?w2"
    using p(2) by (simp add: tage_allocate_def tage_first_longer_def)
  moreover have "w = tage_allocate c q (tt_meta p) slot actual ?w2"
    using p(1) bit_test_iff [of "tt_commit_mask p" slot]
    by (simp add: w_def tage_train_slot_def actual_def Let_def)
  moreover have "length (tw_rows ?w2) = tc_tables c"
    using len by (simp add: tage_train_provider_def tage_touch_def Let_def)
  ultimately show ?thesis
    using keep t(1,2) by (simp add: tage_touch_def)
qed


section \<open>Witnesses\<close>

definition tage_demo :: tage_cfg where
  "tage_demo = \<lparr>tc_vaddr_bits = 8, tc_region_bytes = 4, tc_slots = 2, tc_tables = 2, tc_base_entries = 4,
     tc_index_bits = [1, 2], tc_tag_bits = [2, 3], tc_ctr_bits = 2, tc_useful_bits = 1\<rparr>"

text \<open>A packet of slot 1 at \<open>pc\<close>: taken, predicted not taken by the base table.\<close>

definition tage_demo_train :: "nat \<Rightarrow> tage_train" where
  "tage_demo_train pc = \<lparr>tt_valid = True, tt_pc = pc, tt_folds = 5, tt_meta = 63, tt_commit_mask = 2,
     tt_taken_mask = 2\<rparr>"

definition tage_demo_inputs :: "nat \<Rightarrow> tage_inputs" where
  "tage_demo_inputs pc = \<lparr>ti_rst = False, ti_query_valid = True, ti_pc = pc, ti_folds = 5, ti_stall = False,
     ti_kill = False, ti_train = tage_demo_train pc\<rparr>"

definition tage_demo_snapshot :: tage_snapshot where
  "tage_demo_snapshot = tage_take_snapshot tage_demo
     (tage_write tage_demo (tage_demo_train 20) (tage_empty tage_demo)) (tage_make_query tage_demo 20 5)"

definition tage_demo_state :: tage_state where
  "tage_demo_state = tage_tick tage_demo (tage_reset tage_demo) (tage_demo_inputs 20)"

lemma tage_demo_facts:
  "tage_cfg_ok tage_demo" "tage_snapshot_ok tage_demo tage_demo_snapshot"
  "ch_provider (tage_choose tage_demo tage_demo_snapshot 1) = 0"
  "tage_ready tage_demo tage_demo_state (tage_demo_inputs 56)"
  "\<not> tage_ready tage_demo tage_demo_state (tage_demo_inputs 20)"
  "tage_train_active (tg_pending_train tage_demo_state)" "tage_train_active (ti_train (tage_demo_inputs 56))"
  by code_simp+

theorem tage_choose_longest_witness:
  "tage_hit tage_demo_snapshot 0 \<and> \<not> tage_hit tage_demo_snapshot 1 \<and>
   ch_pred (tage_choose tage_demo tage_demo_snapshot 1) = 1"
proof -
  have t: "tc_tables tage_demo = 2"
    "tage_pred_bit tage_demo (ch_ctr (tage_choose tage_demo tage_demo_snapshot 1)) = 1" by code_simp+
  from tage_choose_longest [OF tage_demo_facts(2), of 1] show ?thesis
    unfolding tage_demo_facts t tage_base_code_def by simp
qed

theorem tage_meta_roundtrip_witness:
  "meta_provider (tr_meta (tage_predict tage_demo tage_demo_snapshot)) 1 = 0 \<and>
   meta_final tage_demo (tr_meta (tage_predict tage_demo tage_demo_snapshot)) 1 =
     tage_final tage_demo (tage_choose tage_demo tage_demo_snapshot 1)"
proof -
  have "1 < tc_slots tage_demo" by code_simp
  from tage_meta_roundtrip [OF tage_demo_facts(1,2) this] show ?thesis
    unfolding tage_demo_facts by simp
qed

theorem tage_run_wf_witness:
  "tage_wf tage_demo (foldl (tage_tick tage_demo) (tage_reset tage_demo)
     [tage_demo_inputs 20, tage_demo_inputs 56, tage_demo_inputs 20])"
  by (rule tage_run_wf [OF tage_demo_facts(1)])

theorem tage_ready_conflict_free_witness:
  "tage_write tage_demo (tage_demo_train 56) (tage_write tage_demo (tage_demo_train 20) (tage_empty tage_demo)) =
   tage_write tage_demo (tage_demo_train 20) (tage_write tage_demo (tage_demo_train 56) (tage_empty tage_demo))"
proof -
  have p: "tg_pending_train tage_demo_state = tage_demo_train 20" by code_simp
  show ?thesis
    using tage_ready_conflict_free [OF tage_demo_facts(1,4,6,7) tage_empty_ok [OF tage_demo_facts(1)]]
    by (simp add: p tage_demo_inputs_def)
qed


end
