(* ===== verification/BTB.thy ===== *)
theory BTB
  imports Clocked
begin

text \<open>
  The main branch target buffer: \<open>sim/cocotb/main_btb/btb_model.py\<close> (\<open>BtbModel\<close>, training through one
  register) and \<open>legacy_btb_reference.py\<close> (training in the cycle of the packet). A set-associative table
  of tagged entries with per-set round-robin replacement, and the registered read whose response
  \<open>visible\<close> shows in the next cycle. Port values are unsigned and are natural numbers here.
\<close>

section \<open>Data\<close>

record btb_packet =
  bt_valid :: bool
  bt_pc :: nat
  bt_br_commit_mask :: nat
  bt_br_taken_mask :: nat
  bt_cfi_valid :: bool
  bt_cfi_slot :: nat
  bt_cfi_type :: cfi
  bt_ras_action :: ras_action
  bt_target :: nat

record btb_inputs =
  bi_rst :: bool
  bi_query_valid :: bool
  bi_query_pc :: nat
  bi_stall :: bool
  bi_kill :: bool
  bi_train :: btb_packet

record btb_response =
  br_hit :: bool
  br_br_mask :: nat
  br_jal_mask :: nat
  br_cfi_slot :: nat
  br_cfi_type :: cfi
  br_ras_action :: ras_action
  br_target :: nat

record btb_entry =
  be_tag :: nat
  be_response :: btb_response

record btb_read =
  rd_tag :: nat
  rd_ways :: "btb_entry option list"

text \<open>The dataclass defaults: \<open>Train()\<close> and \<open>Response()\<close>.\<close>

definition btb_train_idle :: btb_packet where
  "btb_train_idle = \<lparr>bt_valid = False, bt_pc = 0, bt_br_commit_mask = 0, bt_br_taken_mask = 0,
     bt_cfi_valid = False, bt_cfi_slot = 0, bt_cfi_type = CFI_NONE, bt_ras_action = RAS_NONE,
     bt_target = 0\<rparr>"

definition btb_no_response :: btb_response where
  "btb_no_response = \<lparr>br_hit = False, br_br_mask = 0, br_jal_mask = 0, br_cfi_slot = 0,
     br_cfi_type = CFI_NONE, br_ras_action = RAS_NONE, br_target = 0\<rparr>"

record btb_cfg =
  bc_vaddr_bits :: nat
  bc_region_bytes :: nat
  bc_sets :: nat
  bc_ways :: nat
  bc_tag_bits :: nat
  bc_slots :: nat

definition bc_region_shift :: "btb_cfg \<Rightarrow> nat" where
  "bc_region_shift c = bit_length (bc_region_bytes c) - 1"

definition bc_set_bits :: "btb_cfg \<Rightarrow> nat" where
  "bc_set_bits c = bit_length (bc_sets c) - 1"

text \<open>The table part of the object: \<open>self.table\<close> and \<open>self.victim\<close>.\<close>

record btb_table =
  bs_table :: "btb_entry option list list"
  bs_victim :: "nat list"

record btb_state = btb_table +
  bs_pending_train :: btb_packet
  bs_pending :: "btb_read option"

section \<open>Operations\<close>

text \<open>\<open>reset\<close>; the constructor checks its parameters and resets.\<close>

definition btb_empty :: "btb_cfg \<Rightarrow> btb_table" where
  "btb_empty c = \<lparr>bs_table = replicate (bc_sets c) (replicate (bc_ways c) None),
     bs_victim = replicate (bc_sets c) 0\<rparr>"

definition btb_reset :: "btb_cfg \<Rightarrow> btb_state" where
  "btb_reset c = btb_table.extend (btb_empty c)
     \<lparr>bs_pending_train = btb_train_idle, bs_pending = None\<rparr>"

definition btb_cfg_ok :: "btb_cfg \<Rightarrow> bool" where
  "btb_cfg_ok c \<longleftrightarrow>
     bc_region_bytes c > 0 \<and> pow2_test (bc_region_bytes c) \<and>
     bc_sets c > 0 \<and> pow2_test (bc_sets c) \<and>
     bc_ways c \<ge> 2 \<and> bc_tag_bits c \<ge> 1 \<and> bc_slots c = bc_region_bytes c div 2"

definition btb_init :: "btb_cfg \<Rightarrow> btb_state py" where
  "btb_init c = (if btb_cfg_ok c then Inr (btb_reset c) else Inl AssertionError)"

definition btb_set_of :: "btb_cfg \<Rightarrow> nat \<Rightarrow> nat" where
  "btb_set_of c pc = drop_bit (bc_region_shift c) pc AND (bc_sets c - 1)"

definition btb_tag_of :: "btb_cfg \<Rightarrow> nat \<Rightarrow> nat" where
  "btb_tag_of c pc =
     xor_fold (bc_region_shift c + bc_set_bits c) (bc_vaddr_bits c) (bc_tag_bits c) pc"

text \<open>The answer of \<open>visible\<close> from the read register.\<close>

definition btb_respond :: "btb_read option \<Rightarrow> btb_inputs \<Rightarrow> bool \<times> btb_response" where
  "btb_respond pending i =
     (if bi_rst i \<or> bi_stall i \<or> bi_kill i then (False, btb_no_response)
      else case pending of
        None \<Rightarrow> (False, btb_no_response)
      | Some p \<Rightarrow> (case find (tag_match be_tag (rd_tag p)) (rd_ways p) of
            Some (Some e) \<Rightarrow> (True, be_response e)
          | _ \<Rightarrow> (True, btb_no_response)))"

definition btb_visible :: "btb_state \<Rightarrow> btb_inputs \<Rightarrow> bool \<times> btb_response" where
  "btb_visible s i = btb_respond (bs_pending s) i"

text \<open>The packet carries a committed taken control transfer / makes \<open>train\<close> do anything.\<close>

definition btb_taken_cfi :: "btb_packet \<Rightarrow> bool" where
  "btb_taken_cfi t \<longleftrightarrow> bt_cfi_valid t \<and> bt_cfi_type t \<noteq> CFI_NONE"

definition btb_train_active :: "btb_packet \<Rightarrow> bool" where
  "btb_train_active t \<longleftrightarrow> \<not> (\<not> bt_valid t \<or> (bt_br_commit_mask t = 0 \<and> \<not> btb_taken_cfi t))"

text \<open>The new response of a trained entry, from the old one (lines 141-155).\<close>

definition btb_merge :: "btb_packet \<Rightarrow> btb_response \<Rightarrow> btb_response" where
  "btb_merge t old =
     (let br_mask = br_br_mask old OR bt_br_commit_mask t in
      if btb_taken_cfi t then
        \<lparr>br_hit = True,
         br_br_mask = (if bt_cfi_type t = CFI_BR then br_mask OR push_bit (bt_cfi_slot t) 1
                       else br_mask),
         br_jal_mask = (if bt_cfi_type t = CFI_JAL
                        then br_jal_mask old OR push_bit (bt_cfi_slot t) 1
                        else br_jal_mask old),
         br_cfi_slot = bt_cfi_slot t, br_cfi_type = bt_cfi_type t,
         br_ras_action = bt_ras_action t, br_target = bt_target t\<rparr>
      else old\<lparr>br_hit := True, br_br_mask := br_mask\<rparr>)"

text \<open>The table update of \<open>train\<close>, past its early return and its assertion.\<close>

definition btb_match_way :: "nat \<Rightarrow> btb_entry option list \<Rightarrow> nat option" where
  "btb_match_way tag row = first_idx (tag_match be_tag tag) row"

definition btb_empty_way :: "btb_entry option list \<Rightarrow> nat option" where
  "btb_empty_way row = first_idx (\<lambda>e. e = None) row"

definition btb_way :: "nat \<Rightarrow> btb_entry option list \<Rightarrow> nat \<Rightarrow> nat" where
  "btb_way tag row victim =
     (case btb_match_way tag row of Some w \<Rightarrow> w
      | None \<Rightarrow> (case btb_empty_way row of Some w \<Rightarrow> w | None \<Rightarrow> victim))"

definition btb_old :: "nat \<Rightarrow> btb_entry option list \<Rightarrow> btb_response" where
  "btb_old tag row =
     (case btb_match_way tag row of
        Some w \<Rightarrow> (case row ! w of Some e \<Rightarrow> be_response e | None \<Rightarrow> btb_no_response)
      | None \<Rightarrow> btb_no_response)"

definition btb_write :: "btb_cfg \<Rightarrow> btb_packet \<Rightarrow> btb_table \<Rightarrow> btb_table" where
  "btb_write c t s =
     (if \<not> btb_train_active t then s else
      let index = btb_set_of c (bt_pc t);
          tag = btb_tag_of c (bt_pc t);
          row = bs_table s ! index;
          way = btb_way tag row (bs_victim s ! index)
      in s\<lparr>bs_table := (bs_table s)[index :=
              row[way := Some \<lparr>be_tag = tag, be_response = btb_merge t (btb_old tag row)\<rparr>]],
           bs_victim := (if btb_match_way tag row = None \<and> btb_empty_way row = None
                         then (bs_victim s)[index := (way + 1) mod bc_ways c]
                         else bs_victim s)\<rparr>)"

definition btb_slot_ok :: "btb_cfg \<Rightarrow> btb_packet \<Rightarrow> bool" where
  "btb_slot_ok c t \<longleftrightarrow> (btb_train_active t \<and> btb_taken_cfi t \<longrightarrow> bt_cfi_slot t < bc_slots c)"

definition btb_train :: "btb_cfg \<Rightarrow> btb_packet \<Rightarrow> btb_table \<Rightarrow> btb_table py" where
  "btb_train c t s = (if btb_slot_ok c t then Inr (btb_write c t s) else Inl AssertionError)"

text \<open>The read register (lines 115-123 of \<open>tick\<close>), from the table it samples.\<close>

definition btb_front :: "btb_cfg \<Rightarrow> btb_inputs \<Rightarrow> btb_table \<Rightarrow> btb_read option \<Rightarrow> btb_read option" where
  "btb_front c i s pending =
     (if bi_kill i then None
      else if \<not> bi_stall i then
        (if bi_query_valid i
         then Some \<lparr>rd_tag = btb_tag_of c (bi_query_pc i),
                    rd_ways = bs_table s ! btb_set_of c (bi_query_pc i)\<rparr>
         else None)
      else pending)"

definition btb_tick :: "btb_cfg \<Rightarrow> btb_state \<Rightarrow> btb_inputs \<Rightarrow> btb_state py" where
  "btb_tick c s i =
     (if bi_rst i then Inr (btb_reset c) else
      py_bind (btb_train c (bs_pending_train s) (btb_table.truncate s)) (\<lambda>tab.
      Inr (btb_table.extend tab
        \<lparr>bs_pending_train = bi_train i, bs_pending = btb_front c i tab (bs_pending s)\<rparr>)))"

section \<open>The legacy reference: training in the cycle of the packet\<close>

record btb_legacy_state = btb_table +
  bl_pending :: "btb_read option"

definition btb_legacy_reset :: "btb_cfg \<Rightarrow> btb_legacy_state" where
  "btb_legacy_reset c = btb_table.extend (btb_empty c) \<lparr>bl_pending = None\<rparr>"

definition btb_legacy_tick :: "btb_cfg \<Rightarrow> btb_legacy_state \<Rightarrow> btb_inputs \<Rightarrow> btb_legacy_state py" where
  "btb_legacy_tick c s i =
     (if bi_rst i then Inr (btb_legacy_reset c) else
      let pending = btb_front c i (btb_table.truncate s) (bl_pending s) in
      py_bind (btb_train c (bi_train i) (btb_table.truncate s)) (\<lambda>tab.
      Inr (btb_table.extend tab \<lparr>bl_pending = pending\<rparr>)))"

definition btb_legacy_visible :: "btb_legacy_state \<Rightarrow> btb_inputs \<Rightarrow> bool \<times> btb_response" where
  "btb_legacy_visible s i = btb_respond (bl_pending s) i"

section \<open>Well-formed tables\<close>

text \<open>
  Every row has \<open>ways\<close> ways, no two of them with the same tag; tags, slots and masks fit their
  widths; every stored response is a hit; the victim pointers stay below \<open>ways\<close>.
\<close>

definition btb_response_ok :: "btb_cfg \<Rightarrow> btb_response \<Rightarrow> bool" where
  "btb_response_ok c r \<longleftrightarrow> br_br_mask r < 2 ^ bc_slots c \<and> br_jal_mask r < 2 ^ bc_slots c \<and>
     (br_cfi_type r \<noteq> CFI_NONE \<longrightarrow> br_cfi_slot r < bc_slots c)"

definition btb_entry_ok :: "btb_cfg \<Rightarrow> btb_entry \<Rightarrow> bool" where
  "btb_entry_ok c e \<longleftrightarrow> be_tag e < 2 ^ bc_tag_bits c \<and> br_hit (be_response e) \<and>
     btb_response_ok c (be_response e)"

definition btb_row_ok :: "btb_cfg \<Rightarrow> btb_entry option list \<Rightarrow> bool" where
  "btb_row_ok c row \<longleftrightarrow> length row = bc_ways c \<and> tags_distinct be_tag row \<and>
     (\<forall>e. Some e \<in> set row \<longrightarrow> btb_entry_ok c e)"

definition btb_table_ok :: "btb_cfg \<Rightarrow> ('a btb_table_scheme) \<Rightarrow> bool" where
  "btb_table_ok c s \<longleftrightarrow> length (bs_table s) = bc_sets c \<and> length (bs_victim s) = bc_sets c \<and>
     (\<forall>row \<in> set (bs_table s). btb_row_ok c row) \<and> (\<forall>v \<in> set (bs_victim s). v < bc_ways c)"

definition btb_train_legal :: "btb_cfg \<Rightarrow> btb_packet \<Rightarrow> bool" where
  "btb_train_legal c t \<longleftrightarrow> btb_slot_ok c t \<and> (bt_valid t \<longrightarrow> bt_br_commit_mask t < 2 ^ bc_slots c)"

definition btb_wf :: "btb_cfg \<Rightarrow> btb_state \<Rightarrow> bool" where
  "btb_wf c s \<longleftrightarrow> btb_table_ok c s \<and> btb_train_legal c (bs_pending_train s) \<and>
     (\<forall>p. bs_pending s = Some p \<longrightarrow> btb_row_ok c (rd_ways p))"

lemma btb_set_of_less: "btb_cfg_ok c \<Longrightarrow> btb_set_of c pc < bc_sets c"
  by (simp only: btb_set_of_def btb_cfg_ok_def pow2_and_less)

lemma btb_tag_of_less: "btb_cfg_ok c \<Longrightarrow> btb_tag_of c pc < 2 ^ bc_tag_bits c"
  by (simp add: btb_tag_of_def btb_cfg_ok_def xor_fold_less)

lemma btb_row_okD:
  assumes "btb_row_ok c row"
  shows "length row = bc_ways c" "tags_distinct be_tag row"
    "\<And>i e. i < length row \<Longrightarrow> row ! i = Some e \<Longrightarrow> btb_entry_ok c e"
  using assms by (auto simp: btb_row_ok_def) (metis nth_mem)

lemma btb_table_okD:
  assumes "btb_table_ok c s" "idx < bc_sets c"
  shows "btb_row_ok c (bs_table s ! idx)" "bs_victim s ! idx < bc_ways c"
  using assms by (simp_all add: btb_table_ok_def)

lemma btb_way_free:
  assumes "btb_row_ok c row" "victim < bc_ways c"
  shows "way_free_for be_tag row (btb_way tag row victim) tag"
proof (cases "btb_match_way tag row")
  case (Some w)
  with assms show ?thesis
    by (simp add: btb_way_def btb_match_way_def way_free_forI_match btb_row_okD)
next
  case None
  show ?thesis
  proof (cases "btb_empty_way row")
    case (Some w)
    with None show ?thesis
      by (simp add: btb_way_def btb_match_way_def btb_empty_way_def way_free_forI_absent
          first_idx_SomeD)
  next
    case None': None
    with None assms show ?thesis
      by (simp add: btb_way_def btb_match_way_def btb_empty_way_def way_free_forI_absent
          btb_row_okD)
  qed
qed

lemma btb_old_lookup:
  "btb_old tag row = (case row_lookup be_tag row tag of Some e \<Rightarrow> be_response e
                      | None \<Rightarrow> btb_no_response)"
  by (auto simp: btb_old_def btb_match_way_def row_lookup_first_idx split: option.splits)

lemma btb_old_ok: "btb_row_ok c row \<Longrightarrow> btb_response_ok c (btb_old tag row)"
  by (auto simp: btb_old_lookup btb_response_ok_def btb_no_response_def btb_entry_ok_def
      dest!: row_lookup_SomeD btb_row_okD(3) split: option.splits)

lemma btb_merge_ok:
  assumes "btb_train_legal c t" "btb_train_active t" "btb_response_ok c old"
  shows "btb_response_ok c (btb_merge t old)" "br_hit (btb_merge t old)"
  using assms
  by (auto simp: btb_merge_def Let_def btb_response_ok_def btb_train_legal_def btb_slot_ok_def
      btb_train_active_def or_less_exp push_bit_one_less_exp simp del: push_bit_of_1)

text \<open>The row that an active packet rewrites.\<close>

lemma btb_write_row:
  fixes c t s
  defines "idx \<equiv> btb_set_of c (bt_pc t)" and "tag \<equiv> btb_tag_of c (bt_pc t)"
  assumes "btb_train_active t"
  shows "bs_table (btb_write c t s) = (bs_table s)[idx :=
      (bs_table s ! idx)[btb_way tag (bs_table s ! idx) (bs_victim s ! idx) :=
        Some \<lparr>be_tag = tag, be_response = btb_merge t (btb_old tag (bs_table s ! idx))\<rparr>]]"
  using assms by (simp add: btb_write_def Let_def)

lemma btb_write_ok:
  assumes c: "btb_cfg_ok c" and s: "btb_table_ok c s" and t: "btb_train_legal c t"
  shows "btb_table_ok c (btb_write c t s)"
proof (cases "btb_train_active t")
  case False
  with s show ?thesis by (simp add: btb_write_def)
next
  case True
  let ?i = "btb_set_of c (bt_pc t)" and ?tag = "btb_tag_of c (bt_pc t)"
  let ?row = "bs_table s ! ?i"
  let ?e = "\<lparr>be_tag = ?tag, be_response = btb_merge t (btb_old ?tag ?row)\<rparr>"
  have i: "?i < bc_sets c" using c by (rule btb_set_of_less)
  note row = btb_table_okD [OF s i]
  let ?w = "btb_way ?tag ?row (bs_victim s ! ?i)"
  have f: "way_free_for be_tag ?row ?w ?tag" using row by (rule btb_way_free)
  have "btb_entry_ok c ?e"
    using btb_merge_ok [OF t True btb_old_ok [OF row(1)]] btb_tag_of_less [OF c]
    by (simp add: btb_entry_ok_def)
  with row(1) f have "btb_row_ok c (?row[?w := Some ?e])"
    by (auto simp: btb_row_ok_def tags_distinct_update dest!: subsetD [OF set_update_subset_insert])
  moreover have "\<forall>v \<in> set (bs_victim (btb_write c t s)). v < bc_ways c"
    using s c by (auto simp: btb_write_def Let_def btb_table_ok_def btb_cfg_ok_def
        dest!: subsetD [OF set_update_subset_insert])
  moreover have "length (bs_victim (btb_write c t s)) = bc_sets c"
    using s by (simp add: btb_write_def Let_def btb_table_ok_def)
  ultimately show ?thesis
    using s unfolding btb_table_ok_def btb_write_row [OF True]
    by (auto dest!: subsetD [OF set_update_subset_insert])
qed

section \<open>The component contract\<close>

lemma btb_empty_ok: "btb_cfg_ok c \<Longrightarrow> btb_table_ok c (btb_empty c)"
  by (auto simp: btb_table_ok_def btb_empty_def btb_row_ok_def btb_cfg_ok_def)

lemma btb_idle_legal: "btb_train_legal c btb_train_idle"
  by (simp add: btb_train_legal_def btb_slot_ok_def btb_train_active_def btb_train_idle_def)

lemma btb_table_ok_extend [simp]:
  "btb_table_ok c (btb_table.extend t m) = btb_table_ok c t"
  "btb_table_ok c (btb_table.truncate s) = btb_table_ok c s"
  by (simp_all add: btb_table_ok_def btb_table.defs)

lemma btb_state_extend [simp]:
  "bs_table (btb_table.extend t m) = bs_table t"
  "bs_victim (btb_table.extend t m) = bs_victim t"
  "bs_table (btb_table.truncate s) = bs_table s"
  "bs_victim (btb_table.truncate s) = bs_victim s"
  "btb_table.truncate (btb_table.extend t m) = t"
  "bs_pending (btb_table.extend t \<lparr>bs_pending_train = p, bs_pending = r\<rparr>) = r"
  "bs_pending_train (btb_table.extend t \<lparr>bs_pending_train = p, bs_pending = r\<rparr>) = p"
  "bl_pending (btb_table.extend t \<lparr>bl_pending = r\<rparr>) = r"
  by (simp_all add: btb_table.defs)

lemma btb_wf_reset: "btb_cfg_ok c \<Longrightarrow> btb_wf c (btb_reset c)"
  by (simp add: btb_wf_def btb_reset_def btb_empty_ok btb_idle_legal)

lemma btb_front_ok:
  assumes "btb_cfg_ok c" "btb_table_ok c s" "\<forall>p. pending = Some p \<longrightarrow> btb_row_ok c (rd_ways p)"
    "btb_front c i s pending = Some p"
  shows "btb_row_ok c (rd_ways p)"
  using assms by (auto simp: btb_front_def btb_table_okD btb_set_of_less split: if_splits)

lemma btb_tick_safe:
  assumes c: "btb_cfg_ok c" and s: "btb_wf c s" and i: "btb_train_legal c (bi_train i)"
  shows "\<exists>s'. btb_tick c s i = Inr s' \<and> btb_wf c s'"
proof (cases "bi_rst i")
  case True
  with c show ?thesis by (simp add: btb_tick_def btb_wf_reset)
next
  case False
  let ?t = "btb_write c (bs_pending_train s) (btb_table.truncate s)"
  from s have p: "btb_train_legal c (bs_pending_train s)" and tab: "btb_table_ok c s"
    by (simp_all add: btb_wf_def)
  then have "btb_table_ok c ?t" using c by (simp add: btb_write_ok)
  moreover have "btb_tick c s i = Inr (btb_table.extend ?t
      \<lparr>bs_pending_train = bi_train i, bs_pending = btb_front c i ?t (bs_pending s)\<rparr>)"
    using False p by (simp add: btb_tick_def btb_train_def btb_train_legal_def)
  ultimately show ?thesis
    using s i btb_front_ok [OF c] by (auto simp: btb_wf_def)
qed

definition btb_inv :: "btb_cfg \<Rightarrow> btb_state \<Rightarrow> bool" where
  "btb_inv c s \<longleftrightarrow> (btb_cfg_ok c \<longrightarrow> btb_wf c s)"

definition btb_legal :: "btb_cfg \<Rightarrow> btb_inputs \<Rightarrow> bool" where
  "btb_legal c i \<longleftrightarrow> btb_cfg_ok c \<and> btb_train_legal c (bi_train i)"

interpretation btb_clk: clocked "btb_reset c" "btb_tick c" bi_rst "btb_legal c" "btb_inv c" for c
  by unfold_locales
    (auto simp: btb_inv_def btb_legal_def btb_wf_reset btb_tick_def [where i = i for i] dest: btb_tick_safe)

section \<open>The table as a map from (set, tag) to responses\<close>

definition btb_lookup :: "'a btb_table_scheme \<Rightarrow> nat \<Rightarrow> nat \<Rightarrow> btb_response option" where
  "btb_lookup s idx tag = map_option be_response (row_lookup be_tag (bs_table s ! idx) tag)"

text \<open>The tag a packet evicts: that of the victim way, when its set is full and holds no match.\<close>

definition btb_evicted :: "btb_cfg \<Rightarrow> btb_packet \<Rightarrow> btb_table \<Rightarrow> nat option" where
  "btb_evicted c t s =
     (let idx = btb_set_of c (bt_pc t); row = bs_table s ! idx in
      if btb_match_way (btb_tag_of c (bt_pc t)) row = None \<and> btb_empty_way row = None
      then map_option be_tag (row ! (bs_victim s ! idx)) else None)"

lemma btb_old_lookup_default:
  "btb_old tag (bs_table s ! idx) =
     (case btb_lookup s idx tag of None \<Rightarrow> btb_no_response | Some r \<Rightarrow> r)"
  by (simp add: btb_old_lookup btb_lookup_def split: option.splits)

lemma btb_train_Inr: "btb_train c t s = Inr s' \<longleftrightarrow> btb_slot_ok c t \<and> s' = btb_write c t s"
  by (auto simp: btb_train_def)

text \<open>Training an entry and looking its set and tag up gives the packet merged into what the
  table answered before (an empty response on a miss).\<close>

theorem btb_train_lookup:
  assumes "btb_cfg_ok c" "btb_table_ok c s" "btb_train c t s = Inr s'" "btb_train_active t"
  shows "btb_lookup s' (btb_set_of c (bt_pc t)) (btb_tag_of c (bt_pc t)) =
    Some (btb_merge t (case btb_lookup s (btb_set_of c (bt_pc t)) (btb_tag_of c (bt_pc t)) of
                         None \<Rightarrow> btb_no_response | Some r \<Rightarrow> r))"
proof -
  let ?i = "btb_set_of c (bt_pc t)" and ?tag = "btb_tag_of c (bt_pc t)"
  let ?row = "bs_table s ! ?i"
  let ?e = "\<lparr>be_tag = ?tag, be_response = btb_merge t (btb_old ?tag ?row)\<rparr>"
  let ?w = "btb_way ?tag ?row (bs_victim s ! ?i)"
  have i: "?i < bc_sets c" using assms(1) by (rule btb_set_of_less)
  note row = btb_table_okD [OF assms(2) i]
  from row have f: "way_free_for be_tag ?row ?w (be_tag ?e)" by (simp add: btb_way_free)
  have "bs_table s' ! ?i = ?row[?w := Some ?e]"
    using i assms(2-4) by (simp add: btb_train_Inr btb_write_row btb_table_ok_def)
  then have "btb_lookup s' ?i ?tag = Some (be_response ?e)"
    using row_lookup_update_same [OF btb_row_okD(2) [OF row(1)] f] by (simp add: btb_lookup_def)
  then show ?thesis by (simp add: btb_old_lookup_default)
qed

text \<open>Training changes no other answer of the table, except that a packet that misses in a full
  set removes the entry of the victim way.\<close>

theorem btb_train_frame:
  assumes "btb_cfg_ok c" "btb_table_ok c s" "btb_train c t s = Inr s'" "btb_train_active t"
    and "idx < bc_sets c"
    and "idx \<noteq> btb_set_of c (bt_pc t) \<or> tag \<noteq> btb_tag_of c (bt_pc t)"
  shows "btb_lookup s' idx tag =
    (if idx = btb_set_of c (bt_pc t) \<and> btb_evicted c t s = Some tag then None
     else btb_lookup s idx tag)"
proof (cases "idx = btb_set_of c (bt_pc t)")
  case False
  then have "bs_table s' ! idx = bs_table s ! idx"
    using assms(3) by (simp add: btb_train_Inr btb_write_def Let_def)
  with False show ?thesis by (simp add: btb_lookup_def)
next
  case True
  let ?tag = "btb_tag_of c (bt_pc t)" and ?row = "bs_table s ! idx"
  let ?e = "\<lparr>be_tag = ?tag, be_response = btb_merge t (btb_old ?tag ?row)\<rparr>"
  let ?w = "btb_way ?tag ?row (bs_victim s ! idx)"
  note row = btb_table_okD [OF assms(2,5)]
  note d = btb_row_okD(2) [OF row(1)]
  from row have f: "way_free_for be_tag ?row ?w (be_tag ?e)" by (simp add: btb_way_free)
  have t: "tag \<noteq> be_tag ?e" using True assms(6) by simp
  have "bs_table s' ! idx = ?row[?w := Some ?e]"
    using True assms by (simp add: btb_train_Inr btb_write_row btb_table_ok_def)
  then have *: "btb_lookup s' idx tag =
      map_option be_response (if tag_match be_tag tag (?row ! ?w) then None
                              else row_lookup be_tag ?row tag)"
    using row_lookup_update_other [OF d f t] by (simp add: btb_lookup_def)
  have "tag_match be_tag tag (?row ! ?w) \<longleftrightarrow> btb_evicted c t s = Some tag"
    using t True
    by (auto simp: btb_way_def btb_match_way_def btb_empty_way_def btb_evicted_def Let_def tag_match_iff
        dest!: first_idx_SomeD split: option.splits)
  with * True show ?thesis by (simp add: btb_lookup_def)
qed

text \<open>A query registers the table row that this cycle's write produced, and the next cycle
  \<open>visible\<close> answers what the table holds at the query's set and tag.\<close>

theorem btb_query_visible:
  assumes "btb_cfg_ok c" "btb_wf c s" "btb_tick c s i = Inr s'"
    and "\<not> bi_rst i" "\<not> bi_kill i" "\<not> bi_stall i" "bi_query_valid i"
    and "\<not> bi_rst j" "\<not> bi_kill j" "\<not> bi_stall j"
  shows "btb_visible s' j =
    (True, case btb_lookup (btb_write c (bs_pending_train s) (btb_table.truncate s))
                  (btb_set_of c (bi_query_pc i)) (btb_tag_of c (bi_query_pc i)) of
             None \<Rightarrow> btb_no_response | Some r \<Rightarrow> r)"
  using assms(3-)
  by (auto simp: btb_tick_def btb_train_def btb_visible_def btb_respond_def btb_front_def
      btb_lookup_def row_lookup_def split: if_splits option.splits)

section \<open>The two training pipelines\<close>

interpretation btb_pipe: train_pipe "btb_write c" btb_train_idle "btb_front c" bi_rst "btb_empty c" None
  for c
  by unfold_locales (simp add: btb_write_def btb_train_active_def btb_train_idle_def)

abbreviation btb_view :: "btb_state \<Rightarrow> btb_table \<times> btb_packet \<times> btb_read option" where
  "btb_view s \<equiv> (btb_table.truncate s, bs_pending_train s, bs_pending s)"

abbreviation btb_legacy_view :: "btb_legacy_state \<Rightarrow> btb_table \<times> btb_read option" where
  "btb_legacy_view s \<equiv> (btb_table.truncate s, bl_pending s)"

lemma btb_tick_piped:
  assumes "btb_slot_ok c (bs_pending_train s)"
  shows "\<exists>s'. btb_tick c s i = Inr s' \<and> btb_view s' = btb_pipe.piped c (btb_view s) (i, bi_train i)
    \<and> (bs_pending_train s' = btb_train_idle \<or> bs_pending_train s' = bi_train i)"
  using assms by (simp add: btb_tick_def btb_train_def btb_reset_def)

lemma btb_legacy_tick_direct:
  assumes "btb_slot_ok c (bi_train i)"
  shows "\<exists>s'. btb_legacy_tick c s i = Inr s' \<and>
    btb_legacy_view s' = btb_pipe.direct c (btb_legacy_view s) (i, bi_train i)"
  using assms by (simp add: btb_legacy_tick_def btb_train_def btb_legacy_reset_def Let_def)

lemma btb_idle_slot_ok: "btb_slot_ok c btb_train_idle"
  using btb_idle_legal by (simp add: btb_train_legal_def)

lemma btb_run_simulation:
  assumes "btb_slot_ok c (bs_pending_train s)" "list_all (\<lambda>i. btb_slot_ok c (bi_train i)) is"
    and "btb_legacy_view l = btb_pipe.settle c (btb_view s)"
  shows "\<exists>s' l'. py_run (btb_tick c) s is = Inr s' \<and> py_run (btb_legacy_tick c) l is = Inr l' \<and>
    btb_legacy_view l' = btb_pipe.settle c (btb_view s')"
  using assms
proof (induction "is" arbitrary: s l)
  case Nil
  then show ?case by simp
next
  case (Cons i "is")
  from btb_tick_piped [OF Cons.prems(1)] obtain s1 where s1: "btb_tick c s i = Inr s1"
    "btb_view s1 = btb_pipe.piped c (btb_view s) (i, bi_train i)"
    "bs_pending_train s1 = btb_train_idle \<or> bs_pending_train s1 = bi_train i" by metis
  from Cons.prems(2) btb_legacy_tick_direct [of c i l] obtain l1 where
    l1: "btb_legacy_tick c l i = Inr l1"
    "btb_legacy_view l1 = btb_pipe.direct c (btb_legacy_view l) (i, bi_train i)" by auto
  have "btb_legacy_view l1 = btb_pipe.settle c (btb_view s1)"
    unfolding l1(2) s1(2) Cons.prems(3) by (rule btb_pipe.settle_step [symmetric])
  moreover have "btb_slot_ok c (bs_pending_train s1)"
    using s1(3) Cons.prems(2) btb_idle_slot_ok by auto
  ultimately show ?case using Cons.IH [of s1 l1] Cons.prems(2) s1(1) l1(1) by auto
qed


text \<open>From reset, legal packets never trip the slot assertion and every reachable state is well formed.\<close>

theorem btb_run_safe:
  assumes "btb_cfg_ok c" "list_all (\<lambda>i. btb_train_legal c (bi_train i)) is"
  shows "\<exists>s. py_run (btb_tick c) (btb_reset c) is = Inr s \<and> btb_wf c s"
proof -
  have "list_all (btb_legal c) is" using assms by (simp add: btb_legal_def list_all_iff)
  from btb_clk.run_safe [OF this] show ?thesis using assms(1) by (simp add: btb_inv_def)
qed

section \<open>Round-robin replacement\<close>

definition btb_evicts :: "btb_cfg \<Rightarrow> nat \<Rightarrow> btb_packet \<Rightarrow> btb_table \<Rightarrow> bool" where
  "btb_evicts c idx t s \<longleftrightarrow> btb_train_active t \<and> btb_set_of c (bt_pc t) = idx \<and>
     btb_match_way (btb_tag_of c (bt_pc t)) (bs_table s ! idx) = None \<and>
     btb_empty_way (bs_table s ! idx) = None"

fun btb_evictions :: "btb_cfg \<Rightarrow> nat \<Rightarrow> btb_table \<Rightarrow> btb_packet list \<Rightarrow> nat" where
  "btb_evictions c idx s [] = 0"
| "btb_evictions c idx s (t # ts) =
     (if btb_evicts c idx t s then 1 else 0) + btb_evictions c idx (btb_write c t s) ts"

text \<open>Way \<open>w\<close> of a full set holds \<open>tag\<close>, and the victim pointer is \<open>k\<close> evictions past it.\<close>

definition btb_resident :: "btb_cfg \<Rightarrow> nat \<Rightarrow> nat \<Rightarrow> nat \<Rightarrow> nat \<Rightarrow> btb_table \<Rightarrow> bool" where
  "btb_resident c idx tag w k s \<longleftrightarrow> btb_table_ok c s \<and> w < bc_ways c \<and>
     tag_match be_tag tag (bs_table s ! idx ! w) \<and> None \<notin> set (bs_table s ! idx) \<and>
     bs_victim s ! idx = (w + 1 + k) mod bc_ways c"

lemma btb_resident_lookup:
  assumes "btb_resident c idx tag w k s" "idx < bc_sets c"
  shows "btb_lookup s idx tag \<noteq> None"
proof -
  from assms have "btb_row_ok c (bs_table s ! idx)" by (simp add: btb_resident_def btb_table_okD)
  then have "w < length (bs_table s ! idx)" using assms by (simp add: btb_resident_def btb_row_okD)
  then show ?thesis
    using assms by (auto simp: btb_lookup_def btb_resident_def row_lookup_None)
qed

lemma mod_shift_neq:
  assumes "(w::nat) < n" "Suc k < n"
  shows "(w + 1 + k) mod n \<noteq> w"
proof (cases "w + 1 + k < n")
  case True
  then show ?thesis by simp
next
  case False
  with assms have "(w + 1 + k) mod n = w + 1 + k - n" by (simp add: mod_if)
  with False assms show ?thesis by simp
qed

lemma btb_resident_step:
  assumes c: "btb_cfg_ok c" and i: "idx < bc_sets c" and r: "btb_resident c idx tag w k s"
    and t: "btb_train_legal c t" and k: "btb_evicts c idx t s \<Longrightarrow> Suc k < bc_ways c"
  shows "btb_resident c idx tag w (if btb_evicts c idx t s then Suc k else k) (btb_write c t s)"
proof (cases "btb_train_active t \<and> btb_set_of c (bt_pc t) = idx")
  case False
  then have "bs_table (btb_write c t s) ! idx = bs_table s ! idx"
    "bs_victim (btb_write c t s) ! idx = bs_victim s ! idx"
    by (auto simp: btb_write_def Let_def)
  with False r t c show ?thesis by (auto simp: btb_resident_def btb_evicts_def btb_write_ok)
next
  case True
  let ?tag = "btb_tag_of c (bt_pc t)" and ?row = "bs_table s ! idx"
  let ?w = "btb_way ?tag ?row (bs_victim s ! idx)"
  let ?e = "\<lparr>be_tag = ?tag, be_response = btb_merge t (btb_old ?tag ?row)\<rparr>"
  from r have tab: "btb_table_ok c s" and w: "w < bc_ways c" and m: "tag_match be_tag tag (?row ! w)"
    and full: "None \<notin> set ?row" and v: "bs_victim s ! idx = (w + 1 + k) mod bc_ways c"
    by (auto simp: btb_resident_def)
  note row = btb_table_okD [OF tab i]
  have new: "bs_table (btb_write c t s) ! idx = ?row[?w := Some ?e]"
    using True i tab by (simp add: btb_write_row btb_table_ok_def)
  have nofree: "btb_empty_way ?row = None"
    using full unfolding btb_empty_way_def first_idx_None by metis
  have "tag_match be_tag tag (?row[?w := Some ?e] ! w)"
  proof (cases "?w = w")
    case False
    with m show ?thesis by simp
  next
    case eq: True
    show ?thesis
    proof (cases "btb_match_way ?tag ?row")
      case (Some w')
      with eq have "w' = w" by (simp add: btb_way_def)
      with Some m have "?tag = tag" "w < length ?row"
        using first_idx_SomeD [OF Some [unfolded btb_match_way_def]] by (auto simp: tag_match_iff)
      with eq show ?thesis by simp
    next
      case None
      with nofree True have "btb_evicts c idx t s" by (simp add: btb_evicts_def)
      moreover from None nofree eq v have "(w + 1 + k) mod bc_ways c = w" by (simp add: btb_way_def)
      ultimately show ?thesis using mod_shift_neq [OF w] k by blast
    qed
  qed
  moreover have "None \<notin> set (?row[?w := Some ?e])"
    using full by (auto dest!: subsetD [OF set_update_subset_insert])
  moreover have "bs_victim (btb_write c t s) ! idx =
      (w + 1 + (if btb_evicts c idx t s then Suc k else k)) mod bc_ways c"
    using True i tab nofree v
    by (auto simp: btb_write_def Let_def btb_evicts_def btb_way_def btb_table_ok_def mod_Suc_eq)
  ultimately show ?thesis
    using c tab t w new by (simp add: btb_resident_def btb_write_ok)
qed

lemma btb_resident_run:
  assumes "btb_cfg_ok c" "idx < bc_sets c" "btb_resident c idx tag w k s"
    and "list_all (btb_train_legal c) ts" "k + btb_evictions c idx s ts < bc_ways c"
  shows "btb_lookup (fold (btb_write c) ts s) idx tag \<noteq> None"
  using assms(3-)
proof (induction ts arbitrary: s k)
  case Nil
  with assms(2) show ?case by (simp add: btb_resident_lookup)
next
  case (Cons t ts)
  have "btb_resident c idx tag w (if btb_evicts c idx t s then Suc k else k) (btb_write c t s)"
    using Cons.prems by (intro btb_resident_step assms(1,2)) (auto split: if_splits)
  from Cons.IH [OF this] Cons.prems show ?case by (auto split: if_splits)
qed

text \<open>C17: Round robin protects a new entry: after a packet that evicted, its entry stays in the table
  until its set has seen \<open>ways\<close> further evictions, whatever other packets are trained.\<close>

theorem btb_replacement_fair:
  assumes "btb_cfg_ok c" "btb_table_ok c s" "list_all (btb_train_legal c) (t # ts)"
    and "idx = btb_set_of c (bt_pc t)" "btb_evicts c idx t s"
    and "btb_evictions c idx (btb_write c t s) ts < bc_ways c"
  shows "btb_lookup (fold (btb_write c) (t # ts) s) idx (btb_tag_of c (bt_pc t)) \<noteq> None"
proof -
  let ?tag = "btb_tag_of c (bt_pc t)" and ?row = "bs_table s ! idx"
  let ?v = "bs_victim s ! idx"
  have i: "idx < bc_sets c" using assms(1,4) by (simp add: btb_set_of_less)
  note row = btb_table_okD [OF assms(2) i]
  have t: "btb_train_active t" using assms(5) by (simp add: btb_evicts_def)
  have way: "btb_way ?tag ?row ?v = ?v" using assms(5) by (simp add: btb_evicts_def btb_way_def)
  have new: "bs_table (btb_write c t s) ! idx =
      ?row[?v := Some \<lparr>be_tag = ?tag, be_response = btb_merge t (btb_old ?tag ?row)\<rparr>]"
    using t i assms(2,4) way by (simp add: btb_write_row btb_table_ok_def)
  have "None \<notin> set ?row"
    using assms(5) by (auto simp: btb_evicts_def btb_empty_way_def first_idx_None)
  then have "None \<notin> set (bs_table (btb_write c t s) ! idx)"
    unfolding new by (auto dest!: subsetD [OF set_update_subset_insert])
  moreover have "bs_victim (btb_write c t s) ! idx = (?v + 1 + 0) mod bc_ways c"
    using t i assms(2,4,5) way
    by (simp add: btb_write_def Let_def btb_evicts_def btb_table_ok_def)
  moreover have "?v < length ?row" using row by (simp add: btb_row_okD)
  ultimately have "btb_resident c idx ?tag ?v 0 (btb_write c t s)"
    using assms(1-3) row new by (simp add: btb_resident_def btb_write_ok)
  from btb_resident_run [OF assms(1) i this] assms(3,6) show ?thesis by simp
qed

section \<open>Witnesses\<close>

text \<open>A two-set, two-way table over eight-bit addresses, and three packets of set 0.\<close>

definition btb_demo :: btb_cfg where
  "btb_demo = \<lparr>bc_vaddr_bits = 8, bc_region_bytes = 4, bc_sets = 2, bc_ways = 2, bc_tag_bits = 3,
     bc_slots = 2\<rparr>"

definition btb_demo_train :: "nat \<Rightarrow> btb_packet" where
  "btb_demo_train pc = btb_train_idle\<lparr>bt_valid := True, bt_pc := pc, bt_cfi_valid := True,
     bt_cfi_slot := 1, bt_cfi_type := CFI_JAL, bt_target := 64\<rparr>"

definition btb_demo_inputs :: btb_inputs where
  "btb_demo_inputs = \<lparr>bi_rst = False, bi_query_valid = True, bi_query_pc = 8, bi_stall = False,
     bi_kill = False, bi_train = btb_demo_train 8\<rparr>"

definition btb_demo_full :: btb_table where
  "btb_demo_full = fold (btb_write btb_demo) [btb_demo_train 8, btb_demo_train 16] (btb_empty btb_demo)"

lemma btb_demo_facts:
  "btb_cfg_ok btb_demo" "btb_train_active (btb_demo_train 8)"
  "btb_train_legal btb_demo (btb_demo_train 8)" "btb_train_legal btb_demo (btb_demo_train 16)"
  "btb_train_legal btb_demo (btb_demo_train 32)"
  "btb_train btb_demo (btb_demo_train 8) (btb_empty btb_demo) =
     Inr (btb_write btb_demo (btb_demo_train 8) (btb_empty btb_demo))"
  "bt_pc (btb_demo_train 8) = 8" "bt_pc (btb_demo_train 32) = 32"
  "btb_set_of btb_demo 8 = 0" "btb_tag_of btb_demo 8 = 1"
  "btb_set_of btb_demo 32 = 0" "btb_tag_of btb_demo 32 = 4"
  "btb_evicts btb_demo 0 (btb_demo_train 32) btb_demo_full"
  by code_simp+

lemma btb_demo_full_ok: "btb_table_ok btb_demo btb_demo_full"
  by (simp add: btb_demo_full_def btb_write_ok btb_empty_ok btb_demo_facts)

theorem btb_train_lookup_witness:
  "btb_lookup (btb_write btb_demo (btb_demo_train 8) (btb_empty btb_demo)) 0 1 =
     Some (btb_merge (btb_demo_train 8) btb_no_response)"
proof -
  have "btb_lookup (btb_empty btb_demo) 0 1 = None" by code_simp
  then show ?thesis
    using btb_train_lookup [OF btb_demo_facts(1) btb_empty_ok [OF btb_demo_facts(1)]
        btb_demo_facts(6,2)]
    by (simp add: btb_demo_facts)
qed

theorem btb_train_frame_witness:
  "btb_lookup (btb_write btb_demo (btb_demo_train 32) btb_demo_full) 0 1 = None \<and>
   btb_lookup (btb_write btb_demo (btb_demo_train 32) btb_demo_full) 0 2 =
     btb_lookup btb_demo_full 0 2"
proof -
  have e: "btb_evicted btb_demo (btb_demo_train 32) btb_demo_full = Some 1" by code_simp
  have t: "btb_train btb_demo (btb_demo_train 32) btb_demo_full =
      Inr (btb_write btb_demo (btb_demo_train 32) btb_demo_full)"
    "btb_train_active (btb_demo_train 32)" "0 < bc_sets btb_demo" by code_simp+
  show ?thesis
    using btb_train_frame [OF btb_demo_facts(1) btb_demo_full_ok t, of 1]
      btb_train_frame [OF btb_demo_facts(1) btb_demo_full_ok t, of 2]
    by (simp add: btb_demo_facts e)
qed

theorem btb_query_visible_witness:
  "\<exists>s'. btb_tick btb_demo (btb_reset btb_demo) btb_demo_inputs = Inr s' \<and>
     btb_visible s' btb_demo_inputs = (True, btb_no_response)"
proof -
  note wf = btb_wf_reset [OF btb_demo_facts(1)]
  have i: "btb_train_legal btb_demo (bi_train btb_demo_inputs)" "\<not> bi_rst btb_demo_inputs"
    "\<not> bi_kill btb_demo_inputs" "\<not> bi_stall btb_demo_inputs" "bi_query_valid btb_demo_inputs"
    "btb_lookup (btb_write btb_demo (bs_pending_train (btb_reset btb_demo))
       (btb_table.truncate (btb_reset btb_demo))) (btb_set_of btb_demo (bi_query_pc btb_demo_inputs))
       (btb_tag_of btb_demo (bi_query_pc btb_demo_inputs)) = None" by code_simp+
  obtain s' where t: "btb_tick btb_demo (btb_reset btb_demo) btb_demo_inputs = Inr s'"
    using btb_tick_safe [OF btb_demo_facts(1) wf i(1)] by blast
  show ?thesis
    using t btb_query_visible [OF btb_demo_facts(1) wf t i(2-5) i(2-4)] i(6) by simp
qed


theorem btb_run_safe_witness:
  "\<exists>s. py_run (btb_tick btb_demo) (btb_reset btb_demo) [btb_demo_inputs, btb_demo_inputs] = Inr s \<and>
     btb_wf btb_demo s"
  by (rule btb_run_safe [OF btb_demo_facts(1)]) code_simp

text \<open>Two packets fill set 0; the third one evicts, and its entry stays.\<close>

theorem btb_replacement_fair_witness:
  "btb_lookup (fold (btb_write btb_demo) [btb_demo_train 32, btb_demo_train 32] btb_demo_full) 0 4
     \<noteq> None"
proof -
  have "btb_evictions btb_demo 0 (btb_write btb_demo (btb_demo_train 32) btb_demo_full)
      [btb_demo_train 32] < bc_ways btb_demo" by code_simp
  then show ?thesis
    using btb_replacement_fair [OF btb_demo_facts(1) btb_demo_full_ok,
        of "btb_demo_train 32" "[btb_demo_train 32]" 0]
    by (simp add: btb_demo_facts)
qed

end
