(* ===== verification/UBTB.thy ===== *)
theory UBTB
  imports Clocked
begin

text \<open>
  The micro branch target buffer: \<open>sim/cocotb/ubtb/ubtb_model.py\<close> (\<open>UbtbModel\<close>). A small fully
  associative table answers a query in the cycle it is asked; training replaces round robin, and a
  two-bit counter gives the owning conditional branch of an entry its hysteresis.
\<close>

section \<open>Data\<close>

record ubtb_train =
  ut_valid :: bool
  ut_pc :: nat
  ut_br_commit_mask :: nat
  ut_br_taken_mask :: nat
  ut_cfi_valid :: bool
  ut_cfi_slot :: nat
  ut_cfi_type :: cfi
  ut_ras_action :: ras_action
  ut_target :: nat

record ubtb_inputs =
  ui_rst :: bool
  ui_query_valid :: bool
  ui_query_pc :: nat
  ui_stall :: bool
  ui_train :: ubtb_train

record ubtb_prediction =
  up_region_base :: nat
  up_entry_slot :: nat
  up_br_mask :: nat
  up_jal_mask :: nat
  up_cfi_valid :: bool
  up_cfi_slot :: nat
  up_cfi_type :: cfi
  up_ras_action :: ras_action
  up_raw_pred_taken :: bool
  up_target_missing :: bool
  up_target :: nat
  up_next_pc :: nat

text \<open>\<open>Prediction()\<close>\<close>

definition ubtb_no_prediction :: ubtb_prediction where
  "ubtb_no_prediction = \<lparr>up_region_base = 0, up_entry_slot = 0, up_br_mask = 0, up_jal_mask = 0,
     up_cfi_valid = False, up_cfi_slot = 0, up_cfi_type = CFI_NONE, up_ras_action = RAS_NONE,
     up_raw_pred_taken = False, up_target_missing = False, up_target = 0, up_next_pc = 0\<rparr>"

record ubtb_entry =
  ue_tag :: nat
  ue_br_mask :: nat
  ue_jal_mask :: nat
  ue_owner_valid :: bool
  ue_cfi_slot :: nat
  ue_cfi_type :: cfi
  ue_ras_action :: ras_action
  ue_target :: nat
  ue_br_ctr :: nat

text \<open>\<open>Entry(tag=tag)\<close>\<close>

definition ubtb_new_entry :: "nat \<Rightarrow> ubtb_entry" where
  "ubtb_new_entry tag = \<lparr>ue_tag = tag, ue_br_mask = 0, ue_jal_mask = 0, ue_owner_valid = False,
     ue_cfi_slot = 0, ue_cfi_type = CFI_NONE, ue_ras_action = RAS_NONE, ue_target = 0, ue_br_ctr = 0\<rparr>"

record ubtb_cfg =
  uc_vaddr_bits :: nat
  uc_region_bytes :: nat
  uc_entries :: nat
  uc_tag_bits :: nat
  uc_slots :: nat

record ubtb_state =
  us_table :: "ubtb_entry option list"
  us_replace :: nat

section \<open>Operations\<close>

definition ubtb_reset :: "ubtb_cfg \<Rightarrow> ubtb_state" where
  "ubtb_reset c = \<lparr>us_table = replicate (uc_entries c) None, us_replace = 0\<rparr>"

text \<open>The constructor and its assertions.\<close>

definition ubtb_init :: "ubtb_cfg \<Rightarrow> ubtb_state py" where
  "ubtb_init c = (if uc_region_bytes c \<ge> 2 \<and> pow2_test (uc_region_bytes c) \<and>
                     uc_slots c = uc_region_bytes c div 2
                  then Inr (ubtb_reset c) else Inl AssertionError)"

text \<open>What the callers pass: the assertions hold, and neither the table nor the tag is empty.\<close>

definition ubtb_cfg_ok :: "ubtb_cfg \<Rightarrow> bool" where
  "ubtb_cfg_ok c \<longleftrightarrow> uc_region_bytes c \<ge> 2 \<and> pow2_test (uc_region_bytes c) \<and>
     uc_slots c = uc_region_bytes c div 2 \<and> 0 < uc_entries c \<and> 0 < uc_tag_bits c"

definition uc_shift :: "ubtb_cfg \<Rightarrow> nat" where
  "uc_shift c = bit_length (uc_region_bytes c) - 1"

definition ubtb_tag_of :: "ubtb_cfg \<Rightarrow> nat \<Rightarrow> nat" where
  "ubtb_tag_of c pc = xor_fold (uc_shift c) (uc_vaddr_bits c) (uc_tag_bits c) pc"

definition ubtb_base :: "ubtb_cfg \<Rightarrow> nat \<Rightarrow> nat" where
  "ubtb_base c pc = and_not pc (uc_region_bytes c - 1)"

definition ubtb_slot :: "ubtb_cfg \<Rightarrow> nat \<Rightarrow> nat" where
  "ubtb_slot c pc = drop_bit 1 pc AND (uc_slots c - 1)"

definition ubtb_seq_pc :: "ubtb_cfg \<Rightarrow> nat \<Rightarrow> nat" where
  "ubtb_seq_pc c pc = (ubtb_base c pc + uc_region_bytes c) AND (push_bit (uc_vaddr_bits c) 1 - 1)"

text \<open>The predicate \<open>take\<close> of \<open>visible\<close>: the owner is at or after the entry slot and goes.\<close>

definition ubtb_take :: "ubtb_entry \<Rightarrow> nat \<Rightarrow> bool" where
  "ubtb_take e slot \<longleftrightarrow> ue_owner_valid e \<and> ue_cfi_slot e \<ge> slot \<and>
     (ue_cfi_type e \<in> {CFI_JAL, CFI_JALR} \<or> (ue_cfi_type e = CFI_BR \<and> ue_br_ctr e \<ge> 2))"

definition ubtb_visible ::
  "ubtb_cfg \<Rightarrow> ubtb_state \<Rightarrow> ubtb_inputs \<Rightarrow> bool \<times> bool \<times> ubtb_prediction \<times> nat \<times> nat" where
  "ubtb_visible c s i =
     (if ui_rst i \<or> ui_stall i \<or> \<not> ui_query_valid i
      then (False, \<not> ui_rst i, ubtb_no_prediction, 0, 0)
      else
        let base = ubtb_base c (ui_query_pc i);
            slot = ubtb_slot c (ui_query_pc i);
            next_pc = ubtb_seq_pc c (ui_query_pc i)
        in case row_lookup ue_tag (us_table s) (ubtb_tag_of c base) of
             None \<Rightarrow> (False, True, ubtb_no_prediction\<lparr>up_region_base := base, up_entry_slot := slot,
                                                    up_next_pc := next_pc\<rparr>, 1, 0)
           | Some e \<Rightarrow>
               let take = ubtb_take e slot in
               (True, True,
                \<lparr>up_region_base = base, up_entry_slot = slot, up_br_mask = ue_br_mask e,
                 up_jal_mask = ue_jal_mask e, up_cfi_valid = take,
                 up_cfi_slot = (if take then ue_cfi_slot e else 0),
                 up_cfi_type = (if take then ue_cfi_type e else CFI_NONE),
                 up_ras_action = (if take then ue_ras_action e else RAS_NONE),
                 up_raw_pred_taken = take, up_target_missing = False,
                 up_target = (if take then ue_target e else 0),
                 up_next_pc = (if take then ue_target e else next_pc)\<rparr>, 1, 1))"

definition ubtb_taken_cfi :: "ubtb_train \<Rightarrow> bool" where
  "ubtb_taken_cfi t \<longleftrightarrow> ut_cfi_valid t \<and> ut_cfi_type t \<noteq> CFI_NONE"

text \<open>Lines 140-160: the packet's effect on the entry it trains.\<close>

definition ubtb_merge :: "ubtb_train \<Rightarrow> bool \<Rightarrow> ubtb_entry \<Rightarrow> ubtb_entry" where
  "ubtb_merge t matched e0 =
     (let e = e0\<lparr>ue_br_mask := ue_br_mask e0 OR ut_br_commit_mask t\<rparr> in
      if ubtb_taken_cfi t then
        let e1 = (if ut_cfi_type t = CFI_BR then
                    e\<lparr>ue_br_mask := ue_br_mask e OR push_bit (ut_cfi_slot t) 1,
                      ue_br_ctr := (if matched \<and> ue_owner_valid e \<and> ue_cfi_type e = CFI_BR \<and>
                                       ue_cfi_slot e = ut_cfi_slot t
                                    then sat_inc 3 (ue_br_ctr e) else 2)\<rparr>
                  else e\<lparr>ue_br_ctr := 0\<rparr>);
            e2 = (if ut_cfi_type t = CFI_JAL
                  then e1\<lparr>ue_jal_mask := ue_jal_mask e1 OR push_bit (ut_cfi_slot t) 1\<rparr> else e1)
        in e2\<lparr>ue_owner_valid := True, ue_cfi_slot := ut_cfi_slot t, ue_cfi_type := ut_cfi_type t,
              ue_ras_action := ut_ras_action t, ue_target := ut_target t\<rparr>
      else if matched \<and> ue_owner_valid e \<and> ue_cfi_type e = CFI_BR \<and>
              ut_br_commit_mask t AND push_bit (ue_cfi_slot e) 1 \<noteq> 0
           then e\<lparr>ue_br_ctr := sat_dec (ue_br_ctr e)\<rparr> else e)"

text \<open>Lines 133-137: the entry to write and the next replacement pointer.\<close>

definition ubtb_place :: "ubtb_cfg \<Rightarrow> ubtb_state \<Rightarrow> nat option \<Rightarrow> nat \<times> nat" where
  "ubtb_place c s index =
     (case index of
        Some i \<Rightarrow> (i, us_replace s)
      | None \<Rightarrow> (case first_idx Option.is_none (us_table s) of
            Some i \<Rightarrow> (i, us_replace s)
          | None \<Rightarrow> (us_replace s, (us_replace s + 1) mod uc_entries c)))"

definition ubtb_tick :: "ubtb_cfg \<Rightarrow> ubtb_state \<Rightarrow> ubtb_inputs \<Rightarrow> ubtb_state" where
  "ubtb_tick c s i =
     (if ui_rst i then ubtb_reset c else
      let t = ui_train i in
      if \<not> ut_valid t \<or> \<not> (ut_br_commit_mask t \<noteq> 0 \<or> ubtb_taken_cfi t) then s else
      let tag = ubtb_tag_of c (ut_pc t);
          found = first_idx (tag_match ue_tag tag) (us_table s);
          matched = found \<noteq> None
      in if \<not> matched \<and> \<not> ubtb_taken_cfi t then s else
         let (index, replace) = ubtb_place c s found;
             e = (if matched then the (us_table s ! index) else ubtb_new_entry tag)
         in \<lparr>us_table = (us_table s)[index := Some (ubtb_merge t matched e)], us_replace = replace\<rparr>)"

section \<open>Invariant\<close>

definition ubtb_entry_ok :: "ubtb_cfg \<Rightarrow> ubtb_entry \<Rightarrow> bool" where
  "ubtb_entry_ok c e \<longleftrightarrow> ue_tag e < 2 ^ uc_tag_bits c \<and> ue_br_mask e < 2 ^ uc_slots c \<and>
     ue_jal_mask e < 2 ^ uc_slots c \<and> ue_cfi_slot e < uc_slots c \<and> ue_br_ctr e \<le> 3 \<and>
     (ue_owner_valid e \<longrightarrow> ue_cfi_type e \<noteq> CFI_NONE) \<and>
     (ue_owner_valid e \<longrightarrow> ue_cfi_type e = CFI_BR \<longrightarrow> bit (ue_br_mask e) (ue_cfi_slot e)) \<and>
     (ue_owner_valid e \<longrightarrow> ue_cfi_type e = CFI_JAL \<longrightarrow> bit (ue_jal_mask e) (ue_cfi_slot e))"

definition ubtb_wf :: "ubtb_cfg \<Rightarrow> ubtb_state \<Rightarrow> bool" where
  "ubtb_wf c s \<longleftrightarrow> length (us_table s) = uc_entries c \<and> us_replace s < uc_entries c \<and>
     tags_distinct ue_tag (us_table s) \<and>
     (\<forall>e. Some e \<in> set (us_table s) \<longrightarrow> ubtb_entry_ok c e)"

text \<open>A packet names slots of the region.\<close>

definition ubtb_train_legal :: "ubtb_cfg \<Rightarrow> ubtb_train \<Rightarrow> bool" where
  "ubtb_train_legal c t \<longleftrightarrow> ut_cfi_slot t < uc_slots c \<and> ut_br_commit_mask t < 2 ^ uc_slots c"

lemma ubtb_merge_tag [simp]: "ue_tag (ubtb_merge t m e) = ue_tag e"
  by (simp add: ubtb_merge_def Let_def)

lemma ubtb_merge_ok:
  assumes e: "ubtb_entry_ok c e" and t: "ubtb_train_legal c t"
  shows "ubtb_entry_ok c (ubtb_merge t m e)"
proof -
  have mask: "ue_br_mask e OR ut_br_commit_mask t < 2 ^ uc_slots c"
    using e t by (simp add: ubtb_entry_ok_def ubtb_train_legal_def or_less_exp)
  have one: "push_bit (ut_cfi_slot t) 1 < (2::nat) ^ uc_slots c"
    using t by (intro push_bit_one_less_exp) (simp add: ubtb_train_legal_def)
  have bits: "bit (x OR push_bit k 1) k" for x k :: nat by (simp add: bit_or_iff bit_exp_iff)
  show ?thesis
    using e t mask one bits
    by (auto simp: ubtb_entry_ok_def ubtb_merge_def ubtb_train_legal_def ubtb_taken_cfi_def Let_def
        or_less_exp bit_or_iff simp del: push_bit_of_1)
qed

lemma ubtb_tag_less: "ubtb_cfg_ok c \<Longrightarrow> ubtb_tag_of c pc < 2 ^ uc_tag_bits c"
  by (simp add: ubtb_tag_of_def ubtb_cfg_ok_def xor_fold_less)

lemma ubtb_cfg_pow2:
  assumes "ubtb_cfg_ok c"
  obtains k where "uc_region_bytes c = 2 ^ Suc k" "uc_slots c = 2 ^ k" "uc_shift c = Suc k"
proof -
  have r: "pow2_test (uc_region_bytes c)" "uc_region_bytes c \<ge> 2" "uc_slots c = uc_region_bytes c div 2"
    using assms by (simp_all add: ubtb_cfg_ok_def)
  then obtain m where m: "uc_region_bytes c = 2 ^ m" using pow2_test_imp_exp by fastforce
  with r(2) obtain k where k: "m = Suc k" by (cases m) simp_all
  have "uc_shift c = Suc k" unfolding uc_shift_def m k bit_length_exp by simp
  with m k r(3) show ?thesis by (intro that) simp_all
qed

lemma ubtb_new_entry_ok: "ubtb_cfg_ok c \<Longrightarrow> ubtb_entry_ok c (ubtb_new_entry (ubtb_tag_of c pc))"
  by (rule ubtb_cfg_pow2) (auto simp: ubtb_entry_ok_def ubtb_new_entry_def ubtb_tag_less)

text \<open>The written entry: which way, and what it held.\<close>

lemma ubtb_place_way:
  fixes c s pc
  assumes "ubtb_wf c s"
  defines "tag \<equiv> ubtb_tag_of c pc"
  defines "found \<equiv> first_idx (tag_match ue_tag tag) (us_table s)"
  shows "way_free_for ue_tag (us_table s) (fst (ubtb_place c s found)) tag"
    and "snd (ubtb_place c s found) < uc_entries c"
proof -
  have "way_free_for ue_tag (us_table s) (fst (ubtb_place c s found)) tag \<and>
      snd (ubtb_place c s found) < uc_entries c"
  proof (cases found)
    case (Some i)
    then have "way_free_for ue_tag (us_table s) i tag"
      using assms(1) unfolding found_def by (intro way_free_forI_match) (simp_all add: ubtb_wf_def)
    with Some assms(1) show ?thesis by (simp add: ubtb_place_def ubtb_wf_def)
  next
    case None
    then have free: "w < uc_entries c \<Longrightarrow> way_free_for ue_tag (us_table s) w tag" for w
      using assms(1) unfolding found_def by (intro way_free_forI_absent) (simp_all add: ubtb_wf_def)
    have "fst (ubtb_place c s None) < uc_entries c \<and> snd (ubtb_place c s None) < uc_entries c"
      using assms(1) by (auto simp: ubtb_place_def ubtb_wf_def dest: first_idx_SomeD split: option.split)
    with None free show ?thesis by simp
  qed
  then show "way_free_for ue_tag (us_table s) (fst (ubtb_place c s found)) tag"
    "snd (ubtb_place c s found) < uc_entries c" by blast+
qed

text \<open>The packet trains: it is valid, and it carries a taken transfer or commits branches of a region the
  table holds.\<close>

definition ubtb_entry_for :: "ubtb_cfg \<Rightarrow> ubtb_state \<Rightarrow> nat \<Rightarrow> ubtb_entry option" where
  "ubtb_entry_for c s pc = row_lookup ue_tag (us_table s) (ubtb_tag_of c pc)"

definition ubtb_trains :: "ubtb_cfg \<Rightarrow> ubtb_state \<Rightarrow> ubtb_train \<Rightarrow> bool" where
  "ubtb_trains c s t \<longleftrightarrow> ut_valid t \<and>
     (ubtb_taken_cfi t \<or> (ut_br_commit_mask t \<noteq> 0 \<and> ubtb_entry_for c s (ut_pc t) \<noteq> None))"

definition ubtb_trained :: "ubtb_cfg \<Rightarrow> ubtb_state \<Rightarrow> ubtb_train \<Rightarrow> ubtb_entry" where
  "ubtb_trained c s t =
     (case ubtb_entry_for c s (ut_pc t) of
        None \<Rightarrow> ubtb_merge t False (ubtb_new_entry (ubtb_tag_of c (ut_pc t)))
      | Some e \<Rightarrow> ubtb_merge t True e)"

lemma ubtb_tick_trains:
  assumes "ubtb_wf c s" "\<not> ui_rst i" "ubtb_trains c s (ui_train i)"
  defines "t \<equiv> ui_train i"
  defines "pl \<equiv> ubtb_place c s (first_idx (tag_match ue_tag (ubtb_tag_of c (ut_pc t))) (us_table s))"
  shows "ubtb_tick c s i =
    \<lparr>us_table = (us_table s)[fst pl := Some (ubtb_trained c s t)], us_replace = snd pl\<rparr>"
proof (cases "first_idx (tag_match ue_tag (ubtb_tag_of c (ut_pc t))) (us_table s)")
  case None
  with assms show ?thesis
    by (auto simp: ubtb_tick_def ubtb_trains_def ubtb_trained_def ubtb_entry_for_def
        row_lookup_first_idx Let_def case_prod_beta)
next
  case (Some k)
  with first_idx_SomeD [OF Some] obtain e where "us_table s ! k = Some e"
    by (auto simp: tag_match_iff)
  with Some assms show ?thesis
    by (auto simp: ubtb_tick_def ubtb_trains_def ubtb_trained_def ubtb_entry_for_def
        row_lookup_first_idx Let_def case_prod_beta ubtb_place_def)
qed

lemma ubtb_tick_idle:
  assumes "\<not> ui_rst i" "\<not> ubtb_trains c s (ui_train i)"
  shows "ubtb_tick c s i = s"
proof (cases "first_idx (tag_match ue_tag (ubtb_tag_of c (ut_pc (ui_train i)))) (us_table s)")
  case None
  with assms show ?thesis
    by (auto simp: ubtb_tick_def ubtb_trains_def Let_def ubtb_entry_for_def row_lookup_first_idx)
next
  case (Some k)
  with first_idx_SomeD [OF Some] obtain e where "us_table s ! k = Some e"
    by (auto simp: tag_match_iff)
  with Some assms show ?thesis
    by (auto simp: ubtb_tick_def ubtb_trains_def Let_def ubtb_entry_for_def row_lookup_first_idx)
qed

lemma ubtb_entry_for_ok:
  assumes "ubtb_wf c s" "ubtb_entry_for c s pc = Some e"
  shows "ubtb_entry_ok c e" "ue_tag e = ubtb_tag_of c pc"
proof -
  from assms(2) obtain k where "k < length (us_table s)" "us_table s ! k = Some e"
    "ue_tag e = ubtb_tag_of c pc"
    using row_lookup_SomeD unfolding ubtb_entry_for_def by metis
  with assms(1) show "ubtb_entry_ok c e" "ue_tag e = ubtb_tag_of c pc"
    unfolding ubtb_wf_def by (metis nth_mem)+
qed

lemma ubtb_trained_ok:
  assumes "ubtb_cfg_ok c" "ubtb_wf c s" "ubtb_train_legal c t"
  shows "ubtb_entry_ok c (ubtb_trained c s t)" "ue_tag (ubtb_trained c s t) = ubtb_tag_of c (ut_pc t)"
  using assms ubtb_entry_for_ok [OF assms(2), of "ut_pc t"] ubtb_new_entry_ok [OF assms(1)]
  by (auto simp: ubtb_trained_def ubtb_merge_ok ubtb_new_entry_def split: option.split)

lemma ubtb_trained_tag:
  assumes "ubtb_wf c s"
  shows "ue_tag (ubtb_trained c s t) = ubtb_tag_of c (ut_pc t)"
  using ubtb_entry_for_ok(2) [OF assms, of "ut_pc t"]
  by (auto simp: ubtb_trained_def ubtb_new_entry_def split: option.split)

lemma ubtb_tick_wf:
  assumes c: "ubtb_cfg_ok c" and s: "ubtb_wf c s" and t: "ubtb_train_legal c (ui_train i)"
  shows "ubtb_wf c (ubtb_tick c s i)"
proof (cases "ui_rst i \<or> \<not> ubtb_trains c s (ui_train i)")
  case True
  with c s show ?thesis
    by (cases "ui_rst i")
      (simp_all add: ubtb_tick_idle, simp add: ubtb_tick_def ubtb_wf_def ubtb_reset_def ubtb_cfg_ok_def)
next
  case False
  note new = ubtb_trained_ok [OF c s t]
  note way = ubtb_place_way [OF s, of "ut_pc (ui_train i)"]
  have "tags_distinct ue_tag (us_table s)" using s by (simp add: ubtb_wf_def)
  from tags_distinct_update [OF this, of _ "ubtb_trained c s (ui_train i)"] way(1) new(2)
  have "tags_distinct ue_tag (us_table (ubtb_tick c s i))"
    using False by (simp add: ubtb_tick_trains [OF s])
  moreover have "\<forall>e. Some e \<in> set (us_table (ubtb_tick c s i)) \<longrightarrow> ubtb_entry_ok c e"
    using False s new(1) unfolding ubtb_wf_def
    by (auto simp: ubtb_tick_trains [OF s] dest!: subsetD [OF set_update_subset_insert])
  ultimately show ?thesis
    using False s way(2) by (simp add: ubtb_wf_def ubtb_tick_trains [OF s])
qed

definition ubtb_inv :: "ubtb_cfg \<Rightarrow> ubtb_state \<Rightarrow> bool" where
  "ubtb_inv c s \<longleftrightarrow> (ubtb_cfg_ok c \<longrightarrow> ubtb_wf c s)"

lemma ubtb_wf_reset: "ubtb_cfg_ok c \<Longrightarrow> ubtb_wf c (ubtb_reset c)"
  by (simp add: ubtb_wf_def ubtb_reset_def ubtb_cfg_ok_def)

interpretation ubtb_clk: clocked "ubtb_reset c" "\<lambda>s i. Inr (ubtb_tick c s i)" ui_rst
    "\<lambda>i. ubtb_train_legal c (ui_train i)" "ubtb_inv c" for c
  by unfold_locales (auto simp: ubtb_inv_def ubtb_wf_reset ubtb_tick_wf, simp add: ubtb_tick_def)

text \<open>After any sequence of legal cycles no two entries share a tag, the replacement pointer is an
  entry number, every counter has two bits, the masks stay within the region's slots, and the owner
  of an entry is marked in the mask of its kind.\<close>

theorem ubtb_run_wf:
  assumes "ubtb_cfg_ok c" "list_all (\<lambda>i. ubtb_train_legal c (ui_train i)) is"
  shows "ubtb_wf c (foldl (ubtb_tick c) (ubtb_reset c) is)"
  using ubtb_clk.run_safe [OF assms(2)] assms(1) by (simp add: py_run_total ubtb_inv_def)

section \<open>The table as a map from regions to entries\<close>

lemma ubtb_entry_for_trained:
  assumes "ubtb_wf c s" "\<not> ui_rst i" "ubtb_trains c s (ui_train i)"
    "ubtb_tag_of c pc = ubtb_tag_of c (ut_pc (ui_train i))"
  shows "ubtb_entry_for c (ubtb_tick c s i) pc = Some (ubtb_trained c s (ui_train i))"
proof -
  have "tags_distinct ue_tag (us_table s)" using assms(1) by (simp add: ubtb_wf_def)
  from row_lookup_update_same [OF this, where x = "ubtb_trained c s (ui_train i)"]
    ubtb_place_way(1) [OF assms(1), of "ut_pc (ui_train i)"] show ?thesis
    using assms(4) by (simp add: ubtb_entry_for_def ubtb_tick_trains [OF assms(1-3)] ubtb_trained_tag [OF assms(1)])
qed

text \<open>The tag that a packet evicts from a full table.\<close>

definition ubtb_evicted :: "ubtb_cfg \<Rightarrow> ubtb_state \<Rightarrow> ubtb_train \<Rightarrow> nat option" where
  "ubtb_evicted c s t =
     (if ubtb_entry_for c s (ut_pc t) = None \<and> first_idx Option.is_none (us_table s) = None
      then map_option ue_tag (us_table s ! us_replace s) else None)"

lemma ubtb_first_idx_entry:
  "first_idx (tag_match ue_tag (ubtb_tag_of c pc)) (us_table s) = None \<longleftrightarrow> ubtb_entry_for c s pc = None"
  by (simp add: ubtb_entry_for_def row_lookup_None first_idx_None all_set_conv_all_nth)

text \<open>Training a region writes the merged entry for its tag and touches no other region, except that
  a full table gives up the entry at the replacement pointer.\<close>

theorem ubtb_train_map:
  assumes "ubtb_wf c s" "\<not> ui_rst i" "ubtb_trains c s (ui_train i)"
  shows "ubtb_entry_for c (ubtb_tick c s i) pc =
    (if ubtb_tag_of c pc = ubtb_tag_of c (ut_pc (ui_train i)) then Some (ubtb_trained c s (ui_train i))
     else if ubtb_evicted c s (ui_train i) = Some (ubtb_tag_of c pc) then None
     else ubtb_entry_for c s pc)"
proof (cases "ubtb_tag_of c pc = ubtb_tag_of c (ut_pc (ui_train i))")
  case True
  with assms show ?thesis by (simp add: ubtb_entry_for_trained)
next
  case False
  let ?t = "ui_train i"
  let ?f = "first_idx (tag_match ue_tag (ubtb_tag_of c (ut_pc ?t))) (us_table s)"
  let ?w = "fst (ubtb_place c s ?f)"
  have d: "tags_distinct ue_tag (us_table s)" using assms(1) by (simp add: ubtb_wf_def)
  have "way_free_for ue_tag (us_table s) ?w (ue_tag (ubtb_trained c s ?t))"
    using ubtb_place_way(1) [OF assms(1)] by (simp add: ubtb_trained_tag [OF assms(1)])
  from row_lookup_update_other [OF d this] False
  have "ubtb_entry_for c (ubtb_tick c s i) pc =
      (if tag_match ue_tag (ubtb_tag_of c pc) (us_table s ! ?w) then None else ubtb_entry_for c s pc)"
    by (simp add: ubtb_entry_for_def ubtb_tick_trains [OF assms] ubtb_trained_tag [OF assms(1)])
  moreover have "tag_match ue_tag (ubtb_tag_of c pc) (us_table s ! ?w) \<longleftrightarrow>
      ubtb_evicted c s ?t = Some (ubtb_tag_of c pc)"
  proof (cases ?f)
    case (Some k)
    with first_idx_SomeD [OF Some] False show ?thesis
      by (auto simp: ubtb_place_def ubtb_evicted_def tag_match_iff ubtb_first_idx_entry [symmetric])
  next
    case None
    note nf = None
    show ?thesis
    proof (cases "first_idx Option.is_none (us_table s)")
      case None
      with nf show ?thesis
        by (auto simp: ubtb_place_def ubtb_evicted_def tag_match_iff ubtb_first_idx_entry [symmetric])
    next
      case (Some k)
      with first_idx_SomeD [OF Some] nf show ?thesis
        by (auto simp: ubtb_place_def ubtb_evicted_def Option.is_none_def)
    qed
  qed
  ultimately show ?thesis using False by simp
qed

section \<open>Queries\<close>

lemma ubtb_base_eq:
  assumes "ubtb_cfg_ok c"
  shows "ubtb_base c pc = pc - pc mod uc_region_bytes c"
proof -
  obtain k where "uc_region_bytes c = 2 ^ Suc k" using ubtb_cfg_pow2 [OF assms] .
  then show ?thesis unfolding ubtb_base_def by (simp only: and_not_mask)
qed

text \<open>The tag looks at the region number only.\<close>

lemma ubtb_tag_base:
  assumes "ubtb_cfg_ok c"
  shows "ubtb_tag_of c (ubtb_base c pc) = ubtb_tag_of c pc"
proof -
  obtain k where k: "uc_region_bytes c = 2 ^ Suc k" "uc_shift c = Suc k" using ubtb_cfg_pow2 [OF assms] .
  have "bit (ubtb_base c pc) b = bit pc b" if "Suc k \<le> b" for b
    using that unfolding ubtb_base_def k mask_eq_exp_minus_1 [symmetric]
    by (simp add: bit_and_not bit_mask_iff)
  then show ?thesis unfolding ubtb_tag_of_def k by (intro xor_fold_cong)
qed

lemma ubtb_slot_eq:
  assumes "ubtb_cfg_ok c"
  shows "ubtb_slot c pc = (pc mod uc_region_bytes c) div 2"
proof -
  obtain k where k: "uc_region_bytes c = 2 ^ Suc k" "uc_slots c = 2 ^ k" using ubtb_cfg_pow2 [OF assms] .
  have "ubtb_slot c pc = (pc div 2) mod 2 ^ k"
    unfolding ubtb_slot_def k and_mask_mod by (simp add: drop_bit_eq_div)
  also have "\<dots> = (pc mod 2 ^ Suc k) div 2"
    using mod_mult2_eq [of pc 2 "2 ^ k"] by simp
  finally show ?thesis by (simp only: k)
qed

text \<open>The branch or jump that a query at \<open>pc\<close> predicts taken.\<close>

definition ubtb_predicts :: "ubtb_cfg \<Rightarrow> ubtb_state \<Rightarrow> nat \<Rightarrow> ubtb_entry option" where
  "ubtb_predicts c s pc =
     (case ubtb_entry_for c s pc of
        None \<Rightarrow> None | Some e \<Rightarrow> if ubtb_take e (pc mod uc_region_bytes c div 2) then Some e else None)"

definition ubtb_query :: "nat \<Rightarrow> ubtb_train \<Rightarrow> ubtb_inputs" where
  "ubtb_query pc t = \<lparr>ui_rst = False, ui_query_valid = True, ui_query_pc = pc, ui_stall = False, ui_train = t\<rparr>"

text \<open>What a query answers: the region's entry drives the next PC exactly when it predicts a transfer
  at or after the entry slot; otherwise the next PC is the next region, modulo the address width,
  and the region base is \<open>pc\<close> rounded down to its region.\<close>

theorem ubtb_query_next_pc:
  assumes "ubtb_cfg_ok c"
  defines "seq pc \<equiv> (pc - pc mod uc_region_bytes c + uc_region_bytes c) mod 2 ^ uc_vaddr_bits c"
  shows "\<exists>p. ubtb_visible c s (ubtb_query pc t) =
      (ubtb_entry_for c s pc \<noteq> None, True, p, 1, of_bool (ubtb_entry_for c s pc \<noteq> None)) \<and>
    up_region_base p = pc - pc mod uc_region_bytes c \<and>
    up_entry_slot p = pc mod uc_region_bytes c div 2 \<and>
    up_cfi_valid p = (ubtb_predicts c s pc \<noteq> None) \<and>
    up_next_pc p = (case ubtb_predicts c s pc of None \<Rightarrow> seq pc | Some e \<Rightarrow> ue_target e) \<and>
    (case ubtb_predicts c s pc of None \<Rightarrow> up_cfi_type p = CFI_NONE
     | Some e \<Rightarrow> up_cfi_slot p = ue_cfi_slot e \<and> up_cfi_type p = ue_cfi_type e \<and>
         up_entry_slot p \<le> up_cfi_slot p)"
proof -
  have seq: "ubtb_seq_pc c pc = seq pc"
    unfolding ubtb_seq_pc_def seq_def push_bit_of_1 and_mask_mod ubtb_base_eq [OF assms(1)] ..
  have e: "row_lookup ue_tag (us_table s) (ubtb_tag_of c (ubtb_base c pc)) = ubtb_entry_for c s pc"
    by (simp add: ubtb_entry_for_def ubtb_tag_base [OF assms(1)])
  note e = e [unfolded ubtb_base_eq [OF assms(1)]]
  show ?thesis
    by (cases "ubtb_entry_for c s pc")
      (auto simp: ubtb_visible_def ubtb_query_def e Let_def ubtb_base_eq [OF assms(1)]
        ubtb_slot_eq [OF assms(1)] seq ubtb_predicts_def ubtb_no_prediction_def ubtb_take_def)
qed

section \<open>Training a branch\<close>

text \<open>A taken transfer is learnt at once: after training a jump, or a conditional branch that does not
  own its region's entry yet, a query of the region at or before it predicts it with its target.\<close>

theorem ubtb_learns_taken:
  assumes "ubtb_cfg_ok c" "ubtb_wf c s" "\<not> ui_rst i"
    and "ut_valid (ui_train i)" "ubtb_taken_cfi (ui_train i)"
    and "ubtb_tag_of c pc = ubtb_tag_of c (ut_pc (ui_train i))"
    and "pc mod uc_region_bytes c div 2 \<le> ut_cfi_slot (ui_train i)"
    and "ut_cfi_type (ui_train i) = CFI_BR \<longrightarrow> (\<forall>e. ubtb_entry_for c s pc = Some e \<longrightarrow>
      \<not> ue_owner_valid e \<or> ue_cfi_type e \<noteq> CFI_BR \<or> ue_cfi_slot e \<noteq> ut_cfi_slot (ui_train i))"
  shows "\<exists>e. ubtb_predicts c (ubtb_tick c s i) pc = Some e \<and> ue_target e = ut_target (ui_train i) \<and>
    ue_cfi_slot e = ut_cfi_slot (ui_train i) \<and> ue_cfi_type e = ut_cfi_type (ui_train i)"
proof -
  have tr: "ubtb_trains c s (ui_train i)" using assms(4,5) by (simp add: ubtb_trains_def)
  have same: "ubtb_entry_for c s (ut_pc (ui_train i)) = ubtb_entry_for c s pc"
    using assms(6) by (simp add: ubtb_entry_for_def)
  show ?thesis
    using assms(5,7,8)
    by (cases "ut_cfi_type (ui_train i)"; cases "ubtb_entry_for c s pc")
      (auto simp: ubtb_predicts_def ubtb_entry_for_trained [OF assms(2,3) tr assms(6)] ubtb_trained_def
        same ubtb_merge_def ubtb_take_def ubtb_taken_cfi_def Let_def)
qed

text \<open>A cycle that commits the owning branch of \<open>pc\<close>'s entry in direction \<open>taken\<close>.\<close>

definition ubtb_commits :: "ubtb_cfg \<Rightarrow> ubtb_entry \<Rightarrow> nat \<Rightarrow> bool \<Rightarrow> ubtb_inputs \<Rightarrow> bool" where
  "ubtb_commits c e pc taken i \<longleftrightarrow> \<not> ui_rst i \<and> ut_valid (ui_train i) \<and>
     ubtb_tag_of c (ut_pc (ui_train i)) = ubtb_tag_of c pc \<and>
     (if taken then ut_cfi_valid (ui_train i) \<and> ut_cfi_type (ui_train i) = CFI_BR \<and>
                    ut_cfi_slot (ui_train i) = ue_cfi_slot e
      else \<not> ubtb_taken_cfi (ui_train i) \<and> bit (ut_br_commit_mask (ui_train i)) (ue_cfi_slot e))"

lemma ubtb_commits_step:
  assumes "ubtb_wf c s" "ubtb_entry_for c s pc = Some e" "ue_owner_valid e" "ue_cfi_type e = CFI_BR"
    "ubtb_commits c e pc taken i"
  shows "\<exists>e'. ubtb_entry_for c (ubtb_tick c s i) pc = Some e' \<and> ue_owner_valid e' \<and>
    ue_cfi_type e' = CFI_BR \<and> ue_cfi_slot e' = ue_cfi_slot e \<and>
    ue_br_ctr e' = (if taken then sat_inc 3 (ue_br_ctr e) else sat_dec (ue_br_ctr e))"
proof -
  let ?t = "ui_train i"
  have nz: "ut_br_commit_mask ?t \<noteq> 0" if "bit (ut_br_commit_mask ?t) k" for k
    using that by (cases "ut_br_commit_mask ?t = 0") simp_all
  have tag: "ubtb_tag_of c pc = ubtb_tag_of c (ut_pc ?t)" and rst: "\<not> ui_rst i"
    using assms(5) by (simp_all add: ubtb_commits_def)
  then have same: "ubtb_entry_for c s (ut_pc ?t) = Some e"
    using assms(2) by (simp add: ubtb_entry_for_def)
  then have tr: "ubtb_trains c s ?t"
    using assms(5) nz by (auto simp: ubtb_trains_def ubtb_commits_def ubtb_taken_cfi_def split: if_splits)
  show ?thesis
    using assms(3-5) bit_test_iff [of "ut_br_commit_mask ?t" "ue_cfi_slot e"]
    unfolding ubtb_entry_for_trained [OF assms(1) rst tr tag]
    by (cases taken)
      (simp_all add: ubtb_trained_def same ubtb_merge_def ubtb_commits_def ubtb_taken_cfi_def Let_def
        del: sat_dec_eq)
qed

text \<open>The counter after a sequence of outcomes of the owning branch.\<close>

fun ubtb_count :: "nat \<Rightarrow> bool list \<Rightarrow> nat" where
  "ubtb_count n [] = n"
| "ubtb_count n (taken # ts) = ubtb_count (if taken then sat_inc 3 n else sat_dec n) ts"

lemma ubtb_commits_run:
  assumes "ubtb_cfg_ok c" "ubtb_wf c s" "ubtb_entry_for c s pc = Some e" "ue_owner_valid e"
    "ue_cfi_type e = CFI_BR" "list_all2 (ubtb_commits c e pc) outcomes is"
    "list_all (\<lambda>i. ubtb_train_legal c (ui_train i)) is"
  shows "\<exists>e'. ubtb_entry_for c (foldl (ubtb_tick c) s is) pc = Some e' \<and> ue_owner_valid e' \<and>
    ue_cfi_type e' = CFI_BR \<and> ue_cfi_slot e' = ue_cfi_slot e \<and>
    ue_br_ctr e' = ubtb_count (ue_br_ctr e) outcomes"
  using assms
proof (induction "is" arbitrary: s e outcomes)
  case Nil
  then show ?case by simp
next
  case (Cons i "is")
  obtain taken ts where o: "outcomes = taken # ts" "ubtb_commits c e pc taken i"
    "list_all2 (ubtb_commits c e pc) ts is"
    using Cons.prems(6) by (auto simp: list_all2_Cons2)
  obtain e1 where e1: "ubtb_entry_for c (ubtb_tick c s i) pc = Some e1" "ue_owner_valid e1"
    "ue_cfi_type e1 = CFI_BR" "ue_cfi_slot e1 = ue_cfi_slot e"
    "ue_br_ctr e1 = (if taken then sat_inc 3 (ue_br_ctr e) else sat_dec (ue_br_ctr e))"
    using ubtb_commits_step [OF Cons.prems(2-5) o(2)] by blast
  have "ubtb_wf c (ubtb_tick c s i)"
    using Cons.prems by (intro ubtb_tick_wf) simp_all
  moreover have "ubtb_commits c e1 pc = ubtb_commits c e pc"
    by (simp add: ubtb_commits_def e1(4) fun_eq_iff)
  ultimately show ?case
    using Cons.IH [of "ubtb_tick c s i" e1 ts] Cons.prems o e1 by (simp del: sat_dec_eq)
qed

lemma ubtb_count_replicate:
  "n \<le> 3 \<Longrightarrow> ubtb_count n (replicate k True) = min 3 (n + k)"
  "ubtb_count n (replicate k False) = n - k"
  by (induction k arbitrary: n) (auto simp: sat_inc_def)

text \<open>The counter of the owning branch saturates in both directions: after \<open>k\<close> commits in one direction
  it has moved by \<open>k\<close>, cut at 0 and 3, so the branch is predicted taken exactly when at least two of
  the last counts say so, and two not-taken commits always turn the prediction.\<close>

theorem ubtb_hysteresis:
  assumes "ubtb_cfg_ok c" "ubtb_wf c s" "ubtb_entry_for c s pc = Some e" "ue_owner_valid e"
    "ue_cfi_type e = CFI_BR" "pc mod uc_region_bytes c div 2 \<le> ue_cfi_slot e"
    "list_all2 (ubtb_commits c e pc) (replicate k taken) is"
    "list_all (\<lambda>i. ubtb_train_legal c (ui_train i)) is"
  shows "(ubtb_predicts c (foldl (ubtb_tick c) s is) pc \<noteq> None) =
    (if taken then 2 \<le> ue_br_ctr e + k else k + 2 \<le> ue_br_ctr e)"
proof -
  have "ue_br_ctr e \<le> 3"
    using ubtb_entry_for_ok [OF assms(2,3)] by (simp add: ubtb_entry_ok_def)
  moreover obtain e' where "ubtb_entry_for c (foldl (ubtb_tick c) s is) pc = Some e'"
    "ue_owner_valid e'" "ue_cfi_type e' = CFI_BR" "ue_cfi_slot e' = ue_cfi_slot e"
    "ue_br_ctr e' = ubtb_count (ue_br_ctr e) (replicate k taken)"
    using ubtb_commits_run [OF assms(1-5,7,8)] by blast
  ultimately show ?thesis
    using assms(6) by (cases taken) (auto simp: ubtb_predicts_def ubtb_take_def ubtb_count_replicate)
qed

section \<open>Witnesses\<close>

text \<open>Two entries over eight-byte regions; \<open>ubtb_demo_br pc taken\<close> commits the branch in slot 2 of
  \<open>pc\<close>'s region.\<close>

definition ubtb_demo :: ubtb_cfg where
  "ubtb_demo = \<lparr>uc_vaddr_bits = 8, uc_region_bytes = 8, uc_entries = 2, uc_tag_bits = 3, uc_slots = 4\<rparr>"

definition ubtb_demo_train :: "nat \<Rightarrow> bool \<Rightarrow> ubtb_train" where
  "ubtb_demo_train pc taken = \<lparr>ut_valid = True, ut_pc = pc, ut_br_commit_mask = 4,
     ut_br_taken_mask = (if taken then 4 else 0), ut_cfi_valid = taken, ut_cfi_slot = 2,
     ut_cfi_type = (if taken then CFI_BR else CFI_NONE), ut_ras_action = RAS_NONE, ut_target = 64\<rparr>"

definition ubtb_demo_br :: "nat \<Rightarrow> bool \<Rightarrow> ubtb_inputs" where
  "ubtb_demo_br pc taken = ubtb_query pc (ubtb_demo_train pc taken)"

definition ubtb_demo_state :: ubtb_state where
  "ubtb_demo_state = foldl (ubtb_tick ubtb_demo) (ubtb_reset ubtb_demo)
     [ubtb_demo_br 8 True, ubtb_demo_br 16 True]"

lemma ubtb_demo_facts:
  "ubtb_cfg_ok ubtb_demo"
  "list_all (\<lambda>i. ubtb_train_legal ubtb_demo (ui_train i)) [ubtb_demo_br 8 True, ubtb_demo_br 16 True]"
  "ubtb_tag_of ubtb_demo 8 = 1" "ubtb_tag_of ubtb_demo 16 = 2" "ubtb_tag_of ubtb_demo 24 = 3"
  "ubtb_evicted ubtb_demo ubtb_demo_state (ubtb_demo_train 24 True) = Some 1"
  by code_simp+

lemma ubtb_demo_wf: "ubtb_wf ubtb_demo ubtb_demo_state"
proof -
  have "ubtb_train_legal ubtb_demo (ui_train (ubtb_demo_br 8 True))"
    "ubtb_train_legal ubtb_demo (ui_train (ubtb_demo_br 16 True))" by code_simp+
  then show ?thesis
    by (simp add: ubtb_demo_state_def ubtb_tick_wf ubtb_wf_reset ubtb_demo_facts(1))
qed

theorem ubtb_run_wf_witness:
  "ubtb_wf ubtb_demo (foldl (ubtb_tick ubtb_demo) (ubtb_reset ubtb_demo)
     [ubtb_demo_br 8 True, ubtb_demo_br 16 True])"
  by (rule ubtb_run_wf [OF ubtb_demo_facts(1,2)])

theorem ubtb_train_map_witness:
  "ubtb_entry_for ubtb_demo (ubtb_tick ubtb_demo ubtb_demo_state (ubtb_demo_br 24 True)) 8 = None \<and>
   ubtb_entry_for ubtb_demo (ubtb_tick ubtb_demo ubtb_demo_state (ubtb_demo_br 24 True)) 16 =
     ubtb_entry_for ubtb_demo ubtb_demo_state 16"
proof -
  have i: "\<not> ui_rst (ubtb_demo_br 24 True)"
    "ubtb_trains ubtb_demo ubtb_demo_state (ui_train (ubtb_demo_br 24 True))"
    "ui_train (ubtb_demo_br 24 True) = ubtb_demo_train 24 True" "ut_pc (ubtb_demo_train 24 True) = 24"
    by code_simp+
  show ?thesis
    using ubtb_train_map [OF ubtb_demo_wf i(1,2), of 8] ubtb_train_map [OF ubtb_demo_wf i(1,2), of 16]
    by (simp add: i ubtb_demo_facts)
qed

theorem ubtb_query_next_pc_witness:
  "\<exists>p. ubtb_visible ubtb_demo ubtb_demo_state (ubtb_query 10 (ubtb_demo_train 8 False)) =
     (True, True, p, 1, 1) \<and> up_region_base p = 8 \<and> up_next_pc p = 64"
proof -
  have e: "ubtb_entry_for ubtb_demo ubtb_demo_state 10 \<noteq> None" "uc_region_bytes ubtb_demo = 8"
    "map_option ue_target (ubtb_predicts ubtb_demo ubtb_demo_state 10) = Some 64" by code_simp+
  show ?thesis
    using ubtb_query_next_pc [OF ubtb_demo_facts(1), of ubtb_demo_state 10 "ubtb_demo_train 8 False"] e
    by auto
qed

theorem ubtb_learns_taken_witness:
  "\<exists>e. ubtb_predicts ubtb_demo (ubtb_tick ubtb_demo ubtb_demo_state (ubtb_demo_br 24 True)) 26 = Some e \<and>
     ue_target e = 64"
proof -
  have i: "\<not> ui_rst (ubtb_demo_br 24 True)" "ut_valid (ui_train (ubtb_demo_br 24 True))"
    "ubtb_taken_cfi (ui_train (ubtb_demo_br 24 True))"
    "ubtb_tag_of ubtb_demo 26 = ubtb_tag_of ubtb_demo (ut_pc (ui_train (ubtb_demo_br 24 True)))"
    "26 mod uc_region_bytes ubtb_demo div 2 \<le> ut_cfi_slot (ui_train (ubtb_demo_br 24 True))"
    "ubtb_entry_for ubtb_demo ubtb_demo_state 26 = None"
    "ut_target (ui_train (ubtb_demo_br 24 True)) = 64" by code_simp+
  show ?thesis
    using ubtb_learns_taken [OF ubtb_demo_facts(1) ubtb_demo_wf i(1-5)] by (auto simp: i)
qed

theorem ubtb_hysteresis_witness:
  "ubtb_predicts ubtb_demo (foldl (ubtb_tick ubtb_demo) ubtb_demo_state [ubtb_demo_br 8 False]) 8 = None"
proof -
  define e where "e = the (ubtb_entry_for ubtb_demo ubtb_demo_state 8)"
  have e: "ubtb_entry_for ubtb_demo ubtb_demo_state 8 = Some e" "ue_owner_valid e" "ue_cfi_type e = CFI_BR"
    "8 mod uc_region_bytes ubtb_demo div 2 \<le> ue_cfi_slot e" "ubtb_commits ubtb_demo e 8 False (ubtb_demo_br 8 False)"
    "ue_br_ctr e = 2"
    unfolding e_def by code_simp+
  have l: "list_all2 (ubtb_commits ubtb_demo e 8) (replicate 1 False) [ubtb_demo_br 8 False]"
    using e(5) by simp
  have t: "list_all (\<lambda>i. ubtb_train_legal ubtb_demo (ui_train i)) [ubtb_demo_br 8 False]" by code_simp
  show ?thesis
    using ubtb_hysteresis [OF ubtb_demo_facts(1) ubtb_demo_wf e(1-4) l t] by (simp add: e(6))
qed

end
