(* ===== verification/Bounded_Stack.thy ===== *)
theory Bounded_Stack
  imports Clocked
begin

text \<open>
  The contract of a bounded return-address stack: a push keeps the newest \<open>bound\<close> elements, a pop drops
  the newest one. The client lemmas say what such a stack is for: on a well-nested trace of calls and
  returns whose nesting does not exceed the bound, every return finds the address of its call.
\<close>

section \<open>Well-nested traces\<close>

datatype 'a call_op = Call 'a | Ret

text \<open>\<open>nested n w\<close>: every return of \<open>w\<close> closes a call of \<open>w\<close>, at most \<open>n\<close> calls being open at once.\<close>

inductive nested :: "nat \<Rightarrow> 'a call_op list \<Rightarrow> bool" where
  nested_Nil: "nested n []"
| nested_Call: "nested n w \<Longrightarrow> nested (Suc n) w' \<Longrightarrow> nested (Suc n) (Call a # w @ Ret # w')"

text \<open>The return addresses of a trace under an unbounded stack.\<close>

fun trace_returns :: "'a list \<Rightarrow> 'a call_op list \<Rightarrow> 'a list" where
  "trace_returns st [] = []"
| "trace_returns st (Call a # w) = trace_returns (a # st) w"
| "trace_returns [] (Ret # w) = trace_returns [] w"
| "trace_returns (x # st) (Ret # w) = x # trace_returns st w"

lemma nested_returns_append:
  "nested n w \<Longrightarrow> trace_returns st (w @ r) = trace_returns st w @ trace_returns st r"
proof (induction arbitrary: st r rule: nested.induct)
  case (nested_Nil n)
  show ?case by simp
next
  case (nested_Call n w w' a)
  then show ?case by simp
qed

lemma nested_returns_any: "nested n w \<Longrightarrow> trace_returns st w = trace_returns st' w"
proof (induction arbitrary: st st' rule: nested.induct)
  case (nested_Nil n)
  show ?case by simp
next
  case (nested_Call n w w' a)
  have "trace_returns s (Call a # w @ Ret # w') = trace_returns (a # s) w @ a # trace_returns s w'" for s
    using nested_returns_append [OF nested_Call.hyps(1)] by simp
  with nested_Call.IH show ?case by metis
qed

section \<open>The contract\<close>

locale bounded_stack =
  fixes push :: "'a \<Rightarrow> 's \<Rightarrow> 's"
    and pop :: "'s \<Rightarrow> 's"
    and top :: "'s \<Rightarrow> 'a"
    and contents :: "'s \<Rightarrow> 'a list"
    and inv :: "'s \<Rightarrow> bool"
    and bound :: nat
  assumes push_inv: "inv s \<Longrightarrow> inv (push a s)"
    and pop_inv: "inv s \<Longrightarrow> inv (pop s)"
    and push_contents: "inv s \<Longrightarrow> contents (push a s) = take bound (a # contents s)"
    and pop_contents: "inv s \<Longrightarrow> contents (pop s) = tl (contents s)"
    and top_contents: "inv s \<Longrightarrow> contents s \<noteq> [] \<Longrightarrow> top s = hd (contents s)"
    and contents_bound: "inv s \<Longrightarrow> length (contents s) \<le> bound"
begin

text \<open>Running a trace: the predicted address of each return, and the final stack.\<close>

fun run_trace :: "'s \<Rightarrow> 'a call_op list \<Rightarrow> 'a list \<times> 's" where
  "run_trace s [] = ([], s)"
| "run_trace s (Call a # w) = run_trace (push a s) w"
| "run_trace s (Ret # w) = (let (ps, s') = run_trace (pop s) w in (top s # ps, s'))"

lemma run_trace_append:
  "run_trace s (w @ r) =
     (fst (run_trace s w) @ fst (run_trace (snd (run_trace s w)) r), snd (run_trace (snd (run_trace s w)) r))"
  by (induction s w rule: run_trace.induct) (auto simp: case_prod_beta)

lemma run_trace_inv: "inv s \<Longrightarrow> inv (snd (run_trace s w))"
  by (induction s w rule: run_trace.induct) (auto simp: case_prod_beta push_inv pop_inv)

lemma run_nested:
  "nested n w \<Longrightarrow> inv s \<Longrightarrow> n \<le> bound \<Longrightarrow>
   fst (run_trace s w) = trace_returns [] w \<and>
   (\<exists>k. bound - n \<le> k \<and> contents (snd (run_trace s w)) = take k (contents s))"
proof (induction arbitrary: s rule: nested.induct)
  case (nested_Nil n)
  then show ?case by (auto intro!: exI [of _ bound] simp: contents_bound)
next
  case (nested_Call n w w' a)
  let ?s1 = "push a s"
  let ?s2 = "snd (run_trace ?s1 w)"
  have i1: "inv ?s1" and i2: "inv ?s2" and i3: "inv (pop ?s2)"
    using nested_Call.prems by (simp_all add: push_inv run_trace_inv pop_inv)
  from nested_Call.IH(1) [OF i1] nested_Call.prems obtain k where
    k: "bound - n \<le> k" "contents ?s2 = take k (contents ?s1)"
    and ret: "fst (run_trace ?s1 w) = trace_returns [] w" by auto
  from nested_Call.IH(2) [OF i3] nested_Call.prems obtain k' where
    k': "bound - Suc n \<le> k'" "contents (snd (run_trace (pop ?s2) w')) = take k' (contents (pop ?s2))"
    and ret': "fst (run_trace (pop ?s2) w') = trace_returns [] w'" by auto
  obtain m where m: "min k bound = Suc m" using k(1) nested_Call.prems by (cases "min k bound") auto
  have c2: "contents ?s2 = a # take m (contents s)"
    using k(2) m by (simp add: push_contents [OF nested_Call.prems(1)])
  then have top: "top ?s2 = a" using top_contents [OF i2] by simp
  have "contents (snd (run_trace (pop ?s2) w')) = take (min k' m) (contents s)"
    using k'(2) c2 by (simp add: pop_contents [OF i2])
  moreover have "bound - Suc n \<le> min k' m" using k(1) k'(1) m by linarith
  moreover have "trace_returns [] (Call a # w @ Ret # w') = trace_returns [a] w @ a # trace_returns [] w'"
    using nested_returns_append [OF nested_Call.hyps(1)] by simp
  moreover have "trace_returns [a] w = trace_returns [] w"
    by (rule nested_returns_any) (rule nested_Call.hyps(1))
  ultimately show ?case
    using ret ret' top
    by (auto simp: run_trace_append case_prod_beta intro!: exI [of _ "min k' m"])
qed

end

end
