(* ===== verification/RAS.thy ===== *)
theory RAS
  imports Bounded_Stack
begin

text \<open>
  The return address stack: \<open>sim/cocotb/ras/ras_model.py\<close> (\<open>RasModel\<close>). A ring of \<open>depth\<close> addresses with
  the index of the newest one and a count, saturating at \<open>depth\<close>; a checkpoint records index, count and
  newest address, and a recovery restores them and then applies the corrected action. The abstract
  view of the ring is the list of the last \<open>count\<close> addresses, newest first.
\<close>

section \<open>Data\<close>

record ras_ckpt =
  ck_idx :: nat
  ck_count :: nat
  ck_addr :: nat

record ras_inputs =
  ri_reset :: bool
  ri_op_valid :: bool
  ri_op :: ras_action
  ri_op_addr :: nat
  ri_recover :: bool
  ri_recover_id :: nat
  ri_ckpt :: ras_ckpt
  ri_fix :: ras_action
  ri_fix_addr :: nat

record ras_state =
  rs_entries :: "nat list"
  rs_idx :: nat
  rs_count :: nat

section \<open>Operations\<close>

definition ras_reset :: "nat \<Rightarrow> ras_state" where
  "ras_reset depth = \<lparr>rs_entries = replicate depth 0, rs_idx = depth - 1, rs_count = 0\<rparr>"

definition ras_checkpoint :: "ras_state \<Rightarrow> ras_ckpt" where
  "ras_checkpoint s = \<lparr>ck_idx = rs_idx s, ck_count = rs_count s,
     ck_addr = (if rs_count s \<noteq> 0 then rs_entries s ! rs_idx s else 0)\<rparr>"

text \<open>The event bits: push, pop, underflow, overflow.\<close>

definition ras_events :: "nat \<Rightarrow> ras_state \<Rightarrow> ras_inputs \<Rightarrow> nat" where
  "ras_events depth s i =
     (if ri_reset i \<or> \<not> (ri_recover i \<or> ri_op_valid i) then 0 else
      let count = (if ri_recover i then ck_count (ri_ckpt i) else rs_count s);
          action = (if ri_recover i then ri_fix i else ri_op i);
          push = action \<in> {RAS_PUSH, RAS_POP_PUSH};
          pop = action \<in> {RAS_POP, RAS_POP_PUSH};
          underflow = pop \<and> count = 0;
          overflow = action = RAS_PUSH \<and> count = depth
      in of_bool push OR push_bit 1 (of_bool pop) OR push_bit 2 (of_bool underflow)
         OR push_bit 3 (of_bool overflow))"

text \<open>The three branches of \<open>advance\<close> on an action.\<close>

definition ras_push :: "nat \<Rightarrow> nat \<Rightarrow> ras_state \<Rightarrow> ras_state" where
  "ras_push depth addr s =
     (let idx = (rs_idx s + 1) mod depth in
      s\<lparr>rs_entries := (rs_entries s)[idx := addr], rs_idx := idx, rs_count := min (rs_count s + 1) depth\<rparr>)"

definition ras_pop :: "nat \<Rightarrow> ras_state \<Rightarrow> ras_state" where
  "ras_pop depth s =
     (if rs_count s \<noteq> 0
      then s\<lparr>rs_idx := nat ((int (rs_idx s) - 1) mod int depth), rs_count := rs_count s - 1\<rparr> else s)"

definition ras_act :: "nat \<Rightarrow> ras_action \<Rightarrow> nat \<Rightarrow> ras_state \<Rightarrow> ras_state py" where
  "ras_act depth action addr s =
     (case action of
        RAS_NONE \<Rightarrow> Inr s
      | RAS_PUSH \<Rightarrow> Inr (ras_push depth addr s)
      | RAS_POP \<Rightarrow> Inr (ras_pop depth s)
      | RAS_POP_PUSH \<Rightarrow>
          let s1 = (if rs_count s = 0 then s\<lparr>rs_idx := (rs_idx s + 1) mod depth, rs_count := 1\<rparr> else s)
          in py_bind (py_upd (rs_entries s1) (rs_idx s1) addr) (\<lambda>es. Inr (s1\<lparr>rs_entries := es\<rparr>)))"

definition ras_restore :: "ras_ckpt \<Rightarrow> ras_state \<Rightarrow> ras_state py" where
  "ras_restore ck s =
     (let s1 = s\<lparr>rs_idx := ck_idx ck, rs_count := ck_count ck\<rparr> in
      if ck_count ck \<noteq> 0
      then py_bind (py_upd (rs_entries s1) (ck_idx ck) (ck_addr ck)) (\<lambda>es. Inr (s1\<lparr>rs_entries := es\<rparr>))
      else Inr s1)"

definition ras_advance :: "nat \<Rightarrow> ras_state \<Rightarrow> ras_inputs \<Rightarrow> ras_state py" where
  "ras_advance depth s i =
     (if ri_reset i then Inr (ras_reset depth)
      else if \<not> (ri_recover i \<or> ri_op_valid i) then Inr s
      else py_bind (if ri_recover i then ras_restore (ri_ckpt i) s else Inr s)
             (ras_act depth (if ri_recover i then ri_fix i else ri_op i)
                            (if ri_recover i then ri_fix_addr i else ri_op_addr i)))"

section \<open>The ring as a bounded stack\<close>

definition ras_wf :: "nat \<Rightarrow> ras_state \<Rightarrow> bool" where
  "ras_wf depth s \<longleftrightarrow> length (rs_entries s) = depth \<and> rs_idx s < depth \<and> rs_count s \<le> depth"

definition ras_ckpt_ok :: "nat \<Rightarrow> ras_ckpt \<Rightarrow> bool" where
  "ras_ckpt_ok depth ck \<longleftrightarrow> ck_idx ck < depth \<and> ck_count ck \<le> depth"

text \<open>The ring position \<open>k\<close> entries below the newest one.\<close>

definition ras_pos :: "nat \<Rightarrow> nat \<Rightarrow> nat \<Rightarrow> nat" where
  "ras_pos depth idx k = (idx + depth - k) mod depth"

definition ras_stack :: "nat \<Rightarrow> ras_state \<Rightarrow> nat list" where
  "ras_stack depth s = map (\<lambda>k. rs_entries s ! ras_pos depth (rs_idx s) k) [0..<rs_count s]"

lemma ras_pos_0 [simp]: "idx < depth \<Longrightarrow> ras_pos depth idx 0 = idx"
  by (simp add: ras_pos_def)

lemma ras_pos_less: "0 < depth \<Longrightarrow> ras_pos depth idx k < depth"
  by (simp add: ras_pos_def)

lemma ras_pos_push: "k < depth \<Longrightarrow> ras_pos depth (Suc idx mod depth) (Suc k) = ras_pos depth idx k"
proof -
  assume k: "k < depth"
  have "(Suc idx mod depth + depth - Suc k) mod depth = (Suc idx mod depth + (depth - Suc k)) mod depth"
    using k by simp
  also have "\<dots> = (Suc idx + (depth - Suc k)) mod depth" by (rule mod_add_left_eq)
  also have "Suc idx + (depth - Suc k) = idx + depth - k" using k by simp
  finally show ?thesis by (simp only: ras_pos_def)
qed

lemma ras_pos_inj:
  assumes "idx < depth" "j < depth" "k < depth" "ras_pos depth idx j = ras_pos depth idx k"
  shows "j = k"
proof -
  have split: "ras_pos depth idx i = (if i \<le> idx then idx - i else idx + depth - i)" if "i < depth" for i
  proof (cases "i \<le> idx")
    case True
    then have "ras_pos depth idx i = (idx - i + depth) mod depth" by (simp add: ras_pos_def)
    also have "\<dots> = idx - i" using assms(1) by (subst mod_add_self2) simp
    finally show ?thesis using True by simp
  qed (use that assms(1) in \<open>simp add: ras_pos_def\<close>)
  show ?thesis
    using assms by (simp add: split split: if_splits)
qed

lemma ras_pop_idx:
  assumes "idx < depth"
  shows "nat ((int idx - 1) mod int depth) = ras_pos depth idx 1"
proof -
  have "(int idx - 1) mod int depth = (int idx - 1 + int depth) mod int depth" by simp
  also have "int idx - 1 + int depth = int (idx + depth - 1)" using assms by simp
  finally show ?thesis by (simp add: ras_pos_def nat_mod_distrib)
qed

lemma ras_pos_pop:
  assumes "idx < depth" "Suc k < depth"
  shows "ras_pos depth (ras_pos depth idx 1) k = ras_pos depth idx (Suc k)"
proof -
  have "(ras_pos depth idx 1 + depth - k) mod depth = (ras_pos depth idx 1 + (depth - k)) mod depth"
    using assms by simp
  also have "\<dots> = (idx + depth - 1 + (depth - k)) mod depth"
    unfolding ras_pos_def by (rule mod_add_left_eq)
  also have "idx + depth - 1 + (depth - k) = (idx + depth - Suc k) + depth" using assms by simp
  finally show ?thesis by (simp add: ras_pos_def)
qed

lemma length_ras_stack [simp]: "length (ras_stack depth s) = rs_count s"
  by (simp add: ras_stack_def)

lemma nth_ras_stack [simp]:
  "k < rs_count s \<Longrightarrow> ras_stack depth s ! k = rs_entries s ! ras_pos depth (rs_idx s) k"
  by (simp add: ras_stack_def)

lemma ras_push_wf: "0 < depth \<Longrightarrow> ras_wf depth s \<Longrightarrow> ras_wf depth (ras_push depth a s)"
  by (simp add: ras_wf_def ras_push_def Let_def)

lemma ras_pop_wf: "ras_wf depth s \<Longrightarrow> ras_wf depth (ras_pop depth s)"
  by (auto simp: ras_wf_def ras_pop_def ras_pop_idx intro!: ras_pos_less)

lemma ras_stack_push:
  assumes "ras_wf depth s"
  shows "ras_stack depth (ras_push depth a s) = take depth (a # ras_stack depth s)"
proof (rule nth_equalityI)
  have d: "0 < depth" using assms by (auto simp: ras_wf_def)
  show len: "length (ras_stack depth (ras_push depth a s)) = length (take depth (a # ras_stack depth s))"
    by (simp add: ras_push_def Let_def min_def)
  fix k assume "k < length (ras_stack depth (ras_push depth a s))"
  then have k: "k < depth" "k < Suc (rs_count s)" by (simp_all add: ras_push_def Let_def)
  let ?idx = "Suc (rs_idx s) mod depth"
  have idx: "?idx < depth" using d by simp
  show "ras_stack depth (ras_push depth a s) ! k = take depth (a # ras_stack depth s) ! k"
  proof (cases k)
    case 0
    then show ?thesis using assms d idx k by (simp add: ras_push_def Let_def ras_wf_def)
  next
    case (Suc j)
    then have "ras_pos depth ?idx k \<noteq> ?idx"
      using ras_pos_inj [OF idx, of k 0] k idx by auto
    moreover have "ras_pos depth ?idx k = ras_pos depth (rs_idx s) j"
      using Suc k by (simp add: ras_pos_push)
    ultimately show ?thesis
      using Suc k by (simp add: ras_push_def Let_def)
  qed
qed

lemma ras_stack_pop:
  assumes "ras_wf depth s"
  shows "ras_stack depth (ras_pop depth s) = tl (ras_stack depth s)"
proof (rule nth_equalityI)
  fix k assume "k < length (ras_stack depth (ras_pop depth s))"
  then have k: "Suc k < rs_count s" by (simp add: ras_pop_def split: if_splits)
  with assms show "ras_stack depth (ras_pop depth s) ! k = tl (ras_stack depth s) ! k"
    by (simp add: ras_pop_def ras_pop_idx ras_pos_pop [simplified] ras_wf_def nth_tl)
qed (simp add: ras_pop_def)

lemma ras_top:
  assumes "ras_wf depth s" "ras_stack depth s \<noteq> []"
  shows "ck_addr (ras_checkpoint s) = hd (ras_stack depth s)"
proof -
  have "rs_count s \<noteq> 0" using assms(2) by (simp add: ras_stack_def)
  then show ?thesis
    using assms by (simp add: ras_checkpoint_def hd_conv_nth ras_wf_def)
qed

definition ras_inv :: "nat \<Rightarrow> ras_state \<Rightarrow> bool" where
  "ras_inv depth s \<longleftrightarrow> 0 < depth \<and> ras_wf depth s"

interpretation ras_stk: bounded_stack "ras_push depth" "ras_pop depth" "\<lambda>s. ck_addr (ras_checkpoint s)"
    "ras_stack depth" "ras_inv depth" depth for depth
  by unfold_locales
    (auto simp: ras_inv_def ras_push_wf ras_pop_wf ras_stack_push ras_stack_pop ras_top, simp add: ras_wf_def)

section \<open>Actions on the abstract stack\<close>

definition ras_spec :: "nat \<Rightarrow> ras_action \<Rightarrow> nat \<Rightarrow> nat list \<Rightarrow> nat list" where
  "ras_spec depth action a st =
     (case action of RAS_NONE \<Rightarrow> st | RAS_PUSH \<Rightarrow> take depth (a # st) | RAS_POP \<Rightarrow> tl st
      | RAS_POP_PUSH \<Rightarrow> a # tl st)"

lemma ras_pop_push_stack:
  assumes "ras_wf depth s" "rs_count s \<noteq> 0"
  shows "ras_stack depth (s\<lparr>rs_entries := (rs_entries s)[rs_idx s := a]\<rparr>) = a # tl (ras_stack depth s)"
proof (rule nth_equalityI)
  show "length (ras_stack depth (s\<lparr>rs_entries := (rs_entries s)[rs_idx s := a]\<rparr>)) =
      length (a # tl (ras_stack depth s))" using assms(2) by simp
  fix k assume "k < length (ras_stack depth (s\<lparr>rs_entries := (rs_entries s)[rs_idx s := a]\<rparr>))"
  then have k: "k < rs_count s" by simp
  show "ras_stack depth (s\<lparr>rs_entries := (rs_entries s)[rs_idx s := a]\<rparr>) ! k =
      (a # tl (ras_stack depth s)) ! k"
  proof (cases k)
    case 0
    with assms k show ?thesis by (simp add: ras_wf_def)
  next
    case (Suc j)
    have "ras_pos depth (rs_idx s) k \<noteq> rs_idx s"
      using ras_pos_inj [of "rs_idx s" depth k 0] assms(1) k Suc by (auto simp: ras_wf_def)
    with Suc k show ?thesis by (simp add: nth_tl)
  qed
qed

lemma ras_act_refines:
  assumes d: "0 < depth" and s: "ras_wf depth s"
  shows "\<exists>s'. ras_act depth action a s = Inr s' \<and> ras_wf depth s' \<and>
    ras_stack depth s' = ras_spec depth action a (ras_stack depth s)"
proof (cases action)
  case RAS_POP_PUSH
  show ?thesis
  proof (cases "rs_count s = 0")
    case True
    let ?s = "s\<lparr>rs_idx := (rs_idx s + 1) mod depth, rs_count := 1\<rparr>"
    have w: "ras_wf depth ?s" using s d by (simp add: ras_wf_def)
    have "ras_stack depth s = []" using True by (simp add: ras_stack_def)
    with ras_pop_push_stack [OF w, of a] True d s RAS_POP_PUSH show ?thesis
      by (simp add: ras_act_def Let_def ras_spec_def ras_wf_def) (simp add: ras_stack_def)
  next
    case False
    with ras_pop_push_stack [OF s, of a] d s RAS_POP_PUSH show ?thesis
      by (simp add: ras_act_def ras_spec_def ras_wf_def)
  qed
qed (use assms in \<open>simp_all add: ras_act_def ras_spec_def ras_push_wf ras_pop_wf ras_stack_push ras_stack_pop\<close>)

text \<open>The ring refines the bounded stack: on a well-formed ring every action succeeds, keeps the ring
  well formed, and changes the stack as its name says, the oldest address falling out of a full one.\<close>

theorem ras_act_refines_stack:
  assumes "0 < depth" "ras_wf depth s"
  shows "\<exists>s'. ras_act depth action a s = Inr s' \<and> ras_wf depth s' \<and>
    ras_stack depth s' = ras_spec depth action a (ras_stack depth s)"
  using assms by (rule ras_act_refines)

lemma ras_restore_ok:
  assumes "ras_ckpt_ok depth ck" "ras_wf depth s"
  shows "\<exists>s'. ras_restore ck s = Inr s' \<and> ras_wf depth s' \<and> rs_idx s' = ck_idx ck \<and>
    rs_count s' = ck_count ck \<and>
    rs_entries s' = (if ck_count ck \<noteq> 0 then (rs_entries s)[ck_idx ck := ck_addr ck] else rs_entries s)"
  using assms by (simp add: ras_restore_def ras_ckpt_ok_def ras_wf_def)

section \<open>Runs\<close>

definition ras_legal :: "nat \<Rightarrow> ras_inputs \<Rightarrow> bool" where
  "ras_legal depth i \<longleftrightarrow> 0 < depth \<and> (ri_recover i \<longrightarrow> ras_ckpt_ok depth (ri_ckpt i))"

definition ras_run_inv :: "nat \<Rightarrow> ras_state \<Rightarrow> bool" where
  "ras_run_inv depth s \<longleftrightarrow> (0 < depth \<longrightarrow> ras_wf depth s)"

lemma ras_reset_wf: "0 < depth \<Longrightarrow> ras_wf depth (ras_reset depth)"
  by (simp add: ras_wf_def ras_reset_def)

lemma ras_advance_wf:
  assumes "ras_legal depth i" "ras_wf depth s"
  shows "\<exists>s'. ras_advance depth s i = Inr s' \<and> ras_wf depth s'"
proof -
  have d: "0 < depth" using assms(1) by (simp add: ras_legal_def)
  have "\<exists>s1. (if ri_recover i then ras_restore (ri_ckpt i) s else Inr s) = Inr s1 \<and> ras_wf depth s1"
    using assms ras_restore_ok [of depth "ri_ckpt i" s] by (cases "ri_recover i") (auto simp: ras_legal_def)
  then obtain s1 where s1: "(if ri_recover i then ras_restore (ri_ckpt i) s else Inr s) = Inr s1"
    "ras_wf depth s1" by blast
  with ras_act_refines [OF d s1(2)] assms(2) show ?thesis
    unfolding ras_advance_def s1(1) by (auto simp: ras_reset_wf [OF d])
qed

interpretation ras_clk:
  clocked "ras_reset depth" "ras_advance depth" ri_reset "ras_legal depth" "ras_run_inv depth" for depth
proof
  show "ras_run_inv depth (ras_reset depth)" by (simp add: ras_run_inv_def ras_reset_wf)
  show "\<exists>s'. ras_advance depth s i = Inr s' \<and> ras_run_inv depth s'"
    if "ras_run_inv depth s" "ras_legal depth i" for s i
    using ras_advance_wf [OF that(2), of s] that by (auto simp: ras_run_inv_def ras_legal_def)
  show "ras_advance depth s i = Inr (ras_reset depth)" if "ri_reset i" for s i
    using that by (simp add: ras_advance_def)
qed

text \<open>Fed with checkpoints that name a ring position, the model never raises, and index and count stay in
  range.\<close>

theorem ras_run_safe:
  assumes "0 < depth" "list_all (\<lambda>i. ri_recover i \<longrightarrow> ras_ckpt_ok depth (ri_ckpt i)) is"
  shows "\<exists>s. py_run (ras_advance depth) (ras_reset depth) is = Inr s \<and> ras_wf depth s"
  using ras_clk.run_safe [of depth "is"] assms by (simp add: list_all_iff ras_legal_def ras_run_inv_def)

text \<open>The only exception of a cycle on a well-formed ring: recovering a non-empty checkpoint whose index is
  outside the ring raises \<open>IndexError\<close>.\<close>

theorem ras_advance_raises:
  assumes "0 < depth" "ras_wf depth s" "ri_recover i \<longrightarrow> ck_count (ri_ckpt i) \<le> depth"
  shows "(\<exists>e. ras_advance depth s i = Inl e) \<longleftrightarrow>
    \<not> ri_reset i \<and> ri_recover i \<and> ck_count (ri_ckpt i) \<noteq> 0 \<and> depth \<le> ck_idx (ri_ckpt i)"
proof (cases "ri_recover i \<and> depth \<le> ck_idx (ri_ckpt i)")
  case True
  show ?thesis
  proof (cases "ck_count (ri_ckpt i) = 0")
    case False
    with True assms(2) show ?thesis
      by (simp add: ras_advance_def ras_restore_def py_upd_def ras_wf_def)
  next
    case zero: True
    have idx: "(ck_idx (ri_ckpt i) + 1) mod depth < depth" using assms(1) by simp
    have "\<exists>s'. ras_act depth action a (s\<lparr>rs_idx := ck_idx (ri_ckpt i), rs_count := 0\<rparr>) = Inr s'" for action a
      using assms(2) idx by (cases action) (simp_all add: ras_act_def ras_wf_def)
    then have "ras_act depth action a (s\<lparr>rs_idx := ck_idx (ri_ckpt i), rs_count := 0\<rparr>) \<noteq> Inl e" for action a e
      by (metis sum.distinct(1))
    with True zero show ?thesis by (simp add: ras_advance_def ras_restore_def)
  qed
next
  case False
  with assms have "ras_legal depth i" by (auto simp: ras_legal_def ras_ckpt_ok_def)
  from ras_advance_wf [OF this assms(2)] False show ?thesis by auto
qed

section \<open>Calls and returns\<close>

definition ras_op :: "ras_action \<Rightarrow> nat \<Rightarrow> ras_inputs" where
  "ras_op action a = \<lparr>ri_reset = False, ri_op_valid = True, ri_op = action, ri_op_addr = a,
     ri_recover = False, ri_recover_id = 0, ri_ckpt = \<lparr>ck_idx = 0, ck_count = 0, ck_addr = 0\<rparr>,
     ri_fix = RAS_NONE, ri_fix_addr = 0\<rparr>"

text \<open>A trace of calls and returns through the model: a return is predicted by the checkpoint's address.\<close>

fun ras_trace :: "nat \<Rightarrow> ras_state \<Rightarrow> nat call_op list \<Rightarrow> (nat list \<times> ras_state) py" where
  "ras_trace depth s [] = Inr ([], s)"
| "ras_trace depth s (Call a # w) =
     py_bind (ras_advance depth s (ras_op RAS_PUSH a)) (\<lambda>s1. ras_trace depth s1 w)"
| "ras_trace depth s (Ret # w) =
     py_bind (ras_advance depth s (ras_op RAS_POP 0)) (\<lambda>s1.
       py_bind (ras_trace depth s1 w) (\<lambda>(ps, s2). Inr (ck_addr (ras_checkpoint s) # ps, s2)))"

lemma ras_trace_run: "ras_trace depth s w = Inr (ras_stk.run_trace depth s w)"
proof (induction depth s w rule: ras_trace.induct)
  case (3 depth s w)
  then show ?case
    by (simp add: ras_advance_def ras_op_def ras_act_def case_prod_beta)
qed (simp_all add: ras_advance_def ras_op_def ras_act_def)

text \<open>C10: On a well-nested trace of calls and returns nested at most \<open>depth\<close> deep, whatever the ring held before,
  every return is predicted with the address its call pushed.\<close>

theorem ras_predicts_nested_returns:
  assumes "0 < depth" "ras_wf depth s" "nested n w" "n \<le> depth"
  shows "\<exists>s'. ras_trace depth s w = Inr (trace_returns [] w, s')"
  using ras_stk.run_nested [OF assms(3), of depth s] assms
  unfolding ras_trace_run by (auto simp: ras_inv_def prod_eq_iff)

section \<open>Checkpoint and recovery\<close>

text \<open>The ring positions that an action writes.\<close>

definition ras_writes :: "nat \<Rightarrow> ras_state \<Rightarrow> ras_action \<Rightarrow> nat set" where
  "ras_writes depth s action =
     (case action of RAS_PUSH \<Rightarrow> {Suc (rs_idx s) mod depth}
      | RAS_POP_PUSH \<Rightarrow> {if rs_count s = 0 then Suc (rs_idx s) mod depth else rs_idx s} | _ \<Rightarrow> {})"

text \<open>A speculative path that overwrites nothing below the top of the checkpoint.\<close>

fun ras_shallow :: "nat \<Rightarrow> nat set \<Rightarrow> ras_state \<Rightarrow> (ras_action \<times> nat) list \<Rightarrow> bool" where
  "ras_shallow depth keep s [] \<longleftrightarrow> True"
| "ras_shallow depth keep s ((action, a) # ops) \<longleftrightarrow>
     ras_writes depth s action \<inter> keep = {} \<and>
     (case ras_act depth action a s of Inl e \<Rightarrow> False | Inr s1 \<Rightarrow> ras_shallow depth keep s1 ops)"

definition ras_below :: "nat \<Rightarrow> ras_state \<Rightarrow> nat set" where
  "ras_below depth s = ras_pos depth (rs_idx s) ` {1..<rs_count s}"

definition ras_recover :: "ras_ckpt \<Rightarrow> ras_action \<Rightarrow> nat \<Rightarrow> ras_inputs" where
  "ras_recover ck action a = (ras_op RAS_NONE 0)\<lparr>ri_recover := True, ri_ckpt := ck, ri_fix := action,
     ri_fix_addr := a\<rparr>"

lemma ras_act_keeps:
  assumes "ras_act depth action a s = Inr s'" "p \<notin> ras_writes depth s action"
  shows "rs_entries s' ! p = rs_entries s ! p"
  using assms
  by (cases action)
    (auto simp: ras_act_def ras_writes_def ras_push_def ras_pop_def Let_def py_upd_def split: if_splits)

lemma ras_shallow_keeps:
  assumes "0 < depth" "ras_wf depth s" "ras_shallow depth keep s ops"
  shows "\<exists>s'. py_run (ras_advance depth) s (map (\<lambda>(action, a). ras_op action a) ops) = Inr s' \<and>
    ras_wf depth s' \<and> (\<forall>p \<in> keep. rs_entries s' ! p = rs_entries s ! p)"
  using assms(2,3)
proof (induction ops arbitrary: s)
  case Nil
  then show ?case by simp
next
  case (Cons op ops)
  obtain action a where op: "op = (action, a)" by (cases op)
  obtain s1 where s1: "ras_act depth action a s = Inr s1" "ras_wf depth s1"
    using ras_act_refines [OF assms(1) Cons.prems(1)] by blast
  then have adv: "ras_advance depth s (ras_op action a) = Inr s1"
    by (simp add: ras_advance_def ras_op_def)
  from Cons.IH [OF s1(2)] Cons.prems(2) s1(1) op obtain s' where
    "py_run (ras_advance depth) s1 (map (\<lambda>(action, a). ras_op action a) ops) = Inr s'" "ras_wf depth s'"
    "\<forall>p \<in> keep. rs_entries s' ! p = rs_entries s1 ! p" by auto
  moreover have "rs_entries s1 ! p = rs_entries s ! p" if "p \<in> keep" for p
    using ras_act_keeps [OF s1(1), of p] Cons.prems(2) that op by auto
  ultimately show ?case by (auto simp: op adv)
qed

lemma ras_recover_stack:
  assumes "ras_wf depth s" "ras_wf depth s1" "\<forall>p \<in> ras_below depth s. rs_entries s1 ! p = rs_entries s ! p"
    "ras_restore (ras_checkpoint s) s1 = Inr s2"
  shows "ras_stack depth s2 = ras_stack depth s"
proof (cases "rs_count s = 0")
  case True
  with assms(4) show ?thesis by (auto simp: ras_restore_def ras_checkpoint_def ras_stack_def)
next
  case False
  have s2: "rs_count s2 = rs_count s" "rs_idx s2 = rs_idx s"
    "rs_entries s2 = (rs_entries s1)[rs_idx s := rs_entries s ! rs_idx s]"
    using assms(1,2,4) False by (auto simp: ras_restore_def ras_checkpoint_def ras_wf_def)
  show ?thesis
  proof (rule nth_equalityI)
    fix k assume "k < length (ras_stack depth s2)"
    then have k: "k < rs_count s" using s2 by simp
    show "ras_stack depth s2 ! k = ras_stack depth s ! k"
    proof (cases "k = 0")
      case True
      with k s2 assms(1,2) show ?thesis by (simp add: ras_wf_def)
    next
      case False
      then have "ras_pos depth (rs_idx s) k \<noteq> rs_idx s"
        using ras_pos_inj [of "rs_idx s" depth k 0] assms(1) k by (auto simp: ras_wf_def)
      with False k s2 assms(3) show ?thesis by (simp add: ras_below_def)
    qed
  qed (simp add: s2)
qed

text \<open>C11: Recovery undoes speculation: after any actions that write no ring position below the checkpointed
  top, recovering the checkpoint and applying the corrected action gives the stack that the
  corrected action gives on the checkpointed one.\<close>

theorem ras_checkpoint_recover:
  assumes "0 < depth" "ras_wf depth s" "ras_shallow depth (ras_below depth s) s ops"
  shows "\<exists>s1 s2. py_run (ras_advance depth) s (map (\<lambda>(action, a). ras_op action a) ops) = Inr s1 \<and>
    ras_advance depth s1 (ras_recover (ras_checkpoint s) fix_action b) = Inr s2 \<and>
    ras_stack depth s2 = ras_spec depth fix_action b (ras_stack depth s)"
proof -
  obtain s1 where s1: "py_run (ras_advance depth) s (map (\<lambda>(action, a). ras_op action a) ops) = Inr s1"
    "ras_wf depth s1" "\<forall>p \<in> ras_below depth s. rs_entries s1 ! p = rs_entries s ! p"
    using ras_shallow_keeps [OF assms] by blast
  have "ras_ckpt_ok depth (ras_checkpoint s)"
    using assms(2) by (simp add: ras_ckpt_ok_def ras_checkpoint_def ras_wf_def)
  from ras_restore_ok [OF this s1(2)] obtain r where
    r: "ras_restore (ras_checkpoint s) s1 = Inr r" "ras_wf depth r" by blast
  from ras_act_refines [OF assms(1) r(2)] obtain s2 where
    "ras_act depth fix_action b r = Inr s2"
    "ras_stack depth s2 = ras_spec depth fix_action b (ras_stack depth r)" by blast
  with s1(1) r ras_recover_stack [OF assms(2) s1(2,3) r(1)] show ?thesis
    by (auto simp: ras_advance_def ras_recover_def ras_op_def)
qed

section \<open>Events\<close>

lemma bit_four_flags:
  "bit (of_bool a OR push_bit 1 (of_bool b) OR push_bit 2 (of_bool c) OR push_bit 3 (of_bool d) :: nat) k \<longleftrightarrow>
   (k = 0 \<and> a) \<or> (k = 1 \<and> b) \<or> (k = 2 \<and> c) \<or> (k = 3 \<and> d)"
proof -
  have of_bool: "bit (of_bool x :: nat) n \<longleftrightarrow> x \<and> n = 0" for x n
    using bit_1_iff [of n, where 'a = nat] by (cases x) simp_all
  show ?thesis unfolding bit_or_iff bit_push_bit_iff of_bool by auto
qed

text \<open>The event bits: push and pop report the action taken, underflow a pop of an empty stack, overflow a push
  onto a full one, judged on the checkpoint's count in a recovery.\<close>

theorem ras_events_bits:
  fixes s depth
  assumes "\<not> ri_reset i" "ri_recover i \<or> ri_op_valid i"
  defines "action \<equiv> (if ri_recover i then ri_fix i else ri_op i)"
    and "count \<equiv> (if ri_recover i then ck_count (ri_ckpt i) else rs_count s)"
  shows "(bit (ras_events depth s i) 0 \<longleftrightarrow> action = RAS_PUSH \<or> action = RAS_POP_PUSH) \<and>
    (bit (ras_events depth s i) 1 \<longleftrightarrow> action = RAS_POP \<or> action = RAS_POP_PUSH) \<and>
    (bit (ras_events depth s i) 2 \<longleftrightarrow> (action = RAS_POP \<or> action = RAS_POP_PUSH) \<and> count = 0) \<and>
    (bit (ras_events depth s i) 3 \<longleftrightarrow> action = RAS_PUSH \<and> count = depth) \<and> ras_events depth s i < 16"
proof -
  have ev: "bit (ras_events depth s i) k \<longleftrightarrow>
      (k = 0 \<and> (action = RAS_PUSH \<or> action = RAS_POP_PUSH)) \<or>
      (k = 1 \<and> (action = RAS_POP \<or> action = RAS_POP_PUSH)) \<or>
      (k = 2 \<and> (action = RAS_POP \<or> action = RAS_POP_PUSH) \<and> count = 0) \<or>
      (k = 3 \<and> action = RAS_PUSH \<and> count = depth)" for k
  proof -
    have "\<not> (ri_reset i \<or> \<not> (ri_recover i \<or> ri_op_valid i))" using assms(1,2) by simp
    then have "ras_events depth s i = of_bool (action \<in> {RAS_PUSH, RAS_POP_PUSH}) OR
        push_bit 1 (of_bool (action \<in> {RAS_POP, RAS_POP_PUSH})) OR
        push_bit 2 (of_bool (action \<in> {RAS_POP, RAS_POP_PUSH} \<and> count = 0)) OR
        push_bit 3 (of_bool (action = RAS_PUSH \<and> count = depth))"
      by (simp only: ras_events_def action_def [symmetric] count_def [symmetric] Let_def if_False)
    then show ?thesis by (simp only: bit_four_flags) blast
  qed
  have "ras_events depth s i < 2 ^ 4" unfolding less_exp_bit_iff by (simp add: ev)
  then show ?thesis by (simp add: ev)
qed

section \<open>Witnesses\<close>

text \<open>A ring of four that wrapped: five pushes left the stack 15, 14, 13, 12.\<close>

definition ras_demo :: ras_state where
  "ras_demo = \<lparr>rs_entries = [15, 12, 13, 14], rs_idx = 0, rs_count = 4\<rparr>"

lemma ras_demo_facts:
  "ras_wf 4 ras_demo" "(0::nat) < 4" "ras_stack 4 ras_demo = [15, 14, 13, 12]"
  "ras_shallow 4 (ras_below 4 ras_demo) ras_demo [(RAS_POP, 0), (RAS_PUSH, 7), (RAS_POP_PUSH, 8)]"
  by code_simp+

theorem ras_act_refines_stack_witness:
  "\<exists>s'. ras_act 4 RAS_PUSH 16 ras_demo = Inr s' \<and> ras_stack 4 s' = [16, 15, 14, 13]"
  using ras_act_refines_stack [OF ras_demo_facts(2,1), of RAS_PUSH 16]
  by (auto simp: ras_demo_facts ras_spec_def)

theorem ras_run_safe_witness:
  "\<exists>s. py_run (ras_advance 4) (ras_reset 4) [ras_op RAS_PUSH 9, ras_recover \<lparr>ck_idx = 1, ck_count = 2, ck_addr = 5\<rparr> RAS_POP 0] = Inr s
     \<and> ras_wf 4 s"
  by (rule ras_run_safe [OF ras_demo_facts(2)]) code_simp

theorem ras_advance_raises_witness:
  "\<exists>e. ras_advance 4 ras_demo (ras_recover \<lparr>ck_idx = 4, ck_count = 1, ck_addr = 5\<rparr> RAS_NONE 0) = Inl e"
proof -
  let ?i = "ras_recover \<lparr>ck_idx = 4, ck_count = 1, ck_addr = 5\<rparr> RAS_NONE 0"
  have "ri_recover ?i \<longrightarrow> ck_count (ri_ckpt ?i) \<le> 4" by code_simp
  from ras_advance_raises [OF ras_demo_facts(2,1) this] show ?thesis
    by (simp add: ras_recover_def ras_op_def)
qed

theorem ras_predicts_nested_returns_witness:
  "\<exists>s'. ras_trace 4 ras_demo [Call 20, Call 21, Ret, Call 22, Ret, Ret] = Inr ([21, 22, 20], s')"
proof -
  have "nested (Suc 0) [Call 22, Ret]"
    using nested_Call [OF nested_Nil nested_Nil, of 0 22] by simp
  then have "nested (Suc 0) [Call 21, Ret, Call 22, Ret]"
    using nested_Call [OF nested_Nil, of 0 "[Call 22, Ret]" 21] by simp
  then have n: "nested 2 [Call 20, Call 21, Ret, Call 22, Ret, Ret]"
    using nested_Call [OF _ nested_Nil, of "Suc 0" "[Call 21, Ret, Call 22, Ret]" 20]
    by (simp add: numeral_2_eq_2)
  have "trace_returns [] [Call 20, Call 21, Ret, Call 22, Ret, Ret] = [21, 22, 20::nat]" by simp
  with ras_predicts_nested_returns [OF ras_demo_facts(2,1) n] show ?thesis by simp
qed

theorem ras_checkpoint_recover_witness:
  "\<exists>s1 s2. py_run (ras_advance 4) ras_demo [ras_op RAS_POP 0, ras_op RAS_PUSH 7, ras_op RAS_POP_PUSH 8] = Inr s1 \<and>
     ras_advance 4 s1 (ras_recover (ras_checkpoint ras_demo) RAS_POP 0) = Inr s2 \<and>
     ras_stack 4 s2 = [14, 13, 12]"
  using ras_checkpoint_recover [OF ras_demo_facts(2,1,4), of RAS_POP 0]
  by (simp add: ras_demo_facts ras_spec_def)

theorem ras_events_bits_witness:
  "bit (ras_events 4 ras_demo (ras_op RAS_PUSH 3)) 3 \<and> \<not> bit (ras_events 4 ras_demo (ras_op RAS_PUSH 3)) 2"
  using ras_events_bits [of "ras_op RAS_PUSH 3" 4 ras_demo]
  by (simp add: ras_op_def ras_demo_def)

end
