(* ===== verification/IFU_F1.thy ===== *)
theory IFU_F1
  imports O3_Prelude
begin

text \<open>
  The fetch stage that checks predictions against the fetched instructions:
  \<open>sim/cocotb/ifu_f1/ifu_f1_model.py\<close>. RV64I encoders, the decoder that classifies control transfers,
  and \<open>evaluate\<close>, which delivers the instructions of a fetch block up to the first one the prediction
  was wrong about and then asks for a redirect. Words, addresses and slots are Python integers, so
  they are integers here; the wrap-around at 64 bits is the explicit \<open>AND\<close> with \<open>PC_MASK\<close>.
\<close>

section \<open>Encoders\<close>

definition f1_sext :: "int \<Rightarrow> nat \<Rightarrow> int" where
  "f1_sext x n = (if x AND push_bit (n - 1) 1 \<noteq> 0 then x - push_bit n 1 else x)"

definition f1_jal :: "int \<Rightarrow> int \<Rightarrow> int" where
  "f1_jal rd imm0 =
     (let imm = imm0 AND (push_bit 21 1 - 1) in
      push_bit 31 (drop_bit 20 imm AND 1) OR push_bit 21 (drop_bit 1 imm AND 0x3FF)
      OR push_bit 20 (drop_bit 11 imm AND 1) OR push_bit 12 (drop_bit 12 imm AND 0xFF)
      OR push_bit 7 rd OR 0x6F)"

definition f1_jalr :: "int \<Rightarrow> int \<Rightarrow> int \<Rightarrow> int" where
  "f1_jalr rd rs1 imm = push_bit 20 (imm AND 0xFFF) OR push_bit 15 rs1 OR push_bit 7 rd OR 0x67"

definition f1_branch :: "int \<Rightarrow> int \<Rightarrow> int \<Rightarrow> int \<Rightarrow> int" where
  "f1_branch rs1 rs2 imm0 funct3 =
     (let imm = imm0 AND (push_bit 13 1 - 1) in
      push_bit 31 (drop_bit 12 imm AND 1) OR push_bit 25 (drop_bit 5 imm AND 0x3F)
      OR push_bit 20 rs2 OR push_bit 15 rs1 OR push_bit 12 funct3
      OR push_bit 8 (drop_bit 1 imm AND 0xF) OR push_bit 7 (drop_bit 11 imm AND 1) OR 0x63)"

definition f1_addi :: "int \<Rightarrow> int \<Rightarrow> int \<Rightarrow> int" where
  "f1_addi rd rs1 imm = push_bit 20 (imm AND 0xFFF) OR push_bit 15 rs1 OR push_bit 7 rd OR 0x13"

definition f1_nop :: int where
  "f1_nop = f1_addi 0 0 0"

section \<open>Decoder\<close>

definition pc_mask :: int where
  "pc_mask = push_bit 64 1 - 1"

definition f1_link :: "int \<Rightarrow> bool" where
  "f1_link r \<longleftrightarrow> r = 1 \<or> r = 5"

definition f1_branch_imm :: "int \<Rightarrow> int" where
  "f1_branch_imm w = push_bit 12 (drop_bit 31 w AND 1) OR push_bit 11 (drop_bit 7 w AND 1)
     OR push_bit 5 (drop_bit 25 w AND 0x3F) OR push_bit 1 (drop_bit 8 w AND 0xF)"

definition f1_jal_imm :: "int \<Rightarrow> int" where
  "f1_jal_imm w = push_bit 20 (drop_bit 31 w AND 1) OR push_bit 12 (drop_bit 12 w AND 0xFF)
     OR push_bit 11 (drop_bit 20 w AND 1) OR push_bit 1 (drop_bit 21 w AND 0x3FF)"

definition f1_decode :: "int \<Rightarrow> int \<Rightarrow> cfi \<times> ras_action \<times> int option" where
  "f1_decode w pc =
     (let opcode = w AND 0x7F; rd = drop_bit 7 w AND 0x1F; rs1 = drop_bit 15 w AND 0x1F;
          funct3 = drop_bit 12 w AND 7
      in if opcode = 0x63 \<and> funct3 \<noteq> 2 \<and> funct3 \<noteq> 3
         then (CFI_BR, RAS_NONE, Some ((pc + f1_sext (f1_branch_imm w) 13) AND pc_mask))
         else if opcode = 0x6F
         then (CFI_JAL, if f1_link rd then RAS_PUSH else RAS_NONE,
               Some ((pc + f1_sext (f1_jal_imm w) 21) AND pc_mask))
         else if opcode = 0x67 \<and> funct3 = 0
         then (CFI_JALR,
               (if f1_link rs1 then
                  (if f1_link rd then (if rd = rs1 then RAS_PUSH else RAS_POP_PUSH) else RAS_POP)
                else if f1_link rd then RAS_PUSH else RAS_NONE),
               None)
         else (CFI_NONE, RAS_NONE, None))"

section \<open>Fetch blocks\<close>

record f1_item =
  fi_slot :: int
  fi_pc :: int
  fi_word :: int
  fi_ftq_id :: int
  fi_exc :: bool
  fi_cause :: int
  fi_tval :: int
  fi_inst_len :: int
  fi_edge :: bool

record f1_pred =
  fp_cfi_valid :: bool
  fp_cfi_slot :: int
  fp_cfi_type :: cfi
  fp_ras_action :: ras_action
  fp_cfi_target :: int
  fp_next_pc :: int
  fp_raw_taken :: bool
  fp_ras_count :: int
  fp_ras_top :: int
  fp_rvc :: bool
  fp_edge :: bool
  fp_base :: int
  fp_ftq_id :: int

record f1_inputs =
  fn_rst :: bool
  fn_items :: "f1_item list"
  fn_pred :: f1_pred
  fn_ready :: bool
  fn_kill :: bool
  fn_last :: bool
  fn_edge_pend :: bool
  fn_beat :: bool

record f1_entry =
  fe_pc :: int
  fe_word :: int
  fe_ftq_id :: int
  fe_slot :: int
  fe_exc :: bool
  fe_cause :: int
  fe_tval :: int
  fe_taken :: bool
  fe_next_pc :: int
  fe_last :: bool

record f1_req =
  fr_src :: int
  fr_ftq_id :: int
  fr_slot :: int
  fr_kill_self :: int
  fr_target :: int
  fr_hist_inject :: int
  fr_hist_branch :: int
  fr_hist_target :: int
  fr_ras_fix :: ras_action
  fr_push_addr :: int

text \<open>\<open>block\<close>: consecutive 32-bit items from a start slot; \<open>exc\<close> maps an index to cause and value.\<close>

fun f1_block_from ::
  "int \<Rightarrow> int \<Rightarrow> int \<Rightarrow> (nat \<Rightarrow> (int \<times> int) option) \<Rightarrow> nat \<Rightarrow> int list \<Rightarrow> f1_item list" where
  "f1_block_from base ftq_id start exc n [] = []"
| "f1_block_from base ftq_id start exc n (w # ws) =
     (let slot = start + 2 * int n; (cause, tval) = (case exc n of None \<Rightarrow> (0, 0) | Some x \<Rightarrow> x)
      in \<lparr>fi_slot = slot, fi_pc = base + 2 * slot, fi_word = w, fi_ftq_id = ftq_id,
          fi_exc = exc n \<noteq> None, fi_cause = cause, fi_tval = tval, fi_inst_len = 4, fi_edge = False\<rparr>)
     # f1_block_from base ftq_id start exc (Suc n) ws"

definition f1_block ::
  "int \<Rightarrow> int list \<Rightarrow> int \<Rightarrow> int \<Rightarrow> (nat \<Rightarrow> (int \<times> int) option) \<Rightarrow> f1_item list" where
  "f1_block base ws ftq_id start exc = f1_block_from base ftq_id start exc 0 ws"

section \<open>Checking a prediction\<close>

definition f1_seq :: "f1_item \<Rightarrow> int" where
  "f1_seq it = (fi_pc it + fi_inst_len it) AND pc_mask"

definition f1_start :: "f1_item \<Rightarrow> int" where
  "f1_start it = (if fi_edge it then -1 else fi_slot it)"

definition f1_end :: "f1_item \<Rightarrow> int" where
  "f1_end it = f1_start it + (if fi_inst_len it = 4 then 1 else 0)"

definition f1_exit_pos :: "f1_pred \<Rightarrow> int" where
  "f1_exit_pos p = (if fp_edge p then -1 else fp_cfi_slot p)"

definition f1_is_exit :: "f1_pred \<Rightarrow> f1_item \<Rightarrow> bool" where
  "f1_is_exit p it \<longleftrightarrow> fp_cfi_valid p \<and> f1_start it = f1_exit_pos p"

definition f1_covers :: "f1_pred \<Rightarrow> f1_item \<Rightarrow> bool" where
  "f1_covers p it \<longleftrightarrow> fp_cfi_valid p \<and> f1_end it \<ge> f1_exit_pos p"

definition f1_earlier :: "f1_pred \<Rightarrow> f1_item \<Rightarrow> bool" where
  "f1_earlier p it \<longleftrightarrow> \<not> fp_cfi_valid p \<or> f1_start it < f1_exit_pos p"

text \<open>A correction: taken, target, stack action, history injection.\<close>

record f1_fix =
  fx_taken :: bool
  fx_target :: int
  fx_ras :: ras_action
  fx_hist :: bool

definition f1_actual :: "f1_pred \<Rightarrow> cfi \<Rightarrow> ras_action \<Rightarrow> int option \<Rightarrow> int option" where
  "f1_actual p t ras direct =
     (if t = CFI_JAL then direct
      else if t = CFI_JALR \<and> (ras = RAS_POP \<or> ras = RAS_POP_PUSH) \<and> fp_ras_count p \<noteq> 0
      then Some (fp_ras_top p) else None)"

text \<open>The stack action or the return-address length was predicted wrongly (lines 152 and 154).\<close>

definition f1_ras_wrong :: "f1_pred \<Rightarrow> f1_item \<Rightarrow> ras_action \<Rightarrow> bool" where
  "f1_ras_wrong p it ras \<longleftrightarrow> fp_ras_action p \<noteq> ras \<or>
     ((ras = RAS_PUSH \<or> ras = RAS_POP_PUSH) \<and> fp_rvc p \<noteq> (fi_inst_len it = 2))"

definition f1_correction :: "f1_pred \<Rightarrow> f1_item \<Rightarrow> f1_fix option" where
  "f1_correction p it =
     (if fi_exc it then None else
      let (t, ras, direct) = f1_decode (fi_word it) (fi_pc it);
          actual = f1_actual p t ras direct;
          seq_fix = \<lparr>fx_taken = False, fx_target = f1_seq it, fx_ras = RAS_NONE, fx_hist = False\<rparr>;
          is_exit = f1_is_exit p it
      in if f1_earlier p it \<and> actual \<noteq> None
         then Some \<lparr>fx_taken = True, fx_target = the actual, fx_ras = ras, fx_hist = False\<rparr>
         else if f1_covers p it \<and> (\<not> is_exit \<or> t = CFI_NONE) then Some seq_fix
         else if is_exit \<and> t \<noteq> fp_cfi_type p
         then Some (case actual of
                      Some a \<Rightarrow> \<lparr>fx_taken = True, fx_target = a, fx_ras = ras, fx_hist = False\<rparr>
                    | None \<Rightarrow> seq_fix)
         else if is_exit \<and> (t = CFI_BR \<or> t = CFI_JAL) \<and>
                 (Some (fp_cfi_target p) \<noteq> direct \<or> (t = CFI_JAL \<and> f1_ras_wrong p it ras))
         then Some \<lparr>fx_taken = True, fx_target = the direct, fx_ras = ras, fx_hist = (t = CFI_BR)\<rparr>
         else if is_exit \<and> t = CFI_JALR \<and> f1_ras_wrong p it ras
         then Some \<lparr>fx_taken = True,
                    fx_target = (case actual of Some a \<Rightarrow> a | None \<Rightarrow> fp_next_pc p),
                    fx_ras = ras, fx_hist = False\<rparr>
         else None)"

definition f1_entry_of :: "f1_pred \<Rightarrow> f1_item \<Rightarrow> f1_entry" where
  "f1_entry_of p it =
     (let e = \<lparr>fe_pc = fi_pc it, fe_word = fi_word it, fe_ftq_id = fi_ftq_id it, fe_slot = fi_slot it,
               fe_exc = fi_exc it, fe_cause = fi_cause it, fe_tval = fi_tval it,
               fe_taken = f1_is_exit p it,
               fe_next_pc = (if f1_is_exit p it then fp_next_pc p else f1_seq it), fe_last = False\<rparr>
      in case f1_correction p it of
           None \<Rightarrow> e
         | Some f \<Rightarrow> e\<lparr>fe_taken := fx_taken f, fe_next_pc := fx_target f\<rparr>)"

definition f1_request_of :: "f1_item \<Rightarrow> f1_fix \<Rightarrow> f1_req" where
  "f1_request_of it f = \<lparr>fr_src = 1, fr_ftq_id = fi_ftq_id it, fr_slot = fi_slot it, fr_kill_self = 0,
     fr_target = fx_target f, fr_hist_inject = of_bool (fx_hist f), fr_hist_branch = fi_pc it,
     fr_hist_target = fx_target f, fr_ras_fix = fx_ras f, fr_push_addr = f1_seq it\<rparr>"

text \<open>The loop over the items; the first argument is the room left of \<open>width\<close>.\<close>

fun f1_loop :: "f1_pred \<Rightarrow> nat \<Rightarrow> f1_item list \<Rightarrow> f1_entry list \<times> f1_req option" where
  "f1_loop p 0 items = ([], None)"
| "f1_loop p (Suc room) [] = ([], None)"
| "f1_loop p (Suc room) (it # items) =
     (let fix = f1_correction p it in
      if fix \<noteq> None \<or> fi_exc it \<or> f1_covers p it
      then ([f1_entry_of p it], map_option (f1_request_of it) fix)
      else let (out, req) = f1_loop p room items in (f1_entry_of p it # out, req))"

text \<open>The request for the second half of an instruction that straddles the block.\<close>

definition f1_edge_request :: "f1_pred \<Rightarrow> f1_req" where
  "f1_edge_request p = \<lparr>fr_src = 1, fr_ftq_id = fp_ftq_id p, fr_slot = 7, fr_kill_self = 0,
     fr_target = fp_base p + 16, fr_hist_inject = 0, fr_hist_branch = 0, fr_hist_target = 0,
     fr_ras_fix = RAS_NONE, fr_push_addr = 0\<rparr>"

definition f1_mark_last :: "f1_entry list \<Rightarrow> f1_entry list" where
  "f1_mark_last out = (if out = [] then [] else butlast out @ [(last out)\<lparr>fe_last := True\<rparr>])"

definition f1_evaluate :: "f1_inputs \<Rightarrow> nat \<Rightarrow> bool \<times> f1_entry list \<times> f1_req option" where
  "f1_evaluate i width =
     (let ready = fn_ready i \<and> \<not> (fn_rst i \<or> fn_kill i) in
      if fn_rst i \<or> fn_kill i then (ready, [], None) else
      let p = fn_pred i;
          (out, req0) = f1_loop p width (sort_key fi_slot (fn_items i));
          req = (if req0 = None \<and> fn_last i \<and> fn_edge_pend i \<and> fp_cfi_valid p \<and> \<not> fp_edge p \<and>
                    fp_cfi_slot p = 7 \<and> \<not> (out \<noteq> [] \<and> fe_exc (last out))
                 then Some (f1_edge_request p) else req0)
      in (ready, if fn_last i \<or> req \<noteq> None then f1_mark_last out else out, req))"

section \<open>Bit fields\<close>

definition field :: "nat \<Rightarrow> nat \<Rightarrow> int \<Rightarrow> int" where
  "field k n x = take_bit n (drop_bit k x)"

lemma bit_field: "bit (field k n x) i \<longleftrightarrow> i < n \<and> bit x (k + i)"
  by (simp add: field_def bit_take_bit_iff bit_drop_bit_eq)

lemma field_or: "field k n (x OR y) = field k n x OR field k n y"
  by (simp add: field_def)

lemma field_0 [simp]: "field k 0 x = 0"
  by (simp add: field_def)

lemma field_field: "field k n (field j l x) = field (j + k) (min n (l - k)) x"
  by (rule bit_eqI) (auto simp: bit_field add.assoc)

lemma field_push:
  "field k n (push_bit m x) =
     (if m \<le> k then field (k - m) n x else if k + n \<le> m then 0
      else push_bit (m - k) (field 0 (n - (m - k)) x))"
proof -
  have "m \<le> k \<Longrightarrow> k - m + i = k + i - m" for i by simp
  moreover have "k < m \<Longrightarrow> m \<le> k + i \<Longrightarrow> k + i - m = i - (m - k)" for i by simp
  ultimately show ?thesis
    by (intro bit_eqI) (auto simp: bit_field bit_push_bit_iff)
qed

lemma field_join:
  "k' = k + n \<Longrightarrow> push_bit k' (field k' m x) OR push_bit k (field k n x) = push_bit k (field k (n + m) x)"
  by (rule bit_eqI) (auto simp: bit_field bit_push_bit_iff bit_or_iff)

lemma field_even:
  assumes "even x"
  shows "push_bit 1 (field 1 n x) = take_bit (Suc n) x"
proof (rule bit_eqI)
  fix i
  show "bit (push_bit 1 (field 1 n x)) i = bit (take_bit (Suc n) x) i"
    unfolding bit_push_bit_iff bit_field bit_take_bit_iff
    using assms by (cases i) (simp_all add: bit_0)
qed

lemma f1_masks:
  "x AND 1 = field 0 1 x" "x AND 7 = field 0 3 x" "x AND 0xF = field 0 4 x" "x AND 0x1F = field 0 5 x"
  "x AND 0x3F = field 0 6 x" "x AND 0x7F = field 0 7 x" "x AND 0xFF = field 0 8 x"
  "x AND 0x3FF = field 0 10 x" "x AND 0xFFF = field 0 12 x" "x AND (push_bit n 1 - 1) = field 0 n x"
  by (simp_all add: field_def take_bit_eq_mask mask_eq_exp_minus_1)

lemma field_drop: "field k n (drop_bit j x) = field (j + k) n x"
  by (simp add: field_def drop_bit_drop_bit add.commute)

lemma drop_field: "drop_bit j (field k n x) = field (k + j) (n - j) x"
  by (rule bit_eqI) (auto simp: bit_field bit_drop_bit_eq add.assoc)

lemma f1_sext_take: "f1_sext (take_bit (Suc n) x) (Suc n) = signed_take_bit n x"
proof -
  have "take_bit (Suc n) x AND push_bit n 1 \<noteq> 0 \<longleftrightarrow> bit x n"
    by (simp add: bit_iff_and_push_bit_not_eq_0 [symmetric] bit_take_bit_iff del: push_bit_of_1)
  moreover have "push_bit (Suc n) (1::int) = 2 ^ Suc n" by (rule push_bit_of_1)
  ultimately show ?thesis
    unfolding f1_sext_def by (simp add: signed_take_bit_eq_take_bit_minus del: push_bit_of_1)
qed

lemma f1_sext_id:
  "- (2 ^ n) \<le> x \<Longrightarrow> x < 2 ^ n \<Longrightarrow> f1_sext (take_bit (Suc n) x) (Suc n) = x"
  by (simp add: f1_sext_take signed_take_bit_int_eq_self_iff)

definition f1_reg :: "int \<Rightarrow> bool" where
  "f1_reg r \<longleftrightarrow> 0 \<le> r \<and> r < 32"

lemma field_id: "0 \<le> r \<Longrightarrow> r < 2 ^ n \<Longrightarrow> field 0 n r = r"
  by (simp add: field_def take_bit_int_eq_self_iff)

lemma f1_reg_field: "f1_reg r \<Longrightarrow> field 0 5 r = r"
  by (simp add: f1_reg_def field_id)

lemmas field_rules = field_or field_field field_push field_drop drop_field

text \<open>The fields of the encoded words.\<close>

lemma f1_branch_fields:
  fixes rs1 rs2 imm f3
  assumes "f1_reg rs1" "f1_reg rs2" "0 \<le> f3" "f3 < 8"
  defines "w \<equiv> f1_branch rs1 rs2 imm f3"
  shows "field 0 7 w = 0x63" "field 12 3 w = f3" "field 31 1 w = field 12 1 imm"
    "field 7 1 w = field 11 1 imm" "field 25 6 w = field 5 6 imm" "field 8 4 w = field 1 4 imm"
proof -
  have r: "field 0 5 rs1 = rs1" "field 0 5 rs2 = rs2" "field 0 3 f3 = f3" "field 0 7 0x63 = 0x63"
    using assms by (simp_all add: f1_reg_field field_id)
  have w: "w = push_bit 31 (field 12 1 imm) OR push_bit 25 (field 5 6 imm)
      OR push_bit 20 (field 0 5 rs2) OR push_bit 15 (field 0 5 rs1) OR push_bit 12 (field 0 3 f3)
      OR push_bit 8 (field 1 4 imm) OR push_bit 7 (field 11 1 imm) OR field 0 7 0x63"
    unfolding w_def f1_branch_def Let_def f1_masks r by (simp add: field_rules)
  have "field 0 7 w = field 0 7 0x63" "field 12 3 w = field 0 3 f3" unfolding w by (simp_all add: field_rules)
  then show "field 0 7 w = 0x63" "field 12 3 w = f3" by (simp_all only: r)
  show "field 31 1 w = field 12 1 imm" "field 7 1 w = field 11 1 imm"
    "field 25 6 w = field 5 6 imm" "field 8 4 w = field 1 4 imm"
    unfolding w by (simp_all add: field_rules)
qed

lemma f1_jal_fields:
  fixes rd imm
  assumes "f1_reg rd"
  defines "w \<equiv> f1_jal rd imm"
  shows "field 0 7 w = 0x6F" "field 7 5 w = rd" "field 31 1 w = field 20 1 imm"
    "field 12 8 w = field 12 8 imm" "field 20 1 w = field 11 1 imm" "field 21 10 w = field 1 10 imm"
proof -
  have r: "field 0 5 rd = rd" "field 0 7 0x6F = 0x6F" using assms by (simp_all add: f1_reg_field field_id)
  have w: "w = push_bit 31 (field 20 1 imm) OR push_bit 21 (field 1 10 imm)
      OR push_bit 20 (field 11 1 imm) OR push_bit 12 (field 12 8 imm)
      OR push_bit 7 (field 0 5 rd) OR field 0 7 0x6F"
    unfolding w_def f1_jal_def Let_def f1_masks r by (simp add: field_rules)
  have "field 0 7 w = field 0 7 0x6F" "field 7 5 w = field 0 5 rd" unfolding w by (simp_all add: field_rules)
  then show "field 0 7 w = 0x6F" "field 7 5 w = rd" by (simp_all only: r)
  show "field 31 1 w = field 20 1 imm" "field 12 8 w = field 12 8 imm"
    "field 20 1 w = field 11 1 imm" "field 21 10 w = field 1 10 imm"
    unfolding w by (simp_all add: field_rules)
qed

lemma f1_jalr_fields:
  fixes rd rs1 imm
  assumes "f1_reg rd" "f1_reg rs1"
  defines "w \<equiv> f1_jalr rd rs1 imm"
  shows "field 0 7 w = 0x67" "field 7 5 w = rd" "field 15 5 w = rs1" "field 12 3 w = 0"
proof -
  have r: "field 0 5 rd = rd" "field 0 5 rs1 = rs1" "field 0 7 0x67 = 0x67"
    using assms by (simp_all add: f1_reg_field field_id)
  have w: "w = push_bit 20 (field 0 12 imm) OR push_bit 15 (field 0 5 rs1)
      OR push_bit 7 (field 0 5 rd) OR field 0 7 0x67"
    unfolding w_def f1_jalr_def f1_masks r ..
  have "field 0 7 w = field 0 7 0x67" "field 7 5 w = field 0 5 rd" "field 15 5 w = field 0 5 rs1"
    "field 12 3 w = 0" unfolding w by (simp_all add: field_rules)
  then show "field 0 7 w = 0x67" "field 7 5 w = rd" "field 15 5 w = rs1" "field 12 3 w = 0"
    by (simp_all only: r)
qed

lemma f1_addi_opcode: "field 0 7 (f1_addi rd rs1 imm) = 0x13"
proof -
  have "field 0 7 (f1_addi rd rs1 imm) = field 0 7 0x13"
    unfolding f1_addi_def f1_masks by (simp add: field_rules)
  then show ?thesis by (simp add: field_id)
qed

section \<open>Decoding what the encoders produce\<close>

lemma f1_branch_imm_encode:
  assumes "f1_reg rs1" "f1_reg rs2" "0 \<le> f3" "f3 < 8" "even imm"
  shows "f1_branch_imm (f1_branch rs1 rs2 imm f3) = take_bit 13 imm"
proof -
  have "f1_branch_imm (f1_branch rs1 rs2 imm f3) =
      push_bit 12 (field 12 1 imm) OR push_bit 11 (field 11 1 imm) OR push_bit 5 (field 5 6 imm) OR
      push_bit 1 (field 1 4 imm)"
    unfolding f1_branch_imm_def f1_masks
    using f1_branch_fields [OF assms(1-4), of imm] by (simp add: field_drop)
  also have "push_bit 5 (field 5 6 imm) OR push_bit 1 (field 1 4 imm) = push_bit 1 (field 1 10 imm)"
    using field_join [of 5 1 4 6 imm] by simp
  also have "push_bit 11 (field 11 1 imm) OR push_bit 1 (field 1 10 imm) = push_bit 1 (field 1 11 imm)"
    using field_join [of 11 1 10 1 imm] by simp
  also have "push_bit 12 (field 12 1 imm) OR push_bit 1 (field 1 11 imm) = push_bit 1 (field 1 12 imm)"
    using field_join [of 12 1 11 1 imm] by simp
  finally show ?thesis using field_even [OF assms(5), of 12] by simp
qed

lemma f1_jal_imm_encode:
  assumes "f1_reg rd" "even imm"
  shows "f1_jal_imm (f1_jal rd imm) = take_bit 21 imm"
proof -
  have "f1_jal_imm (f1_jal rd imm) =
      push_bit 20 (field 20 1 imm) OR push_bit 12 (field 12 8 imm) OR push_bit 11 (field 11 1 imm) OR
      push_bit 1 (field 1 10 imm)"
    unfolding f1_jal_imm_def f1_masks
    using f1_jal_fields [OF assms(1), of imm] by (simp add: field_drop)
  also have "push_bit 11 (field 11 1 imm) OR push_bit 1 (field 1 10 imm) = push_bit 1 (field 1 11 imm)"
    using field_join [of 11 1 10 1 imm] by simp
  also have "push_bit 12 (field 12 8 imm) OR push_bit 1 (field 1 11 imm) = push_bit 1 (field 1 19 imm)"
    using field_join [of 12 1 11 8 imm] by simp
  also have "push_bit 20 (field 20 1 imm) OR push_bit 1 (field 1 19 imm) = push_bit 1 (field 1 20 imm)"
    using field_join [of 20 1 19 1 imm] by simp
  finally show ?thesis using field_even [OF assms(2), of 20] by simp
qed

lemma pc_mask_mod: "x AND pc_mask = x mod 2 ^ 64"
  unfolding pc_mask_def f1_masks field_def by (simp add: take_bit_eq_mod)

lemma f1_decode_jal:
  assumes "f1_reg rd" "even imm" "- (2 ^ 20) \<le> imm" "imm < 2 ^ 20"
  shows "f1_decode (f1_jal rd imm) pc =
    (CFI_JAL, if f1_link rd then RAS_PUSH else RAS_NONE, Some ((pc + imm) mod 2 ^ 64))"
  using assms(3,4) f1_jal_fields [OF assms(1), of imm] f1_sext_id [of 20 imm]
  unfolding f1_decode_def Let_def f1_masks f1_jal_imm_encode [OF assms(1,2)] pc_mask_mod
  by (simp add: field_drop)

lemma f1_decode_branch:
  assumes "f1_reg rs1" "f1_reg rs2" "0 \<le> f3" "f3 < 8" "f3 \<noteq> 2" "f3 \<noteq> 3" "even imm"
    "- (2 ^ 12) \<le> imm" "imm < 2 ^ 12"
  shows "f1_decode (f1_branch rs1 rs2 imm f3) pc = (CFI_BR, RAS_NONE, Some ((pc + imm) mod 2 ^ 64))"
  using assms(8,9) f1_branch_fields [OF assms(1-4), of imm] f1_sext_id [of 12 imm] assms(5,6)
  unfolding f1_decode_def Let_def f1_masks f1_branch_imm_encode [OF assms(1-4,7)] pc_mask_mod
  by (simp add: field_drop)

lemma f1_decode_other:
  "field 0 7 w \<notin> {0x63, 0x6F, 0x67} \<Longrightarrow> f1_decode w pc = (CFI_NONE, RAS_NONE, None)"
  unfolding f1_decode_def Let_def f1_masks by simp

text \<open>The decoder inverts the encoders: a branch or a jump and link at any encodable even offset decodes to
  its kind and to the target \<open>pc\<close> plus the offset, modulo 64 bits, the jump pushing exactly when it
  links; an \<open>addi\<close> is no transfer.\<close>

theorem f1_decode_encode:
  assumes "f1_reg rd" "f1_reg rs1" "f1_reg rs2" "0 \<le> f3" "f3 < 8" "f3 \<noteq> 2" "f3 \<noteq> 3" "even imm"
  shows "(- (2 ^ 12) \<le> imm \<and> imm < 2 ^ 12 \<longrightarrow>
      f1_decode (f1_branch rs1 rs2 imm f3) pc = (CFI_BR, RAS_NONE, Some ((pc + imm) mod 2 ^ 64))) \<and>
    (- (2 ^ 20) \<le> imm \<and> imm < 2 ^ 20 \<longrightarrow>
      f1_decode (f1_jal rd imm) pc =
        (CFI_JAL, if f1_link rd then RAS_PUSH else RAS_NONE, Some ((pc + imm) mod 2 ^ 64))) \<and>
    f1_decode (f1_addi rd rs1 imm) pc = (CFI_NONE, RAS_NONE, None)"
proof (intro conjI impI)
  show "f1_decode (f1_branch rs1 rs2 imm f3) pc = (CFI_BR, RAS_NONE, Some ((pc + imm) mod 2 ^ 64))"
    if "- (2 ^ 12) \<le> imm \<and> imm < 2 ^ 12"
    using that f1_decode_branch [OF assms(2-8)] by simp
  show "f1_decode (f1_jal rd imm) pc =
      (CFI_JAL, if f1_link rd then RAS_PUSH else RAS_NONE, Some ((pc + imm) mod 2 ^ 64))"
    if "- (2 ^ 20) \<le> imm \<and> imm < 2 ^ 20"
    using that f1_decode_jal [OF assms(1,8)] by simp
  show "f1_decode (f1_addi rd rs1 imm) pc = (CFI_NONE, RAS_NONE, None)"
    using f1_addi_opcode [of rd rs1 imm] by (intro f1_decode_other) simp
qed

text \<open>The return-address-stack action of \<open>jalr\<close>, case by case on the link registers x1 and x5: it pops when
  it reads a link register that it does not overwrite, pushes when it writes one, and does both when
  it reads one link register and writes the other.\<close>

theorem f1_decode_jalr:
  assumes "f1_reg rd" "f1_reg rs1"
  shows "f1_decode (f1_jalr rd rs1 imm) pc =
    (CFI_JALR,
     (case (f1_link rd, f1_link rs1) of
        (False, False) \<Rightarrow> RAS_NONE | (False, True) \<Rightarrow> RAS_POP | (True, False) \<Rightarrow> RAS_PUSH
      | (True, True) \<Rightarrow> if rd = rs1 then RAS_PUSH else RAS_POP_PUSH), None)"
  using f1_jalr_fields [OF assms, of imm]
  unfolding f1_decode_def Let_def f1_masks by (simp add: field_drop)

section \<open>What is delivered\<close>

lemma f1_loop_length: "length (fst (f1_loop p room items)) \<le> room"
  by (induction p room items rule: f1_loop.induct) (auto simp: Let_def case_prod_beta)

text \<open>The loop stops at this item.\<close>

definition f1_stops :: "f1_pred \<Rightarrow> f1_item \<Rightarrow> bool" where
  "f1_stops p it \<longleftrightarrow> f1_correction p it \<noteq> None \<or> fi_exc it \<or> f1_covers p it"

lemma f1_loop_Cons:
  "f1_loop p (Suc room) (it # items) =
     (if f1_stops p it then ([f1_entry_of p it], map_option (f1_request_of it) (f1_correction p it))
      else (f1_entry_of p it # fst (f1_loop p room items), snd (f1_loop p room items)))"
  by (simp add: f1_stops_def Let_def case_prod_beta)

declare f1_loop.simps(3) [simp del]
declare f1_loop_Cons [simp]

text \<open>The delivered entries are those of a prefix of the items, all but the last of which go on.\<close>

lemma f1_loop_prefix:
  "\<exists>n. n \<le> length items \<and> fst (f1_loop p room items) = map (f1_entry_of p) (take n items) \<and>
     (\<forall>k. Suc k < n \<longrightarrow> \<not> f1_stops p (items ! k)) \<and>
     (case snd (f1_loop p room items) of None \<Rightarrow> True
      | Some r \<Rightarrow> 0 < n \<and> (\<exists>f. f1_correction p (items ! (n - 1)) = Some f \<and>
                             r = f1_request_of (items ! (n - 1)) f))"
proof (induction p room items rule: f1_loop.induct)
  case (3 p room it items)
  show ?case
  proof (cases "f1_stops p it")
    case True
    then show ?thesis
      by (intro exI [of _ 1]) (auto split: option.split)
  next
    case False
    then have "f1_correction p it = None" "\<not> (fi_exc it \<or> f1_covers p it)" by (auto simp: f1_stops_def)
    with "3.IH" obtain n where n: "n \<le> length items"
      "fst (f1_loop p room items) = map (f1_entry_of p) (take n items)"
      "\<forall>k. Suc k < n \<longrightarrow> \<not> f1_stops p (items ! k)"
      "case snd (f1_loop p room items) of None \<Rightarrow> True
       | Some r \<Rightarrow> 0 < n \<and> (\<exists>f. f1_correction p (items ! (n - 1)) = Some f \<and>
                              r = f1_request_of (items ! (n - 1)) f)" by auto
    have "\<not> f1_stops p ((it # items) ! k)" if "Suc k < Suc n" for k
      using that n(3) False by (cases k) auto
    with n False show ?thesis
      by (intro exI [of _ "Suc n"]) (auto split: option.splits simp: nth_Cons')
  qed
qed (auto intro: exI [of _ 0])

text \<open>Without a request, the last delivered item was not corrected either.\<close>

lemma f1_loop_last:
  "snd (f1_loop p room items) = None \<Longrightarrow> k < length (fst (f1_loop p room items)) \<Longrightarrow>
   f1_correction p (items ! k) = None"
proof (induction p room items arbitrary: k rule: f1_loop.induct)
  case (3 p room it items)
  show ?case
  proof (cases "f1_stops p it")
    case True
    with "3.prems" show ?thesis by simp
  next
    case False
    then have "f1_correction p it = None" "\<not> (f1_correction p it \<noteq> None \<or> fi_exc it \<or> f1_covers p it)"
      by (auto simp: f1_stops_def)
    with "3.IH" "3.prems" False show ?thesis by (cases k) auto
  qed
qed simp_all

lemma f1_continues:
  assumes "\<not> f1_stops p it"
  shows "\<not> fe_taken (f1_entry_of p it) \<and> fe_next_pc (f1_entry_of p it) = f1_seq it \<and>
    \<not> fe_exc (f1_entry_of p it)"
proof -
  have "\<not> f1_is_exit p it"
    using assms by (auto simp: f1_stops_def f1_is_exit_def f1_covers_def f1_end_def split: if_splits)
  with assms show ?thesis by (simp add: f1_stops_def f1_entry_of_def Let_def)
qed

text \<open>Entries up to the mark on the last one.\<close>

abbreviation f1_unmark :: "f1_entry \<Rightarrow> f1_entry" where
  "f1_unmark e \<equiv> e\<lparr>fe_last := False\<rparr>"

lemma f1_unmark_mark: "map f1_unmark (f1_mark_last out) = map f1_unmark out"
proof (cases "out = []")
  case False
  then have "map f1_unmark out = map f1_unmark (butlast out) @ [f1_unmark (last out)]"
    by (metis append_butlast_last_id list.map(1,2) map_append)
  with False show ?thesis by (simp add: f1_mark_last_def)
qed (simp add: f1_mark_last_def)

lemma f1_unmark_entry: "f1_unmark (f1_entry_of p it) = f1_entry_of p it"
  by (simp add: f1_entry_of_def Let_def split: option.split)

definition f1_items :: "f1_inputs \<Rightarrow> f1_item list" where
  "f1_items i = sort_key fi_slot (fn_items i)"

lemma f1_evaluate_out:
  assumes "\<not> fn_rst i" "\<not> fn_kill i" "f1_evaluate i width = (ready, out, req)"
  shows "length out \<le> width \<and> length out \<le> length (f1_items i) \<and>
    map f1_unmark out = map (f1_entry_of (fn_pred i)) (take (length out) (f1_items i)) \<and>
    (\<forall>k. Suc k < length out \<longrightarrow> \<not> f1_stops (fn_pred i) (f1_items i ! k)) \<and>
    (case snd (f1_loop (fn_pred i) width (f1_items i)) of
       None \<Rightarrow> req = None \<or> req = Some (f1_edge_request (fn_pred i))
     | Some r \<Rightarrow> req = Some r \<and> out \<noteq> [] \<and>
         (\<exists>f. f1_correction (fn_pred i) (f1_items i ! (length out - 1)) = Some f \<and>
              r = f1_request_of (f1_items i ! (length out - 1)) f))"
proof -
  let ?p = "fn_pred i"
  let ?l = "f1_loop ?p width (f1_items i)"
  obtain n where n: "n \<le> length (f1_items i)" "fst ?l = map (f1_entry_of ?p) (take n (f1_items i))"
    "\<forall>k. Suc k < n \<longrightarrow> \<not> f1_stops ?p (f1_items i ! k)"
    "case snd ?l of None \<Rightarrow> True
     | Some r \<Rightarrow> 0 < n \<and> (\<exists>f. f1_correction ?p (f1_items i ! (n - 1)) = Some f \<and>
                            r = f1_request_of (f1_items i ! (n - 1)) f)"
    using f1_loop_prefix [where p = ?p and room = width and items = "f1_items i"] by blast
  have out: "out = fst ?l \<or> out = f1_mark_last (fst ?l)"
    and req: "if snd ?l = None then req = None \<or> req = Some (f1_edge_request ?p) else req = snd ?l"
    using assms by (auto simp: f1_evaluate_def Let_def case_prod_beta f1_items_def split: if_splits)
  have "length (f1_mark_last out) = length out" for out by (cases "out = []") (auto simp: f1_mark_last_def)
  with out n(1,2) have len: "length out = n" by auto
  have "map f1_unmark out = map f1_unmark (fst ?l)" using out f1_unmark_mark by metis
  also have "\<dots> = map (f1_entry_of ?p) (take n (f1_items i))" by (simp add: n(2) f1_unmark_entry comp_def)
  finally have "map f1_unmark out = map (f1_entry_of ?p) (take n (f1_items i))" .
  moreover have "length (fst ?l) = n" using n(1,2) by simp
  then have "n \<le> width" using f1_loop_length [of ?p width "f1_items i"] by simp
  ultimately show ?thesis
    using len n(1,3,4) req by (auto split: option.splits)
qed

lemma f1_loop_out_length:
  assumes "\<not> fn_rst i" "\<not> fn_kill i" "f1_evaluate i width = (ready, out, req)"
  shows "length (fst (f1_loop (fn_pred i) width (f1_items i))) = length out"
proof -
  have "length (f1_mark_last out) = length out" for out by (cases "out = []") (auto simp: f1_mark_last_def)
  then show ?thesis
    using assms by (auto simp: f1_evaluate_def Let_def case_prod_beta f1_items_def split: if_splits)
qed

lemma f1_evaluate_nth:
  assumes "\<not> fn_rst i" "\<not> fn_kill i" "f1_evaluate i width = (ready, out, req)" "k < length out"
  shows "f1_unmark (out ! k) = f1_entry_of (fn_pred i) (f1_items i ! k)" "k < length (f1_items i)"
proof -
  note e = f1_evaluate_out [OF assms(1-3)]
  then show "k < length (f1_items i)" using assms(4) by simp
  from e have eq: "map f1_unmark out = map (f1_entry_of (fn_pred i)) (take (length out) (f1_items i))"
    by (elim conjE)
  have "f1_unmark (out ! k) = map f1_unmark out ! k" using assms(4) by simp
  also have "\<dots> = f1_entry_of (fn_pred i) (f1_items i ! k)" unfolding eq using assms(4) e by simp
  finally show "f1_unmark (out ! k) = f1_entry_of (fn_pred i) (f1_items i ! k)" .
qed

lemma f1_entry_fields:
  "fe_pc (f1_entry_of p it) = fi_pc it" "fe_word (f1_entry_of p it) = fi_word it"
  "fe_slot (f1_entry_of p it) = fi_slot it" "fe_exc (f1_entry_of p it) = fi_exc it"
  "fe_ftq_id (f1_entry_of p it) = fi_ftq_id it"
  by (simp_all add: f1_entry_of_def Let_def split: option.split)

lemma f1_entry_nth:
  assumes "\<not> fn_rst i" "\<not> fn_kill i" "f1_evaluate i width = (ready, out, req)" "k < length out"
  shows "fe_pc (out ! k) = fi_pc (f1_items i ! k)" "fe_word (out ! k) = fi_word (f1_items i ! k)"
    "fe_slot (out ! k) = fi_slot (f1_items i ! k)" "fe_exc (out ! k) = fi_exc (f1_items i ! k)"
    "fe_ftq_id (out ! k) = fi_ftq_id (f1_items i ! k)"
    "fe_taken (out ! k) = fe_taken (f1_entry_of (fn_pred i) (f1_items i ! k))"
    "fe_next_pc (out ! k) = fe_next_pc (f1_entry_of (fn_pred i) (f1_items i ! k))"
  unfolding f1_evaluate_nth(1) [OF assms, symmetric] using f1_entry_fields [of "fn_pred i" "f1_items i ! k"]
  unfolding f1_evaluate_nth(1) [OF assms, symmetric] by simp_all

text \<open>The stage delivers, in slot order and at most \<open>width\<close> of them, a prefix of the fetched instructions;
  every one but the last is an instruction without exception that falls through to its successor.\<close>

theorem f1_delivers_prefix:
  assumes "\<not> fn_rst i" "\<not> fn_kill i" "f1_evaluate i width = (ready, out, req)"
  shows "length out \<le> width \<and> length out \<le> length (fn_items i) \<and> sorted (map fe_slot out) \<and>
    (\<forall>k < length out. fe_pc (out ! k) = fi_pc (f1_items i ! k) \<and> fe_word (out ! k) = fi_word (f1_items i ! k)) \<and>
    (\<forall>k. Suc k < length out \<longrightarrow> \<not> fe_exc (out ! k) \<and> \<not> fe_taken (out ! k) \<and>
       fe_next_pc (out ! k) = f1_seq (f1_items i ! k))"
proof -
  note e = f1_evaluate_out [OF assms] and nth = f1_entry_nth [OF assms]
  have slots: "map fe_slot out = take (length out) (map fi_slot (f1_items i))"
    using e by (intro nth_equalityI) (auto simp: nth(3))
  have "sorted (map fi_slot (f1_items i))" unfolding f1_items_def by (rule sorted_sort_key)
  then have "sorted (map fe_slot out)" unfolding slots by (rule sorted_wrt_take)
  moreover have "length (f1_items i) = length (fn_items i)" by (simp add: f1_items_def)
  moreover have "\<not> fe_exc (out ! k) \<and> \<not> fe_taken (out ! k) \<and> fe_next_pc (out ! k) = f1_seq (f1_items i ! k)"
    if "Suc k < length out" for k
    using e that f1_continues [of "fn_pred i" "f1_items i ! k"] f1_entry_fields(4) [of "fn_pred i"]
    by (simp add: nth)
  ultimately show ?thesis using e by (simp add: nth)
qed

text \<open>A prediction whose next PC is the target of its direct transfer.\<close>

definition f1_pred_ok :: "f1_pred \<Rightarrow> bool" where
  "f1_pred_ok p \<longleftrightarrow> (fp_cfi_type p = CFI_BR \<or> fp_cfi_type p = CFI_JAL) \<longrightarrow> fp_next_pc p = fp_cfi_target p"

lemma f1_decode_direct:
  "f1_decode w pc = (t, ras, direct) \<Longrightarrow> (t = CFI_BR \<or> t = CFI_JAL) = (direct \<noteq> None)"
  by (auto simp: f1_decode_def Let_def split: if_splits)

lemma f1_entry_sound:
  assumes "f1_pred_ok p" "\<not> fi_exc it" "f1_decode (fi_word it) (fi_pc it) = (t, ras, direct)"
  defines "e \<equiv> f1_entry_of p it"
  shows "(\<not> fe_taken e \<longrightarrow> fe_next_pc e = f1_seq it) \<and> (t = CFI_NONE \<longrightarrow> \<not> fe_taken e) \<and>
    (t = CFI_BR \<longrightarrow> fe_taken e \<longrightarrow> direct = Some (fe_next_pc e)) \<and>
    (t = CFI_JAL \<longrightarrow> \<not> fp_cfi_valid p \<or> f1_start it \<le> f1_exit_pos p \<longrightarrow>
       fe_taken e \<and> direct = Some (fe_next_pc e))"
proof -
  have dir: "(t = CFI_BR \<or> t = CFI_JAL) = (direct \<noteq> None)" using assms(3) by (rule f1_decode_direct)
  have ex: "f1_is_exit p it \<Longrightarrow> f1_covers p it \<and> \<not> f1_earlier p it"
    by (auto simp: f1_is_exit_def f1_covers_def f1_end_def f1_earlier_def)
  have early: "\<not> fp_cfi_valid p \<or> f1_start it \<le> f1_exit_pos p \<longleftrightarrow> f1_earlier p it \<or> f1_is_exit p it"
    by (auto simp: f1_earlier_def f1_is_exit_def)
  show ?thesis
  proof (cases t)
    case CFI_NONE
    with dir ex assms(2,3) show ?thesis
      by (auto simp: e_def f1_entry_of_def f1_correction_def Let_def f1_actual_def)
  next
    case CFI_BR
    with dir ex assms(1-3) show ?thesis
      by (auto simp: e_def f1_entry_of_def f1_correction_def Let_def f1_actual_def f1_pred_ok_def)
  next
    case CFI_JAL
    with dir ex assms(1-3) show ?thesis
      unfolding early
      by (auto simp: e_def f1_entry_of_def f1_correction_def Let_def f1_actual_def f1_pred_ok_def)
  next
    case CFI_JALR
    with dir ex assms(1-3) show ?thesis
      by (auto simp: e_def f1_entry_of_def f1_correction_def Let_def f1_actual_def split: option.splits)
  qed
qed


text \<open>A redirect request names the last delivered instruction and the address it goes to, or is the
  request for the second half of an instruction that straddles the block; without a request
  nothing was corrected.\<close>

theorem f1_request_redirects:
  assumes "\<not> fn_rst i" "\<not> fn_kill i" "f1_evaluate i width = (ready, out, req)"
  shows "case req of
      None \<Rightarrow> \<forall>k < length out. f1_correction (fn_pred i) (f1_items i ! k) = None
    | Some r \<Rightarrow> (out \<noteq> [] \<and> fr_target r = fe_next_pc (last out) \<and> fr_slot r = fe_slot (last out) \<and>
          fr_ftq_id r = fe_ftq_id (last out) \<and> fr_push_addr r = f1_seq (f1_items i ! (length out - 1))) \<or>
        (r = f1_edge_request (fn_pred i) \<and> fp_cfi_valid (fn_pred i) \<and> fp_cfi_slot (fn_pred i) = 7)"
proof -
  let ?p = "fn_pred i"
  note e = f1_evaluate_out [OF assms] and nth = f1_entry_nth [OF assms]
  show ?thesis
  proof (cases req)
    case None
    have none: "f1_correction ?p (f1_items i ! k) = None" if "k < length out" for k
    proof (cases "Suc k < length out")
      case True
      with e have "\<not> f1_stops ?p (f1_items i ! k)" by blast
      then show ?thesis by (simp add: f1_stops_def)
    next
      case False
      have "snd (f1_loop ?p width (f1_items i)) = None"
        using None assms by (auto simp: f1_evaluate_def Let_def case_prod_beta f1_items_def split: if_splits)
      then show ?thesis
        using f1_loop_last [of ?p width "f1_items i" k] that f1_loop_out_length [OF assms] by simp
    qed
    with None show ?thesis by simp
  next
    case (Some r)
    show ?thesis
    proof (cases "snd (f1_loop ?p width (f1_items i))")
      case None
      with Some assms show ?thesis
        by (auto simp: f1_evaluate_def Let_def case_prod_beta f1_items_def split: if_splits)
    next
      case (Some r')
      with e \<open>req = Some r\<close> obtain f where f: "out \<noteq> []"
        "f1_correction ?p (f1_items i ! (length out - 1)) = Some f"
        "r = f1_request_of (f1_items i ! (length out - 1)) f" by auto
      then have l: "last out = out ! (length out - 1)" "length out - 1 < length out"
        by (simp_all add: last_conv_nth)
      have "fe_next_pc (f1_entry_of ?p (f1_items i ! (length out - 1))) = fx_target f"
        using f(2) by (simp add: f1_entry_of_def Let_def)
      then show ?thesis
        using f l nth [OF l(2)] by (simp add: \<open>req = Some r\<close> f1_request_of_def)
    qed
  qed
qed

section \<open>Consecutive instructions\<close>

lemma f1_block_from_nth:
  "k < length ws \<Longrightarrow> fi_slot (f1_block_from base ftq_id start exc n ws ! k) = start + 2 * int (n + k) \<and>
     fi_pc (f1_block_from base ftq_id start exc n ws ! k) = base + 2 * (start + 2 * int (n + k)) \<and>
     fi_inst_len (f1_block_from base ftq_id start exc n ws ! k) = 4 \<and>
     \<not> fi_edge (f1_block_from base ftq_id start exc n ws ! k)"
proof (induction ws arbitrary: k n)
  case (Cons w ws)
  then show ?case by (cases k) (auto simp: Let_def split: option.split)
qed simp

lemma length_f1_block_from [simp]: "length (f1_block_from base ftq_id start exc n ws) = length ws"
  by (induction ws arbitrary: n) (auto simp: Let_def case_prod_beta)

lemma f1_block_sorted: "sort_key fi_slot (f1_block base ws ftq_id start exc) = f1_block base ws ftq_id start exc"
proof -
  let ?b = "f1_block base ws ftq_id start exc"
  have "fi_slot (?b ! j) \<le> fi_slot (?b ! k)" if "j < k" "k < length ?b" for j k
    using that f1_block_from_nth [of j ws] f1_block_from_nth [of k ws] by (simp add: f1_block_def)
  then have "sorted (map fi_slot ?b)" by (auto simp: sorted_iff_nth_mono_less)
  then show ?thesis by (simp add: sort_key_id_if_sorted)
qed

text \<open>On a block of consecutive instructions the delivered stream is a path of the program: the next PC of
  every delivered instruction but the last is the PC of the following one.\<close>

theorem f1_block_path:
  assumes "\<not> fn_rst i" "\<not> fn_kill i" "f1_evaluate i width = (ready, out, req)"
    and "fn_items i = f1_block base ws ftq_id start exc"
    and "0 \<le> base + 2 * start" "base + 2 * start + 4 * int (length ws) \<le> 2 ^ 64"
    and "Suc k < length out"
  shows "fe_next_pc (out ! k) = fe_pc (out ! Suc k)"
proof -
  note e = f1_evaluate_out [OF assms(1-3)]
  have b: "f1_items i = f1_block base ws ftq_id start exc"
    by (simp add: f1_items_def assms(4) f1_block_sorted)
  have len: "length out \<le> length ws" using e by (simp add: b f1_block_def)
  then have k: "k < length ws" "Suc k < length ws" using assms(7) by simp_all
  from e assms(7) have "\<not> f1_stops (fn_pred i) (f1_items i ! k)" by blast
  with f1_continues have "fe_next_pc (out ! k) = f1_seq (f1_items i ! k)"
    using assms(7) by (simp add: f1_entry_nth [OF assms(1-3)])
  also have "\<dots> = (base + 2 * (start + 2 * int k) + 4) mod 2 ^ 64"
    using f1_block_from_nth [OF k(1), of base ftq_id start exc 0]
    by (simp add: f1_seq_def b f1_block_def pc_mask_mod)
  also have "\<dots> = base + 2 * (start + 2 * int (Suc k))"
    using assms(5,6) k(2) by (subst mod_pos_pos_trivial) auto
  also have "\<dots> = fe_pc (out ! Suc k)"
    using f1_block_from_nth [OF k(2), of base ftq_id start exc 0] assms(7)
    by (simp add: f1_entry_nth [OF assms(1-3)] b f1_block_def)
  finally show ?thesis .
qed

section \<open>Witnesses\<close>

text \<open>Three instructions at 64: an \<open>addi\<close>, a branch predicted taken to 32, and a jump.\<close>

definition f1_demo_items :: "f1_item list" where
  "f1_demo_items = f1_block 64 [f1_nop, f1_branch 1 2 (-36) 0, f1_jal 0 8] 3 0 (\<lambda>n. None)"

definition f1_demo_pred :: f1_pred where
  "f1_demo_pred = \<lparr>fp_cfi_valid = True, fp_cfi_slot = 2, fp_cfi_type = CFI_BR, fp_ras_action = RAS_NONE,
     fp_cfi_target = 40, fp_next_pc = 40, fp_raw_taken = True, fp_ras_count = 0, fp_ras_top = 0,
     fp_rvc = False, fp_edge = False, fp_base = 64, fp_ftq_id = 3\<rparr>"

definition f1_demo_inputs :: f1_inputs where
  "f1_demo_inputs = \<lparr>fn_rst = False, fn_items = f1_demo_items, fn_pred = f1_demo_pred, fn_ready = True,
     fn_kill = False, fn_last = True, fn_edge_pend = False, fn_beat = False\<rparr>"

lemma f1_demo_words:
  "f1_nop = 19" "f1_branch 1 2 (-36) 0 = 4229992163" "f1_jal 0 8 = 8388719"
  by (simp_all add: f1_nop_def f1_addi_def f1_branch_def f1_jal_def Let_def push_bit_eq_mult drop_bit_eq_div)

lemma f1_demo_decode:
  "f1_decode 19 64 = (CFI_NONE, RAS_NONE, None)" "f1_decode 4229992163 68 = (CFI_BR, RAS_NONE, Some 32)"
  by (simp_all add: f1_decode_def Let_def f1_branch_imm_def f1_sext_def pc_mask_def push_bit_eq_mult
      drop_bit_eq_div)

lemma f1_demo_sorted:
  "f1_items f1_demo_inputs = f1_block 64 [f1_nop, f1_branch 1 2 (-36) 0, f1_jal 0 8] 3 0 (\<lambda>n. None)"
  "fn_items f1_demo_inputs = f1_block 64 [f1_nop, f1_branch 1 2 (-36) 0, f1_jal 0 8] 3 0 (\<lambda>n. None)"
  by (simp_all add: f1_items_def f1_demo_inputs_def f1_demo_items_def f1_block_sorted)

text \<open>The branch really goes to 32: it is delivered with its own target and asks for a redirect.\<close>

lemma f1_demo_run:
  "\<exists>e0 e1 r. f1_evaluate f1_demo_inputs 8 = (True, [e0, e1], Some r) \<and> fe_word e0 = 19 \<and>
     fe_word e1 = 4229992163 \<and> fe_pc e0 = 64 \<and> fe_pc e1 = 68 \<and> \<not> fe_exc e1 \<and> fe_next_pc e1 = 32 \<and> fe_taken e1 \<and>
     \<not> fp_edge (fn_pred f1_demo_inputs) \<and> fr_target r = 32"
proof -
  have "sort_key fi_slot (fn_items f1_demo_inputs) =
      f1_block 64 [f1_nop, f1_branch 1 2 (-36) 0, f1_jal 0 8] 3 0 (\<lambda>n. None)"
    using f1_demo_sorted(1) by (simp add: f1_items_def)
  then show ?thesis
    by (simp add: f1_evaluate_def f1_demo_inputs_def f1_block_def f1_demo_words f1_stops_def
        f1_correction_def f1_demo_decode f1_demo_pred_def f1_earlier_def f1_covers_def f1_is_exit_def
        f1_end_def f1_start_def f1_exit_pos_def f1_actual_def f1_entry_of_def f1_request_of_def
        f1_mark_last_def f1_seq_def pc_mask_def eval_nat_numeral)
qed

lemma f1_demo_live: "\<not> fn_rst f1_demo_inputs" "\<not> fn_kill f1_demo_inputs" "f1_pred_ok (fn_pred f1_demo_inputs)"
  by (simp_all add: f1_demo_inputs_def f1_demo_pred_def f1_pred_ok_def)

theorem f1_decode_encode_witness:
  "f1_decode (f1_branch 1 2 (-36) 0) 68 = (CFI_BR, RAS_NONE, Some 32) \<and>
   f1_decode (f1_jal 1 (-36)) 68 = (CFI_JAL, RAS_PUSH, Some 32)"
proof -
  have "f1_reg 1" "f1_reg 1" "f1_reg 2" "0 \<le> (0::int)" "(0::int) < 8" "(0::int) \<noteq> 2" "(0::int) \<noteq> 3"
    "even (-36::int)" by (simp_all add: f1_reg_def)
  from f1_decode_encode [OF this, of 68] show ?thesis by (simp add: f1_link_def)
qed

theorem f1_decode_jalr_witness:
  "f1_decode (f1_jalr 0 1 0) 68 = (CFI_JALR, RAS_POP, None) \<and>
   f1_decode (f1_jalr 1 5 0) 68 = (CFI_JALR, RAS_POP_PUSH, None)"
proof -
  have "f1_reg 0" "f1_reg 1" "f1_reg 5" by (simp_all add: f1_reg_def)
  with f1_decode_jalr [of 0 1 0 68] f1_decode_jalr [of 1 5 0 68] show ?thesis by (simp add: f1_link_def)
qed

theorem f1_delivers_prefix_witness:
  "\<exists>out req. f1_evaluate f1_demo_inputs 8 = (True, out, req) \<and> length out \<le> 3 \<and> \<not> fe_taken (out ! 0)"
proof -
  obtain e0 e1 r where e: "f1_evaluate f1_demo_inputs 8 = (True, [e0, e1], Some r)"
    using f1_demo_run by blast
  from f1_delivers_prefix [OF f1_demo_live(1,2) e] have "\<not> fe_taken ([e0, e1] ! 0)" by simp
  with e show ?thesis by (intro exI [of _ "[e0, e1]"]) auto
qed


theorem f1_request_redirects_witness:
  "\<exists>e0 e1 r. f1_evaluate f1_demo_inputs 8 = (True, [e0, e1], Some r) \<and> fr_target r = fe_next_pc e1"
proof -
  obtain e0 e1 r where e: "f1_evaluate f1_demo_inputs 8 = (True, [e0, e1], Some r)" by (use f1_demo_run in blast)
  have "fp_cfi_slot (fn_pred f1_demo_inputs) \<noteq> 7" by (simp add: f1_demo_inputs_def f1_demo_pred_def)
  with f1_request_redirects [OF f1_demo_live(1,2) e] have "fr_target r = fe_next_pc e1" by simp
  with e show ?thesis by blast
qed

theorem f1_block_path_witness:
  "\<exists>e0 e1 r. f1_evaluate f1_demo_inputs 8 = (True, [e0, e1], Some r) \<and> fe_next_pc e0 = fe_pc e1"
proof -
  obtain e0 e1 r where e: "f1_evaluate f1_demo_inputs 8 = (True, [e0, e1], Some r)" by (use f1_demo_run in blast)
  from f1_block_path [OF f1_demo_live(1,2) e f1_demo_sorted(2), of 0] e show ?thesis by auto
qed

end
