(* ===== verification/Return_Queue.thy ===== *)
theory Return_Queue
  imports Clocked
begin

text \<open>
  The fetch return queue: \<open>sim/cocotb/fetch_return_queue/fetch_return_queue_model.py\<close> (\<open>ReturnModel\<close>).
  Eight slots hold outstanding fetches, \<open>order\<close> lists the live ones from the oldest, responses come back
  in any order, the oldest one with its data moves to an output register, and a killed fetch whose
  response is still to come stays behind as a zombie until that response arrives. Failed assertions,
  subscripts and attribute accesses are error values.
\<close>

section \<open>Data\<close>

record rq_inputs =
  qi_rst :: bool
  qi_reserve :: bool
  qi_reserve_id :: nat
  qi_reserve_pc :: nat
  qi_reserve_idx :: "nat option"
  qi_response :: bool
  qi_response_idx :: nat
  qi_response_id :: nat
  qi_response_data :: nat
  qi_response_exc :: bool
  qi_response_cause :: nat
  qi_brief_done :: bool
  qi_brief_id :: nat
  qi_deq_ready :: bool
  qi_kill :: bool
  qi_kill_all :: bool
  qi_kill_self :: bool
  qi_kill_id :: nat
  qi_kill_slot :: nat
  qi_head :: nat
  qi_slow_update :: bool
  qi_slow_id :: nat
  qi_resolve_update :: bool
  qi_resolve_id :: nat

record rq_entry =
  qe_ftq_id :: nat
  qe_pc :: nat
  qe_data :: "nat option"
  qe_zombie :: bool
  qe_exc_valid :: bool
  qe_exc_cause :: nat

record rq_state =
  q_slots :: "rq_entry option list"
  q_order :: "nat list"
  q_output :: "rq_entry option"

definition rq_reset :: rq_state where
  "rq_reset = \<lparr>q_slots = replicate 8 None, q_order = [], q_output = None\<rparr>"

section \<open>Outputs\<close>

text \<open>\<open>slots[order[n]]\<close> when \<open>order\<close> is long enough; \<open>entry\<close> and \<open>brief_entry\<close> are the two uses.\<close>

definition rq_entry_at :: "rq_state \<Rightarrow> nat \<Rightarrow> rq_entry option" where
  "rq_entry_at s n = (if n < length (q_order s) then q_slots s ! (q_order s ! n) else None)"

definition rq_head_entry :: "rq_state \<Rightarrow> rq_entry option" where
  "rq_head_entry s = rq_entry_at s 0"

definition rq_brief_entry :: "rq_state \<Rightarrow> rq_entry option" where
  "rq_brief_entry s = rq_entry_at s (if q_output s \<noteq> None then 1 else 0)"

definition rq_refresh :: "rq_inputs \<Rightarrow> rq_entry option \<Rightarrow> bool" where
  "rq_refresh i e0 =
     (case e0 of None \<Rightarrow> False
      | Some e \<Rightarrow> (qi_slow_update i \<and> qi_slow_id i = qe_ftq_id e) \<or>
                  (qi_resolve_update i \<and> qi_resolve_id i = qe_ftq_id e))"

definition rq_free :: "rq_state \<Rightarrow> nat" where
  "rq_free s = (case first_idx Option.is_none (q_slots s) of None \<Rightarrow> 0 | Some k \<Rightarrow> k)"

definition rq_visible :: "rq_state \<Rightarrow> rq_inputs \<Rightarrow> bool \<times> bool \<times> bool \<times> rq_entry option" where
  "rq_visible s i =
     (list_ex Option.is_none (q_slots s) \<and> \<not> qi_rst i \<and> \<not> qi_kill i,
      rq_brief_entry s \<noteq> None,
      q_output s \<noteq> None \<and> \<not> (qi_rst i \<or> qi_kill i \<or> rq_refresh i (q_output s)),
      q_output s)"

definition rq_ready :: "rq_state \<Rightarrow> rq_inputs \<Rightarrow> bool" where
  "rq_ready s i = fst (rq_visible s i)"

definition rq_deq :: "rq_state \<Rightarrow> rq_inputs \<Rightarrow> bool" where
  "rq_deq s i = fst (snd (snd (rq_visible s i)))"

section \<open>The cycle\<close>

definition rq_next_output :: "rq_state \<Rightarrow> rq_inputs \<Rightarrow> rq_entry option" where
  "rq_next_output s i =
     (if qi_kill i \<or> rq_refresh i (q_output s) then None
      else case rq_brief_entry s of
        Some e \<Rightarrow>
          if (q_output s = None \<or> (rq_deq s i \<and> qi_deq_ready i)) \<and> qe_data e \<noteq> None \<and> qi_brief_done i \<and>
             qi_brief_id i = qe_ftq_id e \<and> \<not> rq_refresh i (Some e)
          then Some e
          else if rq_deq s i \<and> qi_deq_ready i then None else q_output s
      | None \<Rightarrow> if rq_deq s i \<and> qi_deq_ready i then None else q_output s)"

type_synonym rq_core = "rq_entry option list \<times> nat list"

definition rq_do_reserve :: "rq_state \<Rightarrow> rq_inputs \<Rightarrow> rq_core \<Rightarrow> rq_core py" where
  "rq_do_reserve s i core =
     (if \<not> qi_reserve i then Inr core else
      let (slots, order) = core;
          k = (case qi_reserve_idx i of None \<Rightarrow> rq_free s | Some k \<Rightarrow> k)
      in if \<not> rq_ready s i then Inl AssertionError
         else py_bind (py_nth slots k) (\<lambda>e.
           if e \<noteq> None then Inl AssertionError
           else Inr (slots[k := Some \<lparr>qe_ftq_id = qi_reserve_id i, qe_pc = qi_reserve_pc i, qe_data = None,
                        qe_zombie = False, qe_exc_valid = False, qe_exc_cause = 0\<rparr>], order @ [k])))"

definition rq_do_response :: "rq_inputs \<Rightarrow> rq_core \<Rightarrow> rq_core py" where
  "rq_do_response i core =
     (if \<not> qi_response i then Inr core else
      let (slots, order) = core; k = qi_response_idx i
      in py_bind (py_nth slots k) (\<lambda>e0.
           case e0 of
             None \<Rightarrow> Inl AssertionError
           | Some e \<Rightarrow>
               if qe_data e \<noteq> None \<or> qe_ftq_id e \<noteq> qi_response_id i then Inl AssertionError
               else if qe_zombie e then Inr (slots[k := None], order)
               else Inr (slots[k := Some (e\<lparr>qe_data := Some (qi_response_data i),
                           qe_exc_valid := qi_response_exc i, qe_exc_cause := qi_response_cause i\<rparr>)], order)))"

definition rq_age :: "nat \<Rightarrow> rq_inputs \<Rightarrow> nat \<Rightarrow> int" where
  "rq_age depth i ident = (int (ident mod depth) - int (qi_head i mod depth)) mod int depth"

definition rq_killed :: "nat \<Rightarrow> rq_inputs \<Rightarrow> rq_entry \<Rightarrow> bool" where
  "rq_killed depth i e \<longleftrightarrow> qi_kill_all i \<or> rq_age depth i (qe_ftq_id e) > rq_age depth i (qi_kill_id i) \<or>
     (qi_kill_self i \<and> qi_kill_slot i = 0 \<and> qe_ftq_id e = qi_kill_id i)"

text \<open>The loop over \<open>order\<close>: \<open>kept\<close> and \<open>suffix\<close> are its variables.\<close>

fun rq_kill_loop ::
  "nat \<Rightarrow> rq_inputs \<Rightarrow> nat list \<Rightarrow> rq_entry option list \<Rightarrow> nat list \<Rightarrow> bool \<Rightarrow> rq_core py" where
  "rq_kill_loop depth i [] slots kept suffix = Inr (slots, kept)"
| "rq_kill_loop depth i (k # ks) slots kept suffix =
     py_bind (py_nth slots k) (\<lambda>e0.
       case e0 of
         None \<Rightarrow> Inl AttributeError
       | Some e \<Rightarrow>
           if rq_killed depth i e
           then rq_kill_loop depth i ks
                  (slots[k := if qe_data e = None then Some (e\<lparr>qe_zombie := True\<rparr>) else None]) kept True
           else if suffix then Inl AssertionError
           else rq_kill_loop depth i ks slots (kept @ [k]) suffix)"

definition rq_do_kill :: "nat \<Rightarrow> rq_inputs \<Rightarrow> rq_core \<Rightarrow> rq_core py" where
  "rq_do_kill depth i core =
     (if \<not> qi_kill i then Inr core else rq_kill_loop depth i (snd core) (fst core) [] False)"

definition rq_do_deq :: "rq_state \<Rightarrow> rq_inputs \<Rightarrow> rq_core \<Rightarrow> rq_core py" where
  "rq_do_deq s i core =
     (if \<not> (rq_deq s i \<and> qi_deq_ready i) then Inr core else
      case snd core of
        [] \<Rightarrow> Inl IndexError
      | k # ks \<Rightarrow> py_bind (py_upd (fst core) k None) (\<lambda>slots. Inr (slots, ks)))"

definition rq_tick :: "nat \<Rightarrow> rq_state \<Rightarrow> rq_inputs \<Rightarrow> rq_state py" where
  "rq_tick depth s i =
     (if qi_rst i then Inr rq_reset else
      py_bind (rq_do_reserve s i (q_slots s, q_order s)) (\<lambda>core1.
      py_bind (rq_do_response i core1) (\<lambda>core2.
      py_bind (rq_do_kill depth i core2) (\<lambda>core3.
      py_bind (rq_do_deq s i core3) (\<lambda>core4.
        Inr \<lparr>q_slots = fst core4, q_order = snd core4, q_output = rq_next_output s i\<rparr>)))))"

section \<open>Invariant\<close>

text \<open>A core is well formed: \<open>order\<close> names distinct slots that hold live entries, and every other slot is
  free or holds a zombie that waits for its response.\<close>

definition rq_core_ok :: "rq_core \<Rightarrow> bool" where
  "rq_core_ok core \<longleftrightarrow> (case core of (slots, order) \<Rightarrow> length slots = 8 \<and> distinct order \<and>
     (\<forall>k \<in> set order. k < 8 \<and> (\<exists>e. slots ! k = Some e \<and> \<not> qe_zombie e)) \<and>
     (\<forall>k < 8. k \<notin> set order \<longrightarrow> (\<forall>e. slots ! k = Some e \<longrightarrow> qe_zombie e \<and> qe_data e = None)))"

definition rq_output_ok :: "rq_core \<Rightarrow> rq_entry option \<Rightarrow> bool" where
  "rq_output_ok core out0 \<longleftrightarrow>
     (case out0 of None \<Rightarrow> True
      | Some e \<Rightarrow> snd core \<noteq> [] \<and> fst core ! hd (snd core) = Some e \<and> qe_data e \<noteq> None)"

definition rq_wf :: "rq_state \<Rightarrow> bool" where
  "rq_wf s \<longleftrightarrow> rq_core_ok (q_slots s, q_order s) \<and> rq_output_ok (q_slots s, q_order s) (q_output s)"

text \<open>The live fetches, oldest first: what the queue is to its client.\<close>

definition rq_live :: "rq_core \<Rightarrow> rq_entry list" where
  "rq_live core = map (\<lambda>k. the (fst core ! k)) (snd core)"

lemma rq_core_okD:
  assumes "rq_core_ok (slots, order)"
  shows "length slots = 8" "distinct order" "k \<in> set order \<Longrightarrow> k < 8"
    "k \<in> set order \<Longrightarrow> \<exists>e. slots ! k = Some e \<and> \<not> qe_zombie e"
    "k < 8 \<Longrightarrow> k \<notin> set order \<Longrightarrow> slots ! k = Some e \<Longrightarrow> qe_zombie e \<and> qe_data e = None"
  using assms by (auto simp: rq_core_ok_def)

lemma rq_live_nth:
  assumes "rq_core_ok (slots, order)" "n < length order"
  shows "slots ! (order ! n) = Some (rq_live (slots, order) ! n)"
  using rq_core_okD(4) [OF assms(1), of "order ! n"] assms(2) by (auto simp: rq_live_def)

lemma rq_live_update:
  assumes "k \<notin> set order"
  shows "rq_live (slots[k := x], order) = rq_live (slots, order)"
  using assms by (auto simp: rq_live_def) (metis nth_list_update_neq)

section \<open>What a client may do\<close>

definition rq_reserve_slot :: "rq_state \<Rightarrow> rq_inputs \<Rightarrow> nat" where
  "rq_reserve_slot s i = (case qi_reserve_idx i of None \<Rightarrow> rq_free s | Some k \<Rightarrow> k)"

definition rq_new_entry :: "rq_inputs \<Rightarrow> rq_entry" where
  "rq_new_entry i = \<lparr>qe_ftq_id = qi_reserve_id i, qe_pc = qi_reserve_pc i, qe_data = None,
     qe_zombie = False, qe_exc_valid = False, qe_exc_cause = 0\<rparr>"

definition rq_reserved :: "rq_state \<Rightarrow> rq_inputs \<Rightarrow> rq_entry option list" where
  "rq_reserved s i = (if qi_reserve i then (q_slots s)[rq_reserve_slot s i := Some (rq_new_entry i)] else q_slots s)"

text \<open>Reserve a free slot when \<open>ready\<close>; answer an outstanding fetch with its own id; kill a suffix of the
  live fetches.\<close>

definition rq_legal :: "nat \<Rightarrow> rq_state \<Rightarrow> rq_inputs \<Rightarrow> bool" where
  "rq_legal depth s i \<longleftrightarrow>
     (qi_reserve i \<longrightarrow> rq_ready s i \<and> rq_reserve_slot s i < 8 \<and> q_slots s ! rq_reserve_slot s i = None) \<and>
     (qi_response i \<longrightarrow> qi_response_idx i < 8 \<and>
        (\<exists>e. rq_reserved s i ! qi_response_idx i = Some e \<and> qe_data e = None \<and> qe_ftq_id e = qi_response_id i)) \<and>
     (qi_kill i \<longrightarrow> sorted_wrt (\<lambda>a b. rq_killed depth i a \<longrightarrow> rq_killed depth i b) (rq_live (q_slots s, q_order s)))"

section \<open>Every step keeps the invariant\<close>

lemma rq_reserve_step:
  assumes ok: "rq_core_ok (q_slots s, q_order s)"
    and legal: "qi_reserve i \<longrightarrow> rq_ready s i \<and> rq_reserve_slot s i < 8 \<and> q_slots s ! rq_reserve_slot s i = None"
  shows "rq_do_reserve s i (q_slots s, q_order s) =
      Inr (rq_reserved s i, q_order s @ (if qi_reserve i then [rq_reserve_slot s i] else [])) \<and>
    rq_core_ok (rq_reserved s i, q_order s @ (if qi_reserve i then [rq_reserve_slot s i] else [])) \<and>
    rq_live (rq_reserved s i, q_order s @ (if qi_reserve i then [rq_reserve_slot s i] else [])) =
      rq_live (q_slots s, q_order s) @ (if qi_reserve i then [rq_new_entry i] else []) \<and>
    (\<forall>k \<in> set (q_order s). rq_reserved s i ! k = q_slots s ! k)"
proof (cases "qi_reserve i")
  case True
  let ?k = "rq_reserve_slot s i"
  have k: "rq_ready s i" "?k < 8" "q_slots s ! ?k = None" "length (q_slots s) = 8"
    using True legal ok by (auto simp: rq_core_ok_def)
  have fresh: "?k \<notin> set (q_order s)" using rq_core_okD(4) [OF ok, of ?k] k(3) by auto
  have step: "rq_do_reserve s i (q_slots s, q_order s) = Inr (rq_reserved s i, q_order s @ [?k])"
    using True k by (simp add: rq_do_reserve_def rq_reserve_slot_def [symmetric] rq_reserved_def rq_new_entry_def Let_def)
  have live: "rq_live (rq_reserved s i, q_order s @ [?k]) = rq_live (q_slots s, q_order s) @ [rq_new_entry i]"
    using True k fresh by (auto simp: rq_live_def rq_reserved_def) (metis nth_list_update_neq)
  have frame: "\<forall>k \<in> set (q_order s). rq_reserved s i ! k = q_slots s ! k"
    using True fresh by (auto simp: rq_reserved_def) (metis nth_list_update_neq)
  have "rq_core_ok (rq_reserved s i, q_order s @ [?k])"
    unfolding rq_core_ok_def prod.case
  proof (intro conjI ballI allI impI)
    show "length (rq_reserved s i) = 8" using True k by (simp add: rq_reserved_def)
    show "distinct (q_order s @ [?k])" using fresh rq_core_okD(2) [OF ok] by simp
  next
    fix j assume "j \<in> set (q_order s @ [?k])"
    then show "j < 8" "\<exists>e. rq_reserved s i ! j = Some e \<and> \<not> qe_zombie e"
      using True k frame rq_core_okD(3,4) [OF ok] by (auto simp: rq_reserved_def rq_new_entry_def)
  next
    fix j e assume "j < 8" "j \<notin> set (q_order s @ [?k])" "rq_reserved s i ! j = Some e"
    then show "qe_zombie e" "qe_data e = None"
      using True rq_core_okD(5) [OF ok, of j e] by (auto simp: rq_reserved_def)
  qed
  with True step live frame show ?thesis by simp
qed (use ok in \<open>simp add: rq_do_reserve_def rq_reserved_def\<close>)

text \<open>A response either frees a zombie's slot or fills a live entry; entries that had their data, and all ids
  and addresses, stay.\<close>

definition rq_brief :: "rq_entry \<Rightarrow> nat \<times> nat" where
  "rq_brief e = (qe_ftq_id e, qe_pc e)"

lemma rq_response_step:
  assumes ok: "rq_core_ok (slots, order)"
    and legal: "qi_response i \<longrightarrow> qi_response_idx i < 8 \<and>
      (\<exists>e. slots ! qi_response_idx i = Some e \<and> qe_data e = None \<and> qe_ftq_id e = qi_response_id i)"
  shows "\<exists>slots'. rq_do_response i (slots, order) = Inr (slots', order) \<and> rq_core_ok (slots', order) \<and>
    map rq_brief (rq_live (slots', order)) = map rq_brief (rq_live (slots, order)) \<and>
    (\<forall>k e. slots ! k = Some e \<longrightarrow> qe_data e \<noteq> None \<longrightarrow> slots' ! k = Some e)"
proof (cases "qi_response i")
  case True
  let ?k = "qi_response_idx i"
  obtain e where e: "slots ! ?k = Some e" "qe_data e = None" "qe_ftq_id e = qi_response_id i" "?k < 8"
    using True legal by blast
  have len: "length slots = 8" using ok by (rule rq_core_okD)
  define e' where "e' = (if qe_zombie e then None else Some (e\<lparr>qe_data := Some (qi_response_data i),
    qe_exc_valid := qi_response_exc i, qe_exc_cause := qi_response_cause i\<rparr>))"
  have step: "rq_do_response i (slots, order) = Inr (slots[?k := e'], order)"
    using True e len by (simp add: rq_do_response_def e'_def)
  have zombie: "?k \<in> set order \<Longrightarrow> \<not> qe_zombie e" "?k \<notin> set order \<Longrightarrow> qe_zombie e"
    using rq_core_okD(4,5) [OF ok, of ?k] e by auto
  have "rq_core_ok (slots[?k := e'], order)"
    unfolding rq_core_ok_def prod.case
  proof (intro conjI ballI allI impI)
    show "length (slots[?k := e']) = 8" "distinct order" using len rq_core_okD(2) [OF ok] by simp_all
  next
    fix j assume "j \<in> set order"
    then show "j < 8" "\<exists>e. slots[?k := e'] ! j = Some e \<and> \<not> qe_zombie e"
      using rq_core_okD(3,4) [OF ok, of j] zombie(1) len
      by (cases "j = ?k"; auto simp: e'_def)+
  next
    fix j a assume "j < 8" "j \<notin> set order" "slots[?k := e'] ! j = Some a"
    then show "qe_zombie a" "qe_data a = None"
      using rq_core_okD(5) [OF ok, of j a] zombie(2) len
      by (cases "j = ?k"; auto simp: e'_def split: if_splits)+
  qed
  moreover have "rq_brief (the (slots[?k := e'] ! j)) = rq_brief (the (slots ! j))" if "j \<in> set order" for j
    using that zombie e len by (cases "j = ?k") (auto simp: e'_def rq_brief_def)
  then have "map rq_brief (rq_live (slots[?k := e'], order)) = map rq_brief (rq_live (slots, order))"
    by (simp add: rq_live_def)
  moreover have "slots[?k := e'] ! k = Some a" if "slots ! k = Some a" "qe_data a \<noteq> None" for k a
    using that e by (cases "k = ?k") auto
  ultimately show ?thesis unfolding step by blast
qed (use ok in \<open>simp add: rq_do_response_def\<close>)

text \<open>The kill loop: on a suffix it turns unanswered fetches into zombies and frees the others.\<close>

definition rq_after_kill :: "nat \<Rightarrow> rq_inputs \<Rightarrow> nat list \<Rightarrow> rq_entry option list \<Rightarrow> nat \<Rightarrow> rq_entry option" where
  "rq_after_kill depth i ks slots k =
     (case slots ! k of
        None \<Rightarrow> None
      | Some e \<Rightarrow> if k \<in> set ks \<and> rq_killed depth i e
                  then (if qe_data e = None then Some (e\<lparr>qe_zombie := True\<rparr>) else None)
                  else Some e)"

definition rq_kills :: "nat \<Rightarrow> rq_inputs \<Rightarrow> rq_entry option list \<Rightarrow> nat \<Rightarrow> bool" where
  "rq_kills depth i slots k = rq_killed depth i (the (slots ! k))"

lemma rq_kill_loop_result:
  assumes "distinct ks" "\<forall>k \<in> set ks. k < length slots \<and> slots ! k \<noteq> None"
    "sorted_wrt (\<lambda>a b. rq_kills depth i slots a \<longrightarrow> rq_kills depth i slots b) ks"
    "suffix \<longrightarrow> (\<forall>k \<in> set ks. rq_kills depth i slots k)"
  shows "\<exists>slots'. rq_kill_loop depth i ks slots kept suffix =
      Inr (slots', kept @ filter (\<lambda>k. \<not> rq_kills depth i slots k) ks) \<and>
    length slots' = length slots \<and> (\<forall>k < length slots. slots' ! k = rq_after_kill depth i ks slots k)"
  using assms
proof (induction ks arbitrary: slots kept suffix)
  case Nil
  then show ?case by (auto simp: rq_after_kill_def split: option.split)
next
  case (Cons k ks)
  obtain e where e: "slots ! k = Some e" "k < length slots" using Cons.prems(2) by auto
  show ?case
  proof (cases "rq_killed depth i e")
    case True
    let ?slots = "slots[k := if qe_data e = None then Some (e\<lparr>qe_zombie := True\<rparr>) else None]"
    have other: "?slots ! j = slots ! j" if "j \<in> set ks" for j
      using that Cons.prems(1) by (cases "j = k") auto
    then have kills: "rq_kills depth i ?slots j = rq_kills depth i slots j" if "j \<in> set ks" for j
      using that by (simp add: rq_kills_def)
    have killed: "rq_kills depth i slots j" if "j \<in> set ks" for j
      using Cons.prems(3) that True e by (simp add: rq_kills_def)
    have "\<forall>j \<in> set ks. j < length ?slots \<and> ?slots ! j \<noteq> None"
      using Cons.prems(2) other by auto
    moreover have "sorted_wrt (\<lambda>a b. rq_kills depth i ?slots a \<longrightarrow> rq_kills depth i ?slots b) ks"
      by (rule sorted_wrt_mono_rel [of _ "\<lambda>a b. True"]) (simp_all add: kills killed sorted_wrt_true)
    moreover have "True \<longrightarrow> (\<forall>j \<in> set ks. rq_kills depth i ?slots j)" by (simp add: kills killed)
    ultimately obtain slots' where s: "rq_kill_loop depth i ks ?slots kept True =
        Inr (slots', kept @ filter (\<lambda>k. \<not> rq_kills depth i ?slots k) ks)" "length slots' = length ?slots"
      "\<forall>k < length ?slots. slots' ! k = rq_after_kill depth i ks ?slots k"
      using Cons.IH [of ?slots True kept] Cons.prems(1) by auto
    have f: "filter (\<lambda>k. \<not> rq_kills depth i ?slots k) ks = filter (\<lambda>k. \<not> rq_kills depth i slots k) (k # ks)"
      using kills killed e True by (auto simp: rq_kills_def intro!: filter_False filter_cong [of ks])
    have "slots' ! j = rq_after_kill depth i (k # ks) slots j" if "j < length slots" for j
      using s(3) that e Cons.prems(1) True
      by (cases "j = k") (auto simp: rq_after_kill_def split: option.split)
    then show ?thesis
      using s e True f by (intro exI [of _ slots']) simp
  next
    case False
    then have nk: "\<not> rq_kills depth i slots k" using e by (simp add: rq_kills_def)
    with Cons.prems(4) have sf: "\<not> suffix" by auto
    obtain slots' where s: "rq_kill_loop depth i ks slots (kept @ [k]) False =
        Inr (slots', (kept @ [k]) @ filter (\<lambda>k. \<not> rq_kills depth i slots k) ks)"
      "length slots' = length slots" "\<forall>k < length slots. slots' ! k = rq_after_kill depth i ks slots k"
      using Cons.IH [of slots False "kept @ [k]"] Cons.prems by auto
    have "slots' ! j = rq_after_kill depth i (k # ks) slots j" if "j < length slots" for j
      using s(3) that e False by (cases "j = k") (auto simp: rq_after_kill_def split: option.split)
    then show ?thesis
      using s e False nk sf by (intro exI [of _ slots']) simp
  qed
qed

lemma rq_live_filter:
  "rq_live (slots, filter (\<lambda>k. P (the (slots ! k))) order) = filter P (rq_live (slots, order))"
  by (simp add: rq_live_def filter_map comp_def)

lemma rq_kill_step:
  assumes ok: "rq_core_ok (slots, order)" and k: "qi_kill i"
    and suf: "sorted_wrt (\<lambda>a b. rq_killed depth i a \<longrightarrow> rq_killed depth i b) (rq_live (slots, order))"
  shows "\<exists>slots'. rq_do_kill depth i (slots, order) =
      Inr (slots', filter (\<lambda>k. \<not> rq_kills depth i slots k) order) \<and>
    rq_core_ok (slots', filter (\<lambda>k. \<not> rq_kills depth i slots k) order) \<and>
    rq_live (slots', filter (\<lambda>k. \<not> rq_kills depth i slots k) order) =
      filter (\<lambda>e. \<not> rq_killed depth i e) (rq_live (slots, order))"
proof -
  have len: "length slots = 8" and dist: "distinct order" using rq_core_okD [OF ok] by simp_all
  have some: "\<forall>k \<in> set order. k < length slots \<and> slots ! k \<noteq> None"
    using rq_core_okD(3,4) [OF ok] len by fastforce
  have srt: "sorted_wrt (\<lambda>a b. rq_kills depth i slots a \<longrightarrow> rq_kills depth i slots b) order"
    using suf by (simp add: rq_live_def rq_kills_def sorted_wrt_map)
  obtain slots' where s: "rq_kill_loop depth i order slots [] False =
      Inr (slots', filter (\<lambda>k. \<not> rq_kills depth i slots k) order)" "length slots' = length slots"
    "\<forall>k < length slots. slots' ! k = rq_after_kill depth i order slots k"
    using rq_kill_loop_result [OF dist some srt, of False "[]"] by auto
  let ?keep = "filter (\<lambda>k. \<not> rq_kills depth i slots k) order"
  have kept: "slots' ! k = slots ! k" if "k \<in> set ?keep" for k
    using that s(3) some by (auto simp: rq_after_kill_def rq_kills_def split: option.split)
  have "rq_core_ok (slots', ?keep)"
    unfolding rq_core_ok_def prod.case
  proof (intro conjI ballI allI impI)
    show "length slots' = 8" "distinct ?keep" using s(2) len dist by simp_all
  next
    fix j assume j: "j \<in> set ?keep"
    then show "j < 8" "\<exists>e. slots' ! j = Some e \<and> \<not> qe_zombie e"
      using kept [OF j] rq_core_okD(3,4) [OF ok, of j] by auto
  next
    fix j e assume j: "j < 8" "j \<notin> set ?keep" "slots' ! j = Some e"
    with s(3) len have "rq_after_kill depth i order slots j = Some e" by simp
    then show "qe_zombie e" "qe_data e = None"
      using j(1,2) rq_core_okD(5) [OF ok, of j]
      by (auto simp: rq_after_kill_def rq_kills_def split: option.splits if_splits)
  qed
  moreover have "rq_live (slots', ?keep) = rq_live (slots, ?keep)"
    using kept by (simp add: rq_live_def)
  moreover have "rq_live (slots, ?keep) = filter (\<lambda>e. \<not> rq_killed depth i e) (rq_live (slots, order))"
    unfolding rq_kills_def by (rule rq_live_filter)
  ultimately show ?thesis using s(1) k by (auto simp: rq_do_kill_def)
qed

lemma rq_deq_step:
  assumes ok: "rq_core_ok (slots, k # ks)"
  shows "rq_core_ok (slots[k := None], ks) \<and> rq_live (slots[k := None], ks) = tl (rq_live (slots, k # ks))"
proof -
  have k: "k < 8" "k \<notin> set ks" "length slots = 8" using rq_core_okD [OF ok] by auto
  have "rq_core_ok (slots[k := None], ks)"
    unfolding rq_core_ok_def prod.case
  proof (intro conjI ballI allI impI)
    show "length (slots[k := None]) = 8" "distinct ks" using k rq_core_okD(2) [OF ok] by simp_all
  next
    fix j assume "j \<in> set ks"
    then show "j < 8" "\<exists>e. slots[k := None] ! j = Some e \<and> \<not> qe_zombie e"
      using rq_core_okD(3,4) [OF ok, of j] k(2) by (cases "j = k"; auto)+
  next
    fix j e assume "j < 8" "j \<notin> set ks" "slots[k := None] ! j = Some e"
    then show "qe_zombie e" "qe_data e = None"
      using rq_core_okD(5) [OF ok, of j e] k by (cases "j = k"; simp)+
  qed
  with rq_live_update [OF k(2)] show ?thesis by (simp add: rq_live_def)
qed

section \<open>The queue refines a FIFO of fetches\<close>

text \<open>The abstract queue: id and address of the live fetches, oldest first; its step drops the head on a
  dequeue, appends a reservation, and removes the killed fetches.\<close>

definition rq_queue :: "rq_state \<Rightarrow> (nat \<times> nat) list" where
  "rq_queue s = map rq_brief (rq_live (q_slots s, q_order s))"

definition rq_killed_brief :: "nat \<Rightarrow> rq_inputs \<Rightarrow> nat \<times> nat \<Rightarrow> bool" where
  "rq_killed_brief depth i b \<longleftrightarrow> qi_kill_all i \<or> rq_age depth i (fst b) > rq_age depth i (qi_kill_id i) \<or>
     (qi_kill_self i \<and> qi_kill_slot i = 0 \<and> fst b = qi_kill_id i)"

definition rq_spec :: "nat \<Rightarrow> rq_inputs \<Rightarrow> bool \<Rightarrow> (nat \<times> nat) list \<Rightarrow> (nat \<times> nat) list" where
  "rq_spec depth i deq fifo =
     (if qi_kill i then filter (\<lambda>b. \<not> rq_killed_brief depth i b) fifo
      else (if deq \<and> qi_deq_ready i then tl fifo else fifo) @
           (if qi_reserve i then [(qi_reserve_id i, qi_reserve_pc i)] else []))"

lemma rq_killed_brief: "rq_killed depth i e = rq_killed_brief depth i (rq_brief e)"
  by (simp add: rq_killed_def rq_killed_brief_def rq_brief_def)

lemma rq_filter_brief:
  "map rq_brief (filter (\<lambda>e. \<not> rq_killed depth i e) es) =
     filter (\<lambda>b. \<not> rq_killed_brief depth i b) (map rq_brief es)"
  by (simp add: rq_killed_brief filter_map comp_def)

lemma rq_kill_not_ready: "qi_kill i \<Longrightarrow> \<not> rq_ready s i \<and> \<not> rq_deq s i"
  by (simp add: rq_ready_def rq_deq_def rq_visible_def)

lemma rq_output_head:
  assumes "rq_wf s" "q_output s = Some e"
  obtains k ks where "q_order s = k # ks" "q_slots s ! k = Some e" "qe_data e \<noteq> None"
  using assms by (cases "q_order s") (auto simp: rq_wf_def rq_output_ok_def)

text \<open>What the output register loads.\<close>

lemma rq_next_output_cases:
  assumes "rq_next_output s i = Some e"
  shows "\<not> qi_kill i \<and> (q_output s = Some e \<and> \<not> (rq_deq s i \<and> qi_deq_ready i) \<or>
    rq_brief_entry s = Some e \<and> qe_data e \<noteq> None \<and> (q_output s = None \<or> rq_deq s i \<and> qi_deq_ready i))"
  using assms by (auto simp: rq_next_output_def split: if_splits option.splits)

lemma rq_deq_output: "rq_deq s i \<Longrightarrow> q_output s \<noteq> None"
  by (simp add: rq_deq_def rq_visible_def)

lemma rq_tick_step:
  assumes wf: "rq_wf s" and legal: "rq_legal depth s i" and rst: "\<not> qi_rst i"
  shows "\<exists>s'. rq_tick depth s i = Inr s' \<and> rq_wf s' \<and>
    rq_queue s' = rq_spec depth i (rq_deq s i) (rq_queue s)"
proof -
  have ok: "rq_core_ok (q_slots s, q_order s)" using wf by (simp add: rq_wf_def)
  let ?order = "q_order s @ (if qi_reserve i then [rq_reserve_slot s i] else [])"
  have r: "rq_do_reserve s i (q_slots s, q_order s) = Inr (rq_reserved s i, ?order)"
    "rq_core_ok (rq_reserved s i, ?order)"
    "rq_live (rq_reserved s i, ?order) =
      rq_live (q_slots s, q_order s) @ (if qi_reserve i then [rq_new_entry i] else [])"
    "\<forall>k \<in> set (q_order s). rq_reserved s i ! k = q_slots s ! k"
    using rq_reserve_step [OF ok] legal by (simp_all add: rq_legal_def)
  have resp: "qi_response i \<longrightarrow> qi_response_idx i < 8 \<and>
      (\<exists>e. rq_reserved s i ! qi_response_idx i = Some e \<and> qe_data e = None \<and> qe_ftq_id e = qi_response_id i)"
    using legal by (simp add: rq_legal_def)
  from rq_response_step [OF r(2) resp] obtain slots2 where p: "rq_do_response i (rq_reserved s i, ?order) = Inr (slots2, ?order)"
    "rq_core_ok (slots2, ?order)"
    "map rq_brief (rq_live (slots2, ?order)) = map rq_brief (rq_live (rq_reserved s i, ?order))"
    "\<forall>k e. rq_reserved s i ! k = Some e \<longrightarrow> qe_data e \<noteq> None \<longrightarrow> slots2 ! k = Some e"
    by blast
  have queue2: "map rq_brief (rq_live (slots2, ?order)) =
      rq_queue s @ (if qi_reserve i then [(qi_reserve_id i, qi_reserve_pc i)] else [])"
    by (simp add: p(3) r(3) rq_queue_def rq_brief_def rq_new_entry_def)
  have settled: "slots2 ! k = Some e" if "k \<in> set (q_order s)" "q_slots s ! k = Some e" "qe_data e \<noteq> None" for k e
    using p(4) r(4) that by simp
  show ?thesis
  proof (cases "qi_kill i")
    case True
    note nr = rq_kill_not_ready [OF True, of s]
    then have res: "\<not> qi_reserve i" using legal by (auto simp: rq_legal_def)
    have "sorted_wrt (\<lambda>a b. rq_killed_brief depth i a \<longrightarrow> rq_killed_brief depth i b) (rq_queue s)"
      using legal True by (simp add: rq_legal_def rq_queue_def sorted_wrt_map rq_killed_brief)
    moreover have "map rq_brief (rq_live (slots2, ?order)) = rq_queue s" using queue2 res by simp
    ultimately have "sorted_wrt (\<lambda>a b. rq_killed_brief depth i a \<longrightarrow> rq_killed_brief depth i b)
        (map rq_brief (rq_live (slots2, ?order)))" by (simp only:)
    then have "sorted_wrt (\<lambda>a b. rq_killed depth i a \<longrightarrow> rq_killed depth i b) (rq_live (slots2, ?order))"
      by (simp add: sorted_wrt_map rq_killed_brief)
    from rq_kill_step [OF p(2) True this] obtain slots3 where k:
      "rq_do_kill depth i (slots2, ?order) = Inr (slots3, filter (\<lambda>k. \<not> rq_kills depth i slots2 k) ?order)"
      "rq_core_ok (slots3, filter (\<lambda>k. \<not> rq_kills depth i slots2 k) ?order)"
      "rq_live (slots3, filter (\<lambda>k. \<not> rq_kills depth i slots2 k) ?order) =
        filter (\<lambda>e. \<not> rq_killed depth i e) (rq_live (slots2, ?order))" by blast
    have out: "rq_next_output s i = None" using True by (simp add: rq_next_output_def)
    show ?thesis
      using True rst res r(1) p(1) k nr queue2
      by (simp add: rq_tick_def rq_do_deq_def rq_wf_def rq_output_ok_def out rq_queue_def rq_spec_def rq_filter_brief)
  next
    case False
    then have nk: "rq_do_kill depth i (slots2, ?order) = Inr (slots2, ?order)" by (simp add: rq_do_kill_def)
    show ?thesis
    proof (cases "rq_deq s i \<and> qi_deq_ready i")
      case deq: True
      then obtain e where e: "q_output s = Some e" using rq_deq_output by blast
      obtain k ks where o: "q_order s = k # ks" "q_slots s ! k = Some e"
        by (rule rq_output_head [OF wf e])
      let ?ks = "ks @ (if qi_reserve i then [rq_reserve_slot s i] else [])"
      have core: "rq_core_ok (slots2, k # ?ks)" using p(2) o by simp
      note d = rq_deq_step [OF core]
      have k8: "k < length slots2" using rq_core_okD [OF core] by simp
      have tick: "rq_tick depth s i =
          Inr \<lparr>q_slots = slots2[k := None], q_order = ?ks, q_output = rq_next_output s i\<rparr>"
        using rst r(1) p(1) nk deq o k8 by (simp add: rq_tick_def rq_do_deq_def)
      have "rq_output_ok (slots2[k := None], ?ks) (rq_next_output s i)"
      proof (cases "rq_next_output s i")
        case (Some a)
        with rq_next_output_cases [OF Some] deq have a: "rq_brief_entry s = Some a" "qe_data a \<noteq> None" by auto
        then obtain k1 rest where k1: "ks = k1 # rest" "q_slots s ! k1 = Some a"
          using e o by (cases ks) (auto simp: rq_brief_entry_def rq_entry_at_def)
        have "k1 \<noteq> k" using rq_core_okD(2) [OF core] k1 by auto
        with settled [of k1 a] k1 a o Some show ?thesis by (simp add: rq_output_ok_def)
      qed (simp add: rq_output_ok_def)
      moreover have "map rq_brief (rq_live (slots2[k := None], ?ks)) =
          rq_spec depth i (rq_deq s i) (rq_queue s)"
      proof -
        have "rq_queue s \<noteq> []" using o by (simp add: rq_queue_def rq_live_def)
        then show ?thesis
          using d queue2 o deq False by (simp add: rq_spec_def map_tl)
      qed
      ultimately show ?thesis
        using d unfolding tick by (simp add: rq_wf_def rq_queue_def)
    next
      case nodeq: False
      have tick: "rq_tick depth s i = Inr \<lparr>q_slots = slots2, q_order = ?order, q_output = rq_next_output s i\<rparr>"
        using rst r(1) p(1) nk nodeq by (simp add: rq_tick_def rq_do_deq_def)
      have "rq_output_ok (slots2, ?order) (rq_next_output s i)"
      proof (cases "rq_next_output s i")
        case (Some a)
        have "\<exists>k ks. q_order s = k # ks \<and> q_slots s ! k = Some a \<and> qe_data a \<noteq> None"
        proof (cases "q_output s")
          case None
          with rq_next_output_cases [OF Some] have "rq_brief_entry s = Some a" "qe_data a \<noteq> None" by auto
          with None show ?thesis
            by (cases "q_order s") (auto simp: rq_brief_entry_def rq_entry_at_def)
        next
          case (Some b)
          with rq_next_output_cases [OF \<open>rq_next_output s i = Some a\<close>] nodeq have "b = a" by auto
          with Some show ?thesis by (metis rq_output_head wf)
        qed
        then obtain k ks where k: "q_order s = k # ks" "q_slots s ! k = Some a" "qe_data a \<noteq> None" by blast
        with settled [of k a] Some show ?thesis by (simp add: rq_output_ok_def)
      qed (simp add: rq_output_ok_def)
      with p(2) queue2 nodeq False show ?thesis
        unfolding tick by (auto simp: rq_wf_def rq_queue_def rq_spec_def)
    qed
  qed
qed

text \<open>C4: A cycle that respects the handshake succeeds, keeps the queue well formed, and acts on the live
  fetches as a FIFO: a dequeue removes the oldest, a reservation joins at the end, a kill removes
  exactly the killed ones, and responses change nobody's place.\<close>

theorem rq_refines_fifo:
  assumes "rq_wf s" "rq_legal depth s i" "\<not> qi_rst i"
  shows "\<exists>s'. rq_tick depth s i = Inr s' \<and> rq_wf s' \<and>
    rq_queue s' = rq_spec depth i (rq_deq s i) (rq_queue s)"
  using assms by (rule rq_tick_step)

section \<open>Reachable states\<close>

definition rq_guard :: "nat \<Rightarrow> rq_state \<Rightarrow> rq_inputs \<Rightarrow> bool" where
  "rq_guard depth s i \<longleftrightarrow> qi_rst i \<or> rq_legal depth s i"

lemma rq_wf_reset: "rq_wf rq_reset"
  by (simp add: rq_wf_def rq_reset_def rq_core_ok_def rq_output_ok_def)

interpretation rq_clk: guarded rq_reset "rq_tick depth" qi_rst "rq_guard depth" rq_wf for depth
proof
  show "rq_wf rq_reset" by (rule rq_wf_reset)
  show "\<exists>s'. rq_tick depth s i = Inr s' \<and> rq_wf s'" if "rq_wf s" "rq_guard depth s i" for s i
    using that rq_tick_step [OF that(1)] rq_wf_reset
    by (cases "qi_rst i") (auto simp: rq_guard_def rq_tick_def)
  show "rq_tick depth s i = Inr rq_reset" if "qi_rst i" for s i
    using that by (simp add: rq_tick_def)
qed

text \<open>In every reachable state the output register shows the oldest live fetch with its data: a zombie, that
  is a killed fetch, is never delivered, and fetches leave in the order in which they were reserved.\<close>

theorem rq_output_is_oldest:
  assumes "rq_clk.reached depth s" "rq_visible s i = (ready, brief, deq, Some e)"
  shows "rq_queue s \<noteq> [] \<and> hd (rq_queue s) = (qe_ftq_id e, qe_pc e) \<and> qe_data e \<noteq> None \<and> \<not> qe_zombie e"
proof -
  have wf: "rq_wf s" using rq_clk.reached_inv [OF assms(1)] .
  have out: "q_output s = Some e" using assms(2) by (simp add: rq_visible_def)
  obtain k ks where k: "q_order s = k # ks" "q_slots s ! k = Some e" "qe_data e \<noteq> None"
    by (rule rq_output_head [OF wf out])
  have "rq_core_ok (q_slots s, q_order s)" using wf by (simp add: rq_wf_def)
  from rq_core_okD(4) [OF this, of k] k show ?thesis
    by (simp add: rq_queue_def rq_live_def rq_brief_def)
qed

section \<open>Illegal cycles\<close>

lemma rq_kill_loop_Inr:
  assumes "rq_kill_loop depth i ks slots kept suffix = Inr r" "distinct ks"
    "\<forall>k \<in> set ks. k < length slots \<and> slots ! k \<noteq> None"
  shows "sorted_wrt (\<lambda>a b. rq_kills depth i slots a \<longrightarrow> rq_kills depth i slots b) ks \<and>
    (suffix \<longrightarrow> (\<forall>k \<in> set ks. rq_kills depth i slots k))"
  using assms
proof (induction ks arbitrary: slots kept suffix)
  case (Cons k ks)
  obtain e where e: "slots ! k = Some e" "k < length slots" using Cons.prems(3) by auto
  show ?case
  proof (cases "rq_killed depth i e")
    case True
    let ?slots = "slots[k := if qe_data e = None then Some (e\<lparr>qe_zombie := True\<rparr>) else None]"
    have other: "?slots ! j = slots ! j" if "j \<in> set ks" for j
      using that Cons.prems(2) by (cases "j = k") auto
    have "rq_kill_loop depth i ks ?slots kept True = Inr r" using Cons.prems(1) e True by simp
    with Cons.IH [of ?slots kept True] Cons.prems(2,3) other
    have "\<forall>j \<in> set ks. rq_kills depth i ?slots j" by auto
    then have "\<forall>j \<in> set ks. rq_kills depth i slots j" using other by (simp add: rq_kills_def)
    moreover from this have "sorted_wrt (\<lambda>a b. rq_kills depth i slots a \<longrightarrow> rq_kills depth i slots b) ks"
      by (intro sorted_wrt_mono_rel [OF _ sorted_wrt_true]) simp
    ultimately show ?thesis using e True by (simp add: rq_kills_def)
  next
    case False
    then have "rq_kill_loop depth i ks slots (kept @ [k]) suffix = Inr r" "\<not> suffix"
      using Cons.prems(1) e by (auto split: if_splits)
    with Cons.IH [of slots "kept @ [k]" suffix] Cons.prems(2,3) e False show ?thesis
      by (simp add: rq_kills_def)
  qed
qed simp

text \<open>The model's assertions are exactly the handshake: on a well-formed queue a cycle outside reset raises
  if and only if it reserves without \<open>ready\<close> or over a used slot, answers a fetch that is not
  outstanding, or kills fetches that are not a suffix.\<close>

theorem rq_raises_iff_illegal:
  assumes "rq_wf s" "\<not> qi_rst i"
  shows "(\<exists>err. rq_tick depth s i = Inl err) \<longleftrightarrow> \<not> rq_legal depth s i"
proof
  assume "\<exists>err. rq_tick depth s i = Inl err"
  with rq_tick_step [OF assms(1) _ assms(2)] show "\<not> rq_legal depth s i" by fastforce
next
  assume bad: "\<not> rq_legal depth s i"
  show "\<exists>err. rq_tick depth s i = Inl err"
  proof (rule ccontr)
    assume "\<nexists>err. rq_tick depth s i = Inl err"
    then obtain s' where t: "rq_tick depth s i = Inr s'" by (cases "rq_tick depth s i") auto
    have ok: "rq_core_ok (q_slots s, q_order s)" using assms(1) by (simp add: rq_wf_def)
    have len: "length (q_slots s) = 8" using rq_core_okD(1) [OF ok] .
    obtain c1 c2 c3 where c: "rq_do_reserve s i (q_slots s, q_order s) = Inr c1"
      "rq_do_response i c1 = Inr c2" "rq_do_kill depth i c2 = Inr c3"
      using t assms(2) by (auto simp: rq_tick_def py_bind_Inr_iff)
    have l1: "qi_reserve i \<longrightarrow> rq_ready s i \<and> rq_reserve_slot s i < 8 \<and> q_slots s ! rq_reserve_slot s i = None"
      using c(1) len
      by (auto simp: rq_do_reserve_def rq_reserve_slot_def [symmetric] Let_def py_nth_def py_bind_Inr_iff
          split: if_splits)
    note r = rq_reserve_step [OF ok l1]
    let ?order = "q_order s @ (if qi_reserve i then [rq_reserve_slot s i] else [])"
    have c1: "c1 = (rq_reserved s i, ?order)" using r c(1) by simp
    have l2: "qi_response i \<longrightarrow> qi_response_idx i < 8 \<and>
        (\<exists>e. rq_reserved s i ! qi_response_idx i = Some e \<and> qe_data e = None \<and> qe_ftq_id e = qi_response_id i)"
    proof
      assume "qi_response i"
      moreover have "length (rq_reserved s i) = 8" using r rq_core_okD(1) by blast
      ultimately show "qi_response_idx i < 8 \<and>
          (\<exists>e. rq_reserved s i ! qi_response_idx i = Some e \<and> qe_data e = None \<and> qe_ftq_id e = qi_response_id i)"
        using c(2) by (auto simp: c1 rq_do_response_def Let_def py_nth_def py_bind_Inr_iff
            split: if_splits option.splits)
    qed
    from r have ok1: "rq_core_ok (rq_reserved s i, ?order)" by blast
    from rq_response_step [OF ok1 l2] obtain slots2 where
      s2: "c2 = (slots2, ?order)" "rq_core_ok (slots2, ?order)"
      "map rq_brief (rq_live (slots2, ?order)) = map rq_brief (rq_live (rq_reserved s i, ?order))"
      using c(2) c1 by auto
    have "qi_kill i \<longrightarrow> sorted_wrt (\<lambda>a b. rq_killed depth i a \<longrightarrow> rq_killed depth i b) (rq_live (q_slots s, q_order s))"
    proof
      assume k: "qi_kill i"
      then have res: "\<not> qi_reserve i" using l1 rq_kill_not_ready by blast
      have "rq_kill_loop depth i ?order slots2 [] False = Inr c3"
        using c(3) k by (simp add: s2(1) rq_do_kill_def)
      moreover have "\<forall>k \<in> set ?order. k < length slots2 \<and> slots2 ! k \<noteq> None"
        using rq_core_okD [OF s2(2)] by fastforce
      ultimately have "sorted_wrt (\<lambda>a b. rq_kills depth i slots2 a \<longrightarrow> rq_kills depth i slots2 b) ?order"
        using rq_kill_loop_Inr rq_core_okD(2) [OF s2(2)] by blast
      then have "sorted_wrt (\<lambda>a b. rq_killed_brief depth i a \<longrightarrow> rq_killed_brief depth i b)
          (map rq_brief (rq_live (slots2, ?order)))"
        using res by (simp add: rq_live_def sorted_wrt_map rq_kills_def rq_killed_brief)
      then have "sorted_wrt (\<lambda>a b. rq_killed_brief depth i a \<longrightarrow> rq_killed_brief depth i b)
          (map rq_brief (rq_live (q_slots s, q_order s)))"
        using res r s2(3) by (simp add: rq_reserved_def)
      then show "sorted_wrt (\<lambda>a b. rq_killed depth i a \<longrightarrow> rq_killed depth i b) (rq_live (q_slots s, q_order s))"
        by (simp add: sorted_wrt_map rq_killed_brief)
    qed
    with l1 l2 bad show False by (simp add: rq_legal_def)
  qed
qed

text \<open>Kills are suffixes when the queue is in fetch order: if the ages of the live fetches, counted from the
  head modulo the FTQ depth, increase along the queue, then no kill violates the suffix rule.\<close>

theorem rq_ordered_kill_is_suffix:
  assumes "sorted_wrt (\<lambda>a b. rq_age depth i (fst a) < rq_age depth i (fst b)) (rq_queue s)"
  shows "sorted_wrt (\<lambda>a b. rq_killed depth i a \<longrightarrow> rq_killed depth i b) (rq_live (q_slots s, q_order s))"
proof -
  have "sorted_wrt (\<lambda>a b. rq_age depth i (qe_ftq_id a) < rq_age depth i (qe_ftq_id b))
      (rq_live (q_slots s, q_order s))"
    using assms by (simp add: rq_queue_def sorted_wrt_map rq_brief_def)
  then show ?thesis
    by (rule sorted_wrt_mono_rel [rotated]) (auto simp: rq_killed_def)
qed

section \<open>Witnesses\<close>

definition rq_idle :: rq_inputs where
  "rq_idle = \<lparr>qi_rst = False, qi_reserve = False, qi_reserve_id = 0, qi_reserve_pc = 0,
     qi_reserve_idx = None, qi_response = False, qi_response_idx = 0, qi_response_id = 0,
     qi_response_data = 0, qi_response_exc = False, qi_response_cause = 0, qi_brief_done = False,
     qi_brief_id = 0, qi_deq_ready = False, qi_kill = False, qi_kill_all = False, qi_kill_self = False,
     qi_kill_id = 0, qi_kill_slot = 0, qi_head = 0, qi_slow_update = False, qi_slow_id = 0,
     qi_resolve_update = False, qi_resolve_id = 0\<rparr>"

text \<open>Two fetches outstanding in slots 0 and 1, with FTQ ids 5 and 6.\<close>

definition rq_demo :: rq_state where
  "rq_demo = \<lparr>q_slots = [Some \<lparr>qe_ftq_id = 5, qe_pc = 64, qe_data = None, qe_zombie = False,
       qe_exc_valid = False, qe_exc_cause = 0\<rparr>,
     Some \<lparr>qe_ftq_id = 6, qe_pc = 80, qe_data = None, qe_zombie = False, qe_exc_valid = False,
       qe_exc_cause = 0\<rparr>, None, None, None, None, None, None], q_order = [0, 1], q_output = None\<rparr>"

definition rq_demo_kill :: rq_inputs where
  "rq_demo_kill = rq_idle\<lparr>qi_kill := True, qi_kill_id := 5, qi_head := 5, qi_response := True,
     qi_response_idx := 0, qi_response_id := 5, qi_response_data := 99\<rparr>"

lemma rq_less_8: "(k::nat) < 8 \<longleftrightarrow> k \<in> {0, 1, 2, 3, 4, 5, 6, 7}"
  by auto

lemma rq_demo_wf: "rq_wf rq_demo"
  by (auto simp: rq_wf_def rq_demo_def rq_core_ok_def rq_output_ok_def rq_less_8)

lemma rq_demo_facts:
  "rq_queue rq_demo = [(5, 64), (6, 80)]" "rq_age 32 rq_demo_kill 5 = 0" "rq_age 32 rq_demo_kill 6 = 1"
  by (simp_all add: rq_queue_def rq_live_def rq_demo_def rq_brief_def rq_age_def rq_demo_kill_def rq_idle_def)

lemma rq_demo_legal: "rq_legal 32 rq_demo rq_demo_kill"
  by (simp add: rq_legal_def rq_demo_def rq_demo_kill_def rq_idle_def rq_reserved_def rq_live_def
      rq_killed_def rq_age_def)

theorem rq_refines_fifo_witness:
  "\<exists>s'. rq_tick 32 rq_demo rq_demo_kill = Inr s' \<and> rq_wf s' \<and> rq_queue s' = [(5, 64)]"
proof -
  have "\<not> qi_rst rq_demo_kill" by (simp add: rq_demo_kill_def rq_idle_def)
  moreover have "rq_spec 32 rq_demo_kill d [(5, 64), (6, 80)] = [(5, 64)]" for d
    by (simp add: rq_spec_def rq_killed_brief_def rq_age_def rq_demo_kill_def rq_idle_def)
  ultimately show ?thesis
    using rq_refines_fifo [OF rq_demo_wf rq_demo_legal] by (simp add: rq_demo_facts)
qed

theorem rq_raises_iff_illegal_witness:
  "\<exists>err. rq_tick 32 rq_demo (rq_idle\<lparr>qi_response := True, qi_response_idx := 2\<rparr>) = Inl err"
proof -
  let ?i = "rq_idle\<lparr>qi_response := True, qi_response_idx := 2\<rparr>"
  have "\<not> qi_rst ?i" "\<not> rq_legal 32 rq_demo ?i"
    by (simp_all add: rq_legal_def rq_demo_def rq_idle_def rq_reserved_def)
  with rq_raises_iff_illegal [OF rq_demo_wf] show ?thesis by blast
qed

theorem rq_ordered_kill_is_suffix_witness:
  "sorted_wrt (\<lambda>a b. rq_killed 32 rq_demo_kill a \<longrightarrow> rq_killed 32 rq_demo_kill b)
     (rq_live (q_slots rq_demo, q_order rq_demo))"
  by (rule rq_ordered_kill_is_suffix) (simp add: rq_demo_facts)

text \<open>Reserve, respond, and wait for the early-decode signal: the fetch appears at the output.\<close>

definition rq_demo_steps :: "rq_inputs list" where
  "rq_demo_steps = [rq_idle\<lparr>qi_reserve := True, qi_reserve_id := 5, qi_reserve_pc := 64\<rparr>,
     rq_idle\<lparr>qi_response := True, qi_response_id := 5, qi_response_data := 99\<rparr>,
     rq_idle\<lparr>qi_brief_done := True, qi_brief_id := 5\<rparr>]"

theorem rq_output_is_oldest_witness:
  "\<exists>s e. py_run (rq_tick 32) rq_reset rq_demo_steps = Inr s \<and> q_output s = Some e \<and> \<not> qe_zombie e"
proof -
  have "\<exists>s1 s2 s3. rq_tick 32 rq_reset (rq_demo_steps ! 0) = Inr s1 \<and> rq_guard 32 rq_reset (rq_demo_steps ! 0) \<and>
      rq_tick 32 s1 (rq_demo_steps ! 1) = Inr s2 \<and> rq_guard 32 s1 (rq_demo_steps ! 1) \<and>
      rq_tick 32 s2 (rq_demo_steps ! 2) = Inr s3 \<and> rq_guard 32 s2 (rq_demo_steps ! 2) \<and> q_output s3 \<noteq> None"
    unfolding rq_demo_steps_def by (simp add: rq_tick_def rq_reset_def rq_idle_def rq_do_reserve_def rq_ready_def rq_visible_def
        rq_free_def rq_do_response_def rq_do_kill_def rq_do_deq_def rq_deq_def rq_next_output_def
        rq_brief_entry_def rq_entry_at_def rq_refresh_def rq_guard_def rq_legal_def rq_reserve_slot_def
        rq_reserved_def rq_new_entry_def py_nth_def Option.is_none_def Let_def eval_nat_numeral)
  then obtain s1 s2 s3 where s: "rq_tick 32 rq_reset (rq_demo_steps ! 0) = Inr s1" "rq_guard 32 rq_reset (rq_demo_steps ! 0)"
    "rq_tick 32 s1 (rq_demo_steps ! 1) = Inr s2" "rq_guard 32 s1 (rq_demo_steps ! 1)"
    "rq_tick 32 s2 (rq_demo_steps ! 2) = Inr s3" "rq_guard 32 s2 (rq_demo_steps ! 2)" "q_output s3 \<noteq> None" by blast
  have steps: "rq_demo_steps = [rq_demo_steps ! 0, rq_demo_steps ! 1, rq_demo_steps ! 2]"
    by (simp add: rq_demo_steps_def)
  have run: "py_run (rq_tick 32) rq_reset rq_demo_steps = Inr s3"
    by (subst steps) (simp add: s [simplified])
  have "rq_clk.reached 32 s3"
    using rq_clk.reached_step [OF rq_clk.reached_step [OF rq_clk.reached_step [OF rq_clk.reached_init s(2,1)] s(4,3)] s(6,5)] .
  moreover obtain e where e: "q_output s3 = Some e" using s(7) by blast
  ultimately have "\<not> qe_zombie e"
    using rq_output_is_oldest [of 32 s3 rq_idle _ _ _ e] by (simp add: rq_visible_def)
  with run e show ?thesis by blast
qed

end
