(* ===== verification/Sv39.thy ===== *)
theory Sv39
  imports O3_Prelude
begin

text \<open>
  The Sv39 page-table walker: \<open>sim/cocotb/mmu/mmu_model.py\<close> (\<open>translate\<close>). The memory is the dictionary of
  page-table words, absent words reading as zero; a raised \<open>Fault\<close> is the left value of the result. The
  specification is relational: the entries a virtual address reaches by following valid pointers, and
  what a leaf has to satisfy.
\<close>

section \<open>The model\<close>

datatype sv39_fault = Page_Fault | Access_Fault

datatype sv39_cmd = Cmd_Load | Cmd_Store | Cmd_Fetch

text \<open>The arguments of \<open>translate\<close> beside memory, address and root.\<close>

record sv39_access =
  sv_priv :: nat
  sv_cmd :: sv39_cmd
  sv_sum :: bool
  sv_mxr :: bool
  sv_adue :: bool
  sv_read_fault :: "nat set"

type_synonym sv39_mem = "nat \<Rightarrow> nat option"

definition sv39_pte :: "sv39_mem \<Rightarrow> nat \<Rightarrow> nat" where
  "sv39_pte mem addr = (case mem addr of None \<Rightarrow> 0 | Some p \<Rightarrow> p)"

definition sv39_addr :: "nat \<Rightarrow> nat \<Rightarrow> nat \<Rightarrow> nat" where
  "sv39_addr base va level = base + (drop_bit (12 + level * 9) va AND 511) * 8"

text \<open>Line 15: the word is not a valid entry.\<close>

definition sv39_bad :: "nat \<Rightarrow> bool" where
  "sv39_bad p \<longleftrightarrow> p AND 1 = 0 \<or> (p AND 4 \<noteq> 0 \<and> p AND 2 = 0) \<or> drop_bit 54 p \<noteq> 0"

definition sv39_is_leaf :: "nat \<Rightarrow> bool" where
  "sv39_is_leaf p \<longleftrightarrow> p AND 10 \<noteq> 0"

definition sv39_allowed :: "sv39_access \<Rightarrow> nat \<Rightarrow> bool" where
  "sv39_allowed ac p =
     (case sv_cmd ac of Cmd_Fetch \<Rightarrow> p AND 8 \<noteq> 0 | Cmd_Store \<Rightarrow> p AND 4 \<noteq> 0
      | Cmd_Load \<Rightarrow> p AND 2 \<noteq> 0 \<or> (sv_mxr ac \<and> p AND 8 \<noteq> 0))"

text \<open>Lines 18-24: the checks of a leaf, and its translation.\<close>

definition sv39_leaf :: "sv39_access \<Rightarrow> nat \<Rightarrow> nat \<Rightarrow> nat \<Rightarrow> bool \<Rightarrow> sv39_fault + nat \<times> bool" where
  "sv39_leaf ac va level p g =
     (let ppn = drop_bit 10 p in
      if ppn AND (push_bit (level * 9) 1 - 1) \<noteq> 0 then Inl Page_Fault
      else if \<not> sv39_allowed ac p \<or> (sv_priv ac = 0 \<and> p AND 16 = 0) \<or>
              (sv_priv ac = 1 \<and> p AND 16 \<noteq> 0 \<and> (sv_cmd ac = Cmd_Fetch \<or> \<not> sv_sum ac))
      then Inl Page_Fault
      else if \<not> sv_adue ac \<and> (p AND 64 = 0 \<or> (sv_cmd ac = Cmd_Store \<and> p AND 128 = 0))
      then Inl Page_Fault
      else let offbits = 12 + level * 9 in
           Inr (and_not (push_bit 12 ppn) (push_bit offbits 1 - 1) OR (va AND (push_bit offbits 1 - 1)), g))"

fun sv39_walk ::
  "sv39_access \<Rightarrow> sv39_mem \<Rightarrow> nat \<Rightarrow> nat list \<Rightarrow> nat \<Rightarrow> bool \<Rightarrow> sv39_fault + nat \<times> bool" where
  "sv39_walk ac mem va [] base g = Inl Page_Fault"
| "sv39_walk ac mem va (level # levels) base g =
     (let addr = sv39_addr base va level in
      if addr \<in> sv_read_fault ac then Inl Access_Fault else
      let p = sv39_pte mem addr in
      if sv39_bad p then Inl Page_Fault else
      let g = g \<or> p AND 32 \<noteq> 0 in
      if sv39_is_leaf p then sv39_leaf ac va level p g
      else if level = 0 then Inl Page_Fault
      else sv39_walk ac mem va levels (push_bit 12 (drop_bit 10 p)) g)"

definition sv39_canonical :: "nat \<Rightarrow> bool" where
  "sv39_canonical va \<longleftrightarrow>
     drop_bit 39 va = (if drop_bit 38 va AND 1 \<noteq> 0 then push_bit 25 1 - 1 else 0)"

definition sv39_translate :: "sv39_access \<Rightarrow> sv39_mem \<Rightarrow> nat \<Rightarrow> nat \<Rightarrow> sv39_fault + nat \<times> bool" where
  "sv39_translate ac mem va0 root =
     (let va = va0 AND (push_bit 64 1 - 1) in
      if \<not> sv39_canonical va then Inl Page_Fault
      else sv39_walk ac mem va [2, 1, 0] (push_bit 12 root) False)"

section \<open>The specification\<close>

text \<open>\<open>sv39_reach mem root va level addr g\<close>: the walk of \<open>va\<close> reads the entry at \<open>addr\<close> in the table of \<open>level\<close>,
  \<open>g\<close> telling whether an entry passed so far is global. Only readable, valid pointers are passed.\<close>

inductive sv39_reach :: "nat set \<Rightarrow> sv39_mem \<Rightarrow> nat \<Rightarrow> nat \<Rightarrow> nat \<Rightarrow> nat \<Rightarrow> bool \<Rightarrow> bool"
  for faulty mem root va where
  sv39_root: "sv39_reach faulty mem root va 2 (sv39_addr (root * 4096) va 2) False"
| sv39_down: "sv39_reach faulty mem root va (Suc level) addr g \<Longrightarrow> addr \<notin> faulty \<Longrightarrow>
    \<not> sv39_bad (sv39_pte mem addr) \<Longrightarrow> \<not> sv39_is_leaf (sv39_pte mem addr) \<Longrightarrow>
    sv39_reach faulty mem root va level
      (sv39_addr (sv39_pte mem addr div 1024 * 4096) va level) (g \<or> sv39_pte mem addr AND 32 \<noteq> 0)"

inductive_cases sv39_reach_top: "sv39_reach faulty mem root va (Suc (Suc (Suc n))) addr g"
inductive_cases sv39_reach_2: "sv39_reach faulty mem root va (Suc (Suc 0)) addr g"
inductive_cases sv39_reach_1: "sv39_reach faulty mem root va (Suc 0) addr g"
inductive_cases sv39_reach_0: "sv39_reach faulty mem root va 0 addr g"

lemma sv39_reach_le: "sv39_reach faulty mem root va level addr g \<Longrightarrow> level \<le> 2"
  by (induction rule: sv39_reach.induct) simp_all

text \<open>A walk reads one entry per level.\<close>

lemma sv39_reach_unique:
  "sv39_reach faulty mem root va level addr g \<Longrightarrow> sv39_reach faulty mem root va level addr' g' \<Longrightarrow>
   addr = addr' \<and> g = g'"
proof (induction arbitrary: addr' g' rule: sv39_reach.induct)
  case sv39_root
  then show ?case
  proof cases
    case (sv39_down a g)
    then show ?thesis using sv39_reach_le by fastforce
  qed simp
next
  case (sv39_down level addr g)
  from sv39_down.prems show ?case
  proof cases
    case sv39_root
    then show ?thesis using sv39_reach_le [OF sv39_down.hyps(1)] by simp
  next
    case inner: (sv39_down a h)
    with sv39_down.IH [of a h] show ?thesis by simp
  qed
qed

text \<open>What the specification asks of a leaf entry in the table of \<open>level\<close>.\<close>

definition sv39_grants :: "sv39_access \<Rightarrow> nat \<Rightarrow> nat \<Rightarrow> bool" where
  "sv39_grants ac level p \<longleftrightarrow>
     \<not> sv39_bad p \<and> sv39_is_leaf p \<and> (p div 1024) mod 2 ^ (9 * level) = 0 \<and> sv39_allowed ac p \<and>
     (sv_priv ac = 0 \<longrightarrow> p AND 16 \<noteq> 0) \<and>
     (sv_priv ac = 1 \<longrightarrow> p AND 16 \<noteq> 0 \<longrightarrow> sv_cmd ac \<noteq> Cmd_Fetch \<and> sv_sum ac) \<and>
     (sv_adue ac \<or> p AND 64 \<noteq> 0 \<and> (sv_cmd ac = Cmd_Store \<longrightarrow> p AND 128 \<noteq> 0))"

definition sv39_maps :: "sv39_access \<Rightarrow> sv39_mem \<Rightarrow> nat \<Rightarrow> nat \<Rightarrow> nat \<Rightarrow> nat \<Rightarrow> bool \<Rightarrow> bool" where
  "sv39_maps ac mem root va level p g \<longleftrightarrow>
     (\<exists>addr h. sv39_reach (sv_read_fault ac) mem root va level addr h \<and> addr \<notin> sv_read_fault ac \<and>
        p = sv39_pte mem addr \<and> g = (h \<or> p AND 32 \<noteq> 0) \<and> sv39_grants ac level p)"

section \<open>The walker against its specification\<close>

lemma sv39_leaf_addr:
  assumes "(ppn::nat) mod 2 ^ (9 * level) = 0"
  shows "and_not (push_bit 12 ppn) (push_bit (12 + level * 9) 1 - 1) OR
    (va AND (push_bit (12 + level * 9) 1 - 1)) = ppn * 4096 + va mod 2 ^ (12 + 9 * level)"
proof -
  let ?n = "12 + 9 * level"
  obtain k where k: "ppn = 2 ^ (9 * level) * k" using assms by auto
  have base: "push_bit 12 ppn = push_bit ?n k"
    by (simp add: k push_bit_eq_mult power_add ac_simps)
  have "and_not (push_bit 12 ppn) (2 ^ ?n - 1) = push_bit ?n k"
    unfolding and_not_mask base by (simp add: push_bit_eq_mult)
  moreover have "push_bit ?n k OR (va AND (2 ^ ?n - 1)) = push_bit ?n k + va mod 2 ^ ?n"
    unfolding and_mask_mod take_bit_eq_mod [symmetric]
    by (rule disjunctive_add_eq_or [symmetric])
      (auto intro!: bit_eqI simp: bit_and_iff bit_push_bit_iff bit_take_bit_iff)
  moreover have "push_bit ?n k = ppn * 4096" using base by (simp add: push_bit_eq_mult)
  ultimately show ?thesis by (simp add: mult.commute [of level])
qed

lemma sv39_leaf_iff:
  assumes "\<not> sv39_bad p" "sv39_is_leaf p"
  shows "sv39_leaf ac va level p g =
    (if sv39_grants ac level p then Inr (p div 1024 * 4096 + va mod 2 ^ (12 + 9 * level), g)
     else Inl Page_Fault)"
proof -
  have al: "drop_bit 10 p AND (push_bit (level * 9) 1 - 1) = (p div 1024) mod 2 ^ (9 * level)"
    by (simp only: push_bit_of_1 and_mask_mod drop_bit_eq_div) (simp add: mult.commute)
  show ?thesis
    using assms sv39_leaf_addr [of "p div 1024" level va]
    unfolding sv39_leaf_def sv39_grants_def Let_def al
    by (auto simp: drop_bit_eq_div simp del: push_bit_of_1)
qed

lemma sv39_reach_passed:
  assumes "sv39_reach faulty mem root va level addr g" "level < l" "l \<le> 2"
  shows "\<exists>a h. sv39_reach faulty mem root va l a h \<and> a \<notin> faulty \<and> \<not> sv39_bad (sv39_pte mem a) \<and>
    \<not> sv39_is_leaf (sv39_pte mem a)"
  using assms
proof (induction arbitrary: l rule: sv39_reach.induct)
  case sv39_root
  then show ?case by simp
next
  case (sv39_down level addr g)
  show ?case
  proof (cases "l = Suc level")
    case True
    with sv39_down.hyps show ?thesis by blast
  qed (use sv39_down in simp)
qed

fun sv39_levels :: "nat \<Rightarrow> nat list" where
  "sv39_levels 0 = [0]"
| "sv39_levels (Suc l) = Suc l # sv39_levels l"

text \<open>A walk from the table of level \<open>l\<close>, against the entries below it.\<close>

lemma sv39_walk_maps:
  assumes "sv39_reach (sv_read_fault ac) mem root va l (sv39_addr base va l) h"
  shows "sv39_walk ac mem va (sv39_levels l) base h = Inr (pa, g) \<longleftrightarrow>
    (\<exists>level p. level \<le> l \<and> sv39_maps ac mem root va level p g \<and>
       pa = p div 1024 * 4096 + va mod 2 ^ (12 + 9 * level))"
  using assms
proof (induction l arbitrary: base h)
  case 0
  let ?a = "sv39_addr base va 0"
  have only: "sv39_maps ac mem root va 0 p g' \<longleftrightarrow> ?a \<notin> sv_read_fault ac \<and> p = sv39_pte mem ?a \<and>
      g' = (h \<or> p AND 32 \<noteq> 0) \<and> sv39_grants ac 0 p" for p g'
    using sv39_reach_unique [OF 0] 0 unfolding sv39_maps_def by blast
  show ?case
    by (auto simp: only Let_def sv39_leaf_iff sv39_grants_def)
next
  case (Suc l)
  let ?a = "sv39_addr base va (Suc l)"
  let ?p = "sv39_pte mem ?a"
  have l: "Suc l \<le> 2" using sv39_reach_le [OF Suc.prems] .
  have only: "sv39_maps ac mem root va (Suc l) p g' \<longleftrightarrow> ?a \<notin> sv_read_fault ac \<and> p = ?p \<and>
      g' = (h \<or> p AND 32 \<noteq> 0) \<and> sv39_grants ac (Suc l) p" for p g'
    using sv39_reach_unique [OF Suc.prems] Suc.prems unfolding sv39_maps_def by blast
  have below: "?a \<notin> sv_read_fault ac \<and> \<not> sv39_bad ?p \<and> \<not> sv39_is_leaf ?p"
    if m: "sv39_maps ac mem root va level p g'" "level \<le> l" for level p g'
  proof -
    obtain b k where "sv39_reach (sv_read_fault ac) mem root va level b k"
      using m(1) by (auto simp: sv39_maps_def)
    from sv39_reach_passed [OF this _ l] m(2) obtain a' h' where
      "sv39_reach (sv_read_fault ac) mem root va (Suc l) a' h'" "a' \<notin> sv_read_fault ac"
      "\<not> sv39_bad (sv39_pte mem a')" "\<not> sv39_is_leaf (sv39_pte mem a')" by auto
    with sv39_reach_unique [OF Suc.prems this(1)] show ?thesis by simp
  qed
  show ?case
  proof (cases "?a \<in> sv_read_fault ac \<or> sv39_bad ?p \<or> sv39_is_leaf ?p")
    case True
    have "sv39_walk ac mem va (sv39_levels (Suc l)) base h = Inr (pa, g) \<longleftrightarrow>
        sv39_maps ac mem root va (Suc l) ?p g \<and> pa = ?p div 1024 * 4096 + va mod 2 ^ (12 + 9 * Suc l)"
      using True by (auto simp: only Let_def sv39_leaf_iff sv39_grants_def)
    moreover have "\<not> sv39_maps ac mem root va level p g" if "level \<le> l" for level p
      using below [OF _ that] True by blast
    moreover have "sv39_maps ac mem root va (Suc l) p g \<Longrightarrow> p = ?p" for p by (simp add: only)
    ultimately show ?thesis by (metis le_Suc_eq order_refl)
  next
    case False
    have "sv39_reach (sv_read_fault ac) mem root va l
        (sv39_addr (push_bit 12 (drop_bit 10 ?p)) va l) (h \<or> ?p AND 32 \<noteq> 0)"
      using sv39_down [OF Suc.prems] False by (simp add: push_bit_eq_mult drop_bit_eq_div)
    note ih = Suc.IH [OF this]
    have "\<not> sv39_maps ac mem root va (Suc l) p g" for p
      using False by (auto simp: only sv39_grants_def)
    with False ih show ?thesis by (simp add: Let_def le_Suc_eq) blast
  qed
qed

lemma sv39_walk_access_fault:
  assumes "sv39_reach (sv_read_fault ac) mem root va l (sv39_addr base va l) h"
  shows "sv39_walk ac mem va (sv39_levels l) base h = Inl Access_Fault \<longleftrightarrow>
    (\<exists>level addr g. level \<le> l \<and> sv39_reach (sv_read_fault ac) mem root va level addr g \<and>
       addr \<in> sv_read_fault ac)"
  using assms
proof (induction l arbitrary: base h)
  case 0
  let ?a = "sv39_addr base va 0"
  have "(\<exists>addr g. sv39_reach (sv_read_fault ac) mem root va 0 addr g \<and> addr \<in> sv_read_fault ac) \<longleftrightarrow>
      ?a \<in> sv_read_fault ac"
    using sv39_reach_unique [OF 0] 0 by blast
  then show ?case by (simp add: Let_def sv39_leaf_iff)
next
  case (Suc l)
  let ?a = "sv39_addr base va (Suc l)"
  let ?p = "sv39_pte mem ?a"
  have l: "Suc l \<le> 2" using sv39_reach_le [OF Suc.prems] .
  have here: "sv39_reach (sv_read_fault ac) mem root va (Suc l) addr g \<longleftrightarrow> addr = ?a \<and> g = h" for addr g
    using sv39_reach_unique [OF Suc.prems] Suc.prems by blast
  have below: "?a \<notin> sv_read_fault ac \<and> \<not> sv39_bad ?p \<and> \<not> sv39_is_leaf ?p"
    if "sv39_reach (sv_read_fault ac) mem root va level addr g" "level \<le> l" for level addr g
    using sv39_reach_passed [OF that(1) _ l] that(2) by (auto simp: here)
  show ?case
  proof (cases "?a \<in> sv_read_fault ac \<or> sv39_bad ?p \<or> sv39_is_leaf ?p")
    case True
    have "sv39_walk ac mem va (sv39_levels (Suc l)) base h = Inl Access_Fault \<longleftrightarrow> ?a \<in> sv_read_fault ac"
      using True by (auto simp: Let_def sv39_leaf_iff)
    moreover have "(\<exists>level addr g. level \<le> Suc l \<and> sv39_reach (sv_read_fault ac) mem root va level addr g \<and>
        addr \<in> sv_read_fault ac) \<longleftrightarrow> ?a \<in> sv_read_fault ac"
      using below True here by (metis le_Suc_eq order_refl)
    ultimately show ?thesis by simp
  next
    case False
    have "sv39_reach (sv_read_fault ac) mem root va l
        (sv39_addr (push_bit 12 (drop_bit 10 ?p)) va l) (h \<or> ?p AND 32 \<noteq> 0)"
      using sv39_down [OF Suc.prems] False by (simp add: push_bit_eq_mult drop_bit_eq_div)
    from Suc.IH [OF this] False here show ?thesis by (simp add: Let_def) (metis le_Suc_eq)
  qed
qed

lemma sv39_translate_walk:
  assumes "va < 2 ^ 64"
  shows "sv39_translate ac mem va root =
    (if sv39_canonical va then sv39_walk ac mem va (sv39_levels 2) (push_bit 12 root) False
     else Inl Page_Fault)"
proof -
  have "va AND (push_bit 64 1 - 1) = va" using assms unfolding push_bit_of_1 and_mask_mod by simp
  then show ?thesis by (simp add: sv39_translate_def numeral_2_eq_2)
qed

lemma sv39_reach_start:
  "sv39_reach faulty mem root va 2 (sv39_addr (push_bit 12 root) va 2) False"
  using sv39_root [of faulty mem root va] by (simp add: push_bit_eq_mult)

lemma sv39_translate_iff':
  assumes "va < 2 ^ 64"
  shows "sv39_translate ac mem va root = Inr (pa, g) \<longleftrightarrow>
    sv39_canonical va \<and> (\<exists>level p. sv39_maps ac mem root va level p g \<and>
      pa = p div 1024 * 4096 + va mod 2 ^ (12 + 9 * level))"
proof -
  have "sv39_maps ac mem root va level p g \<Longrightarrow> level \<le> 2" for level p
    by (auto simp: sv39_maps_def dest: sv39_reach_le)
  then show ?thesis
    unfolding sv39_translate_walk [OF assms]
    using sv39_walk_maps [OF sv39_reach_start, of ac mem va root pa g] by auto
qed

text \<open>C9: Soundness and completeness of the walk: it returns an address exactly when the virtual address is
  canonical and some entry it reaches through readable, valid pointers is a leaf that grants the
  access; the address is that leaf's frame plus the offset within the (super)page.\<close>

theorem sv39_translate_iff:
  assumes "va < 2 ^ 64"
  shows "sv39_translate ac mem va root = Inr (pa, g) \<longleftrightarrow>
    sv39_canonical va \<and> (\<exists>level p. sv39_maps ac mem root va level p g \<and>
      pa = p div 1024 * 4096 + va mod 2 ^ (12 + 9 * level))"
  using assms by (rule sv39_translate_iff')

text \<open>C20: A walk ends in an access fault exactly when it reaches an unreadable entry; every other failure is a
  page fault.\<close>

theorem sv39_access_fault_iff:
  assumes "va < 2 ^ 64" "sv39_canonical va"
  shows "sv39_translate ac mem va root = Inl Access_Fault \<longleftrightarrow>
    (\<exists>level addr g. sv39_reach (sv_read_fault ac) mem root va level addr g \<and> addr \<in> sv_read_fault ac)"
  unfolding sv39_translate_walk [OF assms(1)]
  using sv39_walk_access_fault [OF sv39_reach_start, of ac mem va root] assms(2)
  by simp (blast dest: sv39_reach_le)

section \<open>Pages and permissions\<close>

lemma sv39_addr_page:
  assumes "va div 2 ^ (12 + 9 * n) = va' div 2 ^ (12 + 9 * n)" "n \<le> level"
  shows "sv39_addr base va level = sv39_addr base va' level"
proof -
  obtain d where d: "level = n + d" using assms(2) le_Suc_ex by blast
  have "(2::nat) ^ (12 + level * 9) = 2 ^ (12 + 9 * n) * 2 ^ (9 * d)"
    by (simp add: d algebra_simps flip: power_add)
  then have "drop_bit (12 + level * 9) x = x div 2 ^ (12 + 9 * n) div 2 ^ (9 * d)" for x :: nat
    by (simp only: drop_bit_eq_div div_mult2_eq)
  with assms(1) show ?thesis by (simp add: sv39_addr_def)
qed

lemma sv39_reach_page:
  assumes "sv39_reach faulty mem root va level addr g"
    "va div 2 ^ (12 + 9 * n) = va' div 2 ^ (12 + 9 * n)" "n \<le> level"
  shows "sv39_reach faulty mem root va' level addr g"
  using assms
proof (induction rule: sv39_reach.induct)
  case sv39_root
  from sv39_addr_page [OF sv39_root(1,2)] show ?case by (simp add: sv39_reach.sv39_root)
next
  case (sv39_down level addr g)
  then have "sv39_reach faulty mem root va' (Suc level) addr g" by simp
  from sv39_reach.sv39_down [OF this sv39_down.hyps(2-4)] show ?case
    using sv39_addr_page [OF sv39_down.prems] by simp
qed

lemma sv39_canonical_page:
  assumes "va div 2 ^ (12 + 9 * n) = va' div 2 ^ (12 + 9 * n)" "n \<le> 2"
  shows "sv39_canonical va \<longleftrightarrow> sv39_canonical va'"
proof -
  have "drop_bit (k + (12 + 9 * n)) va = drop_bit (k + (12 + 9 * n)) va'" for k
    using assms(1) drop_bit_drop_bit [of k "12 + 9 * n"]
    by (metis drop_bit_eq_div)
  from this [of "39 - (12 + 9 * n)"] this [of "38 - (12 + 9 * n)"] assms(2)
  show ?thesis by (simp add: sv39_canonical_def)
qed

text \<open>A leaf maps its whole page: every address that agrees above the page offset of the leaf's level
  translates through the same entry, to the same frame at its own offset.\<close>

theorem sv39_page_uniform:
  assumes "va < 2 ^ 64" "va' < 2 ^ 64" "sv39_canonical va" "sv39_maps ac mem root va level p g"
    "va div 2 ^ (12 + 9 * level) = va' div 2 ^ (12 + 9 * level)"
  shows "sv39_translate ac mem va root = Inr (p div 1024 * 4096 + va mod 2 ^ (12 + 9 * level), g) \<and>
    sv39_translate ac mem va' root = Inr (p div 1024 * 4096 + va' mod 2 ^ (12 + 9 * level), g)"
proof -
  obtain addr h where m: "sv39_reach (sv_read_fault ac) mem root va level addr h"
    using assms(4) by (auto simp: sv39_maps_def)
  from sv39_reach_le [OF m] have "sv39_canonical va'"
    using assms(3) sv39_canonical_page [OF assms(5)] by simp
  moreover have "sv39_maps ac mem root va' level p g"
    using assms(4) sv39_reach_page [OF _ assms(5) order_refl] unfolding sv39_maps_def by blast
  ultimately show ?thesis
    using assms(3,4) unfolding sv39_translate_iff' [OF assms(1)] sv39_translate_iff' [OF assms(2)] by blast
qed

text \<open>\<open>b\<close> asks for no more than \<open>a\<close>: it may be a load instead of a store, and may run with \<open>SUM\<close>, \<open>MXR\<close> or
  hardware A/D updates that \<open>a\<close> lacks.\<close>

definition sv39_weaker :: "sv39_access \<Rightarrow> sv39_access \<Rightarrow> bool" where
  "sv39_weaker a b \<longleftrightarrow> sv_priv b = sv_priv a \<and> sv_read_fault b = sv_read_fault a \<and>
     (sv_cmd b = sv_cmd a \<or> sv_cmd a = Cmd_Store \<and> sv_cmd b = Cmd_Load) \<and>
     (sv_sum a \<longrightarrow> sv_sum b) \<and> (sv_mxr a \<longrightarrow> sv_mxr b) \<and> (sv_adue a \<longrightarrow> sv_adue b)"

lemma sv39_weaker_grants: "sv39_weaker a b \<Longrightarrow> sv39_grants a level p \<Longrightarrow> sv39_grants b level p"
  by (auto simp: sv39_weaker_def sv39_grants_def sv39_allowed_def sv39_bad_def split: sv39_cmd.splits)

text \<open>Permissions are monotone: an access that translates also translates, to the same address, when it asks
  for less.\<close>

theorem sv39_translate_mono:
  assumes "sv39_weaker a b" "va < 2 ^ 64" "sv39_translate a mem va root = Inr r"
  shows "sv39_translate b mem va root = Inr r"
proof (cases r)
  case (Pair pa g)
  have "sv39_maps b mem root va level p g" if "sv39_maps a mem root va level p g" for level p
    using that sv39_weaker_grants [OF assms(1)] assms(1)
    unfolding sv39_maps_def sv39_weaker_def by metis
  with assms(3) show ?thesis
    unfolding Pair sv39_translate_iff' [OF assms(2)] by blast
qed

section \<open>Witnesses\<close>

text \<open>A root table at frame 1 with a two-megabyte leaf under its second entry, and an unreadable table at
  frame 3.\<close>

definition sv39_demo_mem :: sv39_mem where
  "sv39_demo_mem = [4104 \<mapsto> 2 * 1024 + 1, 8192 \<mapsto> 512 * 1024 + 199, 4112 \<mapsto> 3 * 1024 + 1]"

definition sv39_demo :: "sv39_cmd \<Rightarrow> sv39_access" where
  "sv39_demo cmd = \<lparr>sv_priv = 1, sv_cmd = cmd, sv_sum = False, sv_mxr = False, sv_adue = False,
     sv_read_fault = {12288}\<rparr>"

text \<open>The virtual address one gigabyte and five.\<close>

definition sv39_demo_va :: nat where
  "sv39_demo_va = 1073741829"

lemmas sv39_eval = sv39_translate_def sv39_canonical_def sv39_demo_def sv39_demo_mem_def sv39_demo_va_def
  sv39_addr_def sv39_pte_def sv39_bad_def sv39_is_leaf_def sv39_leaf_def sv39_allowed_def sv39_grants_def
  drop_bit_eq_div push_bit_eq_mult and_not_def

lemma sv39_demo_run:
  "sv39_translate (sv39_demo Cmd_Store) sv39_demo_mem sv39_demo_va 1 = Inr (2097157, False)"
  "sv39_translate (sv39_demo Cmd_Load) sv39_demo_mem 2147483648 1 = Inl Access_Fault"
  "sv39_canonical sv39_demo_va" "sv39_canonical 2147483648"
  by (simp_all add: sv39_eval)

theorem sv39_translate_iff_witness:
  "\<exists>level p. sv39_maps (sv39_demo Cmd_Store) sv39_demo_mem 1 sv39_demo_va level p False"
proof -
  have "sv39_demo_va < 2 ^ 64" by (simp add: sv39_demo_va_def)
  from sv39_translate_iff [OF this] sv39_demo_run(1) show ?thesis by blast
qed

theorem sv39_access_fault_iff_witness:
  "\<exists>level addr g. sv39_reach {12288} sv39_demo_mem 1 2147483648 level addr g \<and> addr = 12288"
proof -
  have "(2147483648::nat) < 2 ^ 64" by simp
  from sv39_access_fault_iff [OF this sv39_demo_run(4)] sv39_demo_run(2) show ?thesis
    by (auto simp: sv39_demo_def)
qed

theorem sv39_page_uniform_witness:
  "\<exists>pa. sv39_translate (sv39_demo Cmd_Store) sv39_demo_mem sv39_demo_va 1 = Inr (pa, False) \<and>
     sv39_translate (sv39_demo Cmd_Store) sv39_demo_mem (sv39_demo_va + 3) 1 = Inr (pa + 3, False)"
proof -
  let ?ac = "sv39_demo Cmd_Store" and ?p = "512 * 1024 + 199 :: nat"
  have va: "sv39_demo_va < 2 ^ 64" "sv39_demo_va + 3 < 2 ^ 64"
    "sv39_demo_va div 2 ^ (12 + 9 * 1) = (sv39_demo_va + 3) div 2 ^ (12 + 9 * 1)"
    by (simp_all add: sv39_demo_va_def)
  have pte: "sv39_pte sv39_demo_mem 4104 = 2049" "sv39_pte sv39_demo_mem 8192 = ?p"
    by (simp_all add: sv39_pte_def sv39_demo_mem_def)
  have a: "sv39_addr (1 * 4096) sv39_demo_va (Suc 1) = 4104"
    "sv39_addr (sv39_pte sv39_demo_mem 4104 div 1024 * 4096) sv39_demo_va 1 = 8192"
    unfolding pte by (simp_all add: sv39_eval)
  have b: "\<not> sv39_bad 2049" "\<not> sv39_is_leaf 2049" "sv39_grants ?ac 1 ?p" "?p AND 32 = 0"
    "(2049::nat) AND 32 = 0" "4104 \<notin> sv_read_fault ?ac" "8192 \<notin> sv_read_fault ?ac"
    by (simp_all add: sv39_eval)
  have "sv39_reach (sv_read_fault ?ac) sv39_demo_mem 1 sv39_demo_va (Suc 1) 4104 False"
    using sv39_root [of "sv_read_fault ?ac" sv39_demo_mem 1 sv39_demo_va] a(1) by (simp add: numeral_2_eq_2)
  from sv39_down [OF this b(6)] b(1,2,5) a(2)
  have "sv39_reach (sv_read_fault ?ac) sv39_demo_mem 1 sv39_demo_va 1 8192 False"
    by (simp add: pte)
  with b(3,4,7) pte have "sv39_maps ?ac sv39_demo_mem 1 sv39_demo_va 1 ?p False"
    unfolding sv39_maps_def by metis
  from sv39_page_uniform [OF va(1,2) sv39_demo_run(3) this va(3)] show ?thesis
    by (simp add: sv39_demo_va_def)
qed

theorem sv39_translate_mono_witness:
  "sv39_translate (sv39_demo Cmd_Load) sv39_demo_mem sv39_demo_va 1 = Inr (2097157, False)"
proof -
  have "sv39_weaker (sv39_demo Cmd_Store) (sv39_demo Cmd_Load)" "sv39_demo_va < 2 ^ 64"
    by (simp_all add: sv39_weaker_def sv39_demo_def sv39_demo_va_def)
  from sv39_translate_mono [OF this sv39_demo_run(1)] show ?thesis .
qed

end
