(* ===== verification/Link_Codec.thy ===== *)
theory Link_Codec
  imports O3_Prelude
begin

text \<open>
  The bit layouts the memory agents and the backend tests exchange with the hardware: \<open>pack\<close>, \<open>req\<close>,
  \<open>up\<close>, \<open>response\<close> and the snoop fields of \<open>sim/cocotb/l2_home/mem_agents.py\<close>, and the codec of
  \<open>sim/cocotb/l3_contract.py\<close>, whose field masks are constants of the hardware (a parameter here).
  Every field is a non-negative Python integer.
\<close>

section \<open>Packing fields, first field highest\<close>

fun pack_from :: "nat \<Rightarrow> (nat \<times> nat) list \<Rightarrow> nat py" where
  "pack_from v [] = Inr v"
| "pack_from v ((width, x) # fs) =
     py_bind (py_assert (x < push_bit width 1)) (\<lambda>_. pack_from (push_bit width v OR x) fs)"

definition pack :: "(nat \<times> nat) list \<Rightarrow> nat py" where
  "pack fs = pack_from 0 fs"

definition link_req :: "nat \<Rightarrow> nat \<Rightarrow> nat \<Rightarrow> nat \<Rightarrow> nat \<Rightarrow> nat py" where
  "link_req op line tid msk d = pack [(2, op), (26, line), (2, tid), (64, msk), (512, d)]"

definition link_up :: "nat \<Rightarrow> bool \<Rightarrow> nat \<Rightarrow> nat \<Rightarrow> nat \<Rightarrow> nat py" where
  "link_up op dirty line tid d = pack [(2, op), (1, of_bool dirty), (26, line), (2, tid), (512, d)]"

definition mask512 :: nat where
  "mask512 = push_bit 512 1 - 1"

text \<open>Operation, transaction, error and data of a response word.\<close>

definition link_response :: "nat \<Rightarrow> nat \<times> nat \<times> nat \<times> nat" where
  "link_response v = (drop_bit 515 v, drop_bit 513 v AND 3, drop_bit 512 v AND 1, v AND mask512)"

text \<open>Line, DMA-write flag, owner flag and operation of a snoop word.\<close>

definition link_snoop :: "nat \<Rightarrow> nat \<times> nat \<times> nat \<times> nat" where
  "link_snoop raw = (raw AND (push_bit 26 1 - 1), drop_bit 26 raw AND 1, drop_bit 27 raw AND 1, drop_bit 28 raw)"

text \<open>A field by its offset from the low end.\<close>

definition nfield :: "nat \<Rightarrow> nat \<Rightarrow> nat \<Rightarrow> nat" where
  "nfield k w v = take_bit w (drop_bit k v)"

lemma bit_nfield: "bit (nfield k w v) i \<longleftrightarrow> i < w \<and> bit v (k + i)"
  by (simp add: nfield_def bit_take_bit_iff bit_drop_bit_eq)

lemma nat_and_mask: "(x::nat) AND (push_bit w 1 - 1) = take_bit w x"
  by (simp add: take_bit_eq_mask mask_eq_exp_minus_1)

lemma pack_low: "x < 2 ^ w \<Longrightarrow> take_bit w (push_bit w v OR x) = (x::nat)"
  by (rule bit_eqI) (auto simp: bit_take_bit_iff bit_or_iff bit_push_bit_iff less_exp_bit_iff not_less)

lemma pack_high: "x < 2 ^ w \<Longrightarrow> drop_bit w (push_bit w v OR x) = (v::nat)"
  by (rule bit_eqI) (auto simp: bit_drop_bit_eq bit_or_iff bit_push_bit_iff less_exp_bit_iff)

text \<open>The value of a field list: the fields above it followed by its own.\<close>

lemma pack_from_Inr:
  "pack_from v fs = Inr r \<Longrightarrow>
     (\<forall>(w, x) \<in> set fs. x < 2 ^ w) \<and> drop_bit (sum_list (map fst fs)) r = v \<and>
     (\<forall>i < length fs. nfield (sum_list (map fst (drop (Suc i) fs))) (fst (fs ! i)) r = snd (fs ! i))"
proof (induction v fs rule: pack_from.induct)
  case (1 v)
  then show ?case by simp
next
  case (2 v w x fs)
  then have x: "x < 2 ^ w" and r: "pack_from (push_bit w v OR x) fs = Inr r"
    by (auto simp: py_assert_def split: if_splits)
  have IH: "(\<forall>(w, x) \<in> set fs. x < 2 ^ w)" "drop_bit (sum_list (map fst fs)) r = push_bit w v OR x"
    "\<forall>i < length fs. nfield (sum_list (map fst (drop (Suc i) fs))) (fst (fs ! i)) r = snd (fs ! i)"
    using "2.IH" [OF r] by simp_all
  have "drop_bit (w + sum_list (map fst fs)) r = v"
    using IH(2) pack_high [OF x, of v] by (simp only: drop_bit_drop_bit [symmetric])
  moreover have "nfield (sum_list (map fst fs)) w r = x"
    using IH(2) pack_low [OF x, of v] by (simp add: nfield_def)
  ultimately show ?case using IH x by (auto simp: less_Suc_eq_0_disj)
qed

lemma pack_from_total: "\<forall>(w, x) \<in> set fs. x < 2 ^ w \<Longrightarrow> \<exists>r. pack_from v fs = Inr r"
  by (induction v fs rule: pack_from.induct) (auto simp: py_assert_def)

text \<open>Packing succeeds exactly when every field fits its width; then the word has the fields' total width
  and every field reads back at its offset.\<close>

theorem pack_roundtrip:
  "((\<exists>r. pack fs = Inr r) \<longleftrightarrow> (\<forall>(w, x) \<in> set fs. x < 2 ^ w)) \<and>
   (\<forall>r. pack fs = Inr r \<longrightarrow> r < 2 ^ sum_list (map fst fs) \<and>
      (\<forall>i < length fs. nfield (sum_list (map fst (drop (Suc i) fs))) (fst (fs ! i)) r = snd (fs ! i)))"
proof (intro conjI allI impI iffI)
  show "\<forall>(w, x) \<in> set fs. x < 2 ^ w" if "\<exists>r. pack fs = Inr r"
    using that pack_from_Inr [of 0 fs] unfolding pack_def by blast
  show "\<exists>r. pack fs = Inr r" if "\<forall>(w, x) \<in> set fs. x < 2 ^ w"
    using that by (simp add: pack_def pack_from_total)
  fix r assume r: "pack fs = Inr r"
  then have "drop_bit (sum_list (map fst fs)) r = 0" using pack_from_Inr [of 0 fs r] by (simp add: pack_def)
  then show "r < 2 ^ sum_list (map fst fs)"
    by (simp add: drop_bit_eq_div div_eq_0_iff)
  show "nfield (sum_list (map fst (drop (Suc i) fs))) (fst (fs ! i)) r = snd (fs ! i)" if "i < length fs" for i
    using that r pack_from_Inr [of 0 fs r] by (simp add: pack_def)
qed

lemma link_response_pack:
  assumes "op < 8" "tid < 4" "err < 2" "d < 2 ^ 512"
  shows "\<exists>r. pack [(3, op), (2, tid), (1, err), (512, d)] = Inr r \<and> link_response r = (op, tid, err, d)"
proof -
  let ?fs = "[(3, op), (2, tid), (1, err), (512, d)] :: (nat \<times> nat) list"
  obtain r where r: "pack ?fs = Inr r" using pack_from_total [of ?fs 0] assms by (auto simp: pack_def)
  then have p: "pack_from 0 ?fs = Inr r" by (simp only: pack_def)
  note n = pack_from_Inr [OF p, THEN conjunct2, THEN conjunct2]
  have "drop_bit (sum_list (map fst ?fs)) r = 0"
    by (rule pack_from_Inr [OF p, THEN conjunct2, THEN conjunct1])
  then have top: "drop_bit 518 r = 0" by simp
  have fields: "nfield 515 3 r = op" "nfield 513 2 r = tid" "nfield 512 1 r = err" "nfield 0 512 r = d"
    using n [rule_format, of 0] n [rule_format, of 1] n [rule_format, of 2] n [rule_format, of 3] by simp_all
  have "drop_bit 515 r = nfield 515 3 r"
  proof (rule bit_eqI)
    fix i
    have "\<not> bit (drop_bit 518 r) j" for j by (simp add: top)
    from this [of "i - 3"] have "\<not> bit r (515 + i)" if "3 \<le> i"
      using that by (simp add: bit_drop_bit_eq)
    then show "bit (drop_bit 515 r) i = bit (nfield 515 3 r) i"
      by (cases "3 \<le> i") (auto simp: bit_nfield bit_drop_bit_eq)
  qed
  moreover have "x AND 3 = take_bit 2 x" "x AND 1 = take_bit 1 x" for x :: nat
    by (simp_all add: take_bit_eq_mask mask_eq_exp_minus_1)
  ultimately have "link_response r = (op, tid, err, d)"
    using fields by (simp only: link_response_def mask512_def nat_and_mask nfield_def drop_bit_0 id_apply)
  with r show ?thesis by (intro exI conjI)
qed

section \<open>Line bytes\<close>

text \<open>\<open>int.from_bytes(bs, 'little')\<close> and \<open>n.to_bytes(k, 'little')\<close> of a value below \<open>256 ^ k\<close>.\<close>

definition bytes_le :: "nat list \<Rightarrow> nat" where
  "bytes_le bs = foldr (\<lambda>b n. b + 256 * n) bs 0"

definition to_bytes_le :: "nat \<Rightarrow> nat \<Rightarrow> nat list" where
  "to_bytes_le k n = map (\<lambda>i. drop_bit (8 * i) n mod 256) [0..<k]"

lemma length_to_bytes_le [simp]: "length (to_bytes_le k n) = k"
  by (simp add: to_bytes_le_def)

lemma bytes_le_simps [simp]: "bytes_le [] = 0" "bytes_le (b # bs) = b + 256 * bytes_le bs"
  by (simp_all add: bytes_le_def)

lemma to_bytes_le_Suc: "to_bytes_le (Suc k) n = n mod 256 # to_bytes_le k (n div 256)"
proof -
  have "drop_bit (8 * Suc i) n = drop_bit (8 * i) (n div 256)" for i
    by (simp add: drop_bit_eq_div power_add div_mult2_eq)
  then show ?thesis
    by (simp add: to_bytes_le_def upt_conv_Cons map_Suc_upt [symmetric] del: upt_Suc)
qed

lemma bytes_le_to_bytes: "bytes_le (to_bytes_le k n) = n mod 256 ^ k"
proof (induction k arbitrary: n)
  case 0
  show ?case by (simp add: to_bytes_le_def)
next
  case (Suc k)
  then show ?case by (simp add: to_bytes_le_Suc mod_mult2_eq)
qed

lemma to_bytes_le_bytes: "\<forall>b \<in> set bs. b < 256 \<Longrightarrow> to_bytes_le (length bs) (bytes_le bs) = bs"
  by (induction bs) (simp_all add: to_bytes_le_Suc, simp add: to_bytes_le_def)

lemma bytes_le_less: "\<forall>b \<in> set bs. b < 256 \<Longrightarrow> bytes_le bs < 256 ^ length bs"
  by (induction bs) auto

lemma bit_bytes_le:
  assumes "\<forall>b \<in> set bs. b < 256"
  shows "bit (bytes_le bs) i \<longleftrightarrow> i div 8 < length bs \<and> bit (bs ! (i div 8)) (i mod 8)"
  using assms
proof (induction bs arbitrary: i)
  case Nil
  then show ?case by simp
next
  case (Cons b bs)
  have "take_bit 8 (bytes_le (b # bs)) = b" "drop_bit 8 (bytes_le (b # bs)) = bytes_le bs"
    using Cons.prems by (simp_all add: take_bit_eq_mod drop_bit_eq_div)
  then have v: "bit (bytes_le (b # bs)) i \<longleftrightarrow> (if i < 8 then bit b i else bit (bytes_le bs) (i - 8))"
    using bit_take_bit_iff [of 8 "bytes_le (b # bs)" i] bit_drop_bit_eq [of 8 "bytes_le (b # bs)", THEN fun_cong, of "i - 8"]
    by (simp del: bytes_le_simps)
  show ?case
  proof (cases "i < 8")
    case True
    then show ?thesis by (simp add: v del: bytes_le_simps)
  next
    case False
    then have "i div 8 = Suc ((i - 8) div 8)" "i mod 8 = (i - 8) mod 8"
      by (simp_all add: le_div_geq le_mod_geq)
    with False Cons show ?thesis by (simp add: v del: bytes_le_simps)
  qed
qed

section \<open>Beats of a line\<close>

text \<open>\<open>(x >> width * i) & ((1 << width) - 1)\<close> and \<open>sum(v << (width * i) for i, v in enumerate(vs))\<close>.\<close>

definition lane :: "nat \<Rightarrow> nat \<Rightarrow> nat \<Rightarrow> nat" where
  "lane width i x = drop_bit (width * i) x AND (push_bit width 1 - 1)"

definition join_lanes :: "nat \<Rightarrow> nat list \<Rightarrow> nat" where
  "join_lanes width vs = sum_list (map (\<lambda>(i, v). push_bit (width * i) v) (enumerate 0 vs))"

lemma join_lanes_from:
  "sum_list (map (\<lambda>(i, v). push_bit (width * i) v) (enumerate (Suc k) vs)) =
   2 ^ width * sum_list (map (\<lambda>(i, v). push_bit (width * i) v) (enumerate k vs))" for vs :: "nat list"
  by (induction vs arbitrary: k) (simp_all add: push_bit_eq_mult power_add algebra_simps)

lemma join_lanes_simps [simp]:
  "join_lanes width [] = 0" "join_lanes width (v # vs) = v + 2 ^ width * join_lanes width vs"
  by (simp_all add: join_lanes_def join_lanes_from)

lemma lane_0: "lane width 0 x = x mod 2 ^ width"
  unfolding lane_def nat_and_mask by (simp add: take_bit_eq_mod)

lemma lane_Suc: "lane width (Suc i) x = lane width i (x div 2 ^ width)"
  by (simp add: lane_def drop_bit_eq_div power_add div_mult2_eq)

lemma lane_join:
  "\<forall>v \<in> set vs. v < 2 ^ width \<Longrightarrow> i < length vs \<Longrightarrow> lane width i (join_lanes width vs) = vs ! i"
  by (induction vs arbitrary: i) (auto simp: lane_0 lane_Suc less_Suc_eq_0_disj)

lemma join_lane: "join_lanes width (map (\<lambda>i. lane width i x) [0..<n]) = x mod 2 ^ (width * n)"
proof (induction n arbitrary: x)
  case 0
  show ?case by simp
next
  case (Suc n)
  have "map (\<lambda>i. lane width i x) [0..<Suc n] = lane width 0 x # map (\<lambda>i. lane width i (x div 2 ^ width)) [0..<n]"
    by (simp add: upt_conv_Cons map_Suc_upt [symmetric] lane_Suc comp_def del: upt_Suc)
  then show ?case by (simp add: Suc lane_0 mod_mult2_eq power_add)
qed

section \<open>The mask codec of the backend tests\<close>

text \<open>
  \<open>(mask & -mask).bit_length() - 1\<close>: the lowest set bit of the mask, -1 for an empty mask. A negative
  shift count raises \<open>ValueError\<close>.
\<close>

definition l3_shift :: "nat \<Rightarrow> int" where
  "l3_shift msk = int (bit_length (nat (int msk AND - int msk))) - 1"

fun l3_codec_from :: "(string \<Rightarrow> nat) \<Rightarrow> int \<Rightarrow> (string \<times> int) list \<Rightarrow> int py" where
  "l3_codec_from fmt result [] = Inr result"
| "l3_codec_from fmt result ((f, v) # fs) =
     (let msk = fmt f; shift = l3_shift msk in
      if v < 0 then Inl AssertionError
      else if shift < 0 then Inl ValueError
      else if push_bit (nat shift) v AND NOT (int msk) \<noteq> 0 then Inl AssertionError
      else l3_codec_from fmt (result OR push_bit (nat shift) v) fs)"

definition l3_codec :: "(string \<Rightarrow> nat) \<Rightarrow> (string \<times> int) list \<Rightarrow> int py" where
  "l3_codec fmt fs = l3_codec_from fmt 0 fs"

definition l3_field :: "(string \<Rightarrow> nat) \<Rightarrow> int \<Rightarrow> string \<Rightarrow> int py" where
  "l3_field fmt raw f =
     (let msk = fmt f; shift = l3_shift msk in
      if shift < 0 then Inl ValueError else Inr (drop_bit (nat shift) (raw AND int msk)))"

text \<open>\<open>bundle\<close> and \<open>unbundle\<close> on a port of a given bit length.\<close>

definition l3_bundle :: "nat \<Rightarrow> nat list \<Rightarrow> nat py" where
  "l3_bundle port_len vs =
     (if length vs = 0 then Inl ZeroDivisionError
      else Inr (sum_list (map (\<lambda>(n, v). push_bit (n * (port_len div length vs)) v) (enumerate 0 vs))))"

definition l3_unbundle :: "nat \<Rightarrow> nat \<Rightarrow> nat \<Rightarrow> nat list py" where
  "l3_unbundle port_len raw count =
     (if count = 0 then Inl ZeroDivisionError
      else let width = port_len div count in
        Inr (map (\<lambda>n. drop_bit (n * width) raw AND (push_bit width 1 - 1)) [0..<count]))"

text \<open>The lowest set bit.\<close>

lemma low_bit_exp:
  "0 < x \<Longrightarrow> \<exists>k. int x AND - int x = 2 ^ k \<and> bit x k \<and> (\<forall>i < k. \<not> bit x i)"
proof (induction x rule: less_induct)
  case (less x)
  show ?case
  proof (cases "even x")
    case True
    then obtain m where m: "x = 2 * m" by blast
    with less.prems less.IH [of m] obtain k where k: "int m AND - int m = 2 ^ k" "bit m k" "\<forall>i < k. \<not> bit m i" by auto
    have "int x AND - int x = push_bit 1 (int m) AND push_bit 1 (- int m)"
      by (simp add: m push_bit_eq_mult mult.commute)
    also have "\<dots> = push_bit 1 (2 ^ k)" by (simp only: push_bit_and [symmetric] k(1))
    finally have "int x AND - int x = 2 ^ Suc k" by (simp add: push_bit_eq_mult)
    moreover have "bit x (Suc k)" using k(2) by (simp add: m bit_double_iff)
    moreover have "\<not> bit x i" if "i < Suc k" for i using that k(3) by (cases i) (simp_all add: m bit_0 bit_Suc)
    ultimately show ?thesis by blast
  next
    case False
    then obtain m where m: "x = Suc (2 * m)" by (auto elim: oddE)
    have "int x AND - int x = 1"
    proof (rule bit_eqI)
      fix i
      have n: "- int x = 1 + 2 * NOT (int m)" and p: "int x = 1 + 2 * int m" by (simp_all add: m not_int_def)
      have "bit (int x AND - int x) i \<longleftrightarrow> bit (1 + 2 * int m) i \<and> bit (1 + 2 * NOT (int m)) i"
        unfolding bit_and_iff n unfolding p ..
      then show "bit (int x AND - int x) i = bit (1::int) i"
        by (cases i) (simp_all add: bit_0 bit_Suc bit_not_iff bit_1_iff)
    qed
    with False show ?thesis by (intro exI [of _ 0]) (simp add: bit_0)
  qed
qed

lemma l3_shift_pos:
  assumes "0 < msk"
  obtains k where "l3_shift msk = int k" "bit msk k" "\<forall>i < k. \<not> bit msk i"
proof -
  from low_bit_exp [OF assms] obtain k where
    k: "int msk AND - int msk = 2 ^ k" "bit msk k" "\<forall>i < k. \<not> bit msk i" by blast
  then have "l3_shift msk = int k" by (simp add: l3_shift_def nat_power_eq)
  with k that show thesis by blast
qed

lemma l3_shift_0: "l3_shift 0 = -1"
  by (simp add: l3_shift_def)

lemma l3_shift_neg_iff: "l3_shift msk < 0 \<longleftrightarrow> msk = 0"
  by (cases "msk = 0") (auto simp: l3_shift_0 elim: l3_shift_pos)

text \<open>An encoded field stays inside its mask.\<close>

lemma l3_inside: "(x::int) AND NOT (int m) = 0 \<longleftrightarrow> (\<forall>i. bit x i \<longrightarrow> bit m i)"
  by (auto simp: bit_eq_iff bit_and_iff bit_not_iff bit_of_nat_iff_bit)

lemma l3_codec_from_bits:
  assumes "l3_codec_from fmt r0 fs = Inr r"
  shows "(\<forall>(f, v) \<in> set fs. 0 < fmt f \<and> 0 \<le> v \<and> (\<forall>i. bit (push_bit (nat (l3_shift (fmt f))) v) i \<longrightarrow> bit (fmt f) i)) \<and>
    (\<forall>i. bit r i \<longleftrightarrow> bit r0 i \<or> (\<exists>(f, v) \<in> set fs. bit (push_bit (nat (l3_shift (fmt f))) v) i))"
  using assms
proof (induction fmt r0 fs rule: l3_codec_from.induct)
  case (1 fmt result)
  then show ?case by simp
next
  case (2 fmt result f v fs)
  let ?x = "push_bit (nat (l3_shift (fmt f))) v"
  from "2.prems" have v: "0 \<le> v" "0 < fmt f" "?x AND NOT (int (fmt f)) = 0"
    and r: "l3_codec_from fmt (result OR ?x) fs = Inr r"
    by (auto simp: Let_def l3_shift_neg_iff split: if_splits)
  have "\<not> v < 0" "\<not> l3_shift (fmt f) < 0" "\<not> ?x AND NOT (int (fmt f)) \<noteq> 0"
    using v by (simp_all add: l3_shift_neg_iff)
  from "2.IH" [OF refl refl this r] v show ?case
    by (auto simp: l3_inside bit_or_iff)
qed

text \<open>The codec accepts exactly the fields that fit their masks, and fields with pairwise disjoint masks read
  back from the word it builds.\<close>

theorem l3_codec_field:
  assumes "l3_codec fmt fs = Inr r" "distinct (map fst fs)"
    "\<forall>f \<in> fst ` set fs. \<forall>g \<in> fst ` set fs. f \<noteq> g \<longrightarrow> fmt f AND fmt g = 0" "(f, v) \<in> set fs"
  shows "l3_field fmt r f = Inr v"
proof -
  let ?s = "\<lambda>f. nat (l3_shift (fmt f))"
  have in_mask: "\<And>g w i. (g, w) \<in> set fs \<Longrightarrow> bit (push_bit (?s g) w) i \<Longrightarrow> bit (fmt g) i"
    and pos: "0 < fmt f"
    and bits: "\<And>i. bit r i \<longleftrightarrow> (\<exists>(g, w) \<in> set fs. bit (push_bit (?s g) w) i)"
    using l3_codec_from_bits [OF assms(1) [unfolded l3_codec_def]] assms(4) by auto
  have "bit (r AND int (fmt f)) i \<longleftrightarrow> bit (push_bit (?s f) v) i" for i
  proof
    assume "bit (r AND int (fmt f)) i"
    then obtain g w where g: "(g, w) \<in> set fs" "bit (push_bit (?s g) w) i" "bit (fmt f) i"
      by (auto simp: bits bit_and_iff bit_of_nat_iff_bit)
    then have "bit (fmt g AND fmt f) i" using in_mask by (simp add: bit_and_iff)
    then have "fmt g AND fmt f \<noteq> 0" by (metis bit_0_eq bot_apply bot_bool_def)
    with g assms(3,4) have "g = f" by force
    with g assms(2,4) have "w = v" by (metis eq_key_imp_eq_value)
    with g \<open>g = f\<close> show "bit (push_bit (?s f) v) i" by simp
  next
    assume "bit (push_bit (?s f) v) i"
    with assms(4) in_mask [OF assms(4)] show "bit (r AND int (fmt f)) i"
      by (auto simp: bits bit_and_iff bit_of_nat_iff_bit)
  qed
  then have "r AND int (fmt f) = push_bit (?s f) v" by (rule bit_eqI)
  with pos show ?thesis by (simp add: l3_field_def Let_def l3_shift_neg_iff drop_bit_push_bit)
qed

text \<open>Bundling values that fit the lane width and unbundling the port gives the values back.\<close>

theorem l3_bundle_unbundle:
  assumes "vs \<noteq> []" "\<forall>v \<in> set vs. v < 2 ^ (port_len div length vs)"
  shows "\<exists>raw. l3_bundle port_len vs = Inr raw \<and> l3_unbundle port_len raw (length vs) = Inr vs"
proof -
  let ?w = "port_len div length vs"
  have "l3_bundle port_len vs = Inr (join_lanes ?w vs)"
    using assms(1) by (simp add: l3_bundle_def join_lanes_def mult.commute)
  moreover have "l3_unbundle port_len (join_lanes ?w vs) (length vs) = Inr (map (\<lambda>n. lane ?w n (join_lanes ?w vs)) [0..<length vs])"
    using assms(1) by (simp add: l3_unbundle_def Let_def lane_def mult.commute)
  moreover have "map (\<lambda>n. lane ?w n (join_lanes ?w vs)) [0..<length vs] = vs"
    using assms(2) by (intro nth_equalityI) (simp_all add: lane_join)
  ultimately show ?thesis by simp
qed

section \<open>Witnesses\<close>

definition l3_demo_fmt :: "string \<Rightarrow> nat" where
  "l3_demo_fmt f = (if f = ''pc'' then 0xF0 else if f = ''valid'' then 8 else if f = ''op'' then 7 else 0)"

theorem l3_codec_field_witness:
  "\<exists>r. l3_codec l3_demo_fmt [(''pc'', 5), (''op'', 3), (''valid'', 1)] = Inr r \<and> l3_field l3_demo_fmt r ''op'' = Inr 3"
proof -
  have c: "l3_codec l3_demo_fmt [(''pc'', 5), (''op'', 3), (''valid'', 1)] = Inr 0x5B"
    by code_simp
  have d: "\<forall>f \<in> fst ` set [(''pc'', 5), (''op'', 3), (''valid'', 1::int)].
      \<forall>g \<in> fst ` set [(''pc'', 5), (''op'', 3), (''valid'', 1::int)]. f \<noteq> g \<longrightarrow> l3_demo_fmt f AND l3_demo_fmt g = 0"
    by code_simp
  show ?thesis using c l3_codec_field [OF c _ d, of "''op''" 3] by simp
qed

theorem l3_bundle_unbundle_witness:
  "\<exists>raw. l3_bundle 12 [1, 2, 15] = Inr raw \<and> l3_unbundle 12 raw 3 = Inr [1, 2, 15]"
proof -
  have "\<forall>v \<in> set [1, 2, 15]. v < (2::nat) ^ (12 div length [1, 2, 15::nat])" by simp
  moreover have "length [1, 2, 15::nat] = 3" by simp
  ultimately show ?thesis using l3_bundle_unbundle [of "[1, 2, 15]" 12] by (metis list.distinct(1))
qed

end
