(* ===== verification/Mem_Agents.thy ===== *)
theory Mem_Agents
  imports Clocked Link_Codec "HOL-Library.AList"
begin

text \<open>
  The agents around the home node of the L2: \<open>sim/cocotb/l2_home/mem_agents.py\<close>, class \<open>Bench\<close>. It plays the
  L1D client (permissions, copies, evictions, probe answers), the instruction and DMA clients and the
  AXI memory, and checks every handshake of the hardware against the protocol. A tick here takes what
  the hardware drives (\<open>bench_dut\<close>) and the choices of the random generator (\<open>bench_rng\<close>) as inputs
  and is otherwise the code's: first the bench drives its pins, then it samples the handshakes in the
  code's order. A failed \<open>check\<close> is \<open>Inl AssertionError\<close>. Clients are 0 (L1D), 1 (L1I) and 2 (DMA);
  the three-element lists indexed by client are functions. The log (\<open>note\<close>, \<open>trace\<close>, \<open>events\<close>) is left
  out: nothing reads it.
\<close>

section \<open>Data\<close>

abbreviation (input) GETS :: nat where "GETS \<equiv> 0"
abbreviation (input) GETM :: nat where "GETM \<equiv> 1"
abbreviation (input) READ_LINE :: nat where "READ_LINE \<equiv> 2"
abbreviation (input) MASKWRITE :: nat where "MASKWRITE \<equiv> 3"

abbreviation (input) PUT :: nat where "PUT \<equiv> 0"
abbreviation (input) INVACK :: nat where "INVACK \<equiv> 1"
abbreviation (input) DOWNACK :: nat where "DOWNACK \<equiv> 2"

abbreviation (input) DATAS :: nat where "DATAS \<equiv> 0"
abbreviation (input) DATAE :: nat where "DATAE \<equiv> 1"
abbreviation (input) ACKE :: nat where "ACKE \<equiv> 2"
abbreviation (input) PUTACK :: nat where "PUTACK \<equiv> 3"
abbreviation (input) READDATA :: nat where "READDATA \<equiv> 4"
abbreviation (input) WRITEACK :: nat where "WRITEACK \<equiv> 5"

record txn =
  tx_op :: nat
  tx_line :: nat
  tx_tid :: nat
  tx_start :: nat
  tx_error :: bool
  tx_accepted :: bool
  tx_mask :: nat
  tx_data :: nat

text \<open>The state of a copy (\<open>copies\<close>; \<open>'I'\<close> is the default of a missing entry) and of a permission (\<open>held\<close>).\<close>

datatype copy_state = CI | CS | CE | CM

datatype hold = HS | HX

text \<open>The monitor outputs of the hardware that are read after the clock edge.\<close>

record bench_mon =
  mn_valid :: nat
  mn_sharer :: nat
  mn_state :: nat
  mn_addr :: nat
  mn_slot_busy :: bool

type_synonym up_entry = "nat \<times> bool \<times> nat \<times> nat \<times> nat"

record bench =
  b_cycle :: nat
  b_arch :: "nat \<rightharpoonup> nat"
  b_ram :: "nat \<rightharpoonup> nat"
  b_history :: "nat \<Rightarrow> (nat \<times> nat) list"
  b_copies :: "nat \<rightharpoonup> copy_state \<times> nat"
  b_held :: "(nat \<times> hold) list"
  b_present :: "nat \<Rightarrow> txn option"
  b_out :: "nat \<Rightarrow> (nat \<times> txn) list"
  b_done :: "(nat \<times> txn \<times> nat \<times> nat \<times> nat) list"
  b_i_script :: "nat list"
  b_dma_script :: "(nat \<times> nat \<times> nat \<times> nat) list"
  b_i_done :: nat
  b_dma_done :: nat
  b_puts :: "(nat \<times> nat \<times> bool) list"
  b_upq :: "up_entry list"
  b_probe :: "(nat \<times> nat \<times> nat \<times> nat) option"
  b_readq :: "(nat \<times> nat \<times> nat \<times> nat \<times> nat) list"
  b_rhold :: "(nat \<times> nat \<times> nat \<times> nat) option"
  b_awq :: "(nat \<times> nat) list"
  b_wq :: "(nat \<times> nat) list"
  b_bq :: "(nat \<times> nat) list"
  b_bhold :: "nat option"
  b_stalled :: "nat list option list"
  b_reads :: "nat list"
  b_writes :: "(nat \<times> nat) list"
  b_slot_full :: nat
  b_mon :: bench_mon

text \<open>What the tests set (\<open>seed\<close>, geometry, delays, injected errors), which may change between ticks.\<close>

record bench_cfg =
  bc_sets :: nat
  bc_ways :: nat
  bc_errors :: "nat list"
  bc_block_r :: bool
  bc_response_ready :: "nat \<Rightarrow> bool option"
  bc_probe_delay :: nat
  bc_backpressure :: bool
  bc_dma_enabled :: bool

text \<open>The outcomes of the random generator in one tick: each \<open>rng.random() < .7\<close>, the index of \<open>rng.choice\<close>, the
  two \<open>randrange\<close> delays.\<close>

record bench_rng =
  rg_resp :: "nat \<Rightarrow> bool"
  rg_snp :: bool
  rg_ar :: bool
  rg_aw :: bool
  rg_w :: bool
  rg_r :: bool
  rg_pick :: nat
  rg_rdelay :: nat
  rg_bdelay :: nat

text \<open>What the hardware drives in one tick.\<close>

record bench_dut =
  v_resp_valid :: "nat \<Rightarrow> bool"
  v_resp :: "nat \<Rightarrow> nat"
  v_req_ready :: "nat \<Rightarrow> bool"
  v_up_ready :: bool
  v_snp_valid :: bool
  v_snp :: nat
  v_arvalid :: bool
  v_ar :: "nat \<times> nat \<times> nat \<times> nat \<times> nat"
  v_awvalid :: bool
  v_aw :: "nat \<times> nat \<times> nat \<times> nat \<times> nat"
  v_wvalid :: bool
  v_w :: "nat \<times> nat \<times> nat"
  v_rready :: bool
  v_bready :: bool
  v_fatal :: nat
  v_mon_slot_full :: nat
  v_mon :: bench_mon

text \<open>What the bench drives: the ready signals and the words it presents.\<close>

record bench_pins =
  pn_resp_ready :: "nat \<Rightarrow> bool"
  pn_req :: "nat option list"
  pn_up :: "nat option"
  pn_snp_ready :: bool
  pn_arready :: bool
  pn_awready :: bool
  pn_wready :: bool
  pn_r :: "(nat \<times> nat \<times> nat \<times> nat) option"
  pn_b :: "nat option"

section \<open>The golden memory and the L1D operations\<close>

definition bench_init :: bench where
  "bench_init = \<lparr>b_cycle = 0, b_arch = Map.empty, b_ram = Map.empty, b_history = (\<lambda>_. []),
     b_copies = Map.empty, b_held = [], b_present = (\<lambda>_. None), b_out = (\<lambda>_. []), b_done = [],
     b_i_script = [], b_dma_script = [], b_i_done = 0, b_dma_done = 0, b_puts = [], b_upq = [],
     b_probe = None, b_readq = [], b_rhold = None, b_awq = [], b_wq = [], b_bq = [], b_bhold = None,
     b_stalled = replicate 7 None, b_reads = [], b_writes = [], b_slot_full = 0,
     b_mon = \<lparr>mn_valid = 0, mn_sharer = 0, mn_state = 0, mn_addr = 0, mn_slot_busy = False\<rparr>\<rparr>"

definition bench_initial :: "nat \<Rightarrow> nat \<Rightarrow> nat" where
  "bench_initial seed line = bytes_le (map (\<lambda>i. (line * 17 + i * 29 + seed) AND 255) [0..<64])"

definition bench_golden :: "nat \<Rightarrow> bench \<Rightarrow> nat \<Rightarrow> nat" where
  "bench_golden seed s line = (case b_arch s line of None \<Rightarrow> bench_initial seed line | Some d \<Rightarrow> d)"

definition bench_backing :: "nat \<Rightarrow> bench \<Rightarrow> nat \<Rightarrow> nat" where
  "bench_backing seed s line = (case b_ram s line of None \<Rightarrow> bench_initial seed line | Some d \<Rightarrow> d)"

definition bench_log :: "nat \<Rightarrow> nat \<Rightarrow> bench \<Rightarrow> bench" where
  "bench_log line d s = s\<lparr>b_arch := (b_arch s)(line \<mapsto> d),
     b_history := (b_history s)(line := b_history s line @ [(b_cycle s, d)])\<rparr>"

definition bench_store :: "nat \<Rightarrow> nat \<Rightarrow> nat \<Rightarrow> nat \<Rightarrow> nat \<Rightarrow> bench \<Rightarrow> bench py" where
  "bench_store seed line offset sz val s =
     (case b_copies s line of
        None \<Rightarrow> Inl KeyError
      | Some (state, d) \<Rightarrow>
          py_bind (py_assert (state = CE \<or> state = CM)) (\<lambda>_.
          py_bind (py_assert (d = bench_golden seed s line)) (\<lambda>_.
            let msk = push_bit (8 * offset) (push_bit (8 * sz) 1 - 1);
                d' = and_not d msk OR (push_bit (8 * offset) val AND msk)
            in Inr (bench_log line d' (s\<lparr>b_copies := (b_copies s)(line \<mapsto> (CM, d'))\<rparr>)))))"

definition bench_submit ::
  "nat \<Rightarrow> nat \<Rightarrow> nat \<Rightarrow> nat option \<Rightarrow> bool \<Rightarrow> nat \<Rightarrow> nat \<Rightarrow> bench \<Rightarrow> bench py" where
  "bench_submit client op line tid0 err msk d s =
     py_bind (py_assert (b_present s client = None)) (\<lambda>_.
     py_bind (case tid0 of
                Some tid \<Rightarrow> Inr tid
              | None \<Rightarrow> (case find (\<lambda>i. i \<notin> fst ` set (b_out s client)) [0..<4] of
                          None \<Rightarrow> Inl StopIteration | Some tid \<Rightarrow> Inr tid)) (\<lambda>tid.
     py_bind (py_assert (tid \<notin> fst ` set (b_out s client))) (\<lambda>_.
     py_bind (py_assert (length (b_out s client) < 4)) (\<lambda>_.
     py_bind (py_assert (client \<noteq> 2 \<or> (b_out s 2 = [] \<and> tid = 0))) (\<lambda>_.
       Inr (s\<lparr>b_present := (b_present s)(client := Some
          \<lparr>tx_op = op, tx_line = line, tx_tid = tid, tx_start = b_cycle s, tx_error = err,
           tx_accepted = False, tx_mask = msk, tx_data = d\<rparr>)\<rparr>))))))"

definition bench_pending :: "bench \<Rightarrow> nat \<Rightarrow> txn list" where
  "bench_pending s c = (case b_present s c of None \<Rightarrow> [] | Some t \<Rightarrow> [t]) @ map snd (b_out s c)"

text \<open>A get or a put of the L1D is in flight on the line (the condition of line 219).\<close>

definition bench_l1_busy :: "bench \<Rightarrow> nat \<Rightarrow> bool" where
  "bench_l1_busy s line \<longleftrightarrow>
     list_ex (\<lambda>(_, t). tx_line t = line) (b_out s 0) \<or> list_ex (\<lambda>(_, l, _). l = line) (b_puts s)"

definition bench_line_busy :: "bench \<Rightarrow> nat \<Rightarrow> bool" where
  "bench_line_busy s line \<longleftrightarrow>
     (case b_probe s of None \<Rightarrow> False | Some (_, _, l, _) \<Rightarrow> l = line) \<or> bench_l1_busy s line
     \<or> list_ex (\<lambda>t. tx_line t = line) (bench_pending s 2)"

definition bench_evict :: "nat \<Rightarrow> nat \<Rightarrow> bench \<Rightarrow> bench py" where
  "bench_evict line tid s =
     (case b_copies s line of
        None \<Rightarrow> Inl KeyError
      | Some (state, d) \<Rightarrow>
          py_bind (py_assert (tid \<notin> fst ` set (b_puts s))) (\<lambda>_.
            Inr (s\<lparr>b_puts := AList.update tid (line, False) (b_puts s),
                   b_upq := b_upq s @ [(PUT, state = CM, line, tid, d)]\<rparr>)))"

text \<open>\<open>acquire\<close> once the line is free: nothing when the copy suffices, else a get.\<close>

definition bench_acquire :: "nat \<Rightarrow> bool \<Rightarrow> bool \<Rightarrow> bench \<Rightarrow> bench py" where
  "bench_acquire line wr err s =
     (let state = (case b_copies s line of None \<Rightarrow> CI | Some (st, _) \<Rightarrow> st) in
      if state = CE \<or> state = CM \<or> (state = CS \<and> \<not> wr) then Inr s
      else bench_submit 0 (if wr then GETM else GETS) line None err 0 0 s)"

section \<open>Driving the pins\<close>

text \<open>Instruction reads of a line wait for a DMA write of it.\<close>

definition bench_issue_i :: "bench \<Rightarrow> bench py" where
  "bench_issue_i s =
     (case b_i_script s of
        [] \<Rightarrow> Inr s
      | line # rest \<Rightarrow>
          if b_present s 1 = None \<and> length (b_out s 1) < 4 \<and>
             \<not> list_ex (\<lambda>t. tx_op t = MASKWRITE \<and> tx_line t = line) (bench_pending s 2)
          then bench_submit 1 READ_LINE line None False 0 0 (s\<lparr>b_i_script := rest\<rparr>) else Inr s)"

definition bench_issue_dma :: "bench \<Rightarrow> bench py" where
  "bench_issue_dma s =
     (case b_dma_script s of
        [] \<Rightarrow> Inr s
      | (op, line, msk, d) # rest \<Rightarrow>
          if b_present s 2 = None \<and> b_out s 2 = [] \<and> \<not> bench_line_busy s line \<and>
             \<not> (op = MASKWRITE \<and> list_ex (\<lambda>t. tx_line t = line) (bench_pending s 1))
          then bench_submit 2 op line (Some 0) False msk d (s\<lparr>b_dma_script := rest\<rparr>) else Inr s)"

text \<open>A probe is answered when it is due, no answer or put is queued and no get or put of the line is in flight.\<close>

definition bench_answer :: "bench \<Rightarrow> bench py" where
  "bench_answer s =
     (case b_probe s of
        None \<Rightarrow> Inr s
      | Some (op, owner, line, due) \<Rightarrow>
          if due \<le> b_cycle s \<and> b_upq s = [] \<and> \<not> bench_l1_busy s line then
            let (state, d) = (case b_copies s line of None \<Rightarrow> (CI, 0) | Some x \<Rightarrow> x) in
            py_bind (py_assert (\<not> (state = CE \<or> state = CM) \<or> owner \<noteq> 0)) (\<lambda>_.
            py_bind (py_assert (state \<noteq> CS \<or> owner = 0)) (\<lambda>_.
              Inr (s\<lparr>b_upq := b_upq s @ [(if op = 0 then INVACK else DOWNACK, state = CM, line, 0, d)]\<rparr>)))
          else Inr s)"

definition bench_chance :: "bench_cfg \<Rightarrow> bool \<Rightarrow> bool" where
  "bench_chance cfg r \<longleftrightarrow> \<not> bc_backpressure cfg \<or> r"

text \<open>The read data channel: a due burst picked at random offers its next beat.\<close>

definition bench_drive_r :: "bench_cfg \<Rightarrow> bench_rng \<Rightarrow> bench \<Rightarrow> bench" where
  "bench_drive_r cfg r s =
     (if b_rhold s = None \<and> \<not> bc_block_r cfg \<and> bench_chance cfg (rg_r r) then
        let eligible = map fst (filter (\<lambda>(_, _, _, _, due). due \<le> b_cycle s) (b_readq s)) in
        if eligible = [] then s else
          let rid = eligible ! (rg_pick r mod length eligible) in
          (case map_of (b_readq s) rid of
             None \<Rightarrow> s
           | Some (line, d, beat, due) \<Rightarrow>
               s\<lparr>b_rhold := Some (rid, lane 128 beat d,
                  if line \<in> set (bc_errors cfg) \<and> beat = 1 then 2 else 0, of_bool (beat = 3))\<rparr>)
      else s)"

definition bench_drive_b :: "bench \<Rightarrow> bench" where
  "bench_drive_b s =
     (case b_bq s of
        [] \<Rightarrow> s
      | (due, wid) # rest \<Rightarrow>
          if b_bhold s = None \<and> due \<le> b_cycle s then s\<lparr>b_bhold := Some wid, b_bq := rest\<rparr> else s)"

definition bench_prepare :: "bench_cfg \<Rightarrow> bench_rng \<Rightarrow> bench \<Rightarrow> bench py" where
  "bench_prepare cfg r s =
     py_bind (bench_issue_i s) (\<lambda>s. py_bind (bench_issue_dma s) (\<lambda>s.
       py_bind (bench_answer s) (\<lambda>s. Inr (bench_drive_b (bench_drive_r cfg r s)))))"

text \<open>The words and ready signals of the prepared state; \<open>pack\<close> raises on a field out of range.\<close>

definition bench_req_pin :: "bench \<Rightarrow> nat \<Rightarrow> nat option py" where
  "bench_req_pin s c =
     (case b_present s c of
        None \<Rightarrow> Inr None
      | Some t \<Rightarrow> py_bind (link_req (tx_op t) (tx_line t) (tx_tid t) (tx_mask t) (tx_data t)) (\<lambda>w. Inr (Some w)))"

definition bench_up_pin :: "bench \<Rightarrow> nat option py" where
  "bench_up_pin s =
     (case b_upq s of
        [] \<Rightarrow> Inr None
      | (op, dirty, line, tid, d) # _ \<Rightarrow> py_bind (link_up op dirty line tid d) (\<lambda>w. Inr (Some w)))"

definition bench_drive :: "bench_cfg \<Rightarrow> bench_rng \<Rightarrow> bench \<Rightarrow> bench_pins py" where
  "bench_drive cfg r s =
     py_bind (bench_req_pin s 0) (\<lambda>q0. py_bind (bench_req_pin s 1) (\<lambda>q1. py_bind (bench_req_pin s 2) (\<lambda>q2.
     py_bind (bench_up_pin s) (\<lambda>u.
       Inr \<lparr>pn_resp_ready = (\<lambda>c. case bc_response_ready cfg c of
              Some b \<Rightarrow> b | None \<Rightarrow> \<not> bc_dma_enabled cfg \<or> bench_chance cfg (rg_resp r c)),
            pn_req = [q0, q1, q2], pn_up = u,
            pn_snp_ready = (b_probe s = None \<and> bench_chance cfg (rg_snp r)),
            pn_arready = bench_chance cfg (rg_ar r), pn_awready = bench_chance cfg (rg_aw r),
            pn_wready = bench_chance cfg (rg_w r), pn_r = b_rhold s, pn_b = b_bhold s\<rparr>))))"

section \<open>Sampling the handshakes\<close>

text \<open>A stalled channel keeps its valid and its bits. The seven channels in the code's order.\<close>

definition bench_channels :: "bench_pins \<Rightarrow> bench_dut \<Rightarrow> (bool \<times> bool \<times> nat list) list" where
  "bench_channels p v =
     (let five = (\<lambda>(a, b, c, d, e). [a, b, c, d, e]) in
      [(v_resp_valid v 2, pn_resp_ready p 2, [v_resp v 2]), (v_resp_valid v 0, pn_resp_ready p 0, [v_resp v 0]),
       (v_resp_valid v 1, pn_resp_ready p 1, [v_resp v 1]), (v_snp_valid v, pn_snp_ready p, [v_snp v]),
       (v_arvalid v, pn_arready p, five (v_ar v)), (v_awvalid v, pn_awready p, five (v_aw v)),
       (v_wvalid v, pn_wready p, (case v_w v of (d, strb, lst) \<Rightarrow> [d, strb, lst]))])"

fun bench_stall :: "(bool \<times> bool \<times> nat list) list \<Rightarrow> nat list option list \<Rightarrow> nat list option list py" where
  "bench_stall ((valid, ready, bits) # chans) (st # sts) =
     py_bind (py_assert (case st of None \<Rightarrow> True | Some old \<Rightarrow> valid \<and> bits = old)) (\<lambda>_.
     py_bind (bench_stall chans sts) (\<lambda>rest. Inr ((if valid \<and> \<not> ready then Some bits else None) # rest)))"
| "bench_stall _ _ = Inr []"

text \<open>A get response: the granted permission and data.\<close>

definition bench_grant :: "nat \<Rightarrow> txn \<Rightarrow> nat \<Rightarrow> nat \<Rightarrow> nat \<Rightarrow> bench \<Rightarrow> (nat \<times> bench) py" where
  "bench_grant seed t op err d s =
     (let line = tx_line t; st = map_of (b_held s) line in
      py_bind (py_assert (op \<in> {DATAS, DATAE, ACKE})) (\<lambda>_.
      py_bind (py_assert (tx_op t \<noteq> GETM \<or> op \<noteq> DATAS)) (\<lambda>_.
        if err \<noteq> 0 then Inr (d, s) else
        py_bind (if op = ACKE
                 then py_bind (py_assert (tx_op t = GETM \<and> st = Some HS)) (\<lambda>_.
                        case b_copies s line of None \<Rightarrow> Inl KeyError | Some (_, old) \<Rightarrow> Inr old)
                 else py_bind (py_assert (st = None)) (\<lambda>_. Inr d)) (\<lambda>d'.
        py_bind (py_assert (d' = bench_golden seed s line)) (\<lambda>_.
          Inr (d', s\<lparr>b_held := AList.update line (if op = DATAS then HS else HX) (b_held s),
                     b_copies := (b_copies s)(line \<mapsto> (if op = DATAS then CS else CE, d'))\<rparr>))))))"

text \<open>\<open>x.to_bytes(64, 'little')\<close> raises on an integer of more than 64 bytes.\<close>

definition py_line_bytes :: "nat \<Rightarrow> nat list py" where
  "py_line_bytes d = (if d < 256 ^ 64 then Inr (to_bytes_le 64 d) else Inl OverflowError)"

definition bench_merge :: "nat \<Rightarrow> nat list \<Rightarrow> nat list \<Rightarrow> nat list" where
  "bench_merge msk new old = map (\<lambda>i. if drop_bit i msk AND 1 \<noteq> 0 then new ! i else old ! i) [0..<64]"

text \<open>The acknowledgement of a DMA write, its linearization point.\<close>

definition bench_dma_ack :: "nat \<Rightarrow> txn \<Rightarrow> nat \<Rightarrow> nat \<Rightarrow> bench \<Rightarrow> bench py" where
  "bench_dma_ack seed t op err s =
     py_bind (py_assert (op = WRITEACK)) (\<lambda>_.
     py_bind (if err \<noteq> 0 then Inr s else
              py_bind (py_assert (map_of (b_held s) (tx_line t) = None)) (\<lambda>_.
              py_bind (py_line_bytes (bench_golden seed s (tx_line t))) (\<lambda>old.
              py_bind (py_line_bytes (tx_data t)) (\<lambda>new.
                Inr (bench_log (tx_line t) (bytes_le (bench_merge (tx_mask t) new old)) s))))) (\<lambda>s1.
       Inr (s1\<lparr>b_dma_done := b_dma_done s1 + 1\<rparr>)))"

text \<open>The values a read may return: the line's value when it was submitted, or one written since.\<close>

definition bench_legal_reads :: "nat \<Rightarrow> (nat \<times> nat) list \<Rightarrow> nat \<Rightarrow> nat \<Rightarrow> nat list" where
  "bench_legal_reads init hist start now =
     (let prior = map snd (filter (\<lambda>(cycle, _). cycle \<le> start) hist) in
      (if prior \<noteq> [] then last prior else init)
      # map snd (filter (\<lambda>(cycle, _). start < cycle \<and> cycle \<le> now) hist))"

definition bench_read_data :: "nat \<Rightarrow> nat \<Rightarrow> txn \<Rightarrow> nat \<Rightarrow> nat \<Rightarrow> nat \<Rightarrow> bench \<Rightarrow> bench py" where
  "bench_read_data seed c t op err d s =
     py_bind (py_assert (op = READDATA)) (\<lambda>_.
     py_bind (if err \<noteq> 0 then Inr () else
              py_bind (py_assert (d \<in> set (bench_legal_reads (bench_initial seed (tx_line t))
                          (b_history s (tx_line t)) (tx_start t) (b_cycle s)))) (\<lambda>_.
                py_assert (map_of (b_held s) (tx_line t) \<noteq> Some HX))) (\<lambda>_.
       Inr (if c = 1 then s\<lparr>b_i_done := b_i_done s + 1\<rparr> else s\<lparr>b_dma_done := b_dma_done s + 1\<rparr>)))"

definition bench_finish_txn :: "nat \<Rightarrow> txn \<Rightarrow> nat \<Rightarrow> nat \<Rightarrow> nat \<Rightarrow> bench \<Rightarrow> bench" where
  "bench_finish_txn c t op err d s = s\<lparr>b_done := b_done s @ [(c, t, op, err, d)]\<rparr>"

definition bench_response :: "nat \<Rightarrow> bench_pins \<Rightarrow> bench_dut \<Rightarrow> nat \<Rightarrow> bench \<Rightarrow> bench py" where
  "bench_response seed p v c s =
     (if v_resp_valid v c \<and> pn_resp_ready p c then
        let (op, tid, err, d) = link_response (v_resp v c) in
        if c = 0 \<and> op = PUTACK then
          (case map_of (b_puts s) tid of
             Some (_, True) \<Rightarrow> Inr (s\<lparr>b_puts := AList.delete tid (b_puts s)\<rparr>)
           | _ \<Rightarrow> Inl AssertionError)
        else (case map_of (b_out s c) tid of
            None \<Rightarrow> Inl AssertionError
          | Some t \<Rightarrow>
              let s1 = s\<lparr>b_out := (b_out s)(c := AList.delete tid (b_out s c))\<rparr> in
              py_bind (py_assert ((err \<noteq> 0) = tx_error t)) (\<lambda>_.
                if c = 0 then
                  py_bind (bench_grant seed t op err d s1) (\<lambda>(d', s2). Inr (bench_finish_txn c t op err d' s2))
                else if c = 2 \<and> tx_op t = MASKWRITE then
                  py_bind (bench_dma_ack seed t op err s1) (\<lambda>s2. Inr (bench_finish_txn c t op err d s2))
                else
                  py_bind (bench_read_data seed c t op err d s1) (\<lambda>s2. Inr (bench_finish_txn c t op err d s2))))
      else Inr s)"

text \<open>The acceptance of the up channel's head: a put or a probe answer.\<close>

definition bench_up :: "bench_dut \<Rightarrow> bench \<Rightarrow> bench py" where
  "bench_up v s =
     (case b_upq s of
        [] \<Rightarrow> Inr s
      | (op, dirty, line, tid, d) # rest \<Rightarrow>
          if \<not> v_up_ready v then Inr s else
          let s1 = s\<lparr>b_upq := rest\<rparr>; st = map_of (b_held s) line in
          py_bind (py_assert (\<not> dirty \<or> st = Some HX)) (\<lambda>_.
            if op = PUT then
              py_bind (py_assert (st \<noteq> None)) (\<lambda>_.
                case b_copies s line of
                  None \<Rightarrow> Inl KeyError
                | Some _ \<Rightarrow> Inr (s1\<lparr>b_held := AList.delete line (b_held s), b_copies := (b_copies s)(line := None),
                                   b_puts := AList.update tid (line, True) (b_puts s)\<rparr>))
            else (case b_probe s of
                None \<Rightarrow> Inl AssertionError
              | Some (pop, _, pline, _) \<Rightarrow>
                  py_bind (py_assert (pline = line)) (\<lambda>_.
                  py_bind (py_assert (op = (if pop = 0 then INVACK else DOWNACK))) (\<lambda>_.
                    Inr ((if op = INVACK
                          then s1\<lparr>b_held := AList.delete line (b_held s), b_copies := (b_copies s)(line := None)\<rparr>
                          else if st \<noteq> None
                          then s1\<lparr>b_held := AList.update line HS (b_held s),
                                  b_copies := (b_copies s)(line \<mapsto> (CS, d))\<rparr>
                          else s1)\<lparr>b_probe := None\<rparr>)))))) "

definition bench_snoop :: "bench_cfg \<Rightarrow> bench_pins \<Rightarrow> bench_dut \<Rightarrow> bench \<Rightarrow> bench py" where
  "bench_snoop cfg p v s =
     (if v_snp_valid v \<and> pn_snp_ready p then
        let (line, dma_write, owner, op) = link_snoop (v_snp v);
            expected = (op = 0 \<and> list_ex (\<lambda>(_, t). tx_op t = MASKWRITE \<and> tx_line t = line) (b_out s 2)) in
        py_bind (py_assert (dma_write = of_bool expected)) (\<lambda>_.
        py_bind (py_assert (b_probe s = None)) (\<lambda>_.
        py_bind (py_assert (op = 0 \<or> owner \<noteq> 0)) (\<lambda>_.
          Inr (s\<lparr>b_probe := Some (op, owner, line, b_cycle s + 1 + bc_probe_delay cfg)\<rparr>))))
      else Inr s)"

definition bench_accept :: "bench_dut \<Rightarrow> nat \<Rightarrow> bench \<Rightarrow> bench py" where
  "bench_accept v c s =
     (case b_present s c of
        None \<Rightarrow> Inr s
      | Some t \<Rightarrow>
          if \<not> v_req_ready v c then Inr s else
          let st = map_of (b_held s) (tx_line t) in
          py_bind (py_assert (tx_tid t \<notin> fst ` set (b_out s c))) (\<lambda>_.
          py_bind (py_assert (c = 0 \<longrightarrow> (if tx_op t = GETS then st = None else st \<noteq> Some HX))) (\<lambda>_.
          py_bind (py_assert (c = 0 \<longrightarrow> \<not> list_ex (\<lambda>(_, l, _). l = tx_line t) (b_puts s))) (\<lambda>_.
            Inr (s\<lparr>b_out := (b_out s)(c := AList.update (tx_tid t) (t\<lparr>tx_accepted := True\<rparr>) (b_out s c)),
                   b_present := (b_present s)(c := None)\<rparr>)))))"

section \<open>The AXI memory\<close>

definition bench_ar :: "nat \<Rightarrow> bench_rng \<Rightarrow> bench_pins \<Rightarrow> bench_dut \<Rightarrow> bench \<Rightarrow> bench py" where
  "bench_ar seed r p v s =
     (if v_arvalid v \<and> pn_arready p then
        let (rid, addr, len, sz, burst) = v_ar v in
        py_bind (py_assert (rid \<notin> fst ` set (b_readq s))) (\<lambda>_.
        py_bind (py_assert (addr mod 64 = 0 \<and> (len, sz, burst) = (3, 4, 1))) (\<lambda>_.
          Inr (s\<lparr>b_readq := AList.update rid (drop_bit 6 addr, bench_backing seed s (drop_bit 6 addr), 0,
                    b_cycle s + (1 + rg_rdelay r mod 12)) (b_readq s),
                 b_reads := b_reads s @ [drop_bit 6 addr]\<rparr>)))
      else Inr s)"

definition bench_r :: "bench_dut \<Rightarrow> bench \<Rightarrow> bench py" where
  "bench_r v s =
     (case b_rhold s of
        None \<Rightarrow> Inr s
      | Some (rid, _, _, lst) \<Rightarrow>
          if \<not> v_rready v then Inr s else
          (case map_of (b_readq s) rid of
             None \<Rightarrow> Inl KeyError
           | Some (line, d, beat, due) \<Rightarrow>
               Inr (s\<lparr>b_readq := (if lst \<noteq> 0 then AList.delete rid (b_readq s)
                                else AList.update rid (line, d, beat + 1, due) (b_readq s)),
                      b_rhold := None\<rparr>)))"

definition bench_aw :: "bench_pins \<Rightarrow> bench_dut \<Rightarrow> bench \<Rightarrow> bench py" where
  "bench_aw p v s =
     (if v_awvalid v \<and> pn_awready p then
        let (wid, addr, len, sz, burst) = v_aw v in
        py_bind (py_assert ((len, sz, burst) = (3, 4, 1))) (\<lambda>_.
          Inr (s\<lparr>b_awq := b_awq s @ [(wid, drop_bit 6 addr)]\<rparr>))
      else Inr s)"

definition bench_w :: "bench_pins \<Rightarrow> bench_dut \<Rightarrow> bench \<Rightarrow> bench py" where
  "bench_w p v s =
     (if v_wvalid v \<and> pn_wready p then
        let (d, strb, lst) = v_w v in
        py_bind (py_assert (strb = 0xFFFF)) (\<lambda>_. Inr (s\<lparr>b_wq := b_wq s @ [(d, lst)]\<rparr>))
      else Inr s)"

definition bench_commit :: "bench_rng \<Rightarrow> bench \<Rightarrow> bench py" where
  "bench_commit r s =
     (case b_awq s of
        [] \<Rightarrow> Inr s
      | (wid, line) # rest \<Rightarrow>
          if length (b_wq s) < 4 then Inr s else
          let beats = take 4 (b_wq s); d = join_lanes 128 (map fst beats) in
          py_bind (py_assert (map snd beats = [0, 0, 0, 1])) (\<lambda>_.
            Inr (s\<lparr>b_awq := rest, b_wq := drop 4 (b_wq s), b_ram := (b_ram s)(line \<mapsto> d),
                   b_writes := b_writes s @ [(line, d)],
                   b_bq := b_bq s @ [(b_cycle s + (2 + rg_bdelay r mod 13), wid)]\<rparr>)))"

definition bench_b :: "bench_dut \<Rightarrow> bench \<Rightarrow> bench" where
  "bench_b v s = (if b_bhold s \<noteq> None \<and> v_bready v then s\<lparr>b_bhold := None\<rparr> else s)"

section \<open>The tick\<close>

text \<open>The directory's valid entries have distinct tags; an entry has a state exactly when it has a sharer.\<close>

fun bench_directory_from :: "bench_mon \<Rightarrow> nat list \<Rightarrow> nat list \<Rightarrow> unit py" where
  "bench_directory_from m seen [] = Inr ()"
| "bench_directory_from m seen (k # ks) =
     (let state = drop_bit (k * 2) (mn_state m) AND 3; share = drop_bit k (mn_sharer m) AND 1 in
      py_bind (py_assert ((state = 0) = (share = 0))) (\<lambda>_.
        if drop_bit k (mn_valid m) AND 1 \<noteq> 0 then
          let line = drop_bit (k * 26) (mn_addr m) AND (push_bit 26 1 - 1) in
          py_bind (py_assert (line \<notin> set seen)) (\<lambda>_. bench_directory_from m (line # seen) ks)
        else bench_directory_from m seen ks))"

definition bench_directory_check :: "bench_cfg \<Rightarrow> bench_mon \<Rightarrow> unit py" where
  "bench_directory_check cfg m = bench_directory_from m [] [0..<bc_sets cfg * bc_ways cfg]"

text \<open>Everything sampled before the clock edge, in order.\<close>

definition bench_sample :: "nat \<Rightarrow> bench_cfg \<Rightarrow> bench_rng \<Rightarrow> bench_pins \<Rightarrow> bench_dut \<Rightarrow> bench \<Rightarrow> bench py" where
  "bench_sample seed cfg r p v s =
     py_bind (py_assert (v_fatal v = 0)) (\<lambda>_.
     py_bind (bench_stall (bench_channels p v) (b_stalled s)) (\<lambda>st.
     py_bind (bench_response seed p v 0
       (s\<lparr>b_slot_full := b_slot_full s + v_mon_slot_full v, b_stalled := st\<rparr>)) (\<lambda>s.
     py_bind (bench_response seed p v 1 s) (\<lambda>s.
     py_bind (bench_response seed p v 2 s) (\<lambda>s.
     py_bind (bench_up v s) (\<lambda>s.
     py_bind (bench_snoop cfg p v s) (\<lambda>s.
     py_bind (bench_accept v 0 s) (\<lambda>s.
     py_bind (bench_accept v 1 s) (\<lambda>s.
     py_bind (bench_accept v 2 s) (\<lambda>s.
     py_bind (bench_ar seed r p v s) (\<lambda>s.
     py_bind (bench_r v s) (\<lambda>s.
     py_bind (bench_aw p v s) (\<lambda>s.
     py_bind (bench_w p v s) (\<lambda>s.
     py_bind (bench_commit r s) (\<lambda>s.
       Inr (bench_b v s))))))))))))))))"

definition bench_tick :: "nat \<Rightarrow> bench_cfg \<Rightarrow> bench_rng \<Rightarrow> bench_dut \<Rightarrow> bench \<Rightarrow> bench py" where
  "bench_tick seed cfg r v s =
     py_bind (bench_prepare cfg r s) (\<lambda>s1.
     py_bind (bench_drive cfg r s1) (\<lambda>p.
     py_bind (bench_sample seed cfg r p v s1) (\<lambda>s2.
     py_bind (bench_directory_check cfg (v_mon v)) (\<lambda>_.
       Inr (s2\<lparr>b_cycle := b_cycle s2 + 1, b_mon := v_mon v\<rparr>)))))"

text \<open>\<open>until\<close>: at most as many ticks as inputs are given, the predicate being tested before each.\<close>

type_synonym tick_input = "bench_cfg \<times> bench_rng \<times> bench_dut"

fun bench_until :: "nat \<Rightarrow> (bench \<Rightarrow> bool) \<Rightarrow> tick_input list \<Rightarrow> bench \<Rightarrow> bench py" where
  "bench_until seed P [] s = Inl AssertionError"
| "bench_until seed P ((cfg, r, v) # is) s =
     (if P s then Inr s else py_bind (bench_tick seed cfg r v s) (bench_until seed P is))"

definition bench_idle :: "bench \<Rightarrow> bool" where
  "bench_idle s \<longleftrightarrow>
     b_present s 0 = None \<and> b_present s 1 = None \<and> b_present s 2 = None \<and>
     b_out s 0 = [] \<and> b_out s 1 = [] \<and> b_out s 2 = [] \<and> b_puts s = [] \<and> b_probe s = None \<and>
     b_upq s = [] \<and> b_readq s = [] \<and> b_rhold s = None \<and> b_awq s = [] \<and> b_wq s = [] \<and>
     b_bq s = [] \<and> b_bhold s = None \<and> b_i_script s = [] \<and> b_dma_script s = [] \<and>
     \<not> mn_slot_busy (b_mon s)"

text \<open>The directory the monitor shows, and its comparison with the permissions held (lines 432 to 440).\<close>

definition bench_directory :: "bench_cfg \<Rightarrow> bench_mon \<Rightarrow> (nat \<times> hold) list" where
  "bench_directory cfg m =
     foldl (\<lambda>dir k.
         if drop_bit k (mn_valid m) AND 1 \<noteq> 0 then
           let st = drop_bit (k * 2) (mn_state m) AND 3 in
           if st \<noteq> 0 then AList.update (drop_bit (k * 26) (mn_addr m) AND (push_bit 26 1 - 1))
                             (if st = 1 then HS else HX) dir else dir
         else dir) [] [0..<bc_sets cfg * bc_ways cfg]"

definition bench_final_check :: "bench_cfg \<Rightarrow> bench \<Rightarrow> unit py" where
  "bench_final_check cfg s = py_assert (map_of (bench_directory cfg (b_mon s)) = map_of (b_held s))"

text \<open>What a test does to the bench: an L1D store, a request, an eviction, a clock cycle.\<close>

datatype bench_op =
    Store nat nat nat nat
  | Submit nat nat nat "nat option" bool nat nat
  | Evict nat nat
  | Script "nat list" "(nat \<times> nat \<times> nat \<times> nat) list"
  | Tick bench_cfg bench_rng bench_dut

fun bench_step :: "nat \<Rightarrow> bench \<Rightarrow> bench_op \<Rightarrow> bench py" where
  "bench_step seed s (Store line offset sz val) = bench_store seed line offset sz val s"
| "bench_step seed s (Submit client op line tid err msk d) = bench_submit client op line tid err msk d s"
| "bench_step seed s (Evict line tid) = bench_evict line tid s"
| "bench_step seed s (Script is ds) = Inr (s\<lparr>b_i_script := is, b_dma_script := ds\<rparr>)"
| "bench_step seed s (Tick cfg r v) = bench_tick seed cfg r v s"

section \<open>Association lists\<close>

lemma length_alist_update:
  "length (AList.update k x xs) = (if k \<in> fst ` set xs then length xs else Suc (length xs))"
  by (induction xs) auto

lemma length_alist_delete: "k \<in> fst ` set xs \<Longrightarrow> length (AList.delete k xs) < length xs"
  by (induction xs) (auto simp: le_imp_less_Suc AList.length_delete_le)

lemma map_of_alist [simp]:
  "map_of (AList.update k x xs) = (map_of xs)(k \<mapsto> x)" "map_of (AList.delete k xs) = (map_of xs)(k := None)"
  by (simp_all add: AList.update_conv' AList.delete_conv')

lemma fst_alist_delete: "fst ` set (AList.delete k xs) = fst ` set xs - {k}"
  using arg_cong [OF AList.delete_keys [of k xs], of set] by simp

lemma map_of_in_fst: "map_of xs k = Some x \<Longrightarrow> k \<in> fst ` set xs"
  by (metis map_of_eq_None_iff option.distinct(1))

section \<open>Permissions, credits and history\<close>

text \<open>The copies and the permissions agree line by line.\<close>

fun hold_of :: "copy_state \<times> nat \<Rightarrow> hold" where
  "hold_of (st, _) = (if st = CS then HS else HX)"

definition perm_agree :: "(nat \<times> hold) list \<Rightarrow> (nat \<rightharpoonup> copy_state \<times> nat) \<Rightarrow> bool" where
  "perm_agree held copies \<longleftrightarrow>
     (\<forall>l. map_of held l = map_option hold_of (copies l) \<and> (\<forall>d. copies l \<noteq> Some (CI, d)))"

text \<open>At most four transactions per client and one for DMA, counting the presented one, whose identifier is free.\<close>

definition credit_ok :: "(nat \<Rightarrow> txn option) \<Rightarrow> (nat \<Rightarrow> (nat \<times> txn) list) \<Rightarrow> bool" where
  "credit_ok pr out \<longleftrightarrow>
     (\<forall>c. length (out c) + of_bool (pr c \<noteq> None) \<le> 4 \<and>
        (\<forall>t. pr c = Some t \<longrightarrow> tx_tid t \<notin> fst ` set (out c))) \<and>
     length (out 2) + of_bool (pr 2 \<noteq> None) \<le> 1"

text \<open>The golden value of a line is the last one of its history, which is in order of time.\<close>

definition history_ok :: "(nat \<rightharpoonup> nat) \<Rightarrow> (nat \<Rightarrow> (nat \<times> nat) list) \<Rightarrow> nat \<Rightarrow> bool" where
  "history_ok arch hist now \<longleftrightarrow>
     (\<forall>l. arch l = (if hist l = [] then None else Some (snd (last (hist l)))) \<and>
        sorted (map fst (hist l)) \<and> (\<forall>(cycle, _) \<in> set (hist l). cycle \<le> now))"

definition bench_basic :: "bench \<Rightarrow> bool" where
  "bench_basic s \<longleftrightarrow> perm_agree (b_held s) (b_copies s) \<and> credit_ok (b_present s) (b_out s) \<and>
     history_ok (b_arch s) (b_history s) (b_cycle s)"

text \<open>The part of the state these speak about, and the coherence invariant below.\<close>

definition bench_core where
  "bench_core s = (b_cycle s, b_arch s, b_history s, b_copies s, b_held s, b_present s, b_out s, b_puts s,
     b_upq s, b_probe s)"

lemma bench_core_basic: "bench_core s' = bench_core s \<Longrightarrow> bench_basic s' = bench_basic s"
  by (simp add: bench_core_def bench_basic_def)

lemma perm_agreeD:
  assumes "perm_agree held copies"
  shows "map_of held l = None \<longleftrightarrow> copies l = None"
    "map_of held l = Some HS \<longleftrightarrow> (\<exists>d. copies l = Some (CS, d))"
    "map_of held l = Some HX \<longleftrightarrow> (\<exists>d. copies l = Some (CE, d) \<or> copies l = Some (CM, d))"
proof -
  have m: "map_of held l = map_option hold_of (copies l)" and n: "\<And>d. copies l \<noteq> Some (CI, d)"
    using assms by (simp_all add: perm_agree_def)
  show "map_of held l = None \<longleftrightarrow> copies l = None" by (simp add: m)
  show "map_of held l = Some HS \<longleftrightarrow> (\<exists>d. copies l = Some (CS, d))" by (auto simp: m)
  show "map_of held l = Some HX \<longleftrightarrow> (\<exists>d. copies l = Some (CE, d) \<or> copies l = Some (CM, d))"
  proof (cases "copies l")
    case (Some x)
    obtain st d where "x = (st, d)" by (cases x)
    with Some m n [of d] show ?thesis by (cases st) auto
  qed (simp add: m)
qed

lemma perm_agree_update:
  "perm_agree held copies \<Longrightarrow> (h, st) \<in> {(HS, CS), (HX, CE), (HX, CM)} \<Longrightarrow>
   perm_agree (AList.update l h held) (copies(l \<mapsto> (st, d)))"
  by (auto simp: perm_agree_def)

lemma perm_agree_delete: "perm_agree held copies \<Longrightarrow> perm_agree (AList.delete l held) (copies(l := None))"
  by (auto simp: perm_agree_def)

lemma history_ok_log:
  "history_ok arch hist now \<Longrightarrow> history_ok (arch(l \<mapsto> d)) (hist(l := hist l @ [(now, d)])) now"
  by (auto simp: history_ok_def sorted_append case_prod_beta)

lemma history_ok_later: "history_ok arch hist now \<Longrightarrow> now \<le> now' \<Longrightarrow> history_ok arch hist now'"
  by (fastforce simp: history_ok_def)

subsection \<open>What each phase does to the core\<close>

lemma bench_store_Inr:
  assumes "bench_store seed l offset sz val s = Inr s'"
  obtains st d d' where "b_copies s l = Some (st, d)" "st = CE \<or> st = CM"
    "s' = bench_log l d' (s\<lparr>b_copies := (b_copies s)(l \<mapsto> (CM, d'))\<rparr>)"
  using assms by (auto simp: bench_store_def py_bind_Inr_iff Let_def split: option.splits prod.splits)

lemma bench_submit_Inr:
  assumes "bench_submit c op l tid err msk d s = Inr s'"
  obtains t where "s' = s\<lparr>b_present := (b_present s)(c := Some t)\<rparr>" "b_present s c = None"
    "tx_tid t \<notin> fst ` set (b_out s c)" "length (b_out s c) < 4" "c = 2 \<Longrightarrow> b_out s 2 = []"
    "tx_op t = op" "tx_line t = l" "tx_start t = b_cycle s"
  using assms by (auto simp: bench_submit_def py_bind_Inr_iff)

lemma bench_evict_Inr:
  assumes "bench_evict l tid s = Inr s'"
  obtains st d where "b_copies s l = Some (st, d)" "tid \<notin> fst ` set (b_puts s)"
    "s' = s\<lparr>b_puts := AList.update tid (l, False) (b_puts s), b_upq := b_upq s @ [(PUT, st = CM, l, tid, d)]\<rparr>"
  using assms by (auto simp: bench_evict_def py_bind_Inr_iff split: option.splits prod.splits)

lemma bench_issue_i_Inr:
  assumes "bench_issue_i s = Inr s'"
  shows "s' = s \<or> (\<exists>l rest. bench_submit 1 READ_LINE l None False 0 0 (s\<lparr>b_i_script := rest\<rparr>) = Inr s')"
  using assms by (auto simp: bench_issue_i_def split: list.splits if_splits)

lemma bench_issue_dma_Inr:
  assumes "bench_issue_dma s = Inr s'"
  shows "s' = s \<or> (\<exists>op l msk d rest. bench_submit 2 op l (Some 0) False msk d (s\<lparr>b_dma_script := rest\<rparr>) = Inr s')"
  using assms by (fastforce simp: bench_issue_dma_def split: list.splits if_splits prod.splits)

lemma bench_answer_Inr:
  assumes "bench_answer s = Inr s'"
  shows "s' = s \<or> (\<exists>op owner l due op' dirty d. b_probe s = Some (op, owner, l, due) \<and> b_upq s = [] \<and>
      \<not> bench_l1_busy s l \<and> s' = s\<lparr>b_upq := [(op', dirty, l, 0, d)]\<rparr> \<and> op' \<noteq> PUT \<and>
      (\<forall>st x. b_copies s l = Some (st, x) \<longrightarrow> d = x \<and> dirty = (st = CM)))"
proof (cases "b_probe s")
  case None
  with assms show ?thesis by (simp add: bench_answer_def)
next
  case (Some pr)
  obtain op owner l due where pr: "pr = (op, owner, l, due)" by (cases pr)
  obtain st d where c: "(case b_copies s l of None \<Rightarrow> (CI, 0) | Some x \<Rightarrow> x) = (st, d)" by fastforce
  show ?thesis
  proof (cases "due \<le> b_cycle s \<and> b_upq s = [] \<and> \<not> bench_l1_busy s l")
    case True
    with assms Some pr c have s': "s' = s\<lparr>b_upq := [(if op = 0 then INVACK else DOWNACK, st = CM, l, 0, d)]\<rparr>"
      by (auto simp: bench_answer_def py_bind_Inr_iff)
    have v: "\<forall>st' x. b_copies s l = Some (st', x) \<longrightarrow> d = x \<and> (st = CM) = (st' = CM)"
      using c by auto
    have w: "(if op = 0 then INVACK else DOWNACK) \<noteq> PUT" by simp
    from True s' v w Some [unfolded pr] show ?thesis by blast
  next
    case False
    with assms Some pr show ?thesis by (auto simp: bench_answer_def)
  qed
qed

lemma bench_core_drive:
  "bench_core (bench_drive_r cfg r s) = bench_core s" "bench_core (bench_drive_b s) = bench_core s"
  "bench_core (bench_b v s) = bench_core s"
  by (auto simp: bench_core_def bench_drive_r_def bench_drive_b_def bench_b_def Let_def
      split: option.splits list.splits)

lemma bench_core_axi:
  "bench_ar seed r p v s = Inr s' \<Longrightarrow> bench_core s' = bench_core s"
  "bench_r v s = Inr s' \<Longrightarrow> bench_core s' = bench_core s"
  "bench_aw p v s = Inr s' \<Longrightarrow> bench_core s' = bench_core s"
  "bench_w p v s = Inr s' \<Longrightarrow> bench_core s' = bench_core s"
  "bench_commit r s = Inr s' \<Longrightarrow> bench_core s' = bench_core s"
  by (auto simp: bench_core_def bench_ar_def bench_r_def bench_aw_def bench_w_def bench_commit_def Let_def
      py_bind_Inr_iff split: option.splits list.splits if_splits prod.splits)

text \<open>The outcome of a grant.\<close>

lemma bench_grant_Inr:
  assumes "bench_grant seed t op err d s = Inr (d', s')"
  shows "s' = s \<or> (\<exists>h st. (h, st) \<in> {(HS, CS), (HX, CE)} \<and> d' = bench_golden seed s (tx_line t) \<and>
      (b_copies s (tx_line t) = None \<or> (\<exists>x. b_copies s (tx_line t) = Some x) ) \<and>
      s' = s\<lparr>b_held := AList.update (tx_line t) h (b_held s), b_copies := (b_copies s)(tx_line t \<mapsto> (st, d'))\<rparr>)"
  using assms
  by (auto simp: bench_grant_def py_bind_Inr_iff Let_def split: option.splits if_splits prod.splits)

lemma bench_dma_ack_Inr:
  assumes "bench_dma_ack seed t op err s = Inr s'"
  shows "\<exists>n. s' = s\<lparr>b_dma_done := n\<rparr> \<or>
    (\<exists>d. s' = (bench_log (tx_line t) d s)\<lparr>b_dma_done := n\<rparr> \<and> map_of (b_held s) (tx_line t) = None)"
  using assms
  by (auto simp: bench_dma_ack_def py_bind_Inr_iff split: if_splits)

lemma bench_read_data_core: "bench_read_data seed c t op err d s = Inr s' \<Longrightarrow> bench_core s' = bench_core s"
  by (auto simp: bench_read_data_def bench_core_def py_bind_Inr_iff split: if_splits)

text \<open>The outcomes of a response and of the up channel.\<close>

definition bench_taken :: "bench \<Rightarrow> nat \<Rightarrow> nat \<Rightarrow> bench" where
  "bench_taken s c tid = s\<lparr>b_out := (b_out s)(c := AList.delete tid (b_out s c))\<rparr>"

lemma bench_response_Inr:
  assumes "bench_response seed p v c s = Inr s'"
  obtains (quiet) "s' = s"
  | (putack) tid l where "c = 0" "map_of (b_puts s) tid = Some (l, True)"
      "s' = s\<lparr>b_puts := AList.delete tid (b_puts s)\<rparr>"
  | (txn) tid t op err d s2 where "v_resp_valid v c" "map_of (b_out s c) tid = Some t"
      "link_response (v_resp v c) = (op, tid, err, d)" "\<not> (c = 0 \<and> op = PUTACK)"
      "(if c = 0 then (\<exists>d'. bench_grant seed t op err d (bench_taken s c tid) = Inr (d', s2) \<and>
          s' = bench_finish_txn c t op err d' s2)
        else if c = 2 \<and> tx_op t = MASKWRITE then bench_dma_ack seed t op err (bench_taken s c tid) = Inr s2 \<and>
          s' = bench_finish_txn c t op err d s2
        else bench_read_data seed c t op err d (bench_taken s c tid) = Inr s2 \<and>
          s' = bench_finish_txn c t op err d s2)"
proof (cases "v_resp_valid v c \<and> pn_resp_ready p c")
  case False
  with assms quiet show thesis by (auto simp: bench_response_def)
next
  case True
  obtain op tid err d where r: "link_response (v_resp v c) = (op, tid, err, d)" by (metis prod_cases4)
  show thesis
  proof (cases "c = 0 \<and> op = PUTACK")
    case t: True
    with assms True r obtain l where "map_of (b_puts s) tid = Some (l, True)"
      "s' = s\<lparr>b_puts := AList.delete tid (b_puts s)\<rparr>"
      by (auto simp: bench_response_def split: option.splits bool.splits)
    with t putack show thesis by blast
  next
    case f: False
    with assms True r obtain t where t: "map_of (b_out s c) tid = Some t"
      by (auto simp: bench_response_def split: option.splits)
    have body: "(if c = 0 then py_bind (bench_grant seed t op err d (bench_taken s c tid))
              (\<lambda>(d', s2). Inr (bench_finish_txn c t op err d' s2))
          else if c = 2 \<and> tx_op t = MASKWRITE
          then py_bind (bench_dma_ack seed t op err (bench_taken s c tid)) (\<lambda>s2. Inr (bench_finish_txn c t op err d s2))
          else py_bind (bench_read_data seed c t op err d (bench_taken s c tid)) (\<lambda>s2. Inr (bench_finish_txn c t op err d s2)))
        = Inr s'"
      using assms True r f t by (auto simp: bench_response_def bench_taken_def py_bind_Inr_iff)
    show thesis
    proof (cases "c = 0")
      case True
      with body obtain d' s2 where "bench_grant seed t op err d (bench_taken s c tid) = Inr (d', s2)"
        "s' = bench_finish_txn c t op err d' s2" by (auto simp: py_bind_Inr_iff)
      with True show thesis using \<open>v_resp_valid v c \<and> pn_resp_ready p c\<close> t r f
        by (intro txn [of tid t op err d s2]) auto
    next
      case c: False
      show thesis
      proof (cases "c = 2 \<and> tx_op t = MASKWRITE")
        case True
        with body c obtain s2 where "bench_dma_ack seed t op err (bench_taken s c tid) = Inr s2"
          "s' = bench_finish_txn c t op err d s2" by (auto simp: py_bind_Inr_iff)
        with True c show thesis using \<open>v_resp_valid v c \<and> pn_resp_ready p c\<close> t r f
          by (intro txn [of tid t op err d s2]) auto
      next
        case False
        with body c obtain s2 where "bench_read_data seed c t op err d (bench_taken s c tid) = Inr s2"
          "s' = bench_finish_txn c t op err d s2" by (auto simp: py_bind_Inr_iff)
        with False c show thesis using \<open>v_resp_valid v c \<and> pn_resp_ready p c\<close> t r f
          by (intro txn [of tid t op err d s2]) auto
      qed
    qed
  qed
qed

lemma bench_up_Inr:
  assumes "bench_up v s = Inr s'"
  obtains (quiet) "s' = s"
  | (put) dirty l tid d rest st x where "b_upq s = (PUT, dirty, l, tid, d) # rest" "b_copies s l = Some (st, x)"
      "dirty \<Longrightarrow> map_of (b_held s) l = Some HX" "map_of (b_held s) l \<noteq> None"
      "s' = s\<lparr>b_upq := rest, b_held := AList.delete l (b_held s), b_copies := (b_copies s)(l := None),
              b_puts := AList.update tid (l, True) (b_puts s)\<rparr>"
  | (inv) op dirty l tid d rest where "b_upq s = (op, dirty, l, tid, d) # rest" "op \<noteq> PUT" "op = INVACK"
      "s' = s\<lparr>b_upq := rest, b_held := AList.delete l (b_held s), b_copies := (b_copies s)(l := None), b_probe := None\<rparr>"
  | (down) op dirty l tid d rest h where "b_upq s = (op, dirty, l, tid, d) # rest" "op \<noteq> PUT"
      "map_of (b_held s) l = Some h"
      "s' = s\<lparr>b_upq := rest, b_held := AList.update l HS (b_held s), b_copies := (b_copies s)(l \<mapsto> (CS, d)), b_probe := None\<rparr>"
  | (absent) op dirty l tid d rest where "b_upq s = (op, dirty, l, tid, d) # rest" "op \<noteq> PUT"
      "map_of (b_held s) l = None" "s' = s\<lparr>b_upq := rest, b_probe := None\<rparr>"
proof (cases "b_upq s = [] \<or> \<not> v_up_ready v")
  case True
  with assms quiet show thesis by (auto simp: bench_up_def split: list.splits)
next
  case False
  then obtain op dirty l tid d rest where u: "b_upq s = (op, dirty, l, tid, d) # rest"
    by (metis list.exhaust prod_cases5)
  show thesis
  proof (cases "op = PUT")
    case True
    with assms False u show thesis
      by (auto simp: bench_up_def Let_def py_bind_Inr_iff split: option.splits intro!: put)
  next
    case f: False
    show thesis
    proof (cases "op = INVACK")
      case True
      with assms False u f show thesis
        by (auto simp: bench_up_def Let_def py_bind_Inr_iff split: option.splits intro!: inv)
    next
      case g: False
      show thesis
      proof (cases "map_of (b_held s) l")
        case None
        with assms False u f g show thesis
          by (auto simp: bench_up_def Let_def py_bind_Inr_iff split: option.splits intro!: absent)
      next
        case (Some h)
        with assms False u f g show thesis
          by (auto simp: bench_up_def Let_def py_bind_Inr_iff split: option.splits intro!: down)
      qed
    qed
  qed
qed

lemma bench_snoop_Inr:
  assumes "bench_snoop cfg p v s = Inr s'"
  shows "s' = s \<or> (\<exists>pr. b_probe s = None \<and> s' = s\<lparr>b_probe := Some pr\<rparr>)"
  using assms by (auto simp: bench_snoop_def py_bind_Inr_iff Let_def split: prod.splits if_splits)

lemma bench_accept_Inr:
  assumes "bench_accept v c s = Inr s'"
  shows "s' = s \<or> (\<exists>t. b_present s c = Some t \<and> tx_tid t \<notin> fst ` set (b_out s c) \<and>
    s' = s\<lparr>b_out := (b_out s)(c := AList.update (tx_tid t) (t\<lparr>tx_accepted := True\<rparr>) (b_out s c)),
           b_present := (b_present s)(c := None)\<rparr>)"
  using assms by (auto simp: bench_accept_def py_bind_Inr_iff Let_def split: option.splits if_splits)

subsection \<open>Preservation, phase by phase\<close>

lemma basic_submit:
  assumes "bench_submit c op l tid err msk d s = Inr s'" "bench_basic s"
  shows "bench_basic s'"
  using assms(1)
proof (rule bench_submit_Inr)
  fix t
  assume "s' = s\<lparr>b_present := (b_present s)(c := Some t)\<rparr>" "b_present s c = None"
    "tx_tid t \<notin> fst ` set (b_out s c)" "length (b_out s c) < 4" "c = 2 \<Longrightarrow> b_out s 2 = []"
  then show ?thesis using assms(2) by (auto simp: bench_basic_def credit_ok_def)
qed

lemma credit_drop:
  assumes "credit_ok pr out"
  shows "credit_ok pr (out(c := AList.delete tid (out c)))"
proof -
  have "length (AList.delete tid (out c)) \<le> length (out c)" by (rule AList.length_delete_le)
  with assms show ?thesis
    by (auto simp: credit_ok_def fst_alist_delete intro: order_trans dest: spec [of _ c])
qed

lemma credit_accept:
  assumes "credit_ok pr out" "pr c = Some t"
  shows "credit_ok (pr(c := None)) (out(c := AList.update (tx_tid t) x (out c)))"
  using assms by (auto simp: credit_ok_def length_alist_update dest: spec [of _ c])

lemma taken_fields [simp]:
  "b_held (bench_taken s c tid) = b_held s" "b_copies (bench_taken s c tid) = b_copies s"
  "b_arch (bench_taken s c tid) = b_arch s" "b_history (bench_taken s c tid) = b_history s"
  "b_cycle (bench_taken s c tid) = b_cycle s" "b_present (bench_taken s c tid) = b_present s"
  "b_puts (bench_taken s c tid) = b_puts s" "b_upq (bench_taken s c tid) = b_upq s"
  "b_probe (bench_taken s c tid) = b_probe s"
  by (simp_all add: bench_taken_def)

lemma finish_core [simp]: "bench_core (bench_finish_txn c t op err d s) = bench_core s"
  by (simp add: bench_core_def bench_finish_txn_def)

lemma basic_taken: "bench_basic s \<Longrightarrow> map_of (b_out s c) tid = Some t \<Longrightarrow> bench_basic (bench_taken s c tid)"
  using credit_drop [of "b_present s" "b_out s" c tid] by (simp add: bench_basic_def bench_taken_def)

lemma basic_grant:
  assumes "bench_grant seed t op err d s = Inr (d', s')" "bench_basic s"
  shows "bench_basic s'"
  using bench_grant_Inr [OF assms(1)]
proof
  assume "\<exists>h st. (h, st) \<in> {(HS, CS), (HX, CE)} \<and> d' = bench_golden seed s (tx_line t) \<and>
      (b_copies s (tx_line t) = None \<or> (\<exists>x. b_copies s (tx_line t) = Some x)) \<and>
      s' = s\<lparr>b_held := AList.update (tx_line t) h (b_held s), b_copies := (b_copies s)(tx_line t \<mapsto> (st, d'))\<rparr>"
  then obtain h st where h: "(h, st) \<in> {(HS, CS), (HX, CE), (HX, CM)}"
    "s' = s\<lparr>b_held := AList.update (tx_line t) h (b_held s), b_copies := (b_copies s)(tx_line t \<mapsto> (st, d'))\<rparr>"
    by blast
  then show ?thesis
    using assms(2) perm_agree_update [of "b_held s" "b_copies s" h st "tx_line t" d']
    by (simp add: bench_basic_def)
qed (use assms(2) in simp)

lemma basic_log:
  "bench_basic s \<Longrightarrow> bench_basic (bench_log l d s)"
  using history_ok_log [of "b_arch s" "b_history s" "b_cycle s" l d] by (simp add: bench_basic_def bench_log_def)

lemma basic_dma_ack:
  assumes "bench_dma_ack seed t op err s = Inr s'" "bench_basic s"
  shows "bench_basic s'"
proof -
  obtain n where "s' = s\<lparr>b_dma_done := n\<rparr> \<or> (\<exists>d. s' = (bench_log (tx_line t) d s)\<lparr>b_dma_done := n\<rparr>)"
    using bench_dma_ack_Inr [OF assms(1)] by blast
  moreover have "bench_basic (x\<lparr>b_dma_done := n\<rparr>) = bench_basic x" for x
    by (rule bench_core_basic) (simp add: bench_core_def)
  ultimately show ?thesis using assms(2) basic_log by auto
qed

lemma basic_response:
  assumes "bench_response seed p v c s = Inr s'" "bench_basic s"
  shows "bench_basic s'"
  using assms(1)
proof (cases rule: bench_response_Inr)
  case quiet
  with assms(2) show ?thesis by simp
next
  case (putack tid l)
  with assms(2) show ?thesis by (simp add: bench_basic_def)
next
  case (txn tid t op err d s2)
  have b: "bench_basic (bench_taken s c tid)" by (rule basic_taken [OF assms(2) txn(2)])
  have "bench_basic s2"
    using txn(5) basic_grant [OF _ b] basic_dma_ack [OF _ b] b bench_core_basic [OF bench_read_data_core]
    by (auto split: if_splits)
  then have "bench_basic (bench_finish_txn c t op err x s2)" for x
    using bench_core_basic [OF finish_core] by blast
  then show ?thesis using txn(5) by (auto split: if_splits)
qed

lemma basic_up:
  assumes "bench_up v s = Inr s'" "bench_basic s"
  shows "bench_basic s'"
proof -
  have p: "perm_agree (b_held s) (b_copies s)" using assms(2) by (simp add: bench_basic_def)
  show ?thesis
    using assms(1)
    by (cases rule: bench_up_Inr)
       (use assms(2) in \<open>simp_all add: bench_basic_def perm_agree_update perm_agree_delete\<close>)
qed

lemma basic_snoop: "bench_snoop cfg p v s = Inr s' \<Longrightarrow> bench_basic s \<Longrightarrow> bench_basic s'"
  using bench_snoop_Inr [of cfg p v s s'] by (auto simp: bench_basic_def)

lemma basic_accept:
  assumes "bench_accept v c s = Inr s'" "bench_basic s"
  shows "bench_basic s'"
  using bench_accept_Inr [OF assms(1)]
proof
  assume "\<exists>t. b_present s c = Some t \<and> tx_tid t \<notin> fst ` set (b_out s c) \<and>
    s' = s\<lparr>b_out := (b_out s)(c := AList.update (tx_tid t) (t\<lparr>tx_accepted := True\<rparr>) (b_out s c)),
           b_present := (b_present s)(c := None)\<rparr>"
  then obtain t where t: "b_present s c = Some t" "tx_tid t \<notin> fst ` set (b_out s c)"
    "s' = s\<lparr>b_out := (b_out s)(c := AList.update (tx_tid t) (t\<lparr>tx_accepted := True\<rparr>) (b_out s c)),
           b_present := (b_present s)(c := None)\<rparr>" by blast
  then show ?thesis
    using assms(2) credit_accept [of "b_present s" "b_out s" c t] by (simp add: bench_basic_def)
qed (use assms(2) in simp)

lemma basic_prepare:
  assumes "bench_prepare cfg r s = Inr s'" "bench_basic s"
  shows "bench_basic s'"
proof -
  from assms(1) obtain s1 s2 s3 where s: "bench_issue_i s = Inr s1" "bench_issue_dma s1 = Inr s2"
    "bench_answer s2 = Inr s3" "s' = bench_drive_b (bench_drive_r cfg r s3)"
    by (auto simp: bench_prepare_def py_bind_Inr_iff)
  have script: "bench_basic (x\<lparr>b_i_script := q\<rparr>) = bench_basic x" "bench_basic (x\<lparr>b_dma_script := q'\<rparr>) = bench_basic x"
    for x q q' by (rule bench_core_basic, simp add: bench_core_def)+
  have "bench_basic s1" using bench_issue_i_Inr [OF s(1)] assms(2) by (auto intro: basic_submit simp: script)
  then have "bench_basic s2" using bench_issue_dma_Inr [OF s(2)] by (auto intro: basic_submit simp: script)
  then have "bench_basic s3"
    using bench_answer_Inr [OF s(3)] by (auto simp: bench_basic_def)
  then show ?thesis
    using s(4) bench_core_basic [OF bench_core_drive(1)] bench_core_basic [OF bench_core_drive(2)] by simp
qed

text \<open>The intermediate states of a sampled cycle.\<close>

lemma bench_sample_Inr:
  assumes "bench_sample seed cfg r p v s = Inr s'"
  obtains st s0 s1 s2 s3 s4 s5 s6 s7 where
    "s0 = s\<lparr>b_slot_full := b_slot_full s + v_mon_slot_full v, b_stalled := st\<rparr>"
    "bench_response seed p v 0 s0 = Inr s1" "bench_response seed p v 1 s1 = Inr s2"
    "bench_response seed p v 2 s2 = Inr s3" "bench_up v s3 = Inr s4" "bench_snoop cfg p v s4 = Inr s5"
    "bench_accept v 0 s5 = Inr s6" "bench_accept v 1 s6 = Inr s7"
    "\<exists>s8. bench_accept v 2 s7 = Inr s8 \<and> bench_core s' = bench_core s8"
proof -
  from assms obtain st s1 s2 s3 s4 s5 s6 s7 s8 s9 s10 s11 s12 s13 where
    "bench_response seed p v 0 (s\<lparr>b_slot_full := b_slot_full s + v_mon_slot_full v, b_stalled := st\<rparr>) = Inr s1"
    "bench_response seed p v 1 s1 = Inr s2"
    "bench_response seed p v 2 s2 = Inr s3" "bench_up v s3 = Inr s4" "bench_snoop cfg p v s4 = Inr s5"
    "bench_accept v 0 s5 = Inr s6" "bench_accept v 1 s6 = Inr s7" "bench_accept v 2 s7 = Inr s8"
    "bench_ar seed r p v s8 = Inr s9" "bench_r v s9 = Inr s10" "bench_aw p v s10 = Inr s11"
    "bench_w p v s11 = Inr s12" "bench_commit r s12 = Inr s13" "s' = bench_b v s13"
    unfolding bench_sample_def py_bind_Inr_iff sum.inject by metis
  moreover from this(9-14) have "bench_core s' = bench_core s8" by (simp add: bench_core_axi bench_core_drive(3))
  ultimately show thesis using that [OF refl] by blast
qed

lemma basic_tick:
  assumes "bench_tick seed cfg r v s = Inr s'" "bench_basic s"
  shows "bench_basic s'"
proof -
  from assms(1) obtain s1 p s2 where t: "bench_prepare cfg r s = Inr s1" "bench_sample seed cfg r p v s1 = Inr s2"
    "s' = s2\<lparr>b_cycle := b_cycle s2 + 1, b_mon := v_mon v\<rparr>"
    by (auto simp: bench_tick_def py_bind_Inr_iff)
  have "bench_basic s1" by (rule basic_prepare [OF t(1) assms(2)])
  then have b0: "bench_basic (s1\<lparr>b_slot_full := n, b_stalled := st\<rparr>)" for n st
    by (simp add: bench_basic_def)
  from t(2) have "bench_basic s2"
    by (rule bench_sample_Inr)
       (metis b0 basic_response basic_up basic_snoop basic_accept bench_core_basic)
  then show ?thesis
    using history_ok_later [of "b_arch s2" "b_history s2" "b_cycle s2"] by (simp add: t(3) bench_basic_def)
qed

lemma basic_init: "bench_basic bench_init"
  by (simp add: bench_basic_def bench_init_def perm_agree_def credit_ok_def history_ok_def)

lemma basic_step:
  assumes "bench_step seed s op = Inr s'" "bench_basic s"
  shows "bench_basic s'"
proof (cases op)
  case (Store line offset sz val)
  with assms(1) obtain st d d' where st: "b_copies s line = Some (st, d)" "st = CE \<or> st = CM"
    "s' = bench_log line d' (s\<lparr>b_copies := (b_copies s)(line \<mapsto> (CM, d'))\<rparr>)"
    by (auto elim: bench_store_Inr)
  have "perm_agree (b_held s) ((b_copies s)(line \<mapsto> (CM, d')))"
    using assms(2) st(1,2) by (auto simp: bench_basic_def perm_agree_def)
  then have "bench_basic (s\<lparr>b_copies := (b_copies s)(line \<mapsto> (CM, d'))\<rparr>)"
    using assms(2) by (simp add: bench_basic_def)
  with st(3) basic_log show ?thesis by simp
next
  case (Submit client op l tid err msk d)
  with assms basic_submit show ?thesis by simp
next
  case (Evict line tid)
  with assms show ?thesis
    by (auto elim!: bench_evict_Inr simp: bench_basic_def)
next
  case (Script lines dmas)
  with assms show ?thesis by (auto simp: bench_basic_def)
next
  case (Tick cfg r v)
  with assms basic_tick show ?thesis by simp
qed

interpretation bench_any: monitored bench_init "bench_step seed" "\<lambda>_ _. True" bench_basic for seed
  by unfold_locales (auto intro: basic_init basic_step)

section \<open>Coherence\<close>

text \<open>Every copy holds the golden value; every queued put or answer holds the data of the line's copy, is for a
  line in flight, and no two are for one line.\<close>

definition fresh_ok :: "nat \<Rightarrow> (nat \<rightharpoonup> nat) \<Rightarrow> (nat \<rightharpoonup> copy_state \<times> nat) \<Rightarrow> bool" where
  "fresh_ok seed arch copies \<longleftrightarrow>
     (\<forall>l st d. copies l = Some (st, d) \<longrightarrow> d = (case arch l of None \<Rightarrow> bench_initial seed l | Some x \<Rightarrow> x))"

fun up_line :: "up_entry \<Rightarrow> nat" where
  "up_line (op, dirty, l, tid, d) = l"

definition entry_ok ::
  "(nat \<rightharpoonup> copy_state \<times> nat) \<Rightarrow> (nat \<rightharpoonup> nat \<times> bool) \<Rightarrow> (nat \<times> nat \<times> nat \<times> nat) option \<Rightarrow> up_entry \<Rightarrow> bool" where
  "entry_ok copies puts pr e \<longleftrightarrow> (case e of (op, dirty, l, tid, d) \<Rightarrow>
     (\<forall>st x. copies l = Some (st, x) \<longrightarrow> d = x \<and> dirty = (st = CM)) \<and>
     (if op = PUT then puts tid = Some (l, False) else (\<exists>a b due. pr = Some (a, b, l, due))))"

definition bench_coherent :: "nat \<Rightarrow> bench \<Rightarrow> bool" where
  "bench_coherent seed s \<longleftrightarrow> bench_basic s \<and> fresh_ok seed (b_arch s) (b_copies s) \<and>
     distinct (map up_line (b_upq s)) \<and>
     (\<forall>e \<in> set (b_upq s). entry_ok (b_copies s) (map_of (b_puts s)) (b_probe s) e)"

text \<open>An entry only looks at its own line, its put and the probe of its line.\<close>

lemma entry_ok_frame:
  assumes "entry_ok copies puts pr e" "copies' (up_line e) = copies (up_line e)"
    "\<And>tid. puts tid = Some (up_line e, False) \<Longrightarrow> puts' tid = Some (up_line e, False)"
    "\<And>a b due. pr = Some (a, b, up_line e, due) \<Longrightarrow> \<exists>a b due. pr' = Some (a, b, up_line e, due)"
  shows "entry_ok copies' puts' pr' e"
proof -
  obtain op dirty l tid d where "e = (op, dirty, l, tid, d)" by (cases e)
  with assms show ?thesis by (cases "op = PUT") (auto simp: entry_ok_def)
qed

lemma coherent_entry:
  "bench_coherent seed s \<Longrightarrow> e \<in> set (b_upq s) \<Longrightarrow> entry_ok (b_copies s) (map_of (b_puts s)) (b_probe s) e"
  by (simp add: bench_coherent_def)

lemma bench_core_coherent: "bench_core s' = bench_core s \<Longrightarrow> bench_coherent seed s' = bench_coherent seed s"
  using bench_core_basic [of s' s] by (simp add: bench_coherent_def bench_core_def)

text \<open>What the tests and the hardware must respect: the L1D touches a line only when nothing is in flight on it
  (the tests wait for \<open>not line_busy(line)\<close>), and the home node grants no line whose put or probe answer
  it has not taken.\<close>

definition bench_grant_ok :: "bench \<Rightarrow> bench_dut \<Rightarrow> bool" where
  "bench_grant_ok s v \<longleftrightarrow>
     (v_resp_valid v 0 \<longrightarrow> (case link_response (v_resp v 0) of (op, tid, err, d) \<Rightarrow>
        op = PUTACK \<or> (case map_of (b_out s 0) tid of
           None \<Rightarrow> True | Some t \<Rightarrow> tx_line t \<notin> up_line ` set (b_upq s))))"

fun bench_env :: "bench \<Rightarrow> bench_op \<Rightarrow> bool" where
  "bench_env s (Store line offset sz val) \<longleftrightarrow> \<not> bench_line_busy s line"
| "bench_env s (Evict line tid) \<longleftrightarrow> \<not> bench_line_busy s line"
| "bench_env s (Tick cfg r v) \<longleftrightarrow> bench_grant_ok s v"
| "bench_env s _ \<longleftrightarrow> True"

lemma not_busy_not_queued:
  assumes "bench_coherent seed s" "\<not> bench_line_busy s l" "e \<in> set (b_upq s)"
  shows "up_line e \<noteq> l"
proof
  assume l: "up_line e = l"
  obtain op dirty l' tid d where e: "e = (op, dirty, l', tid, d)" by (cases e)
  have "entry_ok (b_copies s) (map_of (b_puts s)) (b_probe s) e"
    using assms(1,3) by (simp add: bench_coherent_def)
  then have "map_of (b_puts s) tid = Some (l, False) \<or> (\<exists>a b due. b_probe s = Some (a, b, l, due))"
    using l e by (auto simp: entry_ok_def split: if_splits)
  then show False
    using assms(2) by (auto simp: bench_line_busy_def bench_l1_busy_def list_ex_iff dest: map_of_SomeD)
qed

lemma coherent_store:
  assumes "bench_store seed l offset sz val s = Inr s'" "bench_coherent seed s" "\<not> bench_line_busy s l"
  shows "bench_coherent seed s'"
proof -
  have b: "bench_basic s'"
    using basic_step [of seed s "Store l offset sz val" s'] assms(1,2) by (simp add: bench_coherent_def)
  from assms(1) obtain d' where s': "s' = bench_log l d' (s\<lparr>b_copies := (b_copies s)(l \<mapsto> (CM, d'))\<rparr>)"
    by (auto elim: bench_store_Inr)
  have "fresh_ok seed (b_arch s') (b_copies s')"
    using assms(2) by (simp add: s' bench_coherent_def fresh_ok_def bench_log_def)
  moreover have "entry_ok (b_copies s') (map_of (b_puts s')) (b_probe s') e" if "e \<in> set (b_upq s')" for e
  proof -
    have e: "e \<in> set (b_upq s)" using that by (simp add: s' bench_log_def)
    show ?thesis
      by (rule entry_ok_frame [OF coherent_entry [OF assms(2) e]])
         (use not_busy_not_queued [OF assms(2,3) e] in \<open>simp_all add: s' bench_log_def\<close>)
  qed
  ultimately show ?thesis using b assms(2) by (simp add: bench_coherent_def s' bench_log_def)
qed

lemma coherent_evict:
  assumes "bench_evict l tid s = Inr s'" "bench_coherent seed s" "\<not> bench_line_busy s l"
  shows "bench_coherent seed s'"
  using assms(1)
proof (rule bench_evict_Inr)
  fix st d
  assume c: "b_copies s l = Some (st, d)" and t: "tid \<notin> fst ` set (b_puts s)"
    and s': "s' = s\<lparr>b_puts := AList.update tid (l, False) (b_puts s), b_upq := b_upq s @ [(PUT, st = CM, l, tid, d)]\<rparr>"
  have n: "map_of (b_puts s) tid = None" using t by (simp add: map_of_eq_None_iff)
  have "entry_ok (b_copies s) ((map_of (b_puts s))(tid \<mapsto> (l, False))) (b_probe s) e" if "e \<in> set (b_upq s)" for e
  proof -
    have "entry_ok (b_copies s) (map_of (b_puts s)) (b_probe s) e"
      using that assms(2) by (simp add: bench_coherent_def)
    then show ?thesis using n by (cases e) (auto simp: entry_ok_def split: if_splits)
  qed
  moreover have "l \<notin> up_line ` set (b_upq s)" using not_busy_not_queued [OF assms(2,3)] by blast
  moreover have "entry_ok (b_copies s) ((map_of (b_puts s))(tid \<mapsto> (l, False))) (b_probe s) (PUT, st = CM, l, tid, d)"
    using c by (simp add: entry_ok_def)
  ultimately show ?thesis
    using assms(2) by (simp add: bench_coherent_def s' bench_basic_def)
qed

lemma coherent_submit:
  assumes "bench_submit c op l tid err msk d s = Inr s'" "bench_coherent seed s"
  shows "bench_coherent seed s'"
proof -
  have "bench_basic s'" using basic_submit [OF assms(1)] assms(2) by (simp add: bench_coherent_def)
  moreover obtain t where "s' = s\<lparr>b_present := (b_present s)(c := Some t)\<rparr>"
    using assms(1) by (rule bench_submit_Inr)
  ultimately show ?thesis using assms(2) by (simp add: bench_coherent_def)
qed

lemma coherent_answer:
  assumes "bench_answer s = Inr s'" "bench_coherent seed s"
  shows "bench_coherent seed s'"
  using bench_answer_Inr [OF assms(1)] assms(2) by (auto simp: bench_coherent_def bench_basic_def entry_ok_def)

lemma coherent_grant:
  assumes "bench_grant seed t op err d s = Inr (d', s')" "bench_coherent seed s"
    "tx_line t \<notin> up_line ` set (b_upq s)"
  shows "bench_coherent seed s'"
  using bench_grant_Inr [OF assms(1)]
proof
  assume "\<exists>h st. (h, st) \<in> {(HS, CS), (HX, CE)} \<and> d' = bench_golden seed s (tx_line t) \<and>
      (b_copies s (tx_line t) = None \<or> (\<exists>x. b_copies s (tx_line t) = Some x)) \<and>
      s' = s\<lparr>b_held := AList.update (tx_line t) h (b_held s), b_copies := (b_copies s)(tx_line t \<mapsto> (st, d'))\<rparr>"
  then obtain h st where d': "d' = bench_golden seed s (tx_line t)"
    and s': "s' = s\<lparr>b_held := AList.update (tx_line t) h (b_held s), b_copies := (b_copies s)(tx_line t \<mapsto> (st, d'))\<rparr>"
    by blast
  have "fresh_ok seed (b_arch s') (b_copies s')"
    using assms(2) d' by (simp add: s' bench_coherent_def fresh_ok_def bench_golden_def)
  moreover have "entry_ok (b_copies s') (map_of (b_puts s')) (b_probe s') e" if "e \<in> set (b_upq s')" for e
  proof -
    have e: "e \<in> set (b_upq s)" using that by (simp add: s')
    with assms(3) have "up_line e \<noteq> tx_line t" by (metis imageI)
    then show ?thesis by (intro entry_ok_frame [OF coherent_entry [OF assms(2) e]]) (simp_all add: s')
  qed
  moreover have "bench_basic s'" using basic_grant [OF assms(1)] assms(2) by (simp add: bench_coherent_def)
  ultimately show ?thesis using assms(2) by (simp add: bench_coherent_def s')
qed (use assms(2) in simp)

lemma coherent_dma_ack:
  assumes "bench_dma_ack seed t op err s = Inr s'" "bench_coherent seed s"
  shows "bench_coherent seed s'"
proof -
  have b: "bench_basic s'" using basic_dma_ack [OF assms(1)] assms(2) by (simp add: bench_coherent_def)
  obtain n where "s' = s\<lparr>b_dma_done := n\<rparr> \<or>
      (\<exists>d. s' = (bench_log (tx_line t) d s)\<lparr>b_dma_done := n\<rparr> \<and> map_of (b_held s) (tx_line t) = None)"
    using bench_dma_ack_Inr [OF assms(1)] by blast
  moreover have "b_copies s (tx_line t) = None" if "map_of (b_held s) (tx_line t) = None"
    using that assms(2) perm_agreeD(1) by (auto simp: bench_coherent_def bench_basic_def)
  ultimately show ?thesis
    using assms(2) b by (auto simp: bench_coherent_def bench_log_def fresh_ok_def)
qed

lemma coherent_response:
  assumes "bench_response seed p v c s = Inr s'" "bench_coherent seed s" "c = 0 \<Longrightarrow> bench_grant_ok s v"
  shows "bench_coherent seed s'"
  using assms(1)
proof (cases rule: bench_response_Inr)
  case quiet
  with assms(2) show ?thesis by simp
next
  case (putack tid l)
  have "bench_basic s'" using basic_response [OF assms(1)] assms(2) by (simp add: bench_coherent_def)
  moreover have "entry_ok (b_copies s) ((map_of (b_puts s))(tid := None)) (b_probe s) e" if "e \<in> set (b_upq s)" for e
  proof -
    have "entry_ok (b_copies s) (map_of (b_puts s)) (b_probe s) e" using that assms(2) by (simp add: bench_coherent_def)
    with putack(2) show ?thesis by (cases e) (auto simp: entry_ok_def split: if_splits)
  qed
  ultimately show ?thesis using assms(2) putack(3) by (simp add: bench_coherent_def)
next
  case (txn tid t op err d s2)
  have b: "bench_coherent seed (bench_taken s c tid)"
    using assms(2) basic_taken [OF _ txn(2)] by (simp add: bench_coherent_def)
  have l: "tx_line t \<notin> up_line ` set (b_upq (bench_taken s c tid))" if "c = 0"
    using assms(3) txn(1-4) that by (auto simp: bench_grant_ok_def)
  have "bench_coherent seed s2"
    using txn(5) coherent_grant [OF _ b l] coherent_dma_ack [OF _ b] b bench_core_coherent [OF bench_read_data_core]
    by (auto split: if_splits)
  then have "bench_coherent seed (bench_finish_txn c t op err x s2)" for x
    using bench_core_coherent [OF finish_core] by blast
  then show ?thesis using txn(5) by (auto split: if_splits)
qed

lemma coherent_up:
  assumes "bench_up v s = Inr s'" "bench_coherent seed s"
  shows "bench_coherent seed s'"
proof -
  have b: "bench_basic s'" using basic_up [OF assms(1)] assms(2) by (simp add: bench_coherent_def)
  have p: "perm_agree (b_held s) (b_copies s)" and f: "fresh_ok seed (b_arch s) (b_copies s)"
    and d: "distinct (map up_line (b_upq s))"
    and q: "\<And>e. e \<in> set (b_upq s) \<Longrightarrow> entry_ok (b_copies s) (map_of (b_puts s)) (b_probe s) e"
    using assms(2) by (simp_all add: bench_coherent_def bench_basic_def)
  show ?thesis
    using assms(1)
  proof (cases rule: bench_up_Inr)
    case quiet
    with assms(2) show ?thesis by simp
  next
    case (put dirty l tid x rest st y)
    have "entry_ok (b_copies s) (map_of (b_puts s)) (b_probe s) (PUT, dirty, l, tid, x)" using q put(1) by simp
    then have h: "map_of (b_puts s) tid = Some (l, False)" by (simp add: entry_ok_def)
    have "entry_ok ((b_copies s)(l := None)) ((map_of (b_puts s))(tid \<mapsto> (l, True))) (b_probe s) e" if "e \<in> set rest" for e
    proof -
      have e: "e \<in> set (b_upq s)" and l: "up_line e \<noteq> l" using d put(1) that by force+
      show ?thesis by (rule entry_ok_frame [OF q [OF e]]) (use l h in auto)
    qed
    moreover have "fresh_ok seed (b_arch s) ((b_copies s)(l := None))" using f by (simp add: fresh_ok_def)
    ultimately show ?thesis using b d put by (simp add: bench_coherent_def)
  next
    case (inv op dirty l tid x rest)
    have "entry_ok (b_copies s) (map_of (b_puts s)) (b_probe s) (op, dirty, l, tid, x)" using q inv(1) by simp
    then have pr: "\<exists>a b due. b_probe s = Some (a, b, l, due)" using inv(2) by (simp add: entry_ok_def)
    have "entry_ok ((b_copies s)(l := None)) (map_of (b_puts s)) None e" if "e \<in> set rest" for e
    proof -
      have e: "e \<in> set (b_upq s)" and l: "up_line e \<noteq> l" using d inv(1) that by force+
      show ?thesis by (rule entry_ok_frame [OF q [OF e]]) (use l pr in auto)
    qed
    moreover have "fresh_ok seed (b_arch s) ((b_copies s)(l := None))" using f by (simp add: fresh_ok_def)
    ultimately show ?thesis using b d inv by (simp add: bench_coherent_def)
  next
    case (down op dirty l tid x rest h)
    have e0: "entry_ok (b_copies s) (map_of (b_puts s)) (b_probe s) (op, dirty, l, tid, x)" using q down(1) by simp
    then have pr: "\<exists>a b due. b_probe s = Some (a, b, l, due)" using down(2) by (simp add: entry_ok_def)
    obtain st y where c: "b_copies s l = Some (st, y)"
      using perm_agreeD(1) [OF p, of l] down(3) by auto
    with e0 have "x = y" by (simp add: entry_ok_def)
    have "entry_ok ((b_copies s)(l \<mapsto> (CS, x))) (map_of (b_puts s)) None e" if "e \<in> set rest" for e
    proof -
      have e: "e \<in> set (b_upq s)" and l: "up_line e \<noteq> l" using d down(1) that by force+
      show ?thesis by (rule entry_ok_frame [OF q [OF e]]) (use l pr in auto)
    qed
    moreover have "fresh_ok seed (b_arch s) ((b_copies s)(l \<mapsto> (CS, x)))" using f c \<open>x = y\<close> by (auto simp: fresh_ok_def)
    ultimately show ?thesis using b d down by (simp add: bench_coherent_def)
  next
    case (absent op dirty l tid x rest)
    have "entry_ok (b_copies s) (map_of (b_puts s)) (b_probe s) (op, dirty, l, tid, x)" using q absent(1) by simp
    then have pr: "\<exists>a b due. b_probe s = Some (a, b, l, due)" using absent(2) by (simp add: entry_ok_def)
    have "entry_ok (b_copies s) (map_of (b_puts s)) None e" if "e \<in> set rest" for e
    proof -
      have e: "e \<in> set (b_upq s)" and l: "up_line e \<noteq> l" using d absent(1) that by force+
      show ?thesis by (rule entry_ok_frame [OF q [OF e]]) (use l pr in auto)
    qed
    then show ?thesis using b d f absent by (simp add: bench_coherent_def)
  qed
qed

lemma coherent_snoop:
  assumes "bench_snoop cfg p v s = Inr s'" "bench_coherent seed s"
  shows "bench_coherent seed s'"
proof -
  have "bench_basic s'" using basic_snoop [OF assms(1)] assms(2) by (simp add: bench_coherent_def)
  moreover have "entry_ok (b_copies s) (map_of (b_puts s)) pr e" if "e \<in> set (b_upq s)" "b_probe s = None" for pr e
    by (rule entry_ok_frame [OF coherent_entry [OF assms(2) that(1)]]) (simp_all add: that(2))
  ultimately show ?thesis
    using bench_snoop_Inr [OF assms(1)] assms(2) by (auto simp: bench_coherent_def)
qed

lemma coherent_accept:
  assumes "bench_accept v c s = Inr s'" "bench_coherent seed s"
  shows "bench_coherent seed s'"
proof -
  have "bench_basic s'" using basic_accept [OF assms(1)] assms(2) by (simp add: bench_coherent_def)
  then show ?thesis using bench_accept_Inr [OF assms(1)] assms(2) by (auto simp: bench_coherent_def)
qed

lemma grant_ok_cong:
  assumes "b_out s' = b_out s" "b_upq s' = b_upq s"
  shows "bench_grant_ok s' v = bench_grant_ok s v"
  unfolding bench_grant_ok_def assms ..

lemma submit_frame:
  assumes "bench_submit c op l tid err msk d s = Inr s'"
  shows "b_out s' = b_out s" "b_upq s' = b_upq s" "b_puts s' = b_puts s" "b_probe s' = b_probe s"
  using assms by (auto elim!: bench_submit_Inr)

lemma coherent_prepare:
  assumes "bench_prepare cfg r s = Inr s'" "bench_coherent seed s" "bench_grant_ok s v"
  shows "bench_coherent seed s' \<and> bench_grant_ok s' v"
proof -
  from assms(1) obtain s1 s2 s3 where s: "bench_issue_i s = Inr s1" "bench_issue_dma s1 = Inr s2"
    "bench_answer s2 = Inr s3" "s' = bench_drive_b (bench_drive_r cfg r s3)"
    by (auto simp: bench_prepare_def py_bind_Inr_iff)
  have script: "bench_coherent seed (x\<lparr>b_i_script := q\<rparr>) = bench_coherent seed x"
    "bench_coherent seed (x\<lparr>b_dma_script := q'\<rparr>) = bench_coherent seed x"
    for x q q' by (rule bench_core_coherent, simp add: bench_core_def)+
  have c1: "bench_coherent seed s1" using bench_issue_i_Inr [OF s(1)] assms(2) by (auto intro: coherent_submit simp: script)
  then have c2: "bench_coherent seed s2" using bench_issue_dma_Inr [OF s(2)] by (auto intro: coherent_submit simp: script)
  then have c3: "bench_coherent seed s3" using coherent_answer [OF s(3)] by simp
  have f1: "b_out s1 = b_out s" "b_upq s1 = b_upq s"
    using bench_issue_i_Inr [OF s(1)] by (auto dest: submit_frame)
  have f2: "b_out s2 = b_out s1" "b_upq s2 = b_upq s1"
    using bench_issue_dma_Inr [OF s(2)] by (auto dest: submit_frame)
  have g2: "bench_grant_ok s2 v" using assms(3) grant_ok_cong [of s2 s v] by (simp add: f1 f2)
  have "bench_grant_ok s3 v"
    using bench_answer_Inr [OF s(3)]
  proof
    assume "\<exists>op owner l due op' dirty d. b_probe s2 = Some (op, owner, l, due) \<and> b_upq s2 = [] \<and>
      \<not> bench_l1_busy s2 l \<and> s3 = s2\<lparr>b_upq := [(op', dirty, l, 0, d)]\<rparr> \<and> op' \<noteq> PUT \<and>
      (\<forall>st x. b_copies s2 l = Some (st, x) \<longrightarrow> d = x \<and> dirty = (st = CM))"
    then obtain l op' dirty d where l: "\<not> bench_l1_busy s2 l" "s3 = s2\<lparr>b_upq := [(op', dirty, l, 0, d)]\<rparr>" by blast
    have "tx_line t \<noteq> l" if "map_of (b_out s2 0) tid = Some t" for tid t
      using l(1) map_of_SomeD [OF that] by (auto simp: bench_l1_busy_def list_ex_iff)
    then show ?thesis by (auto simp: bench_grant_ok_def l(2) split: option.splits)
  qed (use g2 in simp)
  moreover have "b_out s' = b_out s3" "b_upq s' = b_upq s3"
    using bench_core_drive(1) [of cfg r s3] bench_core_drive(2) [of "bench_drive_r cfg r s3"]
    by (simp_all add: s(4) bench_core_def)
  moreover have "bench_coherent seed s'"
    using s(4) c3 bench_core_coherent [OF bench_core_drive(1)] bench_core_coherent [OF bench_core_drive(2)] by simp
  ultimately show ?thesis using grant_ok_cong [of s' s3 v] by simp
qed

lemma coherent_tick:
  assumes "bench_tick seed cfg r v s = Inr s'" "bench_coherent seed s" "bench_grant_ok s v"
  shows "bench_coherent seed s'"
proof -
  from assms(1) obtain s1 p s2 where t: "bench_prepare cfg r s = Inr s1" "bench_sample seed cfg r p v s1 = Inr s2"
    "s' = s2\<lparr>b_cycle := b_cycle s2 + 1, b_mon := v_mon v\<rparr>"
    by (auto simp: bench_tick_def py_bind_Inr_iff)
  have c1: "bench_coherent seed s1" "bench_grant_ok s1 v" using coherent_prepare [OF t(1) assms(2,3)] by simp_all
  have c0: "bench_coherent seed (s1\<lparr>b_slot_full := n, b_stalled := st\<rparr>)"
    "bench_grant_ok (s1\<lparr>b_slot_full := n, b_stalled := st\<rparr>) v" for n st
    using c1 bench_core_coherent [of "s1\<lparr>b_slot_full := n, b_stalled := st\<rparr>" s1]
      grant_ok_cong [of "s1\<lparr>b_slot_full := n, b_stalled := st\<rparr>" s1 v]
    by (simp_all add: bench_core_def)
  from t(2) have "bench_coherent seed s2"
  proof (rule bench_sample_Inr)
    fix st x0 x1 x2 x3 x4 x5 x6 x7
    assume x0: "x0 = s1\<lparr>b_slot_full := b_slot_full s1 + v_mon_slot_full v, b_stalled := st\<rparr>"
      and x: "bench_response seed p v 0 x0 = Inr x1" "bench_response seed p v 1 x1 = Inr x2"
      "bench_response seed p v 2 x2 = Inr x3" "bench_up v x3 = Inr x4" "bench_snoop cfg p v x4 = Inr x5"
      "bench_accept v 0 x5 = Inr x6" "bench_accept v 1 x6 = Inr x7"
      "\<exists>s8. bench_accept v 2 x7 = Inr s8 \<and> bench_core s2 = bench_core s8"
    have "bench_coherent seed x1" using coherent_response [OF x(1)] c0 by (simp add: x0)
    then have "bench_coherent seed x2" using coherent_response [OF x(2)] by simp
    then have "bench_coherent seed x3" using coherent_response [OF x(3)] by simp
    then have "bench_coherent seed x7" by (metis x(4-7) coherent_up coherent_snoop coherent_accept)
    then show ?thesis using x(8) coherent_accept bench_core_coherent by metis
  qed
  then show ?thesis
    using history_ok_later [of "b_arch s2" "b_history s2" "b_cycle s2"]
    by (simp add: t(3) bench_coherent_def bench_basic_def)
qed

lemma coherent_init: "bench_coherent seed bench_init"
  using basic_init by (simp add: bench_coherent_def fresh_ok_def bench_init_def)

lemma coherent_step:
  assumes "bench_step seed s op = Inr s'" "bench_coherent seed s" "bench_env s op"
  shows "bench_coherent seed s'"
proof (cases op)
  case (Script lines dmas)
  with assms(1,2) show ?thesis
    by (auto intro!: bench_core_coherent [THEN iffD2, of _ s] simp: bench_core_def)
qed (use assms coherent_store coherent_submit coherent_evict coherent_tick in auto)

interpretation bench_proto: monitored bench_init "bench_step seed" bench_env "bench_coherent seed" for seed
  by unfold_locales (auto intro: coherent_init coherent_step)

section \<open>What an accepted run guarantees\<close>

text \<open>C6: Whatever the tests ask for and whatever the hardware drives, as long as no check fails: the L1D's copies
  and its permissions agree line by line (a shared copy under a shared permission, an exclusive or
  modified one under an exclusive permission), no client exceeds its credits, and the identifier of a
  presented request is free.\<close>

theorem bench_permissions:
  assumes "py_run (bench_step seed) bench_init ops = Inr s"
  shows "(\<forall>l. (map_of (b_held s) l = None \<longleftrightarrow> b_copies s l = None) \<and>
      (map_of (b_held s) l = Some HS \<longleftrightarrow> (\<exists>d. b_copies s l = Some (CS, d))) \<and>
      (map_of (b_held s) l = Some HX \<longleftrightarrow> (\<exists>d. b_copies s l = Some (CE, d) \<or> b_copies s l = Some (CM, d)))) \<and>
    (\<forall>c. length (bench_pending s c) \<le> (if c = 2 then 1 else 4)) \<and>
    (\<forall>c t. b_present s c = Some t \<longrightarrow> tx_tid t \<notin> fst ` set (b_out s c))"
proof -
  have "bench_any.run_ok seed x is" for x "is"
    by (induction "is" arbitrary: x) (auto split: sum.splits)
  then have "bench_basic s"
    by (rule bench_any.run_inv [OF basic_init _ assms])
  then have p: "perm_agree (b_held s) (b_copies s)" and c: "credit_ok (b_present s) (b_out s)"
    by (simp_all add: bench_basic_def)
  have "length (bench_pending s c) = length (b_out s c) + of_bool (b_present s c \<noteq> None)" for c
    by (simp add: bench_pending_def split: option.splits)
  with c have "length (bench_pending s c) \<le> (if c = 2 then 1 else 4)" for c
    by (auto simp: credit_ok_def)
  with c perm_agreeD [OF p] show ?thesis by (auto simp: credit_ok_def)
qed

text \<open>C5: When moreover the tests leave lines in flight alone and the home node grants no line whose put or answer
  it has not taken: every copy holds the line's golden value, and every put or dirty answer that is
  queued for a held line carries it.\<close>

theorem bench_coherence:
  assumes "py_run (bench_step seed) bench_init ops = Inr s" "bench_proto.run_ok seed bench_init ops"
  shows "(\<forall>l st d. b_copies s l = Some (st, d) \<longrightarrow> d = bench_golden seed s l) \<and>
    (\<forall>(op, dirty, l, tid, d) \<in> set (b_upq s). map_of (b_held s) l \<noteq> None \<longrightarrow>
       d = bench_golden seed s l \<and> (dirty \<longleftrightarrow> (\<exists>x. b_copies s l = Some (CM, x))))"
proof -
  have c: "bench_coherent seed s" by (rule bench_proto.run_inv [OF coherent_init assms(2,1)])
  then have f: "d = bench_golden seed s l" if "b_copies s l = Some (st, d)" for l st d
    using that by (simp add: bench_coherent_def fresh_ok_def bench_golden_def)
  have "d = bench_golden seed s l \<and> (dirty \<longleftrightarrow> (\<exists>x. b_copies s l = Some (CM, x)))"
    if "(op, dirty, l, tid, d) \<in> set (b_upq s)" "map_of (b_held s) l \<noteq> None" for op dirty l tid d
  proof -
    have "b_copies s l \<noteq> None"
      using that(2) c perm_agreeD(1) [of "b_held s" "b_copies s" l]
      unfolding bench_coherent_def bench_basic_def by metis
    then obtain st x where x: "b_copies s l = Some (st, x)" by auto
    with coherent_entry [OF c that(1)] have "d = x" "dirty = (st = CM)" by (simp_all add: entry_ok_def)
    with x f show ?thesis by auto
  qed
  with f show ?thesis by blast
qed

text \<open>The value of a line after the first \<open>k\<close> writes of its history.\<close>

definition value_after :: "nat \<Rightarrow> (nat \<times> nat) list \<Rightarrow> nat \<Rightarrow> nat" where
  "value_after ini hist k = (if k = 0 then ini else snd (hist ! (k - 1)))"

lemma legal_reads_sound:
  assumes "sorted (map fst hist)" "d \<in> set (bench_legal_reads ini hist start now)"
  shows "\<exists>k \<le> length hist. (\<forall>i < length hist. fst (hist ! i) \<le> start \<longrightarrow> i < k) \<and> d = value_after ini hist k"
proof -
  define n where "n = length (filter (\<lambda>(cycle, _). cycle \<le> start) hist)"
  have old: "filter (\<lambda>(cycle, _). cycle \<le> start) hist = take n hist"
    and early: "\<And>i. i < length hist \<Longrightarrow> fst (hist ! i) \<le> start \<longleftrightarrow> i < n" and n: "n \<le> length hist"
    using assms(1) unfolding n_def
  proof (induction hist)
    case Nil
    { case 1 show ?case by simp next case 2 then show ?case by simp next case 3 show ?case by simp }
  next
    case (Cons x xs)
    { case 1
      show ?case
      proof (cases "fst x \<le> start")
        case True
        with Cons(1) 1 show ?thesis by (simp add: case_prod_beta)
      next
        case False
        with 1 have "\<forall>y \<in> set xs. \<not> fst y \<le> start" by auto
        with False show ?thesis by (simp add: case_prod_beta filter_empty_conv)
      qed
    next
      case (2 i)
      show ?case
      proof (cases "fst x \<le> start")
        case True
        with Cons(2) 2 show ?thesis by (cases i) (simp_all add: case_prod_beta)
      next
        case False
        with 2(2) have "\<forall>y \<in> set (x # xs). \<not> fst y \<le> start" by auto
        then have "filter (\<lambda>(cycle, _). cycle \<le> start) (x # xs) = []" by (auto simp: filter_empty_conv)
        with 2(1) \<open>\<forall>y \<in> set (x # xs). _\<close> show ?thesis by (metis length_0_conv less_nat_zero_code nth_mem)
      qed
    next
      case 3
      show ?case by (rule length_filter_le)
    }
  qed
  have "d = value_after ini hist n \<or> (\<exists>x \<in> set hist. start < fst x \<and> d = snd x)"
    using assms(2) n unfolding bench_legal_reads_def old Let_def
    by (cases "n = 0") (fastforce simp: value_after_def last_conv_nth min_absorb2)+
  then consider (old) "d = value_after ini hist n" | (new) x where "x \<in> set hist" "start < fst x" "d = snd x"
    by blast
  then show ?thesis
  proof cases
    case old
    with early n show ?thesis by (intro exI [of _ n]) auto
  next
    case new
    then obtain j where j: "j < length hist" "hist ! j = x" by (metis in_set_conv_nth)
    with new early [of j] have "n \<le> j" by auto
    with early j new show ?thesis by (intro exI [of _ "Suc j"]) (auto simp: value_after_def)
  qed
qed

text \<open>C7: An instruction or DMA read that completes without an error returned the value its line had at some moment
  between its submission and its completion: the value after a prefix of the line's writes that
  includes all writes up to the submission. The line is not exclusively held at that moment.\<close>

theorem bench_read_window:
  assumes "bench_basic s" "bench_response seed p v c s = Inr s'" "v_resp_valid v c" "pn_resp_ready p c" "c \<noteq> 0"
    "link_response (v_resp v c) = (op, tid, 0, d)" "map_of (b_out s c) tid = Some t" "c = 1 \<or> tx_op t \<noteq> MASKWRITE"
  shows "map_of (b_held s) (tx_line t) \<noteq> Some HX \<and>
    (\<exists>k \<le> length (b_history s (tx_line t)).
      (\<forall>i < length (b_history s (tx_line t)). fst (b_history s (tx_line t) ! i) \<le> tx_start t \<longrightarrow> i < k) \<and>
      d = value_after (bench_initial seed (tx_line t)) (b_history s (tx_line t)) k)"
proof -
  have "\<exists>s2. bench_read_data seed c t op 0 d (bench_taken s c tid) = Inr s2"
    using assms(2-8) by (auto simp: bench_response_def bench_taken_def py_bind_Inr_iff split: if_splits)
  then have "map_of (b_held s) (tx_line t) \<noteq> Some HX"
    "d \<in> set (bench_legal_reads (bench_initial seed (tx_line t)) (b_history s (tx_line t)) (tx_start t) (b_cycle s))"
    by (auto simp: bench_read_data_def py_bind_Inr_iff)
  with legal_reads_sound assms(1) show ?thesis by (auto simp: bench_basic_def history_ok_def)
qed

text \<open>The memory returns what was written: when the four beats of a write burst commit and the same line is then
  read, the burst that is set up delivers those four beats in order.\<close>

theorem bench_axi_roundtrip:
  assumes "bench_commit r s = Inr s1" "b_awq s = (wid, line) # rest" "4 \<le> length (b_wq s)"
    "\<forall>x \<in> set (b_wq s). fst x < 2 ^ 128" "bench_ar seed r' p v s1 = Inr s2" "v_arvalid v" "pn_arready p"
    "v_ar v = (rid, line * 64, len, sz, burst)"
  shows "\<exists>d due. map_of (b_readq s2) rid = Some (line, d, 0, due) \<and>
    (\<forall>i < 4. lane 128 i d = fst (b_wq s ! i)) \<and> map snd (take 4 (b_wq s)) = [0, 0, 0, 1]"
proof -
  let ?vs = "map fst (take 4 (b_wq s))"
  have s1: "b_ram s1 line = Some (join_lanes 128 ?vs)" "map snd (take 4 (b_wq s)) = [0, 0, 0, 1]"
    using assms(1-3) by (auto simp: bench_commit_def py_bind_Inr_iff Let_def)
  have line: "drop_bit 6 (line * 64) = line" by (simp add: drop_bit_eq_div)
  from assms(5-8) have "\<exists>due. map_of (b_readq s2) rid = Some (line, bench_backing seed s1 line, 0, due)"
    by (auto simp: bench_ar_def py_bind_Inr_iff line)
  moreover have "bench_backing seed s1 line = join_lanes 128 ?vs" using s1 by (simp add: bench_backing_def)
  moreover have "lane 128 i (join_lanes 128 ?vs) = fst (b_wq s ! i)" if "i < 4" for i
  proof -
    have "\<forall>v \<in> set ?vs. v < 2 ^ 128" using assms(4) by (auto dest: in_set_takeD)
    moreover have "i < length ?vs" using that assms(3) by simp
    ultimately show ?thesis using that assms(3) lane_join [of ?vs 128 i] by simp
  qed
  ultimately show ?thesis using s1(2) by auto
qed

section \<open>Witnesses\<close>

text \<open>A run that misses, is granted line 5 exclusively, stores to it and evicts it.\<close>

definition bench_demo_cfg :: bench_cfg where
  "bench_demo_cfg = \<lparr>bc_sets = 1, bc_ways = 1, bc_errors = [], bc_block_r = False, bc_response_ready = (\<lambda>_. Some True),
     bc_probe_delay = 0, bc_backpressure = False, bc_dma_enabled = False\<rparr>"

definition bench_demo_rng :: bench_rng where
  "bench_demo_rng = \<lparr>rg_resp = (\<lambda>_. True), rg_snp = True, rg_ar = True, rg_aw = True, rg_w = True, rg_r = True,
     rg_pick = 0, rg_rdelay = 0, rg_bdelay = 0\<rparr>"

definition bench_demo_dut :: bench_dut where
  "bench_demo_dut = \<lparr>v_resp_valid = (\<lambda>_. False), v_resp = (\<lambda>_. 0), v_req_ready = (\<lambda>_. True), v_up_ready = False,
     v_snp_valid = False, v_snp = 0, v_arvalid = False, v_ar = (0, 0, 0, 0, 0), v_awvalid = False,
     v_aw = (0, 0, 0, 0, 0), v_wvalid = False, v_w = (0, 0, 0), v_rready = False, v_bready = False,
     v_fatal = 0, v_mon_slot_full = 0,
     v_mon = \<lparr>mn_valid = 0, mn_sharer = 0, mn_state = 0, mn_addr = 0, mn_slot_busy = False\<rparr>\<rparr>"

definition bench_demo_grant :: "nat \<Rightarrow> bench_dut" where
  "bench_demo_grant w = bench_demo_dut\<lparr>v_resp_valid := (\<lambda>c. c = 0), v_resp := (\<lambda>_. w)\<rparr>"

definition bench_demo_txn :: txn where
  "bench_demo_txn = \<lparr>tx_op = GETM, tx_line = 5, tx_tid = 0, tx_start = 0, tx_error = False, tx_accepted = False,
     tx_mask = 0, tx_data = 0\<rparr>"

definition bench_demo_ops :: "nat \<Rightarrow> bench_op list" where
  "bench_demo_ops w = [Submit 0 GETM 5 None False 0 0, Tick bench_demo_cfg bench_demo_rng bench_demo_dut,
     Tick bench_demo_cfg bench_demo_rng (bench_demo_grant w), Store 5 0 1 7, Evict 5 0]"

definition bench_demo1 :: bench where
  "bench_demo1 = bench_init\<lparr>b_present := (\<lambda>_. None)(0 := Some bench_demo_txn)\<rparr>"

definition bench_demo2 :: bench where
  "bench_demo2 = bench_init\<lparr>b_cycle := 1,
     b_out := (\<lambda>_. [])(0 := [(0, bench_demo_txn\<lparr>tx_accepted := True\<rparr>)])\<rparr>"

definition bench_demo3 :: "nat \<Rightarrow> bench" where
  "bench_demo3 seed = bench_init\<lparr>b_cycle := 2, b_held := [(5, HX)], b_copies := [5 \<mapsto> (CE, bench_initial seed 5)],
     b_done := [(0, bench_demo_txn\<lparr>tx_accepted := True\<rparr>, DATAE, 0, bench_initial seed 5)]\<rparr>"

lemmas bench_demo_defs = bench_demo_cfg_def bench_demo_rng_def bench_demo_dut_def bench_demo_grant_def bench_demo_txn_def

lemmas bench_pre_defs = bench_prepare_def bench_issue_i_def bench_issue_dma_def bench_answer_def
  bench_drive_b_def bench_drive_r_def bench_drive_def bench_req_pin_def bench_up_pin_def bench_chance_def

lemmas bench_post_defs = bench_sample_def bench_channels_def bench_up_def bench_snoop_def bench_ar_def bench_r_def
  bench_aw_def bench_w_def bench_commit_def bench_b_def bench_directory_check_def

lemma bench_demo_req: "\<exists>w. link_req (Suc 0) 5 0 0 0 = Inr w"
  unfolding link_req_def pack_def by (rule pack_from_total) simp

lemma bench_demo_submit:
  "bench_step seed bench_init (Submit 0 GETM 5 None False 0 0) = Inr bench_demo1"
  by (simp add: bench_submit_def bench_init_def bench_demo1_def bench_demo_txn_def py_assert_def upt_rec fun_upd_def)

lemma py_assert_True [simp]: "py_assert True = Inr ()"
  by (simp add: py_assert_def)

lemma bench_demo_accept:
  "bench_step seed bench_demo1 (Tick bench_demo_cfg bench_demo_rng bench_demo_dut) = Inr bench_demo2"
proof -
  obtain w where w: "link_req (Suc 0) 5 0 0 0 = Inr w" using bench_demo_req by blast
  have pre: "bench_prepare bench_demo_cfg bench_demo_rng bench_demo1 = Inr bench_demo1"
    by (simp add: bench_pre_defs bench_demo1_def bench_init_def bench_demo_defs)
  have "\<exists>p. bench_drive bench_demo_cfg bench_demo_rng bench_demo1 = Inr p"
    by (simp add: bench_pre_defs bench_demo1_def bench_init_def bench_demo_defs w)
  then obtain p where p: "bench_drive bench_demo_cfg bench_demo_rng bench_demo1 = Inr p" by blast
  have "bench_sample seed bench_demo_cfg bench_demo_rng p bench_demo_dut bench_demo1 = Inr (bench_demo2\<lparr>b_cycle := 0\<rparr>)"
    by (simp add: bench_post_defs bench_demo1_def bench_demo2_def bench_init_def bench_demo_defs bench_response_def
        bench_accept_def Let_def eval_nat_numeral fun_upd_idem)
  with pre p show ?thesis
    by (simp add: bench_tick_def bench_directory_check_def bench_demo_defs bench_demo2_def bench_init_def)
qed

text \<open>The response word: exclusive data for transaction 0.\<close>

lemma bench_initial_bound: "bench_initial seed line < 2 ^ 512"
proof -
  have "\<forall>b \<in> set (map (\<lambda>i. (line * 17 + i * 29 + seed) AND 255) [0..<64]). b < 256"
    using and_mask_less [of _ 8] by simp
  from bytes_le_less [OF this] show ?thesis by (simp add: bench_initial_def power_mult [symmetric])
qed

lemma bench_demo_word: "\<exists>w. link_response w = (DATAE, 0, 0, bench_initial seed 5)"
  using link_response_pack [of DATAE 0 0 "bench_initial seed 5"] bench_initial_bound [of seed 5] by auto

lemma bench_demo_response:
  assumes "link_response w = (DATAE, 0, 0, bench_initial seed 5)"
  shows "bench_step seed bench_demo2 (Tick bench_demo_cfg bench_demo_rng (bench_demo_grant w)) = Inr (bench_demo3 seed)"
proof -
  have pre: "bench_prepare bench_demo_cfg bench_demo_rng bench_demo2 = Inr bench_demo2"
    by (simp add: bench_pre_defs bench_demo2_def bench_init_def bench_demo_defs)
  have "\<exists>p. bench_drive bench_demo_cfg bench_demo_rng bench_demo2 = Inr p \<and> pn_resp_ready p 0"
    by (simp add: bench_pre_defs bench_demo2_def bench_init_def bench_demo_defs)
  then obtain p where p: "bench_drive bench_demo_cfg bench_demo_rng bench_demo2 = Inr p" "pn_resp_ready p 0" by blast
  have "bench_sample seed bench_demo_cfg bench_demo_rng p (bench_demo_grant w) bench_demo2 =
      Inr ((bench_demo3 seed)\<lparr>b_cycle := 1\<rparr>)"
    using assms p(2)
    by (simp add: bench_post_defs bench_demo2_def bench_demo3_def bench_init_def bench_demo_defs bench_response_def
        bench_accept_def bench_grant_def bench_golden_def bench_finish_txn_def Let_def eval_nat_numeral fun_upd_idem)
  with pre p show ?thesis
    by (simp add: bench_tick_def bench_directory_check_def bench_demo_defs bench_demo3_def bench_init_def)
qed

lemma bench_demo_run:
  assumes "link_response w = (DATAE, 0, 0, bench_initial seed 5)"
  shows "\<exists>s d. py_run (bench_step seed) bench_init (bench_demo_ops w) = Inr s \<and> b_copies s = [5 \<mapsto> (CM, d)] \<and>
    b_held s = [(5, HX)] \<and> b_upq s = [(PUT, True, 5, 0, d)]"
proof -
  let ?d = "and_not (bench_initial seed 5) 255 OR 7"
  have "\<exists>s4. bench_step seed (bench_demo3 seed) (Store 5 0 1 7) = Inr s4 \<and> b_copies s4 = [5 \<mapsto> (CM, ?d)] \<and>
      b_held s4 = [(5, HX)] \<and> b_upq s4 = [] \<and> b_puts s4 = []"
    by (simp add: bench_store_def bench_demo3_def bench_init_def bench_golden_def bench_log_def Let_def)
  then obtain s4 where s4: "bench_step seed (bench_demo3 seed) (Store 5 0 1 7) = Inr s4" "b_copies s4 = [5 \<mapsto> (CM, ?d)]"
      "b_held s4 = [(5, HX)]" "b_upq s4 = []" "b_puts s4 = []" by blast
  have "\<exists>s5. bench_step seed s4 (Evict 5 0) = Inr s5 \<and> b_copies s5 = b_copies s4 \<and> b_held s5 = b_held s4 \<and>
      b_upq s5 = [(PUT, True, 5, 0, ?d)]"
    using s4(2,4,5) by (simp add: bench_evict_def)
  then obtain s5 where s5: "bench_step seed s4 (Evict 5 0) = Inr s5" "b_copies s5 = b_copies s4" "b_held s5 = b_held s4"
      "b_upq s5 = [(PUT, True, 5, 0, ?d)]" by blast
  have "py_run (bench_step seed) bench_init (bench_demo_ops w) = Inr s5"
    by (simp only: bench_demo_ops_def py_run.simps bench_demo_submit bench_demo_accept bench_demo_response [OF assms]
        py_bind_simps s4(1) s5(1))
  with s4 s5 show ?thesis by auto
qed

lemma bench_demo_env:
  assumes "link_response w = (DATAE, 0, 0, bench_initial seed 5)"
  shows "bench_proto.run_ok seed bench_init (bench_demo_ops w)"
proof -
  have "bench_grant_ok bench_demo1 bench_demo_dut" "bench_grant_ok bench_demo2 (bench_demo_grant w)"
    by (simp_all add: bench_grant_ok_def bench_demo_dut_def bench_demo_grant_def bench_demo2_def bench_init_def assms)
  moreover have "\<not> bench_line_busy (bench_demo3 seed) 5"
    by (simp add: bench_line_busy_def bench_l1_busy_def bench_pending_def bench_demo3_def bench_init_def)
  moreover have "\<not> bench_line_busy s 5" if "bench_step seed (bench_demo3 seed) (Store 5 0 1 7) = Inr s" for s
    using that
    by (auto elim!: bench_store_Inr simp: bench_line_busy_def bench_l1_busy_def bench_pending_def bench_demo3_def
        bench_init_def bench_log_def)
  moreover obtain s4 where s4: "bench_step seed (bench_demo3 seed) (Store 5 0 1 7) = Inr s4"
    by (simp add: bench_store_def bench_demo3_def bench_init_def bench_golden_def bench_log_def Let_def)
  ultimately have "bench_proto.run_ok seed s4 [Evict 5 0]" "bench_env (bench_demo3 seed) (Store 5 0 1 7)"
    "bench_env bench_demo1 (Tick bench_demo_cfg bench_demo_rng bench_demo_dut)"
    "bench_env bench_demo2 (Tick bench_demo_cfg bench_demo_rng (bench_demo_grant w))"
    by (simp_all split: sum.splits)
  then show ?thesis
    unfolding bench_demo_ops_def
    by (intro bench_proto.run_okI [OF _ bench_demo_submit] bench_proto.run_okI [OF _ bench_demo_accept]
        bench_proto.run_okI [OF _ bench_demo_response [OF assms]] bench_proto.run_okI [OF _ s4]) simp_all
qed

theorem bench_permissions_witness:
  "\<exists>ops s. py_run (bench_step 1) bench_init ops = Inr s \<and> map_of (b_held s) 5 = Some HX \<and>
     (\<exists>d. b_copies s 5 = Some (CE, d) \<or> b_copies s 5 = Some (CM, d)) \<and> length (bench_pending s 0) \<le> 4"
proof -
  obtain w where "link_response w = (DATAE, 0, 0, bench_initial 1 5)" using bench_demo_word by blast
  from bench_demo_run [OF this] obtain s where
    s: "py_run (bench_step 1) bench_init (bench_demo_ops w) = Inr s" "b_held s = [(5, HX)]" by blast
  have h: "map_of (b_held s) 5 = Some HX" by (simp add: s(2))
  note p = bench_permissions [OF s(1)]
  have "\<exists>d. b_copies s 5 = Some (CE, d) \<or> b_copies s 5 = Some (CM, d)" using p h by blast
  moreover have "length (bench_pending s 0) \<le> 4" using conjunct1 [OF conjunct2 [OF p], rule_format, of 0] by simp
  ultimately show ?thesis using s(1) h by blast
qed

theorem bench_coherence_witness:
  "\<exists>ops s d. py_run (bench_step 1) bench_init ops = Inr s \<and> b_upq s = [(PUT, True, 5, 0, d)] \<and>
     d = bench_golden 1 s 5 \<and> b_copies s 5 = Some (CM, d)"
proof -
  obtain w where w: "link_response w = (DATAE, 0, 0, bench_initial 1 5)" using bench_demo_word by blast
  from bench_demo_run [OF w] obtain s d where
    s: "py_run (bench_step 1) bench_init (bench_demo_ops w) = Inr s" "b_copies s = [5 \<mapsto> (CM, d)]"
      "b_upq s = [(PUT, True, 5, 0, d)]" by blast
  have c: "b_copies s 5 = Some (CM, d)" by (simp add: s(2))
  with bench_coherence [OF s(1) bench_demo_env [OF w]] have "d = bench_golden 1 s 5" by blast
  with s c show ?thesis by blast
qed

text \<open>An instruction read of line 3, submitted in cycle 0, answered in cycle 2 with the value written in cycle 1.\<close>

definition bench_demo_read :: bench where
  "bench_demo_read = bench_init\<lparr>b_cycle := 2, b_arch := [3 \<mapsto> 7], b_history := (\<lambda>_. [])(3 := [(1, 7)]),
     b_out := (\<lambda>_. [])(1 := [(0, bench_demo_txn\<lparr>tx_op := READ_LINE, tx_line := 3\<rparr>)])\<rparr>"

definition bench_demo_pins :: bench_pins where
  "bench_demo_pins = \<lparr>pn_resp_ready = (\<lambda>_. True), pn_req = [None, None, None], pn_up = None, pn_snp_ready = True,
     pn_arready = True, pn_awready = True, pn_wready = True, pn_r = None, pn_b = None\<rparr>"

theorem bench_read_window_witness:
  "\<exists>w s'. bench_response 1 bench_demo_pins (bench_demo_dut\<lparr>v_resp_valid := (\<lambda>_. True), v_resp := (\<lambda>_. w)\<rparr>) 1 bench_demo_read = Inr s' \<and>
     (\<exists>k \<le> 1. 7 = value_after (bench_initial 1 3) [(1, 7)] k)"
proof -
  obtain w where w: "link_response w = (READDATA, 0, 0, 7)" using link_response_pack [of READDATA 0 0 7] by auto
  let ?v = "bench_demo_dut\<lparr>v_resp_valid := (\<lambda>_. True), v_resp := (\<lambda>_. w)\<rparr>"
  have b: "bench_basic bench_demo_read"
    by (simp add: bench_basic_def bench_demo_read_def bench_init_def perm_agree_def credit_ok_def history_ok_def)
  have "7 \<in> set (bench_legal_reads (bench_initial (Suc 0) 3) [(Suc 0, 7)] 0 2)"
    by (simp add: bench_legal_reads_def)
  then have "\<exists>s'. bench_response 1 bench_demo_pins ?v 1 bench_demo_read = Inr s'"
    by (simp add: bench_response_def w bench_demo_pins_def bench_demo_read_def bench_init_def bench_demo_txn_def
        bench_demo_dut_def bench_read_data_def)
  then obtain s' where s': "bench_response 1 bench_demo_pins ?v 1 bench_demo_read = Inr s'" by blast
  have "map_of (b_out bench_demo_read 1) 0 = Some (bench_demo_txn\<lparr>tx_op := READ_LINE, tx_line := 3\<rparr>)"
    by (simp add: bench_demo_read_def)
  from bench_read_window [OF b s' _ _ _ _ this, of READDATA 7] w
  have "\<exists>k \<le> length (b_history bench_demo_read 3). 7 = value_after (bench_initial 1 3) (b_history bench_demo_read 3) k"
    by (auto simp: bench_demo_pins_def)
  moreover have "b_history bench_demo_read 3 = [(1, 7)]" by (simp add: bench_demo_read_def)
  ultimately have "\<exists>k \<le> 1. 7 = value_after (bench_initial 1 3) [(1, 7)] k"
    by (metis One_nat_def length_Cons list.size(3))
  with s' show ?thesis by blast
qed

definition bench_demo_axi :: bench where
  "bench_demo_axi = bench_init\<lparr>b_awq := [(2, 9)], b_wq := [(11, 0), (12, 0), (13, 0), (14, 1)]\<rparr>"

theorem bench_axi_roundtrip_witness:
  "\<exists>s1 s2 d due. bench_commit bench_demo_rng bench_demo_axi = Inr s1 \<and>
     bench_ar 1 bench_demo_rng bench_demo_pins (bench_demo_dut\<lparr>v_arvalid := True, v_ar := (6, 9 * 64, 3, 4, 1)\<rparr>) s1 = Inr s2 \<and>
     map_of (b_readq s2) 6 = Some (9, d, 0, due) \<and> lane 128 2 d = 13"
proof -
  let ?v = "bench_demo_dut\<lparr>v_arvalid := True, v_ar := (6, 9 * 64, 3, 4, 1)\<rparr>"
  have "\<exists>s1. bench_commit bench_demo_rng bench_demo_axi = Inr s1 \<and> b_readq s1 = []"
    by (simp add: bench_commit_def bench_demo_axi_def bench_init_def Let_def)
  then obtain s1 where s1: "bench_commit bench_demo_rng bench_demo_axi = Inr s1" "b_readq s1 = []" by blast
  have "\<exists>s2. bench_ar 1 bench_demo_rng bench_demo_pins ?v s1 = Inr s2"
    using s1(2) by (simp add: bench_ar_def bench_demo_pins_def)
  then obtain s2 where s2: "bench_ar 1 bench_demo_rng bench_demo_pins ?v s1 = Inr s2" by blast
  have q: "b_awq bench_demo_axi = (2, 9) # []" "4 \<le> length (b_wq bench_demo_axi)"
    "\<forall>x \<in> set (b_wq bench_demo_axi). fst x < 2 ^ 128" "v_arvalid ?v" "pn_arready bench_demo_pins"
    "v_ar ?v = (6, 9 * 64, 3, 4, 1)" "fst (b_wq bench_demo_axi ! 2) = 13"
    by (simp_all add: bench_demo_axi_def bench_demo_pins_def)
  from bench_axi_roundtrip [OF s1(1) q(1-3) s2 q(4-6)] obtain d due where
    d: "map_of (b_readq s2) 6 = Some (9, d, 0, due)" "\<forall>i < 4. lane 128 i d = fst (b_wq bench_demo_axi ! i)" by blast
  then have "lane 128 2 d = 13" using q(7) by simp
  with s1 s2 d(1) show ?thesis by blast
qed

end
