(* ===== verification/Platform.thy ===== *)
theory Platform
  imports O3_Prelude
begin

text \<open>
  The platform description: \<open>litex_wrapper/o3/platform.py\<close> (the checks of \<open>load_platform\<close>, the region,
  CSR-page and interrupt maps) and the physical-memory-attribute lookup that
  \<open>scripts/gen_platform_pkg.py\<close> writes out. The configuration is the JSON document after reading:
  its number literals (\<open>int(text, 0)\<close>) are integers here. A failed check is \<open>Inl ValueError\<close>, a missing
  region \<open>Inl StopIteration\<close> from \<open>next\<close> and \<open>Inl KeyError\<close> from a dictionary.
\<close>

section \<open>Data\<close>

record pma_region =
  pr_name :: string
  pr_origin :: int
  pr_size :: int
  pr_readable :: bool
  pr_writable :: bool
  pr_executable :: bool
  pr_cacheable :: bool
  pr_device :: bool
  pr_amo :: string
  pr_rsrv :: string

record mmio_page =
  mp_name :: string
  mp_origin :: int
  mp_size :: int

record sd_config =
  sd_dma_region :: string
  sd_dma_width :: int
  sd_mode :: string
  sd_scratch :: int
  sd_scratch_size :: int

record platform =
  pf_width :: int
  pf_regions :: "pma_region list"
  pf_pages :: "mmio_page list"
  pf_sources :: "(string \<times> int) list"
  pf_num_sources :: int
  pf_sd :: sd_config

definition require :: "bool \<Rightarrow> unit py" where
  "require b = (if b then Inr () else Inl ValueError)"

lemma require_Inr_iff [simp]: "require b = Inr u \<longleftrightarrow> b"
  by (simp add: require_def)

lemma require_True [simp]: "require True = Inr ()"
  by (simp add: require_def)

section \<open>Maps\<close>

text \<open>A dictionary built by a comprehension: the last item of a name counts.\<close>

definition platform_regions :: "platform \<Rightarrow> string \<Rightarrow> pma_region option" where
  "platform_regions cfg = map_of (rev (map (\<lambda>r. (pr_name r, r)) (pf_regions cfg)))"

definition get_region :: "platform \<Rightarrow> string \<Rightarrow> pma_region py" where
  "get_region cfg name = (case platform_regions cfg name of None \<Rightarrow> Inl KeyError | Some r \<Rightarrow> Inr r)"

definition csr_map :: "platform \<Rightarrow> (string \<times> int) list py" where
  "csr_map cfg = py_bind (get_region cfg ''litex_mmio'') (\<lambda>r.
     Inr (map (\<lambda>p. (mp_name p, (mp_origin p - pr_origin r) div 0x1000)) (pf_pages cfg)))"

definition csr_address_width :: "platform \<Rightarrow> nat py" where
  "csr_address_width cfg = py_bind (get_region cfg ''litex_mmio'') (\<lambda>r.
     py_bind (require (\<not> (pr_size r \<le> 0 \<or> pr_size r AND (pr_size r - 1) \<noteq> 0 \<or> pr_origin r mod pr_size r \<noteq> 0))) (\<lambda>_.
       let width = int (bit_length (nat (pr_size r))) - 1 - 2 in
       py_bind (require (14 \<le> width \<and> width < 19)) (\<lambda>_. Inr (nat width))))"

definition irq_map :: "platform \<Rightarrow> string \<Rightarrow> int option" where
  "irq_map cfg = map_of (rev (pf_sources cfg))"

section \<open>Checking a configuration\<close>

definition check_region :: "pma_region \<Rightarrow> unit py" where
  "check_region r =
     py_bind (require (\<not> (pr_size r \<le> 0 \<or> pr_origin r < 0 \<or> pr_origin r + pr_size r > 2 ^ 32))) (\<lambda>_.
     py_bind (require (\<not> (pr_size r AND (pr_size r - 1) \<noteq> 0 \<or> pr_origin r mod pr_size r \<noteq> 0))) (\<lambda>_.
       require (\<not> (pr_amo r \<notin> {''none'', ''arithmetic''} \<or> pr_rsrv r \<notin> {''none'', ''eventual''}))))"

fun check_regions :: "pma_region list \<Rightarrow> unit py" where
  "check_regions [] = Inr ()"
| "check_regions (r # rs) = py_bind (check_region r) (\<lambda>_. check_regions rs)"

fun check_overlap :: "pma_region list \<Rightarrow> unit py" where
  "check_overlap (a # b # rs) =
     py_bind (require (\<not> pr_origin a + pr_size a > pr_origin b)) (\<lambda>_. check_overlap (b # rs))"
| "check_overlap _ = Inr ()"

text \<open>\<open>next(r for r in regions if r["name"] == name)\<close>\<close>

definition next_region :: "pma_region list \<Rightarrow> string \<Rightarrow> pma_region py" where
  "next_region rs name = (case find (\<lambda>r. pr_name r = name) rs of None \<Rightarrow> Inl StopIteration | Some r \<Rightarrow> Inr r)"

fun check_pages :: "pma_region \<Rightarrow> int list \<Rightarrow> mmio_page list \<Rightarrow> unit py" where
  "check_pages csr used [] = Inr ()"
| "check_pages csr used (p # ps) =
     (let start = mp_origin p; sz = mp_size p in
      py_bind (require (\<not> (sz \<noteq> 0x1000 \<or> (start - pr_origin csr) mod sz \<noteq> 0 \<or>
          \<not> (pr_origin csr \<le> start \<and> start < start + sz \<and> start + sz \<le> pr_origin csr + pr_size csr) \<or>
          start \<in> set used))) (\<lambda>_. check_pages csr (start # used) ps))"

definition check_irqs :: "platform \<Rightarrow> unit py" where
  "check_irqs cfg =
     (let ids = map snd (pf_sources cfg) in
      require (\<not> (length ids \<noteq> length (remdups ids) \<or> list_ex (\<lambda>i. \<not> (1 \<le> i \<and> i \<le> pf_num_sources cfg)) ids)))"

definition check_sd :: "platform \<Rightarrow> pma_region \<Rightarrow> unit py" where
  "check_sd cfg ram =
     (let sd = pf_sd cfg; scratch = sd_scratch sd; sz = sd_scratch_size sd in
      py_bind (require (\<not> (sd_dma_region sd \<noteq> ''main_ram'' \<or> sd_dma_width sd \<noteq> 64 \<or> sd_mode sd \<noteq> ''read+write''))) (\<lambda>_.
        require (\<not> (scratch mod 64 \<noteq> 0 \<or> sz < 0x240 \<or>
          \<not> (pr_origin ram \<le> scratch \<and> scratch < scratch + sz \<and> scratch + sz \<le> pr_origin ram + pr_size ram)))))"

definition load_platform :: "platform \<Rightarrow> platform py" where
  "load_platform cfg =
     py_bind (require (pf_width cfg = 32)) (\<lambda>_.
     py_bind (check_regions (pf_regions cfg)) (\<lambda>_.
     py_bind (require (length (remdups (map pr_name (pf_regions cfg))) = length (pf_regions cfg))) (\<lambda>_.
     py_bind (check_overlap (sort_key pr_origin (pf_regions cfg))) (\<lambda>_.
     py_bind (next_region (pf_regions cfg) ''litex_mmio'') (\<lambda>csr.
     py_bind (csr_address_width cfg) (\<lambda>_.
     py_bind (check_pages csr [] (pf_pages cfg)) (\<lambda>_.
     py_bind (check_irqs cfg) (\<lambda>_.
     py_bind (next_region (pf_regions cfg) ''main_ram'') (\<lambda>ram.
     py_bind (check_sd cfg ram) (\<lambda>_. Inr cfg))))))))))"

section \<open>The attribute lookup\<close>

text \<open>
  The eight attribute bits of a region, highest first: exists, readable, writable, executable, cacheable,
  device, amo, reservable; and the generated \<open>lookup\<close>, in which each region that contains the whole
  access overwrites the attributes, in the order of the configuration.
\<close>

definition pma_bits :: "pma_region \<Rightarrow> bool list" where
  "pma_bits r = [True] @ [pr_readable r, pr_writable r, pr_executable r, pr_cacheable r, pr_device r] @
     [pr_amo r = ''arithmetic'', pr_rsrv r = ''eventual'']"

definition pma_covers :: "pma_region \<Rightarrow> int \<Rightarrow> int \<Rightarrow> bool" where
  "pma_covers r addr bytes \<longleftrightarrow> bytes > 0 \<and> addr \<ge> pr_origin r \<and> addr + bytes \<le> pr_origin r + pr_size r"

definition pma_lookup :: "platform \<Rightarrow> int \<Rightarrow> int \<Rightarrow> bool list" where
  "pma_lookup cfg addr bytes =
     foldl (\<lambda>attr r. if pma_covers r addr bytes then pma_bits r else attr) (replicate 8 False) (pf_regions cfg)"

section \<open>What an accepted configuration guarantees\<close>

definition region_ok :: "pma_region \<Rightarrow> bool" where
  "region_ok r \<longleftrightarrow> 0 < pr_size r \<and> 0 \<le> pr_origin r \<and> pr_origin r + pr_size r \<le> 2 ^ 32 \<and>
     (\<exists>k. pr_size r = 2 ^ k) \<and> pr_size r dvd pr_origin r"

definition disjoint_regions :: "pma_region \<Rightarrow> pma_region \<Rightarrow> bool" where
  "disjoint_regions a b \<longleftrightarrow> pr_origin a + pr_size a \<le> pr_origin b \<or> pr_origin b + pr_size b \<le> pr_origin a"

lemma int_pow2_test:
  assumes "0 < (n::int)" "n AND (n - 1) = 0"
  shows "\<exists>k. n = 2 ^ k"
proof -
  have "int (nat n AND (nat n - 1)) = n AND (n - 1)"
    using assms(1) by (simp add: of_nat_and_eq of_nat_diff)
  then have "pow2_test (nat n)" using assms(2) by (simp add: pow2_test_def)
  with assms(1) obtain k where "nat n = 2 ^ k" using pow2_test_imp_exp [of "nat n"] by auto
  with assms(1) have "n = 2 ^ k" by (metis int_nat_eq less_le of_nat_numeral of_nat_power)
  then show ?thesis by blast
qed

lemma check_region_ok: "check_region r = Inr u \<Longrightarrow> region_ok r"
  using int_pow2_test [of "pr_size r"]
  by (auto simp: check_region_def region_ok_def py_bind_Inr_iff dvd_eq_mod_eq_0)

lemma check_regions_ok: "check_regions rs = Inr u \<Longrightarrow> r \<in> set rs \<Longrightarrow> region_ok r"
  by (induction rs) (auto simp: py_bind_Inr_iff check_region_ok)

text \<open>Neighbours that do not overlap in the order of origins leave no overlap at all.\<close>

lemma check_overlap_sorted:
  "check_overlap rs = Inr u \<Longrightarrow> \<forall>r \<in> set rs. 0 < pr_size r \<Longrightarrow>
   sorted_wrt (\<lambda>a b. pr_origin a + pr_size a \<le> pr_origin b) rs"
proof (induction rs rule: check_overlap.induct)
  case (1 a b rs)
  then have ab: "pr_origin a + pr_size a \<le> pr_origin b"
    and s: "sorted_wrt (\<lambda>a b. pr_origin a + pr_size a \<le> pr_origin b) (b # rs)"
    by (auto simp: py_bind_Inr_iff)
  have "pr_origin a + pr_size a \<le> pr_origin r" if "r \<in> set rs" for r
    using ab s that "1.prems"(2) by fastforce
  with ab s show ?case by auto
qed simp_all

lemma overlap_disjoint:
  assumes "check_overlap (sort_key pr_origin rs) = Inr u" "\<forall>r \<in> set rs. 0 < pr_size r"
    "a \<in> set rs" "b \<in> set rs" "a \<noteq> b"
  shows "disjoint_regions a b"
proof -
  let ?xs = "sort_key pr_origin rs"
  have s: "sorted_wrt (\<lambda>a b. pr_origin a + pr_size a \<le> pr_origin b) ?xs"
    using check_overlap_sorted [OF assms(1)] assms(2) by simp
  obtain i j where "i < length ?xs" "j < length ?xs" "?xs ! i = a" "?xs ! j = b"
    using assms(3,4) by (metis in_set_conv_nth set_sort)
  with s assms(5) show ?thesis
    unfolding disjoint_regions_def by (metis linorder_neqE_nat sorted_wrt_nth_less)
qed

lemma check_pages_Inr:
  "check_pages csr used ps = Inr u \<Longrightarrow>
   distinct (map mp_origin ps) \<and> set (map mp_origin ps) \<inter> set used = {} \<and>
   (\<forall>p \<in> set ps. mp_size p = 0x1000 \<and> (mp_origin p - pr_origin csr) mod 0x1000 = 0 \<and>
      pr_origin csr \<le> mp_origin p \<and> mp_origin p + 0x1000 \<le> pr_origin csr + pr_size csr)"
proof (induction ps arbitrary: used)
  case Nil
  then show ?case by simp
next
  case (Cons p ps)
  from Cons.prems have "check_pages csr (mp_origin p # used) ps = Inr u" "mp_origin p \<notin> set used"
    "mp_size p = 0x1000 \<and> (mp_origin p - pr_origin csr) mod 0x1000 = 0 \<and>
      pr_origin csr \<le> mp_origin p \<and> mp_origin p + 0x1000 \<le> pr_origin csr + pr_size csr"
    by (auto simp: py_bind_Inr_iff Let_def)
  with Cons.IH [of "mp_origin p # used"] show ?case by auto
qed

lemma load_platform_Inr:
  assumes "load_platform cfg = Inr cfg'"
  obtains csr ram width where "cfg' = cfg" "check_regions (pf_regions cfg) = Inr ()"
    "distinct (map pr_name (pf_regions cfg))" "check_overlap (sort_key pr_origin (pf_regions cfg)) = Inr ()"
    "next_region (pf_regions cfg) ''litex_mmio'' = Inr csr" "csr_address_width cfg = Inr width"
    "check_pages csr [] (pf_pages cfg) = Inr ()" "check_irqs cfg = Inr ()"
    "next_region (pf_regions cfg) ''main_ram'' = Inr ram" "check_sd cfg ram = Inr ()"
proof -
  have "length (remdups xs) = length xs \<longleftrightarrow> distinct xs" for xs :: "string list"
    by (metis distinct_remdups distinct_card length_remdups_card_conv card_distinct)
  from this [of "map pr_name (pf_regions cfg)"]
  have "length (remdups (map pr_name (pf_regions cfg))) = length (pf_regions cfg) \<longleftrightarrow>
      distinct (map pr_name (pf_regions cfg))" by simp
  with assms show thesis
    by (auto simp: load_platform_def py_bind_Inr_iff intro: that)
qed

text \<open>A region found by \<open>next\<close> is the one the dictionary holds, since names are distinct.\<close>

lemma next_region_lookup:
  assumes "distinct (map pr_name (pf_regions cfg))" "next_region (pf_regions cfg) name = Inr r"
  shows "platform_regions cfg name = Some r \<and> r \<in> set (pf_regions cfg) \<and> pr_name r = name"
proof -
  from assms(2) have f: "find (\<lambda>r. pr_name r = name) (pf_regions cfg) = Some r"
    by (auto simp: next_region_def split: option.splits)
  then have r: "r \<in> set (pf_regions cfg)" "pr_name r = name" by (auto simp: find_Some_iff)
  have "distinct (map fst (rev (map (\<lambda>r. (pr_name r, r)) (pf_regions cfg))))"
    using assms(1) by (simp add: rev_map [symmetric] comp_def)
  moreover have "(name, r) \<in> set (rev (map (\<lambda>r. (pr_name r, r)) (pf_regions cfg)))" using r by auto
  ultimately have "platform_regions cfg name = Some r"
    unfolding platform_regions_def by (rule map_of_is_SomeI)
  with r show ?thesis by simp
qed

text \<open>An accepted configuration has regions of power-of-two size at aligned origins inside the 32-bit address
  space, pairwise disjoint, each found in the region dictionary under its name.\<close>

theorem platform_regions_sound:
  assumes "load_platform cfg = Inr cfg'"
  shows "cfg' = cfg \<and> (\<forall>r \<in> set (pf_regions cfg). region_ok r \<and> platform_regions cfg (pr_name r) = Some r) \<and>
    (\<forall>a \<in> set (pf_regions cfg). \<forall>b \<in> set (pf_regions cfg). a \<noteq> b \<longrightarrow> disjoint_regions a b)"
  using assms
proof (rule load_platform_Inr)
  assume a: "cfg' = cfg" "check_regions (pf_regions cfg) = Inr ()" "distinct (map pr_name (pf_regions cfg))"
    "check_overlap (sort_key pr_origin (pf_regions cfg)) = Inr ()"
  have ok: "region_ok r" if "r \<in> set (pf_regions cfg)" for r by (rule check_regions_ok [OF a(2) that])
  then have pos: "\<forall>r \<in> set (pf_regions cfg). 0 < pr_size r" by (simp add: region_ok_def)
  have "platform_regions cfg (pr_name r) = Some r" if "r \<in> set (pf_regions cfg)" for r
  proof -
    have "distinct (map fst (rev (map (\<lambda>r. (pr_name r, r)) (pf_regions cfg))))"
      using a(3) by (simp add: rev_map [symmetric] comp_def)
    then show ?thesis
      unfolding platform_regions_def by (rule map_of_is_SomeI) (use that in auto)
  qed
  with a(1) ok overlap_disjoint [OF a(4) pos] show ?thesis by blast
qed

text \<open>The CSR window of an accepted configuration holds \<open>2 ^ width\<close> 32-bit words; its pages get distinct slots
  inside the window, and the interrupt sources distinct numbers in range.\<close>

theorem platform_csr_irq_sound:
  assumes "load_platform cfg = Inr cfg'"
  shows "\<exists>csr width slots. platform_regions cfg ''litex_mmio'' = Some csr \<and> csr_address_width cfg = Inr width \<and>
    14 \<le> width \<and> width \<le> 18 \<and> pr_size csr = 4 * 2 ^ width \<and> csr_map cfg = Inr slots \<and> distinct (map snd slots) \<and>
    (\<forall>(_, k) \<in> set slots. 0 \<le> k \<and> (k + 1) * 0x1000 \<le> pr_size csr) \<and>
    distinct (map snd (pf_sources cfg)) \<and> (\<forall>(_, i) \<in> set (pf_sources cfg). 1 \<le> i \<and> i \<le> pf_num_sources cfg)"
  using assms
proof (rule load_platform_Inr)
  fix csr width
  assume a: "check_regions (pf_regions cfg) = Inr ()" "distinct (map pr_name (pf_regions cfg))"
    "next_region (pf_regions cfg) ''litex_mmio'' = Inr csr" "csr_address_width cfg = Inr width"
    "check_pages csr [] (pf_pages cfg) = Inr ()" "check_irqs cfg = Inr ()"
  have r: "platform_regions cfg ''litex_mmio'' = Some csr" "csr \<in> set (pf_regions cfg)"
    using next_region_lookup [OF a(2,3)] by simp_all
  from check_regions_ok [OF a(1) r(2)] obtain k where k: "pr_size csr = 2 ^ k" by (auto simp: region_ok_def)
  have "bit_length (nat (2 ^ k)) = Suc k" using bit_length_exp [of k] by (simp add: nat_power_eq)
  then have w: "width = k - 2" "16 \<le> k" "k \<le> 20"
    using a(4) r(1) k by (auto simp: csr_address_width_def get_region_def py_bind_Inr_iff Let_def)
  then have "k = Suc (Suc width)" by simp
  then have sz: "pr_size csr = 4 * 2 ^ width" by (simp add: k)
  let ?slot = "\<lambda>p. (mp_origin p - pr_origin csr) div 0x1000"
  from check_pages_Inr [OF a(5)] have d: "distinct (map mp_origin (pf_pages cfg))"
    and p: "\<And>p. p \<in> set (pf_pages cfg) \<Longrightarrow> (mp_origin p - pr_origin csr) mod 0x1000 = 0 \<and>
      pr_origin csr \<le> mp_origin p \<and> mp_origin p + 0x1000 \<le> pr_origin csr + pr_size csr" by auto
  have exact: "mp_origin p = pr_origin csr + ?slot p * 0x1000" if "p \<in> set (pf_pages cfg)" for p
    using p [OF that] by (metis add.commute add.right_neutral diff_add_cancel div_mult_mod_eq)
  have "inj_on ?slot (set (pf_pages cfg))"
  proof (rule inj_onI)
    fix x y assume xy: "x \<in> set (pf_pages cfg)" "y \<in> set (pf_pages cfg)" "?slot x = ?slot y"
    then have "mp_origin x = mp_origin y" using exact by metis
    with d xy(1,2) show "x = y" by (meson distinct_map inj_onD)
  qed
  moreover have "distinct (pf_pages cfg)" using d by (simp add: distinct_map)
  ultimately have dist: "distinct (map ?slot (pf_pages cfg))" by (simp add: distinct_map)
  have range: "0 \<le> ?slot q \<and> (?slot q + 1) * 0x1000 \<le> pr_size csr" if "q \<in> set (pf_pages cfg)" for q
    using exact [OF that] p [OF that] by (smt (verit) distrib_right mult_cancel_right2 pos_imp_zdiv_nonneg_iff)
  have len: "length (remdups xs) = length xs \<longleftrightarrow> distinct xs" for xs :: "int list"
    by (metis distinct_remdups distinct_card length_remdups_card_conv card_distinct)
  have irq: "distinct (map snd (pf_sources cfg))"
    "\<forall>(_, i) \<in> set (pf_sources cfg). 1 \<le> i \<and> i \<le> pf_num_sources cfg"
    using a(6) len [of "map snd (pf_sources cfg)"] by (auto simp: check_irqs_def Let_def list_ex_iff)
  have "csr_map cfg = Inr (map (\<lambda>p. (mp_name p, ?slot p)) (pf_pages cfg))"
    using r(1) by (simp add: csr_map_def get_region_def)
  with r(1) a(4) w sz dist range irq show ?thesis
    by (intro exI [of _ csr] exI [of _ width] exI [of _ "map (\<lambda>p. (mp_name p, ?slot p)) (pf_pages cfg)"])
       (auto simp: comp_def)
qed

lemma pma_lookup_fold:
  assumes "\<forall>r \<in> set rs. pma_covers r addr bytes \<longrightarrow> pma_bits r = bits" "\<exists>r \<in> set rs. pma_covers r addr bytes"
  shows "foldl (\<lambda>attr r. if pma_covers r addr bytes then pma_bits r else attr) z rs = bits"
  using assms
proof (induction rs rule: rev_induct)
  case (snoc x xs)
  then show ?case by (cases "pma_covers x addr bytes") auto
qed simp

lemma pma_lookup_none:
  "\<forall>r \<in> set rs. \<not> pma_covers r addr bytes \<Longrightarrow>
   foldl (\<lambda>attr r. if pma_covers r addr bytes then pma_bits r else attr) z rs = z"
  by (induction rs) simp_all

text \<open>C15: On an accepted configuration the generated lookup gives an access the attributes of the one region that
  contains all its bytes, whatever the order of the regions, and no attributes at all (not even
  existence) to an access that no region contains.\<close>

theorem pma_lookup_unique:
  assumes "load_platform cfg = Inr cfg'"
  shows "(\<forall>r \<in> set (pf_regions cfg). pma_covers r addr bytes \<longrightarrow> pma_lookup cfg addr bytes = pma_bits r) \<and>
    ((\<forall>r \<in> set (pf_regions cfg). \<not> pma_covers r addr bytes) \<longrightarrow> pma_lookup cfg addr bytes = replicate 8 False)"
  using assms
proof (rule load_platform_Inr)
  assume a: "check_regions (pf_regions cfg) = Inr ()" "check_overlap (sort_key pr_origin (pf_regions cfg)) = Inr ()"
  have pos: "\<forall>r \<in> set (pf_regions cfg). 0 < pr_size r"
    using check_regions_ok [OF a(1)] by (auto simp: region_ok_def)
  have one: "r' = r" if "r \<in> set (pf_regions cfg)" "r' \<in> set (pf_regions cfg)" "pma_covers r addr bytes"
      "pma_covers r' addr bytes" for r r'
    using overlap_disjoint [OF a(2) pos that(2,1)] that(3,4) by (auto simp: pma_covers_def disjoint_regions_def)
  then have "pma_lookup cfg addr bytes = pma_bits r" if "r \<in> set (pf_regions cfg)" "pma_covers r addr bytes" for r
    unfolding pma_lookup_def using that by (intro pma_lookup_fold) auto
  then show ?thesis by (simp add: pma_lookup_def pma_lookup_none)
qed

section \<open>Witnesses\<close>

text \<open>The configuration of the repository, \<open>config/o3_platform.json\<close>.\<close>

definition o3_platform :: platform where
  "o3_platform = \<lparr>pf_width = 32,
     pf_regions = [
       \<lparr>pr_name = ''machine_timer'', pr_origin = 0x2000000, pr_size = 0x10000, pr_readable = True, pr_writable = True, pr_executable = False,
         pr_cacheable = False, pr_device = True, pr_amo = ''none'', pr_rsrv = ''none''\<rparr>,
       \<lparr>pr_name = ''plic'', pr_origin = 0xC000000, pr_size = 0x4000000, pr_readable = True, pr_writable = True, pr_executable = False,
         pr_cacheable = False, pr_device = True, pr_amo = ''none'', pr_rsrv = ''none''\<rparr>,
       \<lparr>pr_name = ''boot_rom'', pr_origin = 0x10000000, pr_size = 0x10000, pr_readable = True, pr_writable = False, pr_executable = True,
         pr_cacheable = True, pr_device = False, pr_amo = ''none'', pr_rsrv = ''none''\<rparr>,
       \<lparr>pr_name = ''linux_boot_rom'', pr_origin = 0x10010000, pr_size = 0x10000, pr_readable = True, pr_writable = False, pr_executable = True,
         pr_cacheable = True, pr_device = False, pr_amo = ''none'', pr_rsrv = ''none''\<rparr>,
       \<lparr>pr_name = ''sram'', pr_origin = 0x11000000, pr_size = 0x10000, pr_readable = True, pr_writable = True, pr_executable = True,
         pr_cacheable = True, pr_device = False, pr_amo = ''arithmetic'', pr_rsrv = ''eventual''\<rparr>,
       \<lparr>pr_name = ''litex_mmio'', pr_origin = 0x12000000, pr_size = 0x100000, pr_readable = True, pr_writable = True, pr_executable = False,
         pr_cacheable = False, pr_device = True, pr_amo = ''none'', pr_rsrv = ''none''\<rparr>,
       \<lparr>pr_name = ''main_ram'', pr_origin = 0x80000000, pr_size = 0x80000000, pr_readable = True, pr_writable = True, pr_executable = True,
         pr_cacheable = True, pr_device = False, pr_amo = ''arithmetic'', pr_rsrv = ''eventual''\<rparr>],
     pf_pages = [\<lparr>mp_name = ''ctrl'', mp_origin = 0x12000000, mp_size = 0x1000\<rparr>, \<lparr>mp_name = ''uart'', mp_origin = 0x12001000, mp_size = 0x1000\<rparr>, \<lparr>mp_name = ''timer0'', mp_origin = 0x12002000, mp_size = 0x1000\<rparr>, \<lparr>mp_name = ''ddrphy'', mp_origin = 0x12003000, mp_size = 0x1000\<rparr>, \<lparr>mp_name = ''identifier_mem'', mp_origin = 0x12004000, mp_size = 0x1000\<rparr>, \<lparr>mp_name = ''sdram'', mp_origin = 0x12005000, mp_size = 0x1000\<rparr>, \<lparr>mp_name = ''sdcard'', mp_origin = 0x12006000, mp_size = 0x1000\<rparr>],
     pf_sources = [(''uart'', 10), (''sdcard'', 11), (''timer0'', 12)], pf_num_sources = 31,
     pf_sd = \<lparr>sd_dma_region = ''main_ram'', sd_dma_width = 64, sd_mode = ''read+write'',
       sd_scratch = 0xFFFFF000, sd_scratch_size = 0x1000\<rparr>\<rparr>"

lemma o3_platform_checks:
  "pf_width o3_platform = 32" "check_regions (pf_regions o3_platform) = Inr ()"
  "length (remdups (map pr_name (pf_regions o3_platform))) = length (pf_regions o3_platform)"
  "check_overlap (sort_key pr_origin (pf_regions o3_platform)) = Inr ()"
  "next_region (pf_regions o3_platform) ''litex_mmio'' = Inr (pf_regions o3_platform ! 5)"
  "check_pages (pf_regions o3_platform ! 5) [] (pf_pages o3_platform) = Inr ()"
  "check_irqs o3_platform = Inr ()"
  "next_region (pf_regions o3_platform) ''main_ram'' = Inr (pf_regions o3_platform ! 6)"
  "check_sd o3_platform (pf_regions o3_platform ! 6) = Inr ()"
  "platform_regions o3_platform ''litex_mmio'' = Some (pf_regions o3_platform ! 5)"
  by code_simp+

lemma o3_platform_csr: "csr_address_width o3_platform = Inr 18"
proof -
  have r: "pr_size (pf_regions o3_platform ! 5) = 2 ^ 20" "pr_origin (pf_regions o3_platform ! 5) = 0x12000000"
    by (simp_all add: o3_platform_def)
  have "bit_length (nat (2 ^ 20)) = Suc 20" using bit_length_exp [of 20] by (simp add: nat_power_eq)
  moreover have "(2 ^ 20 :: int) AND (2 ^ 20 - 1) = 0" by simp
  ultimately show ?thesis
    unfolding csr_address_width_def get_region_def o3_platform_checks(10) by (simp add: r Let_def)
qed

lemma o3_platform_loads: "load_platform o3_platform = Inr o3_platform"
  unfolding load_platform_def o3_platform_checks o3_platform_csr py_bind_simps by (simp add: o3_platform_checks)

theorem platform_regions_sound_witness:
  "region_ok (pf_regions o3_platform ! 4) \<and> disjoint_regions (pf_regions o3_platform ! 2) (pf_regions o3_platform ! 3)"
proof -
  have l: "length (pf_regions o3_platform) = 7" and n: "pf_regions o3_platform ! 2 \<noteq> pf_regions o3_platform ! 3"
    by (simp_all add: o3_platform_def)
  have m: "pf_regions o3_platform ! 2 \<in> set (pf_regions o3_platform)"
    "pf_regions o3_platform ! 3 \<in> set (pf_regions o3_platform)"
    "pf_regions o3_platform ! 4 \<in> set (pf_regions o3_platform)" by (rule nth_mem, simp add: l)+
  note p = platform_regions_sound [OF o3_platform_loads]
  from p m(3) have "region_ok (pf_regions o3_platform ! 4)" by blast
  moreover from p m(1,2) n have "disjoint_regions (pf_regions o3_platform ! 2) (pf_regions o3_platform ! 3)" by blast
  ultimately show ?thesis ..
qed

theorem platform_csr_irq_sound_witness:
  "\<exists>slots. csr_map o3_platform = Inr slots \<and> distinct (map snd slots) \<and> csr_address_width o3_platform = Inr 18"
  using platform_csr_irq_sound [OF o3_platform_loads] o3_platform_csr by auto

theorem pma_lookup_unique_witness:
  "pma_lookup o3_platform 0x11000008 8 = pma_bits (pf_regions o3_platform ! 4) \<and>
   pma_lookup o3_platform 0x13000000 4 = replicate 8 False"
proof -
  have "4 < length (pf_regions o3_platform)" by (simp add: o3_platform_def)
  then have m: "pf_regions o3_platform ! 4 \<in> set (pf_regions o3_platform)" by (rule nth_mem)
  have "pma_covers (pf_regions o3_platform ! 4) 0x11000008 8"
    "\<forall>r \<in> set (pf_regions o3_platform). \<not> pma_covers r 0x13000000 4" by code_simp+
  with m pma_lookup_unique [OF o3_platform_loads] show ?thesis by blast
qed

end
