(* ===== verification/AXI_Router.thy ===== *)
theory AXI_Router
  imports Platform
begin

text \<open>
  The AXI router, the zero boot ROM, the check of the SoC's regions and the read lanes of the MMIO
  bridge: \<open>litex_wrapper/o3/axi_router.py\<close> and \<open>litex_wrapper/o3/mmio_bridge.py\<close>. The router is hardware
  described in Python; a state of its two machines is a record, the combinational outputs and the
  next state are functions of the state and of what the ports drive in a cycle. \<open>aw\<close> is the address
  width, \<open>ms\<close> the largest burst size code (\<open>(data_width // 8).bit_length() - 1\<close>).
\<close>

section \<open>Address channels and decoding\<close>

record axi_ax =
  ax_valid :: bool
  ax_addr :: int
  ax_len :: nat
  ax_size :: nat
  ax_burst :: nat
  ax_id :: nat

text \<open>The four regions the router looks up; a missing one is a \<open>KeyError\<close>.\<close>

record router_regions =
  rr_main :: pma_region
  rr_low :: "pma_region list"

fun get_regions :: "platform \<Rightarrow> string list \<Rightarrow> pma_region list py" where
  "get_regions cfg [] = Inr []"
| "get_regions cfg (n # ns) =
     py_bind (get_region cfg n) (\<lambda>r. py_bind (get_regions cfg ns) (\<lambda>rs. Inr (r # rs)))"

definition low_names :: "string list" where
  "low_names = [''boot_rom'', ''linux_boot_rom'', ''sram'']"

definition router_init :: "platform \<Rightarrow> router_regions py" where
  "router_init cfg =
     py_bind (get_region cfg ''main_ram'') (\<lambda>m. py_bind (get_regions cfg low_names) (\<lambda>low.
       Inr \<lparr>rr_main = m, rr_low = low\<rparr>))"

definition axi_max_size :: "nat \<Rightarrow> nat" where
  "axi_max_size data_width = bit_length (data_width div 8) - 1"

text \<open>The 9-bit beat count, the burst span (an array of shifted counts indexed by the size code; an index past
  the end selects the last element) and the last byte's address, each cut to its signal's width.\<close>

definition ax_beats :: "axi_ax \<Rightarrow> nat" where
  "ax_beats a = (ax_len a + 1) mod 2 ^ 9"

definition ax_span :: "nat \<Rightarrow> nat \<Rightarrow> axi_ax \<Rightarrow> nat" where
  "ax_span aw ms a = push_bit (min (ax_size a) ms) (ax_beats a) mod 2 ^ (aw + 1)"

definition ax_last :: "nat \<Rightarrow> nat \<Rightarrow> axi_ax \<Rightarrow> int" where
  "ax_last aw ms a = (ax_addr a + int (ax_span aw ms a) - 1) mod 2 ^ (aw + 1)"

definition axi_inside :: "nat \<Rightarrow> nat \<Rightarrow> bool \<Rightarrow> axi_ax \<Rightarrow> pma_region \<Rightarrow> bool" where
  "axi_inside aw ms wr a region \<longleftrightarrow>
     (if wr then pr_writable region else pr_readable region) \<and> ax_burst a = 1 \<and> ax_size a \<le> ms \<and>
     ax_addr a \<ge> pr_origin region \<and> ax_last aw ms a < pr_origin region + pr_size region"

definition axi_decode :: "nat \<Rightarrow> nat \<Rightarrow> router_regions \<Rightarrow> bool \<Rightarrow> axi_ax \<Rightarrow> bool \<times> bool" where
  "axi_decode aw ms rr wr a = (axi_inside aw ms wr a (rr_main rr), list_ex (axi_inside aw ms wr a) (rr_low rr))"

section \<open>The read machine\<close>

datatype rd_state = R_IDLE | R_DRAM | R_LOW | R_ERROR

record rd_fsm =
  rd_state :: rd_state
  rd_id :: nat
  rd_remaining :: nat

record axi_r =
  r_valid :: bool
  r_id :: nat
  r_data :: nat
  r_resp :: nat
  r_last :: bool

record rd_in =
  rdi_ar :: axi_ax
  rdi_r_ready :: bool
  rdi_dram_ar_ready :: bool
  rdi_low_ar_ready :: bool
  rdi_dram_r :: axi_r
  rdi_low_r :: axi_r

record rd_out =
  rdo_dram_ar_valid :: bool
  rdo_low_ar_valid :: bool
  rdo_ar_ready :: bool
  rdo_r :: axi_r
  rdo_dram_r_ready :: bool
  rdo_low_r_ready :: bool
  rdo_read_dram :: bool
  rdo_read_low :: bool

definition r_none :: axi_r where
  "r_none = \<lparr>r_valid = False, r_id = 0, r_data = 0, r_resp = 0, r_last = False\<rparr>"

definition rd_quiet :: rd_out where
  "rd_quiet = \<lparr>rdo_dram_ar_valid = False, rdo_low_ar_valid = False, rdo_ar_ready = False, rdo_r = r_none,
     rdo_dram_r_ready = False, rdo_low_r_ready = False, rdo_read_dram = False, rdo_read_low = False\<rparr>"

definition read_out :: "nat \<Rightarrow> nat \<Rightarrow> router_regions \<Rightarrow> rd_fsm \<Rightarrow> rd_in \<Rightarrow> rd_out" where
  "read_out aw ms rr s i =
     (case rd_state s of
        R_IDLE \<Rightarrow>
          let (dram, low) = axi_decode aw ms rr False (rdi_ar i) in
          if dram then rd_quiet\<lparr>rdo_dram_ar_valid := ax_valid (rdi_ar i), rdo_ar_ready := rdi_dram_ar_ready i\<rparr>
          else if low then rd_quiet\<lparr>rdo_low_ar_valid := ax_valid (rdi_ar i), rdo_ar_ready := rdi_low_ar_ready i\<rparr>
          else rd_quiet\<lparr>rdo_ar_ready := True\<rparr>
      | R_DRAM \<Rightarrow> rd_quiet\<lparr>rdo_read_dram := True, rdo_r := rdi_dram_r i, rdo_dram_r_ready := rdi_r_ready i\<rparr>
      | R_LOW \<Rightarrow> rd_quiet\<lparr>rdo_read_low := True, rdo_r := rdi_low_r i, rdo_low_r_ready := rdi_r_ready i\<rparr>
      | R_ERROR \<Rightarrow> rd_quiet\<lparr>rdo_r := \<lparr>r_valid = True, r_id = rd_id s, r_data = 0, r_resp = 3,
                                r_last = (rd_remaining s = 1)\<rparr>\<rparr>)"

definition read_next :: "nat \<Rightarrow> nat \<Rightarrow> router_regions \<Rightarrow> rd_fsm \<Rightarrow> rd_in \<Rightarrow> rd_fsm" where
  "read_next aw ms rr s i =
     (let out = read_out aw ms rr s i; ar = rdi_ar i; (dram, low) = axi_decode aw ms rr False ar in
      case rd_state s of
        R_IDLE \<Rightarrow>
          if dram then (if ax_valid ar \<and> rdo_ar_ready out then s\<lparr>rd_state := R_DRAM\<rparr> else s)
          else if low then (if ax_valid ar \<and> rdo_ar_ready out then s\<lparr>rd_state := R_LOW\<rparr> else s)
          else if ax_valid ar
          then s\<lparr>rd_id := ax_id ar, rd_remaining := (ax_len ar + 1) mod 2 ^ 9, rd_state := R_ERROR\<rparr> else s
      | R_ERROR \<Rightarrow>
          if rdi_r_ready i
          then s\<lparr>rd_remaining := (rd_remaining s + 2 ^ 9 - 1) mod 2 ^ 9,
                 rd_state := (if rd_remaining s = 1 then R_IDLE else R_ERROR)\<rparr> else s
      | _ \<Rightarrow>
          if r_valid (rdo_r out) \<and> rdi_r_ready i \<and> r_last (rdo_r out) then s\<lparr>rd_state := R_IDLE\<rparr> else s)"

definition rd_reset :: rd_fsm where
  "rd_reset = \<lparr>rd_state = R_IDLE, rd_id = 0, rd_remaining = 0\<rparr>"

section \<open>The write machine\<close>

datatype wr_state = W_IDLE | W_DRAM | W_LOW | W_ERROR_W | W_ERROR_B

record wr_fsm =
  wr_state :: wr_state
  wr_id :: nat
  wr_remaining :: nat
  wr_done :: bool

record axi_b =
  ab_valid :: bool
  ab_id :: nat
  ab_resp :: nat

record wr_in =
  wri_aw :: axi_ax
  wri_w_valid :: bool
  wri_w_last :: bool
  wri_b_ready :: bool
  wri_dram_aw_ready :: bool
  wri_low_aw_ready :: bool
  wri_dram_w_ready :: bool
  wri_low_w_ready :: bool
  wri_dram_b :: axi_b
  wri_low_b :: axi_b

record wr_out =
  wro_dram_aw_valid :: bool
  wro_low_aw_valid :: bool
  wro_aw_ready :: bool
  wro_dram_w_valid :: bool
  wro_low_w_valid :: bool
  wro_w_ready :: bool
  wro_b :: axi_b
  wro_dram_b_ready :: bool
  wro_low_b_ready :: bool

definition wr_quiet :: wr_out where
  "wr_quiet = \<lparr>wro_dram_aw_valid = False, wro_low_aw_valid = False, wro_aw_ready = False,
     wro_dram_w_valid = False, wro_low_w_valid = False, wro_w_ready = False,
     wro_b = \<lparr>ab_valid = False, ab_id = 0, ab_resp = 0\<rparr>, wro_dram_b_ready = False, wro_low_b_ready = False\<rparr>"

definition write_out :: "nat \<Rightarrow> nat \<Rightarrow> router_regions \<Rightarrow> wr_fsm \<Rightarrow> wr_in \<Rightarrow> wr_out" where
  "write_out aw ms rr s i =
     (case wr_state s of
        W_IDLE \<Rightarrow>
          let (dram, low) = axi_decode aw ms rr True (wri_aw i) in
          if dram then wr_quiet\<lparr>wro_dram_aw_valid := ax_valid (wri_aw i), wro_aw_ready := wri_dram_aw_ready i\<rparr>
          else if low then wr_quiet\<lparr>wro_low_aw_valid := ax_valid (wri_aw i), wro_aw_ready := wri_low_aw_ready i\<rparr>
          else wr_quiet\<lparr>wro_aw_ready := True\<rparr>
      | W_DRAM \<Rightarrow> wr_quiet\<lparr>wro_dram_w_valid := (wri_w_valid i \<and> \<not> wr_done s),
          wro_w_ready := (wri_dram_w_ready i \<and> \<not> wr_done s), wro_b := wri_dram_b i, wro_dram_b_ready := wri_b_ready i\<rparr>
      | W_LOW \<Rightarrow> wr_quiet\<lparr>wro_low_w_valid := (wri_w_valid i \<and> \<not> wr_done s),
          wro_w_ready := (wri_low_w_ready i \<and> \<not> wr_done s), wro_b := wri_low_b i, wro_low_b_ready := wri_b_ready i\<rparr>
      | W_ERROR_W \<Rightarrow> wr_quiet\<lparr>wro_w_ready := True\<rparr>
      | W_ERROR_B \<Rightarrow> wr_quiet\<lparr>wro_b := \<lparr>ab_valid = True, ab_id = wr_id s, ab_resp = 3\<rparr>\<rparr>)"

definition write_next :: "nat \<Rightarrow> nat \<Rightarrow> router_regions \<Rightarrow> wr_fsm \<Rightarrow> wr_in \<Rightarrow> wr_fsm" where
  "write_next aw ms rr s i =
     (let out = write_out aw ms rr s i; a = wri_aw i; (dram, low) = axi_decode aw ms rr True a in
      case wr_state s of
        W_IDLE \<Rightarrow>
          let s0 = s\<lparr>wr_done := False\<rparr> in
          if dram then (if ax_valid a \<and> wro_aw_ready out then s0\<lparr>wr_state := W_DRAM\<rparr> else s0)
          else if low then (if ax_valid a \<and> wro_aw_ready out then s0\<lparr>wr_state := W_LOW\<rparr> else s0)
          else if ax_valid a
          then s0\<lparr>wr_id := ax_id a, wr_remaining := (ax_len a + 1) mod 2 ^ 9, wr_state := W_ERROR_W\<rparr> else s0
      | W_ERROR_W \<Rightarrow>
          if wri_w_valid i
          then s\<lparr>wr_remaining := (wr_remaining s + 2 ^ 9 - 1) mod 2 ^ 9,
                 wr_state := (if wr_remaining s = 1 then W_ERROR_B else W_ERROR_W)\<rparr> else s
      | W_ERROR_B \<Rightarrow> if wri_b_ready i then s\<lparr>wr_state := W_IDLE\<rparr> else s
      | _ \<Rightarrow>
          let s1 = (if wri_w_valid i \<and> wro_w_ready out \<and> wri_w_last i then s\<lparr>wr_done := True\<rparr> else s) in
          if ab_valid (wro_b out) \<and> wri_b_ready i then s1\<lparr>wr_state := W_IDLE\<rparr> else s1)"

definition wr_reset :: wr_fsm where
  "wr_reset = \<lparr>wr_state = W_IDLE, wr_id = 0, wr_remaining = 0, wr_done = False\<rparr>"

section \<open>The boot ROM, the SoC check and the MMIO lanes\<close>

text \<open>Data, acknowledge and error of the zero ROM.\<close>

definition zero_rom :: "bool \<Rightarrow> bool \<Rightarrow> bool \<Rightarrow> nat \<times> bool \<times> bool" where
  "zero_rom cyc stb we = (let active = cyc \<and> stb in (0, active \<and> \<not> we, active \<and> we))"

record soc_region =
  sr_origin :: int
  sr_size :: int
  sr_pow2 :: int
  sr_mode :: string
  sr_cached :: bool
  sr_decode :: bool

record soc =
  soc_linux :: bool
  soc_regions :: "(string \<times> soc_region) list"
  soc_slaves :: "string list"

definition inactive_rom :: "soc \<Rightarrow> string" where
  "inactive_rom soc = (if soc_linux soc then ''boot_rom'' else ''linux_boot_rom'')"

text \<open>\<open>add_inactive_boot_rom\<close>: the unused ROM window becomes a slave with the window's attributes.\<close>

definition add_inactive_boot_rom :: "platform \<Rightarrow> soc \<Rightarrow> soc py" where
  "add_inactive_boot_rom cfg soc =
     (let name = inactive_rom soc in
      py_bind (get_region cfg name) (\<lambda>r.
        Inr (soc\<lparr>soc_regions := soc_regions soc @ [(name, \<lparr>sr_origin = pr_origin r, sr_size = pr_size r,
                   sr_pow2 = pr_size r, sr_mode = ''r'' @ (if pr_executable r then ''x'' else ''''),
                   sr_cached = pr_cacheable r, sr_decode = True\<rparr>)],
                 soc_slaves := soc_slaves soc @ [name]\<rparr>)))"

definition soc_mappings :: "soc \<Rightarrow> bool \<Rightarrow> (string \<times> string) list" where
  "soc_mappings soc require_csr =
     [(''rom'', if soc_linux soc then ''linux_boot_rom'' else ''boot_rom''),
      (inactive_rom soc, inactive_rom soc), (''sram'', ''sram''), (''main_ram'', ''main_ram''),
      (''clint'', ''machine_timer''), (''plic'', ''plic'')]
     @ (if require_csr \<or> ''csr'' \<in> fst ` set (soc_regions soc) then [(''csr'', ''litex_mmio'')] else [])"

definition pma_mode :: "pma_region \<Rightarrow> string" where
  "pma_mode r = (if pr_readable r then ''r'' else '''') @ (if pr_writable r then ''w'' else '''')
     @ (if pr_executable r then ''x'' else '''')"

text \<open>One mapping: the checked entry, keyed by the platform's name for the region.\<close>

definition check_mapping :: "platform \<Rightarrow> soc \<Rightarrow> string \<times> string \<Rightarrow> (string \<times> string \<times> soc_region) py" where
  "check_mapping cfg soc m = (case m of (soc_name, pma_name) \<Rightarrow>
     case map_of (soc_regions soc) soc_name of
       None \<Rightarrow> Inl KeyError
     | Some actual \<Rightarrow> py_bind (get_region cfg pma_name) (\<lambda>expected.
         py_bind (require ((sr_origin actual, sr_size actual, sr_pow2 actual) =
                           (pr_origin expected, pr_size expected, pr_size expected))) (\<lambda>_.
         py_bind (require (\<not> (sr_mode actual \<noteq> pma_mode expected \<or> sr_cached actual \<noteq> pr_cacheable expected \<or>
                             \<not> sr_decode actual))) (\<lambda>_.
         py_bind (require (\<not> (soc_name \<noteq> ''main_ram'' \<and> soc_name \<notin> set (soc_slaves soc)))) (\<lambda>_.
           Inr (pma_name, soc_name, actual))))))"

fun check_mappings :: "platform \<Rightarrow> soc \<Rightarrow> (string \<times> string) list \<Rightarrow> (string \<times> string \<times> soc_region) list py" where
  "check_mappings cfg soc [] = Inr []"
| "check_mappings cfg soc (m # ms) =
     py_bind (check_mapping cfg soc m) (\<lambda>x. py_bind (check_mappings cfg soc ms) (\<lambda>xs. Inr (x # xs)))"

definition check_soc_regions :: "platform \<Rightarrow> soc \<Rightarrow> bool \<Rightarrow> (string \<times> string \<times> soc_region) list py" where
  "check_soc_regions cfg soc require_csr =
     (let ms = soc_mappings soc require_csr in
      py_bind (check_mappings cfg soc ms) (\<lambda>checked.
      py_bind (require (\<not> (require_csr \<and> fst ` set (soc_regions soc) \<noteq> fst ` set ms))) (\<lambda>_. Inr checked)))"

text \<open>The byte lanes of the MMIO bridge: register slots of the PLIC and of the CSR window are 32 bits wide.\<close>

definition mmio_narrow :: "platform \<Rightarrow> int \<Rightarrow> bool py" where
  "mmio_narrow cfg addr =
     py_bind (get_regions cfg [''plic'', ''litex_mmio'']) (\<lambda>rs.
       Inr (list_ex (\<lambda>r. addr \<ge> pr_origin r \<and> addr < pr_origin r + pr_size r) rs))"

definition mmio_sel :: "platform \<Rightarrow> nat \<Rightarrow> int \<Rightarrow> bool \<Rightarrow> nat \<Rightarrow> nat py" where
  "mmio_sel cfg data_width addr we sel =
     py_bind (require (data_width = 64)) (\<lambda>_. py_bind (mmio_narrow cfg addr) (\<lambda>narrow.
       Inr (if we then sel else if narrow then (if bit addr 2 then 0xF0 else 0x0F) else 0xFF)))"

section \<open>Routing\<close>

text \<open>An address channel within its signal widths; the burst's length in bytes.\<close>

definition ax_ok :: "nat \<Rightarrow> axi_ax \<Rightarrow> bool" where
  "ax_ok aw a \<longleftrightarrow> 0 \<le> ax_addr a \<and> ax_addr a < 2 ^ aw \<and> ax_len a < 256"

definition ax_bytes :: "axi_ax \<Rightarrow> int" where
  "ax_bytes a = int (ax_len a + 1) * 2 ^ ax_size a"

lemma ax_last_exact:
  assumes "ax_ok aw a" "ms + 8 \<le> aw" "ax_size a \<le> ms"
  shows "ax_last aw ms a = ax_addr a + ax_bytes a - 1"
proof -
  have beats: "ax_beats a = ax_len a + 1" using assms(1) by (simp add: ax_ok_def ax_beats_def)
  let ?n = "(ax_len a + 1) * 2 ^ ax_size a"
  have "?n \<le> 2 ^ 8 * 2 ^ ax_size a" using assms(1) by (intro mult_right_mono) (simp_all add: ax_ok_def)
  also have "\<dots> = 2 ^ (8 + ax_size a)" by (simp only: power_add)
  also have "\<dots> \<le> (2::nat) ^ aw" using assms(2,3) by (intro power_increasing) simp_all
  finally have n: "?n \<le> 2 ^ aw" .
  have "?n < 2 ^ (aw + 1)" by (rule le_less_trans [OF n]) simp
  moreover have "ax_span aw ms a = ?n mod 2 ^ (aw + 1)"
    by (simp only: ax_span_def beats push_bit_eq_mult min_absorb1 [OF assms(3)])
  ultimately have span: "ax_span aw ms a = ?n" by (simp only: mod_less)
  have "int ?n \<le> 2 ^ aw" using n by (metis of_nat_le_iff of_nat_numeral of_nat_power)
  then have "ax_addr a + int ?n - 1 < 2 ^ (aw + 1)" using assms(1) by (simp add: ax_ok_def)
  moreover have "0 \<le> ax_addr a + int ?n - 1"
  proof -
    have "1 \<le> int ?n" by (simp add: Suc_le_eq del: of_nat_mult of_nat_add of_nat_power)
    then show ?thesis using assms(1) unfolding ax_ok_def by linarith
  qed
  ultimately show ?thesis by (simp only: ax_last_def span mod_pos_pos_trivial) (simp add: ax_bytes_def algebra_simps)
qed

lemma axi_inside_iff:
  assumes "ax_ok aw a" "ms + 8 \<le> aw"
  shows "axi_inside aw ms wr a r \<longleftrightarrow> (if wr then pr_writable r else pr_readable r) \<and> ax_burst a = 1 \<and>
    ax_size a \<le> ms \<and> pma_covers r (ax_addr a) (ax_bytes a)"
proof -
  have "0 < ax_bytes a" by (simp add: ax_bytes_def)
  then show ?thesis
    using ax_last_exact [OF assms] by (auto simp: axi_inside_def pma_covers_def)
qed

lemma get_region_mem:
  assumes "get_region cfg n = Inr r"
  shows "r \<in> set (pf_regions cfg) \<and> pr_name r = n"
proof -
  from assms have "(n, r) \<in> set (rev (map (\<lambda>r. (pr_name r, r)) (pf_regions cfg)))"
    by (auto simp: get_region_def platform_regions_def split: option.splits dest: map_of_SomeD)
  then show ?thesis by auto
qed

lemma router_init_Inr:
  assumes "router_init cfg = Inr rr"
  shows "rr_main rr \<in> set (pf_regions cfg) \<and> pr_name (rr_main rr) = ''main_ram'' \<and>
    (\<forall>r \<in> set (rr_low rr). r \<in> set (pf_regions cfg) \<and> pr_name r \<noteq> ''main_ram'')"
  using assms by (auto simp: router_init_def low_names_def py_bind_Inr_iff dest!: get_region_mem)

lemma covers_one:
  assumes "load_platform cfg = Inr cfg'" "a \<in> set (pf_regions cfg)" "b \<in> set (pf_regions cfg)"
    "pma_covers a addr n" "pma_covers b addr n"
  shows "a = b"
proof (rule ccontr)
  assume "a \<noteq> b"
  from assms(1) have "check_regions (pf_regions cfg) = Inr ()"
    "check_overlap (sort_key pr_origin (pf_regions cfg)) = Inr ()"
    by (auto elim: load_platform_Inr)
  then have "disjoint_regions a b"
    using overlap_disjoint [OF _ _ assms(2,3) \<open>a \<noteq> b\<close>] check_regions_ok by (metis region_ok_def)
  with assms(4,5) show False by (auto simp: pma_covers_def disjoint_regions_def)
qed

text \<open>The two exits of a decoded channel, on an accepted platform: they exclude each other, so that the order in
  which the machines test them does not matter.\<close>

lemma axi_decode_iff:
  assumes "load_platform cfg = Inr cfg'" "router_init cfg = Inr rr" "ax_ok aw a" "ms + 8 \<le> aw"
    "axi_decode aw ms rr wr a = (dram, low)"
  shows "\<not> (dram \<and> low) \<and>
    (dram \<longleftrightarrow> ax_burst a = 1 \<and> ax_size a \<le> ms \<and> (if wr then pr_writable (rr_main rr) else pr_readable (rr_main rr)) \<and>
       pma_covers (rr_main rr) (ax_addr a) (ax_bytes a)) \<and>
    (low \<longleftrightarrow> ax_burst a = 1 \<and> ax_size a \<le> ms \<and> (\<exists>r \<in> set (rr_low rr). (if wr then pr_writable r else pr_readable r) \<and>
       pma_covers r (ax_addr a) (ax_bytes a)))"
proof -
  note rr = router_init_Inr [OF assms(2)]
  have "\<not> (pma_covers (rr_main rr) x n \<and> pma_covers r x n)" if "r \<in> set (rr_low rr)" for r x n
    using rr that covers_one [OF assms(1)] by metis
  then show ?thesis
    using assms(5) axi_inside_iff [OF assms(3,4)] by (auto simp: axi_decode_def list_ex_iff)
qed

lemma lookup_bits:
  assumes "load_platform cfg = Inr cfg'" "r \<in> set (pf_regions cfg)" "pma_covers r addr n"
  shows "pma_lookup cfg addr n = pma_bits r"
  unfolding pma_lookup_def
  using covers_one [OF assms(1) _ assms(2) _ assms(3)] assms(2,3) by (intro pma_lookup_fold) auto


section \<open>Event traces and counted bursts\<close>

text \<open>The events of a machine over a sequence of cycles, and its final state.\<close>

fun event_trace :: "('s \<Rightarrow> 'i \<Rightarrow> 's) \<Rightarrow> ('s \<Rightarrow> 'i \<Rightarrow> 'e list) \<Rightarrow> 's \<Rightarrow> 'i list \<Rightarrow> 'e list \<times> 's" where
  "event_trace nxt ev s [] = ([], s)"
| "event_trace nxt ev s (i # ins) =
     (let (es, s') = event_trace nxt ev (nxt s i) ins in (ev s i @ es, s'))"

text \<open>
  The contract of a counted burst: in a \<open>busy\<close> state with \<open>left\<close> beats to go, a cycle that is not \<open>go\<close> changes
  nothing; one that is transfers a beat, marked when it is the last, after which the machine is \<open>done\<close>.
  Both error machines of the router keep it.
\<close>

locale counted_burst =
  fixes nxt :: "'s \<Rightarrow> 'i \<Rightarrow> 's"
    and ev :: "'s \<Rightarrow> 'i \<Rightarrow> 'e list"
    and go :: "'i \<Rightarrow> bool"
    and busy :: "'s \<Rightarrow> bool"
    and finished :: "'s \<Rightarrow> bool"
    and left :: "'s \<Rightarrow> nat"
    and tag :: "'s \<Rightarrow> 'k"
    and beat :: "bool \<Rightarrow> 'e"
  assumes stall: "busy s \<Longrightarrow> \<not> go i \<Longrightarrow> nxt s i = s \<and> ev s i = []"
    and beat_ev: "busy s \<Longrightarrow> go i \<Longrightarrow> ev s i = [beat (left s = 1)]"
    and beat_next: "busy s \<Longrightarrow> go i \<Longrightarrow> left s \<noteq> 1 \<Longrightarrow> busy (nxt s i) \<and> left (nxt s i) = left s - 1"
    and beat_last: "busy s \<Longrightarrow> go i \<Longrightarrow> left s = 1 \<Longrightarrow> finished (nxt s i)"
    and beat_tag: "busy s \<Longrightarrow> tag (nxt s i) = tag s"
    and left_pos: "busy s \<Longrightarrow> 0 < left s"
begin

lemma burst:
  assumes "busy s" "length (filter go ins) = left s" "go (last ins)"
  shows "\<exists>s'. event_trace nxt ev s ins = (replicate (left s - 1) (beat False) @ [beat True], s') \<and>
    finished s' \<and> tag s' = tag s"
  using assms
proof (induction ins arbitrary: s)
  case Nil
  then show ?case using left_pos by force
next
  case (Cons i ins)
  show ?case
  proof (cases "go i")
    case False
    then have "ins \<noteq> []" using Cons.prems(3) by auto
    with Cons False show ?thesis using stall [OF Cons.prems(1) False] by auto
  next
    case go: True
    show ?thesis
    proof (cases "left s = 1")
      case True
      then have "filter go ins = []" using Cons.prems(2) go by simp
      then have "ins = []" using Cons.prems(3) by (metis filter_empty_conv last_ConsR last_in_set)
      with go True Cons.prems(1) show ?thesis by (simp add: beat_ev beat_last beat_tag)
    next
      case False
      have b: "busy (nxt s i)" "left (nxt s i) = left s - 1" using beat_next [OF Cons.prems(1) go False] by simp_all
      moreover have "length (filter go ins) = left (nxt s i)" using Cons.prems(2) go b(2) by simp
      moreover from this have "ins \<noteq> []" using left_pos [OF b(1)] by auto
      ultimately obtain s' where s': "event_trace nxt ev (nxt s i) ins =
          (replicate (left s - 1 - 1) (beat False) @ [beat True], s')" "finished s'" "tag s' = tag s"
        using Cons.IH [of "nxt s i"] Cons.prems(1,3) by (auto simp: beat_tag)
      have "left s - 1 = Suc (left s - 1 - 1)" using left_pos [OF b(1)] b(2) by simp
      then have "beat False # replicate (left s - 1 - 1) (beat False) = replicate (left s - 1) (beat False)"
        by (metis replicate_Suc)
      with s' go False Cons.prems(1) show ?thesis by (simp add: beat_ev)
    qed
  qed
qed

end

section \<open>One transaction at a time\<close>

text \<open>What happens on the upstream channels in a cycle: an accepted address (with the exit it takes), an accepted
  response or data beat.\<close>

datatype exit = Dram | Low | Fault

datatype rd_event = AR exit | RB exit bool

fun rd_exit :: "rd_state \<Rightarrow> exit option" where
  "rd_exit R_IDLE = None"
| "rd_exit R_DRAM = Some Dram"
| "rd_exit R_LOW = Some Low"
| "rd_exit R_ERROR = Some Fault"

definition read_events :: "nat \<Rightarrow> nat \<Rightarrow> router_regions \<Rightarrow> rd_fsm \<Rightarrow> rd_in \<Rightarrow> rd_event list" where
  "read_events aw ms rr s i =
     (let out = read_out aw ms rr s i; (dram, low) = axi_decode aw ms rr False (rdi_ar i) in
      (if ax_valid (rdi_ar i) \<and> rdo_ar_ready out
       then [AR (if dram then Dram else if low then Low else Fault)] else []) @
      (if r_valid (rdo_r out) \<and> rdi_r_ready i
       then [RB (the (rd_exit (rd_state s))) (r_last (rdo_r out))] else []))"

definition read_trace :: "nat \<Rightarrow> nat \<Rightarrow> router_regions \<Rightarrow> rd_fsm \<Rightarrow> rd_in list \<Rightarrow> rd_event list \<times> rd_fsm" where
  "read_trace aw ms rr = event_trace (read_next aw ms rr) (read_events aw ms rr)"

text \<open>The serial protocol: an address only when none is outstanding, beats only of the outstanding one's exit, up to
  the last.\<close>

fun rd_serial :: "exit option \<Rightarrow> rd_event list \<Rightarrow> exit option option" where
  "rd_serial st [] = Some st"
| "rd_serial None (AR d # es) = rd_serial (Some d) es"
| "rd_serial (Some d) (RB d' lst # es) = (if d = d' then rd_serial (if lst then None else Some d) es else None)"
| "rd_serial _ _ = None"

lemma rd_serial_append: "rd_serial st (xs @ ys) = Option.bind (rd_serial st xs) (\<lambda>st'. rd_serial st' ys)"
  by (induction st xs rule: rd_serial.induct) auto

lemma read_events_serial:
  "rd_serial (rd_exit (rd_state s)) (read_events aw ms rr s i) = Some (rd_exit (rd_state (read_next aw ms rr s i)))"
proof -
  obtain d l where dl: "axi_decode aw ms rr False (rdi_ar i) = (d, l)" by fastforce
  show ?thesis
    by (cases "rd_state s")
       (simp_all add: read_events_def read_next_def read_out_def rd_quiet_def r_none_def dl Let_def)
qed

text \<open>On every input sequence the accepted addresses and response beats form the serial protocol: the next address
  is taken only after the last beat of the one before, and every beat comes from the exit its address
  went to.\<close>

theorem axi_read_serial:
  "rd_serial None (fst (read_trace aw ms rr rd_reset ins)) =
   Some (rd_exit (rd_state (snd (read_trace aw ms rr rd_reset ins))))"
proof -
  have "rd_serial (rd_exit (rd_state s)) (fst (read_trace aw ms rr s ins)) =
      Some (rd_exit (rd_state (snd (read_trace aw ms rr s ins))))" for s
    by (induction ins arbitrary: s)
       (simp_all add: read_trace_def case_prod_beta rd_serial_append read_events_serial)
  from this [of rd_reset] show ?thesis by (simp add: rd_reset_def)
qed

subsection \<open>Error responses\<close>

interpretation rd_burst: counted_burst "read_next aw ms rr" "read_events aw ms rr" rdi_r_ready
    "\<lambda>s. rd_state s = R_ERROR \<and> 0 < rd_remaining s \<and> rd_remaining s \<le> 256" "\<lambda>s. rd_state s = R_IDLE"
    rd_remaining rd_id "RB Fault" for aw ms rr
  by unfold_locales
     (auto simp: read_next_def read_events_def read_out_def rd_quiet_def case_prod_beta Let_def mod_if)

text \<open>A read request that no permitted region contains is accepted at once and answered by exactly as many beats as
  it asked for, the last one and only it marked last, however the master stalls; then the router is
  idle again.\<close>

theorem axi_read_error_beats:
  assumes "rd_state s = R_IDLE" "axi_decode aw ms rr False (rdi_ar i) = (False, False)" "ax_valid (rdi_ar i)"
    "ax_len (rdi_ar i) < 256" "length (filter rdi_r_ready ins) = ax_len (rdi_ar i) + 1" "rdi_r_ready (last ins)"
  shows "\<exists>s'. read_trace aw ms rr s (i # ins) =
      (AR Fault # replicate (ax_len (rdi_ar i)) (RB Fault False) @ [RB Fault True], s') \<and> rd_state s' = R_IDLE"
proof -
  let ?s = "s\<lparr>rd_id := ax_id (rdi_ar i), rd_remaining := ax_len (rdi_ar i) + 1, rd_state := R_ERROR\<rparr>"
  have "read_next aw ms rr s i = ?s" "read_events aw ms rr s i = [AR Fault]"
    using assms(1-4) by (simp_all add: read_next_def read_events_def read_out_def rd_quiet_def r_none_def Let_def)
  moreover obtain s' where "read_trace aw ms rr ?s ins =
      (replicate (ax_len (rdi_ar i)) (RB Fault False) @ [RB Fault True], s')" "rd_state s' = R_IDLE"
    using rd_burst.burst [of ?s ins aw ms rr] assms(4-6) by (auto simp: read_trace_def)
  ultimately show ?thesis by (auto simp: read_trace_def)
qed

subsection \<open>Writes\<close>

text \<open>An accepted address with its exit; a data beat, marked when it ends the burst (the master's last beat, or for an
  error the last one counted); an accepted write response.\<close>

datatype wr_event = AW exit | WB bool | BR exit

text \<open>The exit of the outstanding write and whether its data is complete.\<close>

fun wr_exit :: "wr_fsm \<Rightarrow> (exit \<times> bool) option" where
  "wr_exit s = (case wr_state s of W_IDLE \<Rightarrow> None | W_DRAM \<Rightarrow> Some (Dram, wr_done s) | W_LOW \<Rightarrow> Some (Low, wr_done s)
     | W_ERROR_W \<Rightarrow> Some (Fault, False) | W_ERROR_B \<Rightarrow> Some (Fault, True))"

definition write_events :: "nat \<Rightarrow> nat \<Rightarrow> router_regions \<Rightarrow> wr_fsm \<Rightarrow> wr_in \<Rightarrow> wr_event list" where
  "write_events aw ms rr s i =
     (let out = write_out aw ms rr s i; (dram, low) = axi_decode aw ms rr True (wri_aw i) in
      (if ax_valid (wri_aw i) \<and> wro_aw_ready out
       then [AW (if dram then Dram else if low then Low else Fault)] else []) @
      (if wri_w_valid i \<and> wro_w_ready out
       then [WB (if wr_state s = W_ERROR_W then wr_remaining s = 1 else wri_w_last i)] else []) @
      (if ab_valid (wro_b out) \<and> wri_b_ready i then [BR (fst (the (wr_exit s)))] else []))"

definition write_trace :: "nat \<Rightarrow> nat \<Rightarrow> router_regions \<Rightarrow> wr_fsm \<Rightarrow> wr_in list \<Rightarrow> wr_event list \<times> wr_fsm" where
  "write_trace aw ms rr = event_trace (write_next aw ms rr) (write_events aw ms rr)"

fun wr_serial :: "(exit \<times> bool) option \<Rightarrow> wr_event list \<Rightarrow> (exit \<times> bool) option option" where
  "wr_serial st [] = Some st"
| "wr_serial None (AW d # es) = wr_serial (Some (d, False)) es"
| "wr_serial (Some (d, False)) (WB fin # es) = wr_serial (Some (d, fin)) es"
| "wr_serial (Some (d, c)) (BR d' # es) = (if d = d' \<and> (d = Fault \<longrightarrow> c) then wr_serial None es else None)"
| "wr_serial _ _ = None"

lemma wr_serial_append: "wr_serial st (xs @ ys) = Option.bind (wr_serial st xs) (\<lambda>st'. wr_serial st' ys)"
  by (induction st xs rule: wr_serial.induct) auto

lemma write_events_serial:
  "wr_serial (wr_exit s) (write_events aw ms rr s i) = Some (wr_exit (write_next aw ms rr s i))"
proof -
  obtain d l where dl: "axi_decode aw ms rr True (wri_aw i) = (d, l)" by fastforce
  show ?thesis
    by (cases "wr_state s"; cases "wr_done s")
       (simp_all add: write_events_def write_next_def write_out_def wr_quiet_def dl Let_def)
qed


interpretation wr_burst: counted_burst "write_next aw ms rr" "write_events aw ms rr" wri_w_valid
    "\<lambda>s. wr_state s = W_ERROR_W \<and> 0 < wr_remaining s \<and> wr_remaining s \<le> 256" "\<lambda>s. wr_state s = W_ERROR_B"
    wr_remaining wr_id WB for aw ms rr
  by unfold_locales
     (auto simp: write_next_def write_events_def write_out_def wr_quiet_def case_prod_beta Let_def mod_if)

text \<open>A write that no permitted region contains is accepted at once, takes exactly the data beats it announced and then
  offers one error response with the write's identifier.\<close>

theorem axi_write_error:
  assumes "wr_state s = W_IDLE" "axi_decode aw ms rr True (wri_aw i) = (False, False)" "ax_valid (wri_aw i)"
    "ax_len (wri_aw i) < 256" "length (filter wri_w_valid ins) = ax_len (wri_aw i) + 1" "wri_w_valid (last ins)"
  shows "\<exists>s'. write_trace aw ms rr s (i # ins) =
      (AW Fault # replicate (ax_len (wri_aw i)) (WB False) @ [WB True], s') \<and>
    (\<forall>j. wro_b (write_out aw ms rr s' j) = \<lparr>ab_valid = True, ab_id = ax_id (wri_aw i), ab_resp = 3\<rparr> \<and>
       wr_state (write_next aw ms rr s' j) = (if wri_b_ready j then W_IDLE else W_ERROR_B))"
proof -
  let ?s = "s\<lparr>wr_done := False, wr_id := ax_id (wri_aw i), wr_remaining := ax_len (wri_aw i) + 1, wr_state := W_ERROR_W\<rparr>"
  have "write_next aw ms rr s i = ?s" "write_events aw ms rr s i = [AW Fault]"
    using assms(1-4) by (simp_all add: write_next_def write_events_def write_out_def wr_quiet_def Let_def)
  moreover obtain s' where s': "write_trace aw ms rr ?s ins =
      (replicate (ax_len (wri_aw i)) (WB False) @ [WB True], s')" "wr_state s' = W_ERROR_B" "wr_id s' = ax_id (wri_aw i)"
    using wr_burst.burst [of ?s ins aw ms rr] assms(4-6) by (auto simp: write_trace_def)
  ultimately have "write_trace aw ms rr s (i # ins) =
      (AW Fault # replicate (ax_len (wri_aw i)) (WB False) @ [WB True], s')" by (simp add: write_trace_def)
  with s'(2,3) show ?thesis
    by (intro exI [of _ s']) (simp add: write_out_def wr_quiet_def write_next_def case_prod_beta Let_def)
qed

section \<open>The SoC check and the MMIO lanes\<close>

lemma check_mappings_Inr:
  "check_mappings cfg soc ms = Inr xs \<Longrightarrow> m \<in> set ms \<Longrightarrow> \<exists>x \<in> set xs. check_mapping cfg soc m = Inr x"
  by (induction ms arbitrary: xs) (auto simp: py_bind_Inr_iff)

text \<open>An SoC that passes the check decodes every mapped region exactly as the platform describes it, with a slave
  behind every one but the main memory; with \<open>require_csr\<close> it has no other region.\<close>

theorem check_soc_regions_sound:
  assumes "check_soc_regions cfg soc require_csr = Inr checked"
  shows "(\<forall>(n, p) \<in> set (soc_mappings soc require_csr). \<exists>a r. map_of (soc_regions soc) n = Some a \<and> get_region cfg p = Inr r \<and>
      sr_origin a = pr_origin r \<and> sr_size a = pr_size r \<and> sr_pow2 a = pr_size r \<and> sr_mode a = pma_mode r \<and>
      sr_cached a = pr_cacheable r \<and> sr_decode a \<and> (n = ''main_ram'' \<or> n \<in> set (soc_slaves soc))) \<and>
    (require_csr \<longrightarrow> fst ` set (soc_regions soc) = fst ` set (soc_mappings soc require_csr))"
proof (intro conjI ballI)
  from assms have ms: "check_mappings cfg soc (soc_mappings soc require_csr) = Inr checked"
    and rc: "require_csr \<longrightarrow> fst ` set (soc_regions soc) = fst ` set (soc_mappings soc require_csr)"
    by (auto simp: check_soc_regions_def py_bind_Inr_iff Let_def)
  show "require_csr \<longrightarrow> fst ` set (soc_regions soc) = fst ` set (soc_mappings soc require_csr)" by (rule rc)
  fix m assume "m \<in> set (soc_mappings soc require_csr)"
  from check_mappings_Inr [OF ms this] obtain x where "check_mapping cfg soc m = Inr x" by blast
  then show "case m of (n, p) \<Rightarrow> \<exists>a r. map_of (soc_regions soc) n = Some a \<and> get_region cfg p = Inr r \<and>
      sr_origin a = pr_origin r \<and> sr_size a = pr_size r \<and> sr_pow2 a = pr_size r \<and> sr_mode a = pma_mode r \<and>
      sr_cached a = pr_cacheable r \<and> sr_decode a \<and> (n = ''main_ram'' \<or> n \<in> set (soc_slaves soc))"
    by (cases m) (auto simp: check_mapping_def py_bind_Inr_iff split: option.splits)
qed

text \<open>A narrow read enables the four byte lanes of the 32-bit slot that holds the addressed byte.\<close>

theorem mmio_sel_lanes:
  assumes "mmio_sel cfg 64 addr False sel = Inr lanes" "mmio_narrow cfg addr = Inr narrow"
  shows "bit lanes k \<longleftrightarrow> k < 8 \<and> (narrow \<longrightarrow> int k div 4 = addr mod 8 div 4)"
proof -
  have l: "lanes = (if narrow then (if bit addr 2 then 0xF0 else 0x0F) else 0xFF)"
    using assms by (simp add: mmio_sel_def)
  have b: "bit addr 2 \<longleftrightarrow> addr mod 8 div 4 = 1" "addr mod 8 div 4 \<in> {0, 1}"
    by (auto simp: bit_iff_odd) presburger+
  have F0: "bit (0xF0 :: nat) k \<longleftrightarrow> 4 \<le> k \<and> k < 8" and OF: "bit (0x0F :: nat) k \<longleftrightarrow> k < 4" and FF: "bit (0xFF :: nat) k \<longleftrightarrow> k < 8"
    using bit_mask_iff [of 4 k, where 'a = nat] bit_mask_iff [of 8 k, where 'a = nat] bit_push_bit_iff [of 4 "mask 4 :: nat" k]
      bit_mask_iff [of 4 "k - 4", where 'a = nat]
    by (auto simp: mask_eq_exp_minus_1 push_bit_eq_mult)
  have "int k div 4 = addr mod 8 div 4 \<longleftrightarrow> (if bit addr 2 then 4 \<le> k else k < 4)" if "k < 8"
    using b that by auto
  then show ?thesis using F0 OF FF by (auto simp: l)
qed

section \<open>Witnesses\<close>

definition o3_router :: router_regions where
  "o3_router = \<lparr>rr_main = pf_regions o3_platform ! 6,
     rr_low = [pf_regions o3_platform ! 2, pf_regions o3_platform ! 3, pf_regions o3_platform ! 4]\<rparr>"

lemma o3_router_init: "router_init o3_platform = Inr o3_router"
  by code_simp

definition ax_demo :: "int \<Rightarrow> nat \<Rightarrow> axi_ax" where
  "ax_demo addr len = \<lparr>ax_valid = True, ax_addr = addr, ax_len = len, ax_size = 3, ax_burst = 1, ax_id = 6\<rparr>"

definition rd_demo :: "int \<Rightarrow> nat \<Rightarrow> bool \<Rightarrow> rd_in" where
  "rd_demo addr len ready = \<lparr>rdi_ar = ax_demo addr len, rdi_r_ready = ready, rdi_dram_ar_ready = True,
     rdi_low_ar_ready = True, rdi_dram_r = r_none, rdi_low_r = r_none\<rparr>"

definition wr_demo :: "int \<Rightarrow> nat \<Rightarrow> bool \<Rightarrow> wr_in" where
  "wr_demo addr len valid = \<lparr>wri_aw = ax_demo addr len, wri_w_valid = valid, wri_w_last = False, wri_b_ready = True,
     wri_dram_aw_ready = True, wri_low_aw_ready = True, wri_dram_w_ready = True, wri_low_w_ready = True,
     wri_dram_b = \<lparr>ab_valid = False, ab_id = 0, ab_resp = 0\<rparr>, wri_low_b = \<lparr>ab_valid = False, ab_id = 0, ab_resp = 0\<rparr>\<rparr>"

lemma ax_demo_ok: "0 \<le> addr \<Longrightarrow> addr < 2 ^ 32 \<Longrightarrow> len < 256 \<Longrightarrow> ax_ok 32 (ax_demo addr len)"
  by (simp add: ax_ok_def ax_demo_def)


lemma o3_router_miss:
  "axi_decode 32 3 o3_router False (ax_demo 0x20000000 1) = (False, False)"
  "axi_decode 32 3 o3_router True (ax_demo 0x10000000 1) = (False, False)"
  by (simp_all add: axi_decode_def axi_inside_def o3_router_def o3_platform_def ax_demo_def ax_last_def ax_span_def ax_beats_def
      push_bit_eq_mult)

theorem axi_read_error_beats_witness:
  "\<exists>s'. read_trace 32 3 o3_router rd_reset [rd_demo 0x20000000 1 True, rd_demo 0 0 False, rd_demo 0 0 True, rd_demo 0 0 True] =
     ([AR Fault, RB Fault False, RB Fault True], s') \<and> rd_state s' = R_IDLE"
  using axi_read_error_beats [of rd_reset 32 3 o3_router "rd_demo 0x20000000 1 True"
      "[rd_demo 0 0 False, rd_demo 0 0 True, rd_demo 0 0 True]"] o3_router_miss(1)
  by (simp add: rd_demo_def rd_reset_def) (simp add: ax_demo_def)

theorem axi_write_error_witness:
  "\<exists>s'. write_trace 32 3 o3_router wr_reset [wr_demo 0x10000000 1 False, wr_demo 0 0 True, wr_demo 0 0 True] =
     ([AW Fault, WB False, WB True], s')"
  using axi_write_error [of wr_reset 32 3 o3_router "wr_demo 0x10000000 1 False"
      "[wr_demo 0 0 True, wr_demo 0 0 True]"] o3_router_miss(2)
  by (auto simp: wr_demo_def wr_reset_def ax_demo_def)

end
