(* ===== verification/Gen_Random.thy ===== *)
theory Gen_Random
  imports IFU_F1
begin

text \<open>
  The random test program generator \<open>sim/o3/gen_random.py\<close>: its RV64I encoders and \<open>generate\<close>. What
  the random generator returns is a parameter: the initial register values, and for each turn of the
  loop the three registers and the drawn template with its drawn operands (\<open>gen_pick\<close>), whose ranges
  are those of the calls (\<open>pick_ok\<close>). The command line and the writing of files are not modelled.
\<close>

section \<open>Encoders\<close>

definition gr_i :: "int \<Rightarrow> int \<Rightarrow> int \<Rightarrow> int \<Rightarrow> int \<Rightarrow> int" where
  "gr_i op rd f3 rs imm =
     push_bit 20 (imm AND 0xFFF) OR push_bit 15 rs OR push_bit 12 f3 OR push_bit 7 rd OR op"

definition gr_r :: "int \<Rightarrow> int \<Rightarrow> int \<Rightarrow> int \<Rightarrow> int \<Rightarrow> int \<Rightarrow> int" where
  "gr_r rd f3 a b f7 op =
     push_bit 25 f7 OR push_bit 20 b OR push_bit 15 a OR push_bit 12 f3 OR push_bit 7 rd OR op"

definition gr_store :: "int \<Rightarrow> int \<Rightarrow> int \<Rightarrow> int \<Rightarrow> int" where
  "gr_store f3 base rs imm =
     push_bit 20 (imm AND 0xFE0) OR push_bit 20 rs OR push_bit 15 base OR push_bit 12 f3
     OR push_bit 7 (imm AND 31) OR 0x23"

definition gr_branch :: "int \<Rightarrow> int \<Rightarrow> int \<Rightarrow> int \<Rightarrow> int" where
  "gr_branch f3 a b off =
     push_bit 31 (drop_bit 12 off AND 1) OR push_bit 25 (drop_bit 5 off AND 63) OR push_bit 20 b OR push_bit 15 a
     OR push_bit 12 f3 OR push_bit 8 (drop_bit 1 off AND 15) OR push_bit 7 (drop_bit 11 off AND 1) OR 0x63"

definition gr_jal :: "int \<Rightarrow> int \<Rightarrow> int" where
  "gr_jal rd off =
     push_bit 31 (drop_bit 20 off AND 1) OR push_bit 21 (drop_bit 1 off AND 1023) OR push_bit 20 (drop_bit 11 off AND 1)
     OR push_bit 12 (drop_bit 12 off AND 255) OR push_bit 7 rd OR 0x6F"

definition gr_csr :: "int \<Rightarrow> int \<Rightarrow> int \<Rightarrow> int \<Rightarrow> int" where
  "gr_csr addr rd op rs = push_bit 20 addr OR push_bit 15 rs OR push_bit 12 op OR push_bit 7 rd OR 0x73"

section \<open>Templates\<close>

text \<open>One constructor per path through the template code, with what that path draws.\<close>

datatype gen_pick =
    P_trap int
  | P_csr int int int
  | P_imm int int
  | P_shift int bool int
  | P_reg int bool
  | P_reg32 int bool
  | P_imm32 int
  | P_loop nat
  | P_branch int
  | P_jal bool
  | P_load int int bool
  | P_store int int

datatype gen_kind = K_system | K_alu | K_branch | K_jal | K_load | K_store

fun gen_kind_of :: "gen_pick \<Rightarrow> gen_kind" where
  "gen_kind_of (P_trap w) = K_system"
| "gen_kind_of (P_csr addr op src) = K_system"
| "gen_kind_of (P_loop n) = K_branch"
| "gen_kind_of (P_branch f3) = K_branch"
| "gen_kind_of (P_jal link) = K_jal"
| "gen_kind_of (P_load f3 slot zero) = K_load"
| "gen_kind_of (P_store f3 slot) = K_store"
| "gen_kind_of _ = K_alu"

definition gr_size :: "int \<Rightarrow> int" where
  "gr_size f3 = push_bit (nat (f3 AND 3)) 1"

text \<open>The ranges of the draws, given the register \<open>a\<close>.\<close>

fun pick_ok :: "int \<Rightarrow> gen_pick \<Rightarrow> bool" where
  "pick_ok a (P_trap w) \<longleftrightarrow> w \<in> {0x73, 0x100073, 0xB}"
| "pick_ok a (P_csr addr op src) \<longleftrightarrow> addr \<in> {0x340, 0x305, 0x341, 0x342, 0x343} \<and>
     (if addr = 0x305 then op \<in> {6, 7} \<and> src \<in> {0, 1}
      else op \<in> {1, 2, 3, 5, 6, 7} \<and> (if op < 4 then src = a else 0 \<le> src \<and> src < 32))"
| "pick_ok a (P_imm f3 imm) \<longleftrightarrow> f3 \<in> {0, 2, 3, 4, 6, 7} \<and> - 2048 \<le> imm \<and> imm \<le> 2047"
| "pick_ok a (P_shift f3 arith sh) \<longleftrightarrow> f3 \<in> {1, 5} \<and> (arith \<longrightarrow> f3 = 5) \<and> 0 \<le> sh \<and> sh < 64"
| "pick_ok a (P_reg f3 alt) \<longleftrightarrow> 0 \<le> f3 \<and> f3 < 8 \<and> (alt \<longrightarrow> f3 \<in> {0, 5})"
| "pick_ok a (P_reg32 f3 alt) \<longleftrightarrow> f3 \<in> {0, 1, 5} \<and> (alt \<longrightarrow> f3 \<in> {0, 5})"
| "pick_ok a (P_imm32 imm) \<longleftrightarrow> - 2048 \<le> imm \<and> imm \<le> 2047"
| "pick_ok a (P_loop n) \<longleftrightarrow> 1 \<le> n \<and> n \<le> 8"
| "pick_ok a (P_branch f3) \<longleftrightarrow> f3 \<in> {0, 1, 4, 5, 6, 7}"
| "pick_ok a (P_jal link) \<longleftrightarrow> True"
| "pick_ok a (P_load f3 slot zero) \<longleftrightarrow> f3 \<in> {0, 1, 2, 3, 4, 5, 6} \<and> 0 \<le> slot \<and> slot < 2048 div gr_size f3"
| "pick_ok a (P_store f3 slot) \<longleftrightarrow> 0 \<le> f3 \<and> f3 < 4 \<and> 0 \<le> slot \<and> slot < 2048 div gr_size f3"

text \<open>The block of a template and the number of events it retires.\<close>

fun gen_block :: "int \<Rightarrow> int \<Rightarrow> int \<Rightarrow> gen_pick \<Rightarrow> int list \<times> nat" where
  "gen_block rd a b (P_trap w) = ([w], 8)"
| "gen_block rd a b (P_csr addr op src) =
     ([push_bit 20 addr OR push_bit 15 src OR push_bit 12 op OR push_bit 7 rd OR 0x73], 1)"
| "gen_block rd a b (P_imm f3 imm) = ([gr_i 0x13 rd f3 a imm], 1)"
| "gen_block rd a b (P_shift f3 arith sh) = ([gr_i 0x13 rd f3 a (sh OR (if arith then 0x400 else 0))], 1)"
| "gen_block rd a b (P_reg f3 alt) = ([gr_r rd f3 a b (if f3 \<in> {0, 5} \<and> alt then 0x20 else 0) 0x33], 1)"
| "gen_block rd a b (P_reg32 f3 alt) = ([gr_r rd f3 a b (if f3 \<in> {0, 5} \<and> alt then 0x20 else 0) 0x3B], 1)"
| "gen_block rd a b (P_imm32 imm) = ([gr_i 0x1B rd 0 a imm], 1)"
| "gen_block rd a b (P_loop n) =
     ([gr_i 0x13 2 0 0 (int n), gr_i 0x13 rd 0 rd 1, gr_i 0x13 2 0 2 (- 1), gr_branch 1 2 0 (- 8)], 1 + n * 3)"
| "gen_block rd a b (P_branch f3) =
     ([gr_branch f3 0 0 8, gr_i 0x13 rd 0 a 1], if f3 \<in> {0, 5, 7} then 1 else 2)"
| "gen_block rd a b (P_jal link) = ([gr_jal (if link then rd else 0) 8, gr_i 0x13 rd 0 a 17], 1)"
| "gen_block rd a b (P_load f3 slot zero) = ([gr_i 0x03 (if zero then 0 else rd) f3 1 (slot * gr_size f3)], 1)"
| "gen_block rd a b (P_store f3 slot) = ([gr_store f3 1 b (slot * gr_size f3)], 1)"

text \<open>A load into x0 changes \<open>rd\<close> for the filler below; a loop records its count.\<close>

fun gen_rd :: "int \<Rightarrow> gen_pick \<Rightarrow> int" where
  "gen_rd rd (P_load f3 slot zero) = (if zero then 0 else rd)"
| "gen_rd rd _ = rd"

fun gen_loop_count :: "gen_pick \<Rightarrow> nat list" where
  "gen_loop_count (P_loop n) = [n]"
| "gen_loop_count _ = []"

section \<open>Generation\<close>

type_synonym gen_draw = "int \<times> int \<times> int \<times> gen_pick"

record gen_state =
  gs_words :: "int list"
  gs_dynamic :: nat
  gs_choices :: "gen_kind list"
  gs_loops :: "nat list"

text \<open>A block that would pass the budget is replaced by one filler instruction.\<close>

definition gen_turn :: "nat \<Rightarrow> gen_draw \<Rightarrow> gen_state \<Rightarrow> gen_state" where
  "gen_turn target draw s = (case draw of (rd, a, b, p) \<Rightarrow>
     let (block, count) = gen_block rd a b p;
         (block', count') = (if gs_dynamic s + count > target - 2 then ([gr_i 0x13 (gen_rd rd p) 0 a 0], 1) else (block, count))
     in s\<lparr>gs_words := gs_words s @ block', gs_dynamic := gs_dynamic s + count',
          gs_choices := gs_choices s @ [gen_kind_of p], gs_loops := gs_loops s @ gen_loop_count p\<rparr>)"

lemma gen_block_count: "1 \<le> snd (gen_block rd a b p)"
  by (cases p) auto

lemma gen_turn_dynamic: "gs_dynamic s < gs_dynamic (gen_turn target draw s)"
proof -
  obtain rd a b p where d: "draw = (rd, a, b, p)" by (cases draw)
  have "0 < snd (gen_block rd a b p)" using gen_block_count [of rd a b p] by simp
  then show ?thesis by (simp add: gen_turn_def d case_prod_beta Let_def)
qed

text \<open>The loop \<open>while dynamic < target - 2\<close>; turn \<open>k\<close> draws \<open>draws k\<close>. Every turn retires an event.\<close>

function gen_loop :: "nat \<Rightarrow> (nat \<Rightarrow> gen_draw) \<Rightarrow> nat \<Rightarrow> gen_state \<Rightarrow> gen_state" where
  "gen_loop target draws k s =
     (if gs_dynamic s < target - 2 then gen_loop target draws (Suc k) (gen_turn target (draws k) s) else s)"
  by pat_completeness auto

termination
  by (relation "measure (\<lambda>(target, _, _, s). target - 2 - gs_dynamic s)")
    (auto intro: diff_less_mono2 gen_turn_dynamic)

declare gen_loop.simps [simp del]

text \<open>The prologue: pointers, trap vector and 28 registers.\<close>

definition gen_prologue :: "(nat \<Rightarrow> int) \<Rightarrow> int list" where
  "gen_prologue inits =
     [0x00100097, 0x00110197, gr_i 0x13 3 0 3 (- 12), 0x00008117, gr_i 0x13 2 0 2 (- 12),
      push_bit 20 0x305 OR push_bit 15 2 OR push_bit 12 1 OR 0x73]
     @ map (\<lambda>rd. gr_i 0x13 (int rd) 0 0 (inits rd)) [4..<32]"

definition gen_handler :: "int list" where
  "gen_handler = [gr_csr 0x340 31 1 31, gr_csr 0x342 31 2 0, gr_csr 0x341 31 2 0, gr_i 0x13 31 0 31 4,
     gr_csr 0x341 0 1 31, gr_csr 0x340 31 1 31, 0x30200073]"

definition gen_epilogue :: "int list" where
  "gen_epilogue = [gr_i 0x13 2 0 0 1, gr_store 3 3 2 0, gr_jal 0 0]"

record gen_meta =
  gm_dynamic_target :: nat
  gm_templates :: "gen_kind list"
  gm_backward :: "nat list"
  gm_max_backward :: nat
  gm_static_words :: nat

definition gen_start :: "(nat \<Rightarrow> int) \<Rightarrow> gen_state" where
  "gen_start inits = \<lparr>gs_words = gen_prologue inits, gs_dynamic = 34, gs_choices = [], gs_loops = []\<rparr>"

definition gen_image :: "int list \<Rightarrow> int list" where
  "gen_image code = code @ replicate (8192 - length code) (gr_i 0x13 0 0 0 0) @ gen_handler"

definition gen_meta_of :: "gen_state \<Rightarrow> int list \<Rightarrow> gen_meta" where
  "gen_meta_of s img = \<lparr>gm_dynamic_target = gs_dynamic s + 2, gm_templates = gs_choices s, gm_backward = gs_loops s,
     gm_max_backward = foldr max (gs_loops s) 0, gm_static_words = length img\<rparr>"

definition generate :: "(nat \<Rightarrow> int) \<Rightarrow> (nat \<Rightarrow> gen_draw) \<Rightarrow> nat \<Rightarrow> (int list \<times> gen_meta) py" where
  "generate inits draws target =
     (if target < 2000 then Inl ValueError else
      let s = gen_loop target draws 0 (gen_start inits); code = gs_words s @ gen_epilogue in
      if length code > 8192 then Inl ValueError
      else let img = gen_image code in Inr (img, gen_meta_of s img))"

lemma generate_Inr:
  assumes "generate inits draws target = Inr (img, meta)"
  obtains s where "2000 \<le> target" "length (gs_words s @ gen_epilogue) \<le> 8192"
    "s = gen_loop target draws 0 (gen_start inits)"
    "img = gen_image (gs_words s @ gen_epilogue)" "meta = gen_meta_of s img"
  using assms by (auto simp: generate_def Let_def not_less split: if_splits)

section \<open>The budget is met exactly\<close>

lemma gen_turn_bound:
  "gs_dynamic s < target - 2 \<Longrightarrow> gs_dynamic (gen_turn target draw s) \<le> target - 2"
  by (cases draw) (auto simp: gen_turn_def case_prod_beta Let_def)

lemma gen_loop_dynamic: "gs_dynamic s \<le> target - 2 \<Longrightarrow> gs_dynamic (gen_loop target draws k s) = target - 2"
proof (induction target draws k s rule: gen_loop.induct)
  case (1 target draws k s)
  show ?case
  proof (cases "gs_dynamic s < target - 2")
    case True
    with 1 gen_turn_bound show ?thesis by (simp add: gen_loop.simps [of target draws k s])
  next
    case False
    with 1 show ?thesis by (simp add: gen_loop.simps [of target draws k s])
  qed
qed

text \<open>A property of words that every block and every filler has is one of the whole program.\<close>

definition draw_words_ok :: "(int \<Rightarrow> bool) \<Rightarrow> gen_draw \<Rightarrow> bool" where
  "draw_words_ok Q draw \<longleftrightarrow> (case draw of (rd, a, b, p) \<Rightarrow>
     (\<forall>w \<in> set (fst (gen_block rd a b p)). Q w) \<and> Q (gr_i 0x13 (gen_rd rd p) 0 a 0))"

lemma gen_loop_words:
  "\<forall>k. draw_words_ok Q (draws k) \<Longrightarrow> \<forall>w \<in> set (gs_words s). Q w \<Longrightarrow>
   \<forall>w \<in> set (gs_words (gen_loop target draws k s)). Q w"
proof (induction target draws k s rule: gen_loop.induct)
  case (1 target draws k s)
  obtain rd a b p where d: "draws k = (rd, a, b, p)" by (cases "draws k")
  have ok: "draw_words_ok Q (draws k)" using "1.prems"(1) by blast
  have "\<forall>w \<in> set (gs_words (gen_turn target (draws k) s)). Q w"
    using "1.prems"(2) ok by (auto simp: gen_turn_def draw_words_ok_def d case_prod_beta Let_def)
  with 1 show ?case by (subst gen_loop.simps) simp
qed

text \<open>When generation succeeds the recorded dynamic count is the target exactly, whatever was drawn, and the image is
  the code padded to 8192 words followed by the seven words of the trap handler. It fails only on a
  target below 2000 or when the code would run into the handler.\<close>

lemma generate_budget:
  "(\<forall>img meta. generate inits draws target = Inr (img, meta) \<longrightarrow>
      gm_dynamic_target meta = target \<and> length img = 8199 \<and> drop 8192 img = gen_handler \<and>
      gm_static_words meta = 8199 \<and> (\<forall>n \<in> set (gm_backward meta). n \<le> gm_max_backward meta)) \<and>
   (\<forall>e. generate inits draws target = Inl e \<longrightarrow> e = ValueError) \<and> (target < 2000 \<longrightarrow> generate inits draws target = Inl ValueError)"
proof (intro conjI allI impI)
  fix img meta
  assume g: "generate inits draws target = Inr (img, meta)"
  from g obtain s where s: "2000 \<le> target" "length (gs_words s @ gen_epilogue) \<le> 8192"
    "s = gen_loop target draws 0 (gen_start inits)"
    "img = gen_image (gs_words s @ gen_epilogue)" "meta = gen_meta_of s img" by (rule generate_Inr)
  have "gs_dynamic s = target - 2"
    unfolding s(3) using s(1) by (intro gen_loop_dynamic) (simp add: gen_start_def)
  then show "gm_dynamic_target meta = target" using s(1) by (simp add: s(5) gen_meta_of_def)
  show l: "length img = 8199" using s(2) by (simp add: s(4) gen_image_def gen_handler_def)
  show "drop 8192 img = gen_handler" using s(2) by (simp add: s(4) gen_image_def)
  show "gm_static_words meta = 8199" using l by (simp add: s(5) gen_meta_of_def)
  have "n \<le> foldr max ns 0" if "n \<in> set ns" for n :: nat and ns
    using that by (induction ns) auto
  then show "\<forall>n \<in> set (gm_backward meta). n \<le> gm_max_backward meta" by (simp add: s(5) gen_meta_of_def)
qed (simp_all add: generate_def Let_def split: if_splits)

section \<open>Every word is a 32-bit word\<close>

definition in32 :: "int \<Rightarrow> bool" where
  "in32 w \<longleftrightarrow> 0 \<le> w \<and> w < 2 ^ 32"

lemma in32_iff: "in32 w \<longleftrightarrow> take_bit 32 w = w"
  by (simp add: in32_def take_bit_int_eq_self_iff)

lemma in32_or: "in32 x \<Longrightarrow> in32 y \<Longrightarrow> in32 (x OR y)"
  by (simp add: in32_iff take_bit_or)

lemma in32_push:
  assumes x: "0 \<le> x" "x < 2 ^ n" "k + n \<le> 32"
  shows "in32 (push_bit k x)"
proof -
  have "push_bit k x < 2 ^ k * 2 ^ n" using x by (simp add: push_bit_eq_mult)
  also have "\<dots> \<le> (2::int) ^ 32" unfolding power_add [symmetric] using x(3) by (intro power_increasing) simp_all
  finally show ?thesis using x(1) by (simp add: in32_def push_bit_nonnegative_int_iff)
qed

lemma and_mask_range: "0 \<le> (x::int) AND (2 ^ n - 1) \<and> x AND (2 ^ n - 1) < 2 ^ n"
  by (simp add: mask_eq_exp_minus_1 [symmetric] take_bit_eq_mask [symmetric])

lemmas and_ranges = and_mask_range [of _ 1, simplified] and_mask_range [of _ 4, simplified] and_mask_range [of _ 5, simplified]
  and_mask_range [of _ 6, simplified] and_mask_range [of _ 8, simplified] and_mask_range [of _ 10, simplified]
  and_mask_range [of _ 12, simplified]

definition reg5 :: "int \<Rightarrow> bool" where
  "reg5 r \<longleftrightarrow> 0 \<le> r \<and> r < 32"

lemma in32_fields:
  "reg5 r \<Longrightarrow> in32 (push_bit 7 r)" "reg5 r \<Longrightarrow> in32 (push_bit 15 r)" "reg5 r \<Longrightarrow> in32 (push_bit 20 r)"
  "0 \<le> f \<Longrightarrow> f < 8 \<Longrightarrow> in32 (push_bit 12 f)" "in32 (push_bit 20 (imm AND 0xFFF))"
  "0 \<le> c \<Longrightarrow> c < 4096 \<Longrightarrow> in32 (push_bit 20 c)" "0 \<le> g \<Longrightarrow> g < 128 \<Longrightarrow> in32 (push_bit 25 g)"
  "in32 (push_bit 31 (imm AND 1))" "in32 (push_bit 25 (imm AND 63))" "in32 (push_bit 8 (imm AND 15))"
  "in32 (push_bit 7 (imm AND 1))" "in32 (push_bit 21 (imm AND 1023))" "in32 (push_bit 20 (imm AND 1))"
  "in32 (push_bit 12 (imm AND 255))" "in32 (push_bit 7 (imm AND 31))"
  using in32_push [of r 5 7] in32_push [of r 5 15] in32_push [of r 5 20] in32_push [of f 3 12]
    in32_push [of "imm AND 0xFFF" 12 20] in32_push [of c 12 20] in32_push [of g 7 25]
    in32_push [of "imm AND 1" 1 31] in32_push [of "imm AND 63" 6 25] in32_push [of "imm AND 15" 4 8]
    in32_push [of "imm AND 1" 1 7] in32_push [of "imm AND 1023" 10 21] in32_push [of "imm AND 1" 1 20]
    in32_push [of "imm AND 255" 8 12] in32_push [of "imm AND 31" 5 7] and_ranges
  by (simp_all add: reg5_def)

lemma in32_const: "0 \<le> c \<Longrightarrow> c < 2 ^ 32 \<Longrightarrow> in32 c"
  by (simp add: in32_def)

lemma in32_encoders:
  "reg5 rd \<Longrightarrow> reg5 rs \<Longrightarrow> 0 \<le> f3 \<Longrightarrow> f3 < 8 \<Longrightarrow> 0 \<le> op \<Longrightarrow> op < 128 \<Longrightarrow> in32 (gr_i op rd f3 rs imm)"
  "reg5 rd \<Longrightarrow> reg5 a \<Longrightarrow> reg5 b \<Longrightarrow> 0 \<le> f3 \<Longrightarrow> f3 < 8 \<Longrightarrow> 0 \<le> f7 \<Longrightarrow> f7 < 128 \<Longrightarrow> 0 \<le> op \<Longrightarrow> op < 128 \<Longrightarrow>
    in32 (gr_r rd f3 a b f7 op)"
  "reg5 a \<Longrightarrow> reg5 b \<Longrightarrow> 0 \<le> f3 \<Longrightarrow> f3 < 8 \<Longrightarrow> in32 (gr_branch f3 a b off)"
  "reg5 rd \<Longrightarrow> in32 (gr_jal rd off)"
  "reg5 rd \<Longrightarrow> reg5 rs \<Longrightarrow> 0 \<le> op \<Longrightarrow> op < 8 \<Longrightarrow> 0 \<le> addr \<Longrightarrow> addr < 4096 \<Longrightarrow> in32 (gr_csr addr rd op rs)"
  unfolding gr_i_def gr_r_def gr_branch_def gr_jal_def gr_csr_def
  by (intro in32_or in32_fields in32_const; simp)+

lemma in32_store: "reg5 a \<Longrightarrow> reg5 b \<Longrightarrow> 0 \<le> f3 \<Longrightarrow> f3 < 8 \<Longrightarrow> in32 (gr_store f3 a b imm)"
proof -
  have "0 \<le> imm AND 0xFE0" "imm AND 0xFE0 \<le> 0xFE0" by (simp_all add: AND_upper2)
  then have "in32 (push_bit 20 (imm AND 0xFE0))" by (intro in32_fields(6)) simp_all
  then show "reg5 a \<Longrightarrow> reg5 b \<Longrightarrow> 0 \<le> f3 \<Longrightarrow> f3 < 8 \<Longrightarrow> in32 (gr_store f3 a b imm)"
    unfolding gr_store_def by (intro in32_or in32_fields in32_const; simp)
qed

lemma gr_size_pos: "0 < gr_size f3"
  by (simp add: gr_size_def push_bit_eq_mult)

lemma gen_words_in32:
  assumes "reg5 rd" "reg5 a" "reg5 b" "pick_ok a p"
  shows "draw_words_ok in32 (rd, a, b, p)"
proof -
  have z: "reg5 0" "reg5 1" "reg5 2" by (simp_all add: reg5_def)
  have "reg5 (gen_rd rd p)" using assms(1) z by (cases p) auto
  then have "in32 (gr_i 0x13 (gen_rd rd p) 0 a 0)" using assms(2) by (intro in32_encoders(1)) simp_all
  moreover have "\<forall>w \<in> set (fst (gen_block rd a b p)). in32 w"
  proof (cases p)
    case (P_trap w)
    have "in32 0x73" "in32 0x100073" "in32 0xB" by (simp_all add: in32_def)
    then show ?thesis using assms(4) P_trap by auto
  next
    case (P_csr addr op src)
    have "reg5 src" using assms(2,4) P_csr by (auto simp: reg5_def split: if_splits)
    moreover have "0 \<le> op \<and> op < 8" "0 \<le> addr \<and> addr < 4096" using assms(4) P_csr by (auto split: if_splits)
    ultimately show ?thesis
      using in32_encoders(5) [OF assms(1), of src op addr] by (simp add: P_csr gr_csr_def)
  qed (use assms z in \<open>auto intro!: in32_encoders in32_store\<close>)
  ultimately show ?thesis by (simp add: draw_words_ok_def)
qed

section \<open>Control transfers\<close>

lemma gr_branch_f1: "gr_branch f3 a b off = f1_branch a b off f3"
proof -
  have "drop_bit 12 off AND 1 = drop_bit 12 (off AND (push_bit 13 1 - 1)) AND 1"
    "drop_bit 5 off AND 63 = drop_bit 5 (off AND (push_bit 13 1 - 1)) AND 63"
    "drop_bit 1 off AND 15 = drop_bit 1 (off AND (push_bit 13 1 - 1)) AND 15"
    "drop_bit 11 off AND 1 = drop_bit 11 (off AND (push_bit 13 1 - 1)) AND 1"
    using f1_masks(5) [of "drop_bit 5 off"] f1_masks(5) [of "drop_bit 5 (off AND (push_bit 13 1 - 1))"]
      f1_masks(3) [of "drop_bit 1 off"] f1_masks(3) [of "drop_bit 1 (off AND (push_bit 13 1 - 1))"]
    unfolding f1_masks(1,10) by (simp_all add: field_drop field_field drop_field)
  then show ?thesis by (simp only: gr_branch_def f1_branch_def Let_def)
qed

lemma gr_jal_f1: "gr_jal rd off = f1_jal rd off"
proof -
  have "drop_bit 20 off AND 1 = drop_bit 20 (off AND (push_bit 21 1 - 1)) AND 1"
    "drop_bit 1 off AND 1023 = drop_bit 1 (off AND (push_bit 21 1 - 1)) AND 1023"
    "drop_bit 11 off AND 1 = drop_bit 11 (off AND (push_bit 21 1 - 1)) AND 1"
    "drop_bit 12 off AND 255 = drop_bit 12 (off AND (push_bit 21 1 - 1)) AND 255"
    unfolding f1_masks(1,7,8,10) by (simp_all add: field_drop field_field drop_field)
  then show ?thesis by (simp only: gr_jal_def f1_jal_def Let_def)
qed

lemma field_low_push: "7 \<le> k \<Longrightarrow> field 0 7 (push_bit k x) = 0"
  by (simp add: field_push)

lemma field_low_id: "0 \<le> x \<Longrightarrow> x < 128 \<Longrightarrow> field 0 7 x = x"
  by (simp add: field_def take_bit_int_eq_self_iff)

lemma gr_opcodes:
  "0 \<le> op \<Longrightarrow> op < 128 \<Longrightarrow> field 0 7 (gr_i op rd f3 rs imm) = op"
  "0 \<le> op \<Longrightarrow> op < 128 \<Longrightarrow> field 0 7 (gr_r rd f3 a b f7 op) = op"
  "field 0 7 (gr_store f3 a b imm) = 0x23"
  "field 0 7 (gr_csr addr rd op' rs) = 0x73"
  unfolding gr_i_def gr_r_def gr_store_def gr_csr_def
  by (simp_all add: field_or field_low_push field_low_id del: push_bit_and)

text \<open>Which word of a block transfers control, and to which word after the start of the block.\<close>

fun gen_target :: "gen_pick \<Rightarrow> nat \<Rightarrow> (cfi \<times> nat) option" where
  "gen_target (P_loop n) j = (if j = 3 then Some (CFI_BR, 1) else None)"
| "gen_target (P_branch f3) j = (if j = 0 then Some (CFI_BR, 2) else None)"
| "gen_target (P_jal link) j = (if j = 0 then Some (CFI_JAL, 2) else None)"
| "gen_target _ j = None"

text \<open>The fetch stage's decoder agrees with the generator about control flow: of a generated block exactly the words of
  \<open>gen_target\<close> are transfers, and each goes to a word of its own block or to the one right after it;
  only a loop goes backwards.\<close>

theorem gen_block_transfers:
  assumes "rd \<in> {4..<32}" "a \<in> {4..<32}" "b \<in> {4..<32}" "pick_ok a p" "j < length (fst (gen_block rd a b p))"
  shows "case gen_target p j of
      None \<Rightarrow> f1_decode (fst (gen_block rd a b p) ! j) (pc + 4 * int j) = (CFI_NONE, RAS_NONE, None)
    | Some (kind, t) \<Rightarrow> t \<le> length (fst (gen_block rd a b p)) \<and>
        (\<exists>ras. f1_decode (fst (gen_block rd a b p) ! j) (pc + 4 * int j) = (kind, ras, Some ((pc + 4 * int t) mod 2 ^ 64)))"
proof -
  have z: "f1_reg 0" "f1_reg 2" "f1_reg rd" using assms(1) by (simp_all add: f1_reg_def)
  have other: "f1_decode w pc' = (CFI_NONE, RAS_NONE, None)"
    if "field 0 7 w \<in> {0x73, 0x0B, 0x13, 0x1B, 0x33, 0x3B, 0x03, 0x23}" for w pc'
    using that by (intro f1_decode_other) auto
  show ?thesis
  proof (cases p)
    case (P_trap w)
    have "field 0 7 0x73 = 0x73" "field 0 7 0x100073 = 0x73" "field 0 7 0xB = 0xB" by (simp_all add: field_def)
    then show ?thesis using assms(4,5) P_trap by (auto intro!: other)
  next
    case (P_csr addr op src)
    have "field 0 7 (gr_csr addr rd op src) = 0x73" by (rule gr_opcodes)
    then show ?thesis using assms(5) P_csr by (simp add: other gr_csr_def)
  next
    case (P_loop n)
    have "f1_decode (gr_branch 1 2 0 (- 8)) (pc + 4 * int 3) = (CFI_BR, RAS_NONE, Some ((pc + 4 * int 3 + - 8) mod 2 ^ 64))"
      unfolding gr_branch_f1 using z by (intro f1_decode_branch) simp_all
    then have j3: ?thesis if "j = 3" using that P_loop by (simp add: add.commute)
    have "j = 0 \<or> j = 1 \<or> j = 2 \<or> j = 3" using assms(5) P_loop by auto
    then show ?thesis using j3 P_loop by (elim disjE) (simp_all add: other gr_opcodes)
  next
    case (P_branch f3)
    have "f1_decode (gr_branch f3 0 0 8) pc = (CFI_BR, RAS_NONE, Some ((pc + 8) mod 2 ^ 64))"
      unfolding gr_branch_f1 using z assms(4) P_branch by (intro f1_decode_branch) auto
    then show ?thesis using assms(5) P_branch by (auto simp: less_Suc_eq gr_opcodes intro!: other)
  next
    case (P_jal link)
    have "f1_decode (gr_jal (if link then rd else 0) 8) pc =
        (CFI_JAL, if f1_link (if link then rd else 0) then RAS_PUSH else RAS_NONE, Some ((pc + 8) mod 2 ^ 64))"
      unfolding gr_jal_f1 using z by (intro f1_decode_jal) auto
    then show ?thesis using assms(5) P_jal by (auto simp: less_Suc_eq gr_opcodes intro!: other)
  qed (use assms(5) in \<open>auto simp: gr_opcodes intro!: other\<close>)
qed

theorem gen_block_transfers_witness:
  "\<exists>ras. f1_decode (fst (gen_block 6 7 8 (P_loop 3)) ! 3) (0x80000000 + 4 * int 3) = (CFI_BR, ras, Some 0x80000004)"
  using gen_block_transfers [of 6 7 8 "P_loop 3" 3 "0x80000000"] by simp

section \<open>Enough room\<close>

lemma gen_start_fields: "length (gs_words (gen_start inits)) = 34" "gs_dynamic (gen_start inits) = 34"
  by (simp_all add: gen_start_def gen_prologue_def)

text \<open>A block has at most two words per event.\<close>

lemma gen_block_words: "pick_ok a p \<Longrightarrow> length (fst (gen_block rd a b p)) \<le> 2 * snd (gen_block rd a b p)"
  by (cases p) auto

lemma gen_turn_room:
  assumes "case draw of (rd, a, b, p) \<Rightarrow> pick_ok a p" "gs_dynamic s < target - 2"
  shows "length (gs_words (gen_turn target draw s)) + 2 * gs_dynamic s
    \<le> length (gs_words s) + 2 * gs_dynamic (gen_turn target draw s)"
proof -
  obtain rd a b p where d: "draw = (rd, a, b, p)" by (cases draw)
  then show ?thesis using assms(1) gen_block_words [of a p rd b]
    by (auto simp: gen_turn_def case_prod_beta Let_def)
qed

lemma gen_loop_room:
  "\<forall>k. case draws k of (rd, a, b, p) \<Rightarrow> pick_ok a p \<Longrightarrow>
   length (gs_words (gen_loop target draws k s)) + 2 * gs_dynamic s
     \<le> length (gs_words s) + 2 * gs_dynamic (gen_loop target draws k s)"
proof (induction target draws k s rule: gen_loop.induct)
  case (1 target draws k s)
  show ?case
  proof (cases "gs_dynamic s < target - 2")
    case True
    have "case draws k of (rd, a, b, p) \<Rightarrow> pick_ok a p" using "1.prems" by (rule spec)
    from gen_turn_room [OF this True] "1.IH" [OF True "1.prems"] show ?thesis
      unfolding gen_loop.simps [of target draws k s] using True by simp
  next
    case False
    then show ?thesis unfolding gen_loop.simps [of target draws k s] by simp
  qed
qed

lemma generate_succeeds:
  assumes "\<forall>k. case draws k of (rd, a, b, p) \<Rightarrow> pick_ok a p" "2000 \<le> target" "target \<le> 4113"
  obtains img meta where "generate inits draws target = Inr (img, meta)"
proof -
  have "length (gs_words (gen_loop target draws 0 (gen_start inits))) \<le> 34 + 2 * (target - 2 - 34)"
    using gen_loop_room [OF assms(1), of target 0 "gen_start inits"]
      gen_loop_dynamic [of "gen_start inits" target draws 0] assms(2) by (simp add: gen_start_fields)
  then have "\<exists>img meta. generate inits draws target = Inr (img, meta)"
    using assms(2,3) by (simp add: generate_def Let_def gen_epilogue_def)
  then show ?thesis using that by blast
qed



text \<open>C23: Whatever is drawn within the ranges of the calls, every word of the generated image is a 32-bit word.\<close>

theorem generate_words:
  assumes "generate inits draws target = Inr (img, meta)"
    "\<And>k. case draws k of (rd, a, b, p) \<Rightarrow> rd \<in> {4..<32} \<and> a \<in> {4..<32} \<and> b \<in> {4..<32} \<and> pick_ok a p"
  shows "\<forall>w \<in> set img. 0 \<le> w \<and> w < 2 ^ 32"
proof -
  from assms(1) obtain s where s: "s = gen_loop target draws 0 (gen_start inits)"
    "img = gen_image (gs_words s @ gen_epilogue)" by (rule generate_Inr)
  have reg: "reg5 (int n)" if "n < 32" for n using that by (simp add: reg5_def)
  have r: "reg5 0" "reg5 2" "reg5 3" "reg5 31" by (simp_all add: reg5_def)
  have "\<forall>k. draw_words_ok in32 (draws k)"
  proof
    fix k
    obtain rd a b p where d: "draws k = (rd, a, b, p)" by (cases "draws k")
    with assms(2) [of k] show "draw_words_ok in32 (draws k)"
      by (auto simp: reg5_def intro!: gen_words_in32)
  qed
  moreover have "in32 (push_bit 20 0x305 OR push_bit 15 2 OR push_bit 12 1 OR 0x73)"
    using in32_encoders(5) [OF r(1) r(2), of 1 "0x305"] by (simp add: gr_csr_def)
  moreover have "in32 0x00100097" "in32 0x00110197" "in32 0x00008117" by (simp_all add: in32_def)
  moreover have "\<forall>w \<in> set (map (\<lambda>rd. gr_i 0x13 (int rd) 0 0 (inits rd)) [4..<32]). in32 w"
    using r(1) by (auto simp: reg5_def intro!: in32_encoders)
  moreover have "in32 (gr_i 0x13 3 0 3 (- 12))" "in32 (gr_i 0x13 2 0 2 (- 12))"
    using r by (auto intro!: in32_encoders)
  ultimately have "\<forall>w \<in> set (gs_words (gen_start inits)). in32 w" "\<forall>k. draw_words_ok in32 (draws k)"
    unfolding gen_start_def gen_prologue_def by (simp_all only: gen_state.simps set_append set_simps ball_Un ball_simps insert_iff) auto
  then have start: "\<forall>w \<in> set (gs_words s). in32 w" unfolding s(1) by (intro gen_loop_words)
  have "\<forall>w \<in> set gen_epilogue. in32 w"
    using r by (auto simp: gen_epilogue_def intro!: in32_encoders in32_store)
  moreover have "\<forall>w \<in> set gen_handler. in32 w" "in32 (gr_i 0x13 0 0 0 0)"
    using r in32_const [of "0x30200073"] by (auto simp: gen_handler_def intro!: in32_encoders)
  with start have "\<forall>w \<in> set img. in32 w" using \<open>\<forall>w \<in> set gen_epilogue. in32 w\<close> by (auto simp: s(2) gen_image_def)
  then show ?thesis by (simp add: in32_def)
qed

theorem generate_words_witness:
  "\<exists>img meta. generate (\<lambda>rd. 7) (\<lambda>k. (4, 5, 6, P_loop 8)) 3000 = Inr (img, meta) \<and> (\<forall>w \<in> set img. 0 \<le> w \<and> w < 2 ^ 32)"
proof -
  obtain img meta where g: "generate (\<lambda>rd. 7) (\<lambda>k. (4, 5, 6, P_loop 8)) 3000 = Inr (img, meta)"
    using generate_succeeds [of "\<lambda>k. (4, 5, 6, P_loop 8)" 3000 "\<lambda>rd. 7"] by auto
  have "\<forall>w \<in> set img. 0 \<le> w \<and> w < 2 ^ 32" by (rule generate_words [OF g]) simp
  with g show ?thesis by blast
qed

end
