(* ===== verification/Arch_Reference.thy ===== *)
theory Arch_Reference
  imports Gen_Random "HOL-Library.Word"
begin

text \<open>
  The sequential RV64I reference \<open>sim/o3/tests/make_l8a_reference.py\<close>: the ELF loader, one
  instruction, the run up to the store to \<open>tohost\<close>. Then the straight-line program of
  \<open>sim/cocotb/backend_control/backend_control_model.py\<close> with the values it predicts. The lemmas compare
  the reference with the 64-bit datapath of the architecture (\<open>rv_alu\<close>, over \<open>64 word\<close>), run the
  predicted values of the straight-line program through it, and check the event counts with which
  \<open>Gen_Random\<close> budgets its blocks.
\<close>

section \<open>The reference\<close>

definition rf_mask :: int where
  "rf_mask = push_bit 64 1 - 1"

definition rf_sext :: "int \<Rightarrow> nat \<Rightarrow> int" where
  "rf_sext value bits = (value XOR push_bit (bits - 1) 1) - push_bit (bits - 1) 1"

record ref_state =
  rf_pc :: int
  rf_regs :: "int list"
  rf_mem :: "int \<rightharpoonup> int"

definition rf_get :: "(int \<rightharpoonup> int) \<Rightarrow> int \<Rightarrow> int" where
  "rf_get m a = (case m a of None \<Rightarrow> 0 | Some b \<Rightarrow> b)"

definition rf_read :: "(int \<rightharpoonup> int) \<Rightarrow> int \<Rightarrow> nat \<Rightarrow> int" where
  "rf_read m a n = sum_list (map (\<lambda>i. push_bit (8 * i) (rf_get m (a + int i))) [0..<n])"

fun rf_fill :: "(int \<rightharpoonup> int) \<Rightarrow> int \<Rightarrow> int list \<Rightarrow> (int \<rightharpoonup> int)" where
  "rf_fill m a [] = m"
| "rf_fill m a (b # bs) = rf_fill (m(a \<mapsto> b)) (a + 1) bs"

text \<open>
  The value of an immediate operation (opcodes 0x13 and 0x1b) and of a register operation, from the
  instruction word and the source registers.
\<close>

definition rf_imm_value :: "int \<Rightarrow> int \<Rightarrow> int py" where
  "rf_imm_value inst a =
     (let op = inst AND 127; f3 = drop_bit 12 inst AND 7; f7 = drop_bit 25 inst; imm = rf_sext (drop_bit 20 inst) 12;
          value = (if f3 = 0 then Inr (a + imm)
                   else if f3 = 4 then Inr (a XOR (imm AND rf_mask))
                   else if f3 = 6 then Inr (a OR (imm AND rf_mask))
                   else if f3 = 7 then Inr (a AND (imm AND rf_mask))
                   else if f3 = 1 then Inr (push_bit (nat (drop_bit 20 inst AND (if op = 0x1b then 31 else 63))) a)
                   else if f3 = 5 then Inr (drop_bit (nat (drop_bit 20 inst AND 63)) (if f7 AND 0x20 \<noteq> 0 then rf_sext a 64 else a))
                   else Inl AssertionError)
      in if op = 0x1b then py_bind value (\<lambda>v. Inr (rf_sext (v AND 0xffffffff) 32)) else value)"

definition rf_reg_value :: "int \<Rightarrow> int \<Rightarrow> int \<Rightarrow> int py" where
  "rf_reg_value inst a b =
     (let f3 = drop_bit 12 inst AND 7; f7 = drop_bit 25 inst
      in py_bind (py_assert (f7 \<in> {0, 0x20} \<and> (f7 = 0 \<or> f3 = 0))) (\<lambda>_.
           if f3 = 0 then Inr (if f7 = 0x20 then a - b else a + b)
           else if f3 = 6 then Inr (a OR b)
           else if f3 = 4 then Inr (a XOR b)
           else if f3 = 7 then Inr (a AND b)
           else Inl AssertionError))"

text \<open>The branch conditions; the dictionary has no entry for 2 and 3.\<close>

definition rf_cond :: "int \<Rightarrow> int \<Rightarrow> int \<Rightarrow> bool py" where
  "rf_cond f3 a b =
     (if f3 = 0 then Inr (a = b) else if f3 = 1 then Inr (a \<noteq> b)
      else if f3 = 4 then Inr (rf_sext a 64 < rf_sext b 64) else if f3 = 5 then Inr (rf_sext a 64 \<ge> rf_sext b 64)
      else if f3 = 6 then Inr (a < b) else if f3 = 7 then Inr (a \<ge> b) else Inl KeyError)"

definition rf_store_imm :: "int \<Rightarrow> int" where
  "rf_store_imm inst = rf_sext (push_bit 5 (drop_bit 25 inst) OR (drop_bit 7 inst AND 31)) 12"

definition rf_branch_imm :: "int \<Rightarrow> int" where
  "rf_branch_imm inst = rf_sext (push_bit 12 (drop_bit 31 inst) OR push_bit 11 (drop_bit 7 inst AND 1)
     OR push_bit 5 (drop_bit 25 inst AND 63) OR push_bit 1 (drop_bit 8 inst AND 15)) 13"

definition rf_jal_imm :: "int \<Rightarrow> int" where
  "rf_jal_imm inst = rf_sext (push_bit 20 (drop_bit 31 inst) OR push_bit 12 (drop_bit 12 inst AND 255)
     OR push_bit 11 (drop_bit 20 inst AND 1) OR push_bit 1 (drop_bit 21 inst AND 1023)) 21"

text \<open>What one instruction does: the value for its destination, the next address, the memory, and the
  address, size and data of a store.\<close>

type_synonym ref_effect = "int option \<times> int \<times> (int \<rightharpoonup> int) \<times> (int \<times> int \<times> int) option"

definition rf_exec :: "ref_state \<Rightarrow> int \<Rightarrow> ref_effect py" where
  "rf_exec s inst =
     (let pc = rf_pc s; m = rf_mem s; op = inst AND 127; f3 = drop_bit 12 inst AND 7;
          a = rf_regs s ! nat (drop_bit 15 inst AND 31); b = rf_regs s ! nat (drop_bit 20 inst AND 31);
          imm = rf_sext (drop_bit 20 inst) 12
      in if op = 0x37 then Inr (Some (rf_sext (inst AND 0xfffff000) 32), pc + 4, m, None)
         else if op = 0x17 then Inr (Some (pc + rf_sext (inst AND 0xfffff000) 32), pc + 4, m, None)
         else if op \<in> {0x13, 0x1b} then py_bind (rf_imm_value inst a) (\<lambda>v. Inr (Some v, pc + 4, m, None))
         else if op = 0x33 then py_bind (rf_reg_value inst a b) (\<lambda>v. Inr (Some v, pc + 4, m, None))
         else if op = 0x03 then
           (let size = nat (push_bit (nat (f3 AND 3)) 1); v = rf_read m ((a + imm) AND rf_mask) size
            in Inr (Some (if f3 < 4 then rf_sext v (8 * size) else v), pc + 4, m, None))
         else if op = 0x23 then
           (let size = nat (push_bit (nat f3) 1); addr = (a + rf_store_imm inst) AND rf_mask
            in Inr (None, pc + 4, rf_fill m addr (map (\<lambda>i. drop_bit (8 * i) b AND 255) [0..<size]),
                    Some (addr, int size, b AND (push_bit (8 * size) 1 - 1))))
         else if op = 0x63 then
           py_bind (rf_cond f3 a b) (\<lambda>c. Inr (None, if c then pc + rf_branch_imm inst else pc + 4, m, None))
         else if op = 0x6f then Inr (Some (pc + 4), pc + rf_jal_imm inst, m, None)
         else if op = 0x67 then Inr (Some (pc + 4), (a + imm) AND NOT 1, m, None)
         else if op = 0x0f then Inr (None, pc + 4, m, None)
         else Inl AssertionError)"

definition rf_write :: "int list \<Rightarrow> int \<Rightarrow> int option \<Rightarrow> int list" where
  "rf_write regs rd v =
     (case v of None \<Rightarrow> regs | Some x \<Rightarrow> if rd \<noteq> 0 then regs[nat rd := x AND rf_mask] else regs)[0 := 0]"

definition rf_retire :: "ref_state \<Rightarrow> int \<Rightarrow> ((int \<times> int \<times> int) option \<times> ref_state) py" where
  "rf_retire s inst = py_bind (rf_exec s inst) (\<lambda>(v, nxt, m, st).
     Inr (st, \<lparr>rf_pc = nxt AND rf_mask, rf_regs = rf_write (rf_regs s) (drop_bit 7 inst AND 31) v, rf_mem = m\<rparr>))"

record ref_event =
  re_order :: nat
  re_pc :: int
  re_inst :: int
  re_store :: "(int \<times> int \<times> int) option"

definition rf_step :: "nat \<Rightarrow> ref_state \<Rightarrow> (ref_event \<times> ref_state) py" where
  "rf_step order s = (let inst = rf_read (rf_mem s) (rf_pc s) 4 in
     py_bind (rf_retire s inst) (\<lambda>(st, s'). Inr (\<lparr>re_order = order, re_pc = rf_pc s, re_inst = inst, re_store = st\<rparr>, s')))"

text \<open>The run; the first argument is what is left of the 200000 rounds.\<close>

fun rf_run :: "nat \<Rightarrow> int \<Rightarrow> nat \<Rightarrow> ref_state \<Rightarrow> ref_event list py" where
  "rf_run 0 tohost order s = Inl AssertionError"
| "rf_run (Suc n) tohost order s =
     py_bind (rf_step order s) (\<lambda>(e, s').
       case re_store e of
         Some (addr, sz, data) \<Rightarrow>
           if addr = tohost then py_bind (py_assert (data = 1)) (\<lambda>_. Inr [e])
           else py_bind (rf_run n tohost (Suc order) s') (\<lambda>es. Inr (e # es))
       | None \<Rightarrow> py_bind (rf_run n tohost (Suc order) s') (\<lambda>es. Inr (e # es)))"

text \<open>The loader: little-endian fields of the ELF header and of each program header; a slice past the end of the
  file is cut short.\<close>

definition rf_unpack :: "int list \<Rightarrow> nat \<Rightarrow> nat \<Rightarrow> nat py" where
  "rf_unpack elf off n = (if off + n \<le> length elf
     then Inr (\<Sum>i\<leftarrow>[0..<n]. push_bit (8 * i) (nat (elf ! (off + i)))) else Inl StructError)"

fun rf_segments :: "int list \<Rightarrow> nat \<Rightarrow> nat \<Rightarrow> nat \<Rightarrow> nat \<Rightarrow> (int \<rightharpoonup> int) \<Rightarrow> (int \<rightharpoonup> int) py" where
  "rf_segments elf phoff entsize 0 n m = Inr m"
| "rf_segments elf phoff entsize (Suc left) n m =
     (let at = phoff + n * entsize in
      py_bind (rf_unpack elf at 56) (\<lambda>_.
      py_bind (rf_unpack elf at 4) (\<lambda>typ. py_bind (rf_unpack elf (at + 8) 8) (\<lambda>off.
      py_bind (rf_unpack elf (at + 16) 8) (\<lambda>va. py_bind (rf_unpack elf (at + 32) 8) (\<lambda>filesz.
        rf_segments elf phoff entsize left (Suc n)
          (if typ = 1 then rf_fill m (int va) (take filesz (drop off elf)) else m)))))))"

definition rf_reference :: "int list \<Rightarrow> int \<Rightarrow> ref_event list py" where
  "rf_reference elf tohost =
     py_bind (py_assert (take 6 elf = [0x7f, 0x45, 0x4c, 0x46, 2, 1])) (\<lambda>_.
     py_bind (rf_unpack elf 24 8) (\<lambda>entry. py_bind (rf_unpack elf 32 8) (\<lambda>phoff.
     py_bind (rf_unpack elf 54 2) (\<lambda>entsize. py_bind (rf_unpack elf 56 2) (\<lambda>count.
     py_bind (rf_segments elf phoff entsize count 0 Map.empty) (\<lambda>m.
       rf_run 200000 tohost 0 \<lparr>rf_pc = int entry, rf_regs = replicate 32 0, rf_mem = m\<rparr>))))))"

section \<open>The straight-line program of the backend tests\<close>

record bc_row =
  br_pc :: int
  br_inst :: int
  br_rd :: nat
  br_write :: bool
  br_value :: int

definition bc_lane :: "nat \<Rightarrow> nat \<Rightarrow> nat \<Rightarrow> int list \<times> bc_row list \<Rightarrow> int list \<times> bc_row list" where
  "bc_lane width grp lane st = (case st of (regs, rows) \<Rightarrow>
     let pc = 0x80000000 + 4 * int (length rows);
         (rd, inst, value) =
           (if lane = grp mod width then
              (let rd = (if grp mod 2 \<noteq> 0 then 5 else 0)
               in (rd, if rd \<noteq> 0 then 0x004002ef else 0x00001063, if rd \<noteq> 0 then pc + 4 else 0))
            else
              (let rd = 8 + lane mod 4; rs = (if grp mod 3 \<noteq> 0 then 8 + nat ((int lane - 1) mod 4) else 0);
                   imm = grp mod 31 + 1
               in (rd, push_bit 20 (int imm) OR push_bit 15 (int rs) OR push_bit 7 (int rd) OR 0x13,
                   (regs ! rs + int imm) AND (push_bit 64 1 - 1))))
     in (if rd \<noteq> 0 then regs[rd := value] else regs,
         rows @ [\<lparr>br_pc = pc, br_inst = inst, br_rd = rd, br_write = rd \<noteq> 0, br_value = value\<rparr>]))"

definition bc_program :: "nat \<Rightarrow> nat \<Rightarrow> bc_row list" where
  "bc_program width groups =
     snd (fold (\<lambda>grp st. fold (bc_lane width grp) [0..<width] st) [0..<groups] (replicate 32 0, []))"

section \<open>The 64-bit datapath\<close>

text \<open>What the architecture asks of the operations, on machine words.\<close>

datatype rv_op = RV_ADD | RV_SUB | RV_XOR | RV_OR | RV_AND | RV_SLL | RV_SRL | RV_SRA

fun rv_alu :: "rv_op \<Rightarrow> 64 word \<Rightarrow> 64 word \<Rightarrow> 64 word" where
  "rv_alu RV_ADD a b = a + b"
| "rv_alu RV_SUB a b = a - b"
| "rv_alu RV_XOR a b = a XOR b"
| "rv_alu RV_OR a b = a OR b"
| "rv_alu RV_AND a b = a AND b"
| "rv_alu RV_SLL a b = push_bit (unat (take_bit 6 b)) a"
| "rv_alu RV_SRL a b = drop_bit (unat (take_bit 6 b)) a"
| "rv_alu RV_SRA a b = signed_drop_bit (unat (take_bit 6 b)) a"

fun rv_aluw :: "rv_op \<Rightarrow> 32 word \<Rightarrow> 32 word \<Rightarrow> 32 word" where
  "rv_aluw RV_ADD a b = a + b"
| "rv_aluw RV_SLL a b = push_bit (unat (take_bit 5 b)) a"
| "rv_aluw RV_SRL a b = drop_bit (unat (take_bit 5 b)) a"
| "rv_aluw RV_SRA a b = signed_drop_bit (unat (take_bit 5 b)) a"
| "rv_aluw _ a b = 0"

definition rv_imm_op :: "int \<Rightarrow> rv_op option" where
  "rv_imm_op inst = (let f3 = field 12 3 inst in
     if f3 = 0 then Some RV_ADD else if f3 = 4 then Some RV_XOR else if f3 = 6 then Some RV_OR
     else if f3 = 7 then Some RV_AND else if f3 = 1 then Some RV_SLL
     else if f3 = 5 then Some (if bit inst 30 then RV_SRA else RV_SRL) else None)"

definition rv_imm :: "int \<Rightarrow> int" where
  "rv_imm inst = signed_take_bit 11 (drop_bit 20 inst)"

lemma rf_sext_take: "rf_sext (take_bit (Suc n) x) (Suc n) = signed_take_bit n x"
proof -
  have "take_bit (Suc n) x XOR push_bit n 1 = flip_bit n (take_bit (Suc n) x)"
    by (simp add: flip_bit_eq_xor)
  also have "\<dots> = take_bit (Suc n) x + (if bit x n then - (2 ^ n) else 2 ^ n)"
    by (simp add: flip_bit_eq_if set_bit_eq unset_bit_eq bit_take_bit_iff)
  finally show ?thesis
    by (simp add: rf_sext_def signed_take_bit_eq_take_bit_minus)
qed

lemma rf_sext_id: "0 \<le> x \<Longrightarrow> x < 2 ^ Suc n \<Longrightarrow> rf_sext x (Suc n) = signed_take_bit n x"
  using rf_sext_take [of n x] by (simp only: take_bit_int_eq_self)

lemma rf_mask_take: "x AND rf_mask = take_bit 64 x"
  by (simp add: rf_mask_def take_bit_eq_mask mask_eq_exp_minus_1)

lemma word_take [simp]: "word_of_int (take_bit 64 x) = (word_of_int x :: 64 word)"
  by transfer simp

lemma rf_sext_64: "rf_sext (uint (a :: 64 word)) 64 = sint a"
  using rf_sext_id [of "uint a" 63] uint_lt2p [of a] by (simp add: sint_uint)

lemma word_shifts:
  fixes a :: "64 word"
  shows "word_of_int (push_bit k (uint a)) = push_bit k a"
    "word_of_int (drop_bit k (uint a)) = drop_bit k a"
    "word_of_int (drop_bit k (sint a)) = signed_drop_bit k a"
proof -
  show "word_of_int (push_bit k (uint a)) = push_bit k a"
    by (rule bit_word_eqI) (simp add: bit_simps)
  show "word_of_int (drop_bit k (uint a)) = drop_bit k a"
    by (rule bit_word_eqI) (simp add: bit_simps)
  show "word_of_int (drop_bit k (sint a)) = signed_drop_bit k a"
    by (rule bit_word_eqI) (auto simp: bit_simps bit_imp_le_length)
qed

lemma word_shamt:
  assumes "k \<le> 12"
  shows "unat (take_bit k (word_of_int (rv_imm inst) :: 64 word)) = nat (field 20 k inst)"
proof -
  have "uint (take_bit k (word_of_int (rv_imm inst) :: 64 word)) = take_bit k (take_bit 64 (rv_imm inst))"
    by (simp add: unsigned_take_bit_eq uint_word_of_int_eq)
  also have "\<dots> = field 20 k inst"
    using assms by (simp add: rv_imm_def field_def take_bit_signed_take_bit min_def)
  finally show ?thesis by (simp add: unat_eq_nat_uint)
qed

text \<open>The word of the immediate.\<close>

lemma rf_imm_field: "rf_sext (field 20 12 inst) 12 = rv_imm inst"
  using rf_sext_take [of 11 "drop_bit 20 inst"] by (simp add: field_def rv_imm_def)

definition word32 :: "int \<Rightarrow> bool" where
  "word32 w \<longleftrightarrow> take_bit 32 w = w"

lemma word32_top: "word32 w \<Longrightarrow> k \<le> 32 \<Longrightarrow> drop_bit k w = field k (32 - k) w"
  unfolding word32_def by (metis drop_bit_take_bit field_def)

lemma f7_arith: "drop_bit 25 inst AND 0x20 \<noteq> 0 \<longleftrightarrow> bit (inst :: int) 30"
  using bit_iff_and_push_bit_not_eq_0 [of "drop_bit 25 inst" 5] by (simp add: bit_drop_bit_eq)

lemma word_logic:
  fixes a b :: "64 word"
  shows "word_of_int (uint a AND take_bit 64 x) = a AND word_of_int x"
    "word_of_int (uint a OR take_bit 64 x) = a OR word_of_int x"
    "word_of_int (uint a XOR take_bit 64 x) = a XOR word_of_int x"
    "word_of_int (uint a AND uint b) = a AND b" "word_of_int (uint a OR uint b) = a OR b"
    "word_of_int (uint a XOR uint b) = a XOR b"
  by (rule bit_word_eqI; simp add: bit_simps; fail)+

lemma rf_imm_value_word:
  assumes "word32 inst" "field 0 7 inst = 0x13"
  shows "case rv_imm_op inst of None \<Rightarrow> rf_imm_value inst (uint a) = Inl AssertionError
    | Some op \<Rightarrow> \<exists>v. rf_imm_value inst (uint a) = Inr v \<and> word_of_int v = rv_alu op a (word_of_int (rv_imm inst))"
  unfolding rf_imm_value_def Let_def f7_arith rv_imm_op_def
  using assms(2) word32_top [OF assms(1), of 20]
  by (simp add: f1_masks field_drop rf_imm_field field_field rf_sext_64 word_shifts word_shamt rf_mask_take word_logic)

definition rv_reg_op :: "int \<Rightarrow> rv_op option" where
  "rv_reg_op inst = (let f3 = field 12 3 inst; f7 = field 25 7 inst in
     if f7 = 0 then (if f3 = 0 then Some RV_ADD else if f3 = 4 then Some RV_XOR else if f3 = 6 then Some RV_OR
       else if f3 = 7 then Some RV_AND else None)
     else if f7 = 0x20 \<and> f3 = 0 then Some RV_SUB else None)"

lemma rf_reg_value_word:
  assumes "word32 inst"
  shows "case rv_reg_op inst of None \<Rightarrow> rf_reg_value inst (uint a) (uint b) = Inl AssertionError
    | Some op \<Rightarrow> \<exists>v. rf_reg_value inst (uint a) (uint b) = Inr v \<and> word_of_int v = rv_alu op a b"
  unfolding rf_reg_value_def Let_def rv_reg_op_def
  using word32_top [OF assms, of 25]
  by (simp add: f1_masks field_drop field_field word_logic py_assert_def)

lemma rf_sext_w: "rf_sext (v AND 0xffffffff) 32 = signed_take_bit 31 v"
proof -
  have "v AND 0xffffffff = take_bit 32 v" by (simp add: take_bit_eq_mask mask_eq_exp_minus_1)
  then show ?thesis using rf_sext_take [of 31 v] by simp
qed

lemma word_signed32: "word_of_int (signed_take_bit 31 v) = (scast (word_of_int v :: 32 word) :: 64 word)"
  by (rule bit_word_eqI) (auto simp: bit_simps)

text \<open>The 32-bit operations: addition and left shift always agree with the architecture; a right shift does
  when the source register holds the extension of a 32-bit value that the shift presupposes.\<close>

lemma rf_imm_value_word32:
  fixes a :: "64 word"
  assumes "word32 inst" "field 0 7 inst = 0x1b" "field 12 3 inst \<in> {0, 1} \<or> field 12 3 inst = 5 \<and> \<not> bit inst 25 \<and>
      a = (if bit inst 30 then scast (ucast a :: 32 word) else ucast (ucast a :: 32 word))"
  shows "\<exists>v op. rv_imm_op inst = Some op \<and> rf_imm_value inst (uint a) = Inr v \<and>
    word_of_int v = (scast (rv_aluw op (ucast a) (word_of_int (rv_imm inst))) :: 64 word)"
proof -
  have k: "unat (take_bit 5 (word_of_int (rv_imm inst) :: 32 word)) = nat (field 20 5 inst)"
  proof -
    have "uint (take_bit 5 (word_of_int (rv_imm inst) :: 32 word)) = take_bit 5 (take_bit 32 (rv_imm inst))"
      by (simp add: unsigned_take_bit_eq uint_word_of_int_eq)
    also have "\<dots> = field 20 5 inst" by (simp add: rv_imm_def field_def take_bit_signed_take_bit min_def)
    finally show ?thesis by (simp add: unat_eq_nat_uint)
  qed
  have n: "field 20 6 inst = field 20 5 inst" if "\<not> bit inst 25"
  proof (rule bit_eqI)
    fix i :: nat
    have "i < 6 \<longleftrightarrow> i < 5 \<or> i = 5" by auto
    with that show "bit (field 20 6 inst) i = bit (field 20 5 inst) i" by (auto simp: bit_field)
  qed
  have add: "word_of_int (uint a + i) = (ucast a + word_of_int i :: 32 word)" for i
    by (simp add: word_of_int_uint)
  have sll: "word_of_int (push_bit m (uint a)) = push_bit m (ucast a :: 32 word)" for m
    by (rule bit_word_eqI) (auto simp: bit_simps)
  have srl: "word_of_int (drop_bit m (uint a)) = drop_bit m (ucast a :: 32 word)" if "a = ucast (ucast a :: 32 word)" for m
    by (subst that, rule bit_word_eqI) (auto simp: bit_simps)
  have sra: "word_of_int (drop_bit m (sint a)) = signed_drop_bit m (ucast a :: 32 word)" if "a = scast (ucast a :: 32 word)" for m
    by (subst that, rule bit_word_eqI) (auto simp: bit_simps)
  note rules = f1_masks field_drop rf_imm_field field_field rf_sext_64 rf_sext_w word_signed32 rf_mask_take
  consider "field 12 3 inst = 0" | "field 12 3 inst = 1" | "field 12 3 inst = 5" "\<not> bit inst 25" "bit inst 30"
      "a = scast (ucast a :: 32 word)"
    | "field 12 3 inst = 5" "\<not> bit inst 25" "\<not> bit inst 30" "a = ucast (ucast a :: 32 word)"
    using assms(3) by (auto split: if_splits)
  then show ?thesis
    unfolding rf_imm_value_def Let_def f7_arith rv_imm_op_def
    using assms(2) word32_top [OF assms(1), of 20] k
    by cases (simp_all add: rules add sll srl sra n)
qed

text \<open>The branch conditions compare the machine words, signed or unsigned.\<close>

definition rv_cond :: "int \<Rightarrow> 64 word \<Rightarrow> 64 word \<Rightarrow> bool option" where
  "rv_cond f3 a b = (if f3 = 0 then Some (a = b) else if f3 = 1 then Some (a \<noteq> b) else if f3 = 4 then Some (a <s b)
     else if f3 = 5 then Some (b \<le>s a) else if f3 = 6 then Some (a < b) else if f3 = 7 then Some (b \<le> a) else None)"

lemma rf_cond_word:
  "rf_cond f3 (uint a) (uint b) = (case rv_cond f3 a b of None \<Rightarrow> Inl KeyError | Some c \<Rightarrow> Inr c)"
  by (simp add: rf_cond_def rv_cond_def rf_sext_64 word_sless_alt word_sle_eq word_less_def word_le_def word_uint_eq_iff)

section \<open>Every state of the reference is well formed\<close>

definition word64 :: "int \<Rightarrow> bool" where
  "word64 x \<longleftrightarrow> take_bit 64 x = x"

lemma word64_range: "word64 x \<longleftrightarrow> 0 \<le> x \<and> x < 2 ^ 64"
  by (simp add: word64_def take_bit_int_eq_self_iff)

lemma word64_mask [simp]: "word64 (x AND rf_mask)"
  by (simp add: word64_def rf_mask_take)

definition ref_wf :: "ref_state \<Rightarrow> bool" where
  "ref_wf s \<longleftrightarrow> word64 (rf_pc s) \<and> length (rf_regs s) = 32 \<and> rf_regs s ! 0 = 0 \<and>
     (\<forall>x \<in> set (rf_regs s). word64 x) \<and> (\<forall>b \<in> ran (rf_mem s). 0 \<le> b \<and> b < 256)"

lemma rf_write_wf:
  assumes "length regs = 32" "\<forall>x \<in> set regs. word64 x"
  shows "length (rf_write regs rd v) = 32 \<and> rf_write regs rd v ! 0 = 0 \<and> (\<forall>x \<in> set (rf_write regs rd v). word64 x)"
proof -
  have upd: "\<forall>x \<in> set (xs[i := y]). word64 x" if "\<forall>x \<in> set xs. word64 x" "word64 y" for xs i y
    using that set_update_subset_insert [of xs i y] by auto
  have "word64 0" by (simp add: word64_def)
  moreover have "\<forall>x \<in> set (case v of None \<Rightarrow> regs | Some x \<Rightarrow> if rd \<noteq> 0 then regs[nat rd := x AND rf_mask] else regs). word64 x"
    using assms(2) upd [OF assms(2) word64_mask] by (cases v) simp_all
  ultimately have "\<forall>x \<in> set (rf_write regs rd v). word64 x" unfolding rf_write_def by (intro upd)
  then show ?thesis using assms(1) by (auto simp: rf_write_def split: option.split)
qed

lemma rf_fill_ran: "\<forall>b \<in> ran m. P b \<Longrightarrow> \<forall>b \<in> set bs. P b \<Longrightarrow> \<forall>b \<in> ran (rf_fill m a bs). P b"
proof (induction bs arbitrary: m a)
  case (Cons b bs)
  have "\<forall>c \<in> ran (m(a \<mapsto> b)). P c" using Cons.prems by (auto simp: ran_def split: if_splits)
  with Cons show ?case by simp
qed simp

lemma field_2: "x AND 3 = field 0 2 x"
  by (simp add: field_def take_bit_eq_mask mask_eq_exp_minus_1)

text \<open>One equation per opcode.\<close>

definition rf_opcode :: "int \<Rightarrow> int" where
  "rf_opcode inst = field 0 7 inst"

lemma rf_exec_cases:
  fixes s inst
  defines "a \<equiv> rf_regs s ! nat (field 15 5 inst)" and "b \<equiv> rf_regs s ! nat (field 20 5 inst)" and "f3 \<equiv> field 12 3 inst"
    and "imm \<equiv> rf_sext (drop_bit 20 inst) 12"
  shows "rf_opcode inst = 0x37 \<Longrightarrow> rf_exec s inst = Inr (Some (rf_sext (inst AND 0xfffff000) 32), rf_pc s + 4, rf_mem s, None)"
    "rf_opcode inst = 0x17 \<Longrightarrow> rf_exec s inst = Inr (Some (rf_pc s + rf_sext (inst AND 0xfffff000) 32), rf_pc s + 4, rf_mem s, None)"
    "rf_opcode inst = 0x13 \<Longrightarrow>
      rf_exec s inst = py_bind (rf_imm_value inst a) (\<lambda>v. Inr (Some v, rf_pc s + 4, rf_mem s, None))"
    "rf_opcode inst = 0x1b \<Longrightarrow>
      rf_exec s inst = py_bind (rf_imm_value inst a) (\<lambda>v. Inr (Some v, rf_pc s + 4, rf_mem s, None))"
    "rf_opcode inst = 0x33 \<Longrightarrow>
      rf_exec s inst = py_bind (rf_reg_value inst a b) (\<lambda>v. Inr (Some v, rf_pc s + 4, rf_mem s, None))"
    "rf_opcode inst = 0x03 \<Longrightarrow> rf_exec s inst =
      (let sz = nat (push_bit (nat (field 12 2 inst)) 1); v = rf_read (rf_mem s) ((a + imm) AND rf_mask) sz
       in Inr (Some (if f3 < 4 then rf_sext v (8 * sz) else v), rf_pc s + 4, rf_mem s, None))"
    "rf_opcode inst = 0x23 \<Longrightarrow> rf_exec s inst =
      (let sz = nat (push_bit (nat f3) 1); addr = (a + rf_store_imm inst) AND rf_mask
       in Inr (None, rf_pc s + 4, rf_fill (rf_mem s) addr (map (\<lambda>i. drop_bit (8 * i) b AND 255) [0..<sz]),
               Some (addr, int sz, b AND (push_bit (8 * sz) 1 - 1))))"
    "rf_opcode inst = 0x63 \<Longrightarrow> rf_exec s inst =
      py_bind (rf_cond f3 a b) (\<lambda>c. Inr (None, if c then rf_pc s + rf_branch_imm inst else rf_pc s + 4, rf_mem s, None))"
    "rf_opcode inst = 0x6f \<Longrightarrow> rf_exec s inst = Inr (Some (rf_pc s + 4), rf_pc s + rf_jal_imm inst, rf_mem s, None)"
    "rf_opcode inst = 0x67 \<Longrightarrow> rf_exec s inst = Inr (Some (rf_pc s + 4), (a + imm) AND NOT 1, rf_mem s, None)"
    "rf_opcode inst = 0x0f \<Longrightarrow> rf_exec s inst = Inr (None, rf_pc s + 4, rf_mem s, None)"
    "rf_opcode inst \<notin> {0x37, 0x17, 0x13, 0x1b, 0x33, 0x03, 0x23, 0x63, 0x6f, 0x67, 0x0f} \<Longrightarrow>
      rf_exec s inst = Inl AssertionError"
  by (simp_all add: rf_exec_def rf_opcode_def Let_def a_def b_def f3_def imm_def f1_masks field_2 field_drop field_field)

lemma rf_exec_mem:
  assumes "rf_exec s inst = Inr (v, nxt, m, st)" "rf_opcode inst \<noteq> 0x23"
  shows "m = rf_mem s"
proof -
  consider "rf_opcode inst = 0x37" | "rf_opcode inst = 0x17" | "rf_opcode inst = 0x13" | "rf_opcode inst = 0x1b"
    | "rf_opcode inst = 0x33" | "rf_opcode inst = 0x03" | "rf_opcode inst = 0x63" | "rf_opcode inst = 0x6f"
    | "rf_opcode inst = 0x67" | "rf_opcode inst = 0x0f"
    | "rf_opcode inst \<notin> {0x37, 0x17, 0x13, 0x1b, 0x33, 0x03, 0x23, 0x63, 0x6f, 0x67, 0x0f}"
    using assms(2) by blast
  then show ?thesis
    using assms(1) by cases (simp_all add: rf_exec_cases py_bind_Inr_iff Let_def, auto)
qed

lemma rf_exec_bytes:
  assumes "rf_exec s inst = Inr (v, nxt, m, st)" "\<forall>b \<in> ran (rf_mem s). 0 \<le> b \<and> b < 256"
  shows "\<forall>b \<in> ran m. 0 \<le> b \<and> b < 256"
proof (cases "rf_opcode inst = 0x23")
  case True
  have "0 \<le> x AND 255 \<and> x AND 255 < (256::int)" for x
    using and_mask_range [of x 8] by simp
  then have "\<forall>b \<in> ran (rf_fill (rf_mem s) a (map (\<lambda>i. drop_bit (8 * i) x AND 255) [0..<n])). 0 \<le> b \<and> b < 256" for a x n
    using assms(2) by (intro rf_fill_ran) auto
  with True assms(1) show ?thesis by (auto simp: rf_exec_cases Let_def)
next
  case False
  then show ?thesis using rf_exec_mem [OF assms(1)] assms(2) by simp
qed

lemma rf_retire_wf:
  assumes "rf_retire s inst = Inr (st, s')" "ref_wf s"
  shows "ref_wf s'"
proof -
  obtain v nxt m where e: "rf_exec s inst = Inr (v, nxt, m, st)"
    "s' = \<lparr>rf_pc = nxt AND rf_mask, rf_regs = rf_write (rf_regs s) (drop_bit 7 inst AND 31) v, rf_mem = m\<rparr>"
    using assms(1) by (auto simp: rf_retire_def py_bind_Inr_iff)
  then show ?thesis
    using rf_exec_bytes [OF e(1)] rf_write_wf [of "rf_regs s"] assms(2)
    by (simp add: ref_wf_def)
qed

section \<open>Executing encoded instructions\<close>

lemma reg5_field: "reg5 r \<Longrightarrow> field 0 5 r = r"
  by (simp add: reg5_def field_id)

lemma f3_field: "0 \<le> f \<Longrightarrow> f < 8 \<Longrightarrow> field 0 3 f = f"
  by (simp add: field_id)

lemma in32_word32: "in32 w \<Longrightarrow> word32 w"
  by (simp add: in32_iff word32_def)

lemma gr_i_decode:
  fixes op rd f3 rs imm
  assumes "reg5 rd" "reg5 rs" "0 \<le> f3" "f3 < 8" "0 \<le> op" "op < 128"
  defines "w \<equiv> gr_i op rd f3 rs imm"
  shows "rf_opcode w = op" "field 7 5 w = rd" "field 12 3 w = f3" "field 15 5 w = rs" "field 20 12 w = field 0 12 imm"
    "word32 w"
proof -
  have r: "field 0 5 rd = rd" "field 0 5 rs = rs" "field 0 3 f3 = f3" "field 0 7 op = op"
    using assms by (simp_all add: reg5_field f3_field field_id)
  have w: "w = push_bit 20 (field 0 12 imm) OR push_bit 15 (field 0 5 rs) OR push_bit 12 (field 0 3 f3)
      OR push_bit 7 (field 0 5 rd) OR field 0 7 op"
    unfolding w_def gr_i_def f1_masks r by (simp add: field_rules)
  have "field 0 7 w = field 0 7 op" "field 7 5 w = field 0 5 rd" "field 12 3 w = field 0 3 f3" "field 15 5 w = field 0 5 rs"
    "field 20 12 w = field 0 12 imm" unfolding w by (simp_all add: field_rules)
  then show "rf_opcode w = op" "field 7 5 w = rd" "field 12 3 w = f3" "field 15 5 w = rs" "field 20 12 w = field 0 12 imm"
    by (simp_all only: r rf_opcode_def)
  show "word32 w" unfolding w_def using assms by (intro in32_word32 in32_encoders)
qed

lemma gr_r_decode:
  fixes rd f3 a b f7 op
  assumes "reg5 rd" "reg5 a" "reg5 b" "0 \<le> f3" "f3 < 8" "0 \<le> f7" "f7 < 128" "0 \<le> op" "op < 128"
  defines "w \<equiv> gr_r rd f3 a b f7 op"
  shows "rf_opcode w = op" "field 7 5 w = rd" "field 12 3 w = f3" "field 25 7 w = f7" "word32 w"
proof -
  have r: "field 0 5 rd = rd" "field 0 5 a = a" "field 0 5 b = b" "field 0 3 f3 = f3" "field 0 7 f7 = f7" "field 0 7 op = op"
    using assms by (simp_all add: reg5_field f3_field field_id)
  have w: "w = push_bit 25 (field 0 7 f7) OR push_bit 20 (field 0 5 b) OR push_bit 15 (field 0 5 a)
      OR push_bit 12 (field 0 3 f3) OR push_bit 7 (field 0 5 rd) OR field 0 7 op"
    unfolding w_def gr_r_def r ..
  have "field 0 7 w = field 0 7 op" "field 7 5 w = field 0 5 rd" "field 12 3 w = field 0 3 f3" "field 25 7 w = field 0 7 f7"
    unfolding w by (simp_all add: field_rules)
  then show "rf_opcode w = op" "field 7 5 w = rd" "field 12 3 w = f3" "field 25 7 w = f7"
    by (simp_all only: r rf_opcode_def)
  show "word32 w" unfolding w_def using assms by (intro in32_word32 in32_encoders)
qed

lemma gr_branch_decode:
  fixes f3 a b imm
  assumes "reg5 a" "reg5 b" "0 \<le> f3" "f3 < 8" "even imm" "- (2 ^ 12) \<le> imm" "imm < 2 ^ 12"
  defines "w \<equiv> gr_branch f3 a b imm"
  shows "rf_opcode w = 0x63" "field 12 3 w = f3" "field 15 5 w = a" "field 20 5 w = b" "rf_branch_imm w = imm"
proof -
  have r: "field 0 5 a = a" "field 0 5 b = b" "field 0 3 f3 = f3" "field 0 7 0x63 = 0x63" "f1_reg a" "f1_reg b"
    using assms by (simp_all add: reg5_field f3_field field_id f1_reg_def reg5_def)
  have w: "w = push_bit 31 (field 12 1 imm) OR push_bit 25 (field 5 6 imm) OR push_bit 20 (field 0 5 b)
      OR push_bit 15 (field 0 5 a) OR push_bit 12 (field 0 3 f3)
      OR push_bit 8 (field 1 4 imm) OR push_bit 7 (field 11 1 imm) OR field 0 7 0x63"
    unfolding w_def gr_branch_def f1_masks r by (simp add: field_drop)
  have "field 0 7 w = field 0 7 0x63" "field 12 3 w = field 0 3 f3" "field 15 5 w = field 0 5 a" "field 20 5 w = field 0 5 b"
    unfolding w by (simp_all add: field_rules)
  then show "rf_opcode w = 0x63" "field 12 3 w = f3" "field 15 5 w = a" "field 20 5 w = b"
    by (simp_all only: r rf_opcode_def)
  have "word32 w" unfolding w_def using assms by (intro in32_word32 in32_encoders)
  then have "rf_branch_imm w = rf_sext (f1_branch_imm w) 13"
    unfolding rf_branch_imm_def f1_branch_imm_def f1_masks by (simp add: word32_top field_drop field_field)
  also have "f1_branch_imm w = take_bit 13 imm"
    unfolding w_def gr_branch_f1 using r assms by (intro f1_branch_imm_encode) simp_all
  finally show "rf_branch_imm w = imm"
    using rf_sext_take [of 12 imm] assms(6,7) by (simp add: signed_take_bit_int_eq_self)
qed

lemma gr_jal_decode:
  fixes rd imm
  assumes "reg5 rd" "even imm" "- (2 ^ 20) \<le> imm" "imm < 2 ^ 20"
  defines "w \<equiv> gr_jal rd imm"
  shows "rf_opcode w = 0x6f" "field 7 5 w = rd" "rf_jal_imm w = imm"
proof -
  have r: "f1_reg rd" using assms by (simp add: f1_reg_def reg5_def)
  then show "rf_opcode w = 0x6f" "field 7 5 w = rd"
    unfolding w_def gr_jal_f1 rf_opcode_def by (simp_all add: f1_jal_fields)
  have "word32 w" unfolding w_def using assms by (intro in32_word32 in32_encoders)
  then have "rf_jal_imm w = rf_sext (f1_jal_imm w) 21"
    unfolding rf_jal_imm_def f1_jal_imm_def f1_masks by (simp add: word32_top field_drop field_field)
  also have "f1_jal_imm w = take_bit 21 imm"
    unfolding w_def gr_jal_f1 using r assms by (intro f1_jal_imm_encode) simp_all
  finally show "rf_jal_imm w = imm"
    using rf_sext_take [of 20 imm] assms(3,4) by (simp add: signed_take_bit_int_eq_self)
qed

lemma rf_exec_addi:
  assumes "reg5 rd" "reg5 rs" "- 2048 \<le> imm" "imm < 2048"
  shows "rf_exec s (gr_i 0x13 rd 0 rs imm) = Inr (Some (rf_regs s ! nat rs + imm), rf_pc s + 4, rf_mem s, None)"
proof -
  let ?w = "gr_i 0x13 rd 0 rs imm"
  note d = gr_i_decode [OF assms(1,2), of 0 "0x13" imm, simplified]
  have "rf_sext (drop_bit 20 ?w) 12 = imm"
    using rf_sext_take [of 11 imm] assms(3,4) d(5,6)
    by (simp add: word32_top field_def [of 0] signed_take_bit_int_eq_self)
  then have "rf_imm_value ?w a = Inr (a + imm)" for a
    unfolding rf_imm_value_def Let_def f1_masks using d by (simp add: field_drop rf_opcode_def)
  then show ?thesis using d by (simp add: rf_exec_cases)
qed


section \<open>Runs of a few instructions\<close>

fun rf_steps :: "nat \<Rightarrow> ref_state \<Rightarrow> ref_state py" where
  "rf_steps 0 s = Inr s"
| "rf_steps (Suc n) s = py_bind (rf_retire s (rf_read (rf_mem s) (rf_pc s) 4)) (\<lambda>(st, s'). rf_steps n s')"

lemma rf_steps_add: "rf_steps (m + n) s = py_bind (rf_steps m s) (rf_steps n)"
proof (induction m arbitrary: s)
  case (Suc m)
  then show ?case by (cases "rf_retire s (rf_read (rf_mem s) (rf_pc s) 4)") auto
qed simp

declare rf_steps.simps [simp del]

definition rf_holds :: "(int \<rightharpoonup> int) \<Rightarrow> int \<Rightarrow> int list \<Rightarrow> bool" where
  "rf_holds m pc ws \<longleftrightarrow> (\<forall>k < length ws. rf_read m (pc + 4 * int k) 4 = ws ! k)"

text \<open>The state moved to another address; only registers of \<open>R\<close> changed.\<close>

definition ref_moved :: "int set \<Rightarrow> ref_state \<Rightarrow> int \<Rightarrow> ref_state \<Rightarrow> bool" where
  "ref_moved R s p s' \<longleftrightarrow> rf_pc s' = p \<and> ref_wf s' \<and> rf_mem s' = rf_mem s \<and>
     (\<forall>r. reg5 r \<longrightarrow> r \<notin> R \<longrightarrow> rf_regs s' ! nat r = rf_regs s ! nat r)"

lemma ref_moved_trans: "ref_moved R s p t \<Longrightarrow> ref_moved R t q u \<Longrightarrow> ref_moved R s q u"
  by (simp add: ref_moved_def)

lemma field_reg5: "reg5 (field k 5 w)"
  unfolding reg5_def field_def using take_bit_int_less_exp [of 5 "drop_bit k w"] by simp

lemma rf_write_nth:
  "length regs = 32 \<Longrightarrow> regs ! 0 = 0 \<Longrightarrow> reg5 rd \<Longrightarrow> reg5 r \<Longrightarrow> rf_write regs rd v ! nat r =
     (case v of None \<Rightarrow> regs ! nat r | Some x \<Rightarrow> if r = rd \<and> rd \<noteq> 0 then x AND rf_mask else regs ! nat r)"
  by (auto simp: rf_write_def reg5_def nth_list_update eq_nat_nat_iff split: option.split)

lemma rf_one:
  assumes wf: "ref_wf s" and read: "rf_read (rf_mem s) (rf_pc s) 4 = w"
    and e: "rf_exec s w = Inr (v, p, rf_mem s, st)" and p: "word64 p" and R: "v = None \<or> field 7 5 w \<in> R"
  obtains s' where "rf_steps 1 s = Inr s'" "ref_moved R s p s'"
    "\<And>x. v = Some x \<Longrightarrow> field 7 5 w \<noteq> 0 \<Longrightarrow> rf_regs s' ! nat (field 7 5 w) = x AND rf_mask"
proof -
  let ?s' = "\<lparr>rf_pc = p, rf_regs = rf_write (rf_regs s) (field 7 5 w) v, rf_mem = rf_mem s\<rparr>"
  have r: "rf_retire s w = Inr (st, ?s')"
    using e p unfolding rf_retire_def f1_masks by (simp add: field_drop rf_mask_take word64_def)
  then have "rf_steps 1 s = Inr ?s'" by (simp add: rf_steps.simps read)
  moreover have "ref_moved R s p ?s'"
    using rf_retire_wf [OF r wf] wf R rf_write_nth [OF _ _ field_reg5]
    by (auto simp: ref_moved_def ref_wf_def split: option.split)
  moreover have "rf_regs ?s' ! nat (field 7 5 w) = x AND rf_mask" if "v = Some x" "field 7 5 w \<noteq> 0" for x
    using wf that rf_write_nth [OF _ _ field_reg5 [of 7 w] field_reg5 [of 7 w], of "rf_regs s" v] by (simp add: ref_wf_def)
  ultimately show ?thesis using that by blast
qed


section \<open>The straight-line program runs as predicted\<close>

definition bc_write :: "bc_row \<Rightarrow> int list \<Rightarrow> int list" where
  "bc_write row regs = (if br_write row then regs[br_rd row := br_value row] else regs)"

text \<open>The reference executes the row's instruction: it falls through and writes what the row says.\<close>

definition bc_row_ok :: "int list \<Rightarrow> int \<Rightarrow> bc_row \<Rightarrow> bool" where
  "bc_row_ok regs pc row \<longleftrightarrow> br_pc row = pc \<and>
     (\<forall>m. rf_retire \<lparr>rf_pc = pc, rf_regs = regs, rf_mem = m\<rparr> (br_inst row) =
            Inr (None, \<lparr>rf_pc = pc + 4, rf_regs = bc_write row regs, rf_mem = m\<rparr>))"

definition bc_pc :: "nat \<Rightarrow> int" where
  "bc_pc k = 0x80000000 + 4 * int k"

definition bc_regs :: "bc_row list \<Rightarrow> int list" where
  "bc_regs rows = fold bc_write rows (replicate 32 0)"

definition bc_inv :: "int list \<times> bc_row list \<Rightarrow> bool" where
  "bc_inv st \<longleftrightarrow> (case st of (regs, rows) \<Rightarrow> length regs = 32 \<and> regs ! 0 = 0 \<and> (bc_pc (length rows) < 2 ^ 64 \<longrightarrow>
     regs = bc_regs rows \<and> (\<forall>i < length rows. bc_row_ok (bc_regs (take i rows)) (bc_pc i) (rows ! i))))"

lemma bc_insts: "(0x004002ef :: int) = gr_jal 5 4" "(0x00001063 :: int) = gr_branch 1 0 0 0"
  by (simp_all add: gr_jal_def gr_branch_def)

lemma bc_row_jal:
  assumes "word64 (pc + 4)" "length regs = 32" "regs ! 0 = 0"
  shows "bc_row_ok regs pc \<lparr>br_pc = pc, br_inst = 0x004002ef, br_rd = 5, br_write = True, br_value = pc + 4\<rparr>"
proof -
  note d = gr_jal_decode [of 5 4, unfolded reg5_def, simplified]
  have "regs[5 := pc + 4, 0 := 0] = regs[5 := pc + 4]"
    using assms(2,3) by (metis list_update_id list_update_swap zero_neq_numeral)
  moreover have "take_bit 64 (pc + 4) = pc + 4" using assms(1) by (simp add: word64_def)
  ultimately show ?thesis
    using d unfolding bc_row_ok_def rf_retire_def f1_masks bc_insts(1)
    by (simp add: rf_exec_cases field_drop rf_write_def bc_write_def rf_mask_take)
qed

lemma bc_row_bne:
  assumes "word64 (pc + 4)" "length regs = 32" "regs ! 0 = 0"
  shows "bc_row_ok regs pc \<lparr>br_pc = pc, br_inst = 0x00001063, br_rd = 0, br_write = False, br_value = 0\<rparr>"
proof -
  note d = gr_branch_decode [of 0 0 1 0, unfolded reg5_def, simplified]
  have "regs[0 := 0] = regs" using assms(3) by (metis list_update_id)
  moreover have "take_bit 64 (pc + 4) = pc + 4" using assms(1) by (simp add: word64_def)
  ultimately show ?thesis
    using d unfolding bc_row_ok_def rf_retire_def f1_masks bc_insts(2)
    by (simp add: rf_exec_cases field_drop rf_write_def bc_write_def rf_mask_take rf_cond_def)
qed

lemma bc_row_addi:
  assumes "word64 (pc + 4)" "length regs = 32" "regs ! 0 = 0" "0 < rd" "rd < 32" "rs < 32" "imm < 2048"
  shows "bc_row_ok regs pc \<lparr>br_pc = pc, br_inst = push_bit 20 (int imm) OR push_bit 15 (int rs) OR push_bit 7 (int rd) OR 0x13,
    br_rd = rd, br_write = True, br_value = (regs ! rs + int imm) AND (push_bit 64 1 - 1)\<rparr>"
proof -
  have imm: "int imm AND 0xFFF = int imm" using assms(7) f1_masks(9) [of "int imm"] by (simp add: field_id)
  have w: "push_bit 20 (int imm) OR push_bit 15 (int rs) OR push_bit 7 (int rd) OR 0x13 = gr_i 0x13 (int rd) 0 (int rs) (int imm)"
    unfolding gr_i_def imm by simp
  have r: "reg5 (int rd)" "reg5 (int rs)" using assms by (simp_all add: reg5_def)
  note d = gr_i_decode [OF r, of 0 "0x13" "int imm", simplified]
  have "regs[rd := x, 0 := 0] = regs[rd := x]" for x
    using assms(3,4) by (metis list_update_id list_update_swap less_irrefl)
  moreover have "take_bit 64 (pc + 4) = pc + 4" using assms(1) by (simp add: word64_def)
  ultimately show ?thesis
    using d assms(4,7) unfolding bc_row_ok_def rf_retire_def f1_masks(4) w rf_mask_def [symmetric] rf_mask_take
    by (simp add: rf_exec_addi r field_drop rf_write_def bc_write_def rf_mask_take)
qed


lemma bc_regs_snoc: "bc_regs (rows @ [row]) = bc_write row (bc_regs rows)"
  by (simp add: bc_regs_def)

lemma bc_lane_inv:
  assumes "bc_inv st"
  shows "bc_inv (bc_lane width grp lane st)"
proof -
  obtain regs rows where st: "st = (regs, rows)" by (cases st)
  obtain regs' row where l: "bc_lane width grp lane st = (regs', rows @ [row])"
    by (simp add: bc_lane_def st Let_def case_prod_beta)
  let ?pc = "bc_pc (length rows)"
  have wf: "length regs = 32" "regs ! 0 = 0" using assms by (simp_all add: bc_inv_def st)
  have lane: "nat ((int lane - 1) mod 4) < 4" by simp
  have row: "regs' = bc_write row regs \<and> (word64 (?pc + 4) \<longrightarrow> bc_row_ok regs ?pc row)"
  proof (cases "lane = grp mod width")
    case True
    then show ?thesis
      using l bc_row_jal [of ?pc regs] bc_row_bne [of ?pc regs] wf
      by (auto simp: bc_lane_def st Let_def bc_write_def bc_pc_def split: if_splits)
  next
    case False
    have "lane mod 4 < 4" "grp mod 31 < 31" by simp_all
    then show ?thesis
      using l False bc_row_addi [of ?pc regs "8 + lane mod 4" "if grp mod 3 \<noteq> 0 then 8 + nat ((int lane - 1) mod 4) else 0" "grp mod 31 + 1"]
        wf lane
      by (auto simp: bc_lane_def st Let_def bc_write_def bc_pc_def split: if_splits)
  qed
  have z: "br_rd row \<noteq> 0 \<or> \<not> br_write row"
    using l by (auto simp: bc_lane_def st Let_def case_prod_beta)
  have keep: "length regs' = 32 \<and> regs' ! 0 = 0" using row z wf by (auto simp: bc_write_def nth_list_update)
  have "regs' = bc_regs (rows @ [row]) \<and>
      (\<forall>i < length (rows @ [row]). bc_row_ok (bc_regs (take i (rows @ [row]))) (bc_pc i) ((rows @ [row]) ! i))"
    if b: "bc_pc (length (rows @ [row])) < 2 ^ 64"
  proof -
    have "word64 (?pc + 4)" "?pc < 2 ^ 64" using b by (simp_all add: bc_pc_def word64_range)
    then show ?thesis
      using assms row by (auto simp: bc_inv_def st bc_regs_snoc less_Suc_eq nth_append)
  qed
  with keep show ?thesis unfolding l bc_inv_def by blast
qed

lemma bc_program_inv: "\<exists>regs. bc_inv (regs, bc_program width groups)"
proof -
  have inner: "bc_inv (fold (bc_lane width grp) lanes st)" if "bc_inv st" for grp lanes st
    using that by (induction lanes arbitrary: st) (simp_all add: bc_lane_inv)
  have outer: "bc_inv (fold (\<lambda>grp st. fold (bc_lane width grp) [0..<width] st) grps st)" if "bc_inv st" for grps st
    using that by (induction grps arbitrary: st) (simp_all add: inner)
  have "bc_inv (replicate 32 0, [])" by (simp add: bc_inv_def bc_regs_def)
  from outer [OF this, of "[0..<groups]"] show ?thesis
    unfolding bc_program_def by (metis prod.collapse)
qed

lemma bc_program_length: "length (bc_program width groups) = width * groups"
proof -
  have lane: "length (snd (bc_lane width grp lane st)) = Suc (length (snd st))" for grp lane st
    by (cases st) (simp add: bc_lane_def Let_def case_prod_beta)
  have inner: "length (snd (fold (bc_lane width grp) lanes st)) = length lanes + length (snd st)" for grp lanes st
    by (induction lanes arbitrary: st) (simp_all add: lane)
  have "length (snd (fold (\<lambda>grp st. fold (bc_lane width grp) [0..<width] st) grps st)) = width * length grps + length (snd st)" for grps st
    by (induction grps arbitrary: st) (simp_all add: inner)
  then show ?thesis by (simp add: bc_program_def)
qed

text \<open>C40: The program falls through to its end: executed by the reference from cleared registers, after \<open>k\<close> instructions
  it is at the \<open>k\<close>-th word and the register file is exactly what the rows so far predict.\<close>

theorem bc_program_architectural:
  assumes "rf_holds m 0x80000000 (map br_inst (bc_program width groups))" "width * groups < 2 ^ 60" "k \<le> width * groups"
  shows "rf_steps k \<lparr>rf_pc = 0x80000000, rf_regs = replicate 32 0, rf_mem = m\<rparr> =
    Inr \<lparr>rf_pc = 0x80000000 + 4 * int k, rf_regs = bc_regs (take k (bc_program width groups)), rf_mem = m\<rparr>"
  using assms(3)
proof (induction k)
  case 0
  show ?case by (simp add: rf_steps.simps bc_regs_def)
next
  case (Suc k)
  let ?rows = "bc_program width groups"
  let ?s = "\<lparr>rf_pc = bc_pc k, rf_regs = bc_regs (take k ?rows), rf_mem = m\<rparr>"
  have k: "k < length ?rows" using Suc.prems by (simp add: bc_program_length)
  have "int (width * groups) < 2 ^ 60" using assms(2) by (metis of_nat_less_iff of_nat_numeral of_nat_power)
  moreover have "0x80000000 + 4 * x < 2 ^ 64" if "x < 2 ^ 60" for x :: int using that by simp
  ultimately have "bc_pc (length ?rows) < 2 ^ 64" unfolding bc_pc_def bc_program_length by blast
  then have "bc_row_ok (bc_regs (take k ?rows)) (bc_pc k) (?rows ! k)"
    using bc_program_inv [of width groups] k by (auto simp: bc_inv_def)
  moreover have "rf_read m (bc_pc k) 4 = br_inst (?rows ! k)"
    using assms(1) k by (simp add: rf_holds_def bc_pc_def)
  ultimately have "rf_steps 1 ?s = Inr \<lparr>rf_pc = bc_pc (Suc k), rf_regs = bc_regs (take (Suc k) ?rows), rf_mem = m\<rparr>"
    using k by (simp add: rf_steps.simps bc_row_ok_def take_Suc_conv_app_nth bc_regs_snoc bc_pc_def)
  moreover have "rf_steps (Suc k) s = py_bind (rf_steps k s) (rf_steps 1)" for s
    using rf_steps_add [of k 1 s] by (simp only: Suc_eq_plus1)
  ultimately show ?case using Suc by (simp add: bc_pc_def)
qed


text \<open>The memory of the program itself.\<close>

definition rf_image :: "int \<Rightarrow> int list \<Rightarrow> (int \<rightharpoonup> int)" where
  "rf_image base ws = rf_fill Map.empty base (concat (map (\<lambda>w. map (\<lambda>i. drop_bit (8 * i) w AND 255) [0..<4]) ws))"

lemma bc_demo: "bc_program 2 (Suc 0) = [
    \<lparr>br_pc = 0x80000000, br_inst = 0x00001063, br_rd = 0, br_write = False, br_value = 0\<rparr>,
    \<lparr>br_pc = 0x80000004, br_inst = 0x00100493, br_rd = 9, br_write = True, br_value = 1\<rparr>]"
  by (simp add: bc_program_def bc_lane_def Let_def upt_rec)

theorem bc_program_architectural_witness:
  "rf_steps 2 \<lparr>rf_pc = 0x80000000, rf_regs = replicate 32 0, rf_mem = rf_image 0x80000000 [0x00001063, 0x00100493]\<rparr> =
    Inr \<lparr>rf_pc = 0x80000008, rf_regs = (replicate 32 0)[9 := 1], rf_mem = rf_image 0x80000000 [0x00001063, 0x00100493]\<rparr>"
proof -
  have "rf_holds (rf_image 0x80000000 [0x00001063, 0x00100493]) 0x80000000 [0x00001063, 0x00100493]"
    by (simp add: rf_holds_def rf_image_def rf_read_def rf_get_def less_Suc_eq upt_rec)
  then show ?thesis
    using bc_program_architectural [of "rf_image 0x80000000 [0x00001063, 0x00100493]" 2 1 2]
    by (simp add: bc_demo bc_regs_def bc_write_def)
qed


section \<open>Generated blocks retire as many events as budgeted\<close>

text \<open>The templates whose instructions the reference implements.\<close>

fun ref_supports :: "gen_pick \<Rightarrow> bool" where
  "ref_supports (P_imm f3 imm) \<longleftrightarrow> f3 \<noteq> 2 \<and> f3 \<noteq> 3"
| "ref_supports (P_reg f3 alt) \<longleftrightarrow> f3 \<in> {0, 4, 6, 7}"
| "ref_supports (P_trap w) \<longleftrightarrow> False"
| "ref_supports (P_csr addr op src) \<longleftrightarrow> False"
| "ref_supports (P_reg32 f3 alt) \<longleftrightarrow> False"
| "ref_supports _ \<longleftrightarrow> True"

lemma rf_imm_value_Inr:
  "field 12 3 w \<notin> {2, 3} \<Longrightarrow> \<exists>v. rf_imm_value w a = Inr v"
proof -
  have "field 12 3 w \<in> {0, 1, 2, 3, 4, 5, 6, 7}"
  proof -
    have "x \<in> {0, 1, 2, 3, 4, 5, 6, 7}" if "0 \<le> x" "x < 8" for x :: int using that by auto
    then show ?thesis using take_bit_int_less_exp [of 3 "drop_bit 12 w"] by (simp add: field_def)
  qed
  then show "field 12 3 w \<notin> {2, 3} \<Longrightarrow> \<exists>v. rf_imm_value w a = Inr v"
    unfolding rf_imm_value_def Let_def f1_masks by (auto simp: field_drop)
qed

lemma rf_one_value:
  assumes "ref_wf s" "rf_read (rf_mem s) (rf_pc s) 4 = w" "rf_exec s w = Inr (Some v, rf_pc s + 4, rf_mem s, st)"
    "rf_pc s + 4 < 2 ^ 64" "field 7 5 w \<in> R"
  shows "\<exists>s'. rf_steps 1 s = Inr s' \<and> ref_moved R s (rf_pc s + 4) s' \<and>
    (field 7 5 w \<noteq> 0 \<longrightarrow> rf_regs s' ! nat (field 7 5 w) = v AND rf_mask)"
proof -
  have "word64 (rf_pc s + 4)" using assms(1,4) by (simp add: ref_wf_def word64_range)
  from rf_one [OF assms(1-3) this] assms(5) show ?thesis by metis
qed

lemma rf_step_addi:
  assumes "ref_wf s" "rf_read (rf_mem s) (rf_pc s) 4 = gr_i 0x13 rd 0 rs imm" "reg5 rd" "reg5 rs" "- 2048 \<le> imm" "imm < 2048"
    "p = rf_pc s + 4" "p < 2 ^ 64" "rd \<in> R"
  obtains s' where "rf_steps 1 s = Inr s'" "ref_moved R s p s'"
    "rd \<noteq> 0 \<Longrightarrow> rf_regs s' ! nat rd = (rf_regs s ! nat rs + imm) AND rf_mask"
  using rf_one_value [OF assms(1,2) rf_exec_addi [OF assms(3-6)], of R] gr_i_decode(2) [OF assms(3,4), of 0 "0x13" imm] assms(7-9)
  by auto

lemma rf_step_branch:
  assumes "ref_wf s" "rf_read (rf_mem s) (rf_pc s) 4 = gr_branch f3 a b off" "reg5 a" "reg5 b" "0 \<le> f3" "f3 < 8" "even off"
    "- (2 ^ 12) \<le> off" "off < 2 ^ 12" "rf_cond f3 (rf_regs s ! nat a) (rf_regs s ! nat b) = Inr c"
    "p = rf_pc s + (if c then off else 4)" "word64 p"
  obtains s' where "rf_steps 1 s = Inr s'" "ref_moved R s p s'"
proof -
  note d = gr_branch_decode [OF assms(3-9)]
  have "rf_exec s (gr_branch f3 a b off) = Inr (None, p, rf_mem s, None)"
    using d assms(10,11) by (simp add: rf_exec_cases)
  from rf_one [OF assms(1,2) this assms(12)] show ?thesis using that by blast
qed

lemma rf_holdsD: "rf_holds m base ws \<Longrightarrow> k < length ws \<Longrightarrow> p = base + 4 * int k \<Longrightarrow> rf_read m p 4 = ws ! k"
  by (simp add: rf_holds_def)

lemma rf_mask_small: "0 \<le> x \<Longrightarrow> x < 2 ^ 64 \<Longrightarrow> x AND rf_mask = x"
  by (simp add: rf_mask_take take_bit_int_eq_self)

text \<open>One round of the countdown loop.\<close>

lemma rf_loop_round:
  assumes h: "rf_holds (rf_mem s) base (fst (gen_block rd a b (P_loop k)))" and rd: "4 \<le> rd" "rd < 32"
    and base: "0 \<le> base" "base + 16 < 2 ^ 64"
    and s: "ref_wf s" "rf_pc s = base + 4" "rf_regs s ! 2 = int (Suc n)" "n < 2048"
  shows "\<exists>t. rf_steps 3 s = Inr t \<and> ref_moved {rd, 2} s (if n = 0 then base + 16 else base + 4) t \<and> rf_regs t ! 2 = int n"
proof -
  have r: "reg5 rd" "reg5 2" "reg5 0" using rd by (simp_all add: reg5_def)
  have read: "rf_read (rf_mem s) (base + 4) 4 = gr_i 0x13 rd 0 rd 1" "rf_read (rf_mem s) (base + 8) 4 = gr_i 0x13 2 0 2 (- 1)"
    "rf_read (rf_mem s) (base + 12) 4 = gr_branch 1 2 0 (- 8)"
    using rf_holdsD [OF h, of 1 "base + 4"] rf_holdsD [OF h, of 2 "base + 8"] rf_holdsD [OF h, of 3 "base + 12"] by simp_all
  obtain s1 where s1: "rf_steps 1 s = Inr s1" "ref_moved {rd} s (base + 8) s1"
    using base s by (rule_tac rf_step_addi [OF s(1) _ r(1) r(1), of 1 "base + 8" "{rd}"]) (simp_all add: read)
  then have t1: "ref_wf s1" "rf_mem s1 = rf_mem s" "rf_pc s1 = base + 8" "rf_regs s1 ! 2 = int (Suc n)"
    using s r rd by (auto simp: ref_moved_def dest: spec [of _ 2])
  obtain s2 where s2: "rf_steps 1 s1 = Inr s2" "ref_moved {2} s1 (base + 12) s2"
      "rf_regs s2 ! nat 2 = (rf_regs s1 ! nat 2 + - 1) AND rf_mask"
    using base t1 by (rule_tac rf_step_addi [OF t1(1) _ r(2) r(2), of "- 1" "base + 12" "{2}"]) (simp_all add: read)
  then have t2: "ref_wf s2" "rf_mem s2 = rf_mem s" "rf_pc s2 = base + 12" "rf_regs s2 ! 2 = int n" "rf_regs s2 ! 0 = 0"
    using t1 s rf_mask_small [of "int n"] by (auto simp: ref_moved_def ref_wf_def)
  let ?p = "if n = 0 then base + 16 else base + 4"
  have "rf_cond 1 (rf_regs s2 ! nat 2) (rf_regs s2 ! nat 0) = Inr (n \<noteq> 0)" using t2 by (simp add: rf_cond_def)
  then obtain s3 where s3: "rf_steps 1 s2 = Inr s3" "ref_moved {} s2 ?p s3"
    using base t2 by (rule_tac rf_step_branch [OF t2(1) _ r(2,3), of 1 "- 8" "n \<noteq> 0" ?p "{}"]) (simp_all add: read word64_range)
  have "rf_steps (1 + (1 + 1)) s = Inr s3" unfolding rf_steps_add using s1(1) s2(1) s3(1) by simp
  moreover have "1 + (1 + 1) = (3::nat)" by simp
  ultimately have "rf_steps 3 s = Inr s3" by metis
  moreover have "ref_moved {rd, 2} s ?p s3" using s1(2) s2(2) s3(2) by (auto simp: ref_moved_def)
  moreover have "rf_regs s3 ! 2 = int n" using s3(2) t2 r(2) by (auto simp: ref_moved_def dest: spec [of _ 2])
  ultimately show ?thesis by blast
qed

lemma rf_loop:
  assumes "rf_holds m base (fst (gen_block rd a b (P_loop k)))" "4 \<le> rd" "rd < 32" "0 \<le> base" "base + 16 < 2 ^ 64"
    "ref_wf s" "rf_mem s = m" "rf_pc s = base + 4" "rf_regs s ! 2 = int (Suc n)" "n < 2048"
  shows "\<exists>t. rf_steps (3 * Suc n) s = Inr t \<and> ref_moved {rd, 2} s (base + 16) t"
  using assms(6-10)
proof (induction n arbitrary: s)
  case 0
  then show ?case using rf_loop_round [of s base rd a b k 0] assms(1-5) by auto
next
  case (Suc n)
  obtain t where t: "rf_steps 3 s = Inr t" "ref_moved {rd, 2} s (base + 4) t" "rf_regs t ! 2 = int (Suc n)"
    using rf_loop_round [of s base rd a b k "Suc n"] assms(1-5) Suc.prems by auto
  then obtain u where u: "rf_steps (3 * Suc n) t = Inr u" "ref_moved {rd, 2} t (base + 16) u"
    using Suc.IH [of t] Suc.prems by (auto simp: ref_moved_def)
  have "rf_steps (3 + 3 * Suc n) s = Inr u" unfolding rf_steps_add using t(1) u(1) by simp
  then show ?case using ref_moved_trans [OF t(2) u(2)] by auto
qed


text \<open>The address after the block, and the registers a block may change.\<close>

definition ref_after :: "int \<Rightarrow> ref_state \<Rightarrow> int \<Rightarrow> ref_state \<Rightarrow> bool" where
  "ref_after rd s p t \<longleftrightarrow> rf_pc t = p \<and> ref_wf t \<and>
     (\<forall>r. reg5 r \<longrightarrow> r \<noteq> rd \<longrightarrow> r \<noteq> 2 \<longrightarrow> rf_regs t ! nat r = rf_regs s ! nat r)"

lemma ref_after_moved: "ref_moved R s p t \<Longrightarrow> R \<subseteq> {rd, 2} \<Longrightarrow> ref_after rd s p t"
  by (auto simp: ref_moved_def ref_after_def)

lemma rf_block_value:
  assumes "ref_wf s" "rf_read (rf_mem s) (rf_pc s) 4 = w" "rf_exec s w = Inr (Some v, p, rf_mem s, st)"
    "rf_pc s \<le> p" "p < 2 ^ 64" "field 7 5 w = rd \<or> field 7 5 w = 0"
  shows "\<exists>t. rf_steps 1 s = Inr t \<and> ref_after rd s p t"
proof -
  have "word64 p" using assms(1,4,5) by (simp add: ref_wf_def word64_range)
  then obtain t where t: "rf_steps 1 s = Inr t" "ref_moved {field 7 5 w} s p t"
    using rf_one [OF assms(1-3), of "{field 7 5 w}"] by auto
  have "rf_regs t ! 0 = rf_regs s ! 0" using t(2) assms(1) by (simp add: ref_moved_def ref_wf_def)
  with t assms(6) have "ref_after rd s p t"
    by (auto simp: ref_after_def ref_moved_def)
  with t(1) show ?thesis by blast
qed

lemma gr_store_decode:
  assumes "reg5 a" "reg5 b" "0 \<le> f3" "f3 < 8"
  shows "rf_opcode (gr_store f3 a b imm) = 0x23"
  using gr_opcodes(3) by (simp add: rf_opcode_def)

lemma rf_block_store:
  assumes "ref_wf s" "rf_read (rf_mem s) (rf_pc s) 4 = w" "rf_opcode w = 0x23" "rf_pc s + 4 < 2 ^ 64"
  shows "\<exists>t. rf_steps 1 s = Inr t \<and> ref_after rd s (rf_pc s + 4) t"
proof -
  obtain m st where e: "rf_exec s w = Inr (None, rf_pc s + 4, m, Some st)"
    using assms(3) by (auto simp: rf_exec_cases Let_def)
  let ?t = "\<lparr>rf_pc = (rf_pc s + 4) AND rf_mask, rf_regs = rf_write (rf_regs s) (drop_bit 7 w AND 31) None, rf_mem = m\<rparr>"
  have r: "rf_retire s w = Inr (Some st, ?t)" using e by (simp add: rf_retire_def)
  have "(rf_pc s + 4) AND rf_mask = rf_pc s + 4"
    using assms(1,4) by (intro rf_mask_small) (simp_all add: ref_wf_def word64_range)
  moreover have "rf_write (rf_regs s) rd' None = rf_regs s" for rd'
    using assms(1) by (simp add: rf_write_def ref_wf_def) (metis list_update_id)
  ultimately have "ref_after rd s (rf_pc s + 4) ?t"
    using rf_retire_wf [OF r assms(1)] by (simp add: ref_after_def)
  then show ?thesis using r assms(2) by (simp add: rf_steps.simps)
qed

lemma rf_reg_value_Inr:
  "word32 w \<Longrightarrow> rv_reg_op w \<noteq> None \<Longrightarrow> \<exists>v. rf_reg_value w x y = Inr v"
  unfolding rf_reg_value_def rv_reg_op_def Let_def
  by (auto simp: f1_masks field_drop field_field word32_top py_assert_def split: if_splits)

lemma ref_after_trans: "ref_after rd s p t \<Longrightarrow> ref_after rd t q u \<Longrightarrow> ref_after rd s q u"
  by (simp add: ref_after_def)

text \<open>A generated block about to run, and the block having run.\<close>

definition block_ready :: "int \<Rightarrow> int \<Rightarrow> int \<Rightarrow> gen_pick \<Rightarrow> ref_state \<Rightarrow> bool" where
  "block_ready rd a b p s \<longleftrightarrow> rd \<in> {4..<32} \<and> a \<in> {4..<32} \<and> b \<in> {4..<32} \<and> pick_ok a p \<and> ref_supports p \<and> ref_wf s \<and>
     rf_holds (rf_mem s) (rf_pc s) (fst (gen_block rd a b p)) \<and> rf_pc s + 4 * int (length (fst (gen_block rd a b p))) < 2 ^ 64"

definition block_done :: "int \<Rightarrow> int \<Rightarrow> int \<Rightarrow> gen_pick \<Rightarrow> ref_state \<Rightarrow> bool" where
  "block_done rd a b p s \<longleftrightarrow> (\<exists>t. rf_steps (snd (gen_block rd a b p)) s = Inr t \<and>
     ref_after rd s (rf_pc s + 4 * int (length (fst (gen_block rd a b p)))) t)"

lemma block_readyD:
  assumes "block_ready rd a b p s"
  shows "rd \<in> {4..<32}" "a \<in> {4..<32}" "b \<in> {4..<32}" "pick_ok a p" "ref_supports p" "ref_wf s"
    "rf_holds (rf_mem s) (rf_pc s) (fst (gen_block rd a b p))" "rf_pc s + 4 * int (length (fst (gen_block rd a b p))) < 2 ^ 64"
  using assms by (simp_all add: block_ready_def)

lemma block_regs:
  assumes "block_ready rd a b p s"
  shows "reg5 rd" "reg5 a" "reg5 b" "reg5 0" "reg5 1" "reg5 2"
  using block_readyD(1-3) [OF assms] by (simp_all add: reg5_def)

lemma block_first:
  assumes "block_ready rd a b p s"
  shows "0 \<le> rf_pc s" "rf_read (rf_mem s) (rf_pc s) 4 = hd (fst (gen_block rd a b p))"
proof -
  show "0 \<le> rf_pc s" using block_readyD(6) [OF assms] by (simp add: ref_wf_def word64_range)
  show "rf_read (rf_mem s) (rf_pc s) 4 = hd (fst (gen_block rd a b p))"
    using rf_holdsD [OF block_readyD(7) [OF assms], of 0 "rf_pc s"] by (cases p) simp_all
qed

lemma block_imm:
  assumes "block_ready rd a b p s" and P_imm: "p = P_imm f3 imm"
  shows "block_done rd a b p s"
proof -
  note g = block_readyD [OF assms(1)] and r = block_regs [OF assms(1)] and pc = block_first(1) [OF assms(1)]
    and read0 = block_first(2) [OF assms(1)]
  have f: "0 \<le> f3" "f3 < 8" "f3 \<notin> {2, 3}" using g(4,5) P_imm by auto
  note d = gr_i_decode [OF r(1,2) f(1,2), of "0x13" imm, simplified]
  obtain v where "rf_imm_value (gr_i 0x13 rd f3 a imm) (rf_regs s ! nat a) = Inr v"
    using rf_imm_value_Inr [of "gr_i 0x13 rd f3 a imm" "rf_regs s ! nat a"] d f(3) by auto
  then show ?thesis
    using rf_block_value [OF g(6) read0, of v _ None rd] d g(8) by (simp add: block_done_def P_imm rf_exec_cases)
qed

lemma block_shift:
  assumes "block_ready rd a b p s" and P_shift: "p = P_shift f3 arith sh"
  shows "block_done rd a b p s"
proof -
  note g = block_readyD [OF assms(1)] and r = block_regs [OF assms(1)] and pc = block_first(1) [OF assms(1)]
    and read0 = block_first(2) [OF assms(1)]
  have f: "0 \<le> f3" "f3 < 8" "f3 \<notin> {2, 3}" using g(4) P_shift by auto
  let ?w = "gr_i 0x13 rd f3 a (sh OR (if arith then 0x400 else 0))"
  note d = gr_i_decode [OF r(1,2) f(1,2), of "0x13" "sh OR (if arith then 0x400 else 0)", simplified]
  obtain v where "rf_imm_value ?w (rf_regs s ! nat a) = Inr v"
    using rf_imm_value_Inr [of ?w "rf_regs s ! nat a"] d f(3) by auto
  then show ?thesis
    using rf_block_value [OF g(6) read0, of v _ None rd] d g(8) by (simp add: block_done_def P_shift rf_exec_cases)
qed

lemma block_imm32:
  assumes "block_ready rd a b p s" and P_imm32: "p = P_imm32 imm"
  shows "block_done rd a b p s"
proof -
  note g = block_readyD [OF assms(1)] and r = block_regs [OF assms(1)] and pc = block_first(1) [OF assms(1)]
    and read0 = block_first(2) [OF assms(1)]
  note d = gr_i_decode [OF r(1,2), of 0 "0x1b" imm, simplified]
  obtain v where "rf_imm_value (gr_i 0x1b rd 0 a imm) (rf_regs s ! nat a) = Inr v"
    using rf_imm_value_Inr [of "gr_i 0x1b rd 0 a imm" "rf_regs s ! nat a"] d by auto
  then show ?thesis
    using rf_block_value [OF g(6) read0, of v _ None rd] d g(8) by (simp add: block_done_def P_imm32 rf_exec_cases)
qed

lemma block_load:
  assumes "block_ready rd a b p s" and P_load: "p = P_load f3 slot zero"
  shows "block_done rd a b p s"
proof -
  note g = block_readyD [OF assms(1)] and r = block_regs [OF assms(1)] and pc = block_first(1) [OF assms(1)]
    and read0 = block_first(2) [OF assms(1)]
  let ?d = "if zero then 0 else rd"
  have f: "0 \<le> f3" "f3 < 8" using g(4) P_load by auto
  have "reg5 ?d" using r by simp
  note d = gr_i_decode [OF this r(5) f, of "0x03" "slot * gr_size f3", simplified]
  show ?thesis
    using rf_block_value [OF g(6) read0, of _ _ None rd] d g(8) by (simp add: block_done_def P_load rf_exec_cases Let_def)
qed

lemma block_store:
  assumes "block_ready rd a b p s" and P_store: "p = P_store f3 slot"
  shows "block_done rd a b p s"
proof -
  note g = block_readyD [OF assms(1)] and r = block_regs [OF assms(1)] and pc = block_first(1) [OF assms(1)]
    and read0 = block_first(2) [OF assms(1)]
  from P_store show ?thesis
    using rf_block_store [OF g(6) read0, of rd] gr_store_decode [OF r(5,3)] g(4,8) by (simp add: block_done_def)
qed

lemma block_jal:
  assumes "block_ready rd a b p s" and P_jal: "p = P_jal link"
  shows "block_done rd a b p s"
proof -
  note g = block_readyD [OF assms(1)] and r = block_regs [OF assms(1)] and pc = block_first(1) [OF assms(1)]
    and read0 = block_first(2) [OF assms(1)]
  let ?d = "if link then rd else 0"
  have "reg5 ?d" using r by simp
  note d = gr_jal_decode [OF this, of 8, simplified]
  show ?thesis
    using rf_block_value [OF g(6) read0, of _ _ None rd] d g(8) by (simp add: block_done_def P_jal rf_exec_cases)
qed

lemma block_reg:
  assumes "block_ready rd a b p s" and P_reg: "p = P_reg f3 alt"
  shows "block_done rd a b p s"
proof -
  note g = block_readyD [OF assms(1)] and r = block_regs [OF assms(1)] and pc = block_first(1) [OF assms(1)]
    and read0 = block_first(2) [OF assms(1)]
  have f: "0 \<le> f3" "f3 < 8" using g(4) P_reg by auto
  let ?f7 = "if f3 \<in> {0, 5} \<and> alt then 0x20 else 0 :: int"
  let ?w = "gr_r rd f3 a b ?f7 0x33"
  have z: "0 \<le> ?f7" "?f7 < 128" "(0::int) \<le> 0x33" "(0x33::int) < 128" by auto
  note d = gr_r_decode [OF r(1-3) f z]
  have "rv_reg_op ?w \<noteq> None" using d g(5) f by (auto simp: rv_reg_op_def Let_def P_reg)
  then obtain v where "rf_reg_value ?w (rf_regs s ! nat (field 15 5 ?w)) (rf_regs s ! nat (field 20 5 ?w)) = Inr v"
    using rf_reg_value_Inr [of ?w] d by blast
  then show ?thesis
    using rf_block_value [OF g(6) read0, of v _ None rd] d g(8) by (simp add: block_done_def P_reg rf_exec_cases)
qed

lemma block_branch:
  assumes "block_ready rd a b p s" and P_branch: "p = P_branch f3"
  shows "block_done rd a b p s"
proof -
  note g = block_readyD [OF assms(1)] and r = block_regs [OF assms(1)] and pc = block_first(1) [OF assms(1)]
    and read0 = block_first(2) [OF assms(1)]
  let ?c = "f3 \<in> {0, 5, 7}"
  let ?p = "rf_pc s + (if ?c then 8 else 4)"
  have f: "f3 \<in> {0, 1, 4, 5, 6, 7}" using g(4) P_branch by simp
  have "rf_regs s ! nat 0 = 0" using g(6) by (simp add: ref_wf_def)
  then have c: "rf_cond f3 (rf_regs s ! nat 0) (rf_regs s ! nat 0) = Inr ?c" using f by (auto simp: rf_cond_def)
  have "word64 ?p" using g(8) pc P_branch by (simp add: word64_range)
  then obtain t where t: "rf_steps 1 s = Inr t" "ref_moved {} s ?p t"
    using f read0 by (rule_tac rf_step_branch [OF g(6) _ r(4) r(4) _ _ _ _ _ c, of 8 ?p "{}"]) (auto simp: block_done_def P_branch)
  show ?thesis
  proof (cases ?c)
    case True
    then show ?thesis using t ref_after_moved [of "{}" s ?p t rd] by (auto simp: block_done_def P_branch)
  next
    case False
    have "rf_read (rf_mem t) (rf_pc t) 4 = gr_i 0x13 rd 0 a 1" "ref_wf t" "rf_pc t = rf_pc s + 4"
      using rf_holdsD [OF g(7), of 1 "rf_pc s + 4"] t(2) False by (simp_all add: P_branch ref_moved_def)
    then obtain u where u: "rf_steps 1 t = Inr u" "ref_moved {rd} t (rf_pc s + 8) u"
      using r g(8) by (rule_tac rf_step_addi [of t rd a 1 "rf_pc s + 8" "{rd}"]) (auto simp: block_done_def P_branch)
    have "rf_steps (1 + 1) s = Inr u" unfolding rf_steps_add using t(1) u(1) by simp
    moreover have "ref_after rd s (rf_pc s + 8) u"
      using ref_after_trans [OF ref_after_moved [OF t(2)] ref_after_moved [OF u(2)]] by simp
    ultimately show ?thesis using False by (simp add: block_done_def P_branch numeral_2_eq_2)
  qed
qed

lemma block_loop:
  assumes "block_ready rd a b p s" and P_loop: "p = P_loop n"
  shows "block_done rd a b p s"
proof -
  note g = block_readyD [OF assms(1)] and r = block_regs [OF assms(1)] and pc = block_first(1) [OF assms(1)]
    and read0 = block_first(2) [OF assms(1)]
  obtain k where k: "n = Suc k" "k < 8" using g(4) P_loop by (cases n) auto
  obtain t where t: "rf_steps 1 s = Inr t" "ref_moved {2} s (rf_pc s + 4) t"
      "rf_regs t ! nat 2 = (rf_regs s ! nat 0 + int n) AND rf_mask"
    using read0 r g(8) k by (rule_tac rf_step_addi [OF g(6), of 2 0 "int n" "rf_pc s + 4" "{2}"]) (auto simp: block_done_def P_loop)
  then have "rf_regs t ! 2 = int (Suc k)" using g(6) k rf_mask_small [of "int n"] by (simp add: ref_wf_def)
  then obtain u where u: "rf_steps (3 * Suc k) t = Inr u" "ref_moved {rd, 2} t (rf_pc s + 16) u"
    using rf_loop [of "rf_mem s" "rf_pc s" rd a b n t k] g(1,7,8) pc t(2) k by (auto simp: block_done_def P_loop ref_moved_def)
  have "rf_steps (1 + 3 * Suc k) s = Inr u" unfolding rf_steps_add using t(1) u(1) by simp
  moreover have "ref_after rd s (rf_pc s + 16) u"
    using ref_after_trans [OF ref_after_moved [OF t(2)] ref_after_moved [OF u(2)]] by simp
  ultimately show ?thesis by (simp add: block_done_def P_loop k mult.commute [of k])

qed

lemmas block_lemmas = block_imm block_shift block_imm32 block_load block_store block_jal block_reg block_branch block_loop



lemma rf_image_bytes: "\<forall>b \<in> ran (rf_image base ws). 0 \<le> b \<and> b < 256"
proof -
  have "0 \<le> x AND 255 \<and> x AND 255 < (256::int)" for x using and_mask_range [of x 8] by simp
  then show ?thesis unfolding rf_image_def by (intro rf_fill_ran) auto
qed

definition ref_demo :: ref_state where
  "ref_demo = \<lparr>rf_pc = 0x80000000, rf_regs = replicate 32 0,
     rf_mem = rf_image 0x80000000 (fst (gen_block 6 7 8 (P_loop 2)))\<rparr>"


section \<open>The datapath as a whole\<close>



text \<open>A 32-bit right shift of a register that is not the extension it presupposes comes out wrong: \<open>srliw\<close> by 4 of
  the sign-extended \<open>0x80000000\<close> is \<open>0x08000000\<close>, but the reference shifts all 64 bits.\<close>

theorem ref_srliw_deviates:
  "rf_imm_value (gr_i 0x1b 5 5 6 4) (uint (0xFFFFFFFF80000000 :: 64 word)) = Inr (- 0x08000000) \<and>
   scast (rv_aluw RV_SRL (ucast (0xFFFFFFFF80000000 :: 64 word)) 4) = (0x08000000 :: 64 word)"
  by (simp add: rf_imm_value_def gr_i_def rf_sext_def)


section \<open>What a finished run shows\<close>

text \<open>The \<open>i\<close>-th event is the instruction the machine is at after \<open>i\<close> steps.\<close>

definition ref_trace :: "ref_state \<Rightarrow> nat \<Rightarrow> ref_event list \<Rightarrow> bool" where
  "ref_trace s k es \<longleftrightarrow> (\<forall>i < length es. re_order (es ! i) = k + i \<and>
     (\<exists>t. rf_steps i s = Inr t \<and> re_pc (es ! i) = rf_pc t \<and> re_inst (es ! i) = rf_read (rf_mem t) (rf_pc t) 4 \<and>
       (\<exists>u. rf_retire t (re_inst (es ! i)) = Inr (re_store (es ! i), u))))"

definition ref_hits :: "int \<Rightarrow> ref_event \<Rightarrow> bool" where
  "ref_hits tohost e \<longleftrightarrow> (\<exists>sz data. re_store e = Some (tohost, sz, data))"

lemma rf_step_Inr:
  assumes "rf_step k s = Inr (e, s')"
  shows "rf_steps 1 s = Inr s'" "re_order e = k" "re_pc e = rf_pc s" "re_inst e = rf_read (rf_mem s) (rf_pc s) 4"
    "rf_retire s (re_inst e) = Inr (re_store e, s')"
  using assms by (auto simp: rf_step_def Let_def py_bind_Inr_iff rf_steps.simps)

lemma ref_trace_Cons:
  assumes "rf_step k s = Inr (e, s')" "ref_trace s' (Suc k) es"
  shows "ref_trace s k (e # es)"
  unfolding ref_trace_def
proof (intro allI impI)
  fix i
  assume i: "i < length (e # es)"
  note e = rf_step_Inr [OF assms(1)]
  show "re_order ((e # es) ! i) = k + i \<and> (\<exists>t. rf_steps i s = Inr t \<and> re_pc ((e # es) ! i) = rf_pc t \<and>
      re_inst ((e # es) ! i) = rf_read (rf_mem t) (rf_pc t) 4 \<and>
      (\<exists>u. rf_retire t (re_inst ((e # es) ! i)) = Inr (re_store ((e # es) ! i), u)))"
  proof (cases i)
    case 0
    then show ?thesis using e by (auto simp: rf_steps.simps)
  next
    case (Suc j)
    have "rf_steps (1 + j) s = rf_steps j s'" unfolding rf_steps_add using e(1) by simp
    then show ?thesis using assms(2) i Suc by (auto simp: ref_trace_def)
  qed
qed

lemma rf_run_Suc:
  assumes "rf_run (Suc n) tohost k s = Inr es"
  obtains e s' where "rf_step k s = Inr (e, s')" "ref_hits tohost e" "\<exists>sz. re_store e = Some (tohost, sz, 1)" "es = [e]"
  | e s' es' where "rf_step k s = Inr (e, s')" "\<not> ref_hits tohost e" "rf_run n tohost (Suc k) s' = Inr es'" "es = e # es'"
proof -
  obtain e s' where st: "rf_step k s = Inr (e, s')" using assms by (auto simp: py_bind_Inr_iff)
  show ?thesis
  proof (cases "ref_hits tohost e")
    case True
    then obtain sz data where e: "re_store e = Some (tohost, sz, data)" by (auto simp: ref_hits_def)
    then have "data = 1" "es = [e]" using assms st by (auto simp: py_assert_def split: if_splits)
    then show ?thesis using that(1) st True e by blast
  next
    case False
    then have "py_bind (rf_run n tohost (Suc k) s') (\<lambda>es. Inr (e # es)) = Inr es"
      using assms st by (auto simp: ref_hits_def split: option.splits if_splits)
    then show ?thesis using that(2) [OF st False] by (auto simp: py_bind_Inr_iff)
  qed
qed

text \<open>A run that returns has executed the machine step by step up to its first store to the host mailbox, within
  200000 instructions, and that store wrote 1: the self-check passed.\<close>

theorem ref_run_passes:
  assumes "rf_run n tohost k s = Inr es"
  shows "ref_trace s k es \<and> es \<noteq> [] \<and> length es \<le> n \<and> (\<exists>sz. re_store (last es) = Some (tohost, sz, 1)) \<and>
    (\<forall>e \<in> set (butlast es). \<not> ref_hits tohost e)"
  using assms
proof (induction n arbitrary: k s es)
  case 0
  then show ?case by simp
next
  case (Suc n)
  from Suc.prems show ?case
  proof (cases rule: rf_run_Suc)
    case (1 e s')
    then show ?thesis using ref_trace_Cons [OF 1(1), of "[]"] by (simp add: ref_trace_def)
  next
    case (2 e s' es')
    then show ?thesis using Suc.IH [OF 2(3)] ref_trace_Cons [OF 2(1)] by auto
  qed
qed

text \<open>A program of two instructions: set a register to 1, store it to address 0.\<close>

definition ref_demo_pass :: ref_state where
  "ref_demo_pass = \<lparr>rf_pc = 0x100, rf_regs = replicate 32 0, rf_mem = rf_image 0x100 [0x00100113, 0x00203023]\<rparr>"

lemma ref_demo_run: "rf_run 10 0 0 ref_demo_pass =
    Inr [\<lparr>re_order = 0, re_pc = 0x100, re_inst = 0x00100113, re_store = None\<rparr>,
         \<lparr>re_order = 1, re_pc = 0x104, re_inst = 0x00203023, re_store = Some (0, 8, 1)\<rparr>]"
  by code_simp

theorem ref_run_passes_witness:
  "ref_trace ref_demo_pass 0
     [\<lparr>re_order = 0, re_pc = 0x100, re_inst = 0x00100113, re_store = None\<rparr>,
      \<lparr>re_order = 1, re_pc = 0x104, re_inst = 0x00203023, re_store = Some (0, 8, 1)\<rparr>]"
  using ref_run_passes [OF ref_demo_run] by blast

end
