(* ===== verification/Watchdog.thy ===== *)
theory Watchdog
  imports Clocked
begin

text \<open>
  The hang detector of the debug probes, \<open>litex_wrapper/o3/ila.py\<close>: hardware described in Python, one
  clocked step per call of \<open>wd_step\<close>. Its fifteen sticky reasons are the run of cycles without a
  retirement, the stall of each of the ten bus channels, and the age of the four outstanding
  responses. The locale \<open>run_counter\<close> is the contract of one reason: a saturating counter of
  consecutive cycles and a sticky bit raised when the run reaches the threshold.
\<close>

section \<open>Inputs and state\<close>

datatype axi_channel = CH_AR | CH_AW | CH_W | CH_R | CH_B

record wd_bus =
  wb_valid :: "axi_channel \<Rightarrow> bool"
  wb_ready :: "axi_channel \<Rightarrow> bool"
  wb_last :: bool

record wd_input =
  wi_retire_valid :: nat
  wi_retire_pc :: nat
  wi_retire_inst :: nat
  wi_memory :: wd_bus
  wi_mmio :: wd_bus

record wd_state =
  wd_hang :: bool
  wd_reasons :: "bool list"
  wd_seen_retire :: bool
  wd_no_retire :: nat
  wd_last_pc :: nat
  wd_last_inst :: nat
  wd_stalls :: "nat list"
  wd_pending :: "bool list"
  wd_ages :: "nat list"

definition wd_reset :: wd_state where
  "wd_reset = \<lparr>wd_hang = False, wd_reasons = replicate 15 False, wd_seen_retire = False, wd_no_retire = 0,
     wd_last_pc = 0, wd_last_inst = 0, wd_stalls = replicate 10 0, wd_pending = replicate 4 False,
     wd_ages = replicate 4 0\<rparr>"

text \<open>The constructor refuses a threshold below two.\<close>

definition wd_init :: "int \<Rightarrow> wd_state py" where
  "wd_init threshold = (if threshold < 2 then Inl ValueError else Inr wd_reset)"

section \<open>One cycle\<close>

definition wd_channels :: "wd_input \<Rightarrow> (wd_bus \<times> axi_channel) list" where
  "wd_channels i = concat (map (\<lambda>bus. map (Pair bus) [CH_AR, CH_AW, CH_W, CH_R, CH_B]) [wi_memory i, wi_mmio i])"

definition wd_stalled :: "wd_bus \<times> axi_channel \<Rightarrow> bool" where
  "wd_stalled p = (case p of (bus, ch) \<Rightarrow> wb_valid bus ch \<and> \<not> wb_ready bus ch)"

definition wd_fires :: "wd_bus \<Rightarrow> axi_channel \<Rightarrow> bool" where
  "wd_fires bus ch \<longleftrightarrow> wb_valid bus ch \<and> wb_ready bus ch"

text \<open>The four request and response pairs: has the request been taken, is the response finished; only the
  memory read needs its last beat.\<close>

definition wd_pairs :: "wd_input \<Rightarrow> (bool \<times> bool) list" where
  "wd_pairs i =
     [(wd_fires (wi_memory i) CH_AR, wd_fires (wi_memory i) CH_R \<and> wb_last (wi_memory i)),
      (wd_fires (wi_memory i) CH_AW, wd_fires (wi_memory i) CH_B),
      (wd_fires (wi_mmio i) CH_AR, wd_fires (wi_mmio i) CH_R),
      (wd_fires (wi_mmio i) CH_AW, wd_fires (wi_mmio i) CH_B)]"

definition wd_triggers :: "nat \<Rightarrow> wd_state \<Rightarrow> wd_input \<Rightarrow> bool list" where
  "wd_triggers threshold s i =
     [wi_retire_valid i = 0 \<and> wd_no_retire s \<ge> threshold - 1]
     @ map (\<lambda>(ch, counter). wd_stalled ch \<and> counter \<ge> threshold - 1) (zip (wd_channels i) (wd_stalls s))
     @ map (\<lambda>((req, finish), pending, age). pending \<and> \<not> finish \<and> age \<ge> threshold - 1)
         (zip (wd_pairs i) (zip (wd_pending s) (wd_ages s)))"

text \<open>\<open>xs[64*lane:64*(lane+1)]\<close> of a signal; a later lane overrides an earlier one.\<close>

definition wd_lane :: "nat \<Rightarrow> nat \<Rightarrow> nat \<Rightarrow> nat" where
  "wd_lane w x lane = take_bit w (drop_bit (w * lane) x)"

definition wd_latch :: "nat \<Rightarrow> nat \<Rightarrow> nat \<Rightarrow> nat \<Rightarrow> nat" where
  "wd_latch w valid x old = fold (\<lambda>lane cur. if bit valid lane then wd_lane w x lane else cur) [0..<4] old"

definition wd_stall_next :: "nat \<Rightarrow> bool \<Rightarrow> nat \<Rightarrow> nat" where
  "wd_stall_next threshold stalled counter =
     (if \<not> stalled then 0 else if counter < threshold then counter + 1 else counter)"

text \<open>Of several assignments in one cycle the last one counts; every condition reads the old values.\<close>

definition wd_pending_next :: "bool \<times> bool \<Rightarrow> bool \<Rightarrow> bool" where
  "wd_pending_next rf pending = (if snd rf then False else if fst rf then True else pending)"

definition wd_age_next :: "nat \<Rightarrow> bool \<times> bool \<Rightarrow> bool \<Rightarrow> nat \<Rightarrow> nat" where
  "wd_age_next threshold rf pending age =
     (if snd rf then 0 else if pending \<and> \<not> snd rf \<and> age < threshold then age + 1 else if fst rf then 0 else age)"

definition wd_step :: "nat \<Rightarrow> wd_state \<Rightarrow> wd_input \<Rightarrow> wd_state" where
  "wd_step threshold s i = (let trig = wd_triggers threshold s i; v = wi_retire_valid i in
     \<lparr>wd_hang = (if True \<in> set trig then True else wd_hang s),
      wd_reasons = map2 (\<or>) (wd_reasons s) trig,
      wd_seen_retire = (if v \<noteq> 0 then True else wd_seen_retire s),
      wd_no_retire = (if v \<noteq> 0 then 0 else if wd_no_retire s < threshold then wd_no_retire s + 1 else wd_no_retire s),
      wd_last_pc = wd_latch 64 v (wi_retire_pc i) (wd_last_pc s),
      wd_last_inst = wd_latch 32 v (wi_retire_inst i) (wd_last_inst s),
      wd_stalls = map2 (\<lambda>ch. wd_stall_next threshold (wd_stalled ch)) (wd_channels i) (wd_stalls s),
      wd_pending = map2 wd_pending_next (wd_pairs i) (wd_pending s),
      wd_ages = map2 (\<lambda>rf (p, a). wd_age_next threshold rf p a) (wd_pairs i) (zip (wd_pending s) (wd_ages s))\<rparr>)"

text \<open>The names of the reasons, in the order of their bits.\<close>

definition wd_reason_names :: "string list" where
  "wd_reason_names = [''no_retire'']
     @ concat (map (\<lambda>bus. map (\<lambda>ch. bus @ ''_'' @ ch @ ''_stall'') [''ar'', ''aw'', ''w'', ''r'', ''b'']) [''memory'', ''mmio''])
     @ concat (map (\<lambda>bus. map (\<lambda>ch. bus @ ''_'' @ ch @ ''_timeout'') [''r'', ''b'']) [''memory'', ''mmio''])"

section \<open>The contract of one reason\<close>

locale run_counter =
  fixes step :: "'s \<Rightarrow> 'i \<Rightarrow> 's"
    and init :: 's
    and inv :: "'s \<Rightarrow> bool"
    and cond :: "'s \<Rightarrow> 'i \<Rightarrow> bool"
    and cnt :: "'s \<Rightarrow> nat"
    and flag :: "'s \<Rightarrow> bool"
    and th :: nat
  assumes th_pos: "0 < th"
    and inv_init: "inv init"
    and inv_step: "inv s \<Longrightarrow> inv (step s i)"
    and cnt_init: "cnt init = 0"
    and flag_init: "\<not> flag init"
    and cnt_step: "inv s \<Longrightarrow> \<not> flag s \<Longrightarrow> cnt (step s i) = (if cond s i then min th (cnt s + 1) else 0)"
    and flag_step: "inv s \<Longrightarrow> flag (step s i) \<longleftrightarrow> flag s \<or> cond s i \<and> th - 1 \<le> cnt s"
begin

definition run :: "'i list \<Rightarrow> 's" where
  "run is = foldl step init is"

text \<open>The condition in cycle \<open>k\<close> of a run.\<close>

definition held :: "'i list \<Rightarrow> nat \<Rightarrow> bool" where
  "held is k \<longleftrightarrow> cond (run (take k is)) (is ! k)"

lemma run_snoc: "run (is @ [i]) = step (run is) i"
  by (simp add: run_def)

lemma held_snoc: "k < length is \<Longrightarrow> held (is @ [i]) k = held is k"
  by (simp add: held_def nth_append)

lemma held_last: "held (is @ [i]) (length is) = cond (run is) i"
  by (simp add: held_def)

lemma run_inv: "inv (run is)"
  by (induction "is" rule: rev_induct) (simp_all add: run_def inv_init inv_step)

lemma flag_snoc: "\<not> flag (run (is @ [i])) \<Longrightarrow> \<not> flag (run is)"
  using run_inv [of "is"] by (simp add: run_snoc flag_step)

text \<open>Until the flag is up the counter is the length of the current run of cycles.\<close>

lemma cnt_run:
  "n \<le> th \<Longrightarrow> \<not> flag (run is) \<Longrightarrow> n \<le> cnt (run is) \<longleftrightarrow> n \<le> length is \<and> (\<forall>k. length is - n \<le> k \<longrightarrow> k < length is \<longrightarrow> held is k)"
proof (induction "is" arbitrary: n rule: rev_induct)
  case Nil
  then show ?case by (auto simp: run_def cnt_init)
next
  case (snoc i "is")
  show ?case
  proof (cases n)
    case 0
    then show ?thesis by simp
  next
    case (Suc m)
    have all: "(\<forall>k. length (is @ [i]) - n \<le> k \<longrightarrow> k < length (is @ [i]) \<longrightarrow> held (is @ [i]) k) \<longleftrightarrow>
        cond (run is) i \<and> (\<forall>k. length is - m \<le> k \<longrightarrow> k < length is \<longrightarrow> held is k)"
      using Suc by (auto simp: less_Suc_eq held_snoc held_last dest: spec [of _ "length is"])
    have "n \<le> cnt (run (is @ [i])) \<longleftrightarrow> cond (run is) i \<and> m \<le> cnt (run is)"
      using Suc snoc.prems run_inv [of "is"] flag_snoc [OF snoc.prems(2)] by (auto simp: run_snoc cnt_step)
    then show ?thesis using snoc.IH [of m] snoc.prems flag_snoc [OF snoc.prems(2)] Suc all by auto
  qed
qed

text \<open>The flag is up exactly when some \<open>th\<close> consecutive cycles satisfied the condition.\<close>

lemma flag_run: "flag (run is) \<longleftrightarrow> (\<exists>t. t + th \<le> length is \<and> (\<forall>k < th. held is (t + k)))"
proof (induction "is" rule: rev_induct)
  case Nil
  show ?case using th_pos by (simp add: run_def flag_init)
next
  case (snoc i "is")
  let ?n = "length is"
  have window: "cond (run is) i \<and> th - 1 \<le> cnt (run is) \<longleftrightarrow>
      (\<exists>t. t + th = Suc ?n \<and> (\<forall>k < th. held (is @ [i]) (t + k)))" if f: "\<not> flag (run is)"
  proof
    assume c: "cond (run is) i \<and> th - 1 \<le> cnt (run is)"
    then have l: "th - 1 \<le> ?n" and h: "\<forall>k. ?n - (th - 1) \<le> k \<longrightarrow> k < ?n \<longrightarrow> held is k"
      using cnt_run [of "th - 1" "is"] f by auto
    have "held (is @ [i]) (?n - (th - 1) + k)" if "k < th" for k
    proof (cases "?n - (th - 1) + k < ?n")
      case True
      then show ?thesis using h by (simp add: held_snoc)
    next
      case False
      then have "?n - (th - 1) + k = ?n" using that l by simp
      then show ?thesis using c held_last [of "is" i] by simp
    qed
    then show "\<exists>t. t + th = Suc ?n \<and> (\<forall>k < th. held (is @ [i]) (t + k))"
      using l th_pos by (intro exI [of _ "?n - (th - 1)"]) auto
  next
    assume "\<exists>t. t + th = Suc ?n \<and> (\<forall>k < th. held (is @ [i]) (t + k))"
    then obtain t where t: "t + th = Suc ?n" "\<And>k. k < th \<Longrightarrow> held (is @ [i]) (t + k)" by auto
    have "held is k" if "?n - (th - 1) \<le> k" "k < ?n" for k
      using t(2) [of "k - t"] that t(1) held_snoc [of k "is" i] by auto
    moreover have "held (is @ [i]) ?n" using t(2) [of "th - 1"] t(1) th_pos by (metis Suc_pred add_Suc_right diff_Suc_1 lessI)
    ultimately show "cond (run is) i \<and> th - 1 \<le> cnt (run is)"
      using cnt_run [of "th - 1" "is"] f t(1) th_pos held_last [of "is" i] by auto
  qed
  have split: "(\<exists>t. t + th \<le> Suc ?n \<and> P t) \<longleftrightarrow> (\<exists>t. t + th \<le> ?n \<and> P t) \<or> (\<exists>t. t + th = Suc ?n \<and> P t)" for P
    by (auto simp: le_Suc_eq)
  have old: "(\<forall>k < th. held (is @ [i]) (t + k)) \<longleftrightarrow> (\<forall>k < th. held is (t + k))" if "t + th \<le> ?n" for t
    using that by (auto simp: held_snoc)
  show ?case
    using snoc.IH window old run_inv [of "is"] by (cases "flag (run is)") (auto simp: run_snoc flag_step split)
qed

end

section \<open>The fifteen reasons keep the contract\<close>

text \<open>
  Every state has the widths of the signals, and an age is zero unless its response is outstanding. A second
  request taken while a response is outstanding can only restart an age that has reached the
  threshold, and then the reason is already up.
\<close>

definition wd_inv :: "nat \<Rightarrow> wd_state \<Rightarrow> bool" where
  "wd_inv threshold s \<longleftrightarrow> 0 < threshold \<and> length (wd_reasons s) = 15 \<and> length (wd_stalls s) = 10 \<and> length (wd_pending s) = 4 \<and>
     length (wd_ages s) = 4 \<and> wd_no_retire s \<le> threshold \<and> (\<forall>c \<in> set (wd_stalls s). c \<le> threshold) \<and>
     (\<forall>k < 4. wd_ages s ! k \<le> threshold \<and> (wd_pending s ! k \<or> wd_ages s ! k = 0) \<and>
        (wd_ages s ! k = threshold \<longrightarrow> wd_reasons s ! (k + 11))) \<and>
     (wd_hang s \<longleftrightarrow> True \<in> set (wd_reasons s))"

lemma wd_channels_length [simp]: "length (wd_channels i) = 10"
  by (simp add: wd_channels_def)

lemma wd_pairs_length [simp]: "length (wd_pairs i) = 4"
  by (simp add: wd_pairs_def)

lemma wd_triggers_length: "wd_inv th s \<Longrightarrow> length (wd_triggers th s i) = 15"
  by (simp add: wd_triggers_def wd_inv_def)

lemma wd_inv_reset: "0 < th \<Longrightarrow> wd_inv th wd_reset"
  by (simp add: wd_inv_def wd_reset_def)

lemma map2_or_True: "length xs = length ys \<Longrightarrow> True \<in> set (map2 (\<or>) xs ys) \<longleftrightarrow> True \<in> set xs \<or> True \<in> set ys"
  by (induction xs ys rule: list_induct2) auto

lemma wd_stall_next_eq: "c \<le> th \<Longrightarrow> wd_stall_next th b c = (if b then min th (c + 1) else 0)"
  by (simp add: wd_stall_next_def)

lemma wd_stalls_le: "wd_inv th s \<Longrightarrow> k < 10 \<Longrightarrow> wd_stalls s ! k \<le> th"
  by (simp add: wd_inv_def)

text \<open>The condition of each reason, from the state and the inputs of a cycle.\<close>

definition wd_cond :: "nat \<Rightarrow> wd_state \<Rightarrow> wd_input \<Rightarrow> bool" where
  "wd_cond r s i =
     (if r = 0 then wi_retire_valid i = 0
      else if r \<le> 10 then wd_stalled (wd_channels i ! (r - 1))
      else wd_pending s ! (r - 11) \<and> \<not> snd (wd_pairs i ! (r - 11)))"

definition wd_count :: "nat \<Rightarrow> wd_state \<Rightarrow> nat" where
  "wd_count r s = (if r = 0 then wd_no_retire s else if r \<le> 10 then wd_stalls s ! (r - 1) else wd_ages s ! (r - 11))"

lemma wd_trigger_nth:
  assumes "wd_inv th s" "r < 15"
  shows "wd_triggers th s i ! r \<longleftrightarrow> wd_cond r s i \<and> th - 1 \<le> wd_count r s"
proof -
  consider "r = 0" | "0 < r" "r \<le> 10" | "10 < r" by linarith
  then show ?thesis
    using assms
    by cases (auto simp: wd_triggers_def wd_cond_def wd_count_def nth_append nth_Cons' wd_inv_def case_prod_beta)
qed

lemma wd_reason_step:
  assumes "wd_inv th s" "r < 15"
  shows "wd_reasons (wd_step th s i) ! r \<longleftrightarrow> wd_reasons s ! r \<or> wd_cond r s i \<and> th - 1 \<le> wd_count r s"
  using assms wd_triggers_length [OF assms(1)] wd_trigger_nth [OF assms]
  by (simp add: wd_step_def Let_def wd_inv_def)

lemma wd_inv_step:
  assumes "wd_inv th s"
  shows "wd_inv th (wd_step th s i)"
proof -
  let ?t = "wd_step th s i"
  have l: "length (wd_reasons s) = 15" "length (wd_stalls s) = 10" "length (wd_pending s) = 4" "length (wd_ages s) = 4"
    and trig: "length (wd_triggers th s i) = 15" and pos: "0 < th"
    using assms wd_triggers_length by (simp_all add: wd_inv_def)
  have "wd_no_retire ?t \<le> th" using assms by (simp add: wd_step_def Let_def wd_inv_def)
  moreover have "\<forall>c \<in> set (wd_stalls ?t). c \<le> th"
    using l wd_stalls_le [OF assms]
    by (auto simp: wd_step_def Let_def in_set_conv_nth wd_stall_next_eq)
  moreover have "wd_ages ?t ! k \<le> th \<and> (wd_pending ?t ! k \<or> wd_ages ?t ! k = 0) \<and> (wd_ages ?t ! k = th \<longrightarrow> wd_reasons ?t ! (k + 11))"
    if "k < 4" for k
  proof -
    have old: "wd_ages s ! k \<le> th" "wd_pending s ! k \<or> wd_ages s ! k = 0" "wd_ages s ! k = th \<longrightarrow> wd_reasons s ! (k + 11)"
      using assms that by (simp_all add: wd_inv_def)
    have age: "wd_ages ?t ! k = wd_age_next th (wd_pairs i ! k) (wd_pending s ! k) (wd_ages s ! k)"
      "wd_pending ?t ! k = wd_pending_next (wd_pairs i ! k) (wd_pending s ! k)"
      using that l by (simp_all add: wd_step_def Let_def)
    have "wd_reasons ?t ! (k + 11) \<longleftrightarrow> wd_reasons s ! (k + 11) \<or>
        wd_pending s ! k \<and> \<not> snd (wd_pairs i ! k) \<and> th - 1 \<le> wd_ages s ! k"
      using wd_reason_step [OF assms, of "k + 11" i] that by (simp add: wd_cond_def wd_count_def)
    then show ?thesis
      using old pos unfolding age by (auto simp: wd_pending_next_def wd_age_next_def)
  qed
  moreover have "wd_hang ?t \<longleftrightarrow> True \<in> set (wd_reasons ?t)"
    using assms l trig map2_or_True [of "wd_reasons s" "wd_triggers th s i"]
    by (simp add: wd_step_def Let_def wd_inv_def)
  ultimately show ?thesis
    using l trig pos by (simp add: wd_inv_def) (simp add: wd_step_def Let_def)
qed

lemma wd_count_step:
  assumes "wd_inv th s" "r < 15" "\<not> wd_reasons s ! r"
  shows "wd_count r (wd_step th s i) = (if wd_cond r s i then min th (wd_count r s + 1) else 0)"
proof -
  consider "r = 0" | "0 < r" "r \<le> 10" | "10 < r" by linarith
  then show ?thesis
  proof cases
    case 1
    then show ?thesis using assms by (auto simp: wd_count_def wd_cond_def wd_step_def Let_def wd_inv_def)
  next
    case 2
    then have "wd_stalls s ! (r - 1) \<le> th" using wd_stalls_le [OF assms(1)] by simp
    moreover have "length (wd_stalls s) = 10" using assms by (simp add: wd_inv_def)
    ultimately show ?thesis
      using 2 by (simp add: wd_count_def wd_cond_def wd_step_def Let_def wd_stall_next_eq)
  next
    case 3
    then have k: "r - 11 < 4" "r - 11 + 11 = r" using assms(2) by simp_all
    then have "wd_ages s ! (r - 11) < th" "wd_pending s ! (r - 11) \<or> wd_ages s ! (r - 11) = 0"
      using assms unfolding wd_inv_def by (metis le_neq_implies_less)+
    moreover have "wd_ages (wd_step th s i) ! (r - 11) =
        wd_age_next th (wd_pairs i ! (r - 11)) (wd_pending s ! (r - 11)) (wd_ages s ! (r - 11))"
      using k assms(1) by (simp add: wd_step_def Let_def wd_inv_def)
    ultimately show ?thesis
      using 3 by (auto simp: wd_count_def wd_cond_def wd_age_next_def)
  qed
qed

lemma wd_reset_nth: "r < 15 \<Longrightarrow> \<not> wd_reasons wd_reset ! r" "r < 15 \<Longrightarrow> wd_count r wd_reset = 0"
  by (auto simp: wd_reset_def wd_count_def)


text \<open>Each reason is a run counter: the model's step discharges the contract.\<close>

interpretation wd_counter: run_counter "wd_step (Suc n)" wd_reset "wd_inv (Suc n)" "wd_cond (r mod 15)"
    "wd_count (r mod 15)" "\<lambda>s. wd_reasons s ! (r mod 15)" "Suc n" for n r
  by unfold_locales (simp_all add: wd_inv_reset wd_inv_step wd_reset_nth wd_count_step wd_reason_step)

definition wd_run :: "nat \<Rightarrow> wd_input list \<Rightarrow> wd_state" where
  "wd_run threshold is = foldl (wd_step threshold) wd_reset is"

text \<open>The condition of a reason held in the \<open>threshold\<close> cycles from cycle \<open>t\<close> on.\<close>

definition wd_window :: "nat \<Rightarrow> wd_input list \<Rightarrow> nat \<Rightarrow> nat \<Rightarrow> bool" where
  "wd_window threshold is r t \<longleftrightarrow> t + threshold \<le> length is \<and>
     (\<forall>k < threshold. wd_cond r (wd_run threshold (take (t + k) is)) (is ! (t + k)))"

lemma wd_run_inv: "0 < th \<Longrightarrow> wd_inv th (wd_run th is)"
  using wd_counter.run_inv [of "th - 1"] unfolding wd_counter.run_def wd_run_def by simp

text \<open>C34: From reset, on every input sequence, a reason is up exactly when its condition held in that many
  consecutive cycles as the threshold says - no retirement, a stalled channel, or an outstanding response
  not finished - and a hang is reported exactly when some reason is up.\<close>

theorem watchdog_hang_iff:
  assumes "2 \<le> threshold"
  shows "(\<forall>r < 15. wd_reasons (wd_run threshold is) ! r \<longleftrightarrow> (\<exists>t. wd_window threshold is r t)) \<and>
    (wd_hang (wd_run threshold is) \<longleftrightarrow> (\<exists>r < 15. \<exists>t. wd_window threshold is r t))"
proof -
  obtain n where n: "threshold = Suc n" using assms by (cases threshold) auto
  have reason: "wd_reasons (wd_run threshold is) ! r \<longleftrightarrow> (\<exists>t. wd_window threshold is r t)" if "r < 15" for r
    using that wd_counter.flag_run [of n "is" r]
    unfolding wd_counter.run_def wd_counter.held_def wd_window_def wd_run_def n by simp
  have "wd_inv threshold (wd_run threshold is)" using assms by (intro wd_run_inv) simp
  then have "wd_hang (wd_run threshold is) \<longleftrightarrow> (\<exists>r < 15. wd_reasons (wd_run threshold is) ! r)"
    by (auto simp: wd_inv_def in_set_conv_nth)
  with reason show ?thesis by blast
qed

text \<open>An outstanding response: its request was taken in some cycle, and from then on it was not finished.\<close>

lemma wd_pending_iff:
  assumes "0 < th" "k < 4"
  shows "wd_pending (wd_run th is) ! k \<longleftrightarrow>
    (\<exists>j < length is. fst (wd_pairs (is ! j) ! k) \<and> (\<forall>m. j \<le> m \<longrightarrow> m < length is \<longrightarrow> \<not> snd (wd_pairs (is ! m) ! k)))"
proof (induction "is" rule: rev_induct)
  case Nil
  then show ?case using assms by (simp add: wd_run_def wd_reset_def)
next
  case (snoc i "is")
  have step: "wd_pending (wd_run th (is @ [i])) ! k = wd_pending_next (wd_pairs i ! k) (wd_pending (wd_run th is) ! k)"
    using wd_run_inv [OF assms(1), of "is"] assms(2) by (simp add: wd_run_def wd_step_def Let_def wd_inv_def)
  let ?f = "\<lambda>xs j. fst (wd_pairs (xs ! j) ! k)" and ?d = "\<lambda>xs m. snd (wd_pairs (xs ! m) ! k)"
  let ?n = "length is"
  have "(\<exists>j < Suc ?n. ?f (is @ [i]) j \<and> (\<forall>m. j \<le> m \<longrightarrow> m < Suc ?n \<longrightarrow> \<not> ?d (is @ [i]) m)) \<longleftrightarrow>
      \<not> snd (wd_pairs i ! k) \<and> (fst (wd_pairs i ! k) \<or>
        (\<exists>j < ?n. ?f is j \<and> (\<forall>m. j \<le> m \<longrightarrow> m < ?n \<longrightarrow> \<not> ?d is m)))" (is "?L \<longleftrightarrow> ?R")
  proof
    assume ?L
    then obtain j where j: "j \<le> ?n" "?f (is @ [i]) j" "\<And>m. j \<le> m \<Longrightarrow> m \<le> ?n \<Longrightarrow> \<not> ?d (is @ [i]) m"
      by (auto simp: less_Suc_eq_le)
    have "\<not> ?d is m" if "j \<le> m" "m < ?n" for m using j(3) [of m] that by (simp add: nth_append)
    moreover have "\<not> snd (wd_pairs i ! k)" using j(3) [of ?n] j(1) by simp
    moreover have "j < ?n \<Longrightarrow> ?f is j" "j = ?n \<Longrightarrow> fst (wd_pairs i ! k)" using j(2) by (simp_all add: nth_append)
    ultimately show ?R using j(1) by (metis le_neq_implies_less)
  next
    assume R: ?R
    show ?L
    proof (cases "fst (wd_pairs i ! k)")
      case True
      with R show ?thesis by (intro exI [of _ ?n]) (auto simp: less_Suc_eq_le)
    next
      case False
      with R obtain j where j: "j < ?n" "?f is j" "\<And>m. j \<le> m \<Longrightarrow> m < ?n \<Longrightarrow> \<not> ?d is m" by auto
      then show ?thesis using R by (intro exI [of _ j]) (auto simp: nth_append less_Suc_eq)
    qed
  qed
  then show ?case unfolding step wd_pending_next_def snoc.IH by simp
qed

text \<open>The saturating counters stay within the widths of their signals.\<close>

lemma wd_counters_bounded:
  assumes "0 < th"
  shows "wd_no_retire (wd_run th is) \<le> th \<and> (\<forall>c \<in> set (wd_stalls (wd_run th is)). c \<le> th) \<and>
    (\<forall>c \<in> set (wd_ages (wd_run th is)). c \<le> th)"
  using wd_run_inv [OF assms, of "is"] by (auto simp: wd_inv_def in_set_conv_nth)

definition wd_idle :: wd_input where
  "wd_idle = \<lparr>wi_retire_valid = 0, wi_retire_pc = 0, wi_retire_inst = 0,
     wi_memory = \<lparr>wb_valid = \<lambda>ch. False, wb_ready = \<lambda>ch. False, wb_last = False\<rparr>,
     wi_mmio = \<lparr>wb_valid = \<lambda>ch. False, wb_ready = \<lambda>ch. False, wb_last = False\<rparr>\<rparr>"

theorem watchdog_hang_iff_witness:
  "wd_hang (wd_run 3 [wd_idle, wd_idle, wd_idle, wd_idle\<lparr>wi_retire_valid := 2\<rparr>])"
proof -
  have "wd_window 3 [wd_idle, wd_idle, wd_idle, wd_idle\<lparr>wi_retire_valid := 2\<rparr>] 0 0"
    by (auto simp: wd_window_def wd_cond_def wd_idle_def less_Suc_eq numeral_3_eq_3)
  then show ?thesis
    using watchdog_hang_iff [of 3 "[wd_idle, wd_idle, wd_idle, wd_idle\<lparr>wi_retire_valid := 2\<rparr>]"]
    by (meson numeral_le_iff semiring_norm zero_less_numeral)
qed

text \<open>The registers hold the program counter and the word of the last lane of the last cycle that retired.\<close>

lemma wd_latch_eq:
  "wd_latch w valid x old =
     (if bit valid 3 then wd_lane w x 3 else if bit valid 2 then wd_lane w x 2
      else if bit valid 1 then wd_lane w x 1 else if bit valid 0 then wd_lane w x 0 else old)"
  by (simp add: wd_latch_def upt_rec numeral_2_eq_2 numeral_3_eq_3)

lemma wd_names: "distinct wd_reason_names \<and> length wd_reason_names = 15"
  by (simp add: wd_reason_names_def)

end
