(* ===== verification/Trace_Checks.thy ===== *)
theory Trace_Checks
  imports Clocked "HOL-Library.AList"
begin

text \<open>
  The offline checkers of retirement traces: the counter samples of \<open>sim/o3/check_l7_predict.py\<close> and
  \<open>sim/o3/check_l7c_frontend.py\<close>, the field comparison of \<open>sim/o3/check_trace.py\<close> and the layout
  comparison of \<open>sim/o3/check_l7_layout.py\<close>. A trace is the list of its JSON rows after reading; the
  number literals of a row (\<open>number\<close>) are integers here, a missing key is \<open>None\<close> and raises.
  Dictionaries are association lists. The locale \<open>sampler\<close> is what the two sample extractions share.
\<close>

section \<open>Rows\<close>

record trace_row =
  tw_type :: "string option"
  tw_format :: "string option"
  tw_version :: "int option"
  tw_pc :: "int option"
  tw_inst :: "int option"
  tw_csr_wdata :: "int option"
  tw_rd_wdata :: "int option"
  tw_mem_kind :: "string option"
  tw_mem_addr :: "int option"
  tw_mem_data :: "int option"
  tw_mem_size :: "int option"

definition ls_mask :: int where
  "ls_mask = push_bit 64 1 - 1"

section \<open>Counter samples: the prediction counters\<close>

definition l7_samples :: int where
  "l7_samples = 0x80100000"

datatype l7_group = GA | GB

fun l7_events :: "l7_group \<Rightarrow> string list" where
  "l7_events GA = [''UBTB_HIT'', ''SLOW_OVERRIDE'', ''PREDECODE_REDIRECT'', ''REDIRECT_EXEC'',
     ''CMT_REGION'', ''CMT_MISPRED_REGION'', ''UNUSED6'', ''UNUSED7'']"
| "l7_events GB = [''CMT_REGION'', ''FAST_OK_SLOW_OK'', ''FAST_OK_SLOW_BAD'', ''FAST_BAD_SLOW_OK'',
     ''FAST_BAD_SLOW_BAD'', ''REDIRECT_EXEC'', ''UNUSED6'', ''UNUSED7'']"

record l7_layout =
  ly_segments :: "(int \<times> int) list"
  ly_level1 :: int
  ly_final :: int

record l7_state =
  l7_snaps :: "int option list list"
  l7_markers :: "(int \<times> int) list"
  l7_read :: "(int \<times> int) option"
  l7_frozen :: bool
  l7_cfi :: "int list"

definition l7_start :: l7_state where
  "l7_start = \<lparr>l7_snaps = replicate 6 (replicate 8 None), l7_markers = [], l7_read = None,
     l7_frozen = False, l7_cfi = [0, 0, 0]\<rparr>"

definition l7_within :: "l7_layout \<Rightarrow> int \<Rightarrow> nat \<Rightarrow> bool" where
  "l7_within layout pc segment = (case ly_segments layout ! (segment - 1) of (lo, hi) \<Rightarrow>
     (lo \<le> pc \<and> pc < hi) \<or> (segment = 2 \<and> ly_level1 layout \<le> pc \<and> pc < ly_final layout))"

text \<open>The control transfers of the three segments.\<close>

definition l7_count :: "l7_layout \<Rightarrow> int \<Rightarrow> int \<Rightarrow> int list \<Rightarrow> int list" where
  "l7_count layout word pc cfi =
     (if word AND 0x7f \<in> {0x63, 0x6f, 0x67}
      then map (\<lambda>segment. if l7_within layout pc segment then cfi ! (segment - 1) + 1 else cfi ! (segment - 1)) [1, 2, 3]
      else cfi)"

text \<open>A counter-inhibit write and a read of a performance counter.\<close>

definition l7_csr :: "trace_row \<Rightarrow> int \<Rightarrow> l7_state \<Rightarrow> l7_state py" where
  "l7_csr r word s =
     (if word AND 0x7f = 0x73 then
        let addr = drop_bit 20 word; op = drop_bit 12 word AND 7 in
        py_bind (if addr = 0x320 \<and> op = 1
                 then py_bind (py_key (tw_csr_wdata r)) (\<lambda>v. Inr (s\<lparr>l7_frozen := (v AND 0x7f8 = 0x7f8)\<rparr>))
                 else Inr s) (\<lambda>s1.
          if 0xb03 \<le> addr \<and> addr \<le> 0xb0a \<and> op = 2 \<and> drop_bit 15 word AND 31 = 0
          then py_bind (py_assert (l7_frozen s1)) (\<lambda>_.
                 py_bind (py_key (tw_rd_wdata r)) (\<lambda>v. Inr (s1\<lparr>l7_read := Some (addr - 0xb03, v)\<rparr>)))
          else Inr s1)
      else Inr s)"

definition snap_put :: "'a option list list \<Rightarrow> nat \<Rightarrow> nat \<Rightarrow> 'a \<Rightarrow> 'a option list list" where
  "snap_put snaps row col v = snaps[row := (snaps ! row)[col := Some v]]"

definition l7_store :: "trace_row \<Rightarrow> l7_state \<Rightarrow> l7_state py" where
  "l7_store r s =
     py_bind (py_key (tw_mem_addr r)) (\<lambda>addr. py_bind (py_key (tw_mem_data r)) (\<lambda>v.
       if l7_samples \<le> addr \<and> addr < l7_samples + 384 then
         py_bind (py_key (tw_mem_size r)) (\<lambda>sz.
         py_bind (py_assert (sz = 8 \<and> addr mod 8 = 0)) (\<lambda>_.
           let n = (addr - l7_samples) div 8; row = nat (n div 8); col = nat (n mod 8) in
           py_bind (py_assert (l7_snaps s ! row ! col = None)) (\<lambda>_.
           py_bind (py_assert (l7_read s = Some (n mod 8, v))) (\<lambda>_.
             Inr (s\<lparr>l7_snaps := snap_put (l7_snaps s) row col v, l7_read := None\<rparr>)))))
       else if l7_samples + 384 \<le> addr \<and> addr < l7_samples + 408
       then Inr (s\<lparr>l7_markers := AList.update ((addr - l7_samples - 384) div 8) v (l7_markers s)\<rparr>)
       else Inr s))"

definition l7_record :: "l7_layout \<Rightarrow> l7_state \<Rightarrow> trace_row \<Rightarrow> l7_state py" where
  "l7_record layout s r =
     py_bind (py_key (tw_type r)) (\<lambda>t. py_bind (py_assert (t = ''retire'')) (\<lambda>_.
     py_bind (py_key (tw_inst r)) (\<lambda>word. py_bind (py_key (tw_pc r)) (\<lambda>pc.
     py_bind (l7_csr r word (s\<lparr>l7_cfi := l7_count layout word pc (l7_cfi s)\<rparr>)) (\<lambda>s1.
     py_bind (py_key (tw_mem_kind r)) (\<lambda>kind. if kind \<noteq> ''store'' then Inr s1 else l7_store r s1))))))"

text \<open>A leading header row is checked and dropped.\<close>

definition l7_header :: "trace_row list \<Rightarrow> trace_row list py" where
  "l7_header trace = (case trace of [] \<Rightarrow> Inr [] | h # rest \<Rightarrow>
     py_bind (py_key (tw_type h)) (\<lambda>t. if t = ''header'' then
       py_bind (py_key (tw_format h)) (\<lambda>f. py_bind (py_assert (f = ''cislc-o3-tandem'')) (\<lambda>_.
       py_bind (py_key (tw_version h)) (\<lambda>v. py_bind (py_assert (v = 2)) (\<lambda>_. Inr rest))))
     else Inr trace))"

definition stores_one :: "trace_row \<Rightarrow> bool" where
  "stores_one r \<longleftrightarrow> tw_mem_kind r = Some ''store'' \<and> tw_mem_addr r = Some 0x801ff000 \<and> tw_mem_data r = Some 1"

definition snap_delta :: "int option list \<Rightarrow> int option list \<Rightarrow> int list" where
  "snap_delta xs ys = map2 (\<lambda>a b. (the b - the a) AND ls_mask) xs ys"

definition l7_deltas :: "l7_group \<Rightarrow> int option list list \<Rightarrow> (string \<times> int) list list" where
  "l7_deltas g snaps = map (\<lambda>k. zip (l7_events g) (snap_delta (snaps ! (2 * k)) (snaps ! (2 * k + 1)))) [0..<3]"

definition l7_value :: "(string \<times> int) list \<Rightarrow> string \<Rightarrow> int py" where
  "l7_value values name = py_key (map_of values name)"

fun l7_all :: "('a \<Rightarrow> unit py) \<Rightarrow> 'a list \<Rightarrow> unit py" where
  "l7_all f [] = Inr ()"
| "l7_all f (x # xs) = py_bind (f x) (\<lambda>_. l7_all f xs)"

definition l7_unused :: "(string \<times> int) list \<Rightarrow> unit py" where
  "l7_unused values = py_bind (l7_value values ''UNUSED6'') (\<lambda>a. py_bind (l7_value values ''UNUSED7'') (\<lambda>b.
     py_assert (a = b \<and> b = 0)))"

definition l7_classified :: "(string \<times> int) list \<Rightarrow> unit py" where
  "l7_classified values =
     py_bind (l7_value values ''FAST_OK_SLOW_OK'') (\<lambda>a. py_bind (l7_value values ''FAST_OK_SLOW_BAD'') (\<lambda>b.
     py_bind (l7_value values ''FAST_BAD_SLOW_OK'') (\<lambda>c. py_bind (l7_value values ''FAST_BAD_SLOW_BAD'') (\<lambda>d.
     py_bind (l7_value values ''CMT_REGION'') (\<lambda>total. py_assert (a + b + c + d = total))))))"

definition l7_performance :: "(string \<times> int) list list \<Rightarrow> (int \<times> int) list \<Rightarrow> unit py" where
  "l7_performance deltas markers =
     py_bind (py_assert (set (map fst markers) = {0, 1, 2})) (\<lambda>_.
     py_bind (l7_value (deltas ! 0) ''REDIRECT_EXEC'') (\<lambda>a. py_bind (l7_value (deltas ! 1) ''REDIRECT_EXEC'') (\<lambda>b.
     py_bind (l7_value (deltas ! 2) ''SLOW_OVERRIDE'') (\<lambda>c.
       py_assert (map (map_of markers) [0, 1, 2] = [Some (of_bool (a * 4 < 2001)), Some (of_bool (b * 4 < 2500)), Some (of_bool (c > 0))])))))"

record l7_result =
  lr_deltas :: "(string \<times> int) list list"
  lr_markers :: "(int \<times> int) list"
  lr_retired :: nat
  lr_cfi :: "int list"

definition l7_extract :: "l7_group \<Rightarrow> l7_layout \<Rightarrow> trace_row list \<Rightarrow> l7_result py" where
  "l7_extract g layout rows =
     py_bind (l7_header rows) (\<lambda>trace.
     py_bind (py_run (l7_record layout) l7_start trace) (\<lambda>s.
     py_bind (py_assert (\<forall>row \<in> set (l7_snaps s). \<forall>v \<in> set row. v \<noteq> None)) (\<lambda>_.
     py_bind (py_assert (take 2 (l7_cfi s) = [2001, 2500])) (\<lambda>_.
     py_bind (py_assert (list_ex stores_one trace)) (\<lambda>_.
       let deltas = l7_deltas g (l7_snaps s) in
       py_bind (l7_all l7_unused deltas) (\<lambda>_.
       py_bind (case g of GB \<Rightarrow> l7_all l7_classified deltas | GA \<Rightarrow> l7_performance deltas (l7_markers s)) (\<lambda>_.
         Inr \<lparr>lr_deltas = deltas, lr_markers = l7_markers s, lr_retired = length trace, lr_cfi = l7_cfi s\<rparr>)))))))"

definition l7_compare :: "l7_result \<Rightarrow> l7_result \<Rightarrow> unit py" where
  "l7_compare a b = l7_all (\<lambda>(segment, event).
     py_bind (l7_value (lr_deltas a ! segment) event) (\<lambda>x. py_bind (l7_value (lr_deltas b ! segment) event) (\<lambda>y.
       py_assert (x = y))))
     [(segment, event). segment \<leftarrow> [0..<3], event \<leftarrow> [''CMT_REGION'', ''REDIRECT_EXEC'']]"


section \<open>Counter samples: the frontend counters\<close>

definition l7c_events :: "nat \<Rightarrow> string list" where
  "l7c_events segment = [
     [''COND_BR'', ''COND_MISPRED'', ''TAGE_WRONG'', ''LOOP_USED'', ''LOOP_WRONG'', ''CMT_REGION'', ''TRAIN_STALL'', ''UNUSED'', ''cycles''],
     [''DEMAND_MISS'', ''PF_ISSUED'', ''PF_USEFUL'', ''PF_LATE'', ''PF_UNUSED'', ''PF_THROTTLED'', ''PF_XLATE_MISS'', ''PF_CANDIDATE'', ''cycles''],
     [''CMT_REGION'', ''TRAIN_STALL'', ''FTQ_FULL'', ''RQ_FULL'', ''DELIVER_LT4'', ''BACKPRESSURE'', ''RQ_WAIT_DATA'', ''ZOMBIE'', ''cycles'']] ! segment"

record l7c_state =
  lc_samples :: "int option list list"
  lc_read :: "(int \<times> int) option"
  lc_frozen :: bool
  lc_passed :: bool
  lc_retired :: nat

definition l7c_start :: l7c_state where
  "l7c_start = \<lparr>lc_samples = replicate 6 (replicate 9 None), lc_read = None, lc_frozen = False, lc_passed = False, lc_retired = 0\<rparr>"

definition l7c_csr :: "trace_row \<Rightarrow> int \<Rightarrow> l7c_state \<Rightarrow> l7c_state py" where
  "l7c_csr r w s =
     (if w AND 127 = 0x73 then
        let csr = drop_bit 20 w; op = drop_bit 12 w AND 7 in
        py_bind (if csr = 0x320 \<and> op = 1
                 then py_bind (py_key (tw_csr_wdata r)) (\<lambda>v. Inr (s\<lparr>lc_frozen := (v AND 0x7f8 = 0x7f8)\<rparr>))
                 else Inr s) (\<lambda>s1.
          if (0xb03 \<le> csr \<and> csr \<le> 0xb0a \<or> csr = 0xb00) \<and> op = 2 \<and> drop_bit 15 w AND 31 = 0
          then py_bind (py_assert (lc_frozen s1)) (\<lambda>_.
                 py_bind (py_key (tw_rd_wdata r)) (\<lambda>v.
                   Inr (s1\<lparr>lc_read := Some (if csr = 0xb00 then 8 else csr - 0xb03, v)\<rparr>)))
          else Inr s1)
      else Inr s)"

definition l7c_store :: "trace_row \<Rightarrow> l7c_state \<Rightarrow> l7c_state py" where
  "l7c_store r s =
     py_bind (py_key (tw_mem_addr r)) (\<lambda>addr. py_bind (py_key (tw_mem_data r)) (\<lambda>v.
     py_bind (if l7_samples \<le> addr \<and> addr < l7_samples + 432 then
         let n = (addr - l7_samples) div 8; row = nat (n div 9); col = nat (n mod 9) in
         py_bind (py_assert (addr mod 8 = 0)) (\<lambda>_. py_bind (py_key (tw_mem_size r)) (\<lambda>sz.
         py_bind (py_assert (sz = 8 \<and> lc_read s = Some (n mod 9, v) \<and> lc_samples s ! row ! col = None)) (\<lambda>_.
           Inr (s\<lparr>lc_samples := snap_put (lc_samples s) row col v, lc_read := None\<rparr>))))
       else Inr s) (\<lambda>s1.
     if addr = 0x801ff000 then py_bind (py_assert (v = 1)) (\<lambda>_. Inr (s1\<lparr>lc_passed := True\<rparr>)) else Inr s1)))"

definition l7c_record :: "l7c_state \<Rightarrow> trace_row \<Rightarrow> l7c_state py" where
  "l7c_record s r =
     py_bind (py_key (tw_type r)) (\<lambda>t. if t = ''header'' then Inr s else
     py_bind (py_assert (t = ''retire'')) (\<lambda>_.
     py_bind (py_key (tw_inst r)) (\<lambda>w.
     py_bind (l7c_csr r w (s\<lparr>lc_retired := lc_retired s + 1\<rparr>)) (\<lambda>s1.
     py_bind (py_key (tw_mem_kind r)) (\<lambda>kind. if kind = ''store'' then l7c_store r s1 else Inr s1)))))"

definition l7c_deltas :: "int option list list \<Rightarrow> (string \<times> int) list list" where
  "l7c_deltas snaps = map (\<lambda>k. zip (l7c_events k) (snap_delta (snaps ! (2 * k)) (snaps ! (2 * k + 1)))) [0..<3]"

definition l7c_off :: "(string \<times> int) list list \<Rightarrow> unit py" where
  "l7c_off res =
     py_bind (l7_value (res ! 0) ''LOOP_USED'') (\<lambda>a. py_bind (l7_value (res ! 0) ''LOOP_WRONG'') (\<lambda>b.
     py_bind (py_assert (a = b \<and> b = 0)) (\<lambda>_.
       l7_all (\<lambda>e. py_bind (l7_value (res ! 1) e) (\<lambda>x. py_assert (x = 0)))
         (filter (\<lambda>e. take 3 e = ''PF_'') (l7c_events 1)))))"

definition l7c_extract :: "bool \<Rightarrow> trace_row list \<Rightarrow> ((string \<times> int) list list \<times> nat) py" where
  "l7c_extract off rows =
     py_bind (py_run l7c_record l7c_start rows) (\<lambda>s.
     py_bind (py_assert (lc_passed s \<and> (\<forall>row \<in> set (lc_samples s). \<forall>x \<in> set row. x \<noteq> None))) (\<lambda>_.
       let res = l7c_deltas (lc_samples s) in
       py_bind (l7_value (res ! 0) ''COND_BR'') (\<lambda>c. py_bind (l7_value (res ! 0) ''UNUSED'') (\<lambda>u.
       py_bind (py_assert (c \<ge> 12000 \<and> u = 0)) (\<lambda>_.
       py_bind (if off then l7c_off res else Inr ()) (\<lambda>_. Inr (res, lc_retired s)))))))"

section \<open>What the two extractions share\<close>

text \<open>
  What a row means to both: the write of the counter inhibit register (\<open>row_freezes\<close>: are the event counters now
  stopped), the read of a counter (\<open>row_reads\<close>, with the number \<open>ctr\<close> gives a CSR address) and the store
  into the sample area of \<open>6 * cols\<close> words (\<open>row_sample\<close>).
\<close>

definition row_csr :: "trace_row \<Rightarrow> (int \<times> int \<times> int) option" where
  "row_csr r = (case tw_inst r of None \<Rightarrow> None
     | Some w \<Rightarrow> if w AND 0x7f = 0x73 then Some (drop_bit 20 w, drop_bit 12 w AND 7, drop_bit 15 w AND 31) else None)"

definition row_freezes :: "trace_row \<Rightarrow> bool option" where
  "row_freezes r = (case row_csr r of None \<Rightarrow> None
     | Some (addr, op, rs) \<Rightarrow> if addr = 0x320 \<and> op = 1 then map_option (\<lambda>v. v AND 0x7f8 = 0x7f8) (tw_csr_wdata r) else None)"

definition row_reads :: "(int \<Rightarrow> int option) \<Rightarrow> trace_row \<Rightarrow> (int \<times> int) option" where
  "row_reads ctr r = (case row_csr r of None \<Rightarrow> None
     | Some (addr, op, rs) \<Rightarrow> if op = 2 \<and> rs = 0 then
         (case ctr addr of None \<Rightarrow> None | Some c \<Rightarrow> map_option (Pair c) (tw_rd_wdata r)) else None)"

definition row_sample :: "int \<Rightarrow> trace_row \<Rightarrow> (nat \<times> nat \<times> int) option" where
  "row_sample cols r = (case (tw_mem_addr r, tw_mem_data r) of
     (Some addr, Some v) \<Rightarrow> if tw_mem_kind r = Some ''store'' \<and> l7_samples \<le> addr \<and> addr < l7_samples + 48 * cols
       then let n = (addr - l7_samples) div 8 in Some (nat (n div cols), nat (n mod cols), v) else None
   | _ \<Rightarrow> None)"

definition hpm_counter :: "int \<Rightarrow> int option" where
  "hpm_counter addr = (if 0xb03 \<le> addr \<and> addr \<le> 0xb0a then Some (addr - 0xb03) else None)"

definition hpm_or_cycle :: "int \<Rightarrow> int option" where
  "hpm_or_cycle addr = (if addr = 0xb00 then Some 8 else hpm_counter addr)"

text \<open>Are the counters frozen after these rows?\<close>

definition rows_frozen :: "('r \<Rightarrow> bool option) \<Rightarrow> 'r list \<Rightarrow> bool" where
  "rows_frozen freezes rs = foldl (\<lambda>b r. case freezes r of None \<Rightarrow> b | Some c \<Rightarrow> c) False rs"

text \<open>
  Row \<open>i\<close> stores the sample, and row \<open>j\<close> is the last counter read up to it: of the same counter, with
  the same value, taken while the counters were frozen, and not used for an earlier sample.
\<close>

definition last_read :: "('r \<Rightarrow> bool option) \<Rightarrow> ('r \<Rightarrow> (int \<times> int) option) \<Rightarrow> ('r \<Rightarrow> (nat \<times> nat \<times> int) option) \<Rightarrow>
    'r list \<Rightarrow> nat \<Rightarrow> nat \<Rightarrow> int \<Rightarrow> int \<Rightarrow> bool" where
  "last_read freezes reads sample rs j i c v \<longleftrightarrow> j \<le> i \<and> i < length rs \<and> reads (rs ! j) = Some (c, v) \<and>
     rows_frozen freezes (take (Suc j) rs) \<and>
     (\<forall>k. j < k \<longrightarrow> k \<le> i \<longrightarrow> reads (rs ! k) = None) \<and> (\<forall>k. j \<le> k \<longrightarrow> k < i \<longrightarrow> sample (rs ! k) = None)"

definition genuine_sample :: "('r \<Rightarrow> bool option) \<Rightarrow> ('r \<Rightarrow> (int \<times> int) option) \<Rightarrow> ('r \<Rightarrow> (nat \<times> nat \<times> int) option) \<Rightarrow>
    'r list \<Rightarrow> nat \<Rightarrow> nat \<Rightarrow> int \<Rightarrow> bool" where
  "genuine_sample freezes reads sample rs row col v \<longleftrightarrow>
     (\<exists>i j. last_read freezes reads sample rs j i (int col) v \<and> sample (rs ! i) = Some (row, col, v) \<and>
       (\<forall>i' < length rs. \<forall>v'. sample (rs ! i') = Some (row, col, v') \<longrightarrow> i' = i))"

locale sampler =
  fixes step :: "'s \<Rightarrow> 'r \<Rightarrow> 's py"
    and init :: 's
    and snaps :: "'s \<Rightarrow> int option list list"
    and rd :: "'s \<Rightarrow> (int \<times> int) option"
    and frz :: "'s \<Rightarrow> bool"
    and freezes :: "'r \<Rightarrow> bool option"
    and reads :: "'r \<Rightarrow> (int \<times> int) option"
    and sample :: "'r \<Rightarrow> (nat \<times> nat \<times> int) option"
    and rows cols :: nat
  assumes snaps_init: "snaps init = replicate rows (replicate cols None)"
    and rd_init: "rd init = None"
    and frz_init: "\<not> frz init"
    and frz_step: "step s r = Inr s' \<Longrightarrow> frz s' = (case freezes r of None \<Rightarrow> frz s | Some b \<Rightarrow> b)"
    and read_step: "step s r = Inr s' \<Longrightarrow> reads r \<noteq> None \<Longrightarrow> frz s'"
    and quiet_step: "step s r = Inr s' \<Longrightarrow> sample r = None \<Longrightarrow>
      snaps s' = snaps s \<and> rd s' = (case reads r of None \<Rightarrow> rd s | Some x \<Rightarrow> Some x)"
    and sample_step: "step s r = Inr s' \<Longrightarrow> sample r = Some (row, col, v) \<Longrightarrow>
      snaps s ! row ! col = None \<and> (case reads r of None \<Rightarrow> rd s | Some x \<Rightarrow> Some x) = Some (int col, v) \<and>
      snaps s' = snap_put (snaps s) row col v \<and> rd s' = None"
    and sample_range: "sample r = Some (row, col, v) \<Longrightarrow> row < rows \<and> col < cols"
begin

abbreviation "frozen_after \<equiv> rows_frozen freezes"
abbreviation "read_at \<equiv> last_read freezes reads sample"
abbreviation "genuine \<equiv> genuine_sample freezes reads sample"

definition sampled :: "'r list \<Rightarrow> nat \<Rightarrow> nat \<Rightarrow> int option \<Rightarrow> bool" where
  "sampled rs row col x \<longleftrightarrow> (case x of
     None \<Rightarrow> \<forall>i < length rs. \<forall>v. sample (rs ! i) \<noteq> Some (row, col, v)
   | Some v \<Rightarrow> genuine rs row col v)"

definition waiting :: "'r list \<Rightarrow> int \<Rightarrow> int \<Rightarrow> bool" where
  "waiting rs c v \<longleftrightarrow> (\<exists>j. read_at rs j (length rs - 1) c v) \<and> rs \<noteq> [] \<and> sample (rs ! (length rs - 1)) = None"

definition sampler_inv :: "'r list \<Rightarrow> 's \<Rightarrow> bool" where
  "sampler_inv rs s \<longleftrightarrow> frz s = frozen_after rs \<and> length (snaps s) = rows \<and> (\<forall>x \<in> set (snaps s). length x = cols) \<and>
     (\<forall>c v. rd s = Some (c, v) \<longrightarrow> waiting rs c v) \<and>
     (\<forall>row < rows. \<forall>col < cols. sampled rs row col (snaps s ! row ! col))"

lemma frozen_after_append: "frozen_after (rs @ [r]) = (case freezes r of None \<Rightarrow> frozen_after rs | Some b \<Rightarrow> b)"
  by (simp add: rows_frozen_def split: option.split)

lemma last_read_append: "read_at rs j i c v \<Longrightarrow> read_at (rs @ [r]) j i c v"
  by (auto simp: last_read_def nth_append)

lemma last_read_new: "reads r = Some (c, v) \<Longrightarrow> frozen_after (rs @ [r]) \<Longrightarrow>
    read_at (rs @ [r]) (length rs) (length rs) c v"
  by (simp add: last_read_def)

lemma last_read_extend:
  assumes "read_at rs j (length rs - 1) c v" "sample (rs ! (length rs - 1)) = None" "reads r = None"
  shows "read_at (rs @ [r]) j (length rs) c v"
proof -
  from assms(1) obtain n where n: "length rs = Suc n" by (cases "length rs") (auto simp: last_read_def)
  have "k < Suc n" if "k \<noteq> Suc n" "k \<le> Suc n" for k using that by simp
  with assms n show ?thesis by (auto simp: last_read_def nth_append le_Suc_eq less_Suc_eq)
qed

text \<open>The read that a store in the next row would use.\<close>

lemma next_read:
  assumes inv: "sampler_inv rs s" and st: "step s r = Inr s'"
    and eff: "(case reads r of None \<Rightarrow> rd s | Some x \<Rightarrow> Some x) = Some (c, v)"
  shows "\<exists>j. read_at (rs @ [r]) j (length rs) c v"
proof (cases "reads r")
  case None
  with eff inv have "waiting rs c v" by (auto simp: sampler_inv_def)
  then obtain j where "read_at rs j (length rs - 1) c v" "sample (rs ! (length rs - 1)) = None"
    by (auto simp: waiting_def)
  from last_read_extend [OF this None] show ?thesis by blast
next
  case (Some x)
  with eff have x: "reads r = Some (c, v)" by simp
  from read_step [OF st] x have "frz s'" by simp
  with frz_step [OF st] inv have "frozen_after (rs @ [r])"
    by (simp add: sampler_inv_def frozen_after_append split: option.splits)
  from last_read_new [OF x this] show ?thesis by blast
qed

lemma sampled_other: "sampled rs row col x \<Longrightarrow> (\<forall>v. sample r \<noteq> Some (row, col, v)) \<Longrightarrow> sampled (rs @ [r]) row col x"
proof (cases x)
  case None
  assume "sampled rs row col x" "\<forall>v. sample r \<noteq> Some (row, col, v)"
  with None show ?thesis by (simp add: sampled_def nth_append less_Suc_eq)
next
  case (Some v)
  assume "sampled rs row col x" and r: "\<forall>v. sample r \<noteq> Some (row, col, v)"
  with Some obtain i j where g: "read_at rs j i (int col) v" "sample (rs ! i) = Some (row, col, v)"
    and u: "\<forall>i' < length rs. \<forall>v'. sample (rs ! i') = Some (row, col, v') \<longrightarrow> i' = i"
    by (auto simp: sampled_def genuine_sample_def)
  from g have "read_at (rs @ [r]) j i (int col) v" "sample ((rs @ [r]) ! i) = Some (row, col, v)"
    using last_read_append by (auto simp: nth_append last_read_def)
  moreover have "\<forall>i' < length (rs @ [r]). \<forall>v'. sample ((rs @ [r]) ! i') = Some (row, col, v') \<longrightarrow> i' = i"
    using u r by (simp add: nth_append less_Suc_eq)
  ultimately show ?thesis unfolding Some sampled_def option.case genuine_sample_def by blast
qed

lemma sampled_here:
  assumes "sampled rs row col None" "sample r = Some (row, col, v)" "read_at (rs @ [r]) j (length rs) (int col) v"
  shows "sampled (rs @ [r]) row col (Some v)"
proof -
  have "\<forall>i' < length (rs @ [r]). \<forall>v'. sample ((rs @ [r]) ! i') = Some (row, col, v') \<longrightarrow> i' = length rs"
    using assms(1) by (auto simp: sampled_def nth_append less_Suc_eq)
  moreover have "sample ((rs @ [r]) ! length rs) = Some (row, col, v)" using assms by simp
  ultimately show ?thesis unfolding sampled_def option.case genuine_sample_def using assms(3) by blast
qed

lemma sampler_inv_init: "sampler_inv [] init"
  by (auto simp: sampler_inv_def snaps_init rd_init frz_init rows_frozen_def sampled_def)

lemma sampler_inv_step:
  assumes inv: "sampler_inv rs s" and st: "step s r = Inr s'"
  shows "sampler_inv (rs @ [r]) s'"
proof (cases "sample r")
  case None
  note q = quiet_step [OF st None]
  have "waiting (rs @ [r]) c v" if "rd s' = Some (c, v)" for c v
    using next_read [OF inv st, of c v] that q None by (auto simp: waiting_def)
  moreover have "sampled (rs @ [r]) row col (snaps s' ! row ! col)" if "row < rows" "col < cols" for row col
    using inv that q None by (intro sampled_other) (auto simp: sampler_inv_def)
  ultimately show ?thesis using inv q frz_step [OF st]
    by (simp add: sampler_inv_def frozen_after_append split: option.splits)
next
  case (Some x)
  then obtain a b v where x: "sample r = Some (a, b, v)" by (cases x) auto
  note q = sample_step [OF st x] and ab = sample_range [OF x]
  from next_read [OF inv st] q obtain j where j: "read_at (rs @ [r]) j (length rs) (int b) v" by blast
  have cell: "snaps s' ! row ! col = (if row = a \<and> col = b then Some v else snaps s ! row ! col)"
    if "row < rows" "col < cols" for row col
    using inv q that ab by (auto simp: sampler_inv_def snap_put_def nth_list_update)
  have "sampled (rs @ [r]) row col (snaps s' ! row ! col)" if rc: "row < rows" "col < cols" for row col
  proof (cases "row = a \<and> col = b")
    case True
    with inv ab q have "sampled rs row col None" unfolding sampler_inv_def by metis
    with True x j cell [OF rc] show ?thesis by (auto intro: sampled_here)
  next
    case False
    with inv rc x show ?thesis unfolding cell [OF rc] by (auto simp: sampler_inv_def intro!: sampled_other)
  qed
  moreover have "length (snaps s') = rows \<and> (\<forall>x \<in> set (snaps s'). length x = cols)"
    using inv q ab by (auto simp: sampler_inv_def snap_put_def dest!: set_update_subset_insert [THEN subsetD])
  ultimately show ?thesis using inv q frz_step [OF st]
    by (simp add: sampler_inv_def frozen_after_append split: option.splits)
qed

lemma sampler_inv_run: "py_run step init rs = Inr s \<Longrightarrow> sampler_inv rs s"
proof (induction rs arbitrary: s rule: rev_induct)
  case Nil
  then show ?case using sampler_inv_init by auto
next
  case (snoc r rs)
  then obtain s1 where "py_run step init rs = Inr s1" "step s1 r = Inr s"
    by (auto simp: py_run_append py_bind_def split: sum.splits)
  with snoc.IH show ?case by (blast intro: sampler_inv_step)
qed

lemma run_genuine:
  assumes "py_run step init rs = Inr s" "snaps s ! row ! col = Some v" "row < rows" "col < cols"
  shows "genuine rs row col v"
proof -
  have "sampled rs row col (Some v)"
    using sampler_inv_run [OF assms(1)] assms(2-4) unfolding sampler_inv_def by metis
  then show ?thesis by (simp add: sampled_def)
qed

lemma run_shape:
  assumes "py_run step init rs = Inr s"
  shows "length (snaps s) = rows" "row < rows \<Longrightarrow> length (snaps s ! row) = cols"
  using sampler_inv_run [OF assms] by (auto simp: sampler_inv_def)

end

section \<open>The two extractions are samplers\<close>

lemma l7_csr_step:
  assumes "l7_csr r w s = Inr s'" and w: "tw_inst r = Some w"
  shows "l7_snaps s' = l7_snaps s \<and>
    l7_frozen s' = (case row_freezes r of None \<Rightarrow> l7_frozen s | Some b \<Rightarrow> b) \<and>
    l7_read s' = (case row_reads hpm_counter r of None \<Rightarrow> l7_read s | Some x \<Rightarrow> Some x) \<and>
    (row_reads hpm_counter r \<noteq> None \<longrightarrow> l7_frozen s')"
proof (cases "w AND 0x7f = 0x73")
  case False
  with assms show ?thesis by (simp add: l7_csr_def row_freezes_def row_reads_def row_csr_def)
next
  case True
  define a where "a = drop_bit 20 w"
  define p where "p = drop_bit 12 w AND 7"
  define q where "q = drop_bit 15 w AND 31"
  have row: "row_csr r = Some (a, p, q)" using True w by (simp add: row_csr_def a_def p_def q_def)
  show ?thesis using assms(1) True unfolding l7_csr_def Let_def a_def [symmetric] p_def [symmetric] q_def [symmetric]
    by (auto simp: row_freezes_def row_reads_def row hpm_counter_def py_bind_Inr_iff split: if_splits)
qed

lemma l7_store_step:
  assumes "l7_store r s = Inr s'" and k: "tw_mem_kind r = Some ''store''"
  shows "l7_frozen s' = l7_frozen s" (is ?A)
    and "row_sample 8 r = None \<Longrightarrow> l7_snaps s' = l7_snaps s \<and> l7_read s' = l7_read s" (is "PROP ?B")
    and "row_sample 8 r = Some (row, col, v) \<Longrightarrow> l7_snaps s ! row ! col = None \<and> l7_read s = Some (int col, v) \<and>
      l7_snaps s' = snap_put (l7_snaps s) row col v \<and> l7_read s' = None" (is "PROP ?C")
proof -
  from assms(1) obtain addr x where ax: "tw_mem_addr r = Some addr" "tw_mem_data r = Some x"
    by (auto simp: l7_store_def py_bind_Inr_iff)
  define n where "n = (addr - l7_samples) div 8"
  have nn: "int (nat (n mod 8)) = n mod 8" by simp
  note st = assms(1) [unfolded l7_store_def Let_def n_def [symmetric]]
  show ?A using st ax by (auto simp: py_bind_Inr_iff split: if_splits)
  show "PROP ?B" using st ax k by (auto simp: row_sample_def Let_def py_bind_Inr_iff split: if_splits)
  show "PROP ?C" using st ax k nn
    by (auto simp: row_sample_def Let_def n_def [symmetric] py_bind_Inr_iff split: if_splits)
qed

lemma l7_record_cases:
  assumes "l7_record layout s r = Inr s'"
  obtains w s0 s1 where "tw_inst r = Some w" "l7_csr r w s0 = Inr s1"
    "l7_snaps s0 = l7_snaps s" "l7_read s0 = l7_read s" "l7_frozen s0 = l7_frozen s"
    "tw_mem_kind r \<noteq> Some ''store'' \<and> s' = s1 \<or> tw_mem_kind r = Some ''store'' \<and> l7_store r s1 = Inr s'"
  using assms unfolding l7_record_def
  by (elim bind_InrE) (fastforce split: if_splits)

interpretation l7: sampler "l7_record layout" l7_start l7_snaps l7_read l7_frozen
    row_freezes "row_reads hpm_counter" "row_sample 8" 6 8 for layout
proof unfold_locales
  fix s r s'
  assume st: "l7_record layout s r = Inr s'"
  then obtain w s0 s1 where w: "tw_inst r = Some w" and csr: "l7_csr r w s0 = Inr s1"
    and eq: "l7_snaps s0 = l7_snaps s" "l7_read s0 = l7_read s" "l7_frozen s0 = l7_frozen s"
    and k: "tw_mem_kind r \<noteq> Some ''store'' \<and> s' = s1 \<or> tw_mem_kind r = Some ''store'' \<and> l7_store r s1 = Inr s'"
    by (rule l7_record_cases)
  note c = l7_csr_step [OF csr w, unfolded eq]
  have store: "row_sample 8 r = None" if "tw_mem_kind r \<noteq> Some ''store''"
    using that by (simp add: row_sample_def split: option.split)
  show "l7_frozen s' = (case row_freezes r of None \<Rightarrow> l7_frozen s | Some b \<Rightarrow> b)"
    using c k l7_store_step(1) by auto
  then show "row_reads hpm_counter r \<noteq> None \<Longrightarrow> l7_frozen s'"
    using c k l7_store_step(1) by auto
  show "l7_snaps s' = l7_snaps s \<and> l7_read s' = (case row_reads hpm_counter r of None \<Rightarrow> l7_read s | Some x \<Rightarrow> Some x)"
    if "row_sample 8 r = None"
    using c k l7_store_step(2) [OF _ _ that] by auto
  show "l7_snaps s ! row ! col = None \<and> (case row_reads hpm_counter r of None \<Rightarrow> l7_read s | Some x \<Rightarrow> Some x) = Some (int col, v) \<and>
      l7_snaps s' = snap_put (l7_snaps s) row col v \<and> l7_read s' = None"
    if x: "row_sample 8 r = Some (row, col, v)" for row col v
  proof -
    have "tw_mem_kind r = Some ''store''" "l7_store r s1 = Inr s'" using k store x by auto
    from l7_store_step(3) [OF this(2,1) x] c show ?thesis by simp
  qed
qed (auto simp: l7_start_def row_sample_def Let_def split: if_splits option.splits)

lemma l7c_csr_step:
  assumes "l7c_csr r w s = Inr s'" and w: "tw_inst r = Some w"
  shows "lc_samples s' = lc_samples s \<and>
    lc_frozen s' = (case row_freezes r of None \<Rightarrow> lc_frozen s | Some b \<Rightarrow> b) \<and>
    lc_read s' = (case row_reads hpm_or_cycle r of None \<Rightarrow> lc_read s | Some x \<Rightarrow> Some x) \<and>
    (row_reads hpm_or_cycle r \<noteq> None \<longrightarrow> lc_frozen s')"
proof (cases "w AND 0x7f = 0x73")
  case False
  with assms show ?thesis by (simp add: l7c_csr_def row_freezes_def row_reads_def row_csr_def)
next
  case True
  define a where "a = drop_bit 20 w"
  define p where "p = drop_bit 12 w AND 7"
  define q where "q = drop_bit 15 w AND 31"
  have row: "row_csr r = Some (a, p, q)" using True w by (simp add: row_csr_def a_def p_def q_def)
  show ?thesis using assms(1) True unfolding l7c_csr_def Let_def a_def [symmetric] p_def [symmetric] q_def [symmetric]
    by (auto simp: row_freezes_def row_reads_def row hpm_counter_def hpm_or_cycle_def py_bind_Inr_iff split: if_splits)
qed

lemma l7c_store_step:
  assumes "l7c_store r s = Inr s'" and k: "tw_mem_kind r = Some ''store''"
  shows "lc_frozen s' = lc_frozen s" (is ?A)
    and "row_sample 9 r = None \<Longrightarrow> lc_samples s' = lc_samples s \<and> lc_read s' = lc_read s" (is "PROP ?B")
    and "row_sample 9 r = Some (row, col, v) \<Longrightarrow> lc_samples s ! row ! col = None \<and> lc_read s = Some (int col, v) \<and>
      lc_samples s' = snap_put (lc_samples s) row col v \<and> lc_read s' = None" (is "PROP ?C")
proof -
  from assms(1) obtain addr x where ax: "tw_mem_addr r = Some addr" "tw_mem_data r = Some x"
    by (auto simp: l7c_store_def py_bind_Inr_iff)
  define n where "n = (addr - l7_samples) div 8"
  have nn: "int (nat (n mod 9)) = n mod 9" by simp
  note st = assms(1) [unfolded l7c_store_def Let_def n_def [symmetric]]
  show ?A using st ax by (auto simp: py_bind_Inr_iff split: if_splits)
  show "PROP ?B" using st ax k by (auto simp: row_sample_def Let_def py_bind_Inr_iff split: if_splits)
  show "PROP ?C" using st ax k nn
    by (auto simp: row_sample_def Let_def n_def [symmetric] py_bind_Inr_iff split: if_splits)
qed

text \<open>The second extraction skips every header row, so it samples the remaining rows.\<close>

definition not_header :: "trace_row \<Rightarrow> bool" where
  "not_header r \<longleftrightarrow> tw_type r \<noteq> Some ''header''"

lemma l7c_skip: "py_run l7c_record s rows = py_run l7c_record s (filter not_header rows)"
proof (induction rows arbitrary: s)
  case (Cons r rows)
  have "l7c_record s r = Inr s" if "\<not> not_header r"
    using that by (simp add: l7c_record_def not_header_def py_key_def)
  then show ?case by (cases "not_header r") (simp_all add: Cons.IH)
qed simp

definition l7c_retire :: "l7c_state \<Rightarrow> trace_row \<Rightarrow> l7c_state py" where
  "l7c_retire s r = py_bind (py_assert (not_header r)) (\<lambda>_. l7c_record s r)"

lemma l7c_retire_run: "list_all not_header rows \<Longrightarrow> py_run l7c_retire s rows = py_run l7c_record s rows"
  by (induction rows arbitrary: s) (simp_all add: l7c_retire_def py_assert_def)

lemma l7c_retire_cases:
  assumes "l7c_retire s r = Inr s'"
  obtains w s0 s1 where "tw_inst r = Some w" "l7c_csr r w s0 = Inr s1"
    "lc_samples s0 = lc_samples s" "lc_read s0 = lc_read s" "lc_frozen s0 = lc_frozen s"
    "tw_mem_kind r \<noteq> Some ''store'' \<and> s' = s1 \<or> tw_mem_kind r = Some ''store'' \<and> l7c_store r s1 = Inr s'"
  using assms unfolding l7c_retire_def l7c_record_def
  by (elim bind_InrE) (fastforce simp: not_header_def py_bind_Inr_iff split: if_splits)

interpretation l7c: sampler l7c_retire l7c_start lc_samples lc_read lc_frozen
    row_freezes "row_reads hpm_or_cycle" "row_sample 9" 6 9
proof unfold_locales
  fix s r s'
  assume st: "l7c_retire s r = Inr s'"
  then obtain w s0 s1 where w: "tw_inst r = Some w" and csr: "l7c_csr r w s0 = Inr s1"
    and eq: "lc_samples s0 = lc_samples s" "lc_read s0 = lc_read s" "lc_frozen s0 = lc_frozen s"
    and k: "tw_mem_kind r \<noteq> Some ''store'' \<and> s' = s1 \<or> tw_mem_kind r = Some ''store'' \<and> l7c_store r s1 = Inr s'"
    by (rule l7c_retire_cases)
  note c = l7c_csr_step [OF csr w, unfolded eq]
  have store: "row_sample 9 r = None" if "tw_mem_kind r \<noteq> Some ''store''"
    using that by (simp add: row_sample_def split: option.split)
  show "lc_frozen s' = (case row_freezes r of None \<Rightarrow> lc_frozen s | Some b \<Rightarrow> b)"
    using c k l7c_store_step(1) by auto
  then show "row_reads hpm_or_cycle r \<noteq> None \<Longrightarrow> lc_frozen s'"
    using c k l7c_store_step(1) by auto
  show "lc_samples s' = lc_samples s \<and> lc_read s' = (case row_reads hpm_or_cycle r of None \<Rightarrow> lc_read s | Some x \<Rightarrow> Some x)"
    if "row_sample 9 r = None"
    using c k l7c_store_step(2) [OF _ _ that] by auto
  show "lc_samples s ! row ! col = None \<and> (case row_reads hpm_or_cycle r of None \<Rightarrow> lc_read s | Some x \<Rightarrow> Some x) = Some (int col, v) \<and>
      lc_samples s' = snap_put (lc_samples s) row col v \<and> lc_read s' = None"
    if x: "row_sample 9 r = Some (row, col, v)" for row col v
  proof -
    have "tw_mem_kind r = Some ''store''" "l7c_store r s1 = Inr s'" using k store x by auto
    from l7c_store_step(3) [OF this(2,1) x] c show ?thesis by simp
  qed
qed (auto simp: l7c_start_def row_sample_def Let_def split: if_splits option.splits)

section \<open>Accepted traces\<close>

lemma ls_mask_mod: "x AND ls_mask = x mod 2 ^ 64"
proof -
  have "ls_mask = mask 64" by (simp add: ls_mask_def mask_eq_exp_minus_1)
  then show ?thesis using take_bit_eq_mask [of 64 x] take_bit_eq_mod [of 64 x] by (simp only:)
qed

lemma snap_cell:
  assumes "length snaps = 6" "\<forall>row \<in> set snaps. \<forall>v \<in> set row. v \<noteq> None" "row < 6" "col < length (snaps ! row)"
  obtains v where "snaps ! row ! col = Some v"
  using assms by (metis nth_mem not_None_eq)

lemma delta_cell:
  assumes "snaps ! (2 * k) ! e = Some before" "snaps ! (2 * k + 1) ! e = Some after"
    "length (snaps ! (2 * k)) = n" "length (snaps ! (2 * k + 1)) = n" "e < n" "n \<le> length names"
  shows "zip names (snap_delta (snaps ! (2 * k)) (snaps ! (2 * k + 1))) ! e = (names ! e, (after - before) mod 2 ^ 64)"
  using assms by (simp add: snap_delta_def ls_mask_mod)

text \<open>C35: the counter differences of an accepted prediction trace are differences of genuine samples: for every
  segment and event there are a sample before and one after, each stored exactly once, from the register the last
  counter read returned, of that counter, taken while the event counters were stopped and used for no other
  sample; the reported difference is their difference modulo \<open>2^64\<close>.\<close>

theorem l7_deltas_genuine:
  assumes "l7_extract g layout rows = Inr res" "k < 3" "e < 8"
  shows "\<exists>trace before after. l7_header rows = Inr trace \<and>
    genuine_sample row_freezes (row_reads hpm_counter) (row_sample 8) trace (2 * k) e before \<and>
    genuine_sample row_freezes (row_reads hpm_counter) (row_sample 8) trace (2 * k + 1) e after \<and>
    lr_deltas res ! k ! e = (l7_events g ! e, (after - before) mod 2 ^ 64)"
proof -
  from assms(1) obtain trace s where t: "l7_header rows = Inr trace"
    and run: "py_run (l7_record layout) l7_start trace = Inr s"
    and all: "\<forall>row \<in> set (l7_snaps s). \<forall>v \<in> set row. v \<noteq> None"
    and res: "lr_deltas res = l7_deltas g (l7_snaps s)"
    unfolding l7_extract_def Let_def by (elim bind_InrE) (auto split: l7_group.splits simp: py_bind_Inr_iff)
  have kk: "2 * k < 6" "2 * k + 1 < 6" using assms(2) by simp_all
  note len = l7.run_shape(1) [OF run] and lens = l7.run_shape(2) [OF run kk(1)] l7.run_shape(2) [OF run kk(2)]
  obtain before after where v: "l7_snaps s ! (2 * k) ! e = Some before" "l7_snaps s ! (2 * k + 1) ! e = Some after"
    using snap_cell [OF len all kk(1)] snap_cell [OF len all kk(2)] lens assms(3) by metis
  have "length (l7_events g) = 8" by (cases g) simp_all
  with delta_cell [OF v lens assms(3), of "l7_events g"] assms(2)
  have "lr_deltas res ! k ! e = (l7_events g ! e, (after - before) mod 2 ^ 64)"
    by (simp add: res l7_deltas_def)
  with t l7.run_genuine [OF run v(1) kk(1) assms(3)] l7.run_genuine [OF run v(2) kk(2) assms(3)]
  show ?thesis by blast
qed

text \<open>the counter differences of an accepted frontend trace are differences of genuine samples in the same
  sense, the cycle counter included, and a trace accepted with the optional mechanisms off shows no loop prediction
  and no prefetch event.\<close>

theorem l7c_deltas_genuine:
  assumes "l7c_extract off rows = Inr (res, n)" "k < 3" "e < 9"
  shows "(\<exists>before after.
      genuine_sample row_freezes (row_reads hpm_or_cycle) (row_sample 9) (filter not_header rows) (2 * k) e before \<and>
      genuine_sample row_freezes (row_reads hpm_or_cycle) (row_sample 9) (filter not_header rows) (2 * k + 1) e after \<and>
      res ! k ! e = (l7c_events k ! e, (after - before) mod 2 ^ 64)) \<and>
    (off \<longrightarrow> map_of (res ! 0) ''LOOP_USED'' = Some 0 \<and> map_of (res ! 0) ''LOOP_WRONG'' = Some 0 \<and>
       map_of (res ! 1) ''PF_ISSUED'' = Some 0)"
proof -
  from assms(1) obtain s where run0: "py_run l7c_record l7c_start rows = Inr s"
    and all: "\<forall>row \<in> set (lc_samples s). \<forall>v \<in> set row. v \<noteq> None"
    and res: "res = l7c_deltas (lc_samples s)" and off: "off \<longrightarrow> l7c_off res = Inr ()"
    unfolding l7c_extract_def Let_def by (elim bind_InrE) (auto split: if_splits)
  have run: "py_run l7c_retire l7c_start (filter not_header rows) = Inr s"
    using run0 l7c_skip [of l7c_start rows] by (simp add: l7c_retire_run list_all_iff)
  have kk: "2 * k < 6" "2 * k + 1 < 6" using assms(2) by simp_all
  note len = l7c.run_shape(1) [OF run] and lens = l7c.run_shape(2) [OF run kk(1)] l7c.run_shape(2) [OF run kk(2)]
  obtain before after where v: "lc_samples s ! (2 * k) ! e = Some before" "lc_samples s ! (2 * k + 1) ! e = Some after"
    using snap_cell [OF len all kk(1)] snap_cell [OF len all kk(2)] lens assms(3) by metis
  have "length (l7c_events k) = 9" using assms(2) by (auto simp: l7c_events_def less_Suc_eq numeral_3_eq_3)
  with delta_cell [OF v lens assms(3), of "l7c_events k"] assms(2)
  have "res ! k ! e = (l7c_events k ! e, (after - before) mod 2 ^ 64)"
    by (simp add: res l7c_deltas_def)
  moreover have "off \<longrightarrow> map_of (res ! 0) ''LOOP_USED'' = Some 0 \<and> map_of (res ! 0) ''LOOP_WRONG'' = Some 0 \<and>
       map_of (res ! 1) ''PF_ISSUED'' = Some 0"
    using off by (auto simp: l7c_off_def l7_value_def l7c_events_def py_bind_Inr_iff)
  ultimately show ?thesis
    using l7c.run_genuine [OF run v(1) kk(1) assms(3)] l7c.run_genuine [OF run v(2) kk(2) assms(3)] by blast
qed

definition demo_row :: "int \<Rightarrow> trace_row" where
  "demo_row w = \<lparr>tw_type = Some ''retire'', tw_format = None, tw_version = None, tw_pc = Some 0, tw_inst = Some w,
     tw_csr_wdata = None, tw_rd_wdata = None, tw_mem_kind = Some ''none'', tw_mem_addr = None, tw_mem_data = None,
     tw_mem_size = None\<rparr>"

definition demo_freeze :: trace_row where
  "demo_freeze = (demo_row 0x32029073)\<lparr>tw_csr_wdata := Some 0x7f8\<rparr>"

definition demo_read :: "int \<Rightarrow> int \<Rightarrow> trace_row" where
  "demo_read csr v = (demo_row (push_bit 20 csr + 0x22f3))\<lparr>tw_rd_wdata := Some v\<rparr>"

definition demo_store :: "int \<Rightarrow> int \<Rightarrow> trace_row" where
  "demo_store addr v = (demo_row 0x533023)\<lparr>tw_mem_kind := Some ''store'', tw_mem_addr := Some addr,
     tw_mem_data := Some v, tw_mem_size := Some 8\<rparr>"

definition demo_layout :: l7_layout where
  "demo_layout = \<lparr>ly_segments = [(0, 4), (0, 8), (16, 20)], ly_level1 = 32, ly_final = 32\<rparr>"

definition demo_value :: "int \<Rightarrow> int" where
  "demo_value n = (if n \<in> {8, 9} then 5 else if n \<in> {16, 17} then 2 ^ 64 - 3 else if n \<in> {24, 25} then 4 else 0)"

definition demo_tail :: "trace_row list" where
  "demo_tail = demo_freeze # concat (map (\<lambda>n. [demo_read (0xb03 + n mod 8) (demo_value n),
     demo_store (0x80100000 + 8 * n) (demo_value n)]) [0..47]) @ [demo_store 0x801ff000 1]"

definition demo_branch :: "int \<Rightarrow> trace_row" where
  "demo_branch pc = (demo_row 0x63)\<lparr>tw_pc := Some pc\<rparr>"

definition demo_trace :: "trace_row list" where
  "demo_trace = replicate 2001 (demo_branch 0) @ replicate 499 (demo_branch 4) @ demo_tail"

lemma demo_step:
  "l7_record demo_layout (s\<lparr>l7_cfi := [a, b, c]\<rparr>) (demo_branch 0) = Inr (s\<lparr>l7_cfi := [a + 1, b + 1, c]\<rparr>)"
  "l7_record demo_layout (s\<lparr>l7_cfi := [a, b, c]\<rparr>) (demo_branch 4) = Inr (s\<lparr>l7_cfi := [a, b + 1, c]\<rparr>)"
  by (simp_all add: l7_record_def demo_branch_def demo_row_def demo_layout_def py_key_def l7_count_def l7_within_def
      l7_csr_def py_assert_def)

lemma demo_branches:
  "py_run (l7_record demo_layout) (s\<lparr>l7_cfi := [a, b, c]\<rparr>) (replicate n (demo_branch 0)) = Inr (s\<lparr>l7_cfi := [a + int n, b + int n, c]\<rparr>)"
  "py_run (l7_record demo_layout) (s\<lparr>l7_cfi := [a, b, c]\<rparr>) (replicate n (demo_branch 4)) = Inr (s\<lparr>l7_cfi := [a, b + int n, c]\<rparr>)"
  by (induction n arbitrary: a b) (simp_all add: demo_step algebra_simps)

definition demo_mid :: l7_state where
  "demo_mid = l7_start\<lparr>l7_cfi := [2001, 2500, 0]\<rparr>"

definition demo_end :: l7_state where
  "demo_end = (case py_run (l7_record demo_layout) demo_mid demo_tail of Inr s \<Rightarrow> s | Inl e \<Rightarrow> demo_mid)"

lemma demo_tail_run: "py_run (l7_record demo_layout) demo_mid demo_tail = Inr demo_end"
  by code_simp

lemma demo_end_ok:
  "\<forall>row \<in> set (l7_snaps demo_end). \<forall>v \<in> set row. v \<noteq> None"
  "take 2 (l7_cfi demo_end) = [2001, 2500]"
  "list_ex stores_one demo_tail"
  "l7_all l7_unused (l7_deltas GB (l7_snaps demo_end)) = Inr ()"
  "l7_all l7_classified (l7_deltas GB (l7_snaps demo_end)) = Inr ()"
  by code_simp+

lemma l7_header_retire: "tw_type r = Some ''retire'' \<Longrightarrow> l7_header (r # rows) = Inr (r # rows)"
  by (simp add: l7_header_def py_key_def)

lemma demo_header: "l7_header demo_trace = Inr demo_trace"
proof -
  obtain rest where eq: "demo_trace = demo_branch 0 # rest"
    using replicate_Suc [of 2000 "demo_branch 0"] by (simp add: demo_trace_def)
  show ?thesis unfolding eq by (rule l7_header_retire) (simp add: demo_branch_def demo_row_def)
qed

lemma demo_trace_run: "py_run (l7_record demo_layout) l7_start demo_trace = Inr demo_end"
proof -
  have "l7_start = l7_start\<lparr>l7_cfi := [0, 0, 0]\<rparr>" by (simp add: l7_start_def)
  then have "py_run (l7_record demo_layout) l7_start (replicate 2001 (demo_branch 0)) = Inr (l7_start\<lparr>l7_cfi := [2001, 2001, 0]\<rparr>)"
    using demo_branches(1) [where s = l7_start and a = 0 and b = 0 and c = 0 and n = 2001] by simp
  moreover have "py_run (l7_record demo_layout) (l7_start\<lparr>l7_cfi := [2001, 2001, 0]\<rparr>) (replicate 499 (demo_branch 4)) = Inr demo_mid"
    using demo_branches(2) [where s = l7_start and a = 2001 and b = 2001 and c = 0 and n = 499] by (simp add: demo_mid_def)
  ultimately show ?thesis by (simp only: demo_trace_def py_run_append py_bind_simps demo_tail_run)
qed

lemma demo_extract: "\<exists>res. l7_extract GB demo_layout demo_trace = Inr res"
proof -
  have "list_ex stores_one demo_trace" using demo_end_ok(3) by (simp add: demo_trace_def)
  then show ?thesis using demo_end_ok by (simp add: l7_extract_def demo_header demo_trace_run py_assert_def Let_def)
qed

theorem l7_deltas_genuine_witness:
  "\<exists>res. l7_extract GB demo_layout demo_trace = Inr res \<and> (\<exists>trace before after. l7_header demo_trace = Inr trace \<and>
    genuine_sample row_freezes (row_reads hpm_counter) (row_sample 8) trace 2 0 before \<and>
    genuine_sample row_freezes (row_reads hpm_counter) (row_sample 8) trace 3 0 after \<and>
    lr_deltas res ! 1 ! 0 = (''CMT_REGION'', (after - before) mod 2 ^ 64))"
proof -
  from demo_extract obtain res where res: "l7_extract GB demo_layout demo_trace = Inr res" ..
  have "2 * 1 = (2::nat)" "2 * 1 + 1 = (3::nat)" "l7_events GB ! 0 = ''CMT_REGION''" by simp_all
  with l7_deltas_genuine [OF res, of 1 0] res show ?thesis by (metis one_less_numeral_iff semiring_norm(77) zero_less_numeral)
qed

definition demo_frontend :: "trace_row list" where
  "demo_frontend = (demo_row 0)\<lparr>tw_type := Some ''header''\<rparr> # demo_freeze #
     concat (map (\<lambda>n. let v = if n = 9 then 12345 else 0 in
       [demo_read (if n mod 9 = 8 then 0xb00 else 0xb03 + n mod 9) v, demo_store (0x80100000 + 8 * n) v]) [0..53]) @
     [demo_store 0x801ff000 1]"

lemma demo_frontend_extract: "case l7c_extract True demo_frontend of Inr x \<Rightarrow> map_of (fst x ! 0) ''COND_BR'' = Some 12345 | Inl e \<Rightarrow> False"
  by code_simp

theorem l7c_deltas_genuine_witness:
  "\<exists>res n before after. l7c_extract True demo_frontend = Inr (res, n) \<and>
    genuine_sample row_freezes (row_reads hpm_or_cycle) (row_sample 9) (filter not_header demo_frontend) 0 0 before \<and>
    genuine_sample row_freezes (row_reads hpm_or_cycle) (row_sample 9) (filter not_header demo_frontend) 1 0 after \<and>
    res ! 0 ! 0 = (''COND_BR'', (after - before) mod 2 ^ 64)"
proof -
  from demo_frontend_extract obtain res n where res: "l7c_extract True demo_frontend = Inr (res, n)"
    by (auto split: sum.splits)
  have "2 * 0 = (0::nat)" "2 * 0 + 1 = (1::nat)" "l7c_events 0 ! 0 = ''COND_BR''" by (simp_all add: l7c_events_def)
  with l7c_deltas_genuine [OF res, of 0 0] res show ?thesis by (metis zero_less_numeral)
qed

section \<open>Stable fields of a trace\<close>

text \<open>JSON values as Python compares them: a Boolean equals the integer 0 or 1.\<close>

datatype json = J_int int | J_str string | J_bool bool | J_null

fun json_eq :: "json \<Rightarrow> json \<Rightarrow> bool" where
  "json_eq (J_str a) (J_str b) \<longleftrightarrow> a = b"
| "json_eq J_null J_null \<longleftrightarrow> True"
| "json_eq (J_int a) (J_int b) \<longleftrightarrow> a = b"
| "json_eq (J_bool a) (J_bool b) \<longleftrightarrow> a = b"
| "json_eq (J_int a) (J_bool b) \<longleftrightarrow> a = of_bool b"
| "json_eq (J_bool a) (J_int b) \<longleftrightarrow> of_bool a = b"
| "json_eq _ _ \<longleftrightarrow> False"

fun json_true :: "json \<Rightarrow> bool" where
  "json_true (J_int n) \<longleftrightarrow> n \<noteq> 0"
| "json_true (J_str s) \<longleftrightarrow> s \<noteq> []"
| "json_true (J_bool b) \<longleftrightarrow> b"
| "json_true J_null \<longleftrightarrow> False"

type_synonym json_row = "(string \<times> json) list"

datatype trace_verdict = Trace_pass nat | Count_differs nat nat | Field_differs nat string json json

definition stable_fields :: "string list" where
  "stable_fields = [''pc'', ''instruction'', ''rd'', ''rd_write'']"

definition json_field :: "json_row \<Rightarrow> string \<Rightarrow> json py" where
  "json_field r f = py_key (map_of r f)"

text \<open>The first stable field that differs.\<close>

fun fields_differ :: "string list \<Rightarrow> json_row \<Rightarrow> json_row \<Rightarrow> (string \<times> json \<times> json) option py" where
  "fields_differ [] actual expected = Inr None"
| "fields_differ (f # fs) actual expected = py_bind (json_field actual f) (\<lambda>a. py_bind (json_field expected f) (\<lambda>e.
     if json_eq a e then fields_differ fs actual expected else Inr (Some (f, a, e))))"

definition row_differs :: "json_row \<Rightarrow> json_row \<Rightarrow> (string \<times> json \<times> json) option py" where
  "row_differs actual expected = py_bind (fields_differ stable_fields actual expected) (\<lambda>d. case d of Some x \<Rightarrow> Inr (Some x)
   | None \<Rightarrow> py_bind (json_field expected ''rd_write'') (\<lambda>w. if json_true w
       then fields_differ [''rd_wdata''] actual expected else Inr None))"

fun rows_differ :: "nat \<Rightarrow> (json_row \<times> json_row) list \<Rightarrow> (nat \<times> string \<times> json \<times> json) option py" where
  "rows_differ n [] = Inr None"
| "rows_differ n ((actual, expected) # rest) = py_bind (row_differs actual expected) (\<lambda>d. case d of
     Some (f, a, e) \<Rightarrow> Inr (Some (n, f, a, e)) | None \<Rightarrow> rows_differ (n + 1) rest)"

definition is_retire :: "json_row \<Rightarrow> bool" where
  "is_retire r \<longleftrightarrow> map_of r ''type'' = Some (J_str ''retire'')"

definition check_trace :: "json_row list \<Rightarrow> json_row list \<Rightarrow> trace_verdict py" where
  "check_trace rows expected = (let actual = filter is_retire rows in
     if length actual \<noteq> length expected then Inr (Count_differs (length actual) (length expected))
     else py_bind (rows_differ 0 (zip actual expected)) (\<lambda>d. Inr (case d of
       None \<Rightarrow> Trace_pass (length actual) | Some (n, f, a, e) \<Rightarrow> Field_differs n f a e)))"

text \<open>Two retirement records that agree on what the check calls stable.\<close>

definition agree :: "string \<Rightarrow> json_row \<Rightarrow> json_row \<Rightarrow> bool" where
  "agree f r e \<longleftrightarrow> (\<exists>a b. map_of r f = Some a \<and> map_of e f = Some b \<and> json_eq a b)"

definition rows_agree :: "json_row \<Rightarrow> json_row \<Rightarrow> bool" where
  "rows_agree r e \<longleftrightarrow> (\<forall>f \<in> set stable_fields. agree f r e) \<and>
     ((\<exists>w. map_of e ''rd_write'' = Some w \<and> json_true w) \<longrightarrow> agree ''rd_wdata'' r e)"

lemma fields_differ_None: "fields_differ fs r e = Inr None \<longleftrightarrow> (\<forall>f \<in> set fs. agree f r e)"
  by (induction fs) (auto simp: json_field_def agree_def py_bind_Inr_iff)

lemma fields_differ_one: "fields_differ [f] r e = Inr None \<longleftrightarrow> agree f r e"
  using fields_differ_None [of "[f]" r e] by simp

lemma row_differs_None: "row_differs r e = Inr None \<longleftrightarrow> rows_agree r e"
proof (cases "fields_differ stable_fields r e = Inr None")
  case False
  then have "row_differs r e \<noteq> Inr None"
    by (auto simp: row_differs_def py_bind_def split: sum.splits option.splits)
  with False show ?thesis by (simp add: rows_agree_def fields_differ_None)
next
  case True
  then have ag: "\<forall>f \<in> set stable_fields. agree f r e" by (simp add: fields_differ_None)
  then obtain w where w: "map_of e ''rd_write'' = Some w" by (auto simp: stable_fields_def agree_def)
  have "row_differs r e = (if json_true w then fields_differ [''rd_wdata''] r e else Inr None)"
    using True w unfolding row_differs_def by (simp only: py_bind_simps option.case json_field_def py_key_def)
  with ag w show ?thesis using fields_differ_one [of "''rd_wdata''" r e]
    unfolding rows_agree_def by (cases "json_true w") simp_all
qed

lemma rows_differ_None: "rows_differ n ps = Inr None \<longleftrightarrow> (\<forall>(r, e) \<in> set ps. rows_agree r e)"
proof (induction ps arbitrary: n)
  case (Cons p ps)
  obtain r e where p: "p = (r, e)" by (cases p)
  show ?case
    using Cons.IH [of "n + 1"] row_differs_None [of r e]
    by (cases "row_differs r e") (auto simp: p split: option.splits)
qed simp

lemma rows_differ_Some: "rows_differ n ps = Inr (Some (m, f, a, b)) \<Longrightarrow>
    \<exists>k < length ps. m = n + k \<and> (\<forall>(r, e) \<in> set (take k ps). rows_agree r e) \<and>
      row_differs (fst (ps ! k)) (snd (ps ! k)) = Inr (Some (f, a, b))"
proof (induction ps arbitrary: n)
  case (Cons p ps)
  obtain r e where p: "p = (r, e)" by (cases p)
  from Cons.prems obtain d where d: "row_differs r e = Inr d"
    "(case d of Some (f, a, e) \<Rightarrow> Inr (Some (n, f, a, e)) | None \<Rightarrow> rows_differ (n + 1) ps) = Inr (Some (m, f, a, b))"
    unfolding p rows_differ.simps by (rule bind_InrE)
  then consider "m = n" "row_differs r e = Inr (Some (f, a, b))"
    | "row_differs r e = Inr None" "rows_differ (n + 1) ps = Inr (Some (m, f, a, b))"
    by (cases d) auto
  then show ?case
  proof cases
    case 1
    then show ?thesis by (intro exI [of _ 0]) (simp add: p)
  next
    case 2
    from Cons.IH [OF 2(2)] obtain k where "k < length ps" "m = n + 1 + k"
      "\<forall>(r, e) \<in> set (take k ps). rows_agree r e" "row_differs (fst (ps ! k)) (snd (ps ! k)) = Inr (Some (f, a, b))"
      by blast
    with 2(1) show ?thesis by (intro exI [of _ "Suc k"]) (simp add: p row_differs_None)
  qed
qed simp

text \<open>the trace check passes exactly when there are as many retirements as expected and each agrees with its
  expectation in pc, instruction, destination and write flag, and in the written value where one is written; a
  reported difference is in the first row that does not agree.\<close>

theorem check_trace_verdict:
  "(check_trace rows expected = Inr (Trace_pass n) \<longleftrightarrow> length (filter is_retire rows) = n \<and>
     list_all2 rows_agree (filter is_retire rows) expected) \<and>
   (check_trace rows expected = Inr (Field_differs k f a b) \<longrightarrow> k < length expected \<and>
     list_all2 rows_agree (take k (filter is_retire rows)) (take k expected) \<and>
     \<not> rows_agree (filter is_retire rows ! k) (expected ! k))"
proof -
  let ?t = "filter is_retire rows"
  have "check_trace rows expected = Inr (Trace_pass n) \<longleftrightarrow> length ?t = n \<and> length ?t = length expected \<and>
      rows_differ 0 (zip ?t expected) = Inr None"
    by (auto simp: check_trace_def Let_def py_bind_Inr_iff split: option.splits)
  moreover have "k < length expected \<and> list_all2 rows_agree (take k ?t) (take k expected) \<and>
      \<not> rows_agree (?t ! k) (expected ! k)" if d: "check_trace rows expected = Inr (Field_differs k f a b)"
  proof -
    from d have len: "length ?t = length expected" and "rows_differ 0 (zip ?t expected) = Inr (Some (k, f, a, b))"
      by (auto simp: check_trace_def Let_def py_bind_Inr_iff split: option.splits if_splits)
    from rows_differ_Some [OF this(2)] len show ?thesis
      by (auto simp: list_all2_iff take_zip row_differs_None [symmetric])
  qed
  ultimately show ?thesis by (auto simp: rows_differ_None list_all2_iff)
qed

definition demo_retire :: "int \<Rightarrow> int \<Rightarrow> json_row" where
  "demo_retire pc v = [(''type'', J_str ''retire''), (''pc'', J_int pc), (''instruction'', J_int 0x13), (''rd'', J_int 1),
     (''rd_write'', J_bool True), (''rd_wdata'', J_int v)]"

theorem check_trace_verdict_witness:
  "check_trace [demo_retire 0 7, [(''type'', J_str ''trap'')], demo_retire 4 8] [demo_retire 0 7, demo_retire 4 9] =
     Inr (Field_differs 1 ''rd_wdata'' (J_int 8) (J_int 9)) \<and>
   \<not> rows_agree (demo_retire 4 8) (demo_retire 4 9)"
proof -
  let ?rows = "[demo_retire 0 7, [(''type'', J_str ''trap'')], demo_retire 4 8]"
  have f: "filter is_retire ?rows = [demo_retire 0 7, demo_retire 4 8]" by code_simp
  have c: "check_trace ?rows [demo_retire 0 7, demo_retire 4 9] = Inr (Field_differs 1 ''rd_wdata'' (J_int 8) (J_int 9))"
    by code_simp
  with check_trace_verdict [of ?rows "[demo_retire 0 7, demo_retire 4 9]" 0 1 "''rd_wdata''" "J_int 8" "J_int 9"] f
  show ?thesis by simp
qed

section \<open>The two images of the prediction test\<close>

type_synonym image_words = "(int \<times> int) list"

definition layout_names :: "string list" where
  "layout_names = [''_start'', ''final_checks'', ''samples'', ''performance_markers'', ''level1'',
     ''segment1_begin'', ''segment1_end'', ''segment2_begin'', ''segment2_end'', ''segment3_begin'', ''segment3_end'']"

definition layout_events :: "(int \<times> int) list" where
  "layout_events = [(0x0102, 0x010f), (0x0105, 0x0110), (0x0107, 0x0111), (0x0108, 0x0112), (0x010f, 0x0113), (0x0114, 0x0108)]"

text \<open>\<open>addi x5, x0, event\<close> and \<open>csrw mhpmevent3 + n, x5\<close>.\<close>

definition event_load :: "int \<Rightarrow> int" where
  "event_load e = (push_bit 20 e OR push_bit 7 5) OR 0x13"

definition event_write :: "nat \<Rightarrow> int" where
  "event_write n = ((push_bit 20 (0x323 + int n) OR push_bit 15 5) OR push_bit 12 1) OR 0x73"

definition layout_word :: "image_words \<Rightarrow> int \<Rightarrow> int py" where
  "layout_word p pc = py_key (map_of p pc)"

definition layout_prefix :: "image_words \<Rightarrow> int \<Rightarrow> image_words" where
  "layout_prefix img final = filter (\<lambda>(pc, w). pc < final) img"

definition layout_change :: "image_words \<Rightarrow> image_words \<Rightarrow> int list \<Rightarrow> int \<Rightarrow> int list py" where
  "layout_change pa pb changes pc =
     py_bind (layout_word pa pc) (\<lambda>wa. py_bind (layout_word pb pc) (\<lambda>wb.
       if wa = wb then Inr changes else
         let n = length changes in
         py_bind (py_assert (n < 6)) (\<lambda>_. case layout_events ! n of (a, b) \<Rightarrow>
         py_bind (py_assert (wa = event_load a \<and> wb = event_load b)) (\<lambda>_.
         py_bind (layout_word pa (pc + 4)) (\<lambda>xa. py_bind (layout_word pb (pc + 4)) (\<lambda>xb.
         py_bind (py_assert (xa = xb \<and> xb = event_write n)) (\<lambda>_. Inr (changes @ [pc]))))))))"

definition layout_symbols :: "(string \<times> int) list \<Rightarrow> (string \<times> int) list \<Rightarrow> unit py" where
  "layout_symbols sa sb = l7_all (\<lambda>name. py_bind (py_key (map_of sa name)) (\<lambda>x. py_bind (py_key (map_of sb name)) (\<lambda>y.
     py_assert (x = y)))) layout_names"

definition layout_check :: "image_words \<Rightarrow> (string \<times> int) list \<Rightarrow> image_words \<Rightarrow> (string \<times> int) list \<Rightarrow> int list py" where
  "layout_check ia sa ib sb =
     py_bind (layout_symbols sa sb) (\<lambda>_.
     py_bind (py_key (map_of sa ''final_checks'')) (\<lambda>fa. py_bind (py_key (map_of sb ''final_checks'')) (\<lambda>fb.
       let pa = layout_prefix ia fa; pb = layout_prefix ib fb in
       py_bind (py_assert (set (map fst pa) = set (map fst pb))) (\<lambda>_.
       py_bind (py_run (layout_change pa pb) [] (sort (remdups (map fst pa)))) (\<lambda>changes.
       py_bind (py_assert (length changes = 6)) (\<lambda>_. Inr changes))))))"

lemma l7_all_Inr: "l7_all f xs = Inr () \<longleftrightarrow> (\<forall>x \<in> set xs. f x = Inr ())"
  by (induction xs) (auto simp: py_bind_Inr_iff)

lemma layout_prefix_map: "map_of (layout_prefix img final) pc = (if pc < final then map_of img pc else None)"
  by (induction img) (auto simp: layout_prefix_def)

text \<open>The differences found so far, among the addresses visited.\<close>

definition layout_inv :: "image_words \<Rightarrow> image_words \<Rightarrow> int list \<Rightarrow> int list \<Rightarrow> bool" where
  "layout_inv pa pb seen changes \<longleftrightarrow> (\<forall>pc \<in> set seen. pc \<notin> set changes \<longrightarrow> map_of pa pc = map_of pb pc) \<and>
     set changes \<subseteq> set seen \<and> length changes \<le> 6 \<and>
     (\<forall>n < length changes. map_of pa (changes ! n) = Some (event_load (fst (layout_events ! n))) \<and>
        map_of pb (changes ! n) = Some (event_load (snd (layout_events ! n))) \<and>
        map_of pa (changes ! n + 4) = Some (event_write n) \<and> map_of pb (changes ! n + 4) = Some (event_write n))"

lemma layout_change_inv:
  assumes inv: "layout_inv pa pb seen changes" and st: "layout_change pa pb changes pc = Inr changes'"
    and new: "pc \<notin> set seen"
  shows "layout_inv pa pb (seen @ [pc]) changes' \<and> (changes' = changes \<or> changes' = changes @ [pc])"
proof -
  from st consider "changes' = changes" "map_of pa pc = map_of pb pc"
    | a b where "changes' = changes @ [pc]" "length changes < 6" "layout_events ! length changes = (a, b)"
      "map_of pa pc = Some (event_load a)" "map_of pb pc = Some (event_load b)"
      "map_of pa (pc + 4) = Some (event_write (length changes))" "map_of pb (pc + 4) = Some (event_write (length changes))"
    by (auto simp: layout_change_def layout_word_def py_bind_Inr_iff Let_def split: if_splits prod.splits)
  then show ?thesis
  proof cases
    case 1
    with inv show ?thesis by (auto simp: layout_inv_def)
  next
    case 2
    then show ?thesis using inv new by (auto simp: layout_inv_def nth_append less_Suc_eq)
  qed
qed

lemma layout_run_inv:
  "py_run (layout_change pa pb) [] pcs = Inr changes \<Longrightarrow> distinct pcs \<Longrightarrow> sorted pcs \<Longrightarrow>
    layout_inv pa pb pcs changes \<and> sorted_wrt (<) changes"
proof (induction pcs arbitrary: changes rule: rev_induct)
  case Nil
  then show ?case by (auto simp: layout_inv_def)
next
  case (snoc pc pcs)
  from snoc.prems(1) obtain c1 where c1: "py_run (layout_change pa pb) [] pcs = Inr c1" "layout_change pa pb c1 pc = Inr changes"
    by (auto simp: py_run_append py_bind_Inr_iff)
  with snoc.IH snoc.prems have inv: "layout_inv pa pb pcs c1" and lt: "sorted_wrt (<) c1" by (auto simp: sorted_append)
  have "\<forall>x \<in> set c1. x < pc"
    using snoc.prems inv by (force simp: layout_inv_def sorted_append order.strict_iff_order)
  with layout_change_inv [OF inv c1(2)] snoc.prems lt show ?case by (auto simp: sorted_wrt_append)
qed

text \<open>C36: two images the layout check accepts have the measured region at the same addresses and with the same
  words, except for exactly six instructions in ascending order, the loads of the event numbers of the two groups,
  each followed in both by the write of its event selector.\<close>

theorem layout_check_sound:
  assumes "layout_check ia sa ib sb = Inr changes"
  shows "\<exists>final. map_of sa ''final_checks'' = Some final \<and> map_of sb ''final_checks'' = Some final \<and>
    (\<forall>pc < final. pc \<notin> set changes \<longrightarrow> map_of ia pc = map_of ib pc) \<and>
    length changes = 6 \<and> sorted_wrt (<) changes \<and>
    (\<forall>n < 6. changes ! n + 4 < final \<and>
       map_of ia (changes ! n) = Some (event_load (fst (layout_events ! n))) \<and>
       map_of ib (changes ! n) = Some (event_load (snd (layout_events ! n))) \<and>
       map_of ia (changes ! n + 4) = Some (event_write n) \<and> map_of ib (changes ! n + 4) = Some (event_write n))"
proof -
  from assms obtain final fb where sym: "layout_symbols sa sb = Inr ()"
    and f: "map_of sa ''final_checks'' = Some final" "map_of sb ''final_checks'' = Some fb"
    and keys: "set (map fst (layout_prefix ia final)) = set (map fst (layout_prefix ib fb))"
    and run: "py_run (layout_change (layout_prefix ia final) (layout_prefix ib fb)) []
      (sort (remdups (map fst (layout_prefix ia final)))) = Inr changes"
    and six: "length changes = 6"
    unfolding layout_check_def Let_def by (elim bind_InrE) (simp del: set_map)
  have "''final_checks'' \<in> set layout_names" by (simp add: layout_names_def)
  with sym f have fb: "fb = final" by (auto simp: layout_symbols_def l7_all_Inr py_bind_Inr_iff)
  from layout_run_inv [OF run] have inv: "layout_inv (layout_prefix ia final) (layout_prefix ib final)
      (sort (remdups (map fst (layout_prefix ia final)))) changes" and srt: "sorted_wrt (<) changes"
    by (simp_all add: fb)
  have "map_of ia pc = map_of ib pc" if "pc < final" "pc \<notin> set changes" for pc
  proof (cases "pc \<in> set (map fst (layout_prefix ia final))")
    case True
    with inv that have "map_of (layout_prefix ia final) pc = map_of (layout_prefix ib final) pc"
      unfolding layout_inv_def set_sort set_remdups by blast
    with that show ?thesis by (simp add: layout_prefix_map)
  next
    case False
    then have "map_of (layout_prefix ia final) pc = None" "map_of (layout_prefix ib final) pc = None"
      using keys fb by (simp_all add: map_of_eq_None_iff)
    with that show ?thesis by (simp add: layout_prefix_map)
  qed
  moreover have "changes ! n + 4 < final \<and>
       map_of ia (changes ! n) = Some (event_load (fst (layout_events ! n))) \<and>
       map_of ib (changes ! n) = Some (event_load (snd (layout_events ! n))) \<and>
       map_of ia (changes ! n + 4) = Some (event_write n) \<and> map_of ib (changes ! n + 4) = Some (event_write n)"
    if "n < 6" for n
    using inv that six by (auto simp: layout_inv_def layout_prefix_map split: if_splits)
  ultimately show ?thesis using f fb six srt by blast
qed

definition demo_image :: "(int \<times> int \<Rightarrow> int) \<Rightarrow> image_words" where
  "demo_image pick = (0, 0x13) # concat (map (\<lambda>n. [(8 * int n + 4, event_load (pick (layout_events ! n))),
     (8 * int n + 8, event_write n)]) [0..<6]) @ [(52, 0x6f), (56, pick (1, 2))]"

definition demo_symbols :: "(string \<times> int) list" where
  "demo_symbols = zip layout_names [0, 56, 0x80100000, 0x80100180, 20, 0, 8, 8, 16, 16, 24]"

theorem layout_check_sound_witness:
  "layout_check (demo_image fst) demo_symbols (demo_image snd) demo_symbols = Inr [4, 12, 20, 28, 36, 44] \<and>
   map_of (demo_image fst) 0 = map_of (demo_image snd) 0 \<and>
   map_of (demo_image fst) 52 = map_of (demo_image snd) 52 \<and>
   map_of (demo_image snd) 16 = Some (event_write 1)"
proof -
  have run: "layout_check (demo_image fst) demo_symbols (demo_image snd) demo_symbols = Inr [4, 12, 20, 28, 36, 44]"
    by code_simp
  have final: "map_of demo_symbols ''final_checks'' = Some 56" by code_simp
  note sound = layout_check_sound [OF run, unfolded final option.inject]
  from sound have same: "map_of (demo_image fst) pc = map_of (demo_image snd) pc"
    if "pc < 56" "pc \<notin> set [4, 12, 20, 28, 36, 44]" for pc
    using that by blast
  from sound have "map_of (demo_image snd) ([4, 12, 20, 28, 36, 44] ! 1 + 4) = Some (event_write 1)"
    by (meson one_less_numeral_iff semiring_norm(76) less_trans numeral_less_iff semiring_norm(78))
  then show ?thesis using run same [of 0] same [of 52] by simp
qed

end
