(* ===== verification/LSU_Bench.thy ===== *)
theory LSU_Bench
  imports Clocked Link_Codec "HOL-Library.AList"
begin

text \<open>
  The driver of the load/store unit tests, \<open>Bench\<close> of \<open>sim/cocotb/load_store_unit/l8a_lsu_agents.py\<close>: a
  two-port cache contract that answers a request one cycle after its second stage, and the load queue's view of
  replays, waits and branch resolution. The masks of the hardware's records (\<open>fmt_*\<close>) are a parameter, and so
  are the pins a cycle shows; a valid pin and its payload are one option. Words are Python integers.
\<close>

section \<open>State\<close>

record lsu_world =
  lw_fmt :: "string \<Rightarrow> string \<Rightarrow> nat"
  lw_has_wake :: bool
  lw_has_head :: bool

record lsu_port_pins =
  lp_wake :: int
  lp_result :: int
  lp_exc :: "(int \<times> int) option"
  lp_store :: "(int \<times> int) option"
  lp_update :: "int option"
  lp_s1 :: int
  lp_req :: "int option"
  lp_capture :: "int option"

record lsu_pins =
  lp_mark :: "(int \<times> int) option"
  lp_clear :: "(int \<times> int) option"
  lp_ad_wake :: bool
  lp_head_resp :: int
  lp_ports :: "nat \<Rightarrow> lsu_port_pins"
  lp_flush :: bool
  lp_resolution :: "(nat \<times> bool) option"
  lp_issue_ready :: "nat \<Rightarrow> bool"
  lp_replay_ready :: bool

record lsu_bench =
  lb_cycle :: nat
  lb_reply :: "int list"
  lb_s0 :: "int option list"
  lb_saved :: "(int \<times> int) list"
  lb_waits :: "(int \<times> int) list"
  lb_updates :: "(nat \<times> nat \<times> int) list"
  lb_results :: "(nat \<times> nat \<times> int) list"
  lb_stores :: "(nat \<times> nat \<times> int \<times> int) list"
  lb_requests :: "(nat \<times> nat \<times> int) list"
  lb_head_replies :: "int list"
  lb_exceptions :: "(nat \<times> nat \<times> int \<times> int) list"
  lb_marks :: "(nat \<times> int \<times> int) list"
  lb_clears :: "(nat \<times> int \<times> int) list"
  lb_ad_wakes :: "nat list"
  lb_wakes :: "(nat \<times> nat \<times> int) list"
  lb_error :: bool
  lb_block :: bool
  lb_forward :: bool
  lb_data :: int
  lb_miss :: bool
  lb_hold_result :: bool
  lb_mem_uop :: "int list"
  lb_replay :: "int \<times> bool"

definition lsu_new :: lsu_bench where
  "lsu_new = \<lparr>lb_cycle = 0, lb_reply = [0, 0], lb_s0 = [None, None], lb_saved = [], lb_waits = [], lb_updates = [],
     lb_results = [], lb_stores = [], lb_requests = [], lb_head_replies = [], lb_exceptions = [], lb_marks = [],
     lb_clears = [], lb_ad_wakes = [], lb_wakes = [], lb_error = False, lb_block = False, lb_forward = False,
     lb_data = 0, lb_miss = False, lb_hold_result = True, lb_mem_uop = [0, 0], lb_replay = (0, False)\<rparr>"

text \<open>What a cycle drives before its rising edge.\<close>

record lsu_drive =
  ld_dc_resp :: "int list"
  ld_block :: "int list"
  ld_forward_valid :: "int list"
  ld_forward_data :: "int list"
  ld_result_ready :: "int list"

definition lsu_drive_of :: "lsu_bench \<Rightarrow> lsu_drive" where
  "lsu_drive_of s = \<lparr>ld_dc_resp = lb_reply s, ld_block = replicate 2 (of_bool (lb_block s)),
     ld_forward_valid = replicate 2 (of_bool (lb_forward s)), ld_forward_data = replicate 2 (lb_data s),
     ld_result_ready = replicate 2 (of_bool (\<not> lb_hold_result s))\<rparr>"

section \<open>The cache's answers\<close>

definition lw_field :: "lsu_world \<Rightarrow> string \<Rightarrow> int \<Rightarrow> string \<Rightarrow> int py" where
  "lw_field w typ raw f = l3_field (lw_fmt w typ) raw f"

definition lw_codec :: "lsu_world \<Rightarrow> string \<Rightarrow> (string \<times> int) list \<Rightarrow> int py" where
  "lw_codec w typ fs = l3_codec (lw_fmt w typ) fs"

definition lsu_uop :: "lsu_world \<Rightarrow> int \<Rightarrow> int \<Rightarrow> bool \<Rightarrow> int \<Rightarrow> int \<Rightarrow> int \<Rightarrow> int \<Rightarrow> int \<Rightarrow> int py" where
  "lsu_uop w ident addr load msk rob lq sq v = lw_codec w ''uop'' [(''valid'', 1), (''instruction_id'', ident),
     (''rob_idx'', rob), (''lq_idx'', lq), (''sq_idx'', sq), (''dst_preg'', 7), (''dst_dom'', 1),
     (''is_load'', of_bool load), (''is_store'', of_bool (\<not> load)), (''mem_size'', 3), (''base_value'', addr),
     (''store_value'', v), (''branch_mask'', msk)]"

text \<open>The request of the second stage is the one the first stage captured.\<close>

fun lsu_aligned :: "lsu_world \<Rightarrow> int \<Rightarrow> int \<Rightarrow> string list \<Rightarrow> unit py" where
  "lsu_aligned w q s0 [] = Inr ()"
| "lsu_aligned w q s0 (f # fs) = py_bind (lw_field w ''request'' q f) (\<lambda>a. py_bind (lw_field w ''request'' s0 f) (\<lambda>b.
     py_bind (py_assert (a = b)) (\<lambda>_. lsu_aligned w q s0 fs)))"

definition owner_fields :: "string list" where
  "owner_fields = [''lq_tag.idx'', ''lq_tag.gen'', ''vaddr'', ''is_sta'']"

text \<open>Status, reason and exception.\<close>

definition lsu_status :: "lsu_world \<Rightarrow> bool \<Rightarrow> int \<Rightarrow> (int \<times> int \<times> int) py" where
  "lsu_status w miss q = py_bind (lw_field w ''request'' q ''exc'') (\<lambda>exc.
     if exc \<noteq> 0 then Inr (3, 0, exc)
     else py_bind (lw_field w ''request'' q ''translation_miss'') (\<lambda>t. if t \<noteq> 0 then Inr (2, 3, exc)
     else py_bind (lw_field w ''request'' q ''blocked'') (\<lambda>b.
          py_bind (if b \<noteq> 0 then py_bind (lw_field w ''request'' q ''is_sta'') (\<lambda>a. Inr (a = 0)) else Inr False) (\<lambda>blocked.
          if blocked then Inr (2, 1, exc)
          else py_bind (if miss then py_bind (lw_field w ''request'' q ''is_sta'') (\<lambda>a. Inr (a = 0)) else Inr False) (\<lambda>missed.
          if missed then Inr (1, 4, exc) else Inr (0, 0, exc))))))"

definition lsu_fault :: "lsu_world \<Rightarrow> int \<Rightarrow> (int \<times> int \<times> int) py" where
  "lsu_fault w q = py_bind (lw_field w ''request'' q ''is_sta'') (\<lambda>a. py_bind (lw_field w ''request'' q ''vaddr'') (\<lambda>va.
     Inr (3, 0, (push_bit 70 1 OR push_bit 64 (if a \<noteq> 0 then 7 else 5)) OR va)))"

definition lsu_reply :: "lsu_world \<Rightarrow> lsu_bench \<Rightarrow> int \<Rightarrow> int \<Rightarrow> int py" where
  "lsu_reply w s q s0 =
     py_bind (lw_field w ''request'' q ''lq_tag.idx'') (\<lambda>idx. py_bind (lw_field w ''request'' q ''lq_tag.gen'') (\<lambda>gen.
     py_bind (lsu_aligned w q s0 owner_fields) (\<lambda>_.
     py_bind (lsu_status w (lb_miss s) q) (\<lambda>st.
     py_bind (if lb_error s then lsu_fault w q else Inr st) (\<lambda>(status, reason, exc).
     py_bind (lw_field w ''request'' q ''forward_valid'') (\<lambda>fv.
     py_bind (if fv \<noteq> 0 then lw_field w ''request'' q ''forward_data'' else Inr (lb_data s)) (\<lambda>d.
     py_bind (lw_codec w ''response'' [(''valid'', 1), (''status'', status), (''reason'', reason), (''mshr_id'', 0),
       (''lq_tag.idx'', idx), (''lq_tag.gen'', gen), (''rdata'', d), (''exc'', exc)]) (\<lambda>r.
     if lw_has_head w
     then py_bind (lw_field w ''request'' q ''head'') (\<lambda>h. py_bind (lw_codec w ''response'' [(''head'', h)]) (\<lambda>x. Inr (r OR x)))
     else Inr r))))))))"

section \<open>One port\<close>

definition lsu_log_port :: "lsu_world \<Rightarrow> nat \<Rightarrow> lsu_port_pins \<Rightarrow> lsu_bench \<Rightarrow> lsu_bench py" where
  "lsu_log_port w p pp s =
     py_bind (if lw_has_wake w then py_bind (lw_field w ''wake'' (lp_wake pp) ''valid'') (\<lambda>v. Inr (if v \<noteq> 0
         then s\<lparr>lb_wakes := lb_wakes s @ [(lb_cycle s, p, lp_wake pp)]\<rparr> else s)) else Inr s) (\<lambda>s.
     py_bind (if lp_result pp \<noteq> 0 then py_bind (lw_field w ''result'' (lp_result pp) ''valid'') (\<lambda>v. Inr (if v \<noteq> 0
         then s\<lparr>lb_results := lb_results s @ [(lb_cycle s, p, lp_result pp)]\<rparr> else s)) else Inr s) (\<lambda>s.
       let s = (case lp_exc pp of None \<Rightarrow> s
                | Some (rob, e) \<Rightarrow> s\<lparr>lb_exceptions := lb_exceptions s @ [(lb_cycle s, p, rob, e)]\<rparr>)
       in Inr (case lp_store pp of None \<Rightarrow> s
               | Some (a, d) \<Rightarrow> s\<lparr>lb_stores := lb_stores s @ [(lb_cycle s, p, a, d)]\<rparr>)))"

definition lsu_update :: "lsu_world \<Rightarrow> nat \<Rightarrow> lsu_port_pins \<Rightarrow> lsu_bench \<Rightarrow> lsu_bench py" where
  "lsu_update w p pp s = (case lp_update pp of None \<Rightarrow> Inr s | Some a \<Rightarrow>
     py_bind (lw_field w ''response'' a ''lq_tag.idx'') (\<lambda>idx. py_bind (lw_field w ''response'' a ''status'') (\<lambda>status.
     py_bind (lw_field w ''response'' a ''reason'') (\<lambda>reason.
       Inr (s\<lparr>lb_updates := lb_updates s @ [(lb_cycle s, p, a)],
         lb_waits := (if status = 1 \<or> status = 2 then AList.update idx reason (lb_waits s)
                      else AList.delete idx (lb_waits s))\<rparr>)))))"

text \<open>The word saved for a replay: the captured request tagged with its queue index and generation 1.\<close>

definition lsu_capture :: "lsu_world \<Rightarrow> lsu_port_pins \<Rightarrow> lsu_bench \<Rightarrow> lsu_bench py" where
  "lsu_capture w pp s = (case lp_capture pp of None \<Rightarrow> Inr s | Some saved \<Rightarrow>
     py_bind (lw_field w ''replay'' saved ''uop'') (\<lambda>uop. py_bind (lw_field w ''uop'' uop ''lq_idx'') (\<lambda>idx.
     py_bind (lw_codec w ''replay'' [(''tag.idx'', idx), (''tag.gen'', 1)]) (\<lambda>t.
       Inr (s\<lparr>lb_saved := AList.update idx (saved OR t) (lb_saved s)\<rparr>)))))"

type_synonym lsu_next = "int list \<times> int option list"

definition lsu_port :: "lsu_world \<Rightarrow> nat \<Rightarrow> lsu_port_pins \<Rightarrow> lsu_bench \<times> lsu_next \<Rightarrow> (lsu_bench \<times> lsu_next) py" where
  "lsu_port w p pp = (\<lambda>(s, reply, s0).
     py_bind (lsu_log_port w p pp s) (\<lambda>s. py_bind (lsu_update w p pp s) (\<lambda>s.
     py_bind (case lb_s0 s ! p of None \<Rightarrow> Inr reply | Some old \<Rightarrow>
       py_bind (lsu_reply w s (lp_s1 pp) old) (\<lambda>r. Inr (reply[p := r]))) (\<lambda>reply.
     py_bind (case lp_req pp of None \<Rightarrow> Inr (s, s0) | Some req \<Rightarrow>
       py_bind (lw_field w ''request'' req ''vaddr'') (\<lambda>va.
         Inr (s\<lparr>lb_requests := lb_requests s @ [(lb_cycle s, p, va)]\<rparr>, s0[p := Some req]))) (\<lambda>(s, s0).
     py_bind (lsu_capture w pp s) (\<lambda>s. Inr (s, reply, s0)))))))"

section \<open>Branch resolution\<close>

text \<open>A misprediction drops the dependent entry; otherwise the resolved tag leaves its branch mask.\<close>

definition lsu_unmask :: "lsu_world \<Rightarrow> nat \<Rightarrow> int \<Rightarrow> int \<Rightarrow> int \<Rightarrow> int py" where
  "lsu_unmask w tag saved uop msk =
     py_bind (lw_codec w ''uop'' [(''branch_mask'', msk AND NOT (push_bit tag 1))]) (\<lambda>m.
     let uop' = (uop AND NOT (int (lw_fmt w ''uop'' ''branch_mask''))) OR m in
     py_bind (lw_codec w ''replay'' [(''uop'', uop')]) (\<lambda>u.
       Inr ((saved AND NOT (int (lw_fmt w ''replay'' ''uop''))) OR u)))"

definition lsu_resolve_one :: "lsu_world \<Rightarrow> nat \<Rightarrow> bool \<Rightarrow> lsu_bench \<Rightarrow> int \<times> int \<Rightarrow> lsu_bench py" where
  "lsu_resolve_one w tag mispredict s = (\<lambda>(idx, saved).
     py_bind (lw_field w ''replay'' saved ''uop'') (\<lambda>uop. py_bind (lw_field w ''uop'' uop ''branch_mask'') (\<lambda>msk.
       if mispredict \<and> msk AND push_bit tag 1 \<noteq> 0
       then Inr (s\<lparr>lb_saved := AList.delete idx (lb_saved s), lb_waits := AList.delete idx (lb_waits s)\<rparr>)
       else py_bind (lsu_unmask w tag saved uop msk) (\<lambda>x. Inr (s\<lparr>lb_saved := AList.update idx x (lb_saved s)\<rparr>)))))"

definition lsu_resolve :: "lsu_world \<Rightarrow> lsu_pins \<Rightarrow> lsu_bench \<Rightarrow> lsu_bench py" where
  "lsu_resolve w pins s = (case lp_resolution pins of None \<Rightarrow> Inr s
     | Some (tag, mispredict) \<Rightarrow> py_run (lsu_resolve_one w tag mispredict) s (lb_saved s))"

section \<open>A cycle and the drivers\<close>

definition lsu_log :: "lsu_pins \<Rightarrow> lsu_bench \<Rightarrow> lsu_bench" where
  "lsu_log pins s = s\<lparr>
     lb_marks := (case lp_mark pins of None \<Rightarrow> lb_marks s | Some (i, va) \<Rightarrow> lb_marks s @ [(lb_cycle s, i, va)]),
     lb_clears := (case lp_clear pins of None \<Rightarrow> lb_clears s | Some (i, va) \<Rightarrow> lb_clears s @ [(lb_cycle s, i, va)]),
     lb_ad_wakes := (if lp_ad_wake pins then lb_ad_wakes s @ [lb_cycle s] else lb_ad_wakes s),
     lb_head_replies := (if lp_head_resp pins \<noteq> 0 then lb_head_replies s @ [lp_head_resp pins] else lb_head_replies s)\<rparr>"

definition lsu_tick :: "lsu_world \<Rightarrow> lsu_bench \<Rightarrow> lsu_pins \<Rightarrow> lsu_bench py" where
  "lsu_tick w s pins =
     py_bind (lsu_port w 0 (lp_ports pins 0) (lsu_log pins s, [0, 0], [None, None])) (\<lambda>x.
     py_bind (lsu_port w 1 (lp_ports pins 1) x) (\<lambda>(s, reply, s0).
     let s = (if lp_flush pins then s\<lparr>lb_saved := [], lb_waits := []\<rparr> else s) in
     py_bind (lsu_resolve w pins s) (\<lambda>s.
       Inr (s\<lparr>lb_s0 := s0, lb_reply := reply, lb_cycle := lb_cycle s + 1\<rparr>))))"

primrec lsu_until :: "(lsu_bench \<Rightarrow> lsu_bench py) \<Rightarrow> (lsu_bench \<Rightarrow> bool) \<Rightarrow> nat \<Rightarrow> lsu_bench \<Rightarrow> lsu_bench py" where
  "lsu_until tick pred 0 s = Inl AssertionError"
| "lsu_until tick pred (Suc n) s = (if pred s then Inr s else py_bind (tick s) (lsu_until tick pred n))"

text \<open>The drivers see the pins of each cycle (\<open>pins\<close>).\<close>

definition lsu_issue :: "lsu_world \<Rightarrow> (nat \<Rightarrow> lsu_pins) \<Rightarrow> int list \<Rightarrow> lsu_bench \<Rightarrow> lsu_bench py" where
  "lsu_issue w pins uops s = (let tick = (\<lambda>s. lsu_tick w s (pins (lb_cycle s))) in
     py_bind (lsu_until tick (\<lambda>s. list_all (lp_issue_ready (pins (lb_cycle s))) [0..<length uops]) 100 s) (\<lambda>s.
     py_bind (tick (s\<lparr>lb_mem_uop := uops @ replicate (2 - length uops) 0\<rparr>)) (\<lambda>s. Inr (s\<lparr>lb_mem_uop := [0, 0]\<rparr>))))"

definition lsu_replay :: "lsu_world \<Rightarrow> (nat \<Rightarrow> lsu_pins) \<Rightarrow> int \<Rightarrow> lsu_bench \<Rightarrow> lsu_bench py" where
  "lsu_replay w pins idx s = (let tick = (\<lambda>s. lsu_tick w s (pins (lb_cycle s))) in
     py_bind (py_assert (map_of (lb_saved s) idx \<noteq> None \<and> map_of (lb_waits s) idx \<noteq> None)) (\<lambda>_.
     py_bind (lsu_until tick (\<lambda>s. lp_replay_ready (pins (lb_cycle s))) 100 s) (\<lambda>s.
     py_bind (py_key (map_of (lb_saved s) idx)) (\<lambda>word.
     py_bind (tick (s\<lparr>lb_replay := (word, True)\<rparr>)) (\<lambda>s. Inr (s\<lparr>lb_replay := (fst (lb_replay s), False)\<rparr>))))))"


section \<open>Words of fields\<close>

lemma l3_field_cong: "raw AND int (fmt f) = raw' AND int (fmt f) \<Longrightarrow> l3_field fmt raw f = l3_field fmt raw' f"
  by (simp add: l3_field_def Let_def)

lemma l3_codec_inside:
  assumes "l3_codec fmt fs = Inr c" "bit c i"
  obtains f v where "(f, v) \<in> set fs" "bit (fmt f) i"
  using l3_codec_from_bits [OF assms(1) [unfolded l3_codec_def]] assms(2) by fastforce

lemma nat_and_zero: "m AND n = (0::nat) \<Longrightarrow> bit m i \<Longrightarrow> \<not> bit n i"
  by (metis bit_and_iff bit_0_eq bot_apply bot_bool_def)

lemma l3_codec_disjoint:
  assumes "l3_codec fmt fs = Inr c" "\<forall>f \<in> fst ` set fs. fmt f AND fmt g = 0"
  shows "c AND int (fmt g) = 0"
proof (rule bit_eqI)
  fix i
  have "\<not> bit (fmt g) i" if b: "bit c i"
  proof -
    from l3_codec_inside [OF assms(1) b] obtain f v where "(f, v) \<in> set fs" "bit (fmt f) i" .
    with assms(2) show ?thesis using nat_and_zero by force
  qed
  then show "bit (c AND int (fmt g)) i = bit 0 i" by (auto simp: bit_and_iff bit_of_nat_iff_bit)
qed

text \<open>A field outside the words or-ed in is unchanged.\<close>

lemma l3_field_or_other:
  assumes "l3_codec fmt fs = Inr c" "\<forall>f \<in> fst ` set fs. fmt f AND fmt g = 0"
  shows "l3_field fmt (raw OR c) g = l3_field fmt raw g"
  using l3_codec_disjoint [OF assms] by (intro l3_field_cong) (simp add: bit.conj_disj_distrib2)

text \<open>A field that was clear takes the value or-ed in.\<close>

lemma l3_field_or_clear:
  assumes "l3_codec fmt fs = Inr c" "raw AND int (fmt f) = 0"
  shows "l3_field fmt (raw OR c) f = l3_field fmt c f"
  using assms(2) by (intro l3_field_cong) (simp add: bit.conj_disj_distrib2)

lemma l3_field_zero_iff: "l3_field fmt raw f = Inr 0 \<longleftrightarrow> 0 < fmt f \<and> raw AND int (fmt f) = 0"
proof (cases "0 < fmt f")
  case True
  then obtain k where k: "l3_shift (fmt f) = int k" "bit (fmt f) k" "\<forall>i < k. \<not> bit (fmt f) i" by (rule l3_shift_pos)
  have "drop_bit k (raw AND int (fmt f)) = 0 \<longleftrightarrow> raw AND int (fmt f) = 0"
  proof
    assume d: "drop_bit k (raw AND int (fmt f)) = 0"
    have "\<not> bit (raw AND int (fmt f)) i" for i
    proof (cases "i < k")
      case True
      with k(3) show ?thesis by (simp add: bit_and_iff bit_of_nat_iff_bit)
    next
      case False
      from d have "\<not> bit (drop_bit k (raw AND int (fmt f))) (i - k)" by simp
      with False show ?thesis by (simp add: bit_drop_bit_eq bit_and_iff)
    qed
    then show "raw AND int (fmt f) = 0" by (intro bit_eqI) simp
  qed simp
  with True k(1) show ?thesis by (simp add: l3_field_def Let_def)
qed (simp add: l3_field_def l3_shift_0)

lemma l3_codec_one: "l3_codec fmt [(f, v)] = Inr c \<Longrightarrow> l3_field fmt c f = Inr v"
  by (rule l3_codec_field [of fmt "[(f, v)]"]) simp_all

text \<open>Clearing a field and or-ing a value in sets it and leaves the disjoint fields.\<close>

lemma l3_set_field:
  assumes "l3_codec fmt [(f, v)] = Inr c"
  shows "l3_field fmt ((raw AND NOT (int (fmt f))) OR c) f = Inr v"
    and "fmt f AND fmt g = 0 \<Longrightarrow> l3_field fmt ((raw AND NOT (int (fmt f))) OR c) g = l3_field fmt raw g"
proof -
  have "(raw AND NOT (int (fmt f))) AND int (fmt f) = 0"
    by (rule bit_eqI) (simp add: bit_and_iff bit_not_iff)
  from l3_field_or_clear [OF assms this] l3_codec_one [OF assms]
  show "l3_field fmt ((raw AND NOT (int (fmt f))) OR c) f = Inr v" by simp
  assume d: "fmt f AND fmt g = 0"
  then have "l3_field fmt ((raw AND NOT (int (fmt f))) OR c) g = l3_field fmt (raw AND NOT (int (fmt f))) g"
    by (intro l3_field_or_other [OF assms]) simp
  also have "\<dots> = l3_field fmt raw g"
  proof (rule l3_field_cong, rule bit_eqI)
    fix i
    show "bit ((raw AND NOT (int (fmt f))) AND int (fmt g)) i = bit (raw AND int (fmt g)) i"
      using nat_and_zero [OF d, of i] by (auto simp: bit_and_iff bit_not_iff bit_of_nat_iff_bit)
  qed
  finally show "l3_field fmt ((raw AND NOT (int (fmt f))) OR c) g = l3_field fmt raw g" .
qed


section \<open>Saved requests\<close>

definition lsu_format :: "lsu_world \<Rightarrow> bool" where
  "lsu_format w \<longleftrightarrow> (let r = lw_fmt w ''replay''; u = lw_fmt w ''uop'' in
     r ''uop'' AND r ''tag.idx'' = 0 \<and> r ''uop'' AND r ''tag.gen'' = 0 \<and> r ''tag.idx'' AND r ''tag.gen'' = 0 \<and>
     u ''branch_mask'' AND u ''lq_idx'' = 0)"

text \<open>The captures of a cycle come with a clear tag.\<close>

definition lsu_legal :: "lsu_world \<Rightarrow> lsu_pins \<Rightarrow> bool" where
  "lsu_legal w pins \<longleftrightarrow> list_all (\<lambda>p. case lp_capture (lp_ports pins p) of None \<Rightarrow> True
     | Some x \<Rightarrow> lw_field w ''replay'' x ''tag.idx'' = Inr 0 \<and> lw_field w ''replay'' x ''tag.gen'' = Inr 0) [0, 1]"

text \<open>A saved request that carries its queue index in the tag and in its micro-operation.\<close>

definition saved_ok :: "lsu_world \<Rightarrow> int \<Rightarrow> int \<Rightarrow> bool" where
  "saved_ok w idx raw \<longleftrightarrow> lw_field w ''replay'' raw ''tag.idx'' = Inr idx \<and> lw_field w ''replay'' raw ''tag.gen'' = Inr 1 \<and>
     (\<exists>uop. lw_field w ''replay'' raw ''uop'' = Inr uop \<and> lw_field w ''uop'' uop ''lq_idx'' = Inr idx)"

definition depends_on :: "lsu_world \<Rightarrow> nat \<Rightarrow> int \<Rightarrow> bool" where
  "depends_on w tag raw \<longleftrightarrow> (\<exists>uop m. lw_field w ''replay'' raw ''uop'' = Inr uop \<and>
     lw_field w ''uop'' uop ''branch_mask'' = Inr m \<and> bit m tag)"

definition lsu_saved_inv :: "lsu_world \<Rightarrow> lsu_bench \<Rightarrow> bool" where
  "lsu_saved_inv w s \<longleftrightarrow> distinct (map fst (lb_saved s)) \<and> (\<forall>(idx, raw) \<in> set (lb_saved s). saved_ok w idx raw)"

lemma lsu_saved_inv_alt: "lsu_saved_inv w s \<longleftrightarrow> distinct (map fst (lb_saved s)) \<and>
    (\<forall>idx raw. map_of (lb_saved s) idx = Some raw \<longrightarrow> saved_ok w idx raw)"
  unfolding lsu_saved_inv_def by (auto dest: map_of_SomeD)

lemma lsu_capture_ok:
  assumes fmt: "lsu_format w" and inv: "lsu_saved_inv w s" and cap: "lsu_capture w pp s = Inr s'"
    and clear: "\<And>x. lp_capture pp = Some x \<Longrightarrow>
      lw_field w ''replay'' x ''tag.idx'' = Inr 0 \<and> lw_field w ''replay'' x ''tag.gen'' = Inr 0"
  shows "lsu_saved_inv w s'"
proof (cases "lp_capture pp")
  case None
  with inv cap show ?thesis by (simp add: lsu_capture_def)
next
  case (Some x)
  with cap obtain uop idx t where u: "lw_field w ''replay'' x ''uop'' = Inr uop" "lw_field w ''uop'' uop ''lq_idx'' = Inr idx"
    and t: "l3_codec (lw_fmt w ''replay'') [(''tag.idx'', idx), (''tag.gen'', 1)] = Inr t"
    and s': "s' = s\<lparr>lb_saved := AList.update idx (x OR t) (lb_saved s)\<rparr>"
    by (auto simp: lsu_capture_def py_bind_Inr_iff lw_codec_def)
  let ?r = "lw_fmt w ''replay''"
  have d: "?r ''uop'' AND ?r ''tag.idx'' = 0" "?r ''uop'' AND ?r ''tag.gen'' = 0" "?r ''tag.idx'' AND ?r ''tag.gen'' = 0"
    using fmt by (simp_all add: lsu_format_def Let_def)
  have tags: "l3_field ?r t ''tag.idx'' = Inr idx" "l3_field ?r t ''tag.gen'' = Inr 1"
    using d by (auto intro!: l3_codec_field [OF t] simp: and.commute)
  have "lw_field w ''replay'' (x OR t) ''uop'' = Inr uop"
    using u(1) l3_field_or_other [OF t, of "''uop''" x] d by (simp add: lw_field_def and.commute)
  moreover have "lw_field w ''replay'' (x OR t) ''tag.idx'' = Inr idx" "lw_field w ''replay'' (x OR t) ''tag.gen'' = Inr 1"
    using clear [OF Some] tags l3_field_or_clear [OF t, of x] by (simp_all add: lw_field_def l3_field_zero_iff)
  ultimately have "saved_ok w idx (x OR t)" using u(2) by (simp add: saved_ok_def)
  with inv show ?thesis
    by (auto simp: s' lsu_saved_inv_alt distinct_update update_conv' split: if_splits)
qed

text \<open>One saved request under a resolution.\<close>

definition resolved :: "lsu_world \<Rightarrow> nat \<Rightarrow> bool \<Rightarrow> int \<Rightarrow> int option \<Rightarrow> bool" where
  "resolved w tag mispredict raw after \<longleftrightarrow> (case after of
     None \<Rightarrow> mispredict \<and> depends_on w tag raw
   | Some raw' \<Rightarrow> \<not> (mispredict \<and> depends_on w tag raw) \<and> (\<exists>uop uop' m.
       lw_field w ''replay'' raw ''uop'' = Inr uop \<and> lw_field w ''uop'' uop ''branch_mask'' = Inr m \<and>
       lw_field w ''replay'' raw' ''uop'' = Inr uop' \<and>
       lw_field w ''uop'' uop' ''branch_mask'' = Inr (m AND NOT (push_bit tag 1)) \<and>
       lw_field w ''uop'' uop' ''lq_idx'' = lw_field w ''uop'' uop ''lq_idx'' \<and>
       lw_field w ''replay'' raw' ''tag.idx'' = lw_field w ''replay'' raw ''tag.idx'' \<and>
       lw_field w ''replay'' raw' ''tag.gen'' = lw_field w ''replay'' raw ''tag.gen''))"

lemma bit_and_single: "(m::int) AND push_bit tag 1 \<noteq> 0 \<longleftrightarrow> bit m tag"
proof -
  have "m AND push_bit tag 1 = (if bit m tag then push_bit tag 1 else 0)"
    by (rule bit_eqI) (auto simp: bit_and_iff bit_exp_iff)
  then show ?thesis by simp
qed

lemma lsu_unmask_resolved:
  assumes fmt: "lsu_format w" and u: "lw_field w ''replay'' raw ''uop'' = Inr uop" "lw_field w ''uop'' uop ''branch_mask'' = Inr m"
    and st: "lsu_unmask w tag raw uop m = Inr raw'" and kept: "\<not> (mispredict \<and> bit m tag)"
  shows "resolved w tag mispredict raw (Some raw')"
proof -
  let ?r = "lw_fmt w ''replay''" and ?u = "lw_fmt w ''uop''"
  from st obtain c d where c: "l3_codec ?u [(''branch_mask'', m AND NOT (push_bit tag 1))] = Inr c"
    and d: "l3_codec ?r [(''uop'', (uop AND NOT (int (?u ''branch_mask''))) OR c)] = Inr d"
    and raw': "raw' = (raw AND NOT (int (?r ''uop''))) OR d"
    by (auto simp: lsu_unmask_def lw_codec_def py_bind_Inr_iff Let_def)
  have dis: "?u ''branch_mask'' AND ?u ''lq_idx'' = 0" "?r ''uop'' AND ?r ''tag.idx'' = 0" "?r ''uop'' AND ?r ''tag.gen'' = 0"
    using fmt by (simp_all add: lsu_format_def Let_def)
  note r = l3_set_field(1) [OF d, of raw] l3_set_field(2) [OF d dis(2), of raw] l3_set_field(2) [OF d dis(3), of raw]
  note b = l3_set_field(1) [OF c, of uop] l3_set_field(2) [OF c dis(1), of uop]
  have "\<not> (mispredict \<and> depends_on w tag raw)" using u kept by (auto simp: depends_on_def)
  then show ?thesis using u r b by (simp add: resolved_def lw_field_def raw')
qed

lemma resolve_one_spec:
  assumes "lsu_format w" "lsu_resolve_one w tag mis s (idx, raw) = Inr s'"
  shows "resolved w tag mis raw (map_of (lb_saved s') idx) \<and>
    (\<forall>i. i \<noteq> idx \<longrightarrow> map_of (lb_saved s') i = map_of (lb_saved s) i) \<and>
    (distinct (map fst (lb_saved s)) \<longrightarrow> distinct (map fst (lb_saved s')))"
proof -
  from assms(2) obtain uop m where u: "lw_field w ''replay'' raw ''uop'' = Inr uop" "lw_field w ''uop'' uop ''branch_mask'' = Inr m"
    and rest: "(if mis \<and> bit m tag
       then Inr (s\<lparr>lb_saved := AList.delete idx (lb_saved s), lb_waits := AList.delete idx (lb_waits s)\<rparr>)
       else py_bind (lsu_unmask w tag raw uop m) (\<lambda>x. Inr (s\<lparr>lb_saved := AList.update idx x (lb_saved s)\<rparr>))) = Inr s'"
    unfolding lsu_resolve_one_def prod.case bit_and_single by (elim bind_InrE) blast
  show ?thesis
  proof (cases "mis \<and> bit m tag")
    case True
    with u have "depends_on w tag raw" by (auto simp: depends_on_def)
    with True rest show ?thesis
      by (auto simp: resolved_def delete_conv' distinct_delete)
  next
    case False
    with rest obtain x where x: "lsu_unmask w tag raw uop m = Inr x"
      and s': "s' = s\<lparr>lb_saved := AList.update idx x (lb_saved s)\<rparr>"
      by (auto simp: py_bind_Inr_iff)
    from lsu_unmask_resolved [OF assms(1) u x False] s' show ?thesis
      by (simp add: update_conv' distinct_update)
  qed
qed


lemma resolve_run_spec:
  assumes fmt: "lsu_format w"
  shows "distinct (map fst xs) \<Longrightarrow> py_run (lsu_resolve_one w tag mis) s xs = Inr s' \<Longrightarrow>
    (\<forall>(i, raw) \<in> set xs. resolved w tag mis raw (map_of (lb_saved s') i)) \<and>
    (\<forall>i. i \<notin> fst ` set xs \<longrightarrow> map_of (lb_saved s') i = map_of (lb_saved s) i) \<and>
    (distinct (map fst (lb_saved s)) \<longrightarrow> distinct (map fst (lb_saved s')))"
proof (induction xs arbitrary: s)
  case (Cons x xs)
  obtain i raw where x: "x = (i, raw)" by (cases x)
  with Cons.prems obtain s1 where one: "lsu_resolve_one w tag mis s (i, raw) = Inr s1"
    and rest: "py_run (lsu_resolve_one w tag mis) s1 xs = Inr s'" by (auto simp: py_bind_Inr_iff)
  from Cons.prems x have "i \<notin> fst ` set xs" "distinct (map fst xs)" by auto
  with Cons.IH [OF _ rest] resolve_one_spec [OF fmt one] show ?case by (auto simp: x)
qed simp

lemma resolved_ok: "resolved w tag mis raw (Some raw') \<Longrightarrow> saved_ok w idx raw \<Longrightarrow> saved_ok w idx raw'"
  by (auto simp: resolved_def saved_ok_def)

lemma resolved_free: "resolved w tag mis raw (Some raw') \<Longrightarrow> \<not> depends_on w tag raw'"
  by (auto simp: resolved_def depends_on_def bit_and_iff bit_not_iff bit_exp_iff push_bit_eq_mult)

lemma lsu_resolve_map:
  assumes "lsu_format w" "lsu_saved_inv w s" "lp_resolution pins = Some (tag, mis)" "lsu_resolve w pins s = Inr s'"
  shows "distinct (map fst (lb_saved s')) \<and> (\<forall>idx. case map_of (lb_saved s) idx of
      None \<Rightarrow> map_of (lb_saved s') idx = None | Some raw \<Rightarrow> resolved w tag mis raw (map_of (lb_saved s') idx))"
proof -
  have d: "distinct (map fst (lb_saved s))" using assms(2) by (simp add: lsu_saved_inv_def)
  have "py_run (lsu_resolve_one w tag mis) s (lb_saved s) = Inr s'" using assms(3,4) by (simp add: lsu_resolve_def)
  note spec = resolve_run_spec [OF assms(1) d this]
  show ?thesis using spec d by (auto split: option.split dest: map_of_SomeD simp: map_of_eq_None_iff)
qed

lemma lsu_resolve_ok:
  assumes "lsu_format w" "lsu_saved_inv w s" "lsu_resolve w pins s = Inr s'"
  shows "lsu_saved_inv w s'"
proof (cases "lp_resolution pins")
  case None
  with assms show ?thesis by (simp add: lsu_resolve_def)
next
  case (Some r)
  then obtain tag mis where r: "lp_resolution pins = Some (tag, mis)" by (cases r) auto
  note m = lsu_resolve_map [OF assms(1,2) r assms(3)]
  have "saved_ok w idx raw'" if "map_of (lb_saved s') idx = Some raw'" for idx raw'
  proof -
    from m [THEN conjunct2, rule_format, of idx] that obtain raw where "map_of (lb_saved s) idx = Some raw"
      "resolved w tag mis raw (Some raw')" by (auto split: option.splits)
    with assms(2) show ?thesis by (auto simp: lsu_saved_inv_alt intro: resolved_ok)
  qed
  with m show ?thesis by (auto simp: lsu_saved_inv_alt)
qed

lemma lsu_resolve_free:
  assumes "lsu_format w" "lsu_saved_inv w s" "lp_resolution pins = Some (tag, mis)" "lsu_resolve w pins s = Inr s'"
  shows "\<forall>(idx, raw) \<in> set (lb_saved s'). \<not> depends_on w tag raw"
proof -
  note m = lsu_resolve_map [OF assms]
  have "\<not> depends_on w tag raw'" if "map_of (lb_saved s') idx = Some raw'" for idx raw'
    using m [THEN conjunct2, rule_format, of idx] that by (auto split: option.splits dest: resolved_free)
  then show ?thesis using m by (auto simp: map_of_eq_Some_iff)
qed

section \<open>A cycle keeps the saved requests\<close>

lemma lsu_log_port_saved: "lsu_log_port w p pp s = Inr s' \<Longrightarrow> lb_saved s' = lb_saved s"
  unfolding lsu_log_port_def Let_def
  by (elim bind_InrE) (auto split: if_splits option.splits simp: py_bind_Inr_iff)

lemma lsu_update_saved: "lsu_update w p pp s = Inr s' \<Longrightarrow> lb_saved s' = lb_saved s"
  by (auto simp: lsu_update_def py_bind_Inr_iff split: option.splits)

lemma lsu_saved_inv_cong: "lb_saved s' = lb_saved s \<Longrightarrow> lsu_saved_inv w s' = lsu_saved_inv w s"
  by (simp add: lsu_saved_inv_def)

lemma lsu_port_ok:
  assumes fmt: "lsu_format w" and inv: "lsu_saved_inv w s" and st: "lsu_port w p pp (s, reply, s0) = Inr (s', x)"
    and clear: "\<And>x. lp_capture pp = Some x \<Longrightarrow>
      lw_field w ''replay'' x ''tag.idx'' = Inr 0 \<and> lw_field w ''replay'' x ''tag.gen'' = Inr 0"
  shows "lsu_saved_inv w s'"
proof -
  from st obtain a b c d where a: "lsu_log_port w p pp s = Inr a" "lsu_update w p pp a = Inr b"
    and c: "(case lp_req pp of None \<Rightarrow> Inr (b, s0) | Some req \<Rightarrow>
       py_bind (lw_field w ''request'' req ''vaddr'') (\<lambda>va.
         Inr (b\<lparr>lb_requests := lb_requests b @ [(lb_cycle b, p, va)]\<rparr>, s0[p := Some req]))) = Inr (c, d)"
    and s': "lsu_capture w pp c = Inr s'"
    unfolding lsu_port_def prod.case by (elim bind_InrE) (auto simp: py_bind_Inr_iff)
  have "lb_saved c = lb_saved b" using c by (auto simp: py_bind_Inr_iff split: option.splits)
  then have "lsu_saved_inv w c" using inv lsu_log_port_saved [OF a(1)] lsu_update_saved [OF a(2)]
    by (simp add: lsu_saved_inv_def)
  from lsu_capture_ok [OF fmt this s' clear] show ?thesis .
qed

lemma lsu_tick_parts:
  assumes "lsu_format w" "lsu_legal w pins" "lsu_saved_inv w s" "lsu_tick w s pins = Inr s'"
  obtains s1 s2 where "lsu_saved_inv w s1" "lsu_resolve w pins s1 = Inr s2" "lb_saved s' = lb_saved s2"
    "lp_flush pins \<longrightarrow> lb_saved s1 = []"
proof -
  from assms(4) obtain a r0 n0 b r1 n1 c where a: "lsu_port w 0 (lp_ports pins 0) (lsu_log pins s, [0, 0], [None, None]) = Inr (a, r0, n0)"
    and b: "lsu_port w 1 (lp_ports pins 1) (a, r0, n0) = Inr (b, r1, n1)"
    and c: "lsu_resolve w pins (if lp_flush pins then b\<lparr>lb_saved := [], lb_waits := []\<rparr> else b) = Inr c"
    and s': "lb_saved s' = lb_saved c"
  proof -
    from assms(4) obtain x where x: "lsu_port w 0 (lp_ports pins 0) (lsu_log pins s, [0, 0], [None, None]) = Inr x"
      and rest: "py_bind (lsu_port w 1 (lp_ports pins 1) x) (\<lambda>(s, reply, s0).
         py_bind (lsu_resolve w pins (if lp_flush pins then s\<lparr>lb_saved := [], lb_waits := []\<rparr> else s)) (\<lambda>s.
           Inr (s\<lparr>lb_s0 := s0, lb_reply := reply, lb_cycle := lb_cycle s + 1\<rparr>))) = Inr s'"
      unfolding lsu_tick_def Let_def by (rule bind_InrE)
    obtain a r0 n0 where xx: "x = (a, r0, n0)" by (cases x)
    from rest obtain y where y: "lsu_port w 1 (lp_ports pins 1) x = Inr y"
      and rest: "(case y of (s, reply, s0) \<Rightarrow>
         py_bind (lsu_resolve w pins (if lp_flush pins then s\<lparr>lb_saved := [], lb_waits := []\<rparr> else s)) (\<lambda>s.
           Inr (s\<lparr>lb_s0 := s0, lb_reply := reply, lb_cycle := lb_cycle s + 1\<rparr>))) = Inr s'"
      by (rule bind_InrE)
    obtain b r1 n1 where yy: "y = (b, r1, n1)" by (cases y)
    from rest [unfolded yy prod.case] obtain c where
      c: "lsu_resolve w pins (if lp_flush pins then b\<lparr>lb_saved := [], lb_waits := []\<rparr> else b) = Inr c"
      and e: "Inr (c\<lparr>lb_s0 := n1, lb_reply := r1, lb_cycle := lb_cycle c + 1\<rparr>) = (Inr s' :: lsu_bench py)" by (rule bind_InrE)
    from e have "lb_saved s' = lb_saved c" by auto
    from that [OF x [unfolded xx] y [unfolded xx yy] c this] show thesis .
  qed
  have l: "lw_field w ''replay'' x ''tag.idx'' = Inr 0 \<and> lw_field w ''replay'' x ''tag.gen'' = Inr 0"
    if "lp_capture (lp_ports pins p) = Some x" "p = 0 \<or> p = 1" for p x
    using assms(2) that by (auto simp: lsu_legal_def)
  have "lsu_saved_inv w (lsu_log pins s)" using assms(3) by (simp add: lsu_saved_inv_def lsu_log_def)
  from lsu_port_ok [OF assms(1) this a] l have "lsu_saved_inv w a" by blast
  from lsu_port_ok [OF assms(1) this b] l have "lsu_saved_inv w b" by blast
  then have "lsu_saved_inv w (if lp_flush pins then b\<lparr>lb_saved := [], lb_waits := []\<rparr> else b)"
    by (simp add: lsu_saved_inv_def)
  from that [OF this c s'] show thesis by simp
qed

lemma lsu_tick_ok:
  assumes "lsu_format w" "lsu_legal w pins" "lsu_saved_inv w s" "lsu_tick w s pins = Inr s'"
  shows "lsu_saved_inv w s'"
proof -
  obtain s1 s2 where s: "lsu_saved_inv w s1" "lsu_resolve w pins s1 = Inr s2" "lb_saved s' = lb_saved s2"
    by (rule lsu_tick_parts [OF assms])
  from lsu_resolve_ok [OF assms(1) s(1,2)] show ?thesis using lsu_saved_inv_cong [OF s(3), of w] by simp
qed




section \<open>Answers\<close>

definition lw_value :: "lsu_world \<Rightarrow> string \<Rightarrow> int \<Rightarrow> string \<Rightarrow> int" where
  "lw_value w typ raw f = drop_bit (nat (l3_shift (lw_fmt w typ f))) (raw AND int (lw_fmt w typ f))"

definition request_fields :: "string list" where
  "request_fields = [''lq_tag.idx'', ''lq_tag.gen'', ''vaddr'', ''is_sta'', ''exc'', ''translation_miss'', ''blocked'',
     ''forward_valid'', ''forward_data'', ''head'']"

definition response_fields :: "string list" where
  "response_fields = [''valid'', ''status'', ''reason'', ''mshr_id'', ''lq_tag.idx'', ''lq_tag.gen'', ''rdata'', ''exc'', ''head'']"

definition lsu_link_format :: "lsu_world \<Rightarrow> bool" where
  "lsu_link_format w \<longleftrightarrow> (\<forall>f \<in> set request_fields. 0 < lw_fmt w ''request'' f) \<and>
     (\<forall>f \<in> set response_fields. \<forall>g \<in> set response_fields. f \<noteq> g \<longrightarrow> lw_fmt w ''response'' f AND lw_fmt w ''response'' g = 0)"

lemma lw_field_value: "0 < lw_fmt w typ f \<Longrightarrow> lw_field w typ raw f = Inr (lw_value w typ raw f)"
  by (simp add: lw_field_def l3_field_def lw_value_def Let_def l3_shift_neg_iff)

lemma lw_value_of: "lw_field w typ raw f = Inr v \<Longrightarrow> lw_value w typ raw f = v"
  by (simp add: lw_field_def l3_field_def lw_value_def Let_def split: if_splits)

lemma lsu_request_value: "lsu_link_format w \<Longrightarrow> f \<in> set request_fields \<Longrightarrow>
    lw_field w ''request'' raw f = Inr (lw_value w ''request'' raw f)"
  by (simp add: lsu_link_format_def lw_field_value)

lemma lsu_aligned_Inr: "lsu_link_format w \<Longrightarrow> set fs \<subseteq> set request_fields \<Longrightarrow>
    lsu_aligned w q s0 fs = Inr () \<longleftrightarrow> (\<forall>f \<in> set fs. lw_value w ''request'' q f = lw_value w ''request'' s0 f)"
  by (induction fs) (simp_all add: lsu_request_value py_assert_def)

lemma lsu_status_spec:
  assumes "lsu_link_format w" "lsu_status w miss q = Inr (status, reason, exc)"
  defines "v \<equiv> lw_value w ''request'' q"
  shows "exc = v ''exc'' \<and> (status = 3 \<longleftrightarrow> v ''exc'' \<noteq> 0) \<and>
    (status = 0 \<longleftrightarrow> v ''exc'' = 0 \<and> v ''translation_miss'' = 0 \<and> (v ''is_sta'' \<noteq> 0 \<or> v ''blocked'' = 0 \<and> \<not> miss)) \<and>
    (status = 1 \<or> status = 2 \<longrightarrow> v ''is_sta'' \<noteq> 0 \<longrightarrow> reason = 3) \<and> 0 \<le> status \<and> status \<le> 3"
proof -
  have f: "\<And>g. g \<in> {''exc'', ''translation_miss'', ''blocked'', ''is_sta''} \<Longrightarrow> lw_field w ''request'' q g = Inr (v g)"
    using assms(1) by (auto simp: v_def lsu_request_value request_fields_def)
  from assms(2) show ?thesis
    by (auto simp: lsu_status_def f split: if_splits)
qed

abbreviation answer_fields :: "int \<Rightarrow> int \<Rightarrow> int \<Rightarrow> int \<Rightarrow> int \<Rightarrow> int \<Rightarrow> (string \<times> int) list" where
  "answer_fields st reason idx gen d exc \<equiv> [(''valid'', 1), (''status'', st), (''reason'', reason), (''mshr_id'', 0),
     (''lq_tag.idx'', idx), (''lq_tag.gen'', gen), (''rdata'', d), (''exc'', exc)]"

lemma lsu_reply_parts:
  assumes "lsu_link_format w" "lsu_reply w s q s0 = Inr r"
  defines "v \<equiv> lw_value w ''request'' q"
  obtains st0 st reason exc d c where "lsu_aligned w q s0 owner_fields = Inr ()" "lsu_status w (lb_miss s) q = Inr st0"
    "(if lb_error s then lsu_fault w q else Inr st0) = Inr (st, reason, exc)"
    "d = (if v ''forward_valid'' \<noteq> 0 then v ''forward_data'' else lb_data s)"
    "lw_codec w ''response'' (answer_fields st reason (v ''lq_tag.idx'') (v ''lq_tag.gen'') d exc) = Inr c"
    "(if lw_has_head w
     then py_bind (lw_field w ''request'' q ''head'') (\<lambda>h. py_bind (lw_codec w ''response'' [(''head'', h)]) (\<lambda>x. Inr (c OR x)))
     else Inr c) = Inr r"
proof -
  have f: "lw_field w ''request'' q g = Inr (v g)" if "g \<in> set request_fields" for g
    using lsu_request_value [OF assms(1) that] by (simp add: v_def)
  have fs: "''lq_tag.idx'' \<in> set request_fields" "''lq_tag.gen'' \<in> set request_fields" "''forward_valid'' \<in> set request_fields"
    "''forward_data'' \<in> set request_fields" by (simp_all add: request_fields_def)
  obtain st0 st reason exc d c where p: "lsu_aligned w q s0 owner_fields = Inr ()" "lsu_status w (lb_miss s) q = Inr st0"
    "(if lb_error s then lsu_fault w q else Inr st0) = Inr (st, reason, exc)"
    and d: "(if v ''forward_valid'' \<noteq> 0 then lw_field w ''request'' q ''forward_data'' else Inr (lb_data s)) = Inr d"
    and c: "lw_codec w ''response'' (answer_fields st reason (v ''lq_tag.idx'') (v ''lq_tag.gen'') d exc) = Inr c"
      "(if lw_has_head w
     then py_bind (lw_field w ''request'' q ''head'') (\<lambda>h. py_bind (lw_codec w ''response'' [(''head'', h)]) (\<lambda>x. Inr (c OR x)))
     else Inr c) = Inr r"
    using assms(2) unfolding lsu_reply_def f [OF fs(1)] f [OF fs(2)] f [OF fs(3)] py_bind_simps
    by (elim bind_InrE) (auto elim!: bind_InrE)
  have "d = (if v ''forward_valid'' \<noteq> 0 then v ''forward_data'' else lb_data s)"
    using d f [OF fs(4)] by (simp split: if_splits)
  from that [OF p this c] show thesis .
qed

text \<open>The fields of an answer read back, the optional head field included.\<close>

lemma lsu_answer_read:
  assumes fmt: "lsu_link_format w"
    and c: "lw_codec w ''response'' (answer_fields st reason idx gen d exc) = Inr c"
    and r: "(if lw_has_head w
     then py_bind (lw_field w ''request'' q ''head'') (\<lambda>h. py_bind (lw_codec w ''response'' [(''head'', h)]) (\<lambda>x. Inr (c OR x)))
     else Inr c) = Inr r"
    and gx: "(g, x) \<in> set (answer_fields st reason idx gen d exc)"
  shows "lw_value w ''response'' r g = x"
proof -
  let ?fs = "answer_fields st reason idx gen d exc" and ?f = "lw_fmt w ''response''"
  have dis: "?f x AND ?f y = 0" if "x \<in> set response_fields" "y \<in> set response_fields" "x \<noteq> y" for x y
    using fmt that by (simp add: lsu_link_format_def)
  have keys: "fst ` set ?fs \<subseteq> set response_fields" "''head'' \<in> set response_fields" "''head'' \<notin> fst ` set ?fs"
    by (simp_all add: response_fields_def)
  have gk: "g \<in> fst ` set ?fs" using gx by (rule image_eqI [rotated]) (simp only: fst_conv)
  then have g: "g \<in> set response_fields" by (rule subsetD [OF keys(1)])
  have "x \<noteq> y" if "x \<notin> A" "y \<in> A" for x y :: string and A using that by blast
  note g = g this [OF keys(3) gk]
  have d2: "\<forall>x \<in> fst ` set ?fs. \<forall>y \<in> fst ` set ?fs. x \<noteq> y \<longrightarrow> ?f x AND ?f y = 0"
  proof (intro ballI impI)
    fix x y assume "x \<in> fst ` set ?fs" "y \<in> fst ` set ?fs" "x \<noteq> y"
    then show "?f x AND ?f y = 0" using dis subsetD [OF keys(1)] by metis
  qed
  have "distinct (map fst ?fs)" by simp
  from l3_codec_field [OF c [unfolded lw_codec_def] this d2 gx] have cc: "l3_field ?f c g = Inr x" .
  show ?thesis
  proof (cases "lw_has_head w")
    case False
    with r cc show ?thesis by (simp add: lw_value_of lw_field_def)
  next
    case True
    with r obtain h y where y: "l3_codec ?f [(''head'', h)] = Inr y" "r = c OR y"
      by (auto simp: py_bind_Inr_iff lw_codec_def)
    have "\<forall>k \<in> fst ` set [(''head'', h)]. ?f k AND ?f g = 0" using dis [OF keys(2) g] by simp
    from l3_field_or_other [OF y(1) this, of c] cc show ?thesis by (simp add: lw_value_of lw_field_def y(2))
  qed
qed

lemma lsu_verdict_spec:
  assumes "lsu_link_format w" "lsu_status w (lb_miss s) q = Inr st0"
    "(if lb_error s then lsu_fault w q else Inr st0) = Inr (st, reason, exc)"
  defines "v \<equiv> lw_value w ''request'' q"
  shows "(st = 0 \<longleftrightarrow> \<not> lb_error s \<and> v ''exc'' = 0 \<and> v ''translation_miss'' = 0 \<and> (v ''is_sta'' \<noteq> 0 \<or> v ''blocked'' = 0 \<and> \<not> lb_miss s)) \<and>
    (st = 3 \<longleftrightarrow> lb_error s \<or> v ''exc'' \<noteq> 0) \<and> (st = 1 \<or> st = 2 \<longrightarrow> v ''is_sta'' \<noteq> 0 \<longrightarrow> reason = 3)"
proof (cases "lb_error s")
  case True
  have "''is_sta'' \<in> set request_fields" "''vaddr'' \<in> set request_fields" by (simp_all add: request_fields_def)
  with assms(3) True show ?thesis by (auto simp: lsu_fault_def lsu_request_value [OF assms(1)])
next
  case False
  with assms(3) have "st0 = (st, reason, exc)" by simp
  from lsu_status_spec [OF assms(1) assms(2) [unfolded this]] False show ?thesis unfolding v_def by simp
qed

text \<open>an answer the bench gives carries the queue tag of the request of both stages; it completes exactly when
  there is no fault, no missing translation and, for a load, neither an older store in the way nor a cache miss; it
  faults exactly when the request does or errors are injected; a store address is only retried for its translation; the
  data is the forwarded one when there is one.\<close>

theorem lsu_reply_answers:
  assumes "lsu_link_format w" "lsu_reply w s q s0 = Inr r"
  defines "v \<equiv> lw_value w ''request'' q" and "a \<equiv> lw_value w ''response'' r"
  shows "a ''valid'' = 1 \<and> a ''lq_tag.idx'' = v ''lq_tag.idx'' \<and> a ''lq_tag.gen'' = v ''lq_tag.gen'' \<and>
    v ''lq_tag.idx'' = lw_value w ''request'' s0 ''lq_tag.idx'' \<and> v ''lq_tag.gen'' = lw_value w ''request'' s0 ''lq_tag.gen'' \<and>
    (a ''status'' = 0 \<longleftrightarrow> \<not> lb_error s \<and> v ''exc'' = 0 \<and> v ''translation_miss'' = 0 \<and>
       (v ''is_sta'' \<noteq> 0 \<or> v ''blocked'' = 0 \<and> \<not> lb_miss s)) \<and>
    (a ''status'' = 3 \<longleftrightarrow> lb_error s \<or> v ''exc'' \<noteq> 0) \<and>
    (a ''status'' = 1 \<or> a ''status'' = 2 \<longrightarrow> v ''is_sta'' \<noteq> 0 \<longrightarrow> a ''reason'' = 3) \<and>
    a ''rdata'' = (if v ''forward_valid'' \<noteq> 0 then v ''forward_data'' else lb_data s)"
proof -
  obtain st0 st reason exc d c where al: "lsu_aligned w q s0 owner_fields = Inr ()"
    and st0: "lsu_status w (lb_miss s) q = Inr st0"
    and st: "(if lb_error s then lsu_fault w q else Inr st0) = Inr (st, reason, exc)"
    and d: "d = (if v ''forward_valid'' \<noteq> 0 then v ''forward_data'' else lb_data s)"
    and c: "lw_codec w ''response'' (answer_fields st reason (v ''lq_tag.idx'') (v ''lq_tag.gen'') d exc) = Inr c"
    and r: "(if lw_has_head w
     then py_bind (lw_field w ''request'' q ''head'') (\<lambda>h. py_bind (lw_codec w ''response'' [(''head'', h)]) (\<lambda>x. Inr (c OR x)))
     else Inr c) = Inr r"
    unfolding v_def by (rule lsu_reply_parts [OF assms(1,2)])
  note rr = lsu_answer_read [OF assms(1) c r, folded a_def]
  have a: "a ''valid'' = 1" "a ''status'' = st" "a ''reason'' = reason" "a ''lq_tag.idx'' = v ''lq_tag.idx''"
    "a ''lq_tag.gen'' = v ''lq_tag.gen''" "a ''rdata'' = d" by (intro rr; simp)+
  have own: "set owner_fields \<subseteq> set request_fields" by (simp add: owner_fields_def request_fields_def)
  have "\<forall>g \<in> set owner_fields. v g = lw_value w ''request'' s0 g"
    using al lsu_aligned_Inr [OF assms(1) own] by (simp add: v_def)
  then have al: "v ''lq_tag.idx'' = lw_value w ''request'' s0 ''lq_tag.idx''" "v ''lq_tag.gen'' = lw_value w ''request'' s0 ''lq_tag.gen''"
    by (simp_all add: owner_fields_def)
  from lsu_verdict_spec [OF assms(1) st0 st] a al d show ?thesis unfolding v_def by simp
qed


section \<open>Witnesses\<close>

definition lsu_demo_masks :: "(string \<times> string \<times> nat) list" where
  "lsu_demo_masks = [(''uop'', ''lq_idx'', 0x7), (''uop'', ''branch_mask'', 0x78),
     (''replay'', ''uop'', 0xFF), (''replay'', ''tag.idx'', 0x700), (''replay'', ''tag.gen'', 0x800),
     (''request'', ''lq_tag.idx'', 7), (''request'', ''lq_tag.gen'', 8), (''request'', ''vaddr'', 0xFF0),
     (''request'', ''is_sta'', 0x1000), (''request'', ''exc'', 0x2000), (''request'', ''translation_miss'', 0x4000),
     (''request'', ''blocked'', 0x8000), (''request'', ''forward_valid'', 0x10000), (''request'', ''head'', 0x20000),
     (''request'', ''forward_data'', 0xFF00000),
     (''response'', ''valid'', 1), (''response'', ''status'', 6), (''response'', ''reason'', 0x38), (''response'', ''mshr_id'', 0x40),
     (''response'', ''lq_tag.idx'', 0x380), (''response'', ''lq_tag.gen'', 0x400), (''response'', ''head'', 0x800),
     (''response'', ''rdata'', 0xFF000), (''response'', ''exc'', 0xFF00000)]"

definition lsu_demo :: lsu_world where
  "lsu_demo = \<lparr>lw_fmt = (\<lambda>typ f. case filter (\<lambda>(t, g, m). t = typ \<and> g = f) lsu_demo_masks of [] \<Rightarrow> 0 | (t, g, m) # _ \<Rightarrow> m),
     lw_has_wake = False, lw_has_head = True\<rparr>"

definition lsu_demo_port :: "int option \<Rightarrow> lsu_port_pins" where
  "lsu_demo_port c = \<lparr>lp_wake = 0, lp_result = 0, lp_exc = None, lp_store = None, lp_update = None, lp_s1 = 0, lp_req = None,
     lp_capture = c\<rparr>"

definition lsu_demo_pins :: "int option \<Rightarrow> int option \<Rightarrow> (nat \<times> bool) option \<Rightarrow> lsu_pins" where
  "lsu_demo_pins c0 c1 r = \<lparr>lp_mark = None, lp_clear = None, lp_ad_wake = False, lp_head_resp = 0,
     lp_ports = (\<lambda>p. lsu_demo_port (if p = 0 then c0 else c1)), lp_flush = False, lp_resolution = r,
     lp_issue_ready = (\<lambda>_. True), lp_replay_ready = True\<rparr>"

text \<open>Requests of the entries 3 and 2 with branch masks 5 and 2; then branch 0 resolves as predicted.\<close>

definition lsu_demo_run :: "lsu_pins list" where
  "lsu_demo_run = [lsu_demo_pins (Some 0x2B) (Some 0x12) None, lsu_demo_pins None None (Some (0, False))]"

lemma l3_shift_exp: "int m AND - int m = 2 ^ k \<Longrightarrow> l3_shift m = int k"
  by (simp add: l3_shift_def nat_power_eq)

lemma lsu_demo_shifts:
  "l3_shift (Suc 0) = 0"
  "l3_shift 6 = 1"
  "l3_shift 7 = 0"
  "l3_shift 8 = 3"
  "l3_shift 56 = 3"
  "l3_shift 64 = 6"
  "l3_shift 120 = 3"
  "l3_shift 255 = 0"
  "l3_shift 896 = 7"
  "l3_shift 1024 = 10"
  "l3_shift 1792 = 8"
  "l3_shift 2048 = 11"
  "l3_shift 4080 = 4"
  "l3_shift 4096 = 12"
  "l3_shift 8192 = 13"
  "l3_shift 16384 = 14"
  "l3_shift 32768 = 15"
  "l3_shift 65536 = 16"
  "l3_shift 131072 = 17"
  "l3_shift 1044480 = 12"
  "l3_shift 267386880 = 20"
  subgoal using l3_shift_exp [of 1 0] by simp
  subgoal using l3_shift_exp [of 6 1] by simp
  subgoal using l3_shift_exp [of 7 0] by simp
  subgoal using l3_shift_exp [of 8 3] by simp
  subgoal using l3_shift_exp [of 56 3] by simp
  subgoal using l3_shift_exp [of 64 6] by simp
  subgoal using l3_shift_exp [of 120 3] by simp
  subgoal using l3_shift_exp [of 255 0] by simp
  subgoal using l3_shift_exp [of 896 7] by simp
  subgoal using l3_shift_exp [of 1024 10] by simp
  subgoal using l3_shift_exp [of 1792 8] by simp
  subgoal using l3_shift_exp [of 2048 11] by simp
  subgoal using l3_shift_exp [of 4080 4] by simp
  subgoal using l3_shift_exp [of 4096 12] by simp
  subgoal using l3_shift_exp [of 8192 13] by simp
  subgoal using l3_shift_exp [of 16384 14] by simp
  subgoal using l3_shift_exp [of 32768 15] by simp
  subgoal using l3_shift_exp [of 65536 16] by simp
  subgoal using l3_shift_exp [of 131072 17] by simp
  subgoal using l3_shift_exp [of 1044480 12] by simp
  subgoal using l3_shift_exp [of 267386880 20] by simp
  done

lemma lsu_demo_masks_eval:
  "lw_fmt lsu_demo typ f = (case filter (\<lambda>(t, g, m). t = typ \<and> g = f) lsu_demo_masks of [] \<Rightarrow> 0 | (t, g, m) # _ \<Rightarrow> m)"
  "lw_has_wake lsu_demo = False" "lw_has_head lsu_demo = True"
  by (simp_all add: lsu_demo_def)

lemmas lsu_demo_eval = lsu_demo_masks_eval lsu_demo_masks_def lsu_demo_shifts lw_field_def lw_codec_def l3_field_def
  l3_codec_def Let_def

lemma lsu_demo_ok:
  "lsu_format lsu_demo" "lsu_link_format lsu_demo" "list_all (lsu_legal lsu_demo) lsu_demo_run"
  "lsu_legal lsu_demo (lsu_demo_pins None None (Some (2, True)))"
  subgoal by (simp add: lsu_format_def lsu_demo_eval)
  subgoal by (simp add: lsu_link_format_def request_fields_def response_fields_def lsu_demo_masks_eval lsu_demo_masks_def)
  subgoal by (simp add: lsu_demo_run_def lsu_legal_def lsu_demo_pins_def lsu_demo_port_def lsu_demo_eval)
  subgoal by (simp add: lsu_legal_def lsu_demo_pins_def lsu_demo_port_def)
  done

lemmas lsu_demo_tick = lsu_tick_def lsu_port_def lsu_log_def lsu_log_port_def lsu_update_def lsu_capture_def lsu_resolve_def
  lsu_resolve_one_def lsu_unmask_def lsu_demo_pins_def lsu_demo_port_def

lemma lsu_demo_evaluated:
  "\<exists>s. py_run (lsu_tick lsu_demo) lsu_new lsu_demo_run = Inr s \<and> lb_saved s = [(3, 0xB23), (2, 0xA12)] \<and>
    lb_s0 s = [None, None]"
  by (simp add: lsu_demo_run_def lsu_new_def lsu_demo_tick lsu_demo_eval)

lemma lsu_demo_mispredict:
  assumes "lb_saved s = [(3, 0xB23), (2, 0xA12)]" "lb_s0 s = [None, None]"
  shows "\<exists>s'. lsu_tick lsu_demo s (lsu_demo_pins None None (Some (2, True))) = Inr s' \<and> lb_saved s' = [(2, 0xA12)]"
  using assms by (simp add: lsu_demo_tick lsu_demo_eval)




text \<open>A load of entry 5, generation 1, with data forwarded from the store queue.\<close>

theorem lsu_reply_answers_witness:
  "\<exists>r. lsu_reply lsu_demo lsu_new 0x5A1008D 0x8D = Inr r \<and> lw_value lsu_demo ''response'' r ''status'' = 0 \<and>
    lw_value lsu_demo ''response'' r ''lq_tag.idx'' = 5 \<and> lw_value lsu_demo ''response'' r ''rdata'' = 0x5A"
proof -
  obtain r where r: "lsu_reply lsu_demo lsu_new 0x5A1008D 0x8D = Inr r"
    by (simp add: lsu_reply_def lsu_status_def owner_fields_def lsu_new_def py_assert_def lsu_demo_eval)
  have "lw_value lsu_demo ''request'' 0x5A1008D ''exc'' = 0" "lw_value lsu_demo ''request'' 0x5A1008D ''translation_miss'' = 0"
    "lw_value lsu_demo ''request'' 0x5A1008D ''blocked'' = 0" "lw_value lsu_demo ''request'' 0x5A1008D ''lq_tag.idx'' = 5"
    "lw_value lsu_demo ''request'' 0x5A1008D ''forward_valid'' = 1" "lw_value lsu_demo ''request'' 0x5A1008D ''forward_data'' = 0x5A"
    "\<not> lb_error lsu_new" "\<not> lb_miss lsu_new"
    by (simp_all add: lw_value_def lsu_demo_masks_eval lsu_demo_masks_def lsu_demo_shifts lsu_new_def)
  with lsu_reply_answers [OF lsu_demo_ok(2) r] r show ?thesis by auto
qed

end
