(* ===== verification/SoC_Build.thy ===== *)
theory SoC_Build
  imports Platform "HOL-Library.AList"
begin

text \<open>
  How the SoC is put together: the parameter checks of \<open>litex_wrapper/o3/clint_verilog.py\<close> and
  \<open>plic_verilog.py\<close>, the pins and maps of \<open>core.py\<close>, the interrupt wiring, memory paths and DDR capacity of
  \<open>fpga/kcu105/target.py\<close>, the PLIC set-up \<open>software.py\<close> writes into the BIOS, the device-tree check of
  \<open>gen_dts.py\<close>, the boot image windows of \<open>prepare_sd_boot.py\<close> and the parenthesis scanner of
  \<open>perf/resource/generate_wrappers.py\<close>. The SoC object LiteX builds is seen through what the checks read of it.
\<close>

section \<open>Timer and interrupt controller parameters\<close>

record clint_params =
  cl_sys_freq :: int
  cl_timebase :: int
  cl_harts :: int
  cl_size :: int
  cl_msip :: int
  cl_mtimecmp :: int
  cl_mtime :: int

definition clint_check :: "clint_params \<Rightarrow> unit py" where
  "clint_check c =
     py_bind (require (\<not> (cl_sys_freq c \<le> 0 \<or> cl_timebase c \<le> 0))) (\<lambda>_.
     py_bind (require (cl_sys_freq c mod cl_timebase c = 0)) (\<lambda>_.
     py_bind (require (\<not> cl_harts c < 1)) (\<lambda>_.
     py_bind (require (\<not> (cl_size c < 8 \<or> cl_size c AND (cl_size c - 1) \<noteq> 0))) (\<lambda>_.
     py_bind (require (\<not> (cl_msip c mod 8 \<noteq> 0 \<or> cl_mtimecmp c mod 8 \<noteq> 0 \<or> cl_mtime c mod 8 \<noteq> 0))) (\<lambda>_.
     py_bind (require (\<not> cl_msip c + 4 * cl_harts c > cl_size c)) (\<lambda>_.
     py_bind (require (\<not> cl_mtimecmp c + 8 * cl_harts c > cl_size c)) (\<lambda>_.
       require (\<not> cl_mtime c + 8 > cl_size c))))))))"

definition clint_harts :: "clint_params \<Rightarrow> (nat \<times> nat) list" where
  "clint_harts c = map (\<lambda>hart. (64 * hart, 64 * (hart + 1))) [0..<nat (cl_harts c)]"

definition plic_check :: "int \<Rightarrow> int \<Rightarrow> unit py" where
  "plic_check harts sources = require (\<not> (harts < 1 \<or> sources < 1 \<or> sources > 31))"

definition plic_claims :: "nat \<Rightarrow> (nat \<times> nat) list" where
  "plic_claims harts = map (\<lambda>ctx. (32 * ctx, 32 * (ctx + 1))) [0..<2 * harts]"

text \<open>An accepted timer ticks a whole number of times per timebase tick; with offsets that are not negative every
  register of every hart lies in a power-of-two region that divides any origin aligned to it.\<close>

theorem clint_check_sound:
  assumes "clint_check c = Inr u" "0 \<le> cl_msip c" "0 \<le> cl_mtimecmp c" "0 \<le> cl_mtime c" "0 \<le> h" "h < cl_harts c"
  shows "cl_timebase c dvd cl_sys_freq c \<and> 1 \<le> cl_sys_freq c div cl_timebase c \<and> (\<exists>k. cl_size c = 2 ^ k) \<and>
    0 \<le> cl_msip c + 4 * h \<and> cl_msip c + 4 * h + 4 \<le> cl_size c \<and>
    8 dvd cl_mtimecmp c + 8 * h \<and> cl_mtimecmp c + 8 * h + 8 \<le> cl_size c \<and> 8 dvd cl_mtime c \<and> cl_mtime c + 8 \<le> cl_size c"
proof -
  from assms(1) have c: "0 < cl_sys_freq c" "0 < cl_timebase c" "cl_timebase c dvd cl_sys_freq c" "8 \<le> cl_size c"
    "cl_size c AND (cl_size c - 1) = 0" "8 dvd cl_mtimecmp c" "8 dvd cl_mtime c"
    "cl_msip c + 4 * cl_harts c \<le> cl_size c" "cl_mtimecmp c + 8 * cl_harts c \<le> cl_size c" "cl_mtime c + 8 \<le> cl_size c"
    by (auto simp: clint_check_def py_bind_Inr_iff dvd_eq_mod_eq_0)
  moreover from c have "1 \<le> cl_sys_freq c div cl_timebase c" by (auto elim!: dvdE simp: zero_less_mult_iff)
  moreover have "\<exists>k. cl_size c = 2 ^ k" using int_pow2_test [of "cl_size c"] c by simp
  ultimately show ?thesis using assms by auto
qed

section \<open>Interrupt wiring\<close>

definition irq_devices :: "string list" where
  "irq_devices = [''uart'', ''sdcard'', ''timer0'']"

definition plic_ids :: "platform \<Rightarrow> (int \<times> string) list" where
  "plic_ids cfg = rev (map (\<lambda>(name, i). (i, name)) (pf_sources cfg))"

text \<open>What drives an interrupt source: a device, or a constant 0 (\<open>None\<close>).\<close>

definition plic_wire :: "platform \<Rightarrow> int \<Rightarrow> string option py" where
  "plic_wire cfg source = (case map_of (plic_ids cfg) source of
     None \<Rightarrow> Inr None | Some name \<Rightarrow> if name \<in> set irq_devices then Inr (Some name) else Inl KeyError)"

fun py_map :: "('a \<Rightarrow> 'b py) \<Rightarrow> 'a list \<Rightarrow> 'b list py" where
  "py_map f [] = Inr []"
| "py_map f (x # xs) = py_bind (f x) (\<lambda>y. py_bind (py_map f xs) (\<lambda>ys. Inr (y # ys)))"

definition plic_wires :: "platform \<Rightarrow> string option list py" where
  "plic_wires cfg = py_map (plic_wire cfg) [1..pf_num_sources cfg]"

definition plic_mask :: "platform \<Rightarrow> int" where
  "plic_mask cfg = sum_list (map (\<lambda>(name, i). push_bit (nat i) 1) (pf_sources cfg))"

text \<open>The registers the BIOS writes: the priority of each source, the enables and the threshold.\<close>

record plic_regs =
  pl_priority :: "int \<Rightarrow> int"
  pl_enabled :: int
  pl_threshold :: int

definition plic_init :: "int \<Rightarrow> int \<Rightarrow> plic_regs \<Rightarrow> plic_regs" where
  "plic_init sources msk r =
     (foldl (\<lambda>r i. r\<lparr>pl_priority := (pl_priority r)(i := if msk AND push_bit (nat i) 1 \<noteq> 0 then 1 else 0)\<rparr>) r [1..sources])
       \<lparr>pl_enabled := msk, pl_threshold := 0\<rparr>"

lemma py_map_Inr: "py_map f xs = Inr ys \<Longrightarrow> length ys = length xs \<and> (\<forall>k < length xs. f (xs ! k) = Inr (ys ! k))"
  by (induction xs arbitrary: ys) (auto simp: py_bind_Inr_iff less_Suc_eq_0_disj)

lemma sum_bits: "distinct (ns :: nat list) \<Longrightarrow> 0 \<le> sum_list (map (\<lambda>n. 2 ^ n :: int) ns) \<and>
    (\<forall>i. bit (sum_list (map (\<lambda>n. 2 ^ n :: int) ns)) i \<longleftrightarrow> i \<in> set ns)"
proof (induction ns)
  case (Cons n ns)
  let ?s = "sum_list (map (\<lambda>n. 2 ^ n :: int) ns)"
  from Cons have IH: "0 \<le> ?s" "\<And>i. bit ?s i \<longleftrightarrow> i \<in> set ns" "n \<notin> set ns" by auto
  have "2 ^ n AND ?s = 0" by (rule bit_eqI) (use IH in \<open>auto simp: bit_and_iff bit_exp_iff\<close>)
  then have "2 ^ n + ?s = 2 ^ n OR ?s" by (rule disjunctive_add_eq_or)
  with IH show ?case by (auto simp: bit_or_iff bit_exp_iff)
qed simp

lemma foldl_priority: "distinct is \<Longrightarrow> pl_priority (foldl (\<lambda>r i. r\<lparr>pl_priority := (pl_priority r)(i := g i)\<rparr>) r is) =
    (\<lambda>i. if i \<in> set is then g i else pl_priority r i)"
  by (induction "is" arbitrary: r) auto

lemma accepted_sources:
  assumes "load_platform cfg = Inr cfg'"
  shows "distinct (map snd (pf_sources cfg))" "\<And>name i. (name, i) \<in> set (pf_sources cfg) \<Longrightarrow> 1 \<le> i \<and> i \<le> pf_num_sources cfg"
  using platform_csr_irq_sound [OF assms] by auto

lemma plic_ids_iff:
  assumes "distinct (map snd (pf_sources cfg))"
  shows "map_of (plic_ids cfg) i = Some name \<longleftrightarrow> (name, i) \<in> set (pf_sources cfg)"
proof -
  have "map fst (plic_ids cfg) = rev (map snd (pf_sources cfg))"
    by (simp add: plic_ids_def rev_map comp_def split_def)
  then have "distinct (map fst (plic_ids cfg))" using assms by simp
  then have "map_of (plic_ids cfg) i = Some name \<longleftrightarrow> (i, name) \<in> set (plic_ids cfg)" by (rule map_of_eq_Some_iff)
  then show ?thesis by (auto simp: plic_ids_def)
qed

lemma plic_mask_bit:
  assumes "load_platform cfg = Inr cfg'"
  shows "bit (plic_mask cfg) n \<longleftrightarrow> (\<exists>name. (name, int n) \<in> set (pf_sources cfg))"
proof -
  note s = accepted_sources [OF assms]
  have m: "plic_mask cfg = sum_list (map (\<lambda>n. 2 ^ n) (map (nat \<circ> snd) (pf_sources cfg)))"
    by (simp add: plic_mask_def comp_def split_def)
  have "inj_on nat (snd ` set (pf_sources cfg))" using s(2) by (force intro: inj_onI)
  then have "distinct (map (nat \<circ> snd) (pf_sources cfg))"
    using s(1) by (simp add: distinct_map comp_inj_on)
  from sum_bits [OF this] have "bit (plic_mask cfg) n \<longleftrightarrow> n \<in> nat ` snd ` set (pf_sources cfg)"
    by (simp add: m image_comp)
  also have "\<dots> \<longleftrightarrow> (\<exists>name. (name, int n) \<in> set (pf_sources cfg))"
    using s(2) by (force simp: image_iff)
  finally show ?thesis .
qed

lemma bit_and_push: "(m::int) AND push_bit n 1 \<noteq> 0 \<longleftrightarrow> bit m n"
proof -
  have "m AND push_bit n 1 = (if bit m n then push_bit n 1 else 0)"
    by (rule bit_eqI) (auto simp: bit_and_iff bit_exp_iff)
  then show ?thesis by simp
qed

lemma plic_init_priority: "pl_priority (plic_init sources m regs) i =
    (if 1 \<le> i \<and> i \<le> sources then if bit m (nat i) then 1 else 0 else pl_priority regs i)"
  unfolding plic_init_def bit_and_push by (simp add: foldl_priority)



section \<open>Memory paths\<close>

text \<open>What the checks read of the SoC: the names on the buses, whether the DMA fabric ends at the CPU's port, the CSR
  address width, the interrupt locations and the constants already materialised.\<close>

record soc_view =
  so_slaves :: "string list"
  so_masters :: "string list"
  so_dma_masters :: "string list"
  so_dma_at_cpu :: bool
  so_csr_width :: nat
  so_irq_locs :: "(string \<times> int) list"
  so_constants :: "(string \<times> int) list"

definition dict_eq :: "(string \<times> int) list \<Rightarrow> (string \<times> int) list \<Rightarrow> bool" where
  "dict_eq xs ys \<longleftrightarrow> (\<forall>k \<in> set (map fst xs) \<union> set (map fst ys). map_of xs k = map_of ys k)"

definition upper_char :: "char \<Rightarrow> char" where
  "upper_char c = (let n = of_char c :: nat in if 97 \<le> n \<and> n \<le> 122 then char_of (n - 32) else c)"

definition irq_constant :: "string \<Rightarrow> string" where
  "irq_constant name = map upper_char name @ ''_INTERRUPT''"

definition check_memory_paths :: "platform \<Rightarrow> soc_view \<Rightarrow> unit py" where
  "check_memory_paths cfg so =
     py_bind (require (''main_ram'' \<notin> set (so_slaves so))) (\<lambda>_.
     py_bind (require (set (so_masters so) = {''cpu_bus0'', ''cpu_bus1''})) (\<lambda>_.
     py_bind (require (set (so_dma_masters so) = {''sdcard_block2mem'', ''sdcard_mem2block''})) (\<lambda>_.
     py_bind (require (so_dma_at_cpu so)) (\<lambda>_.
     py_bind (csr_address_width cfg) (\<lambda>width. py_bind (require (so_csr_width so = width)) (\<lambda>_.
     let irqs = rev (pf_sources cfg) in
     py_bind (require (dict_eq (so_irq_locs so) irqs)) (\<lambda>_.
       require (\<forall>name \<in> set (map fst irqs). case map_of (so_constants so) (irq_constant name) of
         None \<Rightarrow> True | Some v \<Rightarrow> Some v = map_of irqs name))))))))"

definition ddr_capacity :: "nat \<Rightarrow> nat \<Rightarrow> nat \<Rightarrow> nat \<Rightarrow> nat \<Rightarrow> nat" where
  "ddr_capacity bank row col ranks databits = 2 ^ (bank + row + col) * ranks * databits div 8"

definition check_ddr :: "platform \<Rightarrow> nat \<Rightarrow> unit py" where
  "check_ddr cfg capacity = py_bind (get_region cfg ''main_ram'') (\<lambda>r. require (int capacity = pr_size r))"

lemma dict_eq_map: "dict_eq xs ys \<longleftrightarrow> map_of xs = map_of ys"
proof
  assume e: "dict_eq xs ys"
  show "map_of xs = map_of ys"
  proof
    fix k
    show "map_of xs k = map_of ys k"
    proof (cases "k \<in> set (map fst xs) \<union> set (map fst ys)")
      case False
      then have "map_of xs k = None" "map_of ys k = None" by (auto simp: map_of_eq_None_iff)
      then show ?thesis by simp
    qed (use e in \<open>simp add: dict_eq_def\<close>)
  qed
qed (simp add: dict_eq_def)

text \<open>a SoC that passes the path check on an accepted platform has no direct path from its main bus to the DDR: its
  masters are the two CPU ports, DMA ends at the coherent CPU port, the CSR window has the size of the description,
  interrupts have the numbers of the description, and so does every interrupt constant of the BIOS.\<close>

theorem memory_paths_sound:
  assumes "load_platform cfg = Inr cfg'" "check_memory_paths cfg so = Inr u"
  shows "''main_ram'' \<notin> set (so_slaves so) \<and> set (so_masters so) = {''cpu_bus0'', ''cpu_bus1''} \<and>
    set (so_dma_masters so) = {''sdcard_block2mem'', ''sdcard_mem2block''} \<and> so_dma_at_cpu so \<and>
    (\<exists>csr. platform_regions cfg ''litex_mmio'' = Some csr \<and> pr_size csr = 4 * 2 ^ so_csr_width so) \<and>
    map_of (so_irq_locs so) = irq_map cfg \<and>
    (\<forall>name i v. irq_map cfg name = Some i \<longrightarrow> map_of (so_constants so) (irq_constant name) = Some v \<longrightarrow> v = i)"
proof -
  from assms(2) have c: "''main_ram'' \<notin> set (so_slaves so)" "set (so_masters so) = {''cpu_bus0'', ''cpu_bus1''}"
    "set (so_dma_masters so) = {''sdcard_block2mem'', ''sdcard_mem2block''}" "so_dma_at_cpu so"
    "csr_address_width cfg = Inr (so_csr_width so)" "dict_eq (so_irq_locs so) (rev (pf_sources cfg))"
    and k: "\<forall>name \<in> set (map fst (rev (pf_sources cfg))). case map_of (so_constants so) (irq_constant name) of
         None \<Rightarrow> True | Some v \<Rightarrow> Some v = map_of (rev (pf_sources cfg)) name"
    by (simp_all only: check_memory_paths_def Let_def py_bind_Inr_iff require_Inr_iff) auto
  from platform_csr_irq_sound [OF assms(1)] c(5)
  have "\<exists>csr. platform_regions cfg ''litex_mmio'' = Some csr \<and> pr_size csr = 4 * 2 ^ so_csr_width so" by auto
  moreover have "map_of (so_irq_locs so) = irq_map cfg" using c(6) by (simp add: dict_eq_map irq_map_def)
  moreover have "v = i" if "irq_map cfg name = Some i" "map_of (so_constants so) (irq_constant name) = Some v" for name i v
  proof -
    from that(1) have "name \<in> set (map fst (rev (pf_sources cfg)))"
      by (metis irq_map_def map_of_eq_None_iff option.distinct(1) set_map)
    with k that show ?thesis by (fastforce simp: irq_map_def)
  qed
  ultimately show ?thesis using c by blast
qed

section \<open>The pins and maps of the CPU\<close>

definition axi_fields :: "bool \<Rightarrow> string \<Rightarrow> string list" where
  "axi_fields full channel =
     (let base = (if channel = ''ar'' \<or> channel = ''aw'' then [''addr''] else if channel = ''w'' then [''data'', ''strb'']
        else if channel = ''r'' then [''data'', ''resp''] else [''resp'']) in
      base @ (if full then (if channel = ''ar'' \<or> channel = ''aw'' then [''id'', ''len'', ''size'', ''burst'']
        else if channel = ''w'' then [''last''] else if channel = ''r'' then [''id'', ''last''] else [''id''])
      else if channel = ''ar'' \<or> channel = ''aw'' then [''prot''] else []))"

text \<open>A pin of the wrapped CPU and the signal it is connected to.\<close>

definition axi_pins :: "string \<Rightarrow> bool \<Rightarrow> string \<Rightarrow> (string \<times> string list) list" where
  "axi_pins prefix full channel =
     (let master_out = channel \<in> {''ar'', ''aw'', ''w''};
          out = (if master_out then ''o_'' else ''i_''); back = (if master_out then ''i_'' else ''o_'') in
      (out @ prefix @ ''_'' @ channel @ ''valid'', [prefix, channel, ''valid'']) #
      (back @ prefix @ ''_'' @ channel @ ''ready'', [prefix, channel, ''ready'']) #
      map (\<lambda>f. (out @ prefix @ ''_'' @ channel @ f, [prefix, channel, f])) (axi_fields full channel))"

definition core_pins :: "(string \<times> string list) list" where
  "core_pins =
     map (\<lambda>(p, s). (p, [s])) [(''i_clk_i'', ''sys''), (''i_rst_i'', ''reset''), (''i_reset_pc_i'', ''reset_vector''), (''i_mtime_i'', ''time''),
       (''i_irq_m_soft_i'', ''msip''), (''i_irq_m_timer_i'', ''mtip''), (''i_irq_m_ext_i'', ''meip''),
       (''i_irq_s_ext_i'', ''seip''), (''o_fatal_o'', ''fatal''), (''o_inclusion_err_o'', ''inclusion_err''),
       (''o_retired_inst_count_o'', ''retired_count''), (''o_sd_dma_busy_o'', ''dma_busy''),
       (''o_retire_valid_o'', ''retire_valid''), (''o_retire_pc_o'', ''retire_pc''), (''o_retire_inst_o'', ''retire_inst'')] @
     concat (map (\<lambda>(prefix, full). concat (map (axi_pins prefix full) [''ar'', ''aw'', ''w'', ''r'', ''b'']))
       [(''m_axi'', True), (''m_axil'', False)]) @
     map (\<lambda>f. (''i_sd_dma_'' @ f @ ''_i'', [''sd_dma'', f])) [''adr'', ''dat_w'', ''sel'', ''cyc'', ''stb'', ''we''] @
     map (\<lambda>f. (''o_sd_dma_'' @ f @ ''_o'', [''sd_dma'', f])) [''dat_r'', ''ack'', ''err'']"

text \<open>No pin is connected twice and no signal drives two pins, so the parameter dictionary loses none.\<close>

theorem core_pins_distinct: "distinct (map fst core_pins) \<and> distinct (map snd core_pins)"
  by code_simp

definition core_io_regions :: "platform \<Rightarrow> (int \<times> int) list" where
  "core_io_regions cfg = rev (map (\<lambda>r. (pr_origin r, pr_size r)) (filter pr_device (pf_regions cfg)))"

definition core_mem_map :: "platform \<Rightarrow> (string \<times> int) list py" where
  "core_mem_map cfg = py_map (\<lambda>(name, region). py_bind (get_region cfg region) (\<lambda>r. Inr (name, pr_origin r)))
     [(''rom'', ''linux_boot_rom''), (''plic'', ''plic''), (''sram'', ''sram''), (''main_ram'', ''main_ram''), (''csr'', ''litex_mmio'')]"

definition core_reset :: "int \<Rightarrow> int \<Rightarrow> unit py" where
  "core_reset vector address = require (address = vector)"

text \<open>Every device region of an accepted platform is an uncached region of the CPU with its own size: no two share an
  origin, which would lose one.\<close>

theorem core_io_regions_complete:
  assumes "load_platform cfg = Inr cfg'" "r \<in> set (pf_regions cfg)" "pr_device r"
  shows "map_of (core_io_regions cfg) (pr_origin r) = Some (pr_size r)"
proof -
  note s = platform_regions_sound [OF assms(1)]
  have pos: "\<And>a. a \<in> set (pf_regions cfg) \<Longrightarrow> 0 < pr_size a" using s by (auto simp: region_ok_def)
  obtain sz where sz: "map_of (core_io_regions cfg) (pr_origin r) = Some sz"
    using assms(2,3) by (cases "map_of (core_io_regions cfg) (pr_origin r)") (auto simp: map_of_eq_None_iff core_io_regions_def image_iff)
  then have "(pr_origin r, sz) \<in> set (core_io_regions cfg)" by (rule map_of_SomeD)
  then obtain a where a: "a \<in> set (pf_regions cfg)" "pr_origin a = pr_origin r" "sz = pr_size a"
    by (auto simp: core_io_regions_def)
  have "a = r"
  proof (rule ccontr)
    assume "a \<noteq> r"
    with s a(1) assms(2) have "disjoint_regions a r" by blast
    with a(2) pos [OF a(1)] pos [OF assms(2)] show False by (auto simp: disjoint_regions_def)
  qed
  with sz a show ?thesis by simp
qed

section \<open>The device tree\<close>

definition starts_with :: "string \<Rightarrow> string \<Rightarrow> bool" where
  "starts_with prefix name \<longleftrightarrow> take (length prefix) name = prefix"

definition sd_blocks :: "(string \<times> string \<times> int) list" where
  "sd_blocks = [(''sdcard_phy_'', ''sdcard_phy_card_detect'', 0x1c), (''sdcard_core_'', ''sdcard_core_cmd_argument'', 0x2c),
     (''sdcard_block2mem_'', ''sdcard_block2mem_dma_base'', 0x20), (''sdcard_mem2block_'', ''sdcard_mem2block_dma_base'', 0x20),
     (''sdcard_ev_'', ''sdcard_ev_status'', 0x0c)]"

text \<open>The address ranges of the card controller, and the check that its registers lie in them.\<close>

definition sd_ranges :: "(string \<times> int) list \<Rightarrow> (int \<times> int) list py" where
  "sd_ranges registers = py_map (\<lambda>(_, name, sz). py_bind (py_key (map_of registers name)) (\<lambda>addr. Inr (addr, sz))) sd_blocks"

definition sd_check :: "(string \<times> int) list \<Rightarrow> (int \<times> int) list py" where
  "sd_check registers = py_bind (sd_ranges registers) (\<lambda>sd.
     py_bind (require (list_all (\<lambda>((prefix, _), addr, sz). list_all (\<lambda>(name, v).
       \<not> (starts_with prefix name \<and> \<not> (addr \<le> v \<and> v < addr + sz))) registers) (zip sd_blocks sd))) (\<lambda>_. Inr sd))"

theorem sd_check_covers:
  assumes "sd_check registers = Inr sd" "(name, v) \<in> set registers" "k < 5" "starts_with (fst (sd_blocks ! k)) name"
  shows "length sd = 5 \<and> fst (sd ! k) \<le> v \<and> v < fst (sd ! k) + snd (sd ! k)"
proof -
  from assms(1) have r: "sd_ranges registers = Inr sd" and
    c: "\<forall>p \<in> set (zip sd_blocks sd). \<forall>q \<in> set registers. starts_with (fst (fst p)) (fst q) \<longrightarrow>
       fst (snd p) \<le> snd q \<and> snd q < fst (snd p) + snd (snd p)"
    unfolding sd_check_def by (auto simp: list_all_iff py_bind_Inr_iff split_def)
  have len: "length sd = 5" using py_map_Inr [OF r [unfolded sd_ranges_def]] by (simp add: sd_blocks_def)
  then have "(sd_blocks ! k, sd ! k) \<in> set (zip sd_blocks sd)"
    using assms(3) by (auto simp: set_zip sd_blocks_def)
  from bspec [OF bspec [OF c this] assms(2)] assms(4) len show ?thesis by simp
qed

section \<open>Boot images\<close>

definition boot_files :: "(string \<times> int \<times> int) list" where
  "boot_files = [(''fw_jump.bin'', 0x80000000, 0x80080000), (''o3-kcu105.dtb'', 0x80100000, 0x80200000),
     (''Image'', 0x80200000, 0xfffff000)]"

text \<open>The sizes of the three images; \<open>None\<close> for a missing file.\<close>

definition boot_check :: "int option list \<Rightarrow> int list \<Rightarrow> bool" where
  "boot_check sizes dtb \<longleftrightarrow> list_all (\<lambda>((_, addr, limit), sz). case sz of None \<Rightarrow> False
     | Some n \<Rightarrow> 0 < n \<and> n \<le> limit - addr) (zip boot_files sizes) \<and> take 4 dtb = [0xd0, 0x0d, 0xfe, 0xed]"

text \<open>Images that pass do not overlap each other, the handoff at \<open>0x80080000\<close> or the scratch page.\<close>

theorem boot_check_disjoint:
  assumes "boot_check [Some a, Some b, Some c] dtb"
  shows "0x80000000 + a \<le> (0x80080000::int) \<and> 0x80100000 + b \<le> (0x80200000::int) \<and> 0x80200000 + c \<le> (0xfffff000::int) \<and>
    0 < a \<and> 0 < b \<and> 0 < c"
  using assms by (simp add: boot_check_def boot_files_def)

section \<open>The parenthesis scanner\<close>

fun paren_group :: "int \<Rightarrow> string \<Rightarrow> string \<Rightarrow> (string \<times> string) py" where
  "paren_group depth acc [] = Inl ValueError"
| "paren_group depth acc (c # cs) =
     (if c = CHR ''('' then paren_group (depth + 1) (acc @ [c]) cs
      else if c = CHR '')'' then if depth - 1 = 0 then Inr (acc, cs) else paren_group (depth - 1) (acc @ [c]) cs
      else paren_group depth (acc @ [c]) cs)"

text \<open>The text between the parenthesis at \<open>start\<close> and its partner, and the position after it.\<close>

definition header_group :: "string \<Rightarrow> nat \<Rightarrow> (string \<times> nat) py" where
  "header_group txt start =
     py_bind (py_nth txt start) (\<lambda>c. py_bind (py_assert (c = CHR ''('')) (\<lambda>_.
     py_bind (paren_group 1 [] (drop (start + 1) txt)) (\<lambda>(inside, rest). Inr (inside, length txt - length rest))))"

fun paren_depth :: "string \<Rightarrow> int" where
  "paren_depth [] = 0"
| "paren_depth (c # cs) = (if c = CHR ''('' then 1 else if c = CHR '')'' then -1 else 0) + paren_depth cs"

lemma paren_depth_append [simp]: "paren_depth (xs @ ys) = paren_depth xs + paren_depth ys"
  by (induction xs) auto

lemma paren_group_Inr:
  "paren_group d acc cs = Inr (inside, rest) \<Longrightarrow> 0 < d \<Longrightarrow>
    \<exists>body. inside = acc @ body \<and> cs = body @ CHR '')'' # rest \<and> d + paren_depth body = 1 \<and>
      (\<forall>n \<le> length body. 0 < d + paren_depth (take n body))"
proof (induction d acc cs rule: paren_group.induct)
  case (2 depth acc c cs)
  have step: "\<exists>body. inside = acc @ body \<and> c # cs = body @ CHR '')'' # rest \<and> depth + paren_depth body = 1 \<and>
      (\<forall>n \<le> length body. 0 < depth + paren_depth (take n body))"
    if b: "inside = (acc @ [c]) @ body" "cs = body @ CHR '')'' # rest" "depth + paren_depth [c] + paren_depth body = 1"
      "\<forall>n \<le> length body. 0 < depth + paren_depth [c] + paren_depth (take n body)" for body
  proof (intro exI [of _ "c # body"] conjI allI impI)
    fix n assume "n \<le> length (c # body)"
    then show "0 < depth + paren_depth (take n (c # body))"
      using b(4) 2(5) by (cases n) (auto simp: add.assoc)
  qed (use b in auto)
  show ?case
  proof (cases "c = CHR '')'' \<and> depth - 1 = 0")
    case True
    with 2(4,5) show ?thesis by (intro exI [of _ "[]"]) simp
  next
    case False
    then have "paren_group (depth + paren_depth [c]) (acc @ [c]) cs = Inr (inside, rest)" "0 < depth + paren_depth [c]"
      using 2(4,5) by (auto split: if_splits)
    then have "\<exists>body. inside = (acc @ [c]) @ body \<and> cs = body @ CHR '')'' # rest \<and> (depth + paren_depth [c]) + paren_depth body = 1 \<and>
      (\<forall>n \<le> length body. 0 < (depth + paren_depth [c]) + paren_depth (take n body))"
      using False 2(1,2,3) by (cases "c = CHR ''(''"; cases "c = CHR '')''") auto
    then show ?thesis using step by blast
  qed
qed simp

text \<open>The scanner returns exactly the text up to the matching parenthesis: it is balanced, no prefix of it closes
  more than it opens, and the position returned is the one after the match.\<close>

theorem header_group_matches:
  assumes "header_group txt start = Inr (inside, stop)"
  shows "start < length txt \<and> txt = take start txt @ CHR ''('' # inside @ CHR '')'' # drop stop txt \<and>
    paren_depth inside = 0 \<and> (\<forall>n \<le> length inside. 0 \<le> paren_depth (take n inside)) \<and> stop = start + length inside + 2"
proof -
  from assms obtain rest where n: "start < length txt" "txt ! start = CHR ''(''"
    and g: "paren_group 1 [] (drop (start + 1) txt) = Inr (inside, rest)" and e: "stop = length txt - length rest"
    by (auto simp: header_group_def py_bind_Inr_iff py_nth_def split: if_splits)
  from paren_group_Inr [OF g] have b: "drop (start + 1) txt = inside @ CHR '')'' # rest" "paren_depth inside = 0"
    "\<forall>n \<le> length inside. 0 < 1 + paren_depth (take n inside)" by auto
  have whole: "txt = take start txt @ CHR ''('' # inside @ CHR '')'' # rest"
    using id_take_nth_drop [OF n(1)] n(2) b(1) by simp
  have "length txt = start + length inside + 2 + length rest"
    using arg_cong [OF whole, of length] n(1) by simp
  then have stop: "stop = start + length inside + 2" using e by simp
  have "drop stop txt = rest"
    using arg_cong [OF b(1), of "drop (length inside + 1)"] by (simp add: stop add.commute add.left_commute)
  with whole n b stop show ?thesis by force
qed


section \<open>Witnesses\<close>

definition o3_wires :: "string option list" where
  "o3_wires = replicate 9 None @ [Some ''uart'', Some ''sdcard'', Some ''timer0''] @ replicate 19 None"

lemma o3_wires_built: "plic_wires o3_platform = Inr o3_wires"
  by code_simp


definition o3_soc :: soc_view where
  "o3_soc = \<lparr>so_slaves = [''rom'', ''sram'', ''csr'', ''clint'', ''plic''], so_masters = [''cpu_bus0'', ''cpu_bus1''],
     so_dma_masters = [''sdcard_block2mem'', ''sdcard_mem2block''], so_dma_at_cpu = True, so_csr_width = 18,
     so_irq_locs = [(''timer0'', 12), (''uart'', 10), (''sdcard'', 11)], so_constants = [(''UART_INTERRUPT'', 10)]\<rparr>"

theorem memory_paths_sound_witness:
  "check_memory_paths o3_platform o3_soc = Inr () \<and> irq_map o3_platform ''uart'' = Some 10 \<and>
   map_of (so_irq_locs o3_soc) = irq_map o3_platform"
proof -
  have "check_memory_paths o3_platform o3_soc = Inr ()"
    unfolding check_memory_paths_def Let_def o3_platform_csr py_bind_simps by code_simp
  moreover have "irq_map o3_platform ''uart'' = Some 10" by code_simp
  ultimately show ?thesis using memory_paths_sound [OF o3_platform_loads] by blast
qed

end
