(* ===== verification/BIOS_SD.thy ===== *)
theory BIOS_SD
  imports Platform
begin

text \<open>
  The SD-card transfer that \<open>prepare_software\<close> of \<open>litex_wrapper/o3/software.py\<close> writes into the BIOS
  (\<open>o3_sdcard_transfer\<close>): DMA reaches only 8-byte aligned main memory, so any other buffer goes sector by sector
  through a scratch sector. The official driver below it (\<open>o3_sdcard_*_direct\<close>) is a parameter. Memory and card
  are maps from byte addresses to bytes; \<open>uint32_t\<close> and \<open>uint64_t\<close> arithmetic wraps. The fences order the
  accesses of a machine that executes them in order here.
\<close>

section \<open>The transfer\<close>

record sd_state =
  st_mem :: "int \<Rightarrow> int"
  st_card :: "int \<Rightarrow> int"

text \<open>A driver call: write or read, first block, number of blocks, buffer.\<close>

type_synonym sd_driver = "bool \<Rightarrow> int \<Rightarrow> int \<Rightarrow> int \<Rightarrow> sd_state \<Rightarrow> int \<times> sd_state"

definition sd_memcpy :: "int \<Rightarrow> int \<Rightarrow> int \<Rightarrow> sd_state \<Rightarrow> sd_state" where
  "sd_memcpy dst src n st = st\<lparr>st_mem := (\<lambda>a. if dst \<le> a \<and> a < dst + n then st_mem st (src + (a - dst)) else st_mem st a)\<rparr>"

definition SD_OK :: int where
  "SD_OK = 0"

text \<open>The loop over single sectors; \<open>count\<close> counts down.\<close>

fun sd_bounce :: "sd_driver \<Rightarrow> int \<Rightarrow> bool \<Rightarrow> nat \<Rightarrow> int \<Rightarrow> int \<Rightarrow> sd_state \<Rightarrow> int \<times> sd_state" where
  "sd_bounce direct scratch wr 0 block buf st = (SD_OK, st)"
| "sd_bounce direct scratch wr (Suc count) block buf st =
     (let st1 = (if wr then sd_memcpy scratch buf 512 st else st); (status, st2) = direct wr block 1 scratch st1 in
      if status \<noteq> SD_OK then (status, st2)
      else sd_bounce direct scratch wr count ((block + 1) mod 2 ^ 32) ((buf + 512) mod 2 ^ 64)
        (if \<not> wr then sd_memcpy buf scratch 512 st2 else st2))"

definition sd_transfer :: "sd_driver \<Rightarrow> pma_region \<Rightarrow> int \<Rightarrow> bool \<Rightarrow> int \<Rightarrow> nat \<Rightarrow> int \<Rightarrow> sd_state \<Rightarrow> int \<times> sd_state" where
  "sd_transfer direct ram scratch wr block count buf st =
     (let finish = (buf + int count * 512) mod 2 ^ 64 in
      if count = 0 then (SD_OK, st)
      else if buf \<ge> pr_origin ram \<and> finish \<le> pr_origin ram + pr_size ram \<and> buf AND 7 = 0
      then direct wr block (int count) buf st
      else sd_bounce direct scratch wr count block buf st)"

section \<open>What the driver promises\<close>

definition dma_legal :: "pma_region \<Rightarrow> int \<Rightarrow> int \<Rightarrow> bool" where
  "dma_legal ram count buf \<longleftrightarrow> 0 < count \<and> buf mod 8 = 0 \<and> pr_origin ram \<le> buf \<and> buf + 512 * count \<le> pr_origin ram + pr_size ram"

definition sd_read_effect :: "int \<Rightarrow> int \<Rightarrow> int \<Rightarrow> sd_state \<Rightarrow> sd_state" where
  "sd_read_effect block count buf st =
     st\<lparr>st_mem := (\<lambda>a. if buf \<le> a \<and> a < buf + 512 * count then st_card st (512 * block + (a - buf)) else st_mem st a)\<rparr>"

definition sd_write_effect :: "int \<Rightarrow> int \<Rightarrow> int \<Rightarrow> sd_state \<Rightarrow> sd_state" where
  "sd_write_effect block count buf st =
     st\<lparr>st_card := (\<lambda>a. if 512 * block \<le> a \<and> a < 512 * (block + count) then st_mem st (buf + (a - 512 * block)) else st_card st a)\<rparr>"

text \<open>A call on memory DMA can reach that reports success has moved the sectors.\<close>

definition driver_moves :: "pma_region \<Rightarrow> sd_driver \<Rightarrow> bool" where
  "driver_moves ram direct \<longleftrightarrow> (\<forall>wr block count buf st. dma_legal ram count buf \<longrightarrow> fst (direct wr block count buf st) = SD_OK \<longrightarrow>
     snd (direct wr block count buf st) = (if wr then sd_write_effect block count buf st else sd_read_effect block count buf st))"

text \<open>Two drivers that behave alike on memory DMA can reach.\<close>

definition same_on_legal :: "pma_region \<Rightarrow> sd_driver \<Rightarrow> sd_driver \<Rightarrow> bool" where
  "same_on_legal ram d d' \<longleftrightarrow> (\<forall>wr block count buf st. dma_legal ram count buf \<longrightarrow> d wr block count buf st = d' wr block count buf st)"

section \<open>The scratch sector\<close>

definition scratch_ok :: "pma_region \<Rightarrow> int \<Rightarrow> bool" where
  "scratch_ok ram scratch \<longleftrightarrow> dma_legal ram 1 scratch \<and> pr_origin ram + pr_size ram \<le> 2 ^ 32"

lemma platform_scratch:
  assumes "load_platform cfg = Inr cfg'"
  obtains ram where "platform_regions cfg ''main_ram'' = Some ram" "scratch_ok ram (sd_scratch (pf_sd cfg))"
    "sd_scratch (pf_sd cfg) + 0x240 \<le> pr_origin ram + pr_size ram" "0 \<le> pr_origin ram"
  using assms
proof (rule load_platform_Inr)
  fix ram
  assume a: "check_regions (pf_regions cfg) = Inr ()" "distinct (map pr_name (pf_regions cfg))"
    "next_region (pf_regions cfg) ''main_ram'' = Inr ram" "check_sd cfg ram = Inr ()"
  have r: "platform_regions cfg ''main_ram'' = Some ram" "ram \<in> set (pf_regions cfg)"
    using next_region_lookup [OF a(2,3)] by simp_all
  let ?s = "sd_scratch (pf_sd cfg)"
  have s: "?s mod 64 = 0" "pr_origin ram \<le> ?s" "?s + 0x240 \<le> pr_origin ram + pr_size ram"
    using a(4) by (auto simp: check_sd_def Let_def py_bind_Inr_iff)
  have "?s mod 8 = 0" using s(1) by presburger
  moreover have "pr_origin ram + pr_size ram \<le> 2 ^ 32" "0 \<le> pr_origin ram" using check_regions_ok [OF a(1) r(2)] by (auto simp: region_ok_def)
  ultimately show thesis using s r(1) by (intro that [of ram]) (auto simp: scratch_ok_def dma_legal_def)
qed

lemma aligned_and: "(b::int) AND 7 = 0 \<longleftrightarrow> b mod 8 = 0"
  using take_bit_eq_mask [of 3 b] take_bit_eq_mod [of 3 b] by (simp add: mask_eq_exp_minus_1)

text \<open>The direct path is taken only for a buffer DMA can reach, if the buffer does not wrap around.\<close>

lemma direct_legal:
  assumes "0 < count" "buf + 512 * int count < 2 ^ 64" "0 \<le> buf"
  shows "buf \<ge> pr_origin ram \<and> (buf + int count * 512) mod 2 ^ 64 \<le> pr_origin ram + pr_size ram \<and> buf AND 7 = 0 \<longleftrightarrow>
    dma_legal ram (int count) buf"
proof -
  have "(buf + int count * 512) mod 2 ^ 64 = buf + 512 * int count" using assms by simp
  then show ?thesis using assms(1) by (auto simp: dma_legal_def aligned_and)
qed

lemma sd_transfer_eq:
  assumes "buf + 512 * int count < 2 ^ 64" "0 \<le> buf"
  shows "sd_transfer direct ram scratch wr block count buf st = (if count = 0 then (SD_OK, st)
    else if dma_legal ram (int count) buf then direct wr block (int count) buf st
    else sd_bounce direct scratch wr count block buf st)"
proof (cases "count = 0")
  case False
  then have "0 < count" by simp
  show ?thesis unfolding sd_transfer_def Let_def direct_legal [OF \<open>0 < count\<close> assms] ..
qed (simp add: sd_transfer_def)

lemma sd_bounce_same:
  assumes "scratch_ok ram scratch" "same_on_legal ram d d'"
  shows "sd_bounce d scratch wr count block buf st = sd_bounce d' scratch wr count block buf st"
proof (induction count arbitrary: block buf st)
  case (Suc count)
  have "d wr block 1 scratch st' = d' wr block 1 scratch st'" for st'
    using assms by (simp add: scratch_ok_def same_on_legal_def)
  with Suc show ?case by (simp add: Let_def split_def)
qed simp


definition demo_ram :: pma_region where
  "demo_ram = pf_regions o3_platform ! 6"

text \<open>Without that bound the end of the buffer wraps and the range check no longer confines DMA.\<close>

theorem sd_wrap_bypasses:
  "sd_transfer direct demo_ram scratch wr block 1 (2 ^ 64 - 512) st = direct wr block 1 (2 ^ 64 - 512) st \<and>
   \<not> dma_legal demo_ram 1 (2 ^ 64 - 512)"
  by (simp add: sd_transfer_def Let_def dma_legal_def demo_ram_def o3_platform_def)

section \<open>A transfer moves its sectors\<close>

text \<open>Equal outside the scratch sector.\<close>

definition same_but :: "int \<Rightarrow> sd_state \<Rightarrow> sd_state \<Rightarrow> bool" where
  "same_but scratch st st' \<longleftrightarrow> st_card st = st_card st' \<and> (\<forall>a. a < scratch \<or> scratch + 512 \<le> a \<longrightarrow> st_mem st a = st_mem st' a)"

lemma bounce_step:
  assumes "scratch_ok ram scratch" "driver_moves ram direct" "fst (sd_bounce direct scratch wr (Suc count) block buf st) = SD_OK"
    "0 \<le> buf" "buf + 512 < 2 ^ 64" "0 \<le> block" "block + 1 < 2 ^ 32"
  shows "sd_bounce direct scratch wr (Suc count) block buf st = sd_bounce direct scratch wr count (block + 1) (buf + 512)
    (if wr then sd_write_effect block 1 scratch (sd_memcpy scratch buf 512 st)
     else sd_memcpy buf scratch 512 (sd_read_effect block 1 scratch st))"
proof -
  let ?st = "if wr then sd_memcpy scratch buf 512 st else st"
  have ok: "fst (direct wr block 1 scratch ?st) = SD_OK"
    using assms(3) by (auto simp: Let_def split_def split: if_splits)
  then have "snd (direct wr block 1 scratch ?st) = (if wr then sd_write_effect block 1 scratch ?st else sd_read_effect block 1 scratch ?st)"
    using assms(1,2) unfolding scratch_ok_def driver_moves_def by blast
  with ok show ?thesis using assms(4-7) by (cases wr) (simp_all add: Let_def split_def)
qed

lemma bounce_read:
  assumes s: "scratch_ok ram scratch" and d: "driver_moves ram direct"
  shows "fst (sd_bounce direct scratch False count block buf st) = SD_OK \<Longrightarrow> 0 \<le> buf \<Longrightarrow> buf + 512 * int count < 2 ^ 64 \<Longrightarrow>
    0 \<le> block \<Longrightarrow> block + int count < 2 ^ 32 \<Longrightarrow> buf + 512 * int count \<le> scratch \<or> scratch + 512 \<le> buf \<Longrightarrow>
    same_but scratch (snd (sd_bounce direct scratch False count block buf st)) (sd_read_effect block (int count) buf st)"
proof (induction count arbitrary: block buf st)
  case 0
  then show ?case by (simp add: same_but_def sd_read_effect_def)
next
  case (Suc count)
  let ?st = "sd_memcpy buf scratch 512 (sd_read_effect block 1 scratch st)"
  have eq: "sd_bounce direct scratch False (Suc count) block buf st = sd_bounce direct scratch False count (block + 1) (buf + 512) ?st"
    using bounce_step [OF s d Suc.prems(1)] Suc.prems by simp
  have "same_but scratch (snd (sd_bounce direct scratch False count (block + 1) (buf + 512) ?st))
      (sd_read_effect (block + 1) (int count) (buf + 512) ?st)"
    using Suc.prems eq by (intro Suc.IH) auto
  moreover have "same_but scratch (sd_read_effect (block + 1) (int count) (buf + 512) ?st) (sd_read_effect block (int (Suc count)) buf st)"
    using Suc.prems(6) by (auto simp: same_but_def sd_read_effect_def sd_memcpy_def algebra_simps)
  ultimately show ?case unfolding eq by (auto simp: same_but_def)
qed

lemma bounce_write:
  assumes s: "scratch_ok ram scratch" and d: "driver_moves ram direct"
  shows "fst (sd_bounce direct scratch True count block buf st) = SD_OK \<Longrightarrow> 0 \<le> buf \<Longrightarrow> buf + 512 * int count < 2 ^ 64 \<Longrightarrow>
    0 \<le> block \<Longrightarrow> block + int count < 2 ^ 32 \<Longrightarrow> buf + 512 * int count \<le> scratch \<or> scratch + 512 \<le> buf \<Longrightarrow>
    same_but scratch (snd (sd_bounce direct scratch True count block buf st)) (sd_write_effect block (int count) buf st)"
proof (induction count arbitrary: block buf st)
  case 0
  then show ?case by (auto simp: same_but_def sd_write_effect_def)
next
  case (Suc count)
  let ?st = "sd_write_effect block 1 scratch (sd_memcpy scratch buf 512 st)"
  have eq: "sd_bounce direct scratch True (Suc count) block buf st = sd_bounce direct scratch True count (block + 1) (buf + 512) ?st"
    using bounce_step [OF s d Suc.prems(1)] Suc.prems by simp
  have "same_but scratch (snd (sd_bounce direct scratch True count (block + 1) (buf + 512) ?st))
      (sd_write_effect (block + 1) (int count) (buf + 512) ?st)"
    using Suc.prems eq by (intro Suc.IH) auto
  moreover have "same_but scratch (sd_write_effect (block + 1) (int count) (buf + 512) ?st) (sd_write_effect block (int (Suc count)) buf st)"
    using Suc.prems(6) by (auto simp: same_but_def sd_write_effect_def sd_memcpy_def algebra_simps fun_eq_iff)
  ultimately show ?case unfolding eq by (auto simp: same_but_def)
qed


section \<open>Witnesses\<close>

text \<open>A driver that moves what DMA can reach and fails elsewhere.\<close>

definition demo_driver :: "pma_region \<Rightarrow> sd_driver" where
  "demo_driver ram wr block count buf st = (if dma_legal ram count buf
     then (SD_OK, if wr then sd_write_effect block count buf st else sd_read_effect block count buf st) else (1, st))"

lemma demo_driver_moves: "driver_moves ram (demo_driver ram)"
  by (auto simp: driver_moves_def demo_driver_def SD_OK_def)

definition demo_sd :: sd_state where
  "demo_sd = \<lparr>st_mem = (\<lambda>a. 0), st_card = (\<lambda>a. a mod 251)\<rparr>"

lemma demo_ram_region: "platform_regions o3_platform ''main_ram'' = Some demo_ram"
  by code_simp



end
