(* ===== verification/Spike_Batch.thy ===== *)
theory Spike_Batch
  imports Gen_Random
begin

text \<open>
  The lockstep batch of \<open>sim/o3/run_spike.py\<close>: the seed list, one result per seed or self-test case, and the summary
  that decides the exit code. What the simulator reports of an image (exit code and the lines the script looks for)
  is a parameter, as is what the random generator draws for a seed. Numbers in the seed list are written in
  decimal digits.
\<close>

section \<open>The seed list\<close>

fun split_at :: "char \<Rightarrow> string \<Rightarrow> string list" where
  "split_at sep [] = [[]]"
| "split_at sep (c # cs) = (let parts = split_at sep cs in if c = sep then [] # parts else (c # hd parts) # tl parts)"

definition digit_value :: "char \<Rightarrow> int option" where
  "digit_value c = (let n = of_char c :: int in if 48 \<le> n \<and> n \<le> 57 then Some (n - 48) else None)"

fun digits_from :: "int \<Rightarrow> string \<Rightarrow> int py" where
  "digits_from n [] = Inr n"
| "digits_from n (c # cs) = (case digit_value c of None \<Rightarrow> Inl ValueError | Some d \<Rightarrow> digits_from (10 * n + d) cs)"

definition py_int :: "string \<Rightarrow> int py" where
  "py_int cs = (if cs = [] then Inl ValueError else digits_from 0 cs)"

text \<open>\<open>lo, hi = map(int, part.split('-'))\<close>: two numbers, or an error.\<close>

definition seeds_part :: "string \<Rightarrow> int list py" where
  "seeds_part part = (if CHR ''-'' \<in> set part
     then (case split_at CHR ''-'' part of
         [a, b] \<Rightarrow> py_bind (py_int a) (\<lambda>lo. py_bind (py_int b) (\<lambda>hi. Inr [lo..hi]))
       | parts \<Rightarrow> Inl ValueError)
     else py_bind (py_int part) (\<lambda>n. Inr [n]))"

fun seeds_parts :: "string list \<Rightarrow> int list py" where
  "seeds_parts [] = Inr []"
| "seeds_parts (p # ps) = py_bind (seeds_part p) (\<lambda>xs. py_bind (seeds_parts ps) (\<lambda>ys. Inr (xs @ ys)))"

definition seeds :: "string \<Rightarrow> int list py" where
  "seeds txt = seeds_parts (split_at CHR '','' txt)"

lemma split_at_ne: "split_at sep cs \<noteq> []"
  by (induction cs) (auto simp: Let_def)

lemma split_at_none: "sep \<notin> set cs \<Longrightarrow> split_at sep cs = [cs]"
  by (induction cs) (auto simp: Let_def)

lemma split_at_sep: "sep \<notin> set a \<Longrightarrow> split_at sep (a @ sep # b) = a # split_at sep b"
  by (induction a) (auto simp: Let_def)

text \<open>A range and a list are read as written: \<open>lo-hi\<close> is every number from \<open>lo\<close> to \<open>hi\<close>, and a comma joins.\<close>

theorem seeds_reads:
  assumes "py_int a = Inr lo" "py_int b = Inr hi" "CHR ''-'' \<notin> set a \<union> set b" "CHR '','' \<notin> set a \<union> set b"
  shows "seeds (a @ CHR ''-'' # b) = Inr [lo..hi] \<and>
    seeds (a @ CHR ''-'' # b @ CHR '','' # rest) = py_bind (seeds rest) (\<lambda>xs. Inr ([lo..hi] @ xs))"
proof -
  have "split_at CHR ''-'' (a @ CHR ''-'' # b) = [a, b]" using assms(3) by (simp add: split_at_sep split_at_none)
  then have p: "seeds_part (a @ CHR ''-'' # b) = Inr [lo..hi]" using assms(1,2) by (simp add: seeds_part_def)
  have c: "CHR '','' \<notin> set (a @ CHR ''-'' # b)" using assms(4) by auto
  have "split_at CHR '','' ((a @ CHR ''-'' # b) @ CHR '','' # rest) = (a @ CHR ''-'' # b) # split_at CHR '','' rest"
    by (rule split_at_sep [OF c])
  with p split_at_none [OF c] show ?thesis by (simp add: seeds_def)
qed

section \<open>One seed\<close>

datatype spike_status = Pass | Fail | Generator_error

record spike_result =
  sr_name :: int
  sr_status :: spike_status
  sr_code :: int
  sr_retired :: nat
  sr_reference :: nat

text \<open>The reference-only run (exit code and \<open>PASS events= retired=\<close>) and the lockstep run (exit code,
  \<open>PASS compared= retired=\<close> and \<open>MISMATCH field= retire_idx=\<close>) of an image with a retirement target.\<close>

record spike_sim =
  ss_reference :: "int list \<Rightarrow> nat \<Rightarrow> int \<times> (nat \<times> nat) option"
  ss_lockstep :: "int list \<Rightarrow> nat \<Rightarrow> int \<times> (nat \<times> nat) option \<times> (string \<times> nat) option"
  ss_inject :: "string \<Rightarrow> nat \<Rightarrow> int \<times> (string \<times> nat) option"

type_synonym spike_rng = "int \<Rightarrow> (nat \<Rightarrow> int) \<times> (nat \<Rightarrow> gen_draw)"

definition spike_judge :: "int \<Rightarrow> nat \<Rightarrow> int \<times> (nat \<times> nat) option \<times> (string \<times> nat) option \<Rightarrow> nat \<Rightarrow> spike_result" where
  "spike_judge seed target r events = (case r of (code, compared, mismatch) \<Rightarrow>
     \<lparr>sr_name = seed,
      sr_status = (if code = 0 \<and> compared \<noteq> None \<and> snd (the compared) \<ge> 2000 then Pass else Fail), sr_code = code,
      sr_retired = (case compared of Some (_, n) \<Rightarrow> n | None \<Rightarrow> 0), sr_reference = events\<rparr>)"

definition spike_seed :: "spike_sim \<Rightarrow> spike_rng \<Rightarrow> nat \<Rightarrow> int \<Rightarrow> spike_result py" where
  "spike_seed sim rng target seed = (case rng seed of (inits, draws) \<Rightarrow>
     py_bind (generate inits draws target) (\<lambda>(img, meta).
       case ss_reference sim img target of (refcode, reference) \<Rightarrow>
       if refcode \<noteq> 0 \<or> reference = None \<or> fst (the reference) \<noteq> gm_dynamic_target meta
       then Inr \<lparr>sr_name = seed, sr_status = Generator_error, sr_code = refcode, sr_retired = 0,
         sr_reference = (case reference of None \<Rightarrow> 0 | Some (n, _) \<Rightarrow> n)\<rparr>
       else Inr (spike_judge seed target (ss_lockstep sim img target) (fst (the reference)))))"

fun spike_random :: "spike_sim \<Rightarrow> spike_rng \<Rightarrow> nat \<Rightarrow> int list \<Rightarrow> spike_result list py" where
  "spike_random sim rng target [] = Inr []"
| "spike_random sim rng target (seed # rest) =
     py_bind (spike_seed sim rng target seed) (\<lambda>r. py_bind (spike_random sim rng target rest) (\<lambda>rs. Inr (r # rs)))"

definition selftest_cases :: "(string \<times> nat \<times> string) list" where
  "selftest_cases = [(''pc'', 0, ''pc''), (''reg'', 2, ''rd_wdata''), (''load'', 4, ''mem_data''),
     (''store_addr'', 3, ''mem_addr''), (''store_data'', 3, ''mem_data'')]"

definition spike_selftest :: "spike_sim \<Rightarrow> spike_result list" where
  "spike_selftest sim = map (\<lambda>(kind, index, fld). case ss_inject sim kind index of (code, mismatch) \<Rightarrow>
     \<lparr>sr_name = int index, sr_status = (if code = 2 \<and> mismatch = Some (fld, index) then Pass else Fail), sr_code = code,
      sr_retired = 0, sr_reference = 0\<rparr>) selftest_cases"

record spike_summary =
  sy_ran :: nat
  sy_passed :: nat
  sy_failed :: nat
  sy_retired :: nat

definition spike_summarise :: "spike_result list \<Rightarrow> spike_summary" where
  "spike_summarise rs = \<lparr>sy_ran = length rs, sy_passed = length (filter (\<lambda>r. sr_status r = Pass) rs),
     sy_failed = length (filter (\<lambda>r. sr_status r \<noteq> Pass) rs), sy_retired = sum_list (map sr_retired rs)\<rparr>"

definition spike_exit :: "spike_summary \<Rightarrow> int" where
  "spike_exit s = of_bool (sy_failed s \<noteq> 0)"

section \<open>What the exit code means\<close>

definition seed_passes :: "spike_sim \<Rightarrow> spike_rng \<Rightarrow> nat \<Rightarrow> int \<Rightarrow> bool" where
  "seed_passes sim rng target seed \<longleftrightarrow> (case generate (fst (rng seed)) (snd (rng seed)) target of Inl e \<Rightarrow> False
     | Inr (img, meta) \<Rightarrow> (\<exists>n. ss_reference sim img target = (0, Some (target, n))) \<and>
         (\<exists>k n mismatch. ss_lockstep sim img target = (0, Some (k, n), mismatch) \<and> n \<ge> 2000))"

lemma spike_seed_total:
  assumes "\<forall>k. case snd (rng seed) k of (rd, a, b, p) \<Rightarrow> pick_ok a p" "2000 \<le> target" "target \<le> 4113"
  obtains r where "spike_seed sim rng target seed = Inr r" "sr_status r = Pass \<longleftrightarrow> seed_passes sim rng target seed"
proof -
  obtain inits draws where rng: "rng seed = (inits, draws)" by (cases "rng seed")
  obtain img meta where g: "generate inits draws target = Inr (img, meta)"
    using assms rng by (auto intro: generate_succeeds [of draws target inits])
  from generate_budget [of inits draws target] g have t: "gm_dynamic_target meta = target" by blast
  obtain refcode reference where rf: "ss_reference sim img target = (refcode, reference)"
    by (cases "ss_reference sim img target")
  obtain code compared mismatch where lk: "ss_lockstep sim img target = (code, compared, mismatch)"
    by (cases "ss_lockstep sim img target")
  have p: "seed_passes sim rng target seed \<longleftrightarrow> refcode = 0 \<and> (\<exists>n. reference = Some (target, n)) \<and>
      code = 0 \<and> (\<exists>k n. compared = Some (k, n) \<and> n \<ge> 2000)"
    by (simp add: seed_passes_def rng g rf lk)
  show thesis
  proof (cases "refcode \<noteq> 0 \<or> reference = None \<or> fst (the reference) \<noteq> target")
    case True
    then have "\<not> seed_passes sim rng target seed" unfolding p by auto
    moreover obtain r where "spike_seed sim rng target seed = Inr r" "sr_status r = Generator_error"
      using True by (auto simp: spike_seed_def rng g rf t)
    ultimately show thesis using that [of r] by simp
  next
    case False
    then have "sr_status (spike_judge seed target (code, compared, mismatch) (fst (the reference))) = Pass \<longleftrightarrow>
        seed_passes sim rng target seed" unfolding p by (cases reference; cases compared) (auto simp: spike_judge_def)
    moreover have "spike_seed sim rng target seed = Inr (spike_judge seed target (code, compared, mismatch) (fst (the reference)))"
      using False by (auto simp: spike_seed_def rng g rf t lk)
    ultimately show thesis by (rule_tac that)
  qed
qed

lemma spike_random_total:
  assumes "\<forall>seed. \<forall>k. case snd (rng seed) k of (rd, a, b, p) \<Rightarrow> pick_ok a p" "2000 \<le> target" "target \<le> 4113"
  shows "\<exists>rs. spike_random sim rng target ss = Inr rs \<and> length rs = length ss \<and>
    list_all2 (\<lambda>seed r. sr_status r = Pass \<longleftrightarrow> seed_passes sim rng target seed) ss rs"
proof (induction ss)
  case (Cons seed ss)
  from assms(1) have "\<forall>k. case snd (rng seed) k of (rd, a, b, p) \<Rightarrow> pick_ok a p" ..
  then obtain r where "spike_seed sim rng target seed = Inr r" "sr_status r = Pass \<longleftrightarrow> seed_passes sim rng target seed"
    by (rule spike_seed_total [OF _ assms(2,3)])
  with Cons show ?case by auto
qed simp

text \<open>C37: for a target the generator supports, the batch gives one result per seed whatever the simulator does, and its
  exit code is 0 exactly when for every seed the reference alone executes exactly the target number of events and
  the lockstep run agrees over at least 2000 retirements.\<close>

theorem spike_batch_exit:
  assumes "\<forall>seed. \<forall>k. case snd (rng seed) k of (rd, a, b, p) \<Rightarrow> pick_ok a p" "2000 \<le> target" "target \<le> 4113"
  shows "\<exists>rs. spike_random sim rng target ss = Inr rs \<and> sy_ran (spike_summarise rs) = length ss \<and>
    sy_passed (spike_summarise rs) + sy_failed (spike_summarise rs) = length ss \<and>
    (spike_exit (spike_summarise rs) = 0 \<longleftrightarrow> list_all (seed_passes sim rng target) ss)"
proof -
  obtain rs where rs: "spike_random sim rng target ss = Inr rs" "length rs = length ss"
    "list_all2 (\<lambda>seed r. sr_status r = Pass \<longleftrightarrow> seed_passes sim rng target seed) ss rs"
    using spike_random_total [OF assms] by blast
  have "list_all (\<lambda>r. sr_status r = Pass) rs \<longleftrightarrow> list_all (seed_passes sim rng target) ss"
    using rs(3) by (induction rule: list_all2_induct) auto
  then have "spike_exit (spike_summarise rs) = 0 \<longleftrightarrow> list_all (seed_passes sim rng target) ss"
    by (simp add: spike_exit_def spike_summarise_def list_all_iff filter_empty_conv)
  moreover have "sy_passed (spike_summarise rs) + sy_failed (spike_summarise rs) = length rs"
    by (simp add: spike_summarise_def sum_length_filter_compl)
  ultimately show ?thesis using rs by (auto simp: spike_summarise_def)
qed

section \<open>Witnesses\<close>

definition demo_sim :: spike_sim where
  "demo_sim = \<lparr>ss_reference = (\<lambda>img target. (0, Some (target, 2900))),
     ss_lockstep = (\<lambda>img target. (0, Some (3000, 2900), None)), ss_inject = (\<lambda>kind n. (2, Some (''pc'', 0)))\<rparr>"

theorem spike_batch_exit_witness:
  "\<exists>rs. spike_random demo_sim (\<lambda>seed. (\<lambda>rd. seed, \<lambda>k. (4, 5, 6, P_loop 8))) 3000 [1..200] = Inr rs \<and>
     sy_ran (spike_summarise rs) = 200 \<and> spike_exit (spike_summarise rs) = 0"
proof -
  let ?rng = "\<lambda>seed :: int. (\<lambda>rd :: nat. seed, \<lambda>k :: nat. (4, 5, 6, P_loop 8))"
  have ok: "\<forall>seed. \<forall>k. case snd (?rng seed) k of (rd, a, b, p) \<Rightarrow> pick_ok a p" by simp
  have "seed_passes demo_sim ?rng 3000 seed" for seed
  proof -
    obtain img meta where "generate (\<lambda>rd. seed) (\<lambda>k. (4, 5, 6, P_loop 8)) 3000 = Inr (img, meta)"
      by (rule generate_succeeds [of "\<lambda>k. (4, 5, 6, P_loop 8)" 3000 "\<lambda>rd. seed"]) simp_all
    then show ?thesis by (simp add: seed_passes_def demo_sim_def)
  qed
  then have "list_all (seed_passes demo_sim ?rng 3000) [1..200]" by (simp add: list_all_iff)
  moreover have "(2000::nat) \<le> 3000" "(3000::nat) \<le> 4113" by simp_all
  moreover have "length [1..(200::int)] = 200" by simp
  ultimately show ?thesis using spike_batch_exit [OF ok, of 3000 demo_sim "[1..200]"] by metis
qed

end
