(* ===== verification/Small_Models.thy ===== *)
theory Small_Models
  imports Link_Codec
begin

text \<open>
  The small reference models of the module tests: the instruction-cache contents of
  \<open>sim/cocotb/icache/icache_model.py\<close>, the slot oracle of \<open>ifu_f0/ifu_f0_model.py\<close> and the recovery helpers of
  \<open>branch_recovery/branch_recovery_model.py\<close> and \<open>dcache/dcache_model.py\<close>.
\<close>

section \<open>Instruction-cache contents\<close>

record cache_model =
  cm_line :: nat
  cm_region :: nat
  cm_lines :: "nat \<Rightarrow> nat list option"

definition cm_install :: "nat \<Rightarrow> nat list \<Rightarrow> cache_model \<Rightarrow> cache_model py" where
  "cm_install addr bs c =
     (if cm_line c = 0 then Inl ZeroDivisionError else
      py_bind (py_assert (addr mod cm_line c = 0)) (\<lambda>_. py_bind (py_assert (length bs = cm_line c)) (\<lambda>_.
        Inr (c\<lparr>cm_lines := (cm_lines c)(addr := Some bs)\<rparr>))))"

text \<open>A slice past the end of a line is cut there.\<close>

definition cm_read :: "nat \<Rightarrow> cache_model \<Rightarrow> nat py" where
  "cm_read addr c =
     (if cm_line c = 0 then Inl ZeroDivisionError else
      let line = addr - addr mod cm_line c; off = addr - line in
      case cm_lines c line of None \<Rightarrow> Inl KeyError
      | Some bs \<Rightarrow> Inr (bytes_le (take (cm_region c) (drop off bs))))"

definition cm_bank :: "nat \<Rightarrow> nat \<Rightarrow> cache_model \<Rightarrow> nat py" where
  "cm_bank addr banks c = (if cm_line c = 0 \<or> banks = 0 then Inl ZeroDivisionError else Inr (addr div cm_line c mod banks))"

text \<open>A region inside an installed line reads the bytes installed there, least significant first; installing a line
  changes no region of another; the next line is in the next bank.\<close>

lemma bytes_le_digit: "\<forall>b \<in> set bs. b < 256 \<Longrightarrow> i < length bs \<Longrightarrow> bytes_le bs div 256 ^ i mod 256 = bs ! i"
proof (induction bs arbitrary: i)
  case (Cons b bs)
  show ?case
  proof (cases i)
    case (Suc j)
    have "(b + 256 * bytes_le bs) div 256 ^ Suc j = (b + 256 * bytes_le bs) div 256 div 256 ^ j"
      by (simp add: div_mult2_eq)
    also have "(b + 256 * bytes_le bs) div 256 = bytes_le bs" using Cons.prems by simp
    finally show ?thesis using Cons Suc by simp
  qed (use Cons.prems in simp)
qed simp

theorem cm_read_installed:
  assumes "cm_install line bs c = Inr c'" "\<forall>b \<in> set bs. b < 256" "off + cm_region c \<le> cm_line c" "0 < cm_region c"
  shows "\<exists>x. cm_read (line + off) c' = Inr x \<and> (\<forall>i < cm_region c. x div 256 ^ i mod 256 = bs ! (off + i)) \<and>
    (\<forall>addr. addr - addr mod cm_line c \<noteq> line \<longrightarrow> cm_read addr c' = cm_read addr c)"
proof -
  from assms(1) have c: "0 < cm_line c" "line mod cm_line c = 0" "length bs = cm_line c"
    and c': "c' = c\<lparr>cm_lines := (cm_lines c)(line := Some bs)\<rparr>"
    by (auto simp: cm_install_def py_bind_Inr_iff split: if_splits)
  have off: "off < cm_line c" using assms(3,4) by simp
  then have m: "(line + off) mod cm_line c = off" using c(2) by (metis add_0 mod_add_left_eq mod_less)
  let ?bs = "take (cm_region c) (drop off bs)"
  have r: "cm_read (line + off) c' = Inr (bytes_le ?bs)"
    using c(1) m by (simp add: cm_read_def c' Let_def)
  have "\<forall>b \<in> set ?bs. b < 256" using assms(2) by (meson in_set_dropD in_set_takeD)
  then have "bytes_le ?bs div 256 ^ i mod 256 = bs ! (off + i)" if "i < cm_region c" for i
    using that bytes_le_digit [of ?bs i] c(3) assms(3) by simp
  moreover have "cm_read addr c' = cm_read addr c" if "addr - addr mod cm_line c \<noteq> line" for addr
    using that by (simp add: cm_read_def c' Let_def split: option.split)
  ultimately show ?thesis using r by blast
qed

theorem cm_read_installed_witness:
  "\<exists>c'. cm_install 64 [0..<64] \<lparr>cm_line = 64, cm_region = 16, cm_lines = (\<lambda>_. None)\<rparr> = Inr c' \<and>
    (\<exists>x. cm_read (64 + 16) c' = Inr x \<and> x div 256 ^ 3 mod 256 = 19)"
proof -
  let ?c = "\<lparr>cm_line = 64, cm_region = 16, cm_lines = (\<lambda>_. None)\<rparr>"
  obtain c' where i: "cm_install 64 [0..<64] ?c = Inr c'" by (simp add: cm_install_def py_assert_def)
  have "\<forall>b \<in> set [0..<64]. b < (256::nat)" by auto
  from cm_read_installed [OF i this, of 16] obtain x where
    x: "cm_read (64 + 16) c' = Inr x" "\<forall>k < 16. x div 256 ^ k mod 256 = [0..<64] ! (16 + k)" by auto
  have "x div 256 ^ 3 mod 256 = [0..<64] ! (16 + 3)" using x(2) by (rule_tac x(2) [rule_format]) simp
  also have "\<dots> = 19" by (subst nth_upt) simp_all
  finally have "x div 256 ^ 3 mod 256 = 19" .
  with i x(1) show ?thesis by blast
qed

section \<open>Straight-line slots, redirects and probes\<close>

definition rv64i_slots :: "nat \<Rightarrow> nat \<Rightarrow> bool \<Rightarrow> nat list" where
  "rv64i_slots entry_slot region_slots fault =
     (if fault then [entry_slot] else filter (\<lambda>s. (s - entry_slot) mod 2 = 0) [entry_slot..<region_slots])"

definition expected_redirect :: "int \<Rightarrow> int \<Rightarrow> int \<Rightarrow> bool \<Rightarrow> int" where
  "expected_redirect branch_pc inst_len target taken = (if taken then target else branch_pc + inst_len)"

definition is_link_register :: "int \<Rightarrow> bool" where
  "is_link_register r \<longleftrightarrow> r \<in> {1, 5}"

definition empty_probe_response :: "'a \<Rightarrow> 'b \<Rightarrow> 'a \<times> 'b \<times> nat \<times> nat" where
  "empty_probe_response kind recall_id = (kind, recall_id, 0, 0)"

end
