(* ===== verification/Py_Regex.thy ===== *)
theory Py_Regex
  imports O3_Prelude
begin

text \<open>
  The text processing the scripts take from Python: the operations of \<open>str\<close> they call and the regular expressions of the
  module \<open>re\<close>. A pattern is a value of \<open>re\<close>; \<open>re_step\<close> is the backtracking matcher, which lists the ways to match in
  the order Python tries them, so that the first one is the match Python reports. \<open>re_accepts\<close> is the declarative
  reading of a pattern, and \<open>re_step_iff\<close> says that the matcher finds exactly its matches. Texts are sequences of
  ASCII characters; no pattern of the sources that is substituted or searched repeatedly matches the empty text.
\<close>

section \<open>Characters and strings\<close>

definition char_code :: "char \<Rightarrow> nat" where
  "char_code c = of_char c"

definition is_digit :: "char \<Rightarrow> bool" where
  "is_digit c = (let n = char_code c in 48 \<le> n \<and> n \<le> 57)"

text \<open>\<open>\w\<close> and \<open>\s\<close>.\<close>

definition is_word :: "char \<Rightarrow> bool" where
  "is_word c = (let n = char_code c in 97 \<le> n \<and> n \<le> 122 \<or> 65 \<le> n \<and> n \<le> 90 \<or> 48 \<le> n \<and> n \<le> 57 \<or> n = 95)"

definition is_space :: "char \<Rightarrow> bool" where
  "is_space c = (let n = char_code c in n = 32 \<or> 9 \<le> n \<and> n \<le> 13 \<or> 28 \<le> n \<and> n \<le> 31)"

definition newline :: char where
  "newline = CHR 10"

text \<open>\<open>s.strip()\<close>, \<open>s.split(sep)\<close> for one character, \<open>sep.join(parts)\<close>.\<close>

definition py_strip :: "string \<Rightarrow> string" where
  "py_strip s = rev (dropWhile is_space (rev (dropWhile is_space s)))"

fun split_on :: "char \<Rightarrow> string \<Rightarrow> string list" where
  "split_on sep [] = [[]]"
| "split_on sep (c # cs) = (if c = sep then [] # split_on sep cs
     else (case split_on sep cs of [] \<Rightarrow> [[c]] | p # ps \<Rightarrow> (c # p) # ps))"

fun join_with :: "string \<Rightarrow> string list \<Rightarrow> string" where
  "join_with sep [] = []"
| "join_with sep [p] = p"
| "join_with sep (p # q # ps) = p @ sep @ join_with sep (q # ps)"

text \<open>\<open>Path.stem\<close>: a name without its suffix; a name that only begins or ends with a dot has none.\<close>

definition file_stem :: "string \<Rightarrow> string" where
  "file_stem name = (case rev (split_on CHR ''.'' name) of [] \<Rightarrow> [] | [p] \<Rightarrow> p
     | s # p # ps \<Rightarrow> if s = [] \<or> (p = [] \<and> ps = []) then name else join_with ''.'' (rev (p # ps)))"

text \<open>Text that starts with \<open>pat\<close>, the first place of \<open>pat\<close>, \<open>s.index(pat, start)\<close> (which raises when there is none),
  \<open>pat in s\<close> and \<open>s.count(pat)\<close>.\<close>

fun str_prefix :: "string \<Rightarrow> string \<Rightarrow> bool" where
  "str_prefix [] s = True"
| "str_prefix (p # ps) [] = False"
| "str_prefix (p # ps) (c # cs) = (p = c \<and> str_prefix ps cs)"

fun str_find :: "string \<Rightarrow> string \<Rightarrow> nat option" where
  "str_find pat [] = (if pat = [] then Some 0 else None)"
| "str_find pat (c # cs) = (if str_prefix pat (c # cs) then Some 0 else map_option Suc (str_find pat cs))"

definition str_index :: "string \<Rightarrow> string \<Rightarrow> nat \<Rightarrow> nat py" where
  "str_index s pat start = (case str_find pat (drop start s) of None \<Rightarrow> Inl ValueError | Some k \<Rightarrow> Inr (start + k))"

definition str_in :: "string \<Rightarrow> string \<Rightarrow> bool" where
  "str_in pat s = (str_find pat s \<noteq> None)"

text \<open>\<open>s.replace(old, new, n)\<close> for a text \<open>old\<close> that is not empty; \<open>None\<close> replaces every occurrence. The first
  argument counts the characters of a replaced occurrence still to be skipped.\<close>

fun str_replace_from :: "nat \<Rightarrow> string \<Rightarrow> string \<Rightarrow> nat option \<Rightarrow> string \<Rightarrow> string" where
  "str_replace_from skip old new n [] = []"
| "str_replace_from (Suc skip) old new n (c # cs) = str_replace_from skip old new n cs"
| "str_replace_from 0 old new n (c # cs) =
     (if n \<noteq> Some 0 \<and> str_prefix old (c # cs)
      then new @ str_replace_from (length old - 1) old new (map_option (\<lambda>k. k - 1) n) cs
      else c # str_replace_from 0 old new n cs)"

definition str_replace :: "string \<Rightarrow> string \<Rightarrow> string \<Rightarrow> string" where
  "str_replace old new s = str_replace_from 0 old new None s"

definition str_replace_first :: "string \<Rightarrow> string \<Rightarrow> string \<Rightarrow> string" where
  "str_replace_first old new s = str_replace_from 0 old new (Some 1) s"

lemma str_prefix_iff: "str_prefix p s \<longleftrightarrow> (\<exists>t. s = p @ t)"
  by (induction p s rule: str_prefix.induct) auto

lemma str_prefix_append [simp]: "str_prefix p (p @ t)"
  by (auto simp: str_prefix_iff)

lemma str_find_Some: "str_find pat s = Some k \<Longrightarrow> \<exists>a b. s = a @ pat @ b \<and> length a = k"
proof (induction pat s arbitrary: k rule: str_find.induct)
  case (2 pat c cs)
  show ?case
  proof (cases "str_prefix pat (c # cs)")
    case True
    with 2(2) show ?thesis by (auto simp: str_prefix_iff intro: exI [of _ "[]"])
  next
    case False
    with 2(2) obtain j where j: "str_find pat cs = Some j" "k = Suc j" by auto
    from 2(1) [OF False j(1)] obtain a b where ab: "cs = a @ pat @ b" "length a = j" by blast
    with j(2) have "c # cs = (c # a) @ pat @ b \<and> length (c # a) = k" by simp
    then show ?thesis by blast
  qed
qed (auto split: if_splits)

lemma str_find_None: "str_find pat s = None \<longleftrightarrow> \<not> (\<exists>a b. s = a @ pat @ b)"
proof (induction pat s rule: str_find.induct)
  case (2 pat c cs)
  have "(\<exists>a b. c # cs = a @ pat @ b) \<longleftrightarrow> str_prefix pat (c # cs) \<or> (\<exists>a b. cs = a @ pat @ b)"
    by (auto simp: str_prefix_iff Cons_eq_append_conv)
  with 2 show ?case by auto
qed auto

text \<open>\<open>pat in s\<close> means what it says.\<close>

lemma str_in_iff: "str_in pat s \<longleftrightarrow> (\<exists>a b. s = a @ pat @ b)"
  by (simp add: str_in_def str_find_None)

lemma split_on_ne [simp]: "split_on sep cs \<noteq> []"
  by (induction cs) (auto split: list.split)

lemma split_on_none: "sep \<notin> set cs \<Longrightarrow> split_on sep cs = [cs]"
  by (induction cs) auto

lemma split_on_sep: "sep \<notin> set a \<Longrightarrow> split_on sep (a @ sep # b) = a # split_on sep b"
  by (induction a) auto

text \<open>Splitting undoes joining.\<close>

lemma split_on_join: "ps \<noteq> [] \<Longrightarrow> \<forall>p \<in> set ps. sep \<notin> set p \<Longrightarrow> split_on sep (join_with [sep] ps) = ps"
  by (induction "[sep]" ps rule: join_with.induct) (auto simp: split_on_none split_on_sep)

lemma join_split_on: "join_with [sep] (split_on sep cs) = cs"
proof (induction cs)
  case (Cons c cs)
  obtain p ps where s: "split_on sep cs = p # ps" by (cases "split_on sep cs") auto
  with Cons show ?case by (cases ps) auto
qed simp

section \<open>Patterns\<close>

text \<open>A class of characters, the empty pattern, sequence, alternative, greedy or lazy repetition, a numbered group,
  the start of the text, its end (\<open>$\<close>), a word boundary (\<open>\b\<close>) and a lookahead.\<close>

datatype re = Cls "char \<Rightarrow> bool" | Eps | Seq re re | Alt re re | Star bool re | Grp nat re
  | Bol | Eol | Bnd | Ahead re

text \<open>A place in the text: what lies before it, reversed, and what follows. A group remembers where it began and what it
  matched.\<close>

type_synonym place = "string \<times> string"
type_synonym groups = "(nat \<times> nat \<times> string) list"

definition at_boundary :: "place \<Rightarrow> bool" where
  "at_boundary p = (case p of (before, after) \<Rightarrow>
     (before \<noteq> [] \<and> is_word (hd before)) \<noteq> (after \<noteq> [] \<and> is_word (hd after)))"

definition at_end :: "place \<Rightarrow> bool" where
  "at_end p \<longleftrightarrow> snd p = [] \<or> snd p = [newline]"

text \<open>Repetition of a one-step matcher; an iteration that consumes nothing is not repeated.\<close>

fun re_iter :: "nat \<Rightarrow> bool \<Rightarrow> (place \<times> groups \<Rightarrow> (place \<times> groups) list) \<Rightarrow> place \<times> groups \<Rightarrow> (place \<times> groups) list" where
  "re_iter 0 greedy m st = [st]"
| "re_iter (Suc n) greedy m st =
     (let more = concat (map (re_iter n greedy m) (filter (\<lambda>st'. length (snd (fst st')) < length (snd (fst st))) (m st)))
      in if greedy then more @ [st] else st # more)"

primrec re_step :: "re \<Rightarrow> place \<times> groups \<Rightarrow> (place \<times> groups) list" where
  "re_step (Cls p) = (\<lambda>((before, after), g). case after of [] \<Rightarrow> [] | c # cs \<Rightarrow> if p c then [((c # before, cs), g)] else [])"
| "re_step Eps = (\<lambda>st. [st])"
| "re_step (Seq r s) = (\<lambda>st. concat (map (re_step s) (re_step r st)))"
| "re_step (Alt r s) = (\<lambda>st. re_step r st @ re_step s st)"
| "re_step (Star greedy r) = (\<lambda>st. re_iter (length (snd (fst st))) greedy (re_step r) st)"
| "re_step (Grp n r) = (\<lambda>st. map (\<lambda>(q, g). (q,
      (n, length (fst (fst st)), take (length (snd (fst st)) - length (snd q)) (snd (fst st))) # g)) (re_step r st))"
| "re_step Bol = (\<lambda>st. if fst (fst st) = [] then [st] else [])"
| "re_step Eol = (\<lambda>st. if at_end (fst st) then [st] else [])"
| "re_step Bnd = (\<lambda>st. if at_boundary (fst st) then [st] else [])"
| "re_step (Ahead r) = (\<lambda>st. if re_step r st = [] then [] else [st])"

text \<open>What a pattern accepts between two places.\<close>

inductive re_accepts :: "re \<Rightarrow> place \<Rightarrow> place \<Rightarrow> bool" where
  acc_cls: "p c \<Longrightarrow> re_accepts (Cls p) (before, c # after) (c # before, after)"
| acc_eps: "re_accepts Eps x x"
| acc_seq: "re_accepts r x y \<Longrightarrow> re_accepts s y z \<Longrightarrow> re_accepts (Seq r s) x z"
| acc_alt1: "re_accepts r x y \<Longrightarrow> re_accepts (Alt r s) x y"
| acc_alt2: "re_accepts s x y \<Longrightarrow> re_accepts (Alt r s) x y"
| acc_star_nil: "re_accepts (Star greedy r) x x"
| acc_star_cons: "re_accepts r x y \<Longrightarrow> re_accepts (Star greedy r) y z \<Longrightarrow> re_accepts (Star greedy r) x z"
| acc_grp: "re_accepts r x y \<Longrightarrow> re_accepts (Grp n r) x y"
| acc_bol: "re_accepts Bol ([], after) ([], after)"
| acc_eol: "at_end x \<Longrightarrow> re_accepts Eol x x"
| acc_bnd: "at_boundary x \<Longrightarrow> re_accepts Bnd x x"
| acc_ahead: "re_accepts r x y \<Longrightarrow> re_accepts (Ahead r) x x"

inductive_cases re_accepts_cases:
  "re_accepts (Cls p) x y" "re_accepts Eps x y" "re_accepts (Seq r s) x y" "re_accepts (Alt r s) x y"
  "re_accepts (Grp n r) x y" "re_accepts Bol x y" "re_accepts Eol x y" "re_accepts Bnd x y" "re_accepts (Ahead r) x y"

lemmas re_accepts_rules = acc_cls acc_eps acc_seq acc_alt1 acc_alt2 acc_star_nil acc_grp acc_eol acc_bnd acc_ahead

text \<open>A match moves forward over the same text.\<close>

definition moves :: "place \<Rightarrow> place \<Rightarrow> bool" where
  "moves x y \<longleftrightarrow> (\<exists>w. snd x = w @ snd y \<and> fst y = rev w @ fst x)"

lemma moves_refl [simp]: "moves x x"
  by (simp add: moves_def)

lemma moves_trans: "moves x y \<Longrightarrow> moves y z \<Longrightarrow> moves x z"
  by (auto simp: moves_def)

lemma moves_length: "moves x y \<Longrightarrow> length (snd y) \<le> length (snd x)"
  by (auto simp: moves_def)

lemma moves_eq: "moves x y \<Longrightarrow> length (snd y) = length (snd x) \<Longrightarrow> y = x"
  by (cases x; cases y) (auto simp: moves_def)

lemma re_accepts_moves: "re_accepts r x y \<Longrightarrow> moves x y"
  by (induction rule: re_accepts.induct) (auto intro: moves_trans simp: moves_def)

section \<open>The matcher finds exactly the matches\<close>

lemma re_iter_sound:
  assumes "st' \<in> set (re_iter n greedy m st)" "\<And>a b. b \<in> set (m a) \<Longrightarrow> re_accepts r (fst a) (fst b)"
  shows "re_accepts (Star greedy r) (fst st) (fst st')"
  using assms(1)
proof (induction n arbitrary: st)
  case 0
  then show ?case by (simp add: acc_star_nil)
next
  case (Suc n)
  then consider "st' = st" | a where "a \<in> set (m st)" "st' \<in> set (re_iter n greedy m a)"
    by (auto simp: Let_def split: if_splits)
  then show ?case
  proof cases
    case 1
    then show ?thesis by (simp add: acc_star_nil)
  next
    case 2
    from acc_star_cons [OF assms(2) [OF 2(1)] Suc.IH [OF 2(2)]] show ?thesis .
  qed
qed

lemma re_step_sound: "st' \<in> set (re_step r st) \<Longrightarrow> re_accepts r (fst st) (fst st')"
proof (induction r arbitrary: st st')
  case (Cls p)
  obtain before after g where st: "st = ((before, after), g)" by (metis surj_pair)
  with Cls obtain c cs where "after = c # cs" "p c" "st' = ((c # before, cs), g)"
    by (auto split: list.splits if_splits)
  with st show ?case by (simp add: acc_cls)
next
  case (Seq r s)
  then obtain a where a: "a \<in> set (re_step r st)" "st' \<in> set (re_step s a)" by (auto simp del: split_paired_Ex)
  from acc_seq [OF Seq.IH(1) [OF a(1)] Seq.IH(2) [OF a(2)]] show ?case .
next
  case (Alt r s)
  then have "st' \<in> set (re_step r st) \<or> st' \<in> set (re_step s st)" by simp
  then show ?case using Alt.IH by (blast intro: acc_alt1 acc_alt2)
next
  case (Star greedy r)
  from Star.prems have "st' \<in> set (re_iter (length (snd (fst st))) greedy (re_step r) st)" by simp
  then show ?case by (rule re_iter_sound) (rule Star.IH)
next
  case (Grp n r)
  then obtain a where a: "a \<in> set (re_step r st)" "fst st' = fst a" by (auto simp: split_def)
  from acc_grp [OF Grp.IH [OF a(1)]] show ?case by (simp add: a(2))
next
  case Bol
  obtain before after g where "st = ((before, after), g)" by (metis surj_pair)
  with Bol show ?case by (auto split: if_splits intro: acc_bol)
next
  case (Ahead r)
  from Ahead.prems obtain st'' where s: "st'' \<in> set (re_step r st)" and e: "st' = st"
    by (cases "re_step r st") (auto split: if_splits)
  from acc_ahead [OF Ahead.IH [OF s]] show ?case by (simp add: e)
qed (auto split: if_splits intro: re_accepts_rules)

lemma re_iter_complete:
  assumes "re_accepts (Star greedy r) x y" "length (snd x) \<le> n"
    and m: "\<And>x y g. re_accepts r x y \<Longrightarrow> \<exists>g'. (y, g') \<in> set (m (x, g))"
  shows "\<exists>g'. (y, g') \<in> set (re_iter n greedy m (x, g))"
  using assms(1,2)
proof (induction n arbitrary: x g)
  case 0
  from re_accepts_moves [OF 0(1)] have "length (snd y) = length (snd x)" using 0(2) by (auto dest: moves_length)
  with re_accepts_moves [OF 0(1)] have "y = x" by (rule moves_eq)
  then show ?case by auto
next
  case (Suc n)
  have "(y = x) \<or> (\<exists>z. re_accepts r x z \<and> length (snd z) < length (snd x) \<and> re_accepts (Star greedy r) z y)"
    using Suc.prems(1)
  proof (induction "Star greedy r" x y rule: re_accepts.induct)
    case (acc_star_cons x z y)
    show ?case
    proof (cases "length (snd z) < length (snd x)")
      case True
      with acc_star_cons show ?thesis by blast
    next
      case False
      with moves_length [OF re_accepts_moves [OF acc_star_cons(1)]] have "length (snd z) = length (snd x)" by simp
      with re_accepts_moves [OF acc_star_cons(1)] have "z = x" by (rule moves_eq)
      with acc_star_cons show ?thesis by simp
    qed
  qed simp
  then show ?case
  proof
    assume "y = x"
    then show ?thesis by (auto simp: Let_def)
  next
    assume "\<exists>z. re_accepts r x z \<and> length (snd z) < length (snd x) \<and> re_accepts (Star greedy r) z y"
    then obtain z where z: "re_accepts r x z" "length (snd z) < length (snd x)" "re_accepts (Star greedy r) z y" by blast
    from m [OF z(1)] obtain g1 where g1: "(z, g1) \<in> set (m (x, g))" by blast
    from z(2) Suc.prems(2) have "length (snd z) \<le> n" by simp
    from Suc.IH [OF z(3) this] obtain g2 where g2: "(y, g2) \<in> set (re_iter n greedy m (z, g1))" by blast
    from g1 z(2) have "(z, g1) \<in> set (filter (\<lambda>st'. length (snd (fst st')) < length (snd (fst (x, g)))) (m (x, g)))"
      by simp
    then have "set (re_iter n greedy m (z, g1)) \<subseteq> set (re_iter (Suc n) greedy m (x, g))"
      by (simp only: re_iter.simps Let_def) (auto simp del: split_paired_Ex)
    with g2 show ?thesis by blast
  qed
qed

lemma re_step_complete: "re_accepts r x y \<Longrightarrow> \<exists>g'. (y, g') \<in> set (re_step r (x, g))"
proof (induction r arbitrary: x y g)
  case (Seq r s)
  from Seq.prems obtain z where z: "re_accepts r x z" "re_accepts s z y" by (auto elim: re_accepts_cases)
  from Seq.IH(1) [OF z(1)] obtain g1 where g1: "(z, g1) \<in> set (re_step r (x, g))" by blast
  from Seq.IH(2) [OF z(2)] obtain g2 where "(y, g2) \<in> set (re_step s (z, g1))" by blast
  with g1 show ?case by force
next
  case (Alt r s)
  from Alt.prems have "re_accepts r x y \<or> re_accepts s x y" by (auto elim: re_accepts_cases)
  with Alt.IH(1) [of x y g] Alt.IH(2) [of x y g] show ?case by auto
next
  case (Star greedy r)
  have "\<exists>g'. (y, g') \<in> set (re_iter (length (snd x)) greedy (re_step r) (x, g))"
    by (rule re_iter_complete [OF Star.prems]) (use Star.IH in auto)
  then show ?case by simp
next
  case (Grp n r)
  from Grp.prems have "re_accepts r x y" by (auto elim: re_accepts_cases)
  from Grp.IH [OF this] obtain g1 where "(y, g1) \<in> set (re_step r (x, g))" by blast
  then show ?case by force
next
  case (Ahead r)
  from Ahead.prems obtain z where "re_accepts r x z" "y = x" by (auto elim: re_accepts_cases)
  with Ahead.IH [of x z g] show ?case by auto
qed (auto elim!: re_accepts_cases)

text \<open>The backtracking matcher reaches a place exactly when the pattern accepts the text up to it.\<close>

lemma re_step_iff: "(\<exists>g'. (y, g') \<in> set (re_step r (x, g))) \<longleftrightarrow> re_accepts r x y"
proof
  assume "\<exists>g'. (y, g') \<in> set (re_step r (x, g))"
  then obtain g' where "(y, g') \<in> set (re_step r (x, g))" by blast
  from re_step_sound [OF this] show "re_accepts r x y" by simp
qed (rule re_step_complete)

section \<open>The functions of the module\<close>

text \<open>A match: where it begins, what it matched, and its groups.\<close>

record re_match =
  rm_start :: nat
  rm_text :: string
  rm_groups :: groups

definition mk_match :: "place \<Rightarrow> place \<times> groups \<Rightarrow> re_match" where
  "mk_match x st = \<lparr>rm_start = length (fst x), rm_text = take (length (snd x) - length (snd (fst st))) (snd x),
     rm_groups = snd st\<rparr>"

definition rm_end :: "re_match \<Rightarrow> nat" where
  "rm_end m = rm_start m + length (rm_text m)"

text \<open>\<open>match[n]\<close> is the text of a group, \<open>None\<close> for one that took no part; \<open>match.span(n)\<close> its place.\<close>

definition rm_group :: "re_match \<Rightarrow> nat \<Rightarrow> string option" where
  "rm_group m n = map_option snd (map_of (rm_groups m) n)"

definition rm_span :: "re_match \<Rightarrow> nat \<Rightarrow> (nat \<times> nat) option" where
  "rm_span m n = map_option (\<lambda>(i, t). (i, i + length t)) (map_of (rm_groups m) n)"

definition re_match_at :: "re \<Rightarrow> place \<Rightarrow> re_match option" where
  "re_match_at r x = (case re_step r (x, []) of [] \<Rightarrow> None | st # _ \<Rightarrow> Some (mk_match x st))"

definition re_match_start :: "re \<Rightarrow> string \<Rightarrow> re_match option" where
  "re_match_start r s = re_match_at r ([], s)"

definition re_fullmatch :: "re \<Rightarrow> string \<Rightarrow> re_match option" where
  "re_fullmatch r s = map_option (mk_match ([], s)) (find (\<lambda>st. snd (fst st) = []) (re_step r (([], s), [])))"

text \<open>\<open>re.search\<close>: the leftmost place with a match.\<close>

fun re_search_from :: "re \<Rightarrow> string \<Rightarrow> string \<Rightarrow> re_match option" where
  "re_search_from r before [] = re_match_at r (before, [])"
| "re_search_from r before (c # cs) = (case re_match_at r (before, c # cs) of Some m \<Rightarrow> Some m
     | None \<Rightarrow> re_search_from r (c # before) cs)"

definition re_search :: "re \<Rightarrow> string \<Rightarrow> re_match option" where
  "re_search r s = re_search_from r [] s"

text \<open>The matches of \<open>re.findall\<close> and \<open>re.sub\<close>, from left to right without overlap; the first argument counts the
  characters of a match still to be passed.\<close>

fun re_scan :: "nat \<Rightarrow> re \<Rightarrow> string \<Rightarrow> string \<Rightarrow> re_match list" where
  "re_scan skip r before [] = []"
| "re_scan (Suc skip) r before (c # cs) = re_scan skip r (c # before) cs"
| "re_scan 0 r before (c # cs) = (case re_match_at r (before, c # cs) of
     Some m \<Rightarrow> (if rm_text m = [] then re_scan 0 r (c # before) cs
                else m # re_scan (length (rm_text m) - 1) r (c # before) cs)
   | None \<Rightarrow> re_scan 0 r (c # before) cs)"

definition re_findall :: "re \<Rightarrow> string \<Rightarrow> re_match list" where
  "re_findall r s = re_scan 0 r [] s"

text \<open>\<open>re.sub\<close> with a replacement computed from the match, at most as often as \<open>count\<close> says (\<open>None\<close>: always).\<close>

fun re_sub_from :: "nat \<Rightarrow> nat option \<Rightarrow> re \<Rightarrow> (re_match \<Rightarrow> string) \<Rightarrow> string \<Rightarrow> string \<Rightarrow> string" where
  "re_sub_from skip n r f before [] = []"
| "re_sub_from (Suc skip) n r f before (c # cs) = re_sub_from skip n r f (c # before) cs"
| "re_sub_from 0 n r f before (c # cs) = (case if n = Some 0 then None else re_match_at r (before, c # cs) of
     Some m \<Rightarrow> (if rm_text m = [] then c # re_sub_from 0 n r f (c # before) cs
                else f m @ re_sub_from (length (rm_text m) - 1) (map_option (\<lambda>k. k - 1) n) r f (c # before) cs)
   | None \<Rightarrow> c # re_sub_from 0 n r f (c # before) cs)"

definition re_sub :: "re \<Rightarrow> (re_match \<Rightarrow> string) \<Rightarrow> string \<Rightarrow> string" where
  "re_sub r f s = re_sub_from 0 None r f [] s"

definition re_sub_first :: "re \<Rightarrow> (re_match \<Rightarrow> string) \<Rightarrow> string \<Rightarrow> string" where
  "re_sub_first r f s = re_sub_from 0 (Some 1) r f [] s"

section \<open>Building patterns\<close>

definition lit :: "char \<Rightarrow> re" where
  "lit c = Cls (\<lambda>x. x = c)"

fun str_re :: "string \<Rightarrow> re" where
  "str_re [] = Eps"
| "str_re [c] = lit c"
| "str_re (c # d # cs) = Seq (lit c) (str_re (d # cs))"

fun seqs :: "re list \<Rightarrow> re" where
  "seqs [] = Eps"
| "seqs [r] = r"
| "seqs (r # s # rs) = Seq r (seqs (s # rs))"

fun alts :: "string list \<Rightarrow> re" where
  "alts [] = Cls (\<lambda>c. False)"
| "alts [s] = str_re s"
| "alts (s # t # ss) = Alt (str_re s) (alts (t # ss))"

definition many :: "re \<Rightarrow> re" where
  "many r = Star True r"

definition many1 :: "re \<Rightarrow> re" where
  "many1 r = Seq r (Star True r)"

definition words :: re where
  "words = many1 (Cls is_word)"

definition spaces :: re where
  "spaces = many (Cls is_space)"

definition spaces1 :: re where
  "spaces1 = many1 (Cls is_space)"

text \<open>The dot, which does not match a line break unless \<open>re.S\<close> is given.\<close>

definition dot :: "char \<Rightarrow> bool" where
  "dot c \<longleftrightarrow> c \<noteq> newline"

section \<open>What a search finds\<close>

lemma re_accepts_str_re: "re_accepts (str_re s) x y \<longleftrightarrow> snd x = s @ snd y \<and> fst y = rev s @ fst x"
proof (induction s arbitrary: x rule: str_re.induct)
  case 1
  then show ?case by (cases x; cases y) (auto elim: re_accepts_cases intro: acc_eps)
next
  case (2 c)
  have "re_accepts (Cls (\<lambda>x. x = c)) x y" if "x = (b, c # a)" "y = (c # b, a)" for a b
    unfolding that by (rule acc_cls) simp
  then show ?case by (cases x; cases y) (auto simp: lit_def elim!: re_accepts_cases)
next
  case (3 c d cs)
  have "re_accepts (Cls (\<lambda>x. x = c)) (b, c # a) (c # b, a)" for a b by (rule acc_cls) simp
  with 3 show ?case
    by (cases x) (auto simp: lit_def elim!: re_accepts_cases intro!: acc_seq)
qed

lemma re_match_at_None: "re_match_at r x = None \<longleftrightarrow> \<not> (\<exists>y. re_accepts r x y)"
proof
  assume "re_match_at r x = None"
  then have "re_step r (x, []) = []" by (simp add: re_match_at_def split: list.splits)
  then show "\<not> (\<exists>y. re_accepts r x y)" using re_step_complete [of r x _ "[]"] by auto
next
  assume "\<not> (\<exists>y. re_accepts r x y)"
  then have "re_step r (x, []) = []" using re_step_sound [of _ r "(x, [])"] by (cases "re_step r (x, [])") force+
  then show "re_match_at r x = None" by (simp add: re_match_at_def)
qed

lemma re_search_from_None:
  "re_search_from r before s = None \<longleftrightarrow> \<not> (\<exists>a b y. s = a @ b \<and> re_accepts r (rev a @ before, b) y)"
proof (induction r before s rule: re_search_from.induct)
  case (1 r before)
  then show ?case by (simp add: re_match_at_None)
next
  case (2 r before c cs)
  have "(\<exists>a b y. c # cs = a @ b \<and> re_accepts r (rev a @ before, b) y) \<longleftrightarrow>
      (\<exists>y. re_accepts r (before, c # cs) y) \<or> (\<exists>a b y. cs = a @ b \<and> re_accepts r (rev a @ c # before, b) y)" (is "?L \<longleftrightarrow> ?A \<or> ?B")
  proof
    assume ?L
    then obtain a b y where e: "c # cs = a @ b" "re_accepts r (rev a @ before, b) y" by blast
    show "?A \<or> ?B"
    proof (cases a)
      case Nil
      with e have "re_accepts r (before, c # cs) y" by simp
      then show ?thesis by blast
    next
      case (Cons d ds)
      with e have "cs = ds @ b" "re_accepts r (rev ds @ c # before, b) y" by auto
      then show ?thesis by blast
    qed
  next
    assume "?A \<or> ?B"
    then show ?L
    proof
      assume ?A
      then obtain y where "re_accepts r (rev [] @ before, c # cs) y" by auto
      then show ?thesis by (metis append_Nil)
    next
      assume ?B
      then obtain a b y where "cs = a @ b" "re_accepts r (rev a @ c # before, b) y" by blast
      then have "c # cs = (c # a) @ b \<and> re_accepts r (rev (c # a) @ before, b) y" by simp
      then show ?thesis by blast
    qed
  qed
  then have "\<not> ?L \<longleftrightarrow> re_match_at r (before, c # cs) = None \<and> \<not> ?B"
    unfolding re_match_at_None by blast
  then show ?case using 2 by (cases "re_match_at r (before, c # cs)") simp_all
qed

text \<open>A search fails exactly when no part of the text is accepted.\<close>

lemma re_search_None: "re_search r s = None \<longleftrightarrow> \<not> (\<exists>a b y. s = a @ b \<and> re_accepts r (rev a, b) y)"
  by (simp add: re_search_def re_search_from_None)

lemma re_search_alts: "ss \<noteq> [] \<Longrightarrow> re_search (alts ss) s \<noteq> None \<longleftrightarrow> (\<exists>p \<in> set ss. str_in p s)"
proof -
  have acc: "ss \<noteq> [] \<Longrightarrow> re_accepts (alts ss) x y \<longleftrightarrow> (\<exists>p \<in> set ss. re_accepts (str_re p) x y)" for x y
    by (induction ss rule: alts.induct) (auto elim: re_accepts_cases intro: acc_alt1 acc_alt2)
  assume ne: "ss \<noteq> []"
  have one: "(\<exists>y. re_accepts (alts ss) (before, b) y) \<longleftrightarrow> (\<exists>p \<in> set ss. \<exists>t. b = p @ t)" for b before
  proof
    assume "\<exists>y. re_accepts (alts ss) (before, b) y"
    then obtain y where "re_accepts (alts ss) (before, b) y" ..
    then show "\<exists>p \<in> set ss. \<exists>t. b = p @ t" unfolding acc [OF ne] re_accepts_str_re by auto
  next
    assume "\<exists>p \<in> set ss. \<exists>t. b = p @ t"
    then obtain p t where p: "p \<in> set ss" "b = p @ t" by blast
    then have "re_accepts (str_re p) (before, b) (rev p @ before, t)" by (simp add: re_accepts_str_re)
    with p(1) show "\<exists>y. re_accepts (alts ss) (before, b) y" unfolding acc [OF ne] by blast
  qed
  have "re_search (alts ss) s \<noteq> None \<longleftrightarrow> (\<exists>a b. s = a @ b \<and> (\<exists>y. re_accepts (alts ss) (rev a, b) y))"
    unfolding re_search_None by blast
  also have "\<dots> \<longleftrightarrow> (\<exists>p \<in> set ss. str_in p s)" unfolding one str_in_iff by blast
  finally show ?thesis .
qed

section \<open>Classes of characters\<close>

text \<open>What a class and its repetitions accept.\<close>

lemma accepts_Cls: "re_accepts (Cls p) x y \<longleftrightarrow> (\<exists>c. p c \<and> snd x = c # snd y \<and> fst y = c # fst x)"
proof
  assume "re_accepts (Cls p) x y"
  then show "\<exists>c. p c \<and> snd x = c # snd y \<and> fst y = c # fst x" by (auto elim: re_accepts_cases)
next
  assume "\<exists>c. p c \<and> snd x = c # snd y \<and> fst y = c # fst x"
  then obtain c where "p c" "x = (fst x, c # snd y)" "y = (c # fst x, snd y)" by (cases x; cases y) auto
  then show "re_accepts (Cls p) x y" by (metis acc_cls)
qed

lemma accepts_many_Cls: "re_accepts (Star g (Cls p)) x y \<longleftrightarrow> (\<exists>w. (\<forall>c \<in> set w. p c) \<and> snd x = w @ snd y \<and> fst y = rev w @ fst x)"
proof
  assume "re_accepts (Star g (Cls p)) x y"
  then show "\<exists>w. (\<forall>c \<in> set w. p c) \<and> snd x = w @ snd y \<and> fst y = rev w @ fst x"
  proof (induction "Star g (Cls p)" x y rule: re_accepts.induct)
    case (acc_star_cons x y z)
    from acc_star_cons(1) obtain c where c: "p c" "snd x = c # snd y" "fst y = c # fst x" by (auto simp: accepts_Cls)
    from acc_star_cons(3) obtain w where "\<forall>c \<in> set w. p c" "snd y = w @ snd z" "fst z = rev w @ fst y" by blast
    with c show ?case by (intro exI [of _ "c # w"]) simp
  qed (auto intro: exI [of _ "[]"])
next
  assume "\<exists>w. (\<forall>c \<in> set w. p c) \<and> snd x = w @ snd y \<and> fst y = rev w @ fst x"
  then obtain w where "\<forall>c \<in> set w. p c" "snd x = w @ snd y" "fst y = rev w @ fst x" by blast
  then show "re_accepts (Star g (Cls p)) x y"
  proof (induction w arbitrary: x)
    case Nil
    then have "y = x" by (cases x; cases y) simp
    then show ?case by (simp add: acc_star_nil)
  next
    case (Cons c w)
    have "re_accepts (Cls p) x (c # fst x, w @ snd y)" using Cons.prems by (simp add: accepts_Cls)
    moreover have "re_accepts (Star g (Cls p)) (c # fst x, w @ snd y) y" using Cons by simp
    ultimately show ?case by (rule acc_star_cons)
  qed
qed

lemma accepts_many1_Cls: "re_accepts (many1 (Cls p)) x y \<longleftrightarrow>
    (\<exists>w. w \<noteq> [] \<and> (\<forall>c \<in> set w. p c) \<and> snd x = w @ snd y \<and> fst y = rev w @ fst x)"
proof
  assume "re_accepts (many1 (Cls p)) x y"
  then obtain z where z: "re_accepts (Cls p) x z" "re_accepts (Star True (Cls p)) z y"
    by (auto simp: many1_def elim: re_accepts_cases)
  from z(1) obtain c where "p c" "snd x = c # snd z" "fst z = c # fst x" by (auto simp: accepts_Cls)
  moreover from z(2) obtain w where "\<forall>c \<in> set w. p c" "snd z = w @ snd y" "fst y = rev w @ fst z"
    unfolding accepts_many_Cls by blast
  ultimately show "\<exists>w. w \<noteq> [] \<and> (\<forall>c \<in> set w. p c) \<and> snd x = w @ snd y \<and> fst y = rev w @ fst x"
    by (intro exI [of _ "c # w"]) simp
next
  assume "\<exists>w. w \<noteq> [] \<and> (\<forall>c \<in> set w. p c) \<and> snd x = w @ snd y \<and> fst y = rev w @ fst x"
  then obtain c w where w: "\<forall>c \<in> set (c # w). p c" "snd x = (c # w) @ snd y" "fst y = rev (c # w) @ fst x"
    by (metis list.exhaust)
  have "re_accepts (Cls p) x (c # fst x, w @ snd y)" using w by (simp add: accepts_Cls)
  moreover have "re_accepts (Star True (Cls p)) (c # fst x, w @ snd y) y" using w by (simp add: accepts_many_Cls)
  ultimately show "re_accepts (many1 (Cls p)) x y" unfolding many1_def by (rule acc_seq)
qed

section \<open>Leftmost and first matches\<close>

text \<open>A search passes the places at which nothing matches.\<close>

lemma re_search_from_skip:
  "\<forall>a b. p = a @ b \<longrightarrow> b \<noteq> [] \<longrightarrow> re_match_at r (rev a @ before, b @ s) = None \<Longrightarrow>
    re_search_from r before (p @ s) = re_search_from r (rev p @ before) s"
proof (induction p arbitrary: before)
  case (Cons c p)
  have "re_match_at r (before, c # p @ s) = None" using Cons.prems [rule_format, of "[]" "c # p"] by simp
  moreover have "re_search_from r (c # before) (p @ s) = re_search_from r (rev p @ c # before) s"
  proof (rule Cons.IH, intro allI impI)
    fix a b assume "p = a @ b" "b \<noteq> []"
    with Cons.prems [rule_format, of "c # a" b] show "re_match_at r (rev a @ c # before, b @ s) = None" by simp
  qed
  ultimately show ?case by simp
qed simp

text \<open>The first match of a pattern whose parts match in one way only, or greedily.\<close>

definition first_match :: "re \<Rightarrow> place \<times> groups \<Rightarrow> place \<times> groups \<Rightarrow> bool" where
  "first_match r st st' \<longleftrightarrow> (\<exists>rest. re_step r st = st' # rest)"

lemma re_step_Seq: "st' \<in> set (re_step (Seq r s) st) \<longleftrightarrow> (\<exists>a. a \<in> set (re_step r st) \<and> st' \<in> set (re_step s a))"
  by (auto simp del: split_paired_Ex)

lemma first_Seq: "first_match r st st' \<Longrightarrow> first_match s st' st'' \<Longrightarrow> first_match (Seq r s) st st''"
  by (auto simp: first_match_def)

lemma first_Grp: "first_match r (x, g) (y, g') \<Longrightarrow>
    first_match (Grp n r) (x, g) (y, (n, length (fst x), take (length (snd x) - length (snd y)) (snd x)) # g')"
  by (auto simp: first_match_def)

lemma first_lit: "first_match (lit c) ((b, c # a), g) ((c # b, a), g)"
  by (simp add: first_match_def lit_def)

lemma first_str: "first_match (str_re s) ((b, s @ a), g) ((rev s @ b, a), g)"
proof (induction s arbitrary: b rule: str_re.induct)
  case (3 c d cs)
  have "first_match (str_re (d # cs)) ((c # b, d # cs @ a), g) ((rev (c # d # cs) @ b, a), g)"
    using 3 [of "c # b"] by simp
  from first_Seq [OF first_lit [of c b "d # cs @ a"] this] show ?case by simp
qed (simp_all add: first_match_def lit_def)

lemma re_iter_greedy:
  assumes "list_all p w" "rest = [] \<or> \<not> p (hd rest)" "length w \<le> n"
  shows "\<exists>more. re_iter n True (re_step (Cls p)) ((b, w @ rest), g) = ((rev w @ b, rest), g) # more"
  using assms
proof (induction w arbitrary: b n)
  case Nil
  then show ?case by (cases n; cases rest) (auto simp: Let_def)
next
  case (Cons c w)
  then obtain m where n: "n = Suc m" by (cases n) auto
  from Cons.IH [of m "c # b"] Cons.prems n obtain more where
    "re_iter m True (re_step (Cls p)) ((c # b, w @ rest), g) = ((rev w @ c # b, rest), g) # more" by auto
  with Cons.prems n show ?case by (simp add: Let_def)
qed

lemma first_many:
  assumes "list_all p w" "rest = [] \<or> \<not> p (hd rest)"
  shows "first_match (Star True (Cls p)) ((b, w @ rest), g) ((rev w @ b, rest), g)"
  unfolding first_match_def using re_iter_greedy [OF assms, of "length (w @ rest)"] by auto

lemma first_many1:
  assumes "list_all p w" "w \<noteq> []" "rest = [] \<or> \<not> p (hd rest)"
  shows "first_match (many1 (Cls p)) ((b, w @ rest), g) ((rev w @ b, rest), g)"
proof -
  obtain c v where w: "w = c # v" using assms(2) by (cases w) auto
  have "first_match (Cls p) ((b, c # v @ rest), g) ((c # b, v @ rest), g)"
    using assms(1) w by (simp add: first_match_def)
  from first_Seq [OF this first_many [of p v rest "c # b" g]] assms(1,3) w show ?thesis
    by (simp add: many1_def)
qed

lemma first_match_at:
  assumes "first_match r (x, []) (y, g)"
  shows "re_match_at r x = Some \<lparr>rm_start = length (fst x), rm_text = take (length (snd x) - length (snd y)) (snd x), rm_groups = g\<rparr>"
  using assms by (auto simp: first_match_def re_match_at_def mk_match_def)

lemma rm_group_match_at:
  assumes "re_match_at r x = Some m"
  obtains st where "st \<in> set (re_step r (x, []))" "rm_groups m = snd st"
  using assms by (auto simp: re_match_at_def mk_match_def split: list.splits intro: that)

text \<open>What a search finds is a match at some place.\<close>

lemma re_search_from_place: "re_search_from r before s = Some m \<Longrightarrow> \<exists>a b. s = a @ b \<and> re_match_at r (rev a @ before, b) = Some m"
proof (induction r before s rule: re_search_from.induct)
  case (2 r before c cs)
  show ?case
  proof (cases "re_match_at r (before, c # cs)")
    case None
    with 2(2) have "re_search_from r (c # before) cs = Some m" by simp
    from 2(1) [OF None this] obtain a b where "cs = a @ b" "re_match_at r (rev a @ c # before, b) = Some m" by blast
    then have "c # cs = (c # a) @ b \<and> re_match_at r (rev (c # a) @ before, b) = Some m" by simp
    then show ?thesis by blast
  next
    case (Some m')
    with 2(2) have "c # cs = [] @ (c # cs) \<and> re_match_at r (rev [] @ before, c # cs) = Some m" by simp
    then show ?thesis by blast
  qed
qed simp

lemma re_search_place:
  assumes "re_search r s = Some m"
  obtains a b where "s = a @ b" "re_match_at r (rev a, b) = Some m"
  using re_search_from_place [OF assms [unfolded re_search_def]] that by auto

end
