(* ===== verification/Verilog_Text.thy ===== *)
theory Verilog_Text
  imports Py_Regex SoC_Build
begin

text \<open>
  The generators of test modules under \<open>perf/resource\<close>: \<open>generate_wrappers.py\<close>, which wraps a module so that every
  port is a pin of the area run, and the two miters \<open>generate_wb_miter.py\<close> and \<open>generate_ftq_miter.py\<close>, which put a
  candidate beside a reference and compare their outputs. Each reads the header of a SystemVerilog module with regular
  expressions and writes a module. Reading a source file is a parameter; the hashes they record are left out.
\<close>

section \<open>Patterns\<close>

definition any_char :: "char \<Rightarrow> bool" where
  "any_char c = True"

text \<open>\<open>/\*.*?\*/\<close> and \<open>//[^\n]*\<close>.\<close>

definition block_comment_re :: re where
  "block_comment_re = seqs [str_re ''/*'', Star False (Cls any_char), str_re ''*/'']"

definition comment_re :: re where
  "comment_re = Alt block_comment_re (Seq (str_re ''//'') (many (Cls (\<lambda>c. c \<noteq> newline))))"

definition strip_comments :: "string \<Rightarrow> string" where
  "strip_comments s = re_sub comment_re (\<lambda>_. []) s"

text \<open>A conditional section of the preprocessor, up to the nearest \<open>`endif\<close>.\<close>

definition drop_ifdef :: "string \<Rightarrow> string \<Rightarrow> string" where
  "drop_ifdef tag s = re_sub (seqs [str_re (''`ifdef '' @ tag), Star False (Cls any_char), str_re ''`endif'']) (\<lambda>_. []) s"

definition module_re :: "string \<Rightarrow> re" where
  "module_re name = seqs [Bnd, str_re ''module'', spaces1, str_re name]"

definition not_in :: "string \<Rightarrow> re" where
  "not_in cs = Cls (\<lambda>c. c \<notin> set cs)"

text \<open>\<open>=\s*[^,\n]+\<close>, the default value of a port.\<close>

definition default_re :: re where
  "default_re = seqs [lit CHR ''='', spaces, many1 (not_in [CHR '','', newline])]"

text \<open>A parameter followed by a comma or a line break: it has no default yet.\<close>

definition open_param_re :: "re list \<Rightarrow> re" where
  "open_param_re rs = Seq (Grp 1 (seqs rs)) (Ahead (Seq spaces (Cls (\<lambda>c. c \<in> {CHR '','', newline}))))"

definition add_default :: "re list \<Rightarrow> string \<Rightarrow> string \<Rightarrow> string" where
  "add_default rs val s = re_sub (open_param_re rs) (\<lambda>m. the (rm_group m 1) @ '' = '' @ val) s"

text \<open>\<open>(?:\[[^\]]*\]\s*)*\<close>, unpacked dimensions, and a port declaration, whose name comes last.\<close>

definition dim_re :: re where
  "dim_re = seqs [lit CHR ''['', many (not_in '']''), lit CHR '']'', spaces]"

definition port_re :: re where
  "port_re = seqs [Grp 1 words, spaces, many dim_re, Eol]"

section \<open>Area wrappers\<close>

definition path_stem :: "string \<Rightarrow> string" where
  "path_stem path = file_stem (last (split_on CHR ''/'' path))"

definition wrapper_modules :: "(string \<times> string \<times> string \<times> string option) list" where
  "wrapper_modules =
    [(''uop_queue'', ''rtl/backend/uop_queue.sv'', ''be'', Some ''clk''),
     (''rename_dispatch_queue'', ''rtl/backend/rename_dispatch_queue.sv'', ''be'', Some ''clk''),
     (''store_queue'', ''rtl/backend/store_queue.sv'', ''be'', Some ''clk''),
     (''fetch_buffer'', ''rtl/frontend/fetch_buffer.sv'', ''fe'', Some ''clk_i''),
     (''ftq'', ''rtl/frontend/ftq.sv'', ''fe'', Some ''clk_i''),
     (''backend_issue_queue'', ''rtl/backend/backend_issue_queue.sv'', ''be'', Some ''clk''),
     (''writeback_arbiter'', ''rtl/backend/writeback_arbiter.sv'', ''be'', None),
     (''fp_writeback_arbiter'', ''rtl/backend/fp_writeback_arbiter.sv'', ''be'', None),
     (''rob'', ''rtl/backend/rob.sv'', ''be'', Some ''clk''),
     (''load_queue'', ''rtl/backend/load_queue.sv'', ''be'', Some ''clk''),
     (''free_list'', ''rtl/backend/free_list.sv'', ''be'', Some ''clk''),
     (''free_list_FP'', ''rtl/backend/free_list.sv'', ''be'', Some ''clk''),
     (''rename_map_table'', ''rtl/backend/rename_map_table.sv'', ''be'', Some ''clk''),
     (''rename_map_table_FP'', ''rtl/backend/rename_map_table.sv'', ''be'', Some ''clk''),
     (''preg_ready_table'', ''rtl/backend/preg_ready_table.sv'', ''be'', Some ''clk''),
     (''preg_ready_table_FP'', ''rtl/backend/preg_ready_table.sv'', ''be'', Some ''clk'')]"

definition domain_modules :: "string list" where
  "domain_modules = [''free_list'', ''rename_map_table'', ''preg_ready_table'']"

definition ends_with :: "string \<Rightarrow> string \<Rightarrow> bool" where
  "ends_with suffix s = str_prefix (rev suffix) (rev s)"

text \<open>The parameters of the wrapper: those of the module, the ones without a default given one.\<close>

definition wrapper_params :: "string \<Rightarrow> string \<Rightarrow> string \<Rightarrow> string \<Rightarrow> string" where
  "wrapper_params name dut cfg params0 =
    (let params1 = add_default [str_re ''parameter'', spaces1, str_re ''o3_cfg_pkg::'', words, spaces1, str_re ''CFG'']
           (''o3_cfg_pkg::O3_CFG.'' @ cfg) params0;
         params2 = (if dut \<in> set domain_modules
           then add_default [str_re ''parameter'', spaces1, str_re ''o3_types_pkg::reg_domain_e'', spaces1, str_re ''DOMAIN'']
             (''o3_types_pkg::'' @ (if ends_with ''_FP'' name then ''RD_FP'' else ''RD_INT'')) params1
           else params1) in
     if name = ''backend_issue_queue''
     then add_default [str_re ''parameter'', spaces1, str_re ''o3_types_pkg::iq_kind_e'', spaces1, str_re ''KIND'']
       ''o3_types_pkg::IQ_INT'' params2
     else if name = ''rob''
     then add_default [str_re ''parameter'', spaces1, str_re ''int'', spaces1, str_re ''COMPLETE_WIDTH'']
       ''CFG.exec.num_alu + 2*CFG.lsu.mem_pipes + 10'' params2
     else params2)"

definition port_name :: "string \<Rightarrow> string py" where
  "port_name decl = (case re_search port_re (py_strip decl) of None \<Rightarrow> Inl ValueError | Some m \<Rightarrow> Inr (the (rm_group m 1)))"

definition wrapper_overrides :: "string \<Rightarrow> string \<Rightarrow> string" where
  "wrapper_overrides name dut = ''.CFG(CFG)''
     @ (if name = ''store_queue'' then '', .DCACHE_DRAIN(1'' @ [CHR 39] @ ''b1)''
        else if name = ''backend_issue_queue'' then '', .KIND(KIND)''
        else if name = ''fp_writeback_arbiter'' then '', .NUM_SRC(NUM_SRC)''
        else if name = ''rob'' then '', .COMPLETE_WIDTH(COMPLETE_WIDTH)'' else [])
     @ (if dut \<in> set domain_modules then '', .DOMAIN(DOMAIN)'' else [])"

definition wrapper_source :: "string \<Rightarrow> string \<Rightarrow> string" where
  "wrapper_source name source = (let text1 = drop_ifdef ''O3_FRONTEND_DEBUG'' (strip_comments source) in
     if name = ''rob'' then drop_ifdef ''ENABLE_RETIRE_INFO'' text1 else text1)"

text \<open>The parts of a module header: what stands before the parameters, the parameters, the ports.\<close>

definition module_header :: "string \<Rightarrow> string \<Rightarrow> (string \<times> string \<times> string) py" where
  "module_header dut src = (case re_search (Seq (module_re dut) Bnd) src of None \<Rightarrow> Inl AttributeError | Some m \<Rightarrow>
     py_bind (str_index src ''#'' (rm_end m)) (\<lambda>start.
     py_bind (str_index src ''('' start) (\<lambda>p. py_bind (header_group src p) (\<lambda>(params, stop).
     py_bind (str_index src ''('' stop) (\<lambda>q. py_bind (header_group src q) (\<lambda>(ports, _).
       Inr (take (start - rm_end m) (drop (rm_end m) src), params, ports)))))))"

definition wrapper_text :: "string \<Rightarrow> string \<Rightarrow> string \<Rightarrow> string \<Rightarrow> string \<Rightarrow> string list \<Rightarrow> string" where
  "wrapper_text name dut front params ports names =
     ''module '' @ name @ ''_area_top'' @ [newline] @ front @ ''#('' @ params @ '') ('' @ ports @ '');'' @ [newline] @
     dut @ '' #('' @ wrapper_overrides name dut @ '') dut ('' @ [newline] @
     join_with ('','' @ [newline]) (map (\<lambda>p. ''    .'' @ p @ ''('' @ p @ '')'') names) @ [newline] @ '');'' @ [newline] @
     ''endmodule'' @ [newline]"

definition area_wrapper :: "string \<Rightarrow> string \<Rightarrow> string \<Rightarrow> string \<Rightarrow> string py" where
  "area_wrapper name path cfg source = (let dut = path_stem path in
     py_bind (module_header dut (wrapper_source name source)) (\<lambda>(front, params, ports).
     let ports' = re_sub default_re (\<lambda>_. []) ports in
     py_bind (py_map port_name (split_on CHR '','' ports')) (\<lambda>names.
       Inr (wrapper_text name dut front (wrapper_params name dut cfg params) ports' names))))"

text \<open>\<open>generate\<close>: one file per module, in order; the first module that cannot be read stops it.\<close>

definition generate_wrappers :: "(string \<Rightarrow> string py) \<Rightarrow> (string \<times> string) list py" where
  "generate_wrappers read = py_map (\<lambda>(name, path, cfg, clock). py_bind (read path) (\<lambda>source.
     py_bind (area_wrapper name path cfg source) (\<lambda>w. Inr (name @ ''_area_top.sv'', w)))) wrapper_modules"

section \<open>The port pattern finds the declared name\<close>

text \<open>The groups a pattern can set; the others keep their value.\<close>

primrec re_keys :: "re \<Rightarrow> nat set" where
  "re_keys (Cls p) = {}"
| "re_keys Eps = {}"
| "re_keys (Seq r s) = re_keys r \<union> re_keys s"
| "re_keys (Alt r s) = re_keys r \<union> re_keys s"
| "re_keys (Star g r) = re_keys r"
| "re_keys (Grp n r) = insert n (re_keys r)"
| "re_keys Bol = {}"
| "re_keys Eol = {}"
| "re_keys Bnd = {}"
| "re_keys (Ahead r) = {}"

lemma re_iter_keeps:
  assumes "st' \<in> set (re_iter n greedy m st)" "\<And>a b. b \<in> set (m a) \<Longrightarrow> map_of (snd b) k = map_of (snd a) k"
  shows "map_of (snd st') k = map_of (snd st) k"
  using assms(1)
proof (induction n arbitrary: st)
  case (Suc n)
  then consider "st' = st" | a where "a \<in> set (m st)" "st' \<in> set (re_iter n greedy m a)"
    by (auto simp: Let_def split: if_splits)
  then show ?case
  proof cases
    case 2
    from Suc.IH [OF 2(2)] assms(2) [OF 2(1)] show ?thesis by simp
  qed simp
qed simp

lemma re_step_keeps: "st' \<in> set (re_step r st) \<Longrightarrow> k \<notin> re_keys r \<Longrightarrow> map_of (snd st') k = map_of (snd st) k"
proof (induction r arbitrary: st st')
  case (Cls p)
  obtain before after g where "st = ((before, after), g)" by (metis surj_pair)
  with Cls show ?case by (auto split: list.splits if_splits)
next
  case (Seq r s)
  then obtain a where a: "a \<in> set (re_step r st)" "st' \<in> set (re_step s a)" by (auto simp del: split_paired_Ex)
  from Seq.IH(1) [OF a(1)] Seq.IH(2) [OF a(2)] Seq.prems(2) show ?case by simp
next
  case (Alt r s)
  then have "st' \<in> set (re_step r st) \<or> st' \<in> set (re_step s st)" by simp
  with Alt.IH [of st' st] Alt.prems(2) show ?case by auto
next
  case (Star greedy r)
  from Star.prems have "st' \<in> set (re_iter (length (snd (fst st))) greedy (re_step r) st)" by simp
  then show ?case by (rule re_iter_keeps) (use Star.IH Star.prems(2) in auto)
next
  case (Grp n r)
  from Grp.prems(1) obtain a v where a: "a \<in> set (re_step r st)" "st' = (fst a, (n, v) # snd a)"
    by (simp add: split_def image_iff del: split_paired_Ex) blast
  from Grp.IH [OF a(1)] Grp.prems(2) a(2) show ?case by simp
qed (auto split: if_splits)

text \<open>What a leading group holds after the rest has matched.\<close>

lemma leading_group:
  assumes "st' \<in> set (re_step (Seq (Grp n r) s) (x, g))" "n \<notin> re_keys s"
  obtains z where "re_accepts r x z" "re_accepts s z (fst st')"
    "map_of (snd st') n = Some (length (fst x), take (length (snd x) - length (snd z)) (snd x))"
proof -
  from assms(1) obtain a where a: "a \<in> set (re_step (Grp n r) (x, g))" "st' \<in> set (re_step s a)"
    by (auto simp del: split_paired_Ex re_step.simps(6))
  from a(1) obtain b where b: "b \<in> set (re_step r (x, g))" "fst a = fst b"
    "map_of (snd a) n = Some (length (fst x), take (length (snd x) - length (snd (fst b))) (snd x))"
    by (auto simp: split_def)
  from re_step_sound [OF b(1)] re_step_sound [OF a(2)] re_step_keeps [OF a(2) assms(2)] b
  show thesis by (intro that [of "fst b"]) simp_all
qed

text \<open>Unpacked dimensions as a text: bracketed parts, each followed by spaces.\<close>

inductive dims_text :: "string \<Rightarrow> bool" where
  dims_nil: "dims_text []"
| dims_cons: "CHR '']'' \<notin> set width \<Longrightarrow> \<forall>c \<in> set gap. is_space c \<Longrightarrow> dims_text d \<Longrightarrow>
    dims_text (CHR ''['' # width @ CHR '']'' # gap @ d)"

lemma accepts_dim: "re_accepts dim_re x y \<longleftrightarrow> (\<exists>width gap. CHR '']'' \<notin> set width \<and> (\<forall>c \<in> set gap. is_space c) \<and>
    snd x = CHR ''['' # width @ CHR '']'' # gap @ snd y \<and> fst y = rev gap @ CHR '']'' # rev width @ CHR ''['' # fst x)"
proof
  assume "re_accepts dim_re x y"
  then obtain a b c where s: "re_accepts (lit CHR ''['') x a" "re_accepts (many (not_in '']'')) a b"
    "re_accepts (lit CHR '']'') b c" "re_accepts spaces c y"
    by (auto simp: dim_re_def elim!: re_accepts_cases)
  from s(2,4) obtain width gap where "CHR '']'' \<notin> set width" "snd a = width @ snd b" "fst b = rev width @ fst a"
    "\<forall>c \<in> set gap. is_space c" "snd c = gap @ snd y" "fst y = rev gap @ fst c"
    unfolding many_def not_in_def spaces_def accepts_many_Cls by fastforce
  with s(1,3) show "\<exists>width gap. CHR '']'' \<notin> set width \<and> (\<forall>c \<in> set gap. is_space c) \<and>
    snd x = CHR ''['' # width @ CHR '']'' # gap @ snd y \<and> fst y = rev gap @ CHR '']'' # rev width @ CHR ''['' # fst x"
    by (auto simp: lit_def accepts_Cls)
next
  assume "\<exists>width gap. CHR '']'' \<notin> set width \<and> (\<forall>c \<in> set gap. is_space c) \<and>
    snd x = CHR ''['' # width @ CHR '']'' # gap @ snd y \<and> fst y = rev gap @ CHR '']'' # rev width @ CHR ''['' # fst x"
  then obtain width gap where w: "CHR '']'' \<notin> set width" "\<forall>c \<in> set gap. is_space c"
    "snd x = CHR ''['' # width @ CHR '']'' # gap @ snd y" "fst y = rev gap @ CHR '']'' # rev width @ CHR ''['' # fst x" by blast
  have "re_accepts (lit CHR ''['') x (CHR ''['' # fst x, width @ CHR '']'' # gap @ snd y)"
    using w by (simp add: lit_def accepts_Cls)
  moreover have "re_accepts (many (not_in '']'')) (CHR ''['' # fst x, width @ CHR '']'' # gap @ snd y)
      (rev width @ CHR ''['' # fst x, CHR '']'' # gap @ snd y)"
    using w unfolding many_def not_in_def accepts_many_Cls by (intro exI [of _ width]) auto
  moreover have "re_accepts (lit CHR '']'') (rev width @ CHR ''['' # fst x, CHR '']'' # gap @ snd y)
      (CHR '']'' # rev width @ CHR ''['' # fst x, gap @ snd y)"
    by (simp add: lit_def accepts_Cls)
  moreover have "re_accepts spaces (CHR '']'' # rev width @ CHR ''['' # fst x, gap @ snd y) y"
    using w unfolding many_def spaces_def accepts_many_Cls by (intro exI [of _ gap]) auto
  ultimately show "re_accepts dim_re x y" unfolding dim_re_def seqs.simps by (blast intro: acc_seq)
qed

lemma accepts_dims: "re_accepts (many dim_re) x y \<longleftrightarrow> (\<exists>d. dims_text d \<and> snd x = d @ snd y \<and> fst y = rev d @ fst x)"
proof
  assume "re_accepts (many dim_re) x y"
  then show "\<exists>d. dims_text d \<and> snd x = d @ snd y \<and> fst y = rev d @ fst x"
    unfolding many_def
  proof (induction "Star True dim_re" x y rule: re_accepts.induct)
    case (acc_star_cons x y z)
    from acc_star_cons(4) obtain d where d: "dims_text d" "snd y = d @ snd z" "fst z = rev d @ fst y" by blast
    from acc_star_cons(1) obtain width gap where "CHR '']'' \<notin> set width" "\<forall>c \<in> set gap. is_space c"
      "snd x = CHR ''['' # width @ CHR '']'' # gap @ snd y" "fst y = rev gap @ CHR '']'' # rev width @ CHR ''['' # fst x"
      unfolding accepts_dim by blast
    with d dims_cons [of width gap d] show ?case
      by (intro exI [of _ "CHR ''['' # width @ CHR '']'' # gap @ d"]) simp
  qed (auto intro: dims_nil)
next
  assume "\<exists>d. dims_text d \<and> snd x = d @ snd y \<and> fst y = rev d @ fst x"
  then obtain d where "dims_text d" "snd x = d @ snd y" "fst y = rev d @ fst x" by blast
  then show "re_accepts (many dim_re) x y"
  proof (induction d arbitrary: x rule: dims_text.induct)
    case dims_nil
    then have "y = x" by (cases x; cases y) simp
    then show ?case by (simp add: many_def acc_star_nil)
  next
    case (dims_cons width gap d)
    let ?z = "(rev gap @ CHR '']'' # rev width @ CHR ''['' # fst x, d @ snd y)"
    have "re_accepts dim_re x ?z" using dims_cons by (auto simp: accepts_dim)
    moreover have "re_accepts (many dim_re) ?z y" using dims_cons by simp
    ultimately show ?case unfolding many_def by (rule acc_star_cons)
  qed
qed

text \<open>A word character inside dimensions lies behind an open bracket.\<close>

definition open_bracket :: "string \<Rightarrow> bool" where
  "open_bracket u \<longleftrightarrow> (\<exists>u1 u2. u = u1 @ CHR ''['' # u2 \<and> CHR '']'' \<notin> set u2)"

lemma open_bracket_simps [simp, code]:
  "open_bracket [] = False"
  "open_bracket (c # u) \<longleftrightarrow> c = CHR ''['' \<and> CHR '']'' \<notin> set u \<or> open_bracket u"
  by (auto simp: open_bracket_def Cons_eq_append_conv)

lemma space_not_word: "is_space c \<Longrightarrow> \<not> is_word c"
  by (auto simp: is_space_def is_word_def Let_def)

lemma newline_char: "\<not> is_word newline" "is_space newline" "\<not> is_word CHR '']''" "\<not> is_word CHR ''[''"
  by (simp_all add: is_word_def is_space_def newline_def char_code_def Let_def)

lemma dims_word: "dims_text d \<Longrightarrow> d = u @ c # v \<Longrightarrow> is_word c \<Longrightarrow> open_bracket u"
proof (induction d arbitrary: u rule: dims_text.induct)
  case (dims_cons width gap d)
  from dims_cons.prems obtain u' where u: "u = CHR ''['' # u'" "width @ CHR '']'' # gap @ d = u' @ c # v"
    using newline_char(4) by (cases u) auto
  from u(2) consider us where "width = u' @ c # us" | us where "u' = width @ us" "CHR '']'' # gap @ d = us @ c # v"
    by (auto simp: append_eq_append_conv2 append_eq_Cons_conv)
  then show ?case
  proof cases
    case 1
    with u(1) dims_cons(1) show ?thesis
      unfolding open_bracket_def by (intro exI [of _ "[]"] exI [of _ u']) auto
  next
    case (2 us)
    then obtain us' where us: "us = CHR '']'' # us'" "gap @ d = us' @ c # v"
      using dims_cons.prems(2) newline_char(3) by (cases us) auto
    from us(2) consider ws where "gap = us' @ c # ws" | ws where "us' = gap @ ws" "d = ws @ c # v"
      by (auto simp: append_eq_append_conv2 append_eq_Cons_conv)
    then show ?thesis
    proof cases
      case (1 ws)
      then have "is_space c" using dims_cons(2) by simp
      with dims_cons.prems(2) space_not_word show ?thesis by blast
    next
      case (2 ws)
      from dims_cons.IH [OF 2(2) dims_cons.prems(2)] obtain u1 u2 where "ws = u1 @ CHR ''['' # u2" "CHR '']'' \<notin> set u2"
        by (auto simp: open_bracket_def)
      with u(1) us(1) \<open>u' = width @ us\<close> 2(1) show ?thesis
        unfolding open_bracket_def
        by (intro exI [of _ "CHR ''['' # width @ CHR '']'' # gap @ u1"] exI [of _ u2]) simp
    qed
  qed
qed simp

lemma dims_head: "dims_text d \<Longrightarrow> d = [] \<or> (\<exists>t. d = CHR ''['' # t)"
  by (cases rule: dims_text.cases) auto

lemma accepts_port_rest: "re_accepts (seqs [spaces, many dim_re, Eol]) x y \<longleftrightarrow>
    (\<exists>sp d. (\<forall>c \<in> set sp. is_space c) \<and> dims_text d \<and> snd x = sp @ d @ snd y \<and> fst y = rev d @ rev sp @ fst x \<and> at_end y)"
proof
  assume "re_accepts (seqs [spaces, many dim_re, Eol]) x y"
  then obtain a where a: "re_accepts (Star True (Cls is_space)) x a" "re_accepts (many dim_re) a y" "at_end y"
    by (auto simp: spaces_def many_def elim!: re_accepts_cases)
  from a(1) obtain sp where "\<forall>c \<in> set sp. is_space c" "snd x = sp @ snd a" "fst a = rev sp @ fst x"
    unfolding accepts_many_Cls by blast
  moreover from a(2) obtain d where "dims_text d" "snd a = d @ snd y" "fst y = rev d @ fst a"
    unfolding accepts_dims by blast
  ultimately show "\<exists>sp d. (\<forall>c \<in> set sp. is_space c) \<and> dims_text d \<and> snd x = sp @ d @ snd y \<and>
      fst y = rev d @ rev sp @ fst x \<and> at_end y"
    using a(3) by (intro exI [of _ sp] exI [of _ d]) simp
next
  assume "\<exists>sp d. (\<forall>c \<in> set sp. is_space c) \<and> dims_text d \<and> snd x = sp @ d @ snd y \<and> fst y = rev d @ rev sp @ fst x \<and> at_end y"
  then obtain sp d where w: "\<forall>c \<in> set sp. is_space c" "dims_text d" "snd x = sp @ d @ snd y" "fst y = rev d @ rev sp @ fst x" "at_end y"
    by blast
  let ?a = "(rev sp @ fst x, d @ snd y)"
  have "re_accepts spaces x ?a" using w unfolding spaces_def many_def accepts_many_Cls by (intro exI [of _ sp]) simp
  moreover have "re_accepts (many dim_re) ?a y" using w unfolding accepts_dims by (intro exI [of _ d]) simp
  moreover have "re_accepts Eol y y" using w(5) by (rule acc_eol)
  ultimately show "re_accepts (seqs [spaces, many dim_re, Eol]) x y" unfolding seqs.simps by (blast intro: acc_seq)
qed

lemma seqs_port: "port_re = Seq (Grp 1 words) (seqs [spaces, many dim_re, Eol])"
  by (simp add: port_re_def)

lemma append_split_at:
  assumes "us @ c # rest = sp @ e"
  obtains ys where "sp = us @ c # ys" | ys where "us = sp @ ys" "ys @ c # rest = e"
proof -
  from assms consider vs where "sp = us @ vs" "c # rest = vs @ e" | vs where "us = sp @ vs" "vs @ c # rest = e"
    by (auto simp: append_eq_append_conv2)
  then show thesis
  proof cases
    case (1 vs)
    then show thesis by (cases vs) (auto intro: that)
  qed (auto intro: that)
qed

lemma port_rest_word:
  assumes "us @ c # rest = sp @ d @ e" "is_word c" "\<forall>x \<in> set sp. is_space x" "dims_text d" "e = [] \<or> e = [newline]"
  shows "\<exists>u. us = sp @ u \<and> open_bracket u"
proof -
  have c: "\<not> is_space c" "c \<noteq> newline" using assms(2) space_not_word newline_char by auto
  from assms(1) consider ys where "sp = us @ c # ys" | ys where "us = sp @ ys" "ys @ c # rest = d @ e"
    by (rule append_split_at)
  then show ?thesis
  proof cases
    case 1
    with assms(3) c show ?thesis by simp
  next
    case (2 ys)
    from 2(2) consider zs where "d = ys @ c # zs" | zs where "ys = d @ zs" "zs @ c # rest = e"
      by (rule append_split_at)
    then show ?thesis
    proof cases
      case (1 zs)
      from dims_word [OF assms(4) 1 assms(2)] 2(1) show ?thesis by blast
    next
      case (2 zs)
      with assms(5) c show ?thesis by (cases zs) auto
    qed
  qed
qed

text \<open>A declaration: a type that closes its brackets and ends in a separator, a name, unpacked dimensions.\<close>

definition closed_prefix :: "string \<Rightarrow> bool" where
  "closed_prefix p \<longleftrightarrow> (p = [] \<or> \<not> is_word (last p)) \<and> \<not> open_bracket p"

lemma open_bracket_append: "open_bracket u \<Longrightarrow> open_bracket (a @ u)"
  unfolding open_bracket_def by (metis append.assoc)

lemma port_name_decl:
  assumes "py_strip decl = p @ name @ sp @ d" "closed_prefix p" "name \<noteq> []" "\<forall>c \<in> set name. is_word c"
    "\<forall>c \<in> set sp. is_space c" "dims_text d"
  shows "port_name decl = Inr name"
proof -
  obtain n0 ns where n: "name = n0 # ns" "is_word n0" using assms(3,4) by (cases name) auto
  have early: "re_match_at port_re (rev a @ [], b @ name @ sp @ d) = None" if ab: "p = a @ b" "b \<noteq> []" for a b
  proof (rule ccontr)
    assume "re_match_at port_re (rev a @ [], b @ name @ sp @ d) \<noteq> None"
    then obtain y where "re_accepts port_re (rev a, b @ name @ sp @ d) y" by (auto simp: re_match_at_None)
    then obtain z where z: "re_accepts words (rev a, b @ name @ sp @ d) z" "re_accepts (seqs [spaces, many dim_re, Eol]) z y"
      unfolding seqs_port by (auto elim!: re_accepts_cases simp del: seqs.simps)
    from z(1) obtain w where w: "\<forall>c \<in> set w. is_word c" "b @ name @ sp @ d = w @ snd z"
      unfolding words_def accepts_many1_Cls by auto
    from z(2) obtain sp' d' where r: "\<forall>c \<in> set sp'. is_space c" "dims_text d'" "snd z = sp' @ d' @ snd y" "at_end y"
      unfolding accepts_port_rest by blast
    have last: "\<not> is_word (last b)" using assms(2) ab by (simp add: closed_prefix_def)
    from w(2) consider us where "w = b @ us" | us where "b = w @ us" "us @ name @ sp @ d = snd z"
      by (auto simp: append_eq_append_conv2)
    then show False
    proof cases
      case 1
      with w(1) last ab(2) show False by simp
    next
      case (2 us)
      have "us @ n0 # (ns @ sp @ d) = sp' @ d' @ snd y" using 2(2) r(3) n(1) by simp
      from port_rest_word [OF this n(2) r(1,2)] r(4) obtain u where "us = sp' @ u" "open_bracket u"
        by (auto simp: at_end_def)
      with 2(1) ab(1) have "open_bracket p" by (metis open_bracket_append)
      with assms(2) show False by (simp add: closed_prefix_def)
    qed
  qed
  have "re_search port_re (py_strip decl) = re_search_from port_re (rev p) (name @ sp @ d)"
    unfolding re_search_def assms(1) using re_search_from_skip [of p port_re "[]" "name @ sp @ d"] early by simp
  moreover have "re_accepts port_re (rev p, name @ sp @ d) (rev (name @ sp @ d) @ rev p, [])"
  proof -
    have "re_accepts (Grp 1 words) (rev p, name @ sp @ d) (rev name @ rev p, sp @ d)"
      using assms(3,4) unfolding words_def by (intro acc_grp) (auto simp: accepts_many1_Cls)
    moreover have "re_accepts (seqs [spaces, many dim_re, Eol]) (rev name @ rev p, sp @ d) (rev (name @ sp @ d) @ rev p, [])"
      unfolding accepts_port_rest using assms(5,6) by (intro exI [of _ sp] exI [of _ d]) (simp add: at_end_def)
    ultimately show ?thesis unfolding seqs_port by (rule acc_seq)
  qed
  then obtain m where m: "re_match_at port_re (rev p, name @ sp @ d) = Some m"
    using re_match_at_None [of port_re "(rev p, name @ sp @ d)"] by blast
  moreover have "re_search_from port_re (rev p) (name @ sp @ d) = Some m"
    using m by (simp add: n(1))
  moreover have "rm_group m 1 = Some name"
  proof -
    from m obtain st where st: "st \<in> set (re_step port_re ((rev p, name @ sp @ d), []))" "rm_groups m = snd st"
      by (rule rm_group_match_at)
    have "1 \<notin> re_keys (seqs [spaces, many dim_re, Eol])"
      by (simp add: spaces_def many_def many1_def dim_re_def lit_def not_in_def)
    from leading_group [OF st(1) [unfolded seqs_port] this] obtain z where z: "re_accepts words (rev p, name @ sp @ d) z"
      "re_accepts (seqs [spaces, many dim_re, Eol]) z (fst st)"
      "map_of (snd st) 1 = Some (length p, take (length (name @ sp @ d) - length (snd z)) (name @ sp @ d))"
      by (auto simp del: seqs.simps)
    from z(1) obtain w where w: "w \<noteq> []" "\<forall>c \<in> set w. is_word c" "name @ sp @ d = w @ snd z"
      unfolding words_def accepts_many1_Cls by auto
    have "w = name"
    proof -
      from w(3) consider us where "name = w @ us" "us @ sp @ d = snd z" | us where "w = name @ us" "sp @ d = us @ snd z"
        by (auto simp: append_eq_append_conv2)
      then show ?thesis
      proof cases
        case (1 us)
        show ?thesis
        proof (cases us)
          case Nil
          with 1 show ?thesis by simp
        next
          case (Cons c cs)
          then have c: "is_word c" using 1(1) assms(4) by simp
          from z(2) obtain sp' d' where r: "\<forall>c \<in> set sp'. is_space c" "dims_text d'" "snd z = sp' @ d' @ snd (fst st)" "at_end (fst st)"
            unfolding accepts_port_rest by blast
          from 1(2) Cons r(3) have "[] @ c # (cs @ sp @ d) = sp' @ d' @ snd (fst st)" by simp
          from port_rest_word [OF this c r(1,2)] r(4) show ?thesis by (auto simp: at_end_def open_bracket_def)
        qed
      next
        case (2 us)
        show ?thesis
        proof (cases us)
          case Nil
          with 2 show ?thesis by simp
        next
          case (Cons c cs)
          then have c: "is_word c" using 2(1) w(2) by simp
          from 2(2) Cons have "c \<in> set sp \<or> (\<exists>t. d = c # t)" by (cases sp) auto
          with c assms(5) dims_head [OF assms(6)] space_not_word newline_char show ?thesis by auto
        qed
      qed
    qed
    with w(3) z(3) st(2) show ?thesis by (simp add: rm_group_def)
  qed
  ultimately show ?thesis by (simp add: port_name_def)
qed

text \<open>A declaration as the headers write them, and the name it declares.\<close>

definition declares :: "string \<Rightarrow> string \<Rightarrow> bool" where
  "declares decl name \<longleftrightarrow> name \<noteq> [] \<and> (\<forall>c \<in> set name. is_word c) \<and>
     (\<exists>p sp d. py_strip decl = p @ name @ sp @ d \<and> closed_prefix p \<and> (\<forall>c \<in> set sp. is_space c) \<and> dims_text d)"

lemma port_name_declares: "declares decl name \<Longrightarrow> port_name decl = Inr name"
  unfolding declares_def by (blast intro: port_name_decl)

lemma py_map_names: "list_all2 (\<lambda>x y. f x = Inr y) xs ys \<Longrightarrow> py_map f xs = Inr ys"
  by (induction xs ys rule: list_all2_induct) simp_all

text \<open>An area wrapper connects every port its module declares, each once and to a pin of the same name, and nothing
  else: whatever the types, defaults and dimensions of the declarations are.\<close>

theorem area_wrapper_connects:
  assumes "module_header (path_stem path) (wrapper_source name source) = Inr (imp, params, ports)"
    "list_all2 declares (split_on CHR '','' (re_sub default_re (\<lambda>_. []) ports)) names"
  shows "\<exists>front. area_wrapper name path cfg source = Inr (front @
    join_with ('','' @ [newline]) (map (\<lambda>p. ''    .'' @ p @ ''('' @ p @ '')'') names) @ [newline] @ '');'' @ [newline] @
    ''endmodule'' @ [newline])"
proof -
  have "py_map port_name (split_on CHR '','' (re_sub default_re (\<lambda>_. []) ports)) = Inr names"
    using assms(2) by (intro py_map_names) (auto elim: list_all2_mono intro: port_name_declares)
  then show ?thesis by (simp add: area_wrapper_def assms(1) wrapper_text_def Let_def)
qed

section \<open>The miter of the fetch target queue\<close>

definition ftq_header_re :: re where
  "ftq_header_re = seqs [Bnd, str_re ''module ftq'', Bnd]"

text \<open>One declaration: the connection of the candidate, that of the reference, and for an output the declaration of the
  reference's wire and the comparison.\<close>

definition ftq_port :: "string \<Rightarrow> (string \<times> string \<times> (string \<times> string) option) py" where
  "ftq_port decl0 = (let decl = py_strip decl0 in case re_search port_re decl of None \<Rightarrow> Inl AttributeError | Some m \<Rightarrow>
     let name = the (rm_group m 1) in Inr (''.'' @ name @ ''('' @ name @ '')'',
       if str_prefix ''output'' decl
       then (''.'' @ name @ ''(ref_'' @ name @ '')'',
         Some (str_replace name (''ref_'' @ name) (re_sub (seqs [Bnd, str_re ''output'', spaces1]) (\<lambda>_. []) decl) @ '';'',
           ''assert ('' @ name @ '' == ref_'' @ name @ '') else $fatal(1, '' @ [CHR 34] @ ''FTQ equivalence: '' @ name @ [CHR 34] @ '');''))
       else (''.'' @ name @ ''('' @ name @ '')'', None)))"

definition ftq_wrapper :: "string \<Rightarrow> string \<Rightarrow> string \<Rightarrow> (string \<times> string \<times> (string \<times> string) option) list \<Rightarrow> string" where
  "ftq_wrapper front params ports rows = (let outs = concat (map (\<lambda>(_, _, check). case check of None \<Rightarrow> [] | Some x \<Rightarrow> [x]) rows) in
     front @ ''#('' @ params @ '') ('' @ ports @ '');'' @ [newline] @ join_with [newline] (map fst outs) @ [newline] @
     ''ftq_candidate #(.CFG(CFG)) candidate ('' @ join_with ('','' @ [newline]) (map fst rows) @ '');'' @ [newline] @
     ''ftq_reference #(.CFG(CFG)) reference ('' @ join_with ('','' @ [newline]) (map (fst \<circ> snd) rows) @ '');'' @ [newline] @
     ''wire [$clog2(CFG.ftq.depth+1)-1:0] count_q = candidate.count_q;'' @ [newline] @
     ''always @(posedge clk_i) if (!rst_i) begin'' @ [newline] @ join_with [newline] (map snd outs) @ [newline] @ ''end'' @
     [newline] @ ''endmodule'' @ [newline])"

record ftq_files =
  fq_candidate :: string
  fq_reference :: string
  fq_miter :: string
  fq_checks :: nat

definition ftq_miter :: "string \<Rightarrow> string \<Rightarrow> ftq_files py" where
  "ftq_miter candidate baseline =
     (let head = ''module ftq'' @ [newline]; src = drop_ifdef ''O3_FRONTEND_DEBUG'' (strip_comments candidate) in
     py_bind (str_index baseline head 0) (\<lambda>base.
     case re_search ftq_header_re src of None \<Rightarrow> Inl AttributeError | Some m \<Rightarrow>
     py_bind (str_index src ''#'' (rm_start m)) (\<lambda>header_end.
     py_bind (str_index src ''('' header_end) (\<lambda>p. py_bind (header_group src p) (\<lambda>(params, stop).
     py_bind (str_index src ''('' stop) (\<lambda>q. py_bind (header_group src q) (\<lambda>(ports, _).
     py_bind (py_map ftq_port (split_on CHR '','' ports)) (\<lambda>rows.
       Inr \<lparr>fq_candidate = str_replace_first head (''module ftq_candidate'' @ [newline]) candidate,
         fq_reference = str_replace_first head (''module ftq_reference'' @ [newline]) (drop base baseline),
         fq_miter = ftq_wrapper (take (header_end - rm_start m) (drop (rm_start m) src)) params ports rows,
         fq_checks = length (filter (\<lambda>(_, _, check). check \<noteq> None) rows)\<rparr>))))))))"

section \<open>The miter of a writeback arbiter\<close>

text \<open>\<open>packed_decl\<close>: the unpacked dimensions move in front, so that ports become fields of a packed structure.\<close>

definition bracket_re :: re where
  "bracket_re = seqs [lit CHR ''['', Grp 1 (many1 (not_in '']'')), lit CHR '']'']"

definition bracket_texts :: "string \<Rightarrow> string list" where
  "bracket_texts s = map (\<lambda>m. the (rm_group m 1)) (re_findall bracket_re s)"

definition datatype_re :: re where
  "datatype_re = seqs [Grp 1 (Seq words (many (Seq (str_re ''::'') words))), Grp 2 (many (Cls dot))]"

definition packed_decl :: "string \<Rightarrow> string \<Rightarrow> string \<Rightarrow> string py" where
  "packed_decl type name suffix =
     (let dims = map (\<lambda>d. if CHR '':'' \<in> set d then d else d @ ''-1:0'') (bracket_texts suffix) in
      case re_match_start datatype_re (py_strip type) of None \<Rightarrow> Inl AssertionError | Some m \<Rightarrow>
        Inr (the (rm_group m 1) @ '' '' @ concat (map (\<lambda>d. ''['' @ d @ '']'') dims) @ the (rm_group m 2) @ '' '' @ name @ '';''))"

text \<open>\<open>s.split(None, 1)\<close> of a stripped text.\<close>

definition split_word :: "string \<Rightarrow> string list" where
  "split_word s = (if s = [] then [] else let w = takeWhile (\<lambda>c. \<not> is_space c) s; r = dropWhile is_space (dropWhile (\<lambda>c. \<not> is_space c) s)
     in if r = [] then [w] else [w, r])"

text \<open>\<open>\w+\s*(?:\[[^]]+\]\s*)*\<close>, a bare name, and \<open>(.+?)\s+(\w+)\s*((?:\[[^]]+\]\s*)*)\<close>, a typed one.\<close>

definition dim1_re :: re where
  "dim1_re = seqs [lit CHR ''['', many1 (not_in '']''), lit CHR '']'', spaces]"

definition bare_re :: re where
  "bare_re = seqs [words, spaces, many dim1_re]"

definition typed_re :: re where
  "typed_re = seqs [Grp 1 (Seq (Cls dot) (Star False (Cls dot))), spaces1, Grp 2 words, spaces, Grp 3 (many dim1_re)]"

record miter_acc =
  mi_decls :: "string list"
  mi_in_fields :: "string list"
  mi_out_fields :: "string list"
  mi_conns :: "string list"
  mi_refs :: "string list"
  mi_in_assigns :: "string list"
  mi_out_assigns :: "string list"
  mi_type :: "string option"
  mi_dir :: "string option"

definition miter_empty :: miter_acc where
  "miter_empty = \<lparr>mi_decls = [], mi_in_fields = [], mi_out_fields = [], mi_conns = [], mi_refs = [], mi_in_assigns = [],
     mi_out_assigns = [], mi_type = None, mi_dir = None\<rparr>"

text \<open>Direction, type, name and dimensions of a declaration; a missing direction or type is that of the one before.\<close>

definition miter_read :: "string option \<Rightarrow> string option \<Rightarrow> string \<Rightarrow> (string \<times> string \<times> string \<times> string) py" where
  "miter_read dir prev decl0 = (let decl = py_strip decl0; token = split_word decl in
     py_bind (py_nth token 0) (\<lambda>word.
     py_bind (if word = ''input'' \<or> word = ''output'' then py_bind (if length token = 2 then Inr (token ! 1) else Inl ValueError)
           (\<lambda>rest. Inr (word, rest))
         else case dir of None \<Rightarrow> Inl AssertionError | Some d \<Rightarrow> Inr (d, decl)) (\<lambda>(d, rest).
     py_bind (if re_fullmatch bare_re (py_strip rest) \<noteq> None
         then case prev of None \<Rightarrow> Inl AssertionError | Some t \<Rightarrow> Inr (t @ '' '' @ rest) else Inr rest) (\<lambda>full.
     case re_fullmatch typed_re (py_strip full) of None \<Rightarrow> Inl AssertionError
     | Some m \<Rightarrow> Inr (d, the (rm_group m 1), the (rm_group m 2), the (rm_group m 3))))))"

text \<open>The assignment of a port from the stimulus, or to the two records that are compared.\<close>

definition in_assign :: "string \<Rightarrow> string list \<Rightarrow> string" where
  "in_assign name counts = (case counts of
     [] \<Rightarrow> ''assign '' @ name @ ''=stim_i.'' @ name @ '';''
   | n # _ \<Rightarrow> ''for (genvar n=0;n<'' @ n @ '';n++) assign '' @ name @ ''[n]=stim_i.'' @ name @ ''[n];'')"

definition out_assign :: "string \<Rightarrow> string list \<Rightarrow> string" where
  "out_assign name counts = (case counts of
     [] \<Rightarrow> ''assign observed.'' @ name @ ''='' @ name @ '';'' @ [newline] @ ''assign expected.'' @ name @ ''=ref_'' @ name @ '';''
   | n # _ \<Rightarrow> ''for (genvar n=0;n<'' @ n @ '';n++) begin'' @ [newline] @
       ''assign observed.'' @ name @ ''[n]='' @ name @ ''[n];'' @ [newline] @
       ''assign expected.'' @ name @ ''[n]=ref_'' @ name @ ''[n];'' @ [newline] @ ''end'')"

definition dim_count :: "string \<Rightarrow> string" where
  "dim_count d = (if CHR '':'' \<in> set d then hd (split_on CHR '':'' d) @ ''+1'' else d)"

definition domain_scopes :: "string list" where
  "domain_scopes = [''free_list'', ''rename_map_table'', ''preg_ready_table'']"

definition clocked_scope :: "string \<Rightarrow> bool" where
  "clocked_scope scope \<longleftrightarrow> scope \<in> {''rob'', ''load_queue''} \<or> scope \<in> set domain_scopes"

definition miter_port :: "string \<Rightarrow> miter_acc \<Rightarrow> string \<Rightarrow> miter_acc py" where
  "miter_port scope a decl = py_bind (miter_read (mi_dir a) (mi_type a) decl) (\<lambda>(dir, type, name, suffix).
     let a = a\<lparr>mi_dir := Some dir, mi_type := Some type\<rparr> in
     if clocked_scope scope \<and> name = ''clk''
     then Inr (a\<lparr>mi_conns := mi_conns a @ [''.clk(clk_i)''], mi_refs := mi_refs a @ [''.clk(clk_i)'']\<rparr>)
     else py_bind (packed_decl type name suffix) (\<lambda>fld.
       let out = (dir = ''output''); dims = bracket_texts suffix;
         a = a\<lparr>mi_decls := mi_decls a @ [type @ '' '' @ name @ '' '' @ suffix @ '';''] @
             (if out then [type @ '' ref_'' @ name @ '' '' @ suffix @ '';''] else []),
           mi_in_fields := mi_in_fields a @ (if out then [] else [fld]),
           mi_out_fields := mi_out_fields a @ (if out then [fld] else []),
           mi_conns := mi_conns a @ [''.'' @ name @ ''('' @ name @ '')''],
           mi_refs := mi_refs a @ [''.'' @ name @ ''('' @ (if out then ''ref_'' else []) @ name @ '')'']\<rparr> in
       py_bind (py_assert (length dims \<le> 1)) (\<lambda>_.
       let counts = map dim_count dims in
       Inr (a\<lparr>mi_in_assigns := mi_in_assigns a @ (if out then [] else [in_assign name counts]),
         mi_out_assigns := mi_out_assigns a @ (if out then [out_assign name counts] else [])\<rparr>))))"

fun miter_ports :: "string \<Rightarrow> miter_acc \<Rightarrow> string list \<Rightarrow> miter_acc py" where
  "miter_ports scope a [] = Inr a"
| "miter_ports scope a (d # ds) = py_bind (miter_port scope a d) (\<lambda>b. miter_ports scope b ds)"

text \<open>The parameters as declarations of a package; a name without a type has that of the one before.\<close>

definition param_re :: re where
  "param_re = seqs [Bol, Alt (str_re ''localparam'') (str_re ''parameter''), spaces1,
     Grp 1 (Seq (Cls dot) (Star False (Cls dot))), spaces1, words, spaces, lit CHR ''='']"

fun miter_params :: "string option \<Rightarrow> string list \<Rightarrow> string list py" where
  "miter_params prev [] = Inr []"
| "miter_params prev (d # ds) = (let decl = py_strip d in case re_match_start param_re decl of
     Some m \<Rightarrow> py_bind (miter_params (Some (''localparam '' @ the (rm_group m 1))) ds) (\<lambda>rest. Inr ((decl @ '';'') # rest))
   | None \<Rightarrow> (case prev of None \<Rightarrow> Inl AssertionError
     | Some t \<Rightarrow> py_bind (miter_params prev ds) (\<lambda>rest. Inr ((t @ '' '' @ decl @ '';'') # rest))))"

text \<open>The parameter list with the configuration, domain and width of the production core.\<close>

definition miter_param_text :: "string \<Rightarrow> string \<Rightarrow> string \<Rightarrow> string" where
  "miter_param_text scope bank params0 =
    (let params1 = re_sub (seqs [str_re ''parameter'', spaces1, str_re ''o3_cfg_pkg::backend_cfg_t'', spaces1, str_re ''CFG'', spaces,
           lit CHR '','']) (\<lambda>_. ''localparam o3_cfg_pkg::backend_cfg_t CFG = o3_cfg_pkg::O3_CFG.be,'') params0;
         params2 = str_replace ''parameter '' ''localparam '' params1;
         params3 = (if scope \<in> set domain_scopes
           then add_default [str_re ''localparam'', spaces1, str_re ''o3_types_pkg::reg_domain_e'', spaces1, str_re ''DOMAIN'']
             (''o3_types_pkg::RD_'' @ bank) params2
           else params2) in
     if scope = ''rob''
     then add_default [str_re ''localparam'', spaces1, str_re ''int'', spaces1, str_re ''COMPLETE_WIDTH'']
       ''CFG.exec.num_alu + 2*CFG.lsu.mem_pipes + 10'' params3
     else params3)"

definition miter_scopes :: "string list" where
  "miter_scopes = [''writeback_arbiter'', ''fp_writeback_arbiter'', ''rob'', ''load_queue'', ''free_list'', ''rename_map_table'',
     ''preg_ready_table'']"

text \<open>The first module named in the candidate, its comments of the form \<open>/* */\<close> removed.\<close>

definition miter_scope :: "string \<Rightarrow> string py" where
  "miter_scope candidate = (case re_search (seqs [Bnd, str_re ''module'', spaces1, Grp 1 words]) (re_sub block_comment_re (\<lambda>_. []) candidate) of
     None \<Rightarrow> Inl TypeError | Some m \<Rightarrow> let scope = the (rm_group m 1) in
       py_bind (py_assert (scope \<in> set miter_scopes)) (\<lambda>_. Inr scope))"

definition miter_source :: "string \<Rightarrow> string \<Rightarrow> string" where
  "miter_source scope candidate = (let src = strip_comments candidate in
     if scope = ''rob'' then drop_ifdef ''ENABLE_RETIRE_INFO'' src else src)"

text \<open>\<open>"\n".join\<close>, and lines each with its line break.\<close>

definition unlines :: "string list \<Rightarrow> string" where
  "unlines ls = concat (map (\<lambda>l. l @ [newline]) ls)"

definition miter_package :: "string \<Rightarrow> string list \<Rightarrow> miter_acc \<Rightarrow> string" where
  "miter_package scope params a = unlines [''package '' @ scope @ ''_equivalence_pkg;'', ''import o3_pkg::*;'',
     join_with [newline] params, ''typedef struct packed {'', join_with [newline] (mi_in_fields a), ''} stim_t;'',
     ''typedef struct packed {'', join_with [newline] (mi_out_fields a), ''} result_t;'', ''endpackage'']"

definition miter_overrides :: "string \<Rightarrow> string" where
  "miter_overrides scope = ''.CFG(CFG)''
     @ (if scope = ''fp_writeback_arbiter'' then '',.NUM_SRC(NUM_SRC)'' else [])
     @ (if scope = ''rob'' then '',.COMPLETE_WIDTH(COMPLETE_WIDTH)'' else [])
     @ (if scope \<in> set domain_scopes then '',.DOMAIN(DOMAIN)'' else [])"

definition quoted :: "string \<Rightarrow> string" where
  "quoted s = [CHR 34] @ s @ [CHR 34]"

definition miter_top :: "string \<Rightarrow> miter_acc \<Rightarrow> string" where
  "miter_top scope a = unlines
    ([''module wb_equivalence_tb_top import '' @ scope @ ''_equivalence_pkg::*; ('',
      ''input logic clk_i,rst_i,input stim_t stim_i,output result_t result_o,'',
      ''output stim_t fmt_valid,fmt_clear_dense,fmt_quiet,fmt_robs,fmt_kill,fmt_reset);'',
      ''import o3_pkg::*;'', join_with [newline] (mi_decls a), ''result_t observed,expected;'',
      join_with [newline] (mi_in_assigns a @ mi_out_assigns a),
      scope @ '' #('' @ miter_overrides scope @ '') candidate ('' @ join_with '','' (mi_conns a) @ '');'',
      scope @ ''_reference #('' @ miter_overrides scope @ '') reference ('' @ join_with '','' (mi_refs a) @ '');'',
      ''assign result_o=observed;'',
      ''always @(posedge clk_i) if (!rst_i) assert(observed==expected)'',
      '' else begin $display('' @ quoted ''observed=%h expected=%h stimulus=%h'' @ '',observed,expected,stim_i);''] @
     (if scope = ''free_list'' then [''$display('' @ quoted ''free=%h ref_free=%h committed=%h ref_committed=%h'' @
        '',candidate.free_bitmap_q,reference.free_bitmap_q,candidate.committed_free_q,reference.committed_free_q);''] else []) @
     ['' $fatal(1,'' @ quoted (scope @ '' all-output equivalence'') @ ''); end'',
      ''always_comb begin'',
      ''fmt_valid='0;fmt_clear_dense='0;fmt_quiet='0;fmt_robs='0;fmt_kill='0;fmt_reset='0;''])"

text \<open>The formats of the random stimulus, per module.\<close>

definition stim_writeback_arbiter :: "string list" where
  "stim_writeback_arbiter = [
     ''fmt_quiet.flush_all_i=1;fmt_quiet.resolution_valid_i=1;fmt_quiet.resolution_mispredict_i=1;'',
     ''fmt_kill.flush_all_i=1;'',
     ''for(int n=0;n<NUM_ALUS;n++) begin'',
     '' fmt_valid.alu_result_i[n].valid=1;fmt_valid.alu_result_i[n].dst_write_en=1;'',
     '' fmt_robs.alu_result_i[n].rob_idx='1;'',
     ''end'',
     ''for(int n=0;n<P;n++) begin fmt_valid.load_result_i[n].valid=1;fmt_robs.load_result_i[n].rob_idx='1;end'',
     ''fmt_valid.branch_result_i.valid=1;fmt_valid.branch_result_i.dst_write_en=1;'',
     ''fmt_clear_dense.branch_result_i.exc.valid=1;fmt_robs.branch_result_i.rob_idx='1;'',
     ''for(int n=0;n<NUM_EXTRA_SRC;n++) begin'',
     '' fmt_valid.extra_src_i[n].valid=1;fmt_valid.extra_src_i[n].tag.dst_write_en=1;'',
     '' fmt_robs.extra_src_i[n].tag.rob_idx='1;'',
     ''end'']"

definition stim_fp_writeback_arbiter :: "string list" where
  "stim_fp_writeback_arbiter = [
     ''fmt_quiet.flush_all_i=1;fmt_quiet.resolution_i.valid=1;fmt_quiet.resolution_i.mispredict=1;'',
     ''fmt_kill.flush_all_i=1;'',
     ''for(int n=0;n<NUM_SRC;n++) begin'',
     '' fmt_valid.src_i[n].valid=1;fmt_valid.src_i[n].tag.dst_dom=o3_types_pkg::RD_FP;'',
     '' fmt_clear_dense.src_i[n].tag.dst_dom=o3_types_pkg::reg_domain_e'('1);'',
     '' fmt_robs.src_i[n].tag.rob_idx='1;'',
     ''end'']"

definition stim_rob :: "string list" where
  "stim_rob = [
     ''fmt_reset.rst=1;'',
     ''fmt_quiet.rst=1;fmt_quiet.t_flush_all_i=1;fmt_quiet.resolution_valid_i=1;fmt_quiet.resolution_mispredict_i=1;'',
     ''fmt_kill.t_flush_all_i=1;fmt_valid.alloc_ready_i=1;'',
     ''for(int n=0;n<MACHINE_WIDTH;n++) fmt_valid.alloc_req_i[n]=1;'',
     ''for(int n=0;n<COMPLETE_WIDTH;n++) fmt_robs.complete_idx_i[n]='1;'',
     ''fmt_robs.t_exc_idx_i='1;fmt_robs.t_d_idx_i='1;fmt_robs.resolution_rob_idx_i='1;'']"

definition stim_load_queue :: "string list" where
  "stim_load_queue = [
     ''fmt_release='0;fmt_alloc_one='0;'',
     ''fmt_release.release_count_i=1;fmt_alloc_one.alloc_fire_i=1;fmt_alloc_one.alloc_req_i[0]=1;'',
     ''fmt_reset.rst=1;'',
     ''fmt_quiet.rst=1;fmt_quiet.flush_i=1;fmt_quiet.alloc_fire_i=1;fmt_quiet.release_count_i='1;'',
     ''fmt_quiet.resolution_valid_i=1;fmt_quiet.resolution_mispredict_i=1;'',
     ''fmt_kill.flush_i=1;fmt_valid.alloc_fire_i=1;'',
     ''fmt_robs.resolution_valid_i=1;fmt_robs.resolution_mispredict_i=1;'',
     ''for(int n=0;n<RENAME_WIDTH;n++) begin'',
     '' fmt_quiet.alloc_req_i[n]=1;fmt_valid.alloc_req_i[n]=1;'',
     '' fmt_quiet.alloc_branch_mask_i[n]='1;'',
     ''end'',
     ''for(int n=0;n<P;n++) fmt_clear_dense.capture_i[n].uop.branch_mask='1;'']"

definition stim_free_list :: "string list" where
  "stim_free_list = [
     ''fmt_reset.rst=1;fmt_quiet.rst=1;'',
     ''fmt_quiet.flush_all_i=1;fmt_quiet.resolution_valid_i=1;fmt_quiet.resolution_mispredict_i=1;'',
     ''fmt_kill.flush_all_i=1;fmt_valid.alloc_fire_i=1;'',
     ''for(int n=0;n<MACHINE_WIDTH;n++) fmt_valid.alloc_req_i[n]=1;'']"

definition stim_rename_map_table :: "string list" where
  "stim_rename_map_table = [
     ''fmt_reset.rst=1;fmt_quiet.rst=1;'',
     ''fmt_quiet.flush_all_i=1;fmt_quiet.resolution_valid_i=1;fmt_quiet.resolution_mispredict_i=1;'',
     ''fmt_kill.flush_all_i=1;fmt_valid.rename_fire_i=1;'',
     ''for(int n=0;n<MACHINE_WIDTH;n++) begin'',
     '' fmt_valid.lane_valid_i[n]=1;fmt_valid.rd_write_en_i[n]=1;'',
     '' fmt_valid.rs1_read_en_i[n]=1;fmt_valid.rs2_read_en_i[n]=1;fmt_valid.rs3_read_en_i[n]=1;'',
     '' fmt_robs.rd_addr_i[n]='1;fmt_robs.rs1_addr_i[n]='1;fmt_robs.rs2_addr_i[n]='1;fmt_robs.rs3_addr_i[n]='1;'',
     ''end'']"

definition stim_preg_ready_table :: "string list" where
  "stim_preg_ready_table = [
     ''fmt_reset.rst=1;fmt_quiet.rst=1;'',
     ''for(int n=0;n<ALLOC_WIDTH;n++) begin fmt_valid.alloc_valid_i[n]=1;fmt_robs.alloc_preg_i[n]='1;end'',
     ''for(int n=0;n<WRITE_PORTS;n++) begin fmt_valid.wr_en_i[n]=1;fmt_robs.wr_addr_i[n]='1;end'']"

definition miter_stimulus :: "string \<Rightarrow> string list" where
  "miter_stimulus scope =
    (if scope = ''writeback_arbiter'' then stim_writeback_arbiter
     else if scope = ''fp_writeback_arbiter'' then stim_fp_writeback_arbiter
     else if scope = ''rob'' then stim_rob
     else if scope = ''load_queue'' then stim_load_queue
     else if scope = ''free_list'' then stim_free_list
     else if scope = ''rename_map_table'' then stim_rename_map_table
     else stim_preg_ready_table)"

definition miter_module :: "string \<Rightarrow> miter_acc \<Rightarrow> string" where
  "miter_module scope a = (let top = miter_top scope a in
     (if scope = ''load_queue'' then str_replace ''fmt_reset);'' ''fmt_reset,fmt_release,fmt_alloc_one);'' top else top)
     @ unlines ([] # miter_stimulus scope) @ unlines [''end'', ''endmodule''])"

record miter_files =
  mf_scope :: string
  mf_reference :: string
  mf_bench :: string
  mf_outputs :: nat

definition wb_miter :: "string \<Rightarrow> string \<Rightarrow> string \<Rightarrow> miter_files py" where
  "wb_miter candidate reference bank =
     py_bind (miter_scope candidate) (\<lambda>scope. let src = miter_source scope candidate in
     case re_search (module_re scope) src of None \<Rightarrow> Inl AttributeError | Some m \<Rightarrow>
     py_bind (str_index src ''#'' (rm_end m)) (\<lambda>start.
     py_bind (str_index src ''('' start) (\<lambda>p. py_bind (header_group src p) (\<lambda>(params, stop).
     py_bind (str_index src ''('' stop) (\<lambda>q. py_bind (header_group src q) (\<lambda>(ports, _).
     py_bind (miter_ports scope miter_empty (split_on CHR '','' (re_sub default_re (\<lambda>_. []) ports))) (\<lambda>a.
     py_bind (miter_params None (split_on CHR '','' (miter_param_text scope bank params))) (\<lambda>decls.
       Inr \<lparr>mf_scope = scope,
         mf_reference = re_sub_first (Seq (module_re scope) Bnd) (\<lambda>_. ''module '' @ scope @ ''_reference'') reference,
         mf_bench = miter_package scope decls a @ miter_module scope a,
         mf_outputs = length (mi_out_fields a)\<rparr>))))))))"

section \<open>Every port is connected and every output compared\<close>

type_synonym port_row = "string \<times> string \<times> string \<times> string"

definition row_out :: "string \<Rightarrow> port_row \<Rightarrow> bool" where
  "row_out scope p \<longleftrightarrow> (case p of (dir, type, name, suffix) \<Rightarrow> dir = ''output'' \<and> \<not> (clocked_scope scope \<and> name = ''clk''))"

definition row_in :: "string \<Rightarrow> port_row \<Rightarrow> bool" where
  "row_in scope p \<longleftrightarrow> (case p of (dir, type, name, suffix) \<Rightarrow> dir \<noteq> ''output'' \<and> \<not> (clocked_scope scope \<and> name = ''clk''))"

definition row_conn :: "string \<Rightarrow> port_row \<Rightarrow> string" where
  "row_conn scope p = (case p of (dir, type, name, suffix) \<Rightarrow>
     if clocked_scope scope \<and> name = ''clk'' then ''.clk(clk_i)'' else ''.'' @ name @ ''('' @ name @ '')'')"

definition row_ref :: "string \<Rightarrow> port_row \<Rightarrow> string" where
  "row_ref scope p = (case p of (dir, type, name, suffix) \<Rightarrow>
     if clocked_scope scope \<and> name = ''clk'' then ''.clk(clk_i)''
     else ''.'' @ name @ ''('' @ (if dir = ''output'' then ''ref_'' else []) @ name @ '')'')"

definition row_counts :: "port_row \<Rightarrow> string list" where
  "row_counts p = (case p of (dir, type, name, suffix) \<Rightarrow> map dim_count (bracket_texts suffix))"

text \<open>The declarations read one after the other, each with the direction and the type of the one before as its default.\<close>

fun read_ports :: "string option \<Rightarrow> string option \<Rightarrow> string list \<Rightarrow> port_row list py" where
  "read_ports dir prev [] = Inr []"
| "read_ports dir prev (d # ds) = py_bind (miter_read dir prev d) (\<lambda>p.
     py_bind (read_ports (Some (fst p)) (Some (fst (snd p))) ds) (\<lambda>ps. Inr (p # ps)))"

text \<open>The lists the loop builds are, column by column, the declared ports.\<close>

definition miter_rows :: "string \<Rightarrow> miter_acc \<Rightarrow> port_row list \<Rightarrow> bool" where
  "miter_rows scope a ps \<longleftrightarrow> mi_conns a = map (row_conn scope) ps \<and> mi_refs a = map (row_ref scope) ps \<and>
     mi_out_assigns a = map (\<lambda>p. out_assign (fst (snd (snd p))) (row_counts p)) (filter (row_out scope) ps) \<and>
     mi_in_assigns a = map (\<lambda>p. in_assign (fst (snd (snd p))) (row_counts p)) (filter (row_in scope) ps) \<and>
     length (mi_out_fields a) = length (filter (row_out scope) ps) \<and>
     length (mi_in_fields a) = length (filter (row_in scope) ps)"

lemma miter_port_rows:
  assumes "miter_port scope a decl = Inr b" "miter_rows scope a ps"
  shows "\<exists>p. miter_read (mi_dir a) (mi_type a) decl = Inr p \<and> miter_rows scope b (ps @ [p]) \<and>
    mi_dir b = Some (fst p) \<and> mi_type b = Some (fst (snd p))"
proof -
  from assms(1) obtain dir type name suffix where r: "miter_read (mi_dir a) (mi_type a) decl = Inr (dir, type, name, suffix)"
    unfolding miter_port_def by (elim bind_InrE) (auto split: prod.splits)
  show ?thesis
  proof (cases "clocked_scope scope \<and> name = ''clk''")
    case True
    with assms r show ?thesis
      by (auto simp: miter_port_def miter_rows_def row_conn_def row_ref_def row_out_def row_in_def Let_def)
  next
    case False
    with assms(1) r obtain fld where "packed_decl type name suffix = Inr fld"
      by (auto simp: miter_port_def Let_def py_bind_Inr_iff)
    with False assms r show ?thesis
      by (auto simp: miter_port_def miter_rows_def row_conn_def row_ref_def row_out_def row_in_def row_counts_def Let_def
          py_bind_Inr_iff)
  qed
qed

lemma miter_ports_rows:
  "miter_ports scope a decls = Inr b \<Longrightarrow> miter_rows scope a ps \<Longrightarrow>
    \<exists>qs. read_ports (mi_dir a) (mi_type a) decls = Inr qs \<and> length qs = length decls \<and> miter_rows scope b (ps @ qs)"
proof (induction decls arbitrary: a ps)
  case (Cons d ds)
  from Cons.prems(1) obtain c where c: "miter_port scope a d = Inr c" "miter_ports scope c ds = Inr b"
    by (auto simp: py_bind_Inr_iff)
  from miter_port_rows [OF c(1) Cons.prems(2)] obtain p where p: "miter_read (mi_dir a) (mi_type a) d = Inr p"
    "miter_rows scope c (ps @ [p])" "mi_dir c = Some (fst p)" "mi_type c = Some (fst (snd p))" by blast
  from Cons.IH [OF c(2) p(2)] obtain qs where "read_ports (mi_dir c) (mi_type c) ds = Inr qs" "length qs = length ds"
    "miter_rows scope b (ps @ p # qs)" by auto
  with p show ?case by (intro exI [of _ "p # qs"]) simp
qed (auto intro: exI [of _ "[]"])


section \<open>Witnesses\<close>

definition demo_ports :: string where
  "demo_ports = ''input logic clk, input logic req_i [W-1:0], output logic [1:0] free_o''"

definition demo_module :: string where
  "demo_module = ''module ftq #(parameter o3_cfg_pkg::frontend_cfg_t CFG, X) ('' @ demo_ports @ '');''"

lemma demo_declares:
  "list_all2 declares (split_on CHR '','' (re_sub default_re (\<lambda>_. []) demo_ports)) [''clk'', ''req_i'', ''free_o'']"
proof -
  have parts: "split_on CHR '','' (re_sub default_re (\<lambda>_. []) demo_ports) =
      [''input logic clk'', '' input logic req_i [W-1:0]'', '' output logic [1:0] free_o'']" by code_simp
  have dims: "dims_text ''[W-1:0]''" using dims_cons [of "''W-1:0''" "[]" "[]"] by (simp add: dims_nil)
  have decl: "declares decl name" if "name \<noteq> [] \<and> list_all is_word name \<and> py_strip decl = p @ name @ sp @ d \<and>
      closed_prefix p \<and> list_all is_space sp" "dims_text d" for decl name p sp d
    using that unfolding declares_def list_all_iff by blast
  have "declares ''input logic clk'' ''clk''" by (rule decl [where p = "''input logic ''" and sp = "[]" and d = "[]"], code_simp, rule dims_nil)
  moreover have "declares '' input logic req_i [W-1:0]'' ''req_i''"
    by (rule decl [where p = "''input logic ''" and sp = "'' ''" and d = "''[W-1:0]''"], code_simp, rule dims)
  moreover have "declares '' output logic [1:0] free_o'' ''free_o''"
    by (rule decl [where p = "''output logic [1:0] ''" and sp = "[]" and d = "[]"], code_simp, rule dims_nil)
  ultimately show ?thesis by (simp add: parts)
qed

theorem area_wrapper_connects_witness:
  "\<exists>front. area_wrapper ''ftq'' ''rtl/frontend/ftq.sv'' ''fe'' demo_module = Inr (front @
     ''    .clk(clk),'' @ [newline] @ ''    .req_i(req_i),'' @ [newline] @ ''    .free_o(free_o)'' @ [newline] @ '');'' @
     [newline] @ ''endmodule'' @ [newline])"
proof -
  have "module_header (path_stem ''rtl/frontend/ftq.sv'') (wrapper_source ''ftq'' demo_module) =
      Inr ('' '', ''parameter o3_cfg_pkg::frontend_cfg_t CFG, X'', demo_ports)" by code_simp
  from area_wrapper_connects [OF this demo_declares, of "''fe''"] show ?thesis by simp
qed


end
