(* ===== verification/Batch_Runs.thy ===== *)
theory Batch_Runs
  imports Py_Regex Spike_Batch
begin

text \<open>
  The scripts that run batches of tools and turn their results into an exit code: the architecture tests
  (\<open>verification/act4/scripts/run_one.py\<close> and \<open>run_suite.py\<close>), the machine-mode tests
  (\<open>verification/riscv-tests/run_l5.py\<close>), the module tests and synthesis runs of \<open>perf/resource\<close>
  (\<open>run_functional.py\<close>, \<open>run_modules.py\<close>, \<open>run_area_pipeline.py\<close>) and what \<open>sim/o3/run_spike.py\<close> reads from
  the simulator's log. A program that is started is a parameter: its exit code and its output.
\<close>

section \<open>Numbers as text\<close>

definition digit_char :: "nat \<Rightarrow> char" where
  "digit_char d = (char_of (48 + d) :: char)"

text \<open>\<open>str(n)\<close> of a number that is not negative.\<close>

fun dec_text :: "nat \<Rightarrow> string" where
  "dec_text n = (if n < 10 then [digit_char n] else dec_text (n div 10) @ [digit_char (n mod 10)])"

declare dec_text.simps [simp del]

definition py_str :: "int \<Rightarrow> string" where
  "py_str i = (if i < 0 then CHR ''-'' # dec_text (nat (- i)) else dec_text (nat i))"

lemma digit_value_char: "d < 10 \<Longrightarrow> digit_value (digit_char d) = Some (int d)"
proof -
  assume "d < 10"
  then have "d = 0 \<or> d = 1 \<or> d = 2 \<or> d = 3 \<or> d = 4 \<or> d = 5 \<or> d = 6 \<or> d = 7 \<or> d = 8 \<or> d = 9" by presburger
  then show ?thesis by (elim disjE) (simp_all only:, code_simp+)
qed

lemma digits_from_append: "digits_from n (a @ b) = py_bind (digits_from n a) (\<lambda>m. digits_from m b)"
  by (induction a arbitrary: n) (auto split: option.split)

lemma digits_from_dec: "digits_from 0 (dec_text n) = Inr (int n)"
proof (induction n rule: dec_text.induct)
  case (1 n)
  show ?case
  proof (cases "n < 10")
    case True
    then show ?thesis by (subst dec_text.simps) (simp add: digit_value_char)
  next
    case False
    have "10 * int (n div 10) + int (n mod 10) = int n"
      by (metis mult_div_mod_eq of_nat_add of_nat_mult of_nat_numeral)
    with False 1 show ?thesis by (subst dec_text.simps) (simp add: digits_from_append digit_value_char)
  qed
qed

text \<open>Reading a printed number gives it back.\<close>

lemma py_int_str: "0 \<le> i \<Longrightarrow> py_int (py_str i) = Inr i"
proof -
  assume "0 \<le> i"
  moreover have "dec_text n \<noteq> []" for n by (subst dec_text.simps) simp
  ultimately show ?thesis by (simp add: py_int_def py_str_def digits_from_dec)
qed

lemma digits_only: "c \<in> set (dec_text n) \<Longrightarrow> digit_value c \<noteq> None"
proof (induction n rule: dec_text.induct)
  case (1 n)
  then show ?case by (cases "n < 10") (auto simp: dec_text.simps [of n] digit_value_char)
qed

section \<open>One architecture test\<close>

datatype run_status = S_pass | S_fail | S_infra

record one_record =
  or_test :: string
  or_code :: int
  or_status :: run_status

definition tohost_line :: string where
  "tohost_line = ''[o3-tohost] value=0x1 status=PASS''"

definition one_command :: "string \<Rightarrow> string \<Rightarrow> string \<Rightarrow> int \<Rightarrow> string list" where
  "one_command sim elf trace max_cycles = [sim, ''--spike'', ''--image'', elf, ''--trace'', trace, ''--max-cycles'', py_str max_cycles,
     ''--max-retires'', py_str (2 ^ 60), ''--tohost-address'', ''0x801ff000'']"

text \<open>\<open>exec\<close> runs a command; running out of its 300 seconds raises, which the result \<open>Inl\<close> stands for.\<close>

definition run_one :: "(string list \<Rightarrow> (int \<times> string) py) \<Rightarrow> string \<Rightarrow> string \<Rightarrow> string \<Rightarrow> int \<Rightarrow> (one_record \<times> int) py" where
  "run_one exec sim out elf max_cycles =
     py_bind (if max_cycles \<le> 0 then Inl ValueError else Inr ()) (\<lambda>_.
     let name = last (split_on CHR ''/'' elf); trace = out @ ''/'' @ file_stem name @ ''.jsonl'' in
     py_bind (exec (one_command sim elf trace max_cycles)) (\<lambda>(code, printed).
     let passed = (code = 0 \<and> str_in tohost_line printed) in
       Inr (\<lparr>or_test = name, or_code = code, or_status = if passed then S_pass else S_fail\<rparr>, if passed then 0 else 1)))"

section \<open>The suite\<close>

record suite_summary =
  su_selected :: nat
  su_records :: "one_record list"
  su_pass :: nat
  su_fail :: nat
  su_infra :: nat

text \<open>What the child process of one test leaves: its exit code and the record on the last line of its output, \<open>None\<close>
  when there is no such line or it is not a record.\<close>

definition suite_record :: "(string \<Rightarrow> int \<times> one_record option) \<Rightarrow> string \<Rightarrow> one_record" where
  "suite_record child elf = (case child elf of (code, Some r) \<Rightarrow> r
     | (code, None) \<Rightarrow> \<lparr>or_test = last (split_on CHR ''/'' elf), or_code = code, or_status = S_infra\<rparr>)"

fun suite_loop :: "bool \<Rightarrow> (string \<Rightarrow> int \<times> one_record option) \<Rightarrow> string list \<Rightarrow> one_record list \<Rightarrow> one_record list" where
  "suite_loop keep_going child [] acc = acc"
| "suite_loop keep_going child (elf # elfs) acc = (let r = suite_record child elf; acc = acc @ [r] in
     if or_status r \<noteq> S_pass \<and> \<not> keep_going then acc else suite_loop keep_going child elfs acc)"

definition suite_count :: "run_status \<Rightarrow> one_record list \<Rightarrow> nat" where
  "suite_count status rs = length (filter (\<lambda>r. or_status r = status) rs)"

definition run_suite :: "bool \<Rightarrow> (string \<Rightarrow> int \<times> one_record option) \<Rightarrow> string list \<Rightarrow> (suite_summary \<times> int) py" where
  "run_suite keep_going child elfs =
     py_bind (if elfs = [] then Inl ValueError else Inr ()) (\<lambda>_.
     let rs = suite_loop keep_going child elfs [];
       s = \<lparr>su_selected = length elfs, su_records = rs, su_pass = suite_count S_pass rs, su_fail = suite_count S_fail rs,
         su_infra = suite_count S_infra rs\<rparr> in
     Inr (s, if length rs = length elfs \<and> su_fail s = 0 \<and> su_infra s = 0 then 0 else 1))"

text \<open>The child of the suite is \<open>run_one\<close>: an exception leaves a traceback and no record.\<close>

definition suite_child :: "(string list \<Rightarrow> (int \<times> string) py) \<Rightarrow> string \<Rightarrow> string \<Rightarrow> int \<Rightarrow> string \<Rightarrow> int \<times> one_record option" where
  "suite_child exec sim out max_cycles elf = (case run_one exec sim out elf max_cycles of
     Inl e \<Rightarrow> (1, None) | Inr (r, code) \<Rightarrow> (code, Some r))"

definition elf_passes :: "(string list \<Rightarrow> (int \<times> string) py) \<Rightarrow> string \<Rightarrow> string \<Rightarrow> int \<Rightarrow> string \<Rightarrow> bool" where
  "elf_passes exec sim out max_cycles elf \<longleftrightarrow> 0 < max_cycles \<and>
     (\<exists>before after. exec (one_command sim elf (out @ ''/'' @ file_stem (last (split_on CHR ''/'' elf)) @ ''.jsonl'') max_cycles) =
        Inr (0, before @ tohost_line @ after))"

lemma suite_record_pass: "or_status (suite_record (suite_child exec sim out n) elf) = S_pass \<longleftrightarrow> elf_passes exec sim out n elf"
proof (cases "n \<le> 0")
  case False
  let ?c = "one_command sim elf (out @ ''/'' @ file_stem (last (split_on CHR ''/'' elf)) @ ''.jsonl'') n"
  show ?thesis
  proof (cases "exec ?c")
    case (Inr p)
    obtain code printed where "p = (code, printed)" by (cases p)
    with Inr False show ?thesis
      by (auto simp: suite_record_def suite_child_def run_one_def elf_passes_def Let_def str_in_iff)
  qed (use False in \<open>simp add: suite_record_def suite_child_def run_one_def elf_passes_def Let_def\<close>)
qed (simp add: suite_record_def suite_child_def run_one_def elf_passes_def)

lemma suite_loop_shape:
  "\<exists>k. suite_loop keep child elfs acc = acc @ map (suite_record child) (take k elfs) \<and> k \<le> length elfs \<and>
     (k < length elfs \<longrightarrow> \<not> keep \<and> 0 < k \<and> or_status (suite_record child (elfs ! (k - 1))) \<noteq> S_pass) \<and>
     (\<not> keep \<longrightarrow> (\<forall>i. i + 1 < k \<longrightarrow> or_status (suite_record child (elfs ! i)) = S_pass))"
proof (induction elfs arbitrary: acc)
  case (Cons e es)
  show ?case
  proof (cases "or_status (suite_record child e) \<noteq> S_pass \<and> \<not> keep")
    case True
    then show ?thesis by (intro exI [of _ 1]) (auto simp: Let_def)
  next
    case False
    from Cons.IH [of "acc @ [suite_record child e]"] obtain k where k:
      "suite_loop keep child es (acc @ [suite_record child e]) = (acc @ [suite_record child e]) @ map (suite_record child) (take k es)"
      "k \<le> length es" "k < length es \<longrightarrow> \<not> keep \<and> 0 < k \<and> or_status (suite_record child (es ! (k - 1))) \<noteq> S_pass"
      "\<not> keep \<longrightarrow> (\<forall>i. i + 1 < k \<longrightarrow> or_status (suite_record child (es ! i)) = S_pass)" by blast
    have "\<forall>i. i + 1 < Suc k \<longrightarrow> or_status (suite_record child ((e # es) ! i)) = S_pass" if "\<not> keep"
    proof (intro allI impI)
      fix i assume "i + 1 < Suc k"
      with k(4) that False show "or_status (suite_record child ((e # es) ! i)) = S_pass" by (cases i) auto
    qed
    with k False show ?thesis by (intro exI [of _ "Suc k"]) (auto simp: Let_def nth_Cons split: nat.splits)
  qed
qed simp

text \<open>The suite exits with 0 exactly when every selected test passes: its simulator run ends with code 0 and its output
  has the line that the program wrote 1 to the mailbox. Without \<open>--keep-going\<close> it stops at the first test that does
  not pass; with it every test runs and the three counts add up to the selection.\<close>

theorem suite_exit_zero:
  assumes "elfs \<noteq> []"
  shows "\<exists>s code. run_suite keep (suite_child exec sim out n) elfs = Inr (s, code) \<and>
    (code = 0 \<longleftrightarrow> (\<forall>elf \<in> set elfs. elf_passes exec sim out n elf)) \<and>
    su_pass s + su_fail s + su_infra s = length (su_records s) \<and>
    (keep \<longrightarrow> length (su_records s) = length elfs) \<and>
    (\<not> keep \<longrightarrow> su_fail s + su_infra s \<le> 1)"
proof -
  let ?c = "suite_child exec sim out n"
  define rs where "rs = suite_loop keep ?c elfs []"
  from suite_loop_shape [of keep ?c elfs "[]"] obtain k where k: "rs = map (suite_record ?c) (take k elfs)" "k \<le> length elfs"
    "k < length elfs \<longrightarrow> \<not> keep \<and> 0 < k \<and> or_status (suite_record ?c (elfs ! (k - 1))) \<noteq> S_pass"
    "\<not> keep \<longrightarrow> (\<forall>i. i + 1 < k \<longrightarrow> or_status (suite_record ?c (elfs ! i)) = S_pass)" by (auto simp: rs_def)
  have sum: "suite_count S_pass rs + suite_count S_fail rs + suite_count S_infra rs = length rs" for rs
  proof (induction rs)
    case (Cons r rs)
    then show ?case by (cases "or_status r") (auto simp: suite_count_def)
  qed (simp add: suite_count_def)
  have none: "suite_count S_fail rs = 0 \<and> suite_count S_infra rs = 0 \<longleftrightarrow> (\<forall>r \<in> set rs. or_status r = S_pass)" for rs
    unfolding suite_count_def by (auto simp: filter_empty_conv) (metis run_status.exhaust)
  have all: "length rs = length elfs \<and> (\<forall>r \<in> set rs. or_status r = S_pass) \<longleftrightarrow> (\<forall>elf \<in> set elfs. elf_passes exec sim out n elf)"
  proof
    assume "\<forall>elf \<in> set elfs. elf_passes exec sim out n elf"
    then have p: "\<And>elf. elf \<in> set elfs \<Longrightarrow> or_status (suite_record ?c elf) = S_pass" by (simp add: suite_record_pass)
    have "\<not> k < length elfs"
    proof
      assume "k < length elfs"
      with k(3) p [of "elfs ! (k - 1)"] show False by simp
    qed
    with k(1,2) p show "length rs = length elfs \<and> (\<forall>r \<in> set rs. or_status r = S_pass)" by auto
  next
    assume "length rs = length elfs \<and> (\<forall>r \<in> set rs. or_status r = S_pass)"
    with k(1,2) show "\<forall>elf \<in> set elfs. elf_passes exec sim out n elf" by (auto simp flip: suite_record_pass)
  qed
  have stop: "suite_count S_fail rs + suite_count S_infra rs \<le> 1" if "\<not> keep"
  proof (cases k)
    case (Suc j)
    have "take k elfs = take j elfs @ [elfs ! j]" using Suc k(2) by (simp add: take_Suc_conv_app_nth)
    moreover have "\<forall>r \<in> set (map (suite_record ?c) (take j elfs)). or_status r = S_pass"
      using k(4) that Suc by (auto simp: in_set_conv_nth)
    then have "suite_count S_fail (map (suite_record ?c) (take j elfs)) = 0"
      "suite_count S_infra (map (suite_record ?c) (take j elfs)) = 0" using none by blast+
    ultimately show ?thesis by (simp add: k(1)) (simp add: suite_count_def)
  qed (simp add: k(1) suite_count_def)
  have "keep \<longrightarrow> length rs = length elfs" using k by (cases "k < length elfs") auto
  then show ?thesis
    using assms all none [of rs] sum [of rs] stop by (simp add: run_suite_def rs_def [symmetric] Let_def)
qed

section \<open>The machine-mode tests\<close>

definition l5_names :: "string list" where
  "l5_names = [''csr'', ''mcsr'', ''illegal'', ''sbreak'', ''scall'']"

text \<open>A test is run only when it could be built; a test that was not run counts as failed.\<close>

definition l5_result :: "(string \<Rightarrow> int) \<Rightarrow> (string \<Rightarrow> int) \<Rightarrow> string \<Rightarrow> string \<times> int \<times> int option" where
  "l5_result build exec name = (name, build name, if build name = 0 then Some (exec name) else None)"

definition run_l5 :: "(string \<Rightarrow> int) \<Rightarrow> (string \<Rightarrow> int) \<Rightarrow> (string \<times> int \<times> int option) list \<times> int" where
  "run_l5 build exec = (let results = map (l5_result build exec) l5_names in
     (results, of_bool (list_ex (\<lambda>(_, _, code). (case code of None \<Rightarrow> 1 | Some c \<Rightarrow> c) \<noteq> 0) results)))"

theorem run_l5_exit: "snd (run_l5 build exec) = 0 \<longleftrightarrow> (\<forall>name \<in> set l5_names. build name = 0 \<and> exec name = 0)"
  by (auto simp: run_l5_def l5_result_def Let_def list_ex_iff)

section \<open>Sequences of runs that stop at the first failure\<close>

fun seq_runs :: "('job \<Rightarrow> string list py) \<Rightarrow> (string list \<Rightarrow> int) \<Rightarrow> 'job list \<Rightarrow> ('job \<times> int) list \<Rightarrow> (('job \<times> int) list \<times> int) py" where
  "seq_runs command exec [] acc = Inr (acc, 0)"
| "seq_runs command exec (job # jobs) acc = py_bind (command job) (\<lambda>cmd. let code = exec cmd; acc = acc @ [(job, code)] in
     if code \<noteq> 0 then Inr (acc, code) else seq_runs command exec jobs acc)"

lemma seq_runs_exit:
  "seq_runs command exec jobs acc = Inr (results, code) \<Longrightarrow>
    \<exists>k. map fst results = map fst acc @ take k jobs \<and> k \<le> length jobs \<and> (code = 0 \<longrightarrow> k = length jobs) \<and>
      (code \<noteq> 0 \<longrightarrow> 0 < k \<and> (\<exists>cmd. command (jobs ! (k - 1)) = Inr cmd \<and> exec cmd = code)) \<and>
      (\<forall>i. i < (if code = 0 then k else k - 1) \<longrightarrow> (\<exists>cmd. command (jobs ! i) = Inr cmd \<and> exec cmd = 0))"
proof (induction jobs arbitrary: acc)
  case (Cons job jobs)
  from Cons.prems obtain cmd where cmd: "command job = Inr cmd"
    and r: "(if exec cmd \<noteq> 0 then Inr (acc @ [(job, exec cmd)], exec cmd) else seq_runs command exec jobs (acc @ [(job, exec cmd)]))
      = Inr (results, code)" by (auto simp: py_bind_Inr_iff Let_def)
  show ?case
  proof (cases "exec cmd = 0")
    case False
    with r cmd show ?thesis by (intro exI [of _ 1]) auto
  next
    case True
    with r have "seq_runs command exec jobs (acc @ [(job, exec cmd)]) = Inr (results, code)" by simp
    from Cons.IH [OF this] obtain k where k: "map fst results = map fst (acc @ [(job, exec cmd)]) @ take k jobs" "k \<le> length jobs"
      "code = 0 \<longrightarrow> k = length jobs" "code \<noteq> 0 \<longrightarrow> 0 < k \<and> (\<exists>cmd. command (jobs ! (k - 1)) = Inr cmd \<and> exec cmd = code)"
      "\<forall>i. i < (if code = 0 then k else k - 1) \<longrightarrow> (\<exists>cmd. command (jobs ! i) = Inr cmd \<and> exec cmd = 0)" by blast
    have "\<exists>cmd. command ((job # jobs) ! i) = Inr cmd \<and> exec cmd = 0" if "i < (if code = 0 then Suc k else Suc k - 1)" for i
    proof (cases i)
      case 0
      with cmd True show ?thesis by simp
    next
      case (Suc j)
      with that k(4) have "j < (if code = 0 then k else k - 1)" by (auto split: if_splits)
      with k(5) Suc show ?thesis by simp
    qed
    moreover have "\<exists>cmd. command ((job # jobs) ! (Suc k - 1)) = Inr cmd \<and> exec cmd = code" if "code \<noteq> 0"
      using k(4) that by (cases k) auto
    moreover have "map fst results = map fst acc @ take (Suc k) (job # jobs)" using k(1) by simp
    moreover have "code = 0 \<longrightarrow> Suc k = length (job # jobs)" "Suc k \<le> length (job # jobs)" using k(2,3) by simp_all
    ultimately show ?thesis by blast
  qed
qed simp

section \<open>Module tests\<close>

definition str_before :: "string \<Rightarrow> string \<Rightarrow> string" where
  "str_before sep s = (case str_find sep s of None \<Rightarrow> s | Some k \<Rightarrow> take k s)"

text \<open>\<open>(?:\$\(REPO_ROOT\)|\$\(CURDIR\))[^\s\\]+\.sv\<close>\<close>

definition source_re :: re where
  "source_re = seqs [alts [''$(REPO_ROOT)'', ''$(CURDIR)''], many1 (Cls (\<lambda>c. \<not> is_space c \<and> c \<noteq> CHR 92)), str_re ''.sv'']"

text \<open>The source list of a makefile with the queue replaced by the miter.\<close>

definition ftq_sources :: "string \<Rightarrow> string \<Rightarrow> string \<Rightarrow> string \<Rightarrow> string list py" where
  "ftq_sources root out testdir makefile =
     py_bind (str_index makefile ''VERILOG_SOURCES :='' 0) (\<lambda>start.
     let part = str_before ''EXTRA_ARGS +='' (str_before ''SIM_BUILD :='' (drop start makefile));
       sources = map (\<lambda>m. str_replace ''$(CURDIR)'' testdir (str_replace ''$(REPO_ROOT)'' root (rm_text m))) (re_findall source_re part) in
     case first_idx (\<lambda>x. x = root @ ''/rtl/frontend/ftq.sv'') sources of None \<Rightarrow> Inl ValueError
     | Some i \<Rightarrow> Inr (take i sources @ map (\<lambda>f. out @ ''/ftq-miter/'' @ f) [''candidate.sv'', ''reference.sv'', ''miter.sv'']
         @ drop (i + 1) sources))"

definition bpu_tests :: "string list" where
  "bpu_tests = [''COCOTB_TOPLEVEL=ftq_training_tb_top'', ''COCOTB_TEST_MODULES=test_ftq'']"

text \<open>Directory and extra arguments of a module's test run.\<close>

definition functional_place :: "string \<Rightarrow> string \<Rightarrow> (string \<Rightarrow> string py) \<Rightarrow> string \<Rightarrow> (string \<times> string list) py" where
  "functional_place root out read module = (let tests = root @ ''/sim/cocotb/'' in
     if module = ''fetch_buffer_payload'' then Inr (tests @ ''fetch_buffer'', [''-f'', ''Makefile.payload''])
     else if module = ''ftq_metadata'' then Inr (tests @ ''bpu'', bpu_tests)
     else if str_prefix ''issue_queue_equivalence'' module
     then py_bind (py_int [last module]) (\<lambda>kind. Inr (tests @ ''issue_queue_equivalence'',
       [''-f'', ''Makefile.equivalence'', ''KIND='' @ py_str kind, ''REFERENCE_SOURCE='' @ out @ ''/backend_issue_queue_reference.sv'']))
     else if module \<in> {''ftq_equivalence'', ''ftq_metadata_equivalence'', ''ftq_payload_equivalence''}
     then (let folder = (if module = ''ftq_metadata_equivalence'' then ''bpu'' else ''ftq''); testdir = tests @ folder;
         makefile = (if module = ''ftq_payload_equivalence'' then ''Makefile.payload'' else ''Makefile'') in
       py_bind (read (testdir @ ''/'' @ makefile)) (\<lambda>src. py_bind (ftq_sources root out testdir src) (\<lambda>sources.
         Inr (testdir, (if makefile = ''Makefile.payload'' then [''-f'', makefile] else []) @
           [''VERILOG_SOURCES='' @ join_with '' '' sources] @ (if folder = ''bpu'' then bpu_tests else [])))))
     else Inr (tests @ module, []))"

definition functional_label :: "string \<times> nat \<Rightarrow> string" where
  "functional_label job = fst job @ ''-'' @ dec_text (snd job)"

definition functional_command :: "string \<Rightarrow> string \<Rightarrow> (string \<Rightarrow> string py) \<Rightarrow> string \<times> nat \<Rightarrow> string list py" where
  "functional_command root out read job = (case job of (module, seed) \<Rightarrow>
     py_bind (functional_place root out read module) (\<lambda>(dir, extra). Inr (
       [''make'', ''-C'', dir, ''sim'', ''TEST_SEED='' @ dec_text seed,
        ''COCOTB_RESULTS_FILE='' @ out @ ''/'' @ functional_label job @ ''.xml'', ''SIM_BUILD='' @ out @ ''/build-'' @ module] @ extra @
       (if module = ''uop_queue'' then [''COCOTB_TEST_MODULES=test_uop_queue,test_payload'']
        else if module = ''rename_dispatch_queue'' then [''COCOTB_TEST_MODULES=test_rename_dispatch_queue,test_payload'']
        else if module = ''store_queue'' then [''COCOTB_TEST_MODULES=test_store_queue,test_l8b_store_queue,test_byte_oracle'']
        else []))))"

definition functional_jobs :: "string list \<Rightarrow> (string \<times> nat) list" where
  "functional_jobs modules = concat (map (\<lambda>module. map (Pair module) [1, 7, 29]) modules)"

definition run_functional :: "string \<Rightarrow> string \<Rightarrow> (string \<Rightarrow> string py) \<Rightarrow> (string list \<Rightarrow> int) \<Rightarrow> string list \<Rightarrow>
    (((string \<times> nat) \<times> int) list \<times> int) py" where
  "run_functional root out read exec modules =
     seq_runs (functional_command root out read) exec (functional_jobs modules) []"

text \<open>A run of the module tests that exits with 0 has run every module under each of the three seeds, in order, and
  every one of them succeeded; an exit code that is not 0 is that of the last run recorded, the ones before succeeded.\<close>

theorem functional_exit:
  assumes "run_functional root out read exec modules = Inr (results, code)"
  shows "(code = 0 \<longrightarrow> map fst results = functional_jobs modules \<and>
      (\<forall>module \<in> set modules. \<forall>seed \<in> {1, 7, 29}. \<exists>cmd. functional_command root out read (module, seed) = Inr cmd \<and> exec cmd = 0)) \<and>
    (code \<noteq> 0 \<longrightarrow> (\<exists>k. 0 < k \<and> map fst results = take k (functional_jobs modules) \<and>
      (\<exists>cmd. functional_command root out read (functional_jobs modules ! (k - 1)) = Inr cmd \<and> exec cmd = code)))"
proof -
  let ?jobs = "functional_jobs modules" and ?cmd = "functional_command root out read"
  from seq_runs_exit [OF assms [unfolded run_functional_def]] obtain k where k: "map fst results = take k ?jobs"
    "code = 0 \<longrightarrow> k = length ?jobs" "code \<noteq> 0 \<longrightarrow> 0 < k \<and> (\<exists>cmd. ?cmd (?jobs ! (k - 1)) = Inr cmd \<and> exec cmd = code)"
    "\<forall>i. i < (if code = 0 then k else k - 1) \<longrightarrow> (\<exists>cmd. ?cmd (?jobs ! i) = Inr cmd \<and> exec cmd = 0)"
    unfolding append_Nil list.map by blast
  have "\<exists>cmd. ?cmd (module, seed) = Inr cmd \<and> exec cmd = 0" if "code = 0" "module \<in> set modules" "seed \<in> {1, 7, 29}" for module seed
  proof -
    have "(module, seed) \<in> set ?jobs" using that by (auto simp: functional_jobs_def)
    then obtain i where "i < length ?jobs" "?jobs ! i = (module, seed)" by (auto simp: in_set_conv_nth)
    moreover from k(2) that(1) have "k = length ?jobs" by blast
    ultimately show ?thesis using k(4) [rule_format, of i] that(1) by simp
  qed
  moreover have "map fst results = ?jobs" if "code = 0" using k(1,2) that by simp
  moreover have "\<exists>k. 0 < k \<and> map fst results = take k ?jobs \<and> (\<exists>cmd. ?cmd (?jobs ! (k - 1)) = Inr cmd \<and> exec cmd = code)"
    if "code \<noteq> 0" using k(1,3) that by (intro exI [of _ k]) blast
  ultimately show ?thesis by blast
qed

section \<open>Synthesis of the modules\<close>

definition module_command :: "string \<Rightarrow> string \<Rightarrow> string list" where
  "module_command out scope = [''vivado'', ''-mode'', ''batch'', ''-source'', ''perf/resource/module_area.tcl'', ''-tclargs'',
     out @ ''/'' @ scope, scope]"

definition run_modules :: "string \<Rightarrow> (string list \<Rightarrow> int) \<Rightarrow> string list \<Rightarrow> ((string \<times> int) list \<times> int) py" where
  "run_modules out exec scopes = seq_runs (\<lambda>scope. Inr (module_command out scope)) exec scopes []"

section \<open>The synthesis pipeline\<close>

text \<open>What one look at the machine shows: the exit codes of the jobs that have written their result, and the free memory
  in KiB.\<close>

record snapshot =
  sn_exit :: "string \<Rightarrow> int option"
  sn_free :: nat

definition deps_missing :: "snapshot \<Rightarrow> string list \<Rightarrow> bool" where
  "deps_missing s deps \<longleftrightarrow> (\<exists>d \<in> set deps. sn_exit s d = None)"

definition dep_failure :: "snapshot \<Rightarrow> string list \<Rightarrow> (string \<times> int) option" where
  "dep_failure s deps = map_option (\<lambda>d. (d, the (sn_exit s d))) (find (\<lambda>d. sn_exit s d \<noteq> None \<and> sn_exit s d \<noteq> Some 0) deps)"

definition enough_memory :: "nat \<Rightarrow> snapshot \<Rightarrow> bool" where
  "enough_memory gib s \<longleftrightarrow> sn_free s \<ge> gib * 1024 * 1024"

text \<open>The waiting loop: it looks again every ten seconds, for as long as it takes. \<open>Some (Inl d)\<close> says that dependency
  \<open>d\<close> has failed, \<open>Some (Inr n)\<close> that work can start at the look numbered \<open>n\<close>.\<close>

partial_function (option) await :: "(nat \<Rightarrow> snapshot) \<Rightarrow> string list \<Rightarrow> nat \<Rightarrow> nat \<Rightarrow> ((string \<times> int) + nat) option" where
  "await look deps gib n = (if deps_missing (look n) deps then await look deps gib (n + 1)
     else case dep_failure (look n) deps of Some d \<Rightarrow> Some (Inl d)
       | None \<Rightarrow> if enough_memory gib (look n) then Some (Inr n) else await look deps gib (n + 1))"

datatype pipeline_state = Dependency_failed | Complete | Failed

record pipeline_end =
  pe_state :: pipeline_state
  pe_exit :: int
  pe_modules :: bool
  pe_soc :: bool

text \<open>Modules, then the whole SoC; what has run is recorded. \<open>modules\<close> and \<open>soc\<close> are the exit codes of the two scripts.\<close>

definition area_pipeline :: "(nat \<Rightarrow> snapshot) \<Rightarrow> string list \<Rightarrow> (nat \<Rightarrow> snapshot) \<Rightarrow> string list \<Rightarrow> nat \<Rightarrow> int \<Rightarrow> int \<Rightarrow> pipeline_end option" where
  "area_pipeline look1 deps look2 soc_deps gib modules soc =
     Option.bind (await look1 deps gib 0) (\<lambda>start. case start of
       Inl (_, code) \<Rightarrow> Some \<lparr>pe_state = Dependency_failed, pe_exit = code, pe_modules = False, pe_soc = False\<rparr>
     | Inr _ \<Rightarrow> if modules \<noteq> 0 then Some \<lparr>pe_state = Failed, pe_exit = modules, pe_modules = True, pe_soc = False\<rparr>
       else Option.bind (await look2 soc_deps gib 0) (\<lambda>second. case second of
         Inl (_, code) \<Rightarrow> Some \<lparr>pe_state = Failed, pe_exit = code, pe_modules = True, pe_soc = False\<rparr>
       | Inr _ \<Rightarrow> Some \<lparr>pe_state = (if soc = 0 then Complete else Failed), pe_exit = soc, pe_modules = True, pe_soc = True\<rparr>))"

definition may_start :: "snapshot \<Rightarrow> string list \<Rightarrow> nat \<Rightarrow> bool" where
  "may_start s deps gib \<longleftrightarrow> (\<forall>d \<in> set deps. sn_exit s d = Some 0) \<and> enough_memory gib s"

lemma dep_failure_cases:
  assumes "\<not> deps_missing s deps"
  shows "(dep_failure s deps = None \<longleftrightarrow> (\<forall>d \<in> set deps. sn_exit s d = Some 0)) \<and>
    (dep_failure s deps = Some (d, code) \<longrightarrow> d \<in> set deps \<and> sn_exit s d = Some code \<and> code \<noteq> 0)"
proof -
  have "\<exists>v. sn_exit s d = Some v" if "d \<in> set deps" for d using assms that by (auto simp: deps_missing_def)
  moreover have "dep_failure s deps = None \<longleftrightarrow> (\<forall>d \<in> set deps. sn_exit s d = None \<or> sn_exit s d = Some 0)"
    by (auto simp: dep_failure_def find_None_iff)
  ultimately have "dep_failure s deps = None \<longleftrightarrow> (\<forall>d \<in> set deps. sn_exit s d = Some 0)" by (metis option.distinct(1))
  moreover have "d \<in> set deps \<and> sn_exit s d = Some code \<and> code \<noteq> 0" if "dep_failure s deps = Some (d, code)"
    using that by (auto simp: dep_failure_def find_Some_iff)
  ultimately show ?thesis by blast
qed

text \<open>The loop ends as soon as work may start or a dependency has failed with every result present, and not before.\<close>

definition await_ok :: "(nat \<Rightarrow> snapshot) \<Rightarrow> string list \<Rightarrow> nat \<Rightarrow> nat \<Rightarrow> ((string \<times> int) + nat) \<Rightarrow> bool" where
  "await_ok look deps gib n r \<longleftrightarrow> (case r of Inr m \<Rightarrow> n \<le> m \<and> may_start (look m) deps gib
    | Inl (d, code) \<Rightarrow> code \<noteq> 0 \<and> (\<exists>m \<ge> n. d \<in> set deps \<and> sn_exit (look m) d = Some code))"

lemma await_ok_later: "await_ok look deps gib (n + 1) r \<Longrightarrow> await_ok look deps gib n r"
  by (cases r) (auto simp: await_ok_def dest: Suc_leD)

lemma await_result: "await look deps gib n = Some r \<Longrightarrow> await_ok look deps gib n r"
proof (erule await.raw_induct [where P = await_ok, rotated])
  fix aw look deps gib n r
  assume IH: "\<And>look deps gib n r. aw look deps gib n = Some r \<Longrightarrow> await_ok look deps gib n r"
    and eq: "(if deps_missing (look n) deps then aw look deps gib (n + 1)
      else case dep_failure (look n) deps of None \<Rightarrow> if enough_memory gib (look n) then Some (Inr n) else aw look deps gib (n + 1)
      | Some d \<Rightarrow> Some (Inl d)) = Some r"
  have later: "await_ok look deps gib n r" if "aw look deps gib (n + 1) = Some r"
    using IH [OF that] by (rule await_ok_later)
  show "await_ok look deps gib n r"
  proof (cases "deps_missing (look n) deps")
    case False
    show ?thesis
    proof (cases "dep_failure (look n) deps")
      case (Some f)
      obtain d code where f: "f = (d, code)" by (cases f)
      with eq False Some have "r = Inl (d, code)" by simp
      with dep_failure_cases [OF False, of d code] Some f show ?thesis by (auto simp: await_ok_def)
    next
      case None
      with dep_failure_cases [OF False] have z: "\<forall>d \<in> set deps. sn_exit (look n) d = Some 0" by blast
      with eq False None later show ?thesis
        by (cases "enough_memory gib (look n)") (auto simp: may_start_def await_ok_def)
    qed
  qed (use eq later in simp)
qed

lemma await_ends: "may_start (look m) deps gib \<Longrightarrow> n \<le> m \<Longrightarrow> await look deps gib n \<noteq> None"
proof (induction "m - n" arbitrary: n)
  case 0
  then have "n = m" by simp
  with 0 have "\<not> deps_missing (look n) deps" "enough_memory gib (look n)" "dep_failure (look n) deps = None"
    using dep_failure_cases [of "look n" deps] by (auto simp: may_start_def deps_missing_def)
  then show ?case by (simp add: await.simps)
next
  case (Suc k)
  then have "await look deps gib (n + 1) \<noteq> None" by auto
  then show ?case by (simp add: await.simps [of look deps gib n] split: option.split)
qed


section \<open>The log of the lockstep simulator\<close>

text \<open>How a started program ends: with an exit code, or stopped after its 300 seconds with what it had printed.\<close>

datatype proc_end = Ended int string | Timed_out string

definition spike_run :: "proc_end \<Rightarrow> int \<times> string" where
  "spike_run p = (case p of Ended code printed \<Rightarrow> (code, printed)
     | Timed_out printed \<Rightarrow> (3, printed @ [newline] @ ''HOST_TIMEOUT seconds=300'' @ [newline]))"

definition digits_re :: re where
  "digits_re = many1 (Cls is_digit)"

definition mismatch_re :: re where
  "mismatch_re = seqs [str_re ''MISMATCH field='', Grp 1 words, many (Cls dot), str_re ''retire_idx='', Grp 2 digits_re]"

definition counts_re :: "string \<Rightarrow> re" where
  "counts_re tag = seqs [str_re tag, Grp 1 digits_re, str_re '' retired='', Grp 2 digits_re]"

definition log_number :: "re_match \<Rightarrow> nat \<Rightarrow> nat" where
  "log_number m n = (case py_int (the (rm_group m n)) of Inl e \<Rightarrow> 0 | Inr i \<Rightarrow> nat i)"

definition log_counts :: "string \<Rightarrow> string \<Rightarrow> (nat \<times> nat) option" where
  "log_counts tag log = map_option (\<lambda>m. (log_number m 1, log_number m 2)) (re_search (counts_re tag) log)"

definition log_reference :: "string \<Rightarrow> (nat \<times> nat) option" where
  "log_reference log = log_counts ''[o3-reference] PASS events='' log"

definition log_compared :: "string \<Rightarrow> (nat \<times> nat) option" where
  "log_compared log = log_counts ''[o3-spike] PASS compared='' log"

definition log_mismatch :: "string \<Rightarrow> (string \<times> nat) option" where
  "log_mismatch log = map_option (\<lambda>m. (the (rm_group m 1), log_number m 2)) (re_search mismatch_re log)"

text \<open>What the batch sees of the simulator: the two runs of an image, and a self-test with an injected error.\<close>

definition spike_tools :: "(int list \<Rightarrow> nat \<Rightarrow> proc_end) \<Rightarrow> (int list \<Rightarrow> nat \<Rightarrow> proc_end) \<Rightarrow> (string \<Rightarrow> nat \<Rightarrow> proc_end) \<Rightarrow> spike_sim" where
  "spike_tools reference lockstep inject = \<lparr>
     ss_reference = (\<lambda>img target. case spike_run (reference img target) of (code, log) \<Rightarrow> (code, log_reference log)),
     ss_lockstep = (\<lambda>img target. case spike_run (lockstep img target) of (code, log) \<Rightarrow> (code, log_compared log, log_mismatch log)),
     ss_inject = (\<lambda>kind n. case spike_run (inject kind n) of (code, log) \<Rightarrow> (code, log_mismatch log))\<rparr>"

lemma is_digit_value: "is_digit c \<longleftrightarrow> digit_value c \<noteq> None"
proof -
  have "(of_char c :: int) = int (of_char c)" by (simp only: of_nat_of_char)
  then show ?thesis by (auto simp: is_digit_def char_code_def digit_value_def Let_def)
qed

lemma dec_digits: "list_all is_digit (dec_text n)" "dec_text n \<noteq> []"
  using digits_only [of _ n] by (auto simp: list_all_iff is_digit_value dec_text.simps [of n] split: if_splits)

lemma space_no_digit: "\<not> is_digit CHR '' ''"
  by code_simp

text \<open>A line of counts is read as it was printed, wherever it stands after text that does not contain its opening
  bracket.\<close>

theorem log_counts_printed:
  assumes "tag = CHR ''['' # body" "CHR ''['' \<notin> set before" "after = [] \<or> \<not> is_digit (hd after)"
  shows "log_counts tag (before @ tag @ dec_text a @ '' retired='' @ dec_text b @ after) = Some (a, b)"
proof -
  let ?rest = "tag @ dec_text a @ '' retired='' @ dec_text b @ after"
  have skip: "\<forall>u v. before = u @ v \<longrightarrow> v \<noteq> [] \<longrightarrow> re_match_at (counts_re tag) (rev u @ [], v @ ?rest) = None"
  proof (intro allI impI)
    fix u v assume uv: "before = u @ v" "v \<noteq> []"
    show "re_match_at (counts_re tag) (rev u @ [], v @ ?rest) = None"
    proof (rule ccontr)
      assume "re_match_at (counts_re tag) (rev u @ [], v @ ?rest) \<noteq> None"
      then obtain y where "re_accepts (counts_re tag) (rev u @ [], v @ ?rest) y" by (auto simp: re_match_at_None)
      then obtain z where "re_accepts (str_re tag) (rev u @ [], v @ ?rest) z"
        unfolding counts_re_def seqs.simps by (auto elim: re_accepts_cases)
      then have "hd (v @ ?rest) = CHR ''[''" by (simp add: re_accepts_str_re assms(1))
      with uv assms(2) show False by (cases v) auto
    qed
  qed
  have "re_search (counts_re tag) (before @ ?rest) = re_search_from (counts_re tag) (rev before) ?rest"
    unfolding re_search_def using re_search_from_skip [OF skip] by simp
  let ?r3 = "dec_text b @ after"
  let ?r2 = "'' retired='' @ ?r3"
  let ?r1 = "dec_text a @ ?r2"
  let ?b1 = "rev tag @ rev before"
  let ?b2 = "rev (dec_text a) @ ?b1"
  let ?b3 = "rev '' retired='' @ ?b2"
  let ?g1 = "[(1 :: nat, length ?b1, dec_text a)]"
  let ?g2 = "(2, length ?b3, dec_text b) # ?g1"
  have "first_match (str_re tag) ((rev before, ?rest), []) ((?b1, ?r1), [])" by (rule first_str)
  moreover have "first_match (Grp 1 digits_re) ((?b1, ?r1), []) ((?b2, ?r2), ?g1)"
    using first_Grp [OF first_many1 [of is_digit "dec_text a" ?r2 ?b1 "[]"], of 1]
    by (simp add: digits_re_def dec_digits space_no_digit)
  moreover have "first_match (str_re '' retired='') ((?b2, ?r2), ?g1) ((?b3, ?r3), ?g1)" by (rule first_str)
  moreover have "first_match (Grp 2 digits_re) ((?b3, ?r3), ?g1) ((rev (dec_text b) @ ?b3, after), ?g2)"
    using first_Grp [OF first_many1 [of is_digit "dec_text b" after ?b3 ?g1], of 2] assms(3)
    by (simp add: digits_re_def dec_digits)
  ultimately have "first_match (counts_re tag) ((rev before, ?rest), []) ((rev (dec_text b) @ ?b3, after), ?g2)"
    unfolding counts_re_def seqs.simps by (meson first_Seq)
  from first_match_at [OF this] obtain m where m: "re_match_at (counts_re tag) (rev before, ?rest) = Some m" "rm_groups m = ?g2"
    by simp
  then have "re_search (counts_re tag) (before @ ?rest) = Some m"
    using \<open>re_search (counts_re tag) (before @ ?rest) = re_search_from (counts_re tag) (rev before) ?rest\<close>
    by (simp add: assms(1))
  moreover have "log_number m 1 = a" "log_number m 2 = b"
    using py_int_str [of "int a"] py_int_str [of "int b"] by (simp_all add: log_number_def rm_group_def m(2) py_str_def)
  ultimately show ?thesis by (simp add: log_counts_def)
qed

section \<open>Witnesses\<close>

definition demo_exec :: "string list \<Rightarrow> (int \<times> string) py" where
  "demo_exec cmd = (if cmd ! 3 = ''a.elf'' then Inr (0, ''boot'' @ [newline] @ tohost_line @ [newline])
     else if cmd ! 3 = ''b.elf'' then Inr (0, ''[o3-tohost] value=0x3 status=FAIL'') else Inl RuntimeError)"

theorem suite_exit_zero_witness:
  "(\<exists>s. run_suite False (suite_child demo_exec ''o3'' ''out'' 1000000) [''a.elf''] = Inr (s, 0)) \<and>
   (\<exists>s code. run_suite True (suite_child demo_exec ''o3'' ''out'' 1000000) [''b.elf'', ''a.elf''] = Inr (s, code) \<and> code \<noteq> 0 \<and>
     length (su_records s) = 2)"
proof -
  have "exec_a = demo_exec (one_command ''o3'' ''a.elf'' t 1000000) \<Longrightarrow> exec_a = Inr (0, (''boot'' @ [newline]) @ tohost_line @ [newline])"
    "exec_b = demo_exec (one_command ''o3'' ''b.elf'' t 1000000) \<Longrightarrow> exec_b = Inr (0, ''[o3-tohost] value=0x3 status=FAIL'')" for t exec_a exec_b
    by (simp_all add: demo_exec_def one_command_def)
  note exec = this [OF refl]
  have "(0::int) < 1000000" by simp
  then have a: "elf_passes demo_exec ''o3'' ''out'' 1000000 ''a.elf''"
    unfolding elf_passes_def exec(1) by blast
  have "\<not> str_in tohost_line ''[o3-tohost] value=0x3 status=FAIL''" by code_simp
  then have b: "\<not> elf_passes demo_exec ''o3'' ''out'' 1000000 ''b.elf''"
    unfolding elf_passes_def exec(2) str_in_iff by auto
  from suite_exit_zero [of "[''a.elf'']" False demo_exec "''o3''" "''out''" 1000000] a
  have one: "\<exists>s. run_suite False (suite_child demo_exec ''o3'' ''out'' 1000000) [''a.elf''] = Inr (s, 0)" by auto
  from suite_exit_zero [of "[''b.elf'', ''a.elf'']" True demo_exec "''o3''" "''out''" 1000000] b
  have two: "\<exists>s code. run_suite True (suite_child demo_exec ''o3'' ''out'' 1000000) [''b.elf'', ''a.elf''] = Inr (s, code) \<and>
      code \<noteq> 0 \<and> length (su_records s) = 2" by auto
  from one two show ?thesis ..
qed

text \<open>A machine on which the only dependency finishes at the third look, when 40 GiB are free.\<close>

definition demo_look :: "nat \<Rightarrow> snapshot" where
  "demo_look n = \<lparr>sn_exit = (\<lambda>d. if n < 2 then None else Some 0), sn_free = (if n < 1 then 0 else 40 * 1024 * 1024)\<rparr>"


theorem log_counts_printed_witness:
  "log_reference (''warm-up'' @ [newline] @ ''[o3-reference] PASS events=3000 retired=2961'' @ [newline]) = Some (3000, 2961)"
proof -
  have n: "dec_text 3000 = ''3000''" "dec_text 2961 = ''2961''" by code_simp+
  have "CHR ''['' \<notin> set (''warm-up'' @ [newline])" "\<not> is_digit (hd [newline])" by code_simp+
  with log_counts_printed [of "''[o3-reference] PASS events=''" "''o3-reference] PASS events=''" "''warm-up'' @ [newline]" "[newline]" 3000 2961]
  show ?thesis by (simp add: log_reference_def n)
qed

end
