(* ===== verification/Tool_Scripts.thy ===== *)
theory Tool_Scripts
  imports Py_Regex
begin

text \<open>
  Two scripts that watch or rewrite the text of a tool: \<open>sim/litex/run_soc_smoke.py\<close>, which follows the console of the
  simulated SoC and decides whether the boot succeeded, and the synthesis scripts \<open>scripts/vivado/soc_synth_only.py\<close>
  and \<open>perf/resource/run_soc_area.py\<close>, which cut the generated board script after synthesis. The child process and
  the clock are a parameter of the first, the generated script of the others.
\<close>

section \<open>The boot smoke run\<close>

text \<open>One round of the loop: what was read from the child (nothing, the end of its output, or text), and whether it has
  exited. Bytes are characters.\<close>

datatype console_read = Nothing | End_of_output | Chunk string

record smoke_round =
  sk_read :: console_read
  sk_exited :: bool

definition smoke_errors :: "string list" where
  "smoke_errors = [''%Error'', ''Assertion failed'', ''assertion failed'', ''Memory initialization failed'', ''Memtest KO'',
     ''[O3-S2] FAIL'']"

definition has_error :: "string \<Rightarrow> bool" where
  "has_error txt \<longleftrightarrow> re_search (alts smoke_errors) txt \<noteq> None"

text \<open>\<open>\x1b\[[0-?]*[ -/]*[@-~]\<close>, the control sequences of a terminal.\<close>

definition char_range :: "nat \<Rightarrow> nat \<Rightarrow> re" where
  "char_range lo hi = Cls (\<lambda>c. lo \<le> char_code c \<and> char_code c \<le> hi)"

definition ansi_re :: re where
  "ansi_re = seqs [lit (char_of (27 :: nat)), lit CHR ''['', many (char_range 48 63), many (char_range 32 47), char_range 64 126]"

definition plain_text :: "string \<Rightarrow> string" where
  "plain_text txt = re_sub ansi_re (\<lambda>_. []) txt"

definition boot_markers :: "string list" where
  "boot_markers = [''Build your hardware, easily!'', ''Memtest OK'', ''litex>'']"

definition sram_re :: re where
  "sram_re = seqs [str_re ''sram_reads='', char_range 49 57, many (char_range 48 57)]"

text \<open>The console shows a booted system that fetched from its ROM and read its SRAM.\<close>

definition booted :: "string \<Rightarrow> bool" where
  "booted txt \<longleftrightarrow> list_all (\<lambda>m. str_in m (plain_text txt)) boot_markers \<and>
     str_in ''[O3-SMOKE] first_fetch=10010000'' txt \<and> re_search sram_re txt \<noteq> None"

datatype smoke_result = Smoke_pass | Smoke_fail | Smoke_timeout

record smoke_state =
  sm_captured :: string
  sm_ended :: bool
  sm_sent :: bool

definition smoke_start :: smoke_state where
  "smoke_start = \<lparr>sm_captured = [], sm_ended = False, sm_sent = False\<rparr>"

text \<open>One round: \<open>Inl\<close> leaves the loop with the result so far.\<close>

definition smoke_step :: "bool \<Rightarrow> smoke_state \<Rightarrow> smoke_round \<Rightarrow> (smoke_state \<times> smoke_result) + smoke_state" where
  "smoke_step selftest s r =
     (let s = (case sk_read r of Nothing \<Rightarrow> s | End_of_output \<Rightarrow> s\<lparr>sm_ended := True\<rparr>
        | Chunk txt \<Rightarrow> s\<lparr>sm_captured := sm_captured s @ txt\<rparr>) in
      if has_error (sm_captured s) then Inl (s, Smoke_fail)
      else let s = (if booted (sm_captured s) \<and> selftest \<and> \<not> sm_sent s then s\<lparr>sm_sent := True\<rparr> else s) in
        if booted (sm_captured s) \<and> (\<not> selftest \<or> str_in ''[O3-S2] ALL PASS'' (sm_captured s)) then Inl (s, Smoke_pass)
        else if sk_exited r \<and> sm_ended s then Inl (s, Smoke_fail)
        else Inr s)"

text \<open>The loop over the rounds that start within the 1800 seconds; when none is left the run has timed out.\<close>

fun smoke_loop :: "bool \<Rightarrow> smoke_state \<Rightarrow> smoke_round list \<Rightarrow> smoke_state \<times> smoke_result" where
  "smoke_loop selftest s [] = (s, Smoke_timeout)"
| "smoke_loop selftest s (r # rs) = (case smoke_step selftest s r of Inl e \<Rightarrow> e | Inr s' \<Rightarrow> smoke_loop selftest s' rs)"

record smoke_report =
  sp_result :: smoke_result
  sp_sent :: bool
  sp_output :: string
  sp_exit :: int

text \<open>The rest of the child's output is read after it was stopped and looked through once more.\<close>

definition run_smoke :: "bool \<Rightarrow> smoke_round list \<Rightarrow> string \<Rightarrow> smoke_report" where
  "run_smoke selftest rounds tail = (case smoke_loop selftest smoke_start rounds of (s, result) \<Rightarrow>
     let all = sm_captured s @ tail; result = (if has_error all then Smoke_fail else result) in
     \<lparr>sp_result = result, sp_sent = sm_sent s, sp_output = all, sp_exit = (if result = Smoke_pass then 0 else 1)\<rparr>)"

lemma has_error_iff: "has_error txt \<longleftrightarrow> (\<exists>e \<in> set smoke_errors. str_in e txt)"
  unfolding has_error_def by (rule re_search_alts) (simp add: smoke_errors_def)

text \<open>The search decided by looking for each text in turn, which is faster to evaluate.\<close>

lemma has_error_code [code]: "has_error txt = list_ex (\<lambda>e. str_in e txt) smoke_errors"
  by (simp add: has_error_iff list_ex_iff)

definition round_text :: "smoke_round \<Rightarrow> string" where
  "round_text r = (case sk_read r of Chunk txt \<Rightarrow> txt | _ \<Rightarrow> [])"

lemma smoke_step_captured:
  "(case smoke_step selftest s r of Inl (s', _) \<Rightarrow> sm_captured s' | Inr s' \<Rightarrow> sm_captured s') = sm_captured s @ round_text r"
  by (auto simp: smoke_step_def Let_def round_text_def split: console_read.splits)

lemma smoke_step_pass:
  "smoke_step selftest s r = Inl (s', Smoke_pass) \<Longrightarrow> booted (sm_captured s') \<and> \<not> has_error (sm_captured s') \<and>
    (selftest \<longrightarrow> sm_sent s' \<and> str_in ''[O3-S2] ALL PASS'' (sm_captured s'))"
  by (auto simp: smoke_step_def Let_def split: console_read.splits if_splits)

text \<open>The output seen when the loop ends is that of the rounds it has taken.\<close>

lemma smoke_loop_captured:
  "\<exists>k \<le> length rs. sm_captured (fst (smoke_loop selftest s rs)) = sm_captured s @ concat (map round_text (take k rs))"
proof (induction rs arbitrary: s)
  case (Cons r rs)
  note c = smoke_step_captured [of selftest s r]
  show ?case
  proof (cases "smoke_step selftest s r")
    case (Inl e)
    with c show ?thesis by (intro exI [of _ 1]) (auto split: prod.splits)
  next
    case (Inr s')
    from Cons.IH [of s'] obtain k where "k \<le> length rs"
      "sm_captured (fst (smoke_loop selftest s' rs)) = sm_captured s' @ concat (map round_text (take k rs))" by blast
    with c Inr show ?thesis by (intro exI [of _ "Suc k"]) auto
  qed
qed simp

lemma smoke_loop_pass:
  "smoke_loop selftest s rs = (s', Smoke_pass) \<Longrightarrow> booted (sm_captured s') \<and>
    (selftest \<longrightarrow> sm_sent s' \<and> str_in ''[O3-S2] ALL PASS'' (sm_captured s'))"
  by (induction rs arbitrary: s) (auto split: sum.splits dest: smoke_step_pass)


section \<open>The synthesis-only script\<close>

text \<open>\<open>(?:^|\s)-directive\s+(\S+)\<close>\<close>

definition directive_re :: re where
  "directive_re = seqs [Alt Bol (Cls is_space), str_re ''-directive'', spaces1, Grp 1 (many1 (Cls (\<lambda>c. \<not> is_space c)))]"

definition implementation_commands :: "string list" where
  "implementation_commands = [''opt_design'', ''place_design'', ''route_design'', ''write_bitstream'']"

definition is_synth :: "string \<Rightarrow> bool" where
  "is_synth line \<longleftrightarrow> str_prefix ''synth_design '' line"

definition is_implementation :: "string \<Rightarrow> bool" where
  "is_implementation line \<longleftrightarrow> list_ex (\<lambda>c. str_prefix c (py_strip line)) implementation_commands"

text \<open>The synthesis command with the directive asked for, and the directive it then has.\<close>

definition set_directive :: "string \<Rightarrow> string \<Rightarrow> (string \<times> string) py" where
  "set_directive directive command = (let found = re_search directive_re command;
       generated = (case found of None \<Rightarrow> ''default'' | Some m \<Rightarrow> the (rm_group m 1)) in
     if directive = ''default'' then Inr (command, generated)
     else (case found of None \<Rightarrow> Inr (command @ '' -directive '' @ directive, directive)
       | Some m \<Rightarrow> if generated \<noteq> ''default'' \<and> generated \<noteq> directive then Inl ValueError
           else (case rm_span m 1 of None \<Rightarrow> Inl IndexError | Some (lo, hi) \<Rightarrow>
             Inr (take lo command @ directive @ drop hi command, directive))))"

text \<open>A path quoted for Tcl.\<close>

definition tcl_quote :: "string \<Rightarrow> string py" where
  "tcl_quote path = (if list_ex (\<lambda>c. c \<in> {CHR ''{'', CHR ''}'', CHR 92, newline}) path then Inl ValueError
     else Inr (''{'' @ path @ ''}''))"

definition dq :: string where
  "dq = [CHR 34]"

definition synth_reports :: "string \<Rightarrow> string \<Rightarrow> string list py" where
  "synth_reports evidence directive =
     py_bind (tcl_quote (evidence @ ''/soc_synth.dcp'')) (\<lambda>dcp.
     py_bind (tcl_quote (evidence @ ''/utilization.rpt'')) (\<lambda>util.
     py_bind (tcl_quote (evidence @ ''/utilization_hier.rpt'')) (\<lambda>hier.
     py_bind (tcl_quote (evidence @ ''/timing_summary.rpt'')) (\<lambda>timing.
     py_bind (tcl_quote (evidence @ ''/worst30.rpt'')) (\<lambda>worst.
     py_bind (tcl_quote (evidence @ ''/internal_setup30.rpt'')) (\<lambda>internal.
     py_bind (tcl_quote (evidence @ ''/check_timing.rpt'')) (\<lambda>check.
     py_bind (tcl_quote (evidence @ ''/drc.rpt'')) (\<lambda>drc.
     py_bind (tcl_quote (evidence @ ''/clocks.rpt'')) (\<lambda>clocks.
     py_bind (tcl_quote (evidence @ ''/summary.txt'')) (\<lambda>summary. Inr [
       ''write_checkpoint -force '' @ dcp,
       ''report_utilization -file '' @ util,
       ''report_utilization -hierarchical -file '' @ hier,
       ''report_timing_summary -delay_type min_max -report_unconstrained -file '' @ timing,
       ''report_timing -delay_type max -max_paths 30 -input_pins -nets -file '' @ worst,
       ''report_timing -delay_type max -max_paths 30 -input_pins -nets -from [all_registers -output_pins] -to [all_registers -data_pins] -file '' @ internal,
       ''check_timing -verbose -file '' @ check,
       ''report_drc -file '' @ drc,
       ''report_clocks -file '' @ clocks,
       ''set fp [open '' @ summary @ '' w]'',
       ''puts $fp '' @ dq @ ''stage=whole_soc_synthesis_only_no_opt_place_route'' @ dq,
       ''puts $fp '' @ dq @ ''scope=standard_KCU105_frontend_backend_L1I_L1D_L2_DDR_CLINT_PLIC_UART_SD_coherent_DMA_BIOS'' @ dq,
       ''puts $fp '' @ dq @ ''top=xilinx_kcu105 part=xcku040-ffva1156-2-e sys_clock_period_ns=10.000 retiming=0'' @ dq,
       ''puts $fp '' @ dq @ ''synthesis_directive='' @ directive @ dq,
       ''puts $fp '' @ dq @ ''synth_and_report_seconds=[expr {[clock seconds]-$started}]'' @ dq,
       ''foreach path [get_timing_paths -delay_type max -max_paths 1] {'',
       ''puts $fp '' @ dq @ ''worst_setup_slack_ns=[get_property SLACK $path]'' @ dq,
       ''puts $fp '' @ dq @ ''worst_start=[get_property STARTPOINT_PIN $path]'' @ dq,
       ''puts $fp '' @ dq @ ''worst_end=[get_property ENDPOINT_PIN $path]'' @ dq,
       ''puts $fp '' @ dq @ ''worst_logic_levels=[get_property LOGIC_LEVELS $path]'' @ dq,
       ''}'', ''close $fp'', ''puts '' @ dq @ ''WHOLE_SOC_SYNTH_REPORTS_COMPLETE'' @ dq, ''exit 0'']))))))))))"

definition synth_only :: "string \<Rightarrow> string list \<Rightarrow> string \<Rightarrow> string list py" where
  "synth_only directive lines evidence = (case filter (\<lambda>i. is_synth (lines ! i)) [0..<length lines] of
     [i] \<Rightarrow> py_bind (set_directive directive (lines ! i)) (\<lambda>(command, effective).
       py_bind (if list_ex is_implementation (take i lines) then Inl ValueError else Inr ()) (\<lambda>_.
       py_bind (synth_reports evidence effective) (\<lambda>reports.
         Inr (take i lines @ [''set_param general.maxThreads 8'',
           ''set_property verilog_define {FPGA_TARGET} [current_fileset]'', ''set started [clock seconds]'', command] @ reports))))
   | _ \<Rightarrow> Inl ValueError)"

text \<open>Where the group of a directive begins: behind \<open>-directive\<close>.\<close>

lemma Grp_start:
  assumes "st' \<in> set (re_step (Grp n r) st)"
  shows "\<exists>t. map_of (snd st') n = Some (length (fst (fst st)), t)"
  using assms by (auto simp: split_def)

lemma directive_start:
  assumes "re_search directive_re command = Some m" "rm_span m 1 = Some (lo, hi)"
  shows "\<exists>a b. command = a @ b \<and> length a = lo \<and> CHR ''-'' \<in> set a"
proof -
  from assms(1) obtain a b where ab: "command = a @ b" "re_match_at directive_re (rev a, b) = Some m"
    by (rule re_search_place)
  let ?w = "Alt Bol (Cls is_space)" and ?g = "Grp 1 (many1 (Cls (\<lambda>c. \<not> is_space c)))"
  from ab(2) obtain st where st: "st \<in> set (re_step directive_re ((rev a, b), []))" "rm_groups m = snd st"
    by (rule rm_group_match_at)
  let ?d = "str_re ''-directive''"
  from st(1) have "st \<in> set (re_step (Seq ?w (Seq ?d (Seq spaces1 ?g))) ((rev a, b), []))"
    by (simp only: directive_re_def seqs.simps)
  then obtain s1 where s1: "s1 \<in> set (re_step ?w ((rev a, b), []))" "st \<in> set (re_step (Seq ?d (Seq spaces1 ?g)) s1)"
    unfolding re_step_Seq [of _ ?w] by (elim exE conjE)
  from s1(2) obtain s2 where s2: "s2 \<in> set (re_step ?d s1)" "st \<in> set (re_step (Seq spaces1 ?g) s2)"
    unfolding re_step_Seq [of _ ?d] by (elim exE conjE)
  from s2(2) obtain s3 where s3: "s3 \<in> set (re_step spaces1 s2)" "st \<in> set (re_step ?g s3)"
    unfolding re_step_Seq [of _ spaces1] by (elim exE conjE)
  from re_accepts_moves [OF re_step_sound [OF s1(1)]] have acc1: "moves (rev a, b) (fst s1)" by (simp only: fst_conv)
  note acc2 = re_step_sound [OF s2(1)] and acc3 = re_accepts_moves [OF re_step_sound [OF s3(1)]]
  from acc1 obtain w1 where w1: "b = w1 @ snd (fst s1)" "fst (fst s1) = rev w1 @ rev a" by (auto simp: moves_def)
  from acc2 have d: "snd (fst s1) = ''-directive'' @ snd (fst s2)" "fst (fst s2) = rev ''-directive'' @ fst (fst s1)"
    unfolding re_accepts_str_re by blast+
  from acc3 obtain w3 where w3: "snd (fst s2) = w3 @ snd (fst s3)" "fst (fst s3) = rev w3 @ fst (fst s2)" by (auto simp: moves_def)
  let ?a = "a @ w1 @ ''-directive'' @ w3"
  have "command = ?a @ snd (fst s3)" using ab(1) w1(1) d(1) w3(1) by simp
  moreover have "length (fst (fst s3)) = length ?a" using w1(2) d(2) w3(2) by simp
  moreover from Grp_start [OF s3(2)] assms(2) st(2) have "lo = length (fst (fst s3))" by (auto simp: rm_span_def)
  ultimately show ?thesis by (intro exI [of _ ?a] exI [of _ "snd (fst s3)"]) simp
qed

lemma set_directive_synth:
  assumes "is_synth line" "set_directive directive line = Inr (command, effective)"
  shows "is_synth command"
proof -
  from assms(1) obtain rest where line: "line = ''synth_design '' @ rest" by (auto simp: is_synth_def str_prefix_iff)
  consider "command = line" | "command = line @ '' -directive '' @ directive"
    | m lo hi where "re_search directive_re line = Some m" "rm_span m 1 = Some (lo, hi)" "command = take lo line @ directive @ drop hi line"
  proof (cases "directive = ''default''")
    case True
    with assms(2) have "command = line" unfolding set_directive_def Let_def if_P [OF True] by simp
    then show thesis by (rule that(1))
  next
    case False
    note set = assms(2) [unfolded set_directive_def Let_def if_not_P [OF False]]
    show thesis
    proof (cases "re_search directive_re line")
      case None
      with set have "command = line @ '' -directive '' @ directive" by (simp add: eq_commute [of _ command])
      then show thesis by (rule that(2))
    next
      case (Some m)
      with set obtain lo hi where "rm_span m 1 = Some (lo, hi)" "command = take lo line @ directive @ drop hi line"
        by (cases "rm_span m 1") (auto split: if_splits)
      with Some show thesis by (rule that(3))
    qed
  qed
  then show ?thesis
  proof cases
    case 2
    then have "command = ''synth_design '' @ (rest @ '' -directive '' @ directive)" using line by simp
    then show ?thesis unfolding is_synth_def str_prefix_iff by blast
  next
    case 3
    from directive_start [OF 3(1,2)] obtain a b where a: "line = a @ b" "length a = lo" "CHR ''-'' \<in> set a" by blast
    have "\<not> lo < 13"
    proof
      assume "lo < 13"
      have "a = take lo line" using a(1,2) by simp
      also have "\<dots> = take lo ''synth_design ''" using \<open>lo < 13\<close> by (simp add: line take_Cons')
      finally have "a = take lo ''synth_design ''" .
      with a(3) have "CHR ''-'' \<in> set ''synth_design ''" by (metis in_set_takeD)
      then show False by simp
    qed
    then have "take lo ''synth_design '' = ''synth_design ''" by (intro take_all) simp
    moreover have "length ''synth_design '' = 13" by simp
    ultimately have "take lo line = ''synth_design '' @ take (lo - 13) rest" unfolding line take_append by (simp only:)
    with 3(3) have "command = ''synth_design '' @ (take (lo - 13) rest @ directive @ drop hi line)" by simp
    then show ?thesis unfolding is_synth_def str_prefix_iff by blast
  qed (use assms(1) in simp)
qed

lemma str_prefix_strip: "str_prefix c (py_strip s) \<Longrightarrow> str_prefix c (dropWhile is_space s)"
proof -
  assume "str_prefix c (py_strip s)"
  moreover have "\<exists>t. dropWhile is_space s = py_strip s @ t"
    unfolding py_strip_def by (metis rev_append rev_rev_ident takeWhile_dropWhile_id)
  ultimately show ?thesis by (auto simp: str_prefix_iff)
qed

definition quiet :: "string \<Rightarrow> bool" where
  "quiet line \<longleftrightarrow> \<not> is_synth line \<and> \<not> list_ex (\<lambda>c. str_prefix c (dropWhile is_space line)) implementation_commands"

lemma quiet_line: "quiet line \<Longrightarrow> \<not> is_synth line \<and> \<not> is_implementation line"
  by (auto simp: quiet_def is_implementation_def list_ex_iff dest: str_prefix_strip)

lemma synth_reports_quiet:
  assumes "synth_reports evidence directive = Inr reports"
  shows "list_all quiet reports \<and> reports \<noteq> [] \<and> last reports = ''exit 0''"
  using assms unfolding synth_reports_def
  by (elim bind_InrE, simp only: sum.inject(2), hypsubst)
    (simp add: quiet_def is_synth_def implementation_commands_def dq_def is_space_def char_code_def)

text \<open>The script it writes stops after synthesis: it has the lines of the board script before synthesis unchanged and in
  order, then one synthesis command and no other, no command that optimises, places, routes or writes a bitstream, and
  it ends by leaving the tool.\<close>

theorem synth_only_stops:
  assumes "synth_only directive lines evidence = Inr out"
  shows "\<exists>i command. i < length lines \<and> is_synth (lines ! i) \<and> take i out = take i lines \<and>
    filter is_synth out = [command] \<and> list_all (\<lambda>line. is_synth line \<or> \<not> is_implementation line) out \<and> last out = ''exit 0''"
proof -
  from assms obtain i where i: "filter (\<lambda>i. is_synth (lines ! i)) [0..<length lines] = [i]"
    by (auto simp: synth_only_def split: list.splits)
  with assms obtain command effective reports where c: "set_directive directive (lines ! i) = Inr (command, effective)"
    "\<not> list_ex is_implementation (take i lines)" "synth_reports evidence effective = Inr reports"
    "out = take i lines @ [''set_param general.maxThreads 8'', ''set_property verilog_define {FPGA_TARGET} [current_fileset]'',
       ''set started [clock seconds]'', command] @ reports"
    by (auto simp: synth_only_def py_bind_Inr_iff split: if_splits)
  from i have "i \<in> set (filter (\<lambda>i. is_synth (lines ! i)) [0..<length lines])" by simp
  then have il: "i < length lines" "is_synth (lines ! i)" by auto
  have before: "\<not> is_synth line" if "line \<in> set (take i lines)" for line
  proof
    assume "is_synth line"
    from that il(1) obtain j where j: "j < i" "line = lines ! j" by (auto simp: in_set_conv_nth)
    with \<open>is_synth line\<close> il(1) have "j \<in> set (filter (\<lambda>i. is_synth (lines ! i)) [0..<length lines])" by simp
    with i j(1) show False by simp
  qed
  note q = synth_reports_quiet [OF c(3)]
  have three: "list_all quiet [''set_param general.maxThreads 8'', ''set_property verilog_define {FPGA_TARGET} [current_fileset]'',
      ''set started [clock seconds]'']" by code_simp
  have "filter is_synth reports = []" using q quiet_line by (auto simp: filter_empty_conv list_all_iff)
  moreover have "filter is_synth (take i lines) = []" using before by (auto simp: filter_empty_conv)
  ultimately have "filter is_synth out = [command]"
    using three quiet_line set_directive_synth [OF il(2) c(1)] by (auto simp: c(4) list_all_iff)
  moreover have "list_all (\<lambda>line. is_synth line \<or> \<not> is_implementation line) out"
    using c(2) q three quiet_line set_directive_synth [OF il(2) c(1)] by (auto simp: c(4) list_all_iff list_ex_iff)
  ultimately show ?thesis using il q c(4) by (intro exI [of _ i] exI [of _ command]) simp
qed

section \<open>The whole-SoC area run\<close>

definition str_replace_all :: "(string \<times> string) list \<Rightarrow> string \<Rightarrow> string" where
  "str_replace_all rs s = fold (\<lambda>(old, new) t. str_replace old new t) rs s"

text \<open>The board script up to the optimisation, with the source and output directories replaced and one more report.\<close>

definition soc_area_script :: "string \<Rightarrow> string \<Rightarrow> string \<Rightarrow> string \<Rightarrow> string py" where
  "soc_area_script tcl baseline source out =
     py_bind (str_index tcl ''# Optimize design'' 0) (\<lambda>stop. Inr (
       str_replace_all [(baseline @ ''/source'', source), (baseline @ ''/build/standard/gateware'', out)] (take stop tcl) @
       [newline] @ ''report_timing -max_paths 10 -path_type full -file soc-worst-10-synth.rpt'' @ [newline] @ ''quit'' @ [newline]))"

section \<open>Witnesses\<close>

definition demo_console :: string where
  "demo_console = ''Build your hardware, easily! Memtest OK'' @ [newline] @ ''[O3-SMOKE] first_fetch=10010000 sram_reads=12'' @ [newline] @
     ''li'' @ [char_of (27 :: nat)] @ ''[92;1mtex>''"

definition demo_rounds :: "smoke_round list" where
  "demo_rounds = [\<lparr>sk_read = Chunk demo_console, sk_exited = False\<rparr>, \<lparr>sk_read = Chunk ''[O3-S2] ALL PASS'', sk_exited = False\<rparr>]"


definition demo_tcl :: "string list" where
  "demo_tcl = [''create_project o3'', ''synth_design -top o3'', ''opt_design'', ''write_bitstream o3.bit'']"

theorem synth_only_stops_witness:
  "\<exists>out. synth_only ''AreaOptimized_high'' demo_tcl ''/tmp/e'' = Inr out \<and>
     out ! 4 = ''synth_design -top o3 -directive AreaOptimized_high'' \<and> last out = ''exit 0'' \<and> length (filter is_synth out) = 1"
proof -
  have "map_sum id (\<lambda>out. out ! 4) (synth_only ''AreaOptimized_high'' demo_tcl ''/tmp/e'') =
      Inr ''synth_design -top o3 -directive AreaOptimized_high''" by code_simp
  then obtain out where out: "synth_only ''AreaOptimized_high'' demo_tcl ''/tmp/e'' = Inr out"
      "out ! 4 = ''synth_design -top o3 -directive AreaOptimized_high''"
    by (cases "synth_only ''AreaOptimized_high'' demo_tcl ''/tmp/e''") auto
  from synth_only_stops [OF out(1)] have "last out = ''exit 0''" "length (filter is_synth out) = 1" by auto
  with out show ?thesis by blast
qed

end
