(* ===== verification/Watchdog_Check.thy ===== *)
theory Watchdog_Check
  imports Watchdog Batch_Runs
begin

text \<open>
  The rest of \<open>litex_wrapper/o3/ila.py\<close>, the logic analyser around the hang detector: its probes, the commands that
  create it and the map of the probes; and \<open>sim/litex/check_debug_watchdog.py\<close>, the test of both. The test is a list
  of actions for the simulator of the library, which runs a test like one more clocked process: what it reads is the
  state before the clock edge, what it writes holds from the next cycle on.
\<close>

section \<open>The probes\<close>

definition bus_names :: "string list" where
  "bus_names = [''memory'', ''mmio'']"

definition channel_names :: "string list" where
  "channel_names = [''ar'', ''aw'', ''w'', ''r'', ''b'']"

text \<open>The signals of a channel a probe shows; of the data only the low 64 bits.\<close>

definition probe_fields :: "string \<Rightarrow> string \<Rightarrow> string list" where
  "probe_fields bus channel = [''valid'', ''ready''] @
     (if channel = ''ar'' \<or> channel = ''aw''
      then [''addr''] @ (if bus = ''memory'' then [''id'', ''len'', ''size'', ''burst''] else [''prot''])
      else if channel = ''w'' then [''strb''] @ (if bus = ''memory'' then [''last''] else []) @ [''data'']
      else if channel = ''r'' then (if bus = ''memory'' then [''id'', ''last''] else []) @ [''resp'', ''data'']
      else (if bus = ''memory'' then [''id''] else []) @ [''resp''])"

text \<open>The widths of the bus signals are those of the bus library: \<open>width bus channel field\<close>.\<close>

definition field_width :: "(string \<Rightarrow> string \<Rightarrow> string \<Rightarrow> nat) \<Rightarrow> string \<Rightarrow> string \<Rightarrow> string \<Rightarrow> nat" where
  "field_width width bus channel fld = (if fld = ''data'' then min 64 (width bus channel fld) else width bus channel fld)"

definition ila_probes :: "(string \<Rightarrow> string \<Rightarrow> string \<Rightarrow> nat) \<Rightarrow> nat \<Rightarrow> (string \<times> nat) list" where
  "ila_probes width threshold = (let counter = bit_length threshold in
     [(''retire_valid'', 4), (''retire_pc'', 256), (''retire_inst'', 128), (''retired_count'', 64),
      (''last_retire_pc'', 64), (''last_retire_inst'', 32), (''seen_retire'', 1), (''no_retire_cycles'', counter),
      (''hang'', 1), (''hang_reasons'', 15), (''status'', 7), (''mtime_low'', 32)] @
     concat (map (\<lambda>bus. map (\<lambda>channel. (bus @ ''_'' @ channel,
       sum_list (map (field_width width bus channel) (probe_fields bus channel)))) channel_names) bus_names) @
     [(''router_inflight'', 4), (''response_pending'', 4), (''response_ages'', 4 * counter), (''channel_stall_cycles'', 10 * counter)])"

definition ila_settings :: "(string \<times> nat) list \<Rightarrow> string list" where
  "ila_settings probes = [''CONFIG.C_DATA_DEPTH 2048'', ''CONFIG.C_NUM_OF_PROBES '' @ dec_text (length probes)] @
     map (\<lambda>i. ''CONFIG.C_PROBE'' @ dec_text i @ ''_WIDTH '' @ dec_text (snd (probes ! i))) [0..<length probes]"

definition ila_commands :: "(string \<times> nat) list \<Rightarrow> string list" where
  "ila_commands probes =
     [''create_ip -name ila -vendor xilinx.com -library ip -version 6.2 -module_name o3_ila'',
      ''set_property -dict [list '' @ join_with '' '' (ila_settings probes) @ ''] [get_ips o3_ila]'',
      ''generate_target all [get_ips o3_ila]'']"

definition ila_pins :: "(string \<times> nat) list \<Rightarrow> (string \<times> string) list" where
  "ila_pins probes = (''i_clk'', ''sys'') # map (\<lambda>i. (''i_probe'' @ dec_text i, fst (probes ! i))) [0..<length probes]"

record probe_entry =
  pe_probe :: nat
  pe_name :: string
  pe_width :: nat
  pe_reason_bits :: "(string \<times> nat) list option"
  pe_threshold :: "nat option"

definition probe_map :: "(string \<times> nat) list \<Rightarrow> nat \<Rightarrow> probe_entry list" where
  "probe_map probes threshold = map (\<lambda>i. \<lparr>pe_probe = i, pe_name = fst (probes ! i), pe_width = snd (probes ! i),
     pe_reason_bits = (if fst (probes ! i) = ''hang_reasons'' then Some (zip wd_reason_names [0..<length wd_reason_names]) else None),
     pe_threshold = (if fst (probes ! i) = ''hang'' then Some threshold else None)\<rparr>) [0..<length probes]"

lemma dec_text_inject: "dec_text a = dec_text b \<Longrightarrow> a = b"
  using arg_cong [of "dec_text a" "dec_text b" "digits_from 0"] unfolding digits_from_dec by simp

lemma bus_probe_names: "map fst (concat (map (\<lambda>bus. map (\<lambda>channel. (bus @ ''_'' @ channel, g bus channel)) channel_names) bus_names)) =
  [''memory_ar'', ''memory_aw'', ''memory_w'', ''memory_r'', ''memory_b'', ''mmio_ar'', ''mmio_aw'', ''mmio_w'', ''mmio_r'', ''mmio_b'']"
  by (simp add: bus_names_def channel_names_def)

lemma probe_names: "map fst (ila_probes width threshold) =
    [''retire_valid'', ''retire_pc'', ''retire_inst'', ''retired_count'', ''last_retire_pc'', ''last_retire_inst'', ''seen_retire'',
     ''no_retire_cycles'', ''hang'', ''hang_reasons'', ''status'', ''mtime_low''] @
    [''memory_ar'', ''memory_aw'', ''memory_w'', ''memory_r'', ''memory_b'', ''mmio_ar'', ''mmio_aw'', ''mmio_w'', ''mmio_r'', ''mmio_b''] @
    [''router_inflight'', ''response_pending'', ''response_ages'', ''channel_stall_cycles'']"
  unfolding ila_probes_def Let_def map_append bus_probe_names by (simp only: list.map fst_conv)

text \<open>The analyser has 26 probes with names of their own, its pins are as many as the probes and differ, every probe has
  the width set for it, and the map that goes with it numbers the probes as they are connected and names each bit of the
  hang reasons once, in the order of the detector's reasons.\<close>

theorem ila_map_consistent:
  "length (ila_probes width threshold) = 26 \<and> distinct (map fst (ila_probes width threshold)) \<and>
   distinct (map fst (ila_pins (ila_probes width threshold))) \<and>
   map snd (tl (ila_pins (ila_probes width threshold))) = map pe_name (probe_map (ila_probes width threshold) threshold) \<and>
   (\<exists>i. pe_reason_bits (probe_map (ila_probes width threshold) threshold ! i) = Some (zip wd_reason_names [0..<15]) \<and>
     ila_probes width threshold ! i = (''hang_reasons'', 15)) \<and> distinct wd_reason_names \<and> length wd_reason_names = 15"
proof -
  let ?p = "ila_probes width threshold"
  have len: "length ?p = 26" using arg_cong [OF probe_names [of width threshold], of length] by simp
  have "distinct (map fst ?p)" unfolding probe_names by simp
  moreover have "distinct (map fst (ila_pins ?p))"
    by (auto simp: ila_pins_def distinct_map inj_on_def comp_def dest: dec_text_inject)
  moreover have "map snd (tl (ila_pins ?p)) = map pe_name (probe_map ?p threshold)"
    by (simp add: ila_pins_def probe_map_def comp_def)
  moreover have names: "length wd_reason_names = 15" "distinct wd_reason_names" by code_simp+
  moreover have nine: "?p ! 9 = (''hang_reasons'', 15)" by (simp add: ila_probes_def Let_def)
  then have "pe_reason_bits (probe_map ?p threshold ! 9) = Some (zip wd_reason_names [0..<15])"
    using len by (simp add: probe_map_def names(1))
  ultimately show ?thesis using len nine by blast
qed

section \<open>A test as a list of actions\<close>

datatype wd_act = Tick | Write "wd_input \<Rightarrow> wd_input" | Check "wd_state \<Rightarrow> wd_input \<Rightarrow> bool"

text \<open>State, the inputs of this cycle and those of the next.\<close>

fun wd_simulate :: "nat \<Rightarrow> wd_act list \<Rightarrow> wd_state \<Rightarrow> wd_input \<Rightarrow> wd_input \<Rightarrow> wd_state py" where
  "wd_simulate th [] s now later = Inr s"
| "wd_simulate th (Tick # acts) s now later = wd_simulate th acts (wd_step th s now) later later"
| "wd_simulate th (Write f # acts) s now later = wd_simulate th acts s now (f later)"
| "wd_simulate th (Check p # acts) s now later = (if p s now then wd_simulate th acts s now later else Inl AssertionError)"

definition idle_bus :: wd_bus where
  "idle_bus = \<lparr>wb_valid = (\<lambda>_. False), wb_ready = (\<lambda>_. False), wb_last = False\<rparr>"

definition idle_input :: wd_input where
  "idle_input = \<lparr>wi_retire_valid = 0, wi_retire_pc = 0, wi_retire_inst = 0, wi_memory = idle_bus, wi_mmio = idle_bus\<rparr>"

definition run_check :: "wd_act list \<Rightarrow> wd_state py" where
  "run_check acts = py_bind (wd_init 4) (\<lambda>s. wd_simulate 4 acts s idle_input idle_input)"

definition set_channel :: "bool \<Rightarrow> axi_channel \<Rightarrow> bool option \<Rightarrow> bool option \<Rightarrow> wd_input \<Rightarrow> wd_input" where
  "set_channel memory ch valid ready i =
     (let f = (\<lambda>b. b\<lparr>wb_valid := (case valid of None \<Rightarrow> wb_valid b | Some v \<Rightarrow> (wb_valid b)(ch := v)),
          wb_ready := (case ready of None \<Rightarrow> wb_ready b | Some v \<Rightarrow> (wb_ready b)(ch := v))\<rparr>) in
      if memory then i\<lparr>wi_memory := f (wi_memory i)\<rparr> else i\<lparr>wi_mmio := f (wi_mmio i)\<rparr>)"

definition get_bus :: "bool \<Rightarrow> wd_input \<Rightarrow> wd_bus" where
  "get_bus memory i = (if memory then wi_memory i else wi_mmio i)"

definition channel_at :: "nat \<Rightarrow> axi_channel" where
  "channel_at k = [CH_AR, CH_AW, CH_W, CH_R, CH_B] ! k"

definition repeat :: "nat \<Rightarrow> wd_act list \<Rightarrow> wd_act list" where
  "repeat n acts = concat (replicate n acts)"

definition not_hung :: wd_act where
  "not_hung = Check (\<lambda>s i. \<not> wd_hang s)"

section \<open>The checks\<close>

text \<open>The stimulus of one reason: no retirement, a stalled channel, or a request without its response.\<close>

definition reason_stimulus :: "nat \<Rightarrow> wd_act list" where
  "reason_stimulus index =
    (if index = 0 then repeat 3 [not_hung, Tick]
     else if index \<le> 10 then (let memory = (index \<le> 5); ch = channel_at ((index - 1) mod 5) in
       [Write (set_channel memory ch (Some True) (Some False))] @ repeat 4 [not_hung, Tick] @
       [Tick, Check (\<lambda>s i. wb_valid (get_bus memory i) ch \<and> \<not> wb_ready (get_bus memory i) ch),
        Write (set_channel memory ch (Some False) None)])
     else (let memory = (index \<le> 12); ch = (if index = 11 \<or> index = 13 then CH_AR else CH_AW) in
       [Write (set_channel memory ch (Some True) (Some True)), Tick, Tick, Write (set_channel memory ch (Some False) None)] @
       repeat 4 [not_hung, Tick] @ [Tick]))"

definition check_reason :: "nat \<Rightarrow> wd_act list" where
  "check_reason index =
     (if index \<noteq> 0 then [Write (\<lambda>i. i\<lparr>wi_retire_valid := 1\<rparr>)] else []) @ [Tick] @ reason_stimulus index @
     [Check (\<lambda>s i. wd_hang s \<and> wd_reasons s = map (\<lambda>k. k = index) [0..<15])] @
     repeat 7 [Tick, Check (\<lambda>s i. wd_hang s \<and> wd_reasons s ! index)] @
     [Check (\<lambda>s i. list_all (\<lambda>c. c \<le> 4) ([wd_no_retire s] @ wd_stalls s @ wd_ages s))]"

definition check_completion :: "wd_act list" where
  "check_completion =
     [Write (\<lambda>i. i\<lparr>wi_retire_valid := 9\<rparr>), Write (\<lambda>i. i\<lparr>wi_retire_pc := 0x1020 OR push_bit 192 0x3040\<rparr>),
      Write (\<lambda>i. i\<lparr>wi_retire_inst := 0x12345678 OR push_bit 96 0x89abcdef\<rparr>), Tick, Tick,
      Check (\<lambda>s i. wd_seen_retire s \<and> wd_last_pc s = 0x3040), Check (\<lambda>s i. wd_last_inst s = 0x89abcdef),
      Write (set_channel True CH_AR (Some True) (Some True)), Tick, Tick,
      Write (set_channel True CH_AR (Some False) None), Write (set_channel True CH_R (Some True) (Some True)),
      Write (\<lambda>i. i\<lparr>wi_memory := (wi_memory i)\<lparr>wb_last := False\<rparr>\<rparr>), Tick, Tick, Check (\<lambda>s i. wd_pending s ! 0),
      Write (\<lambda>i. i\<lparr>wi_memory := (wi_memory i)\<lparr>wb_last := True\<rparr>\<rparr>), Tick, Tick,
      Write (set_channel True CH_R (Some False) None)] @
     repeat 8 [Tick, Check (\<lambda>s i. \<not> wd_hang s \<and> True \<notin> set (wd_reasons s)), Check (\<lambda>s i. \<not> wd_pending s ! 0)]"

text \<open>The checks of the analyser: the probe names it needs, the numbers of reasons and probes, the export of the probes.\<close>

definition check_ila :: "(string \<times> nat) list \<Rightarrow> string list \<Rightarrow> unit py" where
  "check_ila probes additional = (let names = map fst probes in
     py_bind (py_assert (list_all (\<lambda>n. n \<in> set names) [''mtime_low'', ''last_retire_pc'', ''last_retire_inst'', ''hang'', ''hang_reasons'',
       ''router_inflight''])) (\<lambda>_.
     py_bind (py_assert (list_all (\<lambda>bus. list_all (\<lambda>ch. bus @ ''_'' @ ch \<in> set names) [''ar'', ''aw'', ''w'', ''r'', ''b''])
       [''memory'', ''mmio''])) (\<lambda>_.
     py_bind (py_assert (length wd_reason_names = 15 \<and> length probes = 26)) (\<lambda>_.
       py_assert (''write_debug_probes -force o3_ila.ltx'' \<in> set additional)))))"

fun check_reasons :: "nat list \<Rightarrow> unit py" where
  "check_reasons [] = Inr ()"
| "check_reasons (r # rs) = py_bind (run_check (check_reason r)) (\<lambda>_. check_reasons rs)"

definition check_watchdog :: "(string \<Rightarrow> string \<Rightarrow> string \<Rightarrow> nat) \<Rightarrow> unit py" where
  "check_watchdog width =
     py_bind (check_reasons [0..<15]) (\<lambda>_. py_bind (run_check check_completion) (\<lambda>_.
       check_ila (ila_probes width 10000000) [''write_debug_probes -force o3_ila.ltx'']))"

section \<open>The detector passes its test\<close>

text \<open>Equations that compute: without a retirement, or with a word of zeros, no lane is cut out of its signal.\<close>

lemma wd_lane_code [code]: "wd_lane w x lane = (if x = 0 then 0 else take_bit w (drop_bit (w * lane) x))"
  by (simp add: wd_lane_def)

lemma wd_latch_code [code]: "wd_latch w v x old = (if v = 0 then old
    else if odd (v div 8) then wd_lane w x 3 else if odd (v div 4) then wd_lane w x 2
    else if odd (v div 2) then wd_lane w x 1 else if odd v then wd_lane w x 0 else old)"
proof -
  have "bit v 3 = odd (v div 8)" "bit v 2 = odd (v div 4)" "bit v 1 = odd (v div 2)" "bit v 0 = odd v"
    by (simp_all add: bit_iff_odd)
  then show ?thesis unfolding wd_latch_eq by auto
qed

lemma reasons_pass: "check_reasons [0..<15] = Inr ()"
  by code_simp

text \<open>The completion test retires lanes 0 and 3; the last of them is kept.\<close>

lemma latch_lanes: "wd_latch w 9 x old = wd_lane w x 3" "wd_latch w 0 x old = old"
  by (simp_all add: wd_latch_code)

lemma lane_values: "wd_lane 64 (0x1020 OR push_bit 192 0x3040) 3 = 0x3040"
  "wd_lane 32 (0x12345678 OR push_bit 96 0x89abcdef) 3 = 0x89abcdef"
  by (simp_all add: wd_lane_def)

lemma repeat_8: "repeat 8 a = a @ a @ a @ a @ a @ a @ a @ a"
  by (simp add: repeat_def eval_nat_numeral)

lemma replicate_state: "replicate 4 x = [x, x, x, x]" "replicate 10 x = [x, x, x, x, x, x, x, x, x, x]"
  "replicate 15 x = [x, x, x, x, x, x, x, x, x, x, x, x, x, x, x]"
  by (simp_all add: eval_nat_numeral)

lemmas wd_eval = wd_step_def wd_triggers_def wd_channels_def wd_stalled_def wd_pairs_def wd_fires_def wd_stall_next_def
  wd_pending_next_def wd_age_next_def set_channel_def wd_reset_def idle_input_def idle_bus_def replicate_state

lemma completion_passes: "\<exists>s. run_check check_completion = Inr s"
  by (simp add: run_check_def check_completion_def wd_init_def repeat_8 wd_eval Let_def latch_lanes lane_values [simplified])

lemma ila_passes: "check_ila (ila_probes width threshold) [''write_debug_probes -force o3_ila.ltx''] = Inr ()"
proof -
  have "length (ila_probes width threshold) = 26" using arg_cong [OF probe_names [of width threshold], of length] by simp
  moreover have "length wd_reason_names = 15" by code_simp
  ultimately show ?thesis unfolding check_ila_def probe_names Let_def by (simp add: py_assert_def)
qed

text \<open>The detector passes its own test, all of it: each of the fifteen reasons is raised by its stimulus, no earlier
  than the threshold says and alone, and stays up; the counters saturate; a retirement latches its last lane; a read is
  pending until its last beat and then raises nothing; and the analyser has the probes the test names.\<close>

theorem watchdog_test_passes: "check_watchdog width = Inr ()"
proof -
  obtain s where "run_check check_completion = Inr s" using completion_passes by blast
  then show ?thesis by (simp add: check_watchdog_def reasons_pass ila_passes)
qed

end
