(* ===== verification/Generated_Text.thy ===== *)
theory Generated_Text
  imports SoC_Build Batch_Runs
begin

text \<open>
  The files the build writes from the platform description, as text: the PMA package of
  \<open>scripts/gen_platform_pkg.py\<close>, the device tree of \<open>fpga/kcu105/gen_dts.py\<close>, the two upstream BIOS sources that
  \<open>litex_wrapper/o3/software.py\<close> rewrites, and the boot directory of \<open>fpga/kcu105/prepare_sd_boot.py\<close>. The hash of the
  configuration file, the upstream sources and the compiler are parameters.
\<close>

section \<open>Hexadecimal numbers\<close>

definition hex_char :: "nat \<Rightarrow> char" where
  "hex_char d = (if d < 10 then char_of (48 + d) else char_of (87 + d))"

fun hex_text :: "nat \<Rightarrow> string" where
  "hex_text n = (if n < 16 then [hex_char n] else hex_text (n div 16) @ [hex_char (n mod 16)])"

declare hex_text.simps [simp del]

text \<open>\<open>f"{n:0wx}"\<close>, padded with zeros to \<open>w\<close> digits.\<close>

definition hex_pad :: "nat \<Rightarrow> nat \<Rightarrow> string" where
  "hex_pad w n = replicate (w - length (hex_text n)) CHR ''0'' @ hex_text n"

definition hex_digit :: "char \<Rightarrow> nat" where
  "hex_digit c = (let n = char_code c in if n < 58 then n - 48 else n - 87)"

definition hex_value :: "string \<Rightarrow> nat" where
  "hex_value s = foldl (\<lambda>v c. 16 * v + hex_digit c) 0 s"

lemma hex_digit_char: "d < 16 \<Longrightarrow> hex_digit (hex_char d) = d"
  by (simp add: hex_digit_def hex_char_def char_code_def of_char_of)

lemma hex_value_snoc: "hex_value (s @ [c]) = 16 * hex_value s + hex_digit c"
  by (simp add: hex_value_def)

lemma hex_value_text: "hex_value (hex_text n) = n"
proof (induction n rule: hex_text.induct)
  case (1 n)
  show ?case
  proof (cases "n < 16")
    case True
    then show ?thesis using hex_value_snoc [of "[]" "hex_char n"] by (subst hex_text.simps) (simp add: hex_digit_char hex_value_def)
  next
    case False
    with 1 show ?thesis by (subst hex_text.simps) (simp add: hex_value_snoc hex_digit_char)
  qed
qed

lemma hex_text_length: "n < 16 ^ w \<Longrightarrow> 0 < w \<Longrightarrow> length (hex_text n) \<le> w"
proof (induction n arbitrary: w rule: hex_text.induct)
  case (1 n)
  show ?case
  proof (cases "n < 16")
    case True
    with 1(3) show ?thesis by (subst hex_text.simps) simp
  next
    case False
    then obtain v where v: "w = Suc v" "0 < v" using 1(2,3) by (cases w; cases "w - 1") auto
    then have "n div 16 < 16 ^ v" using 1(2) by (simp add: less_mult_imp_div_less)
    from 1(1) [OF False this v(2)] False v show ?thesis by (subst hex_text.simps) simp
  qed
qed

lemma hex_value_zeros: "hex_value (replicate k CHR ''0'' @ s) = hex_value s"
proof -
  have "hex_digit CHR ''0'' = 0" by code_simp
  then have "foldl (\<lambda>v c. 16 * v + hex_digit c) 0 (replicate k CHR ''0'') = 0" by (induction k) simp_all
  then show ?thesis by (simp add: hex_value_def)
qed

text \<open>A padded number has exactly the digits asked for, and they read back as the number.\<close>

lemma hex_pad_reads: "n < 16 ^ w \<Longrightarrow> 0 < w \<Longrightarrow> length (hex_pad w n) = w \<and> hex_value (hex_pad w n) = n"
  using hex_text_length [of n w] by (simp add: hex_pad_def hex_value_zeros hex_value_text)

text \<open>Text with \<open>`\<close> written for the double quote.\<close>

definition dq_text :: "string \<Rightarrow> string" where
  "dq_text s = map (\<lambda>c. if c = CHR 96 then CHR 34 else c) s"

definition text_lines :: "string list \<Rightarrow> string" where
  "text_lines ls = concat (map (\<lambda>l. l @ [newline]) ls)"

section \<open>The PMA package\<close>

definition upper_text :: "string \<Rightarrow> string" where
  "upper_text s = map upper_char s"

definition pkg_base_line :: "string \<Rightarrow> string \<Rightarrow> string" where
  "pkg_base_line name digits = ''    localparam logic [63:0] '' @ upper_text name @ ''_BASE = 64'h'' @ digits @ '';''"

definition pkg_end_line :: "string \<Rightarrow> string \<Rightarrow> string" where
  "pkg_end_line name digits = ''    localparam logic [64:0] '' @ upper_text name @ ''_END = 65'h'' @ digits @ '';''"

definition pkg_constants :: "pma_region \<Rightarrow> string list" where
  "pkg_constants r = [pkg_base_line (pr_name r) (hex_pad 16 (nat (pr_origin r))),
     pkg_end_line (pr_name r) (hex_pad 17 (nat (pr_origin r + pr_size r)))]"

definition bit_text :: "bool list \<Rightarrow> string" where
  "bit_text bits = map (\<lambda>b. if b then CHR ''1'' else CHR ''0'') bits"

definition pkg_attr_lines :: "string \<Rightarrow> string \<Rightarrow> string list" where
  "pkg_attr_lines name bits = [''        if(bytes>0 && addr>='' @ upper_text name @ ''_BASE && finish<='' @ upper_text name @ ''_END)'',
     ''            attr=8'b'' @ bits @ '';'']"

definition pkg_lines :: "string \<Rightarrow> pma_region list \<Rightarrow> string list" where
  "pkg_lines digest rs =
     [''// Generated by scripts/gen_platform_pkg.py; do not edit.'', ''// Platform SHA256: '' @ digest, ''package o3_platform_pkg;'',
      ''    typedef struct packed {'',
      ''        logic exists, readable, writable, executable, cacheable, device, amo, rsrv;'',
      ''    } pma_attr_t;''] @
     concat (map pkg_constants rs) @
     [''    function automatic pma_attr_t lookup(input logic [63:0] addr, input int unsigned bytes);'',
      ''        pma_attr_t attr; logic [64:0] finish;'',
      ''        attr='0; finish={1'b0,addr}+65'(bytes);''] @
     concat (map (\<lambda>r. pkg_attr_lines (pr_name r) (bit_text (pma_bits r))) rs) @
     [''        return attr;'', ''    endfunction'', ''endpackage'', []]"

definition render_pkg :: "string \<Rightarrow> platform \<Rightarrow> string py" where
  "render_pkg digest path = py_bind (load_platform path) (\<lambda>cfg. Inr (join_with [newline] (pkg_lines digest (pf_regions cfg))))"

text \<open>With \<open>--check\<close> the file must be what would be written; otherwise it is written. \<open>None\<close>: the exit with a message.\<close>

definition pkg_main :: "string \<Rightarrow> platform \<Rightarrow> bool \<Rightarrow> string option \<Rightarrow> string option py" where
  "pkg_main digest path check existing = py_bind (render_pkg digest path) (\<lambda>expected.
     Inr (if check then (if existing = Some expected then existing else None) else Some expected))"

lemma bit_text_reads: "map (\<lambda>c. c = CHR ''1'') (bit_text bits) = bits"
  by (induction bits) (simp_all add: bit_text_def)

lemma pkg_lines_regions:
  assumes "r \<in> set rs"
  shows "set (pkg_constants r) \<subseteq> set (pkg_lines digest rs)"
    "set (pkg_attr_lines (pr_name r) (bit_text (pma_bits r))) \<subseteq> set (pkg_lines digest rs)"
proof -
  have "set (pkg_constants r) \<subseteq> set (concat (map pkg_constants rs))"
    "set (pkg_attr_lines (pr_name r) (bit_text (pma_bits r))) \<subseteq>
      set (concat (map (\<lambda>r. pkg_attr_lines (pr_name r) (bit_text (pma_bits r))) rs))"
    using assms unfolding set_concat set_map by blast+
  then show "set (pkg_constants r) \<subseteq> set (pkg_lines digest rs)"
    "set (pkg_attr_lines (pr_name r) (bit_text (pma_bits r))) \<subseteq> set (pkg_lines digest rs)"
    unfolding pkg_lines_def set_append by blast+
qed



section \<open>One substitution\<close>

lemma re_match_at_text: "re_match_at r (before, s) = Some m \<Longrightarrow> \<exists>rest. s = rm_text m @ rest"
proof -
  assume "re_match_at r (before, s) = Some m"
  then obtain st where st: "st \<in> set (re_step r ((before, s), []))" "m = mk_match (before, s) st"
    by (auto simp: re_match_at_def split: list.splits)
  have "rm_text m = take (length s - length (snd (fst st))) s" using st(2) by (simp add: mk_match_def)
  then show ?thesis by (metis append_take_drop_id)
qed

lemma re_sub_none: "re_sub_from skip (Some 0) r f before s = drop skip s"
proof (induction s arbitrary: skip before)
  case (Cons c cs)
  then show ?case by (cases skip) simp_all
qed simp

text \<open>Replacing the first match puts the replacement in its place and changes nothing else.\<close>

lemma re_sub_first_from:
  "re_search_from r before s = Some m \<Longrightarrow> rm_text m \<noteq> [] \<Longrightarrow>
    \<exists>a b. s = a @ rm_text m @ b \<and> re_sub_from 0 (Some 1) r f before s = a @ f m @ b"
proof (induction r before s rule: re_search_from.induct)
  case (1 r before)
  from re_match_at_text [of r before "[]" m] 1 show ?case by simp
next
  case (2 r before c cs)
  show ?case
  proof (cases "re_match_at r (before, c # cs)")
    case None
    with 2(2) have "re_search_from r (c # before) cs = Some m" by simp
    from 2(1) [OF None this 2(3)] obtain a b where "cs = a @ rm_text m @ b"
      "re_sub_from 0 (Some 1) r f (c # before) cs = a @ f m @ b" by blast
    with None show ?thesis by (intro exI [of _ "c # a"] exI [of _ b]) simp
  next
    case (Some m')
    with 2(2) have m: "m' = m" by simp
    from re_match_at_text [OF Some] obtain rest where rest: "c # cs = rm_text m @ rest" using m by blast
    then have "cs = tl (rm_text m) @ rest" using 2(3) by (cases "rm_text m") auto
    then have "drop (length (rm_text m) - 1) cs = rest" by simp
    with Some m 2(3) have "re_sub_from 0 (Some 1) r f before (c # cs) = f m @ rest" by (simp add: re_sub_none)
    with rest have "c # cs = [] @ rm_text m @ rest \<and> re_sub_from 0 (Some 1) r f before (c # cs) = [] @ f m @ rest" by simp
    then show ?thesis by blast
  qed
qed

lemma re_sub_first_place:
  "re_search r s = Some m \<Longrightarrow> rm_text m \<noteq> [] \<Longrightarrow> \<exists>a b. s = a @ rm_text m @ b \<and> re_sub_first r f s = a @ f m @ b"
  unfolding re_search_def re_sub_first_def by (rule re_sub_first_from)

text \<open>Where a pattern matches only once, substitution everywhere is that replacement.\<close>

lemma re_sub_scan_none: "re_scan skip r before s = [] \<Longrightarrow> re_sub_from skip None r f before s = drop skip s"
  by (induction skip r before s rule: re_scan.induct) (auto split: option.splits if_splits)

lemma re_sub_scan_one:
  "re_scan skip r before s = [m] \<Longrightarrow>
    \<exists>a b. drop skip s = a @ rm_text m @ b \<and> re_sub_from skip None r f before s = a @ f m @ b"
proof (induction skip r before s rule: re_scan.induct)
  case (3 r before c cs)
  show ?case
  proof (cases "re_match_at r (before, c # cs)")
    case None
    with 3 obtain a b where "cs = a @ rm_text m @ b" "re_sub_from 0 None r f (c # before) cs = a @ f m @ b" by auto
    with None show ?thesis by (intro exI [of _ "c # a"] exI [of _ b]) simp
  next
    case (Some m')
    show ?thesis
    proof (cases "rm_text m' = []")
      case True
      with 3 Some obtain a b where "cs = a @ rm_text m @ b" "re_sub_from 0 None r f (c # before) cs = a @ f m @ b" by auto
      with Some True show ?thesis by (intro exI [of _ "c # a"] exI [of _ b]) simp
    next
      case False
      with 3(4) Some have m: "m' = m" and none: "re_scan (length (rm_text m) - 1) r (c # before) cs = []" by auto
      from re_match_at_text [OF Some] obtain rest where rest: "c # cs = rm_text m @ rest" using m by blast
      then have "cs = tl (rm_text m) @ rest" using False m by (cases "rm_text m") auto
      then have "drop (length (rm_text m) - 1) cs = rest" by simp
      with re_sub_scan_none [OF none] Some False m have "re_sub_from 0 None r f before (c # cs) = f m @ rest" by simp
      with rest have "drop 0 (c # cs) = [] @ rm_text m @ rest \<and> re_sub_from 0 None r f before (c # cs) = [] @ f m @ rest" by simp
      then show ?thesis by blast
    qed
  qed
qed auto

lemma re_sub_once: "re_findall r s = [m] \<Longrightarrow> \<exists>a b. s = a @ rm_text m @ b \<and> re_sub r f s = a @ f m @ b"
  using re_sub_scan_one [of 0 r "[]" s m f] by (simp add: re_findall_def re_sub_def)

lemma str_find_least: "str_find pat s = Some k \<Longrightarrow> j < k \<Longrightarrow> \<not> str_prefix pat (drop j s)"
proof (induction pat s arbitrary: j k rule: str_find.induct)
  case (2 pat c cs)
  show ?case
  proof (cases j)
    case 0
    with 2 show ?thesis by (auto split: if_splits)
  next
    case (Suc i)
    with 2 show ?thesis by (auto split: if_splits)
  qed
qed (auto split: if_splits)


text \<open>What is matched, as a text the pattern accepts.\<close>

lemma re_match_at_accepts:
  assumes "re_match_at r (before, s) = Some m"
  obtains rest where "s = rm_text m @ rest" "re_accepts r (before, s) (rev (rm_text m) @ before, rest)"
proof -
  from assms obtain st where st: "st \<in> set (re_step r ((before, s), []))" "m = mk_match (before, s) st"
    by (auto simp: re_match_at_def split: list.splits)
  from re_step_sound [OF st(1)] have a: "re_accepts r (before, s) (fst st)" by simp
  from re_accepts_moves [OF a] obtain w where w: "s = w @ snd (fst st)" "fst (fst st) = rev w @ before" by (auto simp: moves_def)
  then have "rm_text m = w" using st(2) by (simp add: mk_match_def)
  with w a show thesis by (intro that [of "snd (fst st)"]) (simp_all add: prod_eq_iff [symmetric], metis prod.collapse)
qed

lemma re_scan_place: "m \<in> set (re_scan skip r before s) \<Longrightarrow> \<exists>b' s'. re_match_at r (b', s') = Some m"
proof (induction skip r before s rule: re_scan.induct)
  case (3 r before c cs)
  show ?case
  proof (cases "re_match_at r (before, c # cs)")
    case (Some m')
    with 3 show ?thesis by (cases "rm_text m' = []") auto
  qed (use 3 in auto)
qed auto

lemma str_pattern_text:
  assumes "re_findall (Seq Bnd (str_re w)) s = [m]"
  shows "rm_text m = w"
proof -
  from assms have "m \<in> set (re_scan 0 (Seq Bnd (str_re w)) [] s)" by (simp add: re_findall_def)
  from re_scan_place [OF this] obtain b' s' where "re_match_at (Seq Bnd (str_re w)) (b', s') = Some m" by blast
  then obtain rest where r: "s' = rm_text m @ rest" "re_accepts (Seq Bnd (str_re w)) (b', s') (rev (rm_text m) @ b', rest)"
    by (rule re_match_at_accepts)
  from r(2) have "re_accepts (str_re w) (b', s') (rev (rm_text m) @ b', rest)" by (auto elim!: re_accepts_cases)
  with r(1) show ?thesis by (simp add: re_accepts_str_re)
qed

text \<open>A match of a pattern that begins with a fixed text and ends with a fixed character.\<close>

lemma framed_match:
  assumes "re_accepts (Seq (str_re w) (Seq r (lit c))) (b, s) (rev t @ b, rest)" "w \<noteq> []"
  shows "str_prefix w t \<and> t \<noteq> [] \<and> last t = c"
proof -
  from assms(1) obtain x z where a: "re_accepts (str_re w) (b, s) x" "re_accepts r x z"
    "re_accepts (lit c) z (rev t @ b, rest)" by (auto elim!: re_accepts_cases)
  from a(1) have x: "fst x = rev w @ b" by (simp add: re_accepts_str_re)
  from re_accepts_moves [OF a(2)] obtain v where z: "fst z = rev v @ fst x" by (auto simp: moves_def)
  from a(3) have "rev t @ b = c # fst z" by (auto simp: lit_def accepts_Cls)
  then have "rev t = c # rev v @ rev w" using x z by simp
  then have "t = w @ v @ [c]" by (metis append.assoc rev.simps(2) rev_append rev_swap rev_rev_ident)
  then show ?thesis by (simp add: str_prefix_iff)
qed

lemma framed_match_wide:
  assumes "re_accepts (Seq (str_re w) (Seq p (Seq u (Seq r (Seq q (lit c)))))) (b, s) (rev t @ b, rest)" "w \<noteq> []"
  shows "str_prefix w t \<and> t \<noteq> [] \<and> last t = c"
proof -
  have "re_accepts (Seq (str_re w) (Seq (Seq p (Seq u (Seq r q))) (lit c))) (b, s) (rev t @ b, rest)"
    using assms(1) by (auto elim!: re_accepts_cases(3) intro!: acc_seq)
  then show ?thesis using assms(2) by (rule framed_match)
qed

section \<open>The BIOS sources\<close>

definition plic_guard :: string where
  "plic_guard = ''#if defined(__riscv_plic__)'' @ [newline]"

definition plic_init_re :: re where
  "plic_init_re = seqs [str_re ''void plic_init(void)'', spaces, lit CHR ''{'', Star False (Cls (\<lambda>_. True)), lit newline, lit CHR ''}'']"

definition plic_body :: string where
  "plic_body = join_with [newline]
    [''void plic_init(void)'', ''{'', ''    for (unsigned int i = 1; i <= O3_PLIC_NUM_SOURCES; ++i)'',
     ''        ((volatile unsigned int *)PLIC_BASE)[i] = (O3_PLIC_MASK & (1U << i)) ? 1 : 0;'',
     ''    *((volatile unsigned int *)PLIC_ENABLED) = O3_PLIC_MASK;'',
     ''    *((volatile unsigned int *)PLIC_THRSHLD) = 0;'', ''}'']"

text \<open>\<open>libbase/isr.c\<close>: the function is replaced in the section of the generic PLIC only.\<close>

definition isr_patch :: "string \<Rightarrow> string py" where
  "isr_patch source = py_bind (str_index source plic_guard 0) (\<lambda>begin.
     py_bind (str_index source ''#elif'' begin) (\<lambda>stop.
     let part = take (stop - begin) (drop begin source) in
     case re_search plic_init_re part of None \<Rightarrow> Inl RuntimeError
     | Some m \<Rightarrow> Inr (take begin source @ re_sub_first plic_init_re (\<lambda>_. plic_body) part @ drop stop source)))"

definition switch_status_re :: re where
  "switch_status_re = seqs [str_re ''static uint8_t sdcard_switch_status[64]'', Star False (Cls dot), lit CHR '';'']"

definition switch_status_define :: "nat \<Rightarrow> string" where
  "switch_status_define scratch =
     ''#define sdcard_switch_status ((uint8_t *)(uintptr_t)0x'' @ hex_text (scratch + 0x200) @ ''UL)''"

definition sd_signature :: "string \<Rightarrow> string" where
  "sd_signature name = ''int sdcard_'' @ name @ ''(uint32_t block, uint32_t count, uint8_t* buf)''"

definition sd_direct :: "string \<Rightarrow> string" where
  "sd_direct name = ''static int o3_sdcard_'' @ name @ ''_direct(uint32_t block, uint32_t count, uint8_t* buf)''"

text \<open>\<open>re.subn\<close>, which must have replaced exactly one match.\<close>

definition subn_one :: "re \<Rightarrow> string \<Rightarrow> string \<Rightarrow> string py" where
  "subn_one r repl s = (if length (re_findall r s) = 1 then Inr (re_sub r (\<lambda>_. repl) s) else Inl RuntimeError)"

text \<open>\<open>text.rfind(pat, 0, at)\<close>, which is \<open>-1\<close> when there is none; a negative index then counts from the end.\<close>

definition str_rfind :: "string \<Rightarrow> string \<Rightarrow> int" where
  "str_rfind pat s = (case str_find (rev pat) (rev s) of None \<Rightarrow> - 1 | Some k \<Rightarrow> int (length s - k - length pat))"

definition slice_index :: "int \<Rightarrow> string \<Rightarrow> nat" where
  "slice_index i s = (if i < 0 then length s - nat (- i) else nat i)"

definition sd_wrapper :: string where
  "sd_wrapper = newline # dq_text (text_lines
    [''static int o3_sdcard_transfer(uint32_t block, uint32_t count, uint8_t *buf, int write)'', ''{'',
     ''    uintptr_t start = (uintptr_t)buf;'',
     ''    uint64_t finish = (uint64_t)start + (uint64_t)count * 512;'',
     ''    uint8_t *bounce = (uint8_t *)(uintptr_t)O3_SD_SCRATCH_BASE;'',
     ''    if (count == 0) return SD_OK;'',
     ''    if (start >= MAIN_RAM_BASE && finish <= (uint64_t)MAIN_RAM_BASE + MAIN_RAM_SIZE && !(start & 7)) {'',
     ''        __asm__ __volatile__(`fence rw, rw` ::: `memory`);'',
     ''        int status = write ? o3_sdcard_write_direct(block, count, buf) : o3_sdcard_read_direct(block, count, buf);'',
     ''        __asm__ __volatile__(`fence rw, rw` ::: `memory`);'',
     ''        return status;'', ''    }'',
     ''    while (count--) {'',
     ''        if (write) memcpy(bounce, buf, 512);'',
     ''        __asm__ __volatile__(`fence rw, rw` ::: `memory`);'',
     ''        int status = write ? o3_sdcard_write_direct(block, 1, bounce) : o3_sdcard_read_direct(block, 1, bounce);'',
     ''        __asm__ __volatile__(`fence rw, rw` ::: `memory`);'',
     ''        if (status != SD_OK) return status;'',
     ''        if (!write) memcpy(buf, bounce, 512);'',
     ''        ++block; buf += 512;'', ''    }'', ''    return SD_OK;'', ''}'',
     ''int sdcard_read(uint32_t block, uint32_t count, uint8_t *buf)'',
     ''{ return o3_sdcard_transfer(block, count, buf, 0); }'',
     ''int sdcard_write(uint32_t block, uint32_t count, uint8_t *buf)'',
     ''{ return o3_sdcard_transfer(block, count, buf, 1); }'', []])"

text \<open>\<open>liblitesdcard/sdcard.c\<close>: the status array moves to the scratch page, the two transfer functions get another name,
  and the wrapper goes in front of the comment before the file system functions.\<close>

definition sd_insert :: "string \<Rightarrow> string py" where
  "sd_insert s = py_bind (str_index s ''/* SDCard FatFs disk functions'' 0) (\<lambda>marker.
     let at = slice_index (str_rfind ''/*---'' (take marker s)) s in Inr (take at s @ sd_wrapper @ drop at s))"

definition sd_patch :: "nat \<Rightarrow> string \<Rightarrow> string py" where
  "sd_patch scratch source =
     py_bind (subn_one switch_status_re (switch_status_define scratch) source) (\<lambda>moved.
     let sized = str_replace ''sizeof(sdcard_switch_status)'' ''64'' moved in
     py_bind (subn_one (Seq Bnd (str_re (sd_signature ''read''))) (sd_direct ''read'') sized) (\<lambda>first.
     py_bind (subn_one (Seq Bnd (str_re (sd_signature ''write''))) (sd_direct ''write'') first) (\<lambda>second.
       sd_insert second)))"

text \<open>The interrupt initialisation is rewritten inside the section of the generic PLIC and nowhere else: the file is the
  upstream file with one function of that section - it stands behind the guard and before the next \<open>#elif\<close> -
  replaced by the new one.\<close>

theorem isr_patch_local:
  assumes "isr_patch source = Inr out"
  shows "\<exists>pre a old b post. source = pre @ a @ old @ b @ post \<and> out = pre @ a @ plic_body @ b @ post \<and>
    str_prefix plic_guard (a @ old @ b @ post) \<and> str_prefix ''#elif'' post \<and>
    (\<forall>j < length (a @ old @ b). \<not> str_prefix ''#elif'' (drop j (a @ old @ b @ post))) \<and>
    str_prefix ''void plic_init(void)'' old \<and> last old = CHR ''}''"
proof -
  from assms obtain k n m where k: "str_find plic_guard source = Some k"
    and n: "str_find ''#elif'' (drop k source) = Some n"
    and m: "re_search plic_init_re (take n (drop k source)) = Some m"
    and out: "out = take k source @ re_sub_first plic_init_re (\<lambda>_. plic_body) (take n (drop k source)) @ drop (k + n) source"
    unfolding isr_patch_def str_index_def by (auto simp: Let_def split: option.splits)
  let ?part = "take n (drop k source)" and ?post = "drop (k + n) source"
  from re_search_place [OF m] obtain x y where "re_match_at plic_init_re (rev x, y) = Some m" by blast
  then obtain rest where "re_accepts plic_init_re (rev x, y) (rev (rm_text m) @ rev x, rest)" "y = rm_text m @ rest"
    by (rule re_match_at_accepts)
  then have shape: "str_prefix ''void plic_init(void)'' (rm_text m) \<and> rm_text m \<noteq> [] \<and> last (rm_text m) = CHR ''}''"
    unfolding plic_init_re_def seqs.simps by (intro framed_match_wide) simp_all
  with re_sub_first_place [OF m] obtain a b where p: "?part = a @ rm_text m @ b"
    "re_sub_first plic_init_re (\<lambda>_. plic_body) ?part = a @ plic_body @ b" by blast
  have "drop k source = ?part @ ?post" by (metis add.commute append_take_drop_id drop_drop)
  with p(1) have rest: "drop k source = a @ rm_text m @ b @ ?post" by simp
  have split: "source = take k source @ a @ rm_text m @ b @ ?post" using append_take_drop_id [of k source] rest by simp
  have new: "out = take k source @ a @ plic_body @ b @ ?post" using out p(2) by simp
  from str_find_Some [OF k] have "str_prefix plic_guard (drop k source)" by auto
  then have guard: "str_prefix plic_guard (a @ rm_text m @ b @ ?post)" using rest by simp
  from str_find_Some [OF n] obtain u v where uv: "drop k source = u @ ''#elif'' @ v" "length u = n" by blast
  have "?post = drop n (drop k source)" by (simp add: add.commute)
  then have "?post = ''#elif'' @ v" using uv by simp
  then have post: "str_prefix ''#elif'' ?post" by (simp only: str_prefix_append)
  from uv have "length ?part = n" by simp
  then have len: "length (a @ rm_text m @ b) = n" using p(1) by simp
  have least: "\<not> str_prefix ''#elif'' (drop j (a @ rm_text m @ b @ ?post))" if "j < n" for j
    using str_find_least [OF n that] rest by simp
  show ?thesis
    by (rule exI [of _ "take k source"], rule exI [of _ a], rule exI [of _ "rm_text m"], rule exI [of _ b], rule exI [of _ ?post])
      (intro conjI split new guard post allI impI least shape [THEN conjunct1] shape [THEN conjunct2, THEN conjunct2], simp only: len)
qed


text \<open>One place of a text replaced.\<close>

definition replaced_once :: "string \<Rightarrow> string \<Rightarrow> string \<Rightarrow> string \<Rightarrow> bool" where
  "replaced_once old new s t \<longleftrightarrow> (\<exists>a b. s = a @ old @ b \<and> t = a @ new @ b)"

lemma subn_one_replaces:
  assumes "subn_one r new s = Inr t"
  obtains m where "re_findall r s = [m]" "replaced_once (rm_text m) new s t"
proof -
  from assms have "length (re_findall r s) = 1" and t: "t = re_sub r (\<lambda>_. new) s"
    by (auto simp: subn_one_def split: if_splits)
  then obtain m where m: "re_findall r s = [m]" by (auto simp: length_Suc_conv)
  from re_sub_once [OF m, of "\<lambda>_. new"] t have "replaced_once (rm_text m) new s t" by (auto simp: replaced_once_def)
  with m that show thesis by blast
qed

lemma switch_status_text:
  assumes "re_findall switch_status_re s = [m]"
  shows "str_prefix ''static uint8_t sdcard_switch_status[64]'' (rm_text m) \<and> last (rm_text m) = CHR '';''"
proof -
  from assms have "m \<in> set (re_scan 0 switch_status_re [] s)" by (simp add: re_findall_def)
  from re_scan_place [OF this] obtain b' s' where "re_match_at switch_status_re (b', s') = Some m" by blast
  then obtain rest where "re_accepts switch_status_re (b', s') (rev (rm_text m) @ b', rest)"
    by (rule re_match_at_accepts)
  then have "str_prefix ''static uint8_t sdcard_switch_status[64]'' (rm_text m) \<and> rm_text m \<noteq> [] \<and> last (rm_text m) = CHR '';''"
    unfolding switch_status_re_def seqs.simps by (intro framed_match) simp_all
  then show ?thesis by blast
qed

text \<open>The card driver that is built is the upstream one with four edits: the status array, found once, is defined onto the
  scratch page, its size is written out, each of the two transfer functions, found once, is renamed, and the new
  functions are inserted in one place.\<close>

theorem sd_patch_edits:
  assumes "sd_patch scratch source = Inr out"
  shows "\<exists>decl moved first second front back.
    str_prefix ''static uint8_t sdcard_switch_status[64]'' decl \<and> last decl = CHR '';'' \<and>
    replaced_once decl (switch_status_define scratch) source moved \<and>
    replaced_once (sd_signature ''read'') (sd_direct ''read'') (str_replace ''sizeof(sdcard_switch_status)'' ''64'' moved) first \<and>
    replaced_once (sd_signature ''write'') (sd_direct ''write'') first second \<and>
    second = front @ back \<and> out = front @ sd_wrapper @ back"
proof -
  from assms obtain moved first second where
    m: "subn_one switch_status_re (switch_status_define scratch) source = Inr moved" and
    r: "subn_one (Seq Bnd (str_re (sd_signature ''read''))) (sd_direct ''read'') (str_replace ''sizeof(sdcard_switch_status)'' ''64'' moved) = Inr first"
    and w: "subn_one (Seq Bnd (str_re (sd_signature ''write''))) (sd_direct ''write'') first = Inr second"
    and i: "sd_insert second = Inr out"
    unfolding sd_patch_def Let_def by (elim bind_InrE) blast
  from m obtain d where d: "re_findall switch_status_re source = [d]"
    "replaced_once (rm_text d) (switch_status_define scratch) source moved" by (rule subn_one_replaces)
  note decl = switch_status_text [OF d(1)]
  from r obtain x where x: "re_findall (Seq Bnd (str_re (sd_signature ''read''))) (str_replace ''sizeof(sdcard_switch_status)'' ''64'' moved) = [x]"
    "replaced_once (rm_text x) (sd_direct ''read'') (str_replace ''sizeof(sdcard_switch_status)'' ''64'' moved) first"
    by (rule subn_one_replaces)
  from w obtain y where y: "re_findall (Seq Bnd (str_re (sd_signature ''write''))) first = [y]"
    "replaced_once (rm_text y) (sd_direct ''write'') first second" by (rule subn_one_replaces)
  from i obtain at where "out = take at second @ sd_wrapper @ drop at second"
    unfolding sd_insert_def Let_def by (elim bind_InrE) (simp only: sum.inject(2), metis)
  moreover have "second = take at second @ drop at second" by simp
  ultimately show ?thesis
    using decl d(2) x(2) [unfolded str_pattern_text [OF x(1)]] y(2) [unfolded str_pattern_text [OF y(1)]] by blast
qed


section \<open>The device tree\<close>

text \<open>\<open>json.dumps\<close> of a text.\<close>

definition json_char :: "char \<Rightarrow> string" where
  "json_char c = (let n = char_code c in
     if n = 34 then [CHR 92, CHR 34] else if n = 92 then [CHR 92, CHR 92]
     else if n = 10 then [CHR 92, CHR ''n''] else if n = 13 then [CHR 92, CHR ''r''] else if n = 9 then [CHR 92, CHR ''t'']
     else if n = 8 then [CHR 92, CHR ''b''] else if n = 12 then [CHR 92, CHR ''f'']
     else if n < 32 \<or> 126 < n then CHR 92 # CHR ''u'' # hex_pad 4 n else [c])"

definition json_text :: "string \<Rightarrow> string" where
  "json_text s = [CHR 34] @ concat (map json_char s) @ [CHR 34]"

text \<open>What the tree takes from the configuration beside the platform; the scratch page is copied as it is written there.\<close>

record dts_config =
  dt_mtime_hz :: int
  dt_clock_hz :: int
  dt_scratch :: string
  dt_scratch_size :: string

definition reg_text :: "int \<Rightarrow> int \<Rightarrow> string" where
  "reg_text addr sz = ''<0 0x'' @ hex_text (nat addr) @ '' 0 0x'' @ hex_text (nat sz) @ ''>''"

definition sd_regs :: "(int \<times> int) list \<Rightarrow> string" where
  "sd_regs sd = join_with '', '' (map (\<lambda>(addr, sz). reg_text addr sz) sd)"

definition dts_cpus :: "dts_config \<Rightarrow> string \<Rightarrow> string list" where
  "dts_cpus d bootargs =
     [''/dts-v1/;'',
      ''/ {'',
      ''    #address-cells = <2>; #size-cells = <2>;'',
      dq_text ''    compatible = `cislc,o3-litex`, `litex,soc`;'',
      dq_text ''    model = `CISLC O3 single-hart KCU105 DDR4 SD`;'',
      ''    aliases { serial0 = &uart0; mmc0 = &sdcard; };'',
      dq_text ''    chosen { stdout-path = `serial0`; bootargs = '' @ bootargs @ ''; };'',
      ''    cpus {'',
      ''        #address-cells = <1>; #size-cells = <0>;'',
      ''        timebase-frequency = <'' @ py_str (dt_mtime_hz d) @ ''>;'',
      ''        cpu0: cpu@0 {'',
      dq_text ''            device_type = `cpu`; reg = <0>; compatible = `riscv`;'',
      dq_text ''            status = `okay`; clock-frequency = <'' @ py_str (dt_clock_hz d) @ ''>;'',
      dq_text ''            riscv,isa = `rv64imafdc_zicsr_zifencei_zihpm_sstc_sscofpmf`;'',
      dq_text ''            mmu-type = `riscv,sv39`;'',
      ''            cpu0_intc: interrupt-controller {'',
      ''                #address-cells = <0>; #interrupt-cells = <1>;'',
      dq_text ''                interrupt-controller; compatible = `riscv,cpu-intc`;'',
      ''            };'',
      ''        };'',
      ''    };'']"

definition dts_memory :: "dts_config \<Rightarrow> string \<Rightarrow> string list" where
  "dts_memory d ram =
     [dq_text ''    memory@80000000 { device_type = `memory`; reg = '' @ ram @ ''; };'',
      ''    reserved-memory {'',
      ''        #address-cells = <2>; #size-cells = <2>; ranges;'',
      ''        sd-bios-scratch@fffff000 { reg = <0 '' @ dt_scratch d @ '' 0 '' @ dt_scratch_size d @ ''>; no-map; };'',
      ''    };'',
      dq_text ''    sys_clk: clock { compatible = `fixed-clock`; #clock-cells = <0>; clock-frequency = <'' @ py_str (dt_clock_hz d) @ ''>; };'',
      dq_text ''    vreg_mmc: regulator { compatible = `regulator-fixed`; regulator-name = `sd-3v3`;'']"

definition dts_soc :: "platform \<Rightarrow> string \<Rightarrow> string \<Rightarrow> (int \<times> int) list \<Rightarrow> int \<Rightarrow> int \<Rightarrow> int \<Rightarrow> string list" where
  "dts_soc cfg timer plic sd uart uart_irq sd_irq =
     [''        regulator-min-microvolt = <3300000>; regulator-max-microvolt = <3300000>; regulator-always-on; };'',
      ''    soc {'',
      dq_text ''        #address-cells = <2>; #size-cells = <2>; compatible = `simple-bus`; ranges;'',
      dq_text ''        timer@2000000 { compatible = `riscv,clint0`; reg = '' @ timer @ '';'',
      ''            interrupts-extended = <&cpu0_intc 3 &cpu0_intc 7>; };'',
      ''        plic: interrupt-controller@c000000 {'',
      ''            #address-cells = <0>; #interrupt-cells = <1>; interrupt-controller;'',
      dq_text ''            compatible = `riscv,plic0`; reg = '' @ plic @ '';'',
      ''            riscv,ndev = <'' @ py_str (pf_num_sources cfg) @ ''>; riscv,max-priority = <7>;'',
      ''            interrupts-extended = <&cpu0_intc 11 &cpu0_intc 9>;'',
      ''        };'',
      ''        uart0: serial@'' @ hex_text (nat uart) @ dq_text '' { compatible = `litex,liteuart`; reg = <0 0x'' @ hex_text (nat uart) @ '' 0 0x100>;'',
      ''            interrupt-parent = <&plic>; interrupts = <'' @ py_str uart_irq @ dq_text ''>; status = `okay`; };'',
      ''        sdcard: mmc@'' @ hex_text (nat (fst (hd sd))) @ '' {'',
      dq_text ''            compatible = `litex,mmc`; reg = '' @ sd_regs sd @ '';'',
      dq_text ''            reg-names = `phy`, `core`, `reader`, `writer`, `irq`;'',
      ''            clocks = <&sys_clk>; vmmc-supply = <&vreg_mmc>;'',
      ''            interrupt-parent = <&plic>; interrupts = <'' @ py_str sd_irq @ ''>;'',
      ''            bus-width = <4>; max-frequency = <5000000>; dma-coherent;'',
      dq_text ''            status = `okay`;'',
      ''        };'',
      ''    };'',
      ''};'']"

text \<open>\<open>registers\<close> and \<open>bases\<close> are the addresses of the generated register map.\<close>

definition render_dts :: "platform \<Rightarrow> dts_config \<Rightarrow> (string \<times> int) list \<Rightarrow> (string \<times> int) list \<Rightarrow> string \<Rightarrow> string py" where
  "render_dts file d registers bases bootargs =
     py_bind (load_platform file) (\<lambda>cfg.
     py_bind (sd_check registers) (\<lambda>sd.
     py_bind (py_key (map_of bases ''uart'')) (\<lambda>uart.
     py_bind (get_region cfg ''main_ram'') (\<lambda>ram.
     py_bind (get_region cfg ''machine_timer'') (\<lambda>timer.
     py_bind (get_region cfg ''plic'') (\<lambda>plic.
     py_bind (py_key (irq_map cfg ''uart'')) (\<lambda>uart_irq.
     py_bind (py_key (irq_map cfg ''sdcard'')) (\<lambda>sd_irq.
     let reg = (\<lambda>r. reg_text (pr_origin r) (pr_size r)) in
       Inr (text_lines (dts_cpus d (json_text bootargs) @ dts_memory d (reg ram) @
         dts_soc cfg (reg timer) (reg plic) sd uart uart_irq sd_irq))))))))))"

lemma text_lines_member: "l \<in> set ls \<Longrightarrow> str_in (l @ [newline]) (text_lines ls)"
proof -
  assume "l \<in> set ls"
  then obtain a b where "ls = a @ l # b" by (auto simp: in_set_conv_decomp)
  then have "text_lines ls = text_lines a @ (l @ [newline]) @ text_lines b" by (simp add: text_lines_def)
  then show ?thesis unfolding str_in_iff by blast
qed

text \<open>The two numbers of a register property read back as the address and the size.\<close>

definition describes :: "string \<Rightarrow> int \<Rightarrow> int \<Rightarrow> bool" where
  "describes txt addr sz \<longleftrightarrow> (\<exists>a n. txt = ''<0 0x'' @ a @ '' 0 0x'' @ n @ ''>'' \<and> int (hex_value a) = addr \<and> int (hex_value n) = sz)"

lemma describes_reg: "0 \<le> addr \<Longrightarrow> 0 \<le> sz \<Longrightarrow> describes (reg_text addr sz) addr sz"
  unfolding describes_def reg_text_def
  by (rule exI [of _ "hex_text (nat addr)"], rule exI [of _ "hex_text (nat sz)"]) (simp add: hex_value_text)


lemma get_region_ok:
  assumes "load_platform cfg = Inr cfg'" "get_region cfg name = Inr r"
  shows "platform_regions cfg name = Some r" "0 \<le> pr_origin r" "0 \<le> pr_size r"
proof -
  show look: "platform_regions cfg name = Some r" using assms(2) by (simp add: get_region_def split: option.splits)
  then have "r \<in> set (pf_regions cfg)" unfolding platform_regions_def by (auto dest!: map_of_SomeD)
  moreover from assms(1) have "check_regions (pf_regions cfg) = Inr ()" by (rule load_platform_Inr)
  ultimately have "region_ok r" using check_regions_ok by blast
  then show "0 \<le> pr_origin r" "0 \<le> pr_size r" by (simp_all add: region_ok_def)
qed

text \<open>A device tree that is written describes the platform: memory, timer and interrupt controller have the address and
  the size of their regions, and every register of the card controller lies in the range the tree gives its block.\<close>

theorem dts_describes:
  assumes "render_dts file d registers bases bootargs = Inr out"
  shows "\<exists>r t p ram timer plic sd. platform_regions file ''main_ram'' = Some r \<and> platform_regions file ''machine_timer'' = Some t \<and>
    platform_regions file ''plic'' = Some p \<and> describes ram (pr_origin r) (pr_size r) \<and> describes timer (pr_origin t) (pr_size t) \<and>
    describes plic (pr_origin p) (pr_size p) \<and>
    str_in (dq_text ''    memory@80000000 { device_type = `memory`; reg = '' @ ram @ ''; };'' @ [newline]) out \<and>
    str_in (dq_text ''        timer@2000000 { compatible = `riscv,clint0`; reg = '' @ timer @ '';'' @ [newline]) out \<and>
    str_in (dq_text ''            compatible = `riscv,plic0`; reg = '' @ plic @ '';'' @ [newline]) out \<and>
    str_in (dq_text ''            compatible = `litex,mmc`; reg = '' @ sd_regs sd @ '';'' @ [newline]) out \<and> length sd = 5 \<and>
    (\<forall>k < 5. \<forall>q \<in> set registers. starts_with (fst (sd_blocks ! k)) (fst q) \<longrightarrow>
       fst (sd ! k) \<le> snd q \<and> snd q < fst (sd ! k) + snd (sd ! k))"
proof -
  from assms obtain cfg sd uart r t p ui si where load: "load_platform file = Inr cfg" and sd: "sd_check registers = Inr sd"
    and g: "get_region cfg ''main_ram'' = Inr r" "get_region cfg ''machine_timer'' = Inr t" "get_region cfg ''plic'' = Inr p"
    and out: "out = text_lines (dts_cpus d (json_text bootargs) @ dts_memory d (reg_text (pr_origin r) (pr_size r)) @
         dts_soc cfg (reg_text (pr_origin t) (pr_size t)) (reg_text (pr_origin p) (pr_size p)) sd uart ui si)"
    unfolding render_dts_def Let_def by (elim bind_InrE) (simp only: sum.inject(2), blast)
  from load have c: "cfg = file" by (rule load_platform_Inr) simp
  note r = get_region_ok [OF load g(1) [unfolded c]] and t = get_region_ok [OF load g(2) [unfolded c]]
    and p = get_region_ok [OF load g(3) [unfolded c]]
  let ?m = "reg_text (pr_origin r) (pr_size r)" and ?t = "reg_text (pr_origin t) (pr_size t)" and ?p = "reg_text (pr_origin p) (pr_size p)"
  have "dq_text ''    memory@80000000 { device_type = `memory`; reg = '' @ ?m @ ''; };'' \<in> set (dts_memory d ?m)"
    unfolding dts_memory_def by (simp only: list.set insert_iff append.simps append_assoc) blast
  moreover have "dq_text ''        timer@2000000 { compatible = `riscv,clint0`; reg = '' @ ?t @ '';'' \<in> set (dts_soc cfg ?t ?p sd uart ui si)"
    "dq_text ''            compatible = `riscv,plic0`; reg = '' @ ?p @ '';'' \<in> set (dts_soc cfg ?t ?p sd uart ui si)"
    "dq_text ''            compatible = `litex,mmc`; reg = '' @ sd_regs sd @ '';'' \<in> set (dts_soc cfg ?t ?p sd uart ui si)"
    unfolding dts_soc_def by (simp_all only: list.set insert_iff) blast+
  ultimately have lines: "str_in ((dq_text ''    memory@80000000 { device_type = `memory`; reg = '' @ ?m @ ''; };'') @ [newline]) out"
    "str_in ((dq_text ''        timer@2000000 { compatible = `riscv,clint0`; reg = '' @ ?t @ '';'') @ [newline]) out"
    "str_in ((dq_text ''            compatible = `riscv,plic0`; reg = '' @ ?p @ '';'') @ [newline]) out"
    "str_in ((dq_text ''            compatible = `litex,mmc`; reg = '' @ sd_regs sd @ '';'') @ [newline]) out"
    unfolding out by (intro text_lines_member; simp only: set_append Un_iff; blast)+
  have five: "length sd = 5"
  proof -
    from sd have "sd_ranges registers = Inr sd" by (auto simp: sd_check_def py_bind_Inr_iff)
    from py_map_Inr [OF this [unfolded sd_ranges_def]] show ?thesis by (simp add: sd_blocks_def)
  qed
  have "fst (sd ! k) \<le> snd q \<and> snd q < fst (sd ! k) + snd (sd ! k)"
    if "k < 5" "q \<in> set registers" "starts_with (fst (sd_blocks ! k)) (fst q)" for k q
    using sd_check_covers [OF sd, of "fst q" "snd q" k] that by simp
  with r t p lines five show ?thesis unfolding append_assoc
    by (intro exI [of _ r] exI [of _ t] exI [of _ p] exI [of _ ?m] exI [of _ ?t] exI [of _ ?p] exI [of _ sd] conjI describes_reg) blast+
qed

section \<open>The boot directory\<close>

text \<open>\<open>hex(addr)\<close>\<close>

definition hex_of :: "int \<Rightarrow> string" where
  "hex_of n = ''0x'' @ hex_text (nat n)"

definition boot_map :: "(string \<times> string) list" where
  "boot_map = map (\<lambda>(name, addr, limit). (name, hex_of addr)) boot_files @ [(''handoff.bin'', ''0x80080000''), (''addr'', ''0x80080000'')]"

definition handoff_commands :: "string \<Rightarrow> string \<Rightarrow> string \<Rightarrow> string list list" where
  "handoff_commands cross source out =
     [[cross @ ''gcc'', ''-march=rv64im_zicsr_zifencei'', ''-mabi=lp64'', ''-nostdlib'', ''-nostartfiles'', ''-Wl,--no-relax'', ''-T'',
       source @ ''/handoff.ld'', source @ ''/handoff.S'', ''-o'', out @ ''/handoff.elf''],
      [cross @ ''objcopy'', ''-O'', ''binary'', out @ ''/handoff.elf'', out @ ''/handoff.bin'']]"

text \<open>The files the directory then holds and the load map; \<open>None\<close> when the program stops. \<open>fresh\<close>: the directory did not
  exist.\<close>

definition prepare_boot :: "(string list \<Rightarrow> int) \<Rightarrow> bool \<Rightarrow> string \<Rightarrow> string \<Rightarrow> string \<Rightarrow> int option list \<Rightarrow> int list \<Rightarrow>
    (string list \<times> (string \<times> string) list) option" where
  "prepare_boot exec fresh cross source out sizes dtb =
     (if \<not> boot_check sizes dtb then None else if \<not> fresh then None
      else if list_ex (\<lambda>cmd. exec cmd \<noteq> 0) (handoff_commands cross source out) then None
      else Some (map fst boot_files @ [''handoff.elf'', ''handoff.bin''], boot_map))"

text \<open>The manifest has the files of the load map.\<close>

definition manifest_names :: "string list" where
  "manifest_names = filter (\<lambda>name. name \<noteq> ''addr'') (map fst boot_map)"

text \<open>Every file of the load map is in the directory, is loaded where the address says, and the jump address is the
  handoff's, which lies behind the firmware.\<close>

theorem prepare_boot_loads:
  assumes "prepare_boot exec fresh cross source out sizes dtb = Some (files, loads)"
  shows "list_all (\<lambda>name. name \<in> set files) manifest_names \<and>
    map (\<lambda>(name, txt). (name, hex_value (drop 2 txt))) loads =
      [(''fw_jump.bin'', 0x80000000), (''o3-kcu105.dtb'', 0x80100000), (''Image'', 0x80200000), (''handoff.bin'', 0x80080000),
       (''addr'', 0x80080000)] \<and> boot_check sizes dtb"
proof -
  from assms have a: "files = map fst boot_files @ [''handoff.elf'', ''handoff.bin'']" "loads = boot_map" "boot_check sizes dtb"
    by (auto simp: prepare_boot_def split: if_splits)
  have "list_all (\<lambda>name. name \<in> set (map fst boot_files @ [''handoff.elf'', ''handoff.bin''])) manifest_names"
    by (simp add: manifest_names_def boot_map_def boot_files_def)
  moreover have "hex_value (drop 2 ''0x80080000'') = 0x80080000"
    by (simp add: hex_value_def hex_digit_def char_code_def)
  ultimately show ?thesis using a by (simp add: boot_map_def boot_files_def hex_of_def hex_value_text)
qed


section \<open>Witnesses\<close>


definition demo_isr :: string where
  "demo_isr = ''void plic_init(void) {}'' @ [newline] @ plic_guard @ ''void plic_init(void)'' @ [newline] @ ''{ a; }'' @ [newline] @
     ''}'' @ [newline] @ ''#elif''"

theorem isr_patch_local_witness:
  "\<exists>out pre a old b post. isr_patch demo_isr = Inr out \<and> demo_isr = pre @ a @ old @ b @ post \<and>
     out = pre @ a @ plic_body @ b @ post \<and> str_prefix ''void plic_init(void)'' old"
proof -
  have "isl (isr_patch demo_isr) = False" by code_simp
  then obtain out where out: "isr_patch demo_isr = Inr out" by (cases "isr_patch demo_isr") auto
  from isr_patch_local [OF this] out show ?thesis by blast
qed

end
