(* ===== verification/SoC_Flow.thy ===== *)
theory SoC_Flow
  imports SoC_Build AXI_Router Py_Regex
begin

text \<open>
  The programs around the SoC: the source list of \<open>litex_wrapper/o3/core.py\<close>, the main program of
  \<open>fpga/kcu105/target.py\<close> with the checks it ends with, the test of its interrupt guards
  (\<open>sim/litex/check_platform_irqs.py\<close>), and what \<open>sim/litex/o3_sim.py\<close> changes for the simulation. The SoC object of
  LiteX is seen through what the checks read of it, as in \<open>SoC_Build\<close>; the build itself is a parameter.
\<close>

section \<open>The source list of the CPU\<close>

definition core_variants :: "string list" where
  "core_variants = [''standard'', ''debug'']"

definition core_variant :: "string \<Rightarrow> string py" where
  "core_variant variant = (if variant \<in> set core_variants then Inr variant else Inl ValueError)"

definition gcc_flags :: string where
  "gcc_flags = ''-march=rv64imafdc_zicsr_zifencei -mabi=lp64d -mno-save-restore -mcmodel=medany -D__o3__ -D__riscv_plic__''"

definition str_suffix :: "string \<Rightarrow> string \<Rightarrow> bool" where
  "str_suffix suffix s = str_prefix (rev suffix) (rev s)"

record rtl_files =
  rf_includes :: "string list"
  rf_sources :: "string list"

text \<open>A line of the manifest: nothing, an include directory, or a source, which must be a file. \<open>Inl\<close> carries the path
  of the \<open>FileNotFoundError\<close>.\<close>

definition skipped_line :: "string \<Rightarrow> bool" where
  "skipped_line line \<longleftrightarrow> line = [] \<or> str_prefix ''//'' line \<or> str_suffix ''.vlt'' line"

definition incdir :: string where
  "incdir = ''+incdir+''"

fun add_sources :: "(string \<Rightarrow> bool) \<Rightarrow> string \<Rightarrow> string list \<Rightarrow> rtl_files \<Rightarrow> string + rtl_files" where
  "add_sources is_file root [] acc = Inr acc"
| "add_sources is_file root (l # ls) acc = (let line = py_strip l in
     if skipped_line line then add_sources is_file root ls acc
     else if str_prefix incdir line
     then add_sources is_file root ls (acc\<lparr>rf_includes := rf_includes acc @ [root @ ''/'' @ drop (length incdir) line]\<rparr>)
     else let path = root @ ''/'' @ line in
       if \<not> is_file path then Inl path
       else add_sources is_file root ls (acc\<lparr>rf_sources := rf_sources acc @ [path]\<rparr>))"

definition core_commands :: "string \<Rightarrow> string list" where
  "core_commands variant = (if variant = ''debug'' then [''set_property verilog_define ENABLE_RETIRE_INFO [current_fileset]''] else [])"

definition is_source :: "string \<Rightarrow> bool" where
  "is_source line \<longleftrightarrow> \<not> skipped_line line \<and> \<not> str_prefix incdir line"

lemma add_sources_Cons:
  "add_sources is_file root (l # ls) acc = (let line = py_strip l in
     if is_source line
     then if is_file (root @ ''/'' @ line) then add_sources is_file root ls (acc\<lparr>rf_sources := rf_sources acc @ [root @ ''/'' @ line]\<rparr>)
       else Inl (root @ ''/'' @ line)
     else if skipped_line line then add_sources is_file root ls acc
     else add_sources is_file root ls (acc\<lparr>rf_includes := rf_includes acc @ [root @ ''/'' @ drop (length incdir) line]\<rparr>))"
  unfolding add_sources.simps Let_def is_source_def by simp

lemma add_sources_ok:
  "add_sources is_file root ls acc = Inr out \<Longrightarrow>
    rf_sources out = rf_sources acc @ map (\<lambda>line. root @ ''/'' @ line) (filter is_source (map py_strip ls)) \<and>
    list_all (\<lambda>line. is_file (root @ ''/'' @ line)) (filter is_source (map py_strip ls))"
proof (induction ls arbitrary: acc)
  case (Cons l ls)
  consider "is_source (py_strip l)" "is_file (root @ ''/'' @ py_strip l)"
      "add_sources is_file root ls (acc\<lparr>rf_sources := rf_sources acc @ [root @ ''/'' @ py_strip l]\<rparr>) = Inr out"
    | "\<not> is_source (py_strip l)" "add_sources is_file root ls acc = Inr out"
    | "\<not> is_source (py_strip l)"
      "add_sources is_file root ls (acc\<lparr>rf_includes := rf_includes acc @ [root @ ''/'' @ drop (length incdir) (py_strip l)]\<rparr>) = Inr out"
    using Cons.prems unfolding add_sources_Cons Let_def by (simp only: split: if_splits) blast+
  then show ?case
  proof cases
    case 1
    from Cons.IH [OF 1(3)] 1(1,2) show ?thesis by simp
  next
    case 2
    from Cons.IH [OF 2(2)] 2(1) show ?thesis by simp
  next
    case 3
    from Cons.IH [OF 3(2)] 3(1) show ?thesis by simp
  qed
qed simp

lemma add_sources_missing:
  "add_sources is_file root ls acc = Inl path \<Longrightarrow>
    \<exists>line. line \<in> set (filter is_source (map py_strip ls)) \<and> path = root @ ''/'' @ line \<and> \<not> is_file path"
proof (induction ls arbitrary: acc)
  case (Cons l ls)
  show ?case
  proof (cases "is_source (py_strip l) \<and> \<not> is_file (root @ ''/'' @ py_strip l)")
    case True
    with Cons.prems have "path = root @ ''/'' @ py_strip l" unfolding add_sources_Cons Let_def by simp
    with True show ?thesis by (intro exI [of _ "py_strip l"]) simp
  next
    case False
    with Cons.prems obtain acc' where "add_sources is_file root ls acc' = Inl path"
      unfolding add_sources_Cons Let_def by (simp only: split: if_splits) blast+
    from Cons.IH [OF this] show ?thesis by (metis filter.simps(2) list.set_intros(2) list.simps(9))
  qed
qed simp

text \<open>The sources are the entries of the manifest, all of them and in its order, on which the packages depend; each is a
  file, and an entry that is not stops the build with its path.\<close>

theorem add_sources_order:
  "case add_sources is_file root ls \<lparr>rf_includes = [], rf_sources = []\<rparr> of
     Inr out \<Rightarrow> rf_sources out = map (\<lambda>line. root @ ''/'' @ line) (filter is_source (map py_strip ls)) \<and>
       list_all (\<lambda>line. is_file (root @ ''/'' @ line)) (filter is_source (map py_strip ls))
   | Inl path \<Rightarrow> \<exists>line. line \<in> set (filter is_source (map py_strip ls)) \<and> path = root @ ''/'' @ line \<and> \<not> is_file path"
proof (cases "add_sources is_file root ls \<lparr>rf_includes = [], rf_sources = []\<rparr>")
  case (Inl path)
  from add_sources_missing [OF Inl] show ?thesis unfolding Inl sum.case .
next
  case (Inr out)
  from add_sources_ok [OF Inr] show ?thesis unfolding Inr sum.case rtl_files.select_convs append_Nil .
qed

section \<open>Checks with their messages\<close>

datatype path_error = Bypasses_coherence | Wrong_masters | Wrong_dma_masters | Wrong_dma_port | Csr_error py_error
  | Wrong_csr_width | Irq_allocation | Irq_constant

definition msg_require :: "path_error \<Rightarrow> bool \<Rightarrow> path_error + unit" where
  "msg_require e b = (if b then Inr () else Inl e)"

definition msg_bind :: "path_error + 'a \<Rightarrow> ('a \<Rightarrow> path_error + 'b) \<Rightarrow> path_error + 'b" where
  "msg_bind m f = (case m of Inl e \<Rightarrow> Inl e | Inr x \<Rightarrow> f x)"

text \<open>The checks of \<open>check_memory_paths\<close> with the error each one raises.\<close>

definition check_paths :: "platform \<Rightarrow> soc_view \<Rightarrow> path_error + unit" where
  "check_paths cfg so =
     msg_bind (msg_require Bypasses_coherence (''main_ram'' \<notin> set (so_slaves so))) (\<lambda>_.
     msg_bind (msg_require Wrong_masters (set (so_masters so) = {''cpu_bus0'', ''cpu_bus1''})) (\<lambda>_.
     msg_bind (msg_require Wrong_dma_masters (set (so_dma_masters so) = {''sdcard_block2mem'', ''sdcard_mem2block''})) (\<lambda>_.
     msg_bind (msg_require Wrong_dma_port (so_dma_at_cpu so)) (\<lambda>_.
     msg_bind (map_sum Csr_error id (csr_address_width cfg)) (\<lambda>width.
     msg_bind (msg_require Wrong_csr_width (so_csr_width so = width)) (\<lambda>_.
     let irqs = rev (pf_sources cfg) in
     msg_bind (msg_require Irq_allocation (dict_eq (so_irq_locs so) irqs)) (\<lambda>_.
       msg_require Irq_constant (\<forall>name \<in> set (map fst irqs). case map_of (so_constants so) (irq_constant name) of
         None \<Rightarrow> True | Some v \<Rightarrow> Some v = map_of irqs name))))))))"

lemma check_paths_ok: "check_paths cfg so = Inr () \<longleftrightarrow> check_memory_paths cfg so = Inr ()"
  unfolding check_paths_def check_memory_paths_def Let_def msg_bind_def msg_require_def require_def
  by (cases "csr_address_width cfg") (simp_all split: if_split)

section \<open>The interrupt guards\<close>

definition expected_irqs :: "(string \<times> int) list" where
  "expected_irqs = [(''uart'', 10), (''sdcard'', 11), (''timer0'', 12)]"

text \<open>\<open>try ... except ValueError as error: assert text in str(error)\<close>, and a failure when nothing is raised.\<close>

definition expect_error :: "path_error \<Rightarrow> path_error + unit \<Rightarrow> unit py" where
  "expect_error e r = (case r of Inr _ \<Rightarrow> Inl AssertionError
     | Inl (Csr_error x) \<Rightarrow> if x = ValueError then Inl AssertionError else Inl x
     | Inl x \<Rightarrow> py_assert (x = e))"

definition check_platform_irqs :: "platform \<Rightarrow> soc_view \<Rightarrow> unit py" where
  "check_platform_irqs cfg so =
     py_bind (py_assert (dict_eq (so_irq_locs so) expected_irqs)) (\<lambda>_.
     py_bind (py_map (\<lambda>(name, _). py_bind (py_key (map_of (so_constants so) (irq_constant name))) (\<lambda>v. Inr (name, v))) expected_irqs)
       (\<lambda>actual.
     py_bind (py_assert (dict_eq actual expected_irqs)) (\<lambda>_.
     py_bind (check_memory_paths cfg so) (\<lambda>_.
     py_bind (expect_error Irq_allocation (check_paths cfg (so\<lparr>so_irq_locs := AList.update ''uart'' 0 (so_irq_locs so)\<rparr>))) (\<lambda>_.
     let so1 = so\<lparr>so_irq_locs := AList.update ''uart'' 10 (so_irq_locs so)\<rparr> in
     py_bind (py_key (map_of (so_constants so) ''UART_INTERRUPT'')) (\<lambda>constant.
     py_bind (expect_error Irq_constant (check_paths cfg
       (so1\<lparr>so_constants := AList.update ''UART_INTERRUPT'' 0 (so_constants so)\<rparr>))) (\<lambda>_.
       check_memory_paths cfg (so1\<lparr>so_constants := AList.update ''UART_INTERRUPT'' constant
         (AList.update ''UART_INTERRUPT'' 0 (so_constants so))\<rparr>))))))))"

lemma uart_constant: "irq_constant ''uart'' = ''UART_INTERRUPT''"
  by code_simp

text \<open>What check passed leaves of a changed SoC: only its interrupt numbers and constants are looked at again.\<close>

lemma check_paths_changed:
  assumes "check_paths cfg so = Inr ()"
  shows "check_paths cfg (so\<lparr>so_irq_locs := locs, so_constants := cns\<rparr>) =
    (if \<not> dict_eq locs (rev (pf_sources cfg)) then Inl Irq_allocation
     else if (\<forall>name \<in> set (map fst (rev (pf_sources cfg))). case map_of cns (irq_constant name) of
         None \<Rightarrow> True | Some v \<Rightarrow> Some v = map_of (rev (pf_sources cfg)) name) then Inr () else Inl Irq_constant)"
proof -
  from assms have c: "''main_ram'' \<notin> set (so_slaves so)" "set (so_masters so) = {''cpu_bus0'', ''cpu_bus1''}"
    "set (so_dma_masters so) = {''sdcard_block2mem'', ''sdcard_mem2block''}" "so_dma_at_cpu so"
    "csr_address_width cfg = Inr (so_csr_width so)"
    unfolding check_paths_ok check_memory_paths_def Let_def by (auto simp only: py_bind_Inr_iff require_Inr_iff)
  show ?thesis
    unfolding check_paths_def Let_def by (simp add: c msg_bind_def msg_require_def del: set_rev rev_map)
qed


text \<open>The test of the guards passes on every SoC that has the expected numbers and constants and passes the checks: the
  guards do reject a wrong interrupt number and a wrong constant, each with its own message, and accept the SoC again
  when both are restored.\<close>

lemma irqs_of_locs:
  assumes "dict_eq locs irqs" "dict_eq locs expected_irqs"
  shows "map_of irqs = map_of expected_irqs"
  using assms by (simp add: dict_eq_map)

lemma expected_constant: "name \<in> set (map fst expected_irqs) \<Longrightarrow> irq_constant name = ''UART_INTERRUPT'' \<Longrightarrow> name = ''uart''"
proof -
  have "irq_constant ''sdcard'' \<noteq> ''UART_INTERRUPT''" "irq_constant ''timer0'' \<noteq> ''UART_INTERRUPT''" by code_simp+
  then show "name \<in> set (map fst expected_irqs) \<Longrightarrow> irq_constant name = ''UART_INTERRUPT'' \<Longrightarrow> name = ''uart''"
    by (auto simp: expected_irqs_def)
qed

theorem irq_guards_effective:
  assumes "check_memory_paths cfg so = Inr ()" "dict_eq (so_irq_locs so) expected_irqs"
    "\<forall>(name, i) \<in> set expected_irqs. map_of (so_constants so) (irq_constant name) = Some i"
  shows "check_platform_irqs cfg so = Inr ()"
proof -
  let ?irqs = "rev (pf_sources cfg)" and ?locs = "so_irq_locs so" and ?checked = "so_constants so"
  have ok: "check_paths cfg so = Inr ()" using assms(1) by (simp add: check_paths_ok)
  have uart: "map_of ?checked ''UART_INTERRUPT'' = Some 10"
    using assms(3) unfolding expected_irqs_def by (simp add: uart_constant)
  have same: "so\<lparr>so_irq_locs := ?locs, so_constants := ?checked\<rparr> = so" by simp
  from check_paths_changed [OF ok, where locs = ?locs and cns = ?checked] ok
  have c: "dict_eq ?locs ?irqs" "\<forall>name \<in> set (map fst ?irqs). case map_of ?checked (irq_constant name) of
         None \<Rightarrow> True | Some v \<Rightarrow> Some v = map_of ?irqs name" unfolding same by (simp_all only: sum.distinct split: if_splits)
  have irqs: "map_of ?irqs = map_of expected_irqs" using irqs_of_locs [OF c(1) assms(2)] .
  have names: "set (map fst ?irqs) = set (map fst expected_irqs)"
    using arg_cong [OF irqs, of dom] by (simp add: dom_map_of_conv_image_fst)
  have ten: "map_of ?irqs ''uart'' = Some 10" unfolding irqs expected_irqs_def by simp
  have locs0: "\<not> dict_eq (AList.update ''uart'' 0 ?locs) ?irqs"
  proof
    assume "dict_eq (AList.update ''uart'' 0 ?locs) ?irqs"
    then have "map_of (AList.update ''uart'' 0 ?locs) ''uart'' = map_of ?irqs ''uart''" by (simp only: dict_eq_map)
    then show False unfolding ten by (simp add: update_conv')
  qed
  have locs10: "dict_eq (AList.update ''uart'' 10 ?locs) ?irqs"
  proof -
    have "map_of ?locs ''uart'' = Some 10" using c(1) ten by (simp add: dict_eq_map)
    then show ?thesis using c(1) by (simp add: dict_eq_map update_conv' map_upd_triv)
  qed
  have member: "''uart'' \<in> set (map fst ?irqs)" unfolding names expected_irqs_def by simp
  have consts0: "\<not> (\<forall>name \<in> set (map fst ?irqs). case map_of (AList.update ''UART_INTERRUPT'' 0 ?checked) (irq_constant name) of
         None \<Rightarrow> True | Some v \<Rightarrow> Some v = map_of ?irqs name)"
  proof
    assume a: "\<forall>name \<in> set (map fst ?irqs). case map_of (AList.update ''UART_INTERRUPT'' 0 ?checked) (irq_constant name) of
         None \<Rightarrow> True | Some v \<Rightarrow> Some v = map_of ?irqs name"
    from bspec [OF a member] show False unfolding uart_constant ten by (simp add: update_conv')
  qed
  have consts10: "map_of (AList.update ''UART_INTERRUPT'' 10 (AList.update ''UART_INTERRUPT'' 0 ?checked)) = map_of ?checked"
    using uart by (simp add: update_conv' map_upd_triv)
  have first: "check_paths cfg (so\<lparr>so_irq_locs := AList.update ''uart'' 0 ?locs\<rparr>) = Inl Irq_allocation"
    using check_paths_changed [OF ok, where locs = "AList.update ''uart'' 0 ?locs" and cns = ?checked] locs0 by simp
  have second: "check_paths cfg (so\<lparr>so_irq_locs := AList.update ''uart'' 10 ?locs,
      so_constants := AList.update ''UART_INTERRUPT'' 0 ?checked\<rparr>) = Inl Irq_constant"
    unfolding check_paths_changed [OF ok] using locs10 consts0 by (simp only: not_True_eq_False if_False simp_thms if_True)
  have third: "check_paths cfg (so\<lparr>so_irq_locs := AList.update ''uart'' 10 ?locs,
      so_constants := AList.update ''UART_INTERRUPT'' 10 (AList.update ''UART_INTERRUPT'' 0 ?checked)\<rparr>) = Inr ()"
    unfolding check_paths_changed [OF ok] consts10 if_P [OF c(2)] using locs10 by (simp only: not_True_eq_False if_False simp_thms if_True)
  have actual: "py_map (\<lambda>(name, _). py_bind (py_key (map_of ?checked (irq_constant name))) (\<lambda>v. Inr (name, v))) expected_irqs =
      Inr expected_irqs" using assms(3) unfolding expected_irqs_def by (simp add: py_key_def)
  have uart_key: "py_key (map_of ?checked ''UART_INTERRUPT'') = Inr 10" unfolding uart by (simp add: py_key_def)
  have refl: "dict_eq expected_irqs expected_irqs" by (simp add: dict_eq_def)
  show ?thesis
    unfolding check_platform_irqs_def Let_def
    using first second third [unfolded check_paths_ok]
    by (simp add: assms(1,2) actual refl uart_key py_assert_def expect_error_def)
qed


section \<open>The main program of the board\<close>

text \<open>The constants of the BIOS; \<open>timebase\<close> is the timer frequency of the configuration.\<close>

definition soc_constants :: "platform \<Rightarrow> int \<Rightarrow> (string \<times> int) list py" where
  "soc_constants cfg timebase = py_bind (get_region cfg ''plic'') (\<lambda>r. Inr
     [(''O3_NUM_HARTS'', 1), (''O3_PLIC_BASE'', pr_origin r), (''O3_PLIC_MASK'', plic_mask cfg),
      (''O3_PLIC_NUM_SOURCES'', pf_num_sources cfg), (''O3_MTIME_FREQUENCY'', timebase),
      (''O3_SD_SCRATCH_BASE'', sd_scratch (pf_sd cfg)), (''SDCARD_CLK_FREQ_INIT'', 400000), (''SDCARD_CLK_FREQ'', 5000000)])"

record memory_report =
  mr_ddr_master :: string
  mr_masters :: "string list"
  mr_dma_masters :: "string list"
  mr_direct_ddr :: bool
  mr_capacity :: nat
  mr_csr_width :: nat

definition memory_paths :: "platform \<Rightarrow> soc_view \<Rightarrow> nat \<Rightarrow> memory_report py" where
  "memory_paths cfg so capacity = py_bind (check_memory_paths cfg so) (\<lambda>_. Inr
     \<lparr>mr_ddr_master = ''cpu.axi_router.dram'', mr_masters = so_masters so, mr_dma_masters = so_dma_masters so, mr_direct_ddr = False,
      mr_capacity = capacity, mr_csr_width = so_csr_width so\<rparr>)"

definition csr_pages :: "platform \<Rightarrow> (string \<times> int) list" where
  "csr_pages cfg = rev (map (\<lambda>p. (mp_name p, mp_origin p)) (pf_pages cfg))"

text \<open>How the program stops: the argument parser, the stale package, or an exception. What the finished build leaves to
  check is the SoC as both checkers see it, the capacity of its DDR and the addresses of its register banks.\<close>

datatype target_stop = Usage | Stale_package | Raised py_error

record built_soc =
  bs_view :: soc_view
  bs_soc :: soc
  bs_capacity :: nat
  bs_csr :: "(string \<times> int) list"

record target_files =
  tf_paths :: memory_report
  tf_map :: "(string \<times> string \<times> soc_region) list"
  tf_platform :: platform
  tf_probes :: bool

definition target_checks :: "platform \<Rightarrow> built_soc \<Rightarrow> bool \<Rightarrow> target_files py" where
  "target_checks cfg b debug =
     py_bind (memory_paths cfg (bs_view b) (bs_capacity b)) (\<lambda>paths.
     py_bind (check_soc_regions cfg (bs_soc b) True) (\<lambda>address_map.
     py_bind (require (dict_eq (bs_csr b) (csr_pages cfg))) (\<lambda>_.
       Inr \<lparr>tf_paths = paths, tf_map = address_map, tf_platform = cfg, tf_probes = debug\<rparr>)))"

definition target_main :: "bool \<Rightarrow> bool \<Rightarrow> bool \<Rightarrow> bool \<Rightarrow> platform \<Rightarrow> built_soc py \<Rightarrow> target_stop + target_files" where
  "target_main build no_compile debug package_current cfg made =
     (if build \<and> no_compile then Inl Usage else if \<not> package_current then Inl Stale_package
      else map_sum Raised id (py_bind made (\<lambda>b. target_checks cfg b debug)))"

text \<open>What the program writes has been checked on the finished SoC: its address map, its memory paths and its interrupts
  are those of the platform description, no master bypasses the coherent port, and the register banks are at exactly the
  pages the description gives them.\<close>

theorem target_main_checked:
  assumes "target_main build no_compile debug package_current cfg made = Inr files" "load_platform cfg = Inr cfg'"
  shows "\<exists>b. made = Inr b \<and> \<not> (build \<and> no_compile) \<and> package_current \<and> ''main_ram'' \<notin> set (so_slaves (bs_view b)) \<and>
    so_dma_at_cpu (bs_view b) \<and> map_of (so_irq_locs (bs_view b)) = irq_map cfg \<and>
    map_of (bs_csr b) = map_of (csr_pages cfg) \<and>
    (\<forall>(n, p) \<in> set (soc_mappings (bs_soc b) True). \<exists>a r. map_of (soc_regions (bs_soc b)) n = Some a \<and> get_region cfg p = Inr r \<and>
       sr_origin a = pr_origin r \<and> sr_size a = pr_size r) \<and> tf_platform files = cfg"
proof -
  from assms(1) have a: "\<not> (build \<and> no_compile)" "package_current"
    "map_sum Raised id (py_bind made (\<lambda>b. target_checks cfg b debug)) = Inr files"
    unfolding target_main_def by (simp_all split: if_splits)
  then obtain b where b: "made = Inr b" "target_checks cfg b debug = Inr files"
    by (cases made; cases "target_checks cfg (projr made) debug") simp_all
  from b(2) obtain paths checked where p: "memory_paths cfg (bs_view b) (bs_capacity b) = Inr paths"
    "check_soc_regions cfg (bs_soc b) True = Inr checked" "require (dict_eq (bs_csr b) (csr_pages cfg)) = Inr ()"
    "files = \<lparr>tf_paths = paths, tf_map = checked, tf_platform = cfg, tf_probes = debug\<rparr>"
    unfolding target_checks_def by (elim bind_InrE) (rule that, assumption, assumption, simp, simp)
  from p(1) have m: "check_memory_paths cfg (bs_view b) = Inr ()" by (auto simp: memory_paths_def py_bind_Inr_iff)
  from memory_paths_sound [OF assms(2) m] have v: "''main_ram'' \<notin> set (so_slaves (bs_view b))" "so_dma_at_cpu (bs_view b)"
    "map_of (so_irq_locs (bs_view b)) = irq_map cfg" by blast+
  have d: "map_of (bs_csr b) = map_of (csr_pages cfg)" using p(3) by (simp add: dict_eq_map)
  have r: "\<forall>(n, p) \<in> set (soc_mappings (bs_soc b) True). \<exists>a r. map_of (soc_regions (bs_soc b)) n = Some a \<and> get_region cfg p = Inr r \<and>
       sr_origin a = pr_origin r \<and> sr_size a = pr_size r"
    using check_soc_regions_sound [OF p(2)] by blast
  show ?thesis using a(1,2) b(1) v d r p(4) by (intro exI [of _ b] conjI) simp_all
qed

section \<open>The instances of timer and interrupt controller\<close>

text \<open>Parameters with their values, and pins with the signal each is connected to.\<close>

definition clint_instance_params :: "clint_params \<Rightarrow> (string \<times> int) list" where
  "clint_instance_params c = [(''p_NUM_HARTS'', cl_harts c), (''p_SYS_CLK_FREQ'', cl_sys_freq c), (''p_TIMEBASE_FREQ'', cl_timebase c),
     (''p_REGION_BYTES'', cl_size c), (''p_MSIP_OFFSET'', cl_msip c), (''p_MTIMECMP_OFFSET'', cl_mtimecmp c),
     (''p_MTIME_OFFSET'', cl_mtime c)]"

definition clint_pins :: "(string \<times> string) list" where
  "clint_pins = [(''i_clk'', ''sys_clk''), (''i_rst'', ''sys_rst''), (''i_wb_adr'', ''bus.adr''), (''i_wb_dat_w'', ''bus.dat_w''),
     (''o_wb_dat_r'', ''bus.dat_r''), (''i_wb_sel'', ''bus.sel''), (''i_wb_cyc'', ''bus.cyc''), (''i_wb_stb'', ''bus.stb''),
     (''o_wb_ack'', ''bus.ack''), (''i_wb_we'', ''bus.we''), (''o_wb_err'', ''bus.err''), (''o_msip'', ''msip''), (''o_mtip'', ''mtip''),
     (''o_mtime'', ''mtime''), (''o_debug_msip'', ''debug_msip''), (''o_debug_mtimecmp'', ''debug_mtimecmp'')]"

definition plic_instance_params :: "int \<Rightarrow> int \<Rightarrow> (string \<times> int) list" where
  "plic_instance_params harts sources = [(''p_NUM_HARTS'', harts), (''p_NUM_SOURCES'', sources)]"

definition plic_pins :: "(string \<times> string) list" where
  "plic_pins = [(''i_clk'', ''sys_clk''), (''i_rst'', ''sys_rst''), (''i_wb_adr'', ''bus.adr''), (''i_wb_dat_w'', ''bus.dat_w''),
     (''o_wb_dat_r'', ''bus.dat_r''), (''i_wb_sel'', ''bus.sel''), (''i_wb_cyc'', ''bus.cyc''), (''i_wb_stb'', ''bus.stb''),
     (''o_wb_ack'', ''bus.ack''), (''i_wb_we'', ''bus.we''), (''o_wb_err'', ''bus.err''), (''i_sources'', ''sources''),
     (''o_meip'', ''meip''), (''o_seip'', ''seip''), (''o_debug_pending'', ''pending_bits''), (''o_debug_claims'', ''debug_claims''),
     (''o_debug_priorities'', ''debug_priorities''), (''o_debug_enables'', ''debug_enables''),
     (''o_debug_thresholds'', ''debug_thresholds'')]"

text \<open>Widths of the signals of the controller.\<close>

definition plic_widths :: "nat \<Rightarrow> nat \<Rightarrow> (string \<times> nat) list" where
  "plic_widths harts sources = (let contexts = 2 * harts in
     [(''sources'', sources), (''meip'', harts), (''seip'', harts), (''pending_bits'', sources + 1), (''debug_claims'', contexts * 32),
      (''debug_priorities'', sources * 3), (''debug_enables'', contexts * 32), (''debug_thresholds'', contexts * 3)])"

text \<open>No pin is connected twice, no signal is driven by two pins, and the claim words of the contexts are the whole claim
  signal, one after the other.\<close>

theorem instance_pins_ok:
  "distinct (map fst clint_pins) \<and> distinct (map snd clint_pins) \<and> distinct (map fst plic_pins) \<and> distinct (map snd plic_pins) \<and>
   concat (map (\<lambda>(lo, hi). [lo..<hi]) (plic_claims harts)) = [0..<the (map_of (plic_widths harts sources) ''debug_claims'')]"
proof -
  have "concat (map (\<lambda>k. [32 * k..<32 * (k + 1)]) [0..<n]) = [0..<32 * n]" for n :: nat
  proof (induction n)
    case (Suc n)
    have "[0..<32 * Suc n] = [0..<32 * n] @ [32 * n..<32 * (n + 1)]" using upt_add_eq_append [of 0 "32 * n" 32] by (simp add: add.commute)
    with Suc show ?case by simp
  qed simp
  from this [of "2 * harts"] have "concat (map (\<lambda>(lo, hi). [lo..<hi]) (plic_claims harts)) = [0..<32 * (2 * harts)]"
    by (simp add: plic_claims_def comp_def)
  moreover have "the (map_of (plic_widths harts sources) ''debug_claims'') = 32 * (2 * harts)"
    by (simp add: plic_widths_def Let_def)
  moreover have "distinct (map fst clint_pins) \<and> distinct (map snd clint_pins) \<and> distinct (map fst plic_pins) \<and>
    distinct (map snd plic_pins)" by code_simp
  ultimately show ?thesis by simp
qed

section \<open>The simulation\<close>

definition sim_constants :: "(string \<times> int) list" where
  "sim_constants = [(''MEMTEST_DATA_SIZE'', 65536), (''MEMTEST_ADDR_SIZE'', 65536), (''CONFIG_BIOS_NO_BOOT'', 1)]"

text \<open>\<open>text.count(pat)\<close>; the first argument counts the characters of an occurrence still to be passed.\<close>

fun str_count_from :: "nat \<Rightarrow> string \<Rightarrow> string \<Rightarrow> nat" where
  "str_count_from skip pat [] = 0"
| "str_count_from (Suc skip) pat (c # cs) = str_count_from skip pat cs"
| "str_count_from 0 pat (c # cs) =
     (if str_prefix pat (c # cs) then Suc (str_count_from (length pat - 1) pat cs) else str_count_from 0 pat cs)"

definition object_list :: string where
  "object_list = ''OBJECTS = boot-helper.o''"

definition selftest_list :: string where
  "selftest_list = ''OBJECTS = soc_selftest.o boot-helper.o''"

text \<open>The makefile of the BIOS with the self-test added to its objects, and the package list that uses the copy.\<close>

definition selftest_makefile :: "string \<Rightarrow> string py" where
  "selftest_makefile mk = (if str_count_from 0 object_list mk \<noteq> 1 then Inl RuntimeError
     else Inr (str_replace_first object_list selftest_list mk))"

definition sim_packages :: "string \<Rightarrow> (string \<times> string) list \<Rightarrow> (string \<times> string) list" where
  "sim_packages overlay packages = map (\<lambda>(name, path). (name, if name = ''bios'' then overlay else path)) packages"

lemma str_replace_none: "str_replace_from skip old new (Some 0) s = drop skip s"
proof (induction s arbitrary: skip)
  case (Cons c cs)
  then show ?case by (cases skip) simp_all
qed simp

lemma str_replace_first_place:
  "str_count_from 0 old s \<noteq> 0 \<Longrightarrow> old \<noteq> [] \<Longrightarrow>
    \<exists>a b. s = a @ old @ b \<and> str_replace_from 0 old new (Some 1) s = a @ new @ b"
proof (induction s)
  case (Cons c cs)
  show ?case
  proof (cases "str_prefix old (c # cs)")
    case True
    then obtain rest where r: "c # cs = old @ rest" by (auto simp: str_prefix_iff)
    then have "cs = tl old @ rest" using Cons.prems(2) by (cases old) auto
    then have "drop (length old - 1) cs = rest" by simp
    with True have "str_replace_from 0 old new (Some 1) (c # cs) = new @ rest" by (simp add: str_replace_none)
    with r have "c # cs = [] @ old @ rest \<and> str_replace_from 0 old new (Some 1) (c # cs) = [] @ new @ rest" by simp
    then show ?thesis by blast
  next
    case False
    with Cons obtain a b where "cs = a @ old @ b" "str_replace_from 0 old new (Some 1) cs = a @ new @ b" by auto
    with False show ?thesis by (intro exI [of _ "c # a"] exI [of _ b]) simp
  qed
qed simp

text \<open>The self-test is linked in: the makefile is the upstream one with its one object list extended.\<close>

theorem selftest_makefile_extends:
  assumes "selftest_makefile mk = Inr out"
  shows "\<exists>a b. mk = a @ object_list @ b \<and> out = a @ selftest_list @ b"
proof -
  from assms have "str_count_from 0 object_list mk \<noteq> 0" and out: "out = str_replace_from 0 object_list selftest_list (Some 1) mk"
    by (auto simp: selftest_makefile_def str_replace_first_def split: if_splits)
  moreover have "object_list \<noteq> []" by (simp add: object_list_def)
  ultimately show ?thesis using str_replace_first_place [of object_list mk selftest_list] by simp
qed

text \<open>The main program: a run needs a BIOS image, and the address map it writes has passed the check of the regions.\<close>

definition sim_main :: "bool \<Rightarrow> bool \<Rightarrow> bool \<Rightarrow> platform \<Rightarrow> soc py \<Rightarrow> target_stop + (string \<times> string \<times> soc_region) list" where
  "sim_main run rom package_current cfg made =
     (if run \<and> \<not> rom then Inl Usage else if \<not> package_current then Inl Stale_package
      else map_sum Raised id (py_bind made (\<lambda>soc. check_soc_regions cfg soc True)))"

section \<open>Witness\<close>

definition o3_checked_soc :: soc_view where
  "o3_checked_soc = o3_soc\<lparr>so_constants := [(''TIMER0_INTERRUPT'', 12), (''UART_INTERRUPT'', 10), (''SDCARD_INTERRUPT'', 11)]\<rparr>"

theorem irq_guards_effective_witness:
  "check_platform_irqs o3_platform o3_checked_soc = Inr ()"
proof -
  have "check_memory_paths o3_platform o3_checked_soc = Inr ()"
    unfolding check_memory_paths_def Let_def o3_platform_csr py_bind_simps by code_simp
  moreover have "dict_eq (so_irq_locs o3_checked_soc) expected_irqs"
    "list_all (\<lambda>(name, i). map_of (so_constants o3_checked_soc) (irq_constant name) = Some i) expected_irqs" by code_simp+
  ultimately show ?thesis by (intro irq_guards_effective) (simp_all add: list_all_iff)
qed

end
