(* ===== verification/Lane_Checks.thy ===== *)
theory Lane_Checks
  imports AXI_Router
begin

text \<open>
  The simulator tests of the 64-bit register bus: \<open>sim/litex/check_mmio_read_lanes.py\<close>, which reads and writes registers
  of both halves of the bus through the bridge of \<open>litex_wrapper/o3/mmio_bridge.py\<close>, and
  \<open>sim/litex/check_csr_window.py\<close>, which strobes every page of the register window. The hardware under test is library
  code and a parameter: a step function and what the test can see of it. A test is one more clocked process: it reads the
  settled values of this cycle, and what it writes holds from the next cycle on.
\<close>

section \<open>A clocked test\<close>

text \<open>The device: its state after a clock edge and what it shows, both from the inputs of the cycle.\<close>

type_synonym ('i, 'o, 'e) device = "('i \<Rightarrow> 'e \<Rightarrow> 'e) \<times> ('i \<Rightarrow> 'e \<Rightarrow> 'o)"

record ('i, 'e) bench_sim =
  bn_env :: 'e
  bn_now :: 'i
  bn_later :: 'i

definition tick :: "('i, 'o, 'e) device \<Rightarrow> ('i, 'e) bench_sim \<Rightarrow> ('i, 'e) bench_sim" where
  "tick dev s = s\<lparr>bn_env := fst dev (bn_now s) (bn_env s), bn_now := bn_later s\<rparr>"

definition seen :: "('i, 'o, 'e) device \<Rightarrow> ('i, 'e) bench_sim \<Rightarrow> 'o" where
  "seen dev s = snd dev (bn_now s) (bn_env s)"

definition put :: "('i \<Rightarrow> 'i) \<Rightarrow> ('i, 'e) bench_sim \<Rightarrow> ('i, 'e) bench_sim" where
  "put f s = s\<lparr>bn_later := f (bn_later s)\<rparr>"

text \<open>\<open>for _ in range(n): yield; check; if stop: break; else: raise AssertionError\<close>, and \<open>n\<close> cycles that are checked.\<close>

fun wait_for :: "('i, 'o, 'e) device \<Rightarrow> ('o \<Rightarrow> bool) \<Rightarrow> ('o \<Rightarrow> bool) \<Rightarrow> nat \<Rightarrow> ('i, 'e) bench_sim \<Rightarrow> ('i, 'e) bench_sim py" where
  "wait_for dev chk stop 0 s = Inl AssertionError"
| "wait_for dev chk stop (Suc n) s = (let s = tick dev s in
     py_bind (py_assert (chk (seen dev s))) (\<lambda>_. if stop (seen dev s) then Inr s else wait_for dev chk stop n s))"

fun hold_for :: "('i, 'o, 'e) device \<Rightarrow> ('o \<Rightarrow> bool) \<Rightarrow> nat \<Rightarrow> ('i, 'e) bench_sim \<Rightarrow> ('i, 'e) bench_sim py" where
  "hold_for dev chk 0 s = Inr s"
| "hold_for dev chk (Suc n) s = (let s = tick dev s in
     py_bind (py_assert (chk (seen dev s))) (\<lambda>_. hold_for dev chk n s))"

lemma wait_for_Inr:
  "wait_for dev chk stop n s = Inr s' \<Longrightarrow>
    \<exists>k. 0 < k \<and> k \<le> n \<and> s' = (tick dev ^^ k) s \<and> stop (seen dev s') \<and>
      (\<forall>j. 0 < j \<longrightarrow> j \<le> k \<longrightarrow> chk (seen dev ((tick dev ^^ j) s))) \<and>
      (\<forall>j. 0 < j \<longrightarrow> j < k \<longrightarrow> \<not> stop (seen dev ((tick dev ^^ j) s)))"
proof (induction n arbitrary: s)
  case (Suc n)
  let ?s = "tick dev s"
  from Suc.prems have c: "chk (seen dev ?s)" and
    r: "(if stop (seen dev ?s) then Inr ?s else wait_for dev chk stop n ?s) = Inr s'"
    by (simp_all add: Let_def py_bind_Inr_iff py_assert_def split: if_splits)
  show ?case
  proof (cases "stop (seen dev ?s)")
    case True
    with r c show ?thesis by (intro exI [of _ 1]) (auto simp: le_Suc_eq)
  next
    case False
    with r Suc.IH [of ?s] obtain k where k: "0 < k" "k \<le> n" "s' = (tick dev ^^ k) ?s" "stop (seen dev s')"
      "\<forall>j. 0 < j \<longrightarrow> j \<le> k \<longrightarrow> chk (seen dev ((tick dev ^^ j) ?s))"
      "\<forall>j. 0 < j \<longrightarrow> j < k \<longrightarrow> \<not> stop (seen dev ((tick dev ^^ j) ?s))" by auto
    have shift: "(tick dev ^^ j) s = (tick dev ^^ (j - 1)) ?s" if "0 < j" for j
      using that by (cases j) (simp_all add: funpow_Suc_right del: funpow.simps)
    have "chk (seen dev ((tick dev ^^ j) s))" if "0 < j" "j \<le> Suc k" for j
      using k(5) c that shift [of j] by (cases "j = 1") (auto dest: spec [of _ "j - 1"])
    moreover have "\<not> stop (seen dev ((tick dev ^^ j) s))" if "0 < j" "j < Suc k" for j
      using k(6) False that shift [of j] by (cases "j = 1") (auto dest: spec [of _ "j - 1"])
    moreover have "s' = (tick dev ^^ Suc k) s" using k(3) shift [of "Suc k"] by simp
    ultimately show ?thesis using k(2,4) by (intro exI [of _ "Suc k"]) auto
  qed
qed simp

lemma hold_for_Inr:
  "hold_for dev chk n s = Inr s' \<Longrightarrow>
    s' = (tick dev ^^ n) s \<and> (\<forall>j. 0 < j \<longrightarrow> j \<le> n \<longrightarrow> chk (seen dev ((tick dev ^^ j) s)))"
proof (induction n arbitrary: s)
  case (Suc n)
  let ?s = "tick dev s"
  from Suc.prems have c: "chk (seen dev ?s)" and r: "hold_for dev chk n ?s = Inr s'"
    by (simp_all add: Let_def py_bind_Inr_iff py_assert_def split: if_splits)
  from Suc.IH [OF r] have k: "s' = (tick dev ^^ n) ?s" "\<forall>j. 0 < j \<longrightarrow> j \<le> n \<longrightarrow> chk (seen dev ((tick dev ^^ j) ?s))" by auto
  have shift: "(tick dev ^^ j) s = (tick dev ^^ (j - 1)) ?s" if "0 < j" for j
    using that by (cases j) (simp_all add: funpow_Suc_right del: funpow.simps)
  have "chk (seen dev ((tick dev ^^ j) s))" if "0 < j" "j \<le> Suc n" for j
    using k(2) c that shift [of j] by (cases "j = 1") (auto dest: spec [of _ "j - 1"])
  then show ?case using k(1) shift [of "Suc n"] by simp
qed simp


section \<open>Byte lanes\<close>

text \<open>What the test drives on the AXI-Lite port of the CPU.\<close>

record lane_drive =
  ld_araddr :: int
  ld_arvalid :: bool
  ld_rready :: bool
  ld_awaddr :: int
  ld_awvalid :: bool
  ld_wdata :: int
  ld_wstrb :: nat
  ld_wvalid :: bool
  ld_bready :: bool

text \<open>What it sees: the handshakes and the Wishbone port behind the bridge.\<close>

record lane_seen =
  lo_arready :: bool
  lo_rvalid :: bool
  lo_rdata :: int
  lo_rresp :: nat
  lo_awready :: bool
  lo_wready :: bool
  lo_bvalid :: bool
  lo_bresp :: nat
  lo_cyc :: bool
  lo_stb :: bool
  lo_sel :: nat

definition sel_ok :: "nat \<Rightarrow> lane_seen \<Rightarrow> bool" where
  "sel_ok sel o1 \<longleftrightarrow> (lo_cyc o1 \<and> lo_stb o1 \<longrightarrow> lo_sel o1 = sel)"

text \<open>The register of an address within the 64-bit word.\<close>

definition lane_of :: "int \<Rightarrow> int \<Rightarrow> int" where
  "lane_of addr data = drop_bit (8 * nat (addr AND 7)) data"

definition lane_read :: "(lane_drive, lane_seen, 'e) device \<Rightarrow> int \<Rightarrow> int \<Rightarrow> nat \<Rightarrow> nat \<Rightarrow> (lane_drive, 'e) bench_sim \<Rightarrow>
    (lane_drive, 'e) bench_sim py" where
  "lane_read dev addr expected sel stall s =
     py_bind (wait_for dev (sel_ok sel) lo_arready 50 (put (\<lambda>d. d\<lparr>ld_araddr := addr, ld_arvalid := True, ld_rready := False\<rparr>) s)) (\<lambda>s.
     py_bind (wait_for dev (\<lambda>_. True) lo_rvalid 50 (put (\<lambda>d. d\<lparr>ld_arvalid := False\<rparr>) s)) (\<lambda>s.
     let data = lo_rdata (seen dev s) in
     py_bind (py_assert (lo_rresp (seen dev s) = 0)) (\<lambda>_.
     py_bind (py_assert (lane_of addr data = expected)) (\<lambda>_.
     py_bind (hold_for dev (\<lambda>o1. lo_rvalid o1 \<and> lo_rdata o1 = data) stall s) (\<lambda>s.
       hold_for dev (\<lambda>_. True) 3 (put (\<lambda>d. d\<lparr>ld_rready := False\<rparr>) (tick dev (put (\<lambda>d. d\<lparr>ld_rready := True\<rparr>) s))))))))"

definition lane_write :: "(lane_drive, lane_seen, 'e) device \<Rightarrow> int \<Rightarrow> int \<Rightarrow> nat \<Rightarrow> (lane_drive, 'e) bench_sim \<Rightarrow>
    (lane_drive, 'e) bench_sim py" where
  "lane_write dev addr data strobe s =
     py_bind (wait_for dev (sel_ok strobe) (\<lambda>o1. lo_awready o1 \<and> lo_wready o1) 50
       (put (\<lambda>d. d\<lparr>ld_awaddr := addr, ld_awvalid := True, ld_wdata := push_bit (8 * nat (addr AND 7)) data, ld_wstrb := strobe,
          ld_wvalid := True, ld_bready := False\<rparr>) s)) (\<lambda>s.
     py_bind (wait_for dev (\<lambda>_. True) lo_bvalid 50 (put (\<lambda>d. d\<lparr>ld_awvalid := False, ld_wvalid := False\<rparr>) s)) (\<lambda>s.
     py_bind (py_assert (lo_bresp (seen dev s) = 0)) (\<lambda>_.
     py_bind (hold_for dev lo_bvalid 4 s) (\<lambda>s.
       hold_for dev (\<lambda>_. True) 3 (put (\<lambda>d. d\<lparr>ld_bready := False\<rparr>) (tick dev (put (\<lambda>d. d\<lparr>ld_bready := True\<rparr>) s)))))))"

datatype lane_op = Lane_read int int nat nat | Lane_write int int nat

fun lane_ops :: "(lane_drive, lane_seen, 'e) device \<Rightarrow> lane_op list \<Rightarrow> (lane_drive, 'e) bench_sim \<Rightarrow> (lane_drive, 'e) bench_sim py" where
  "lane_ops dev [] s = Inr s"
| "lane_ops dev (Lane_read addr expected sel stall # ops) s = py_bind (lane_read dev addr expected sel stall s) (lane_ops dev ops)"
| "lane_ops dev (Lane_write addr data strobe # ops) s = py_bind (lane_write dev addr data strobe s) (lane_ops dev ops)"

definition lane_stimulus :: "lane_op list" where
  "lane_stimulus =
    [Lane_read 0x12001000 0x13579bdf 0x0f 4, Lane_read 0x12001004 0x2468ace0 0xf0 5,
     Lane_write 0x12001004 0xdeadbeef 0xf0, Lane_write 0x12001000 0x89abcdef 0x0f,
     Lane_read 0x12001000 0x89abcdef 0x0f 0, Lane_read 0x12001004 0xdeadbeef 0xf0 0,
     Lane_read 0x0c200000 0x0000000a00000003 0x0f 3, Lane_read 0x0c200004 10 0xf0 3, Lane_read 0x0200bff8 0x8877665544332211 0xff 3]"

definition lane_idle :: lane_drive where
  "lane_idle = \<lparr>ld_araddr = 0, ld_arvalid = False, ld_rready = False, ld_awaddr = 0, ld_awvalid = False, ld_wdata = 0, ld_wstrb = 0,
     ld_wvalid = False, ld_bready = False\<rparr>"

definition check_lanes :: "(lane_drive, lane_seen, 'e) device \<Rightarrow> 'e \<Rightarrow> unit py" where
  "check_lanes dev e = py_bind (lane_ops dev lane_stimulus \<lparr>bn_env = e, bn_now = lane_idle, bn_later = lane_idle\<rparr>) (\<lambda>_. Inr ())"

text \<open>A read that passes: within 50 cycles the address is taken, the port having shown no select but the expected one up to
  then; within 50 more the answer comes, without an error and with the expected value in the lane of the address, and it
  stays as it is for as long as the test does not take it.\<close>

theorem lane_read_observes:
  assumes "lane_read dev addr expected sel stall s = Inr s'"
  shows "\<exists>a r k n. let s1 = put (\<lambda>d. d\<lparr>ld_araddr := addr, ld_arvalid := True, ld_rready := False\<rparr>) s;
      answer = seen dev r in 0 < k \<and> k \<le> 50 \<and> a = (tick dev ^^ k) s1 \<and> lo_arready (seen dev a) \<and>
    (\<forall>j. 0 < j \<longrightarrow> j \<le> k \<longrightarrow> sel_ok sel (seen dev ((tick dev ^^ j) s1))) \<and>
    0 < n \<and> n \<le> 50 \<and> r = (tick dev ^^ n) (put (\<lambda>d. d\<lparr>ld_arvalid := False\<rparr>) a) \<and>
    lo_rvalid answer \<and> lo_rresp answer = 0 \<and> lane_of addr (lo_rdata answer) = expected \<and>
    (\<forall>j \<le> stall. lo_rvalid (seen dev ((tick dev ^^ j) r)) \<and> lo_rdata (seen dev ((tick dev ^^ j) r)) = lo_rdata answer)"
proof -
  let ?s1 = "put (\<lambda>d. d\<lparr>ld_araddr := addr, ld_arvalid := True, ld_rready := False\<rparr>) s"
  from assms obtain a r h where a: "wait_for dev (sel_ok sel) lo_arready 50 ?s1 = Inr a"
    and r: "wait_for dev (\<lambda>_. True) lo_rvalid 50 (put (\<lambda>d. d\<lparr>ld_arvalid := False\<rparr>) a) = Inr r"
    and c: "lo_rresp (seen dev r) = 0" "lane_of addr (lo_rdata (seen dev r)) = expected"
    and h: "hold_for dev (\<lambda>o1. lo_rvalid o1 \<and> lo_rdata o1 = lo_rdata (seen dev r)) stall r = Inr h"
    unfolding lane_read_def Let_def by (elim bind_InrE) (auto simp: py_assert_def split: if_splits)
  from wait_for_Inr [OF a] obtain k where k: "0 < k" "k \<le> 50" "a = (tick dev ^^ k) ?s1" "lo_arready (seen dev a)"
    "\<forall>j. 0 < j \<longrightarrow> j \<le> k \<longrightarrow> sel_ok sel (seen dev ((tick dev ^^ j) ?s1))" by blast
  from wait_for_Inr [OF r] obtain n where n: "0 < n" "n \<le> 50" "r = (tick dev ^^ n) (put (\<lambda>d. d\<lparr>ld_arvalid := False\<rparr>) a)"
    "lo_rvalid (seen dev r)" by blast
  have "lo_rvalid (seen dev ((tick dev ^^ j) r)) \<and> lo_rdata (seen dev ((tick dev ^^ j) r)) = lo_rdata (seen dev r)" if "j \<le> stall" for j
    using hold_for_Inr [OF h] that n(4) by (cases "j = 0") auto
  with k n(1,2,3,4) c show ?thesis unfolding Let_def by blast
qed

text \<open>The selects the reads expect are those the bridge gives: the lanes of the address for the two regions with 32-bit
  registers, all of them for the timer.\<close>

definition expected_sel :: "lane_op \<Rightarrow> bool" where
  "expected_sel op = (case op of Lane_read addr expected sel stall \<Rightarrow> mmio_sel o3_platform 64 addr False 0xFF = Inr sel
     | Lane_write addr data strobe \<Rightarrow> mmio_sel o3_platform 64 addr True strobe = Inr strobe \<and> mmio_sel o3_platform 64 addr False 0xFF = Inr strobe)"

theorem lane_stimulus_selects: "list_all expected_sel lane_stimulus"
  by code_simp


section \<open>The register window\<close>

record csr_drive =
  cd_adr :: int
  cd_sel :: nat
  cd_dat_w :: int
  cd_we :: bool
  cd_cyc :: bool
  cd_stb :: bool

record csr_seen =
  cs_selected :: bool
  cs_err :: bool
  cs_ack :: bool
  cs_we :: bool
  cs_re :: bool
  cs_adr :: int

text \<open>The loop of one request: it is selected and without an error in every cycle, the register addresses strobed are
  collected, and the acknowledge ends it.\<close>

fun csr_wait :: "(csr_drive, csr_seen, 'e) device \<Rightarrow> nat \<Rightarrow> int list \<Rightarrow> (csr_drive, 'e) bench_sim \<Rightarrow>
    (int list \<times> (csr_drive, 'e) bench_sim) py" where
  "csr_wait dev 0 strobes s = Inl AssertionError"
| "csr_wait dev (Suc n) strobes s = (let s = tick dev s; o1 = seen dev s in
     py_bind (py_assert (cs_selected o1)) (\<lambda>_. py_bind (py_assert (\<not> cs_err o1)) (\<lambda>_.
     let strobes = strobes @ (if cs_we o1 \<or> cs_re o1 then [cs_adr o1] else []) in
       if cs_ack o1 then Inr (strobes, s) else csr_wait dev n strobes s)))"

definition csr_request :: "(csr_drive, csr_seen, 'e) device \<Rightarrow> bool \<Rightarrow> int \<Rightarrow> (csr_drive, 'e) bench_sim \<Rightarrow> (csr_drive, 'e) bench_sim py" where
  "csr_request dev wr addr s =
     py_bind (csr_wait dev 30 [] (put (\<lambda>d. \<lparr>cd_adr = drop_bit 3 addr, cd_sel = (if addr AND 4 \<noteq> 0 then 0xF0 else 0x0F),
         cd_dat_w = 0x1234567812345678, cd_we = wr, cd_cyc = True, cd_stb = True\<rparr>) s)) (\<lambda>(strobes, s).
     py_bind (py_assert (strobes = [drop_bit 2 (addr - 0x12000000)])) (\<lambda>_.
       hold_for dev (\<lambda>_. True) 4 (put (\<lambda>d. d\<lparr>cd_cyc := False, cd_stb := False\<rparr>) s)))"

text \<open>An address outside the window: ten cycles without a selection, an acknowledge or a strobe.\<close>

definition csr_quiet :: "csr_seen \<Rightarrow> bool" where
  "csr_quiet o1 \<longleftrightarrow> \<not> cs_selected o1 \<and> \<not> cs_ack o1 \<and> \<not> cs_re o1 \<and> \<not> cs_we o1"

definition csr_outside :: "(csr_drive, csr_seen, 'e) device \<Rightarrow> int \<Rightarrow> (csr_drive, 'e) bench_sim \<Rightarrow> (csr_drive, 'e) bench_sim py" where
  "csr_outside dev addr s =
     py_bind (hold_for dev csr_quiet 10 (put (\<lambda>d. d\<lparr>cd_adr := drop_bit 3 addr, cd_cyc := True, cd_stb := True\<rparr>) s)) (\<lambda>s.
       Inr (tick dev (put (\<lambda>d. d\<lparr>cd_cyc := False, cd_stb := False\<rparr>) s)))"

fun py_steps :: "('a \<Rightarrow> 's \<Rightarrow> 's py) \<Rightarrow> 'a list \<Rightarrow> 's \<Rightarrow> 's py" where
  "py_steps f [] s = Inr s"
| "py_steps f (x # xs) s = py_bind (f x s) (py_steps f xs)"

definition csr_addresses :: "int list" where
  "csr_addresses = map (\<lambda>page. 0x12000000 + int page * 0x1000) [0..<256] @ [0x120FFFF8, 0x120FFFFC]"

definition csr_probes :: "int list" where
  "csr_probes = [0x11FFFFF8, 0x12100000, 0x12FFFFF8, 0x13000000]"

text \<open>The window the constants describe.\<close>

definition csr_constants :: "platform \<Rightarrow> unit py" where
  "csr_constants file = py_bind (load_platform file) (\<lambda>cfg. py_bind (get_region cfg ''litex_mmio'') (\<lambda>r.
     py_bind (csr_address_width cfg) (\<lambda>width.
       py_assert (pr_origin r = 0x12000000 \<and> pr_size r = 0x100000 \<and> width = 18))))"

definition csr_idle :: csr_drive where
  "csr_idle = \<lparr>cd_adr = 0, cd_sel = 0, cd_dat_w = 0, cd_we = False, cd_cyc = False, cd_stb = False\<rparr>"

definition check_window :: "platform \<Rightarrow> (csr_drive, csr_seen, 'e) device \<Rightarrow> 'e \<Rightarrow> unit py" where
  "check_window file dev e =
     py_bind (csr_constants file) (\<lambda>_.
     py_bind (py_steps (\<lambda>(wr, addr). csr_request dev wr addr) (concat (map (\<lambda>wr. map (Pair wr) csr_addresses) [False, True]))
       \<lparr>bn_env = e, bn_now = csr_idle, bn_later = csr_idle\<rparr>) (\<lambda>s.
     py_bind (py_steps (csr_outside dev) csr_probes s) (\<lambda>_. Inr ())))"

lemma csr_wait_Inr:
  "csr_wait dev n strobes s = Inr (out, s') \<Longrightarrow>
    \<exists>k. 0 < k \<and> k \<le> n \<and> s' = (tick dev ^^ k) s \<and> cs_ack (seen dev s') \<and>
      out = strobes @ map (\<lambda>j. cs_adr (seen dev ((tick dev ^^ j) s)))
        (filter (\<lambda>j. cs_we (seen dev ((tick dev ^^ j) s)) \<or> cs_re (seen dev ((tick dev ^^ j) s))) [1..<Suc k])"
proof (induction n arbitrary: s strobes)
  case (Suc n)
  let ?s = "tick dev s" and ?hit = "\<lambda>s. cs_we (seen dev s) \<or> cs_re (seen dev s)"
  let ?new = "strobes @ (if ?hit ?s then [cs_adr (seen dev ?s)] else [])"
  from Suc.prems have r: "(if cs_ack (seen dev ?s) then Inr (?new, ?s) else csr_wait dev n ?new ?s) = Inr (out, s')"
    by (simp add: Let_def py_bind_Inr_iff py_assert_def split: if_splits)
  show ?case
  proof (cases "cs_ack (seen dev ?s)")
    case True
    with r show ?thesis by (intro exI [of _ 1]) auto
  next
    case False
    with r have "csr_wait dev n ?new ?s = Inr (out, s')" by simp
    from Suc.IH [OF this] obtain k where k: "0 < k" "k \<le> n" "s' = (tick dev ^^ k) ?s" "cs_ack (seen dev s')"
      "out = ?new @ map (\<lambda>j. cs_adr (seen dev ((tick dev ^^ j) ?s))) (filter (\<lambda>j. ?hit ((tick dev ^^ j) ?s)) [1..<Suc k])" by blast
    have shift: "(tick dev ^^ Suc j) s = (tick dev ^^ j) ?s" for j by (simp add: funpow_Suc_right del: funpow.simps)
    have "[1..<Suc (Suc k)] = 1 # map Suc [1..<Suc k]" by (simp add: map_Suc_upt upt_conv_Cons del: upt_Suc)
    then have "map (\<lambda>j. cs_adr (seen dev ((tick dev ^^ j) s))) (filter (\<lambda>j. ?hit ((tick dev ^^ j) s)) [1..<Suc (Suc k)]) =
        (if ?hit ?s then [cs_adr (seen dev ?s)] else []) @
        map (\<lambda>j. cs_adr (seen dev ((tick dev ^^ j) ?s))) (filter (\<lambda>j. ?hit ((tick dev ^^ j) ?s)) [1..<Suc k])"
      by (simp add: filter_map comp_def shift del: upt_Suc funpow.simps(2))
    with k shift [of k] show ?thesis by (intro exI [of _ "Suc k"]) simp
  qed
qed simp

lemma py_steps_each:
  "py_steps f xs s = Inr s' \<Longrightarrow> x \<in> set xs \<Longrightarrow> \<exists>a b. f x a = Inr b"
  by (induction xs arbitrary: s) (auto simp: py_bind_Inr_iff)

lemma csr_request_wait:
  assumes "csr_request dev wr addr a = Inr b"
  obtains s strobes c where "csr_wait dev 30 [] s = Inr (strobes, c)" "cd_adr (bn_later s) = drop_bit 3 addr"
    "cd_we (bn_later s) = wr" "strobes = [drop_bit 2 (addr - 0x12000000)]"
proof -
  let ?s = "put (\<lambda>d. \<lparr>cd_adr = drop_bit 3 addr, cd_sel = (if addr AND 4 \<noteq> 0 then 0xF0 else 0x0F),
         cd_dat_w = 0x1234567812345678, cd_we = wr, cd_cyc = True, cd_stb = True\<rparr>) a"
  obtain p where p: "csr_wait dev 30 [] ?s = Inr p"
    "(case p of (strobes, s) \<Rightarrow> py_bind (py_assert (strobes = [drop_bit 2 (addr - 0x12000000)])) (\<lambda>_.
       hold_for dev (\<lambda>_. True) 4 (put (\<lambda>d. d\<lparr>cd_cyc := False, cd_stb := False\<rparr>) s))) = Inr b"
    using assms unfolding csr_request_def by (rule bind_InrE)
  obtain strobes c where pair: "p = (strobes, c)" by (cases p)
  from p(2) have "strobes = [drop_bit 2 (addr - 0x12000000)]" unfolding pair prod.case
    by (elim bind_InrE) (simp only: py_assert_def split: if_splits, simp)
  with p(1) [unfolded pair] show thesis by (intro that [of ?s strobes c]) (simp_all add: put_def)
qed

text \<open>What a passed test of the window has seen: for every page of the window and both directions some request to it was
  acknowledged within 30 cycles with exactly one register strobe, at the word offset of the address, and these offsets
  are distinct and fit the address width.\<close>

theorem csr_window_observes:
  assumes "check_window file dev e = Inr ()"
  shows "(\<forall>wr. \<forall>addr \<in> set csr_addresses. \<exists>s k. 0 < k \<and> k \<le> 30 \<and> cs_ack (seen dev ((tick dev ^^ k) s)) \<and>
      cd_adr (bn_later s) = drop_bit 3 addr \<and> cd_we (bn_later s) = wr \<and>
      map (\<lambda>j. cs_adr (seen dev ((tick dev ^^ j) s)))
        (filter (\<lambda>j. cs_we (seen dev ((tick dev ^^ j) s)) \<or> cs_re (seen dev ((tick dev ^^ j) s))) [1..<Suc k]) =
      [drop_bit 2 (addr - 0x12000000)]) \<and>
    distinct (map (\<lambda>addr. drop_bit 2 (addr - 0x12000000)) csr_addresses) \<and>
    (\<forall>addr \<in> set csr_addresses. 0 \<le> drop_bit 2 (addr - 0x12000000) \<and> drop_bit 2 (addr - 0x12000000) < 2 ^ 18)"
proof (intro conjI allI ballI)
  fix wr addr assume addr: "addr \<in> set csr_addresses"
  from assms obtain s0 s1 where "py_steps (\<lambda>(wr, addr). csr_request dev wr addr)
      (concat (map (\<lambda>wr. map (Pair wr) csr_addresses) [False, True])) s0 = Inr s1"
    unfolding check_window_def by (elim bind_InrE) blast
  moreover have "(wr, addr) \<in> set (concat (map (\<lambda>wr. map (Pair wr) csr_addresses) [False, True]))"
    using addr by (cases wr) auto
  ultimately obtain a b where "csr_request dev wr addr a = Inr b" by (metis (no_types, lifting) case_prod_conv py_steps_each)
  then obtain s strobes c where w: "csr_wait dev 30 [] s = Inr (strobes, c)"
    and s: "cd_adr (bn_later s) = drop_bit 3 addr" "cd_we (bn_later s) = wr"
    and one: "strobes = [drop_bit 2 (addr - 0x12000000)]" by (rule csr_request_wait)
  from csr_wait_Inr [OF w] obtain k where "0 < k" "k \<le> 30" "c = (tick dev ^^ k) s" "cs_ack (seen dev c)"
    "strobes = [] @ map (\<lambda>j. cs_adr (seen dev ((tick dev ^^ j) s)))
        (filter (\<lambda>j. cs_we (seen dev ((tick dev ^^ j) s)) \<or> cs_re (seen dev ((tick dev ^^ j) s))) [1..<Suc k])" by blast
  with s one show "\<exists>s k. 0 < k \<and> k \<le> 30 \<and> cs_ack (seen dev ((tick dev ^^ k) s)) \<and>
      cd_adr (bn_later s) = drop_bit 3 addr \<and> cd_we (bn_later s) = wr \<and>
      map (\<lambda>j. cs_adr (seen dev ((tick dev ^^ j) s)))
        (filter (\<lambda>j. cs_we (seen dev ((tick dev ^^ j) s)) \<or> cs_re (seen dev ((tick dev ^^ j) s))) [1..<Suc k]) =
      [drop_bit 2 (addr - 0x12000000)]"
    unfolding append_Nil by (intro exI [of _ s] exI [of _ k] conjI) (simp_all only:)
next
  have pages: "map (\<lambda>addr. drop_bit 2 (addr - 0x12000000)) csr_addresses = map (\<lambda>page. int page * 0x400) [0..<256] @ [0x3FFFE, 0x3FFFF]"
    by (simp add: csr_addresses_def comp_def drop_bit_eq_div)
  show "distinct (map (\<lambda>addr. drop_bit 2 (addr - 0x12000000)) csr_addresses)"
  proof -
    have four: "4 dvd int page * 0x400" for page by (rule dvd_mult) simp
    have no: "\<not> 4 dvd (0x3FFFE :: int)" "\<not> 4 dvd (0x3FFFF :: int)" by simp_all
    have "0x3FFFE \<notin> set (map (\<lambda>page. int page * 0x400) [0..<256])" "0x3FFFF \<notin> set (map (\<lambda>page. int page * 0x400) [0..<256])"
      using four no by (metis (no_types, lifting) imageE list.set_map)+
    moreover have "distinct (map (\<lambda>page. int page * 0x400) [0..<256])" by (simp add: distinct_map inj_on_def)
    ultimately show ?thesis unfolding pages distinct_append by simp
  qed
  fix addr assume "addr \<in> set csr_addresses"
  then have "drop_bit 2 (addr - 0x12000000) \<in> set (map (\<lambda>addr. drop_bit 2 (addr - 0x12000000)) csr_addresses)" by simp
  then have m: "drop_bit 2 (addr - 0x12000000) \<in> set (map (\<lambda>page. int page * 0x400) [0..<256] @ [0x3FFFE, 0x3FFFF])"
    unfolding pages .
  have all: "\<forall>x \<in> set (map (\<lambda>page. int page * 0x400) [0..<256] @ [0x3FFFE, 0x3FFFF]). 0 \<le> x \<and> x < 2 ^ 18" by auto
  show "0 \<le> drop_bit 2 (addr - 0x12000000)" "drop_bit 2 (addr - 0x12000000) < 2 ^ 18"
    using bspec [OF all m] by blast+
qed

lemma o3_csr_constants: "csr_constants o3_platform = Inr ()"
proof -
  have "map_sum id (\<lambda>r. (pr_origin r, pr_size r)) (get_region o3_platform ''litex_mmio'') = Inr (0x12000000, 0x100000)" by code_simp
  then obtain r where "get_region o3_platform ''litex_mmio'' = Inr r" "pr_origin r = 0x12000000" "pr_size r = 0x100000"
    by (cases "get_region o3_platform ''litex_mmio''") auto
  then show ?thesis by (simp add: csr_constants_def o3_platform_loads o3_platform_csr py_assert_def)
qed

end
