(* ===== verification/Cache_Bench.thy ===== *)
theory Cache_Bench
  imports Mem_Agents
begin

text \<open>
  The bench around the L1 data cache: \<open>sim/cocotb/dcache/l8a_agents.py\<close>, class \<open>CacheBench\<close>. It plays the L2 (it
  grants lines, takes puts and probe answers, snoops) and the processor's reservation and translation
  stages (\<open>issue\<close>, \<open>load\<close>, \<open>store\<close>). The hardware is a parameter, \<open>cb_world\<close>: what it drives in
  each cycle, what is read between two cycles, and what the test has set. The drivers wait by calling
  \<open>tick\<close>, which a subclass overrides, so they take it as an argument; the state is an extensible
  record for the same reason. The event log is left out: only a failed assertion prints it. \<open>reset\<close>
  drives pins only; what it reads (the identifier widths, the reservation depth) is part of the
  configuration.
\<close>

section \<open>Data\<close>

abbreviation (input) S_OK :: nat where "S_OK \<equiv> 0"
abbreviation (input) S_MISS :: nat where "S_MISS \<equiv> 1"
abbreviation (input) S_REPLAY :: nat where "S_REPLAY \<equiv> 2"
abbreviation (input) S_ERROR :: nat where "S_ERROR \<equiv> 3"

abbreviation (input) R_FULL :: nat where "R_FULL \<equiv> 5"
abbreviation (input) R_WB_LINE :: nat where "R_WB_LINE \<equiv> 6"
abbreviation (input) R_CONFLICT :: nat where "R_CONFLICT \<equiv> 7"
abbreviation (input) R_SNAP :: nat where "R_SNAP \<equiv> 8"
abbreviation (input) R_BANK :: nat where "R_BANK \<equiv> 9"

text \<open>\<open>unpack\<close>: the last field is the lowest; nothing may remain.\<close>

fun unpack_from :: "nat \<Rightarrow> (string \<times> nat) list \<Rightarrow> (string \<times> nat) list py" where
  "unpack_from v [] = py_bind (py_assert (v = 0)) (\<lambda>_. Inr [])"
| "unpack_from v ((name, width) # fs) =
     py_bind (unpack_from (drop_bit width v) fs) (\<lambda>r. Inr ((name, v AND (push_bit width 1 - 1)) # r))"

definition unpack :: "nat \<Rightarrow> (string \<times> nat) list \<Rightarrow> (string \<times> nat) list py" where
  "unpack v fs = unpack_from v (rev fs)"

text \<open>A field of an unpacked word; the code asks for names of the layout only.\<close>

definition field_of :: "(string \<times> nat) list \<Rightarrow> string \<Rightarrow> nat" where
  "field_of r name = (case map_of r name of None \<Rightarrow> 0 | Some x \<Rightarrow> x)"

record cpu_req =
  cq_addr :: nat
  cq_ident :: nat
  cq_lane :: nat
  cq_size :: nat
  cq_write :: bool
  cq_sta :: bool
  cq_signed :: bool
  cq_flw :: bool
  cq_head :: bool
  cq_blocked :: bool
  cq_forward :: bool
  cq_forward_data :: nat
  cq_translation_miss :: bool
  cq_exc :: nat
  cq_src :: nat
  cq_data :: nat
  cq_mask :: nat
  cq_branch :: nat
  cq_va :: "nat option"
  cq_rob :: nat
  cq_heu :: bool
  cq_check_only :: bool
  cq_split :: bool
  cq_raw :: bool
  cq_need_d :: bool
  cq_bytes :: nat
  cq_amo :: nat

text \<open>\<open>Cpu(addr)\<close> with its defaults.\<close>

definition cpu_default :: "nat \<Rightarrow> cpu_req" where
  "cpu_default addr = \<lparr>cq_addr = addr, cq_ident = 1, cq_lane = 0, cq_size = 3, cq_write = False, cq_sta = False,
     cq_signed = False, cq_flw = False, cq_head = True, cq_blocked = False, cq_forward = False,
     cq_forward_data = 0, cq_translation_miss = False, cq_exc = 0, cq_src = 0, cq_data = 0, cq_mask = 255,
     cq_branch = 0, cq_va = None, cq_rob = 1, cq_heu = False, cq_check_only = False, cq_split = False,
     cq_raw = False, cq_need_d = False, cq_bytes = 0, cq_amo = 0\<rparr>"

record cb_resp =
  rs_valid :: bool
  rs_src :: nat
  rs_status :: nat
  rs_reason :: nat
  rs_mshr :: nat
  rs_ident :: nat
  rs_gen :: nat
  rs_sq :: nat
  rs_data :: nat
  rs_sc_fail :: bool
  rs_need_d :: bool
  rs_io :: bool
  rs_head :: bool
  rs_pa :: nat
  rs_exc :: nat

record cb_wake =
  wk_valid :: bool
  wk_mshr :: nat
  wk_err :: bool
  wk_free :: bool
  wk_wb_free :: bool

text \<open>A queued response of the L2: when it is due, its operation, transaction, error, data and line.\<close>

record cb_grant =
  cg_due :: nat
  cg_op :: nat
  cg_tid :: nat
  cg_err :: bool
  cg_data :: nat
  cg_line :: nat

text \<open>A message on the up channel.\<close>

record cb_msg =
  um_op :: nat
  um_dirty :: bool
  um_line :: nat
  um_tid :: nat
  um_data :: nat

text \<open>The identifier widths of the hardware.\<close>

record cb_widths =
  wd_lq :: nat
  wd_sq :: nat
  wd_rob :: nat
  wd_branch :: nat

record cb_cfg =
  cc_n :: nat
  cc_sets :: nat
  cc_ways :: nat
  cc_widths :: cb_widths
  cc_reservation :: nat
  cc_block_gets :: bool
  cc_block_putacks :: bool
  cc_latency :: nat
  cc_errors :: "nat list"
  cc_shared :: "nat list"
  cc_request_ready :: bool
  cc_snp_dma_write :: bool

text \<open>The tag monitor: two state bits and 26 address bits per way.\<close>

record cb_mon =
  cm_state :: nat
  cm_addr :: nat

text \<open>What the hardware drives in a cycle, and what is read between two cycles.\<close>

record cb_dut =
  dv_cpu_ready :: nat
  dv_resp :: "nat \<Rightarrow> nat"
  dv_st_ready :: bool
  dv_st_resp :: nat
  dv_ptw_ready :: bool
  dv_ptw_resp :: nat
  dv_ad_ready :: bool
  dv_ad_resp :: nat
  dv_wake :: nat
  dv_req_valid :: bool
  dv_req :: nat
  dv_resp_ready :: bool
  dv_up_valid :: bool
  dv_up :: nat
  dv_snp_ready :: bool
  dv_fatal :: nat
  dv_dma_inv :: bool
  dv_dma_line :: nat
  dv_mon :: cb_mon

record cb_pre =
  pr_full_busy :: bool
  pr_internal_busy :: bool
  pr_idle :: bool
  pr_mon :: cb_mon

record cb_world =
  cw_cfg :: "nat \<Rightarrow> cb_cfg"
  cw_mid :: "nat \<Rightarrow> cb_dut"
  cw_pre :: "nat \<Rightarrow> cb_pre"

record cbench =
  cb_cycle :: nat
  cb_mem :: "nat \<rightharpoonup> nat"
  cb_gold :: "nat \<rightharpoonup> nat"
  cb_held :: "nat \<rightharpoonup> hold"
  cb_pending :: "cb_grant list"
  cb_sent :: "(nat \<times> nat) list"
  cb_rsp :: "cb_grant option"
  cb_up :: "(nat \<times> cb_msg) list"
  cb_snp :: "(nat \<times> nat \<times> nat) option"
  cb_snp_sent :: bool
  cb_dma_inval :: "(nat \<times> nat \<times> nat) list"
  cb_cpu :: "cpu_req option list"
  cb_prev_cpu :: "cpu_req option list"
  cb_st :: "cpu_req option"
  cb_ptw :: "cpu_req option"
  cb_ad :: "(nat \<times> nat \<times> nat \<times> nat \<times> nat) option"
  cb_responses :: "(nat \<times> nat \<times> cb_resp) list"
  cb_st_responses :: "(nat \<times> cb_resp) list"
  cb_ptw_responses :: "(nat \<times> cb_resp) list"
  cb_ad_responses :: "(nat \<times> nat) list"
  cb_wakes :: "(nat \<times> cb_wake) list"

definition cb_init :: cbench where
  "cb_init = \<lparr>cb_cycle = 0, cb_mem = Map.empty, cb_gold = Map.empty, cb_held = Map.empty, cb_pending = [], cb_sent = [],
     cb_rsp = None, cb_up = [], cb_snp = None, cb_snp_sent = False, cb_dma_inval = [], cb_cpu = [None, None],
     cb_prev_cpu = [None, None], cb_st = None, cb_ptw = None, cb_ad = None, cb_responses = [], cb_st_responses = [],
     cb_ptw_responses = [], cb_ad_responses = [], cb_wakes = []\<rparr>"

section \<open>Memory and words\<close>

definition cb_initial :: "nat \<Rightarrow> nat" where
  "cb_initial line = bytes_le (map (\<lambda>i. (line * 7 + i * 3 + 11) AND 255) [0..<64])"

definition cb_golden_line :: "'a cbench_scheme \<Rightarrow> nat \<Rightarrow> nat" where
  "cb_golden_line s line = (case cb_gold s line of None \<Rightarrow> cb_initial line | Some d \<Rightarrow> d)"

definition cb_backing :: "'a cbench_scheme \<Rightarrow> nat \<Rightarrow> nat" where
  "cb_backing s line = (case cb_mem s line of None \<Rightarrow> cb_initial line | Some d \<Rightarrow> d)"

definition cb_golden :: "'a cbench_scheme \<Rightarrow> nat \<Rightarrow> nat \<Rightarrow> nat" where
  "cb_golden s addr sz =
     drop_bit ((addr AND 63) * 8) (cb_golden_line s (drop_bit 6 addr)) AND (push_bit (sz * 8) 1 - 1)"

definition cb_req_bits :: "cb_widths \<Rightarrow> cpu_req option \<Rightarrow> nat py" where
  "cb_req_bits wd r0 = (case r0 of None \<Rightarrow> Inr 0 | Some r \<Rightarrow>
     pack [(3, cq_src r), (56, cq_addr r), (64, case cq_va r of None \<Rightarrow> cq_addr r | Some va \<Rightarrow> va), (2, cq_size r),
       (1, of_bool (cq_write r)), (1, of_bool (cq_sta r)), (1, of_bool (cq_signed r)), (1, of_bool (cq_flw r)),
       (1, of_bool (cq_head r)), (1, of_bool (cq_heu r)), (1, of_bool (cq_check_only r)), (1, of_bool (cq_split r)),
       (1, of_bool (cq_raw r)), (1, of_bool (cq_need_d r)), (4, cq_bytes r), (2, 3), (8, 0), (3, 0),
       (1, of_bool (cq_forward r)), (1, of_bool (cq_blocked r)), (1, of_bool (cq_translation_miss r)),
       (64, cq_forward_data r), (71, cq_exc r), (64, cq_data r), (8, cq_mask r), (4, cq_amo r),
       (wd_lq wd, cq_ident r AND (push_bit (wd_lq wd) 1 - 1)), (8, 1),
       (wd_sq wd, cq_ident r AND (push_bit (wd_sq wd) 1 - 1)), (wd_rob wd, cq_rob r), (wd_branch wd, cq_branch r)])"

definition cb_resp_layout :: "cb_widths \<Rightarrow> (string \<times> nat) list" where
  "cb_resp_layout wd = [(''valid'', 1), (''src'', 3), (''status'', 3), (''reason'', 4), (''mshr'', 2), (''ident'', wd_lq wd),
     (''gen'', 8), (''sq'', wd_sq wd), (''data'', 64), (''sc_fail'', 1), (''need_d'', 1), (''io'', 1), (''head'', 1),
     (''pa'', 56), (''exc'', 71)]"

definition cb_resp_fields :: "cb_widths \<Rightarrow> nat \<Rightarrow> cb_resp py" where
  "cb_resp_fields wd raw = py_bind (unpack raw (cb_resp_layout wd)) (\<lambda>r. let f = field_of r in Inr
     \<lparr>rs_valid = (f ''valid'' \<noteq> 0), rs_src = f ''src'', rs_status = f ''status'', rs_reason = f ''reason'', rs_mshr = f ''mshr'',
      rs_ident = f ''ident'', rs_gen = f ''gen'', rs_sq = f ''sq'', rs_data = f ''data'', rs_sc_fail = (f ''sc_fail'' \<noteq> 0),
      rs_need_d = (f ''need_d'' \<noteq> 0), rs_io = (f ''io'' \<noteq> 0), rs_head = (f ''head'' \<noteq> 0), rs_pa = f ''pa'', rs_exc = f ''exc''\<rparr>)"

definition cb_wake_fields :: "nat \<Rightarrow> cb_wake py" where
  "cb_wake_fields raw = py_bind (unpack raw [(''valid'', 1), (''mshr'', 2), (''err'', 1), (''free'', 1), (''wb_free'', 1)])
     (\<lambda>r. let f = field_of r in Inr \<lparr>wk_valid = (f ''valid'' \<noteq> 0), wk_mshr = f ''mshr'', wk_err = (f ''err'' \<noteq> 0),
        wk_free = (f ''free'' \<noteq> 0), wk_wb_free = (f ''wb_free'' \<noteq> 0)\<rparr>)"

definition cb_up_layout :: "(string \<times> nat) list" where
  "cb_up_layout = [(''op'', 2), (''dirty'', 1), (''line'', 26), (''tid'', 2), (''data'', 512)]"

definition cb_up_fields :: "nat \<Rightarrow> cb_msg py" where
  "cb_up_fields raw = py_bind (unpack raw cb_up_layout)
     (\<lambda>r. let f = field_of r in Inr \<lparr>um_op = f ''op'', um_dirty = (f ''dirty'' \<noteq> 0), um_line = f ''line'', um_tid = f ''tid'',
        um_data = f ''data''\<rparr>)"

text \<open>Operation, line and transaction of a request word; mask and data are not looked at.\<close>

definition cb_get_fields :: "nat \<Rightarrow> (nat \<times> nat \<times> nat) py" where
  "cb_get_fields raw = py_bind (unpack raw [(''op'', 2), (''line'', 26), (''tid'', 2), (''mask'', 64), (''data'', 512)])
     (\<lambda>r. Inr (field_of r ''op'', field_of r ''line'', field_of r ''tid''))"

text \<open>The state of the first valid way that holds the line, 0 when there is none.\<close>

definition cb_state :: "cb_cfg \<Rightarrow> cb_mon \<Rightarrow> nat \<Rightarrow> nat" where
  "cb_state cfg m addr =
     (let line = drop_bit 6 addr in
      case find (\<lambda>k. drop_bit (2 * k) (cm_state m) AND 3 \<noteq> 0 \<and> drop_bit (26 * k) (cm_addr m) AND (push_bit 26 1 - 1) = line)
             [0..<cc_sets cfg * cc_ways cfg] of
        None \<Rightarrow> 0 | Some k \<Rightarrow> drop_bit (2 * k) (cm_state m) AND 3)"

section \<open>Driving the pins\<close>

text \<open>The first queued response that is due and not blocked is presented until it is taken.\<close>

definition cb_offered :: "cb_cfg \<Rightarrow> nat \<Rightarrow> cb_grant \<Rightarrow> bool" where
  "cb_offered cfg now g \<longleftrightarrow> cg_due g \<le> now \<and> \<not> (if cg_op g \<noteq> PUTACK then cc_block_gets cfg else cc_block_putacks cfg)"

definition cb_present_rsp :: "cb_cfg \<Rightarrow> 'a cbench_scheme \<Rightarrow> 'a cbench_scheme" where
  "cb_present_rsp cfg s = (case cb_rsp s of Some _ \<Rightarrow> s | None \<Rightarrow>
     (case find (cb_offered cfg (cb_cycle s)) (cb_pending s) of
        None \<Rightarrow> s
      | Some g \<Rightarrow> s\<lparr>cb_pending := remove1 g (cb_pending s), cb_rsp := Some g\<rparr>))"

record cb_pins =
  cp_cpu_valid :: nat
  cp_cpu :: "nat list"
  cp_s1 :: "nat list"
  cp_st :: nat
  cp_ptw :: nat
  cp_ad :: "nat option"
  cp_rsp :: "nat option"
  cp_snp :: "nat option"

definition cb_cpu_valid :: "cpu_req option list \<Rightarrow> nat" where
  "cb_cpu_valid rs = sum_list (map (\<lambda>(p, r). push_bit p (of_bool (r \<noteq> None))) (enumerate 0 rs))"

fun py_mapM :: "('a \<Rightarrow> 'b py) \<Rightarrow> 'a list \<Rightarrow> 'b list py" where
  "py_mapM f [] = Inr []"
| "py_mapM f (x # xs) = py_bind (f x) (\<lambda>y. py_bind (py_mapM f xs) (\<lambda>ys. Inr (y # ys)))"

definition py_opt :: "('a \<Rightarrow> 'b py) \<Rightarrow> 'a option \<Rightarrow> 'b option py" where
  "py_opt f x = (case x of None \<Rightarrow> Inr None | Some y \<Rightarrow> py_bind (f y) (\<lambda>z. Inr (Some z)))"

definition cb_drive :: "cb_cfg \<Rightarrow> 'a cbench_scheme \<Rightarrow> cb_pins py" where
  "cb_drive cfg s = (let wd = cc_widths cfg in
     py_bind (py_mapM (cb_req_bits wd) (cb_cpu s)) (\<lambda>cpus.
     py_bind (py_mapM (cb_req_bits wd) (cb_prev_cpu s)) (\<lambda>s1s.
     py_bind (cb_req_bits wd (cb_st s)) (\<lambda>st.
     py_bind (cb_req_bits wd (cb_ptw s)) (\<lambda>ptw.
     py_bind (py_opt (\<lambda>(pa, pte, a, d, tag). pack [(56, pa), (64, pte), (1, a), (1, d), (8, tag)]) (cb_ad s)) (\<lambda>ad.
     py_bind (py_opt (\<lambda>g. pack [(3, cg_op g), (2, cg_tid g), (1, of_bool (cg_err g)), (512, cg_data g)]) (cb_rsp s)) (\<lambda>rsp.
     py_bind (py_opt (\<lambda>(op, owner, line). pack [(1, op), (1, owner), (1, of_bool (cc_snp_dma_write cfg)), (26, line)])
       (cb_snp s)) (\<lambda>snp.
       Inr \<lparr>cp_cpu_valid = cb_cpu_valid (cb_cpu s), cp_cpu = cpus, cp_s1 = s1s, cp_st = st, cp_ptw = ptw, cp_ad = ad,
            cp_rsp = rsp, cp_snp = (if cb_snp_sent s then None else snp)\<rparr>))))))))"

section \<open>Sampling\<close>

definition cb_log_resp :: "cb_widths \<Rightarrow> cb_dut \<Rightarrow> nat \<Rightarrow> 'a cbench_scheme \<Rightarrow> 'a cbench_scheme py" where
  "cb_log_resp wd v p s = py_bind (cb_resp_fields wd (dv_resp v p)) (\<lambda>r.
     Inr (if rs_valid r then s\<lparr>cb_responses := cb_responses s @ [(cb_cycle s, p, r)]\<rparr> else s))"

definition cb_log_st :: "cb_widths \<Rightarrow> cb_dut \<Rightarrow> 'a cbench_scheme \<Rightarrow> 'a cbench_scheme py" where
  "cb_log_st wd v s = py_bind (cb_resp_fields wd (dv_st_resp v)) (\<lambda>r.
     Inr (if rs_valid r then s\<lparr>cb_st_responses := cb_st_responses s @ [(cb_cycle s, r)]\<rparr> else s))"

definition cb_log_ptw :: "cb_widths \<Rightarrow> cb_dut \<Rightarrow> 'a cbench_scheme \<Rightarrow> 'a cbench_scheme py" where
  "cb_log_ptw wd v s = py_bind (cb_resp_fields wd (dv_ptw_resp v)) (\<lambda>r.
     Inr (if rs_valid r then s\<lparr>cb_ptw_responses := cb_ptw_responses s @ [(cb_cycle s, r)]\<rparr> else s))"

definition cb_log_ad :: "cb_dut \<Rightarrow> 'a cbench_scheme \<Rightarrow> 'a cbench_scheme" where
  "cb_log_ad v s = (if dv_ad_resp v AND 8 \<noteq> 0
     then s\<lparr>cb_ad_responses := cb_ad_responses s @ [(cb_cycle s, dv_ad_resp v)]\<rparr> else s)"

definition cb_log_wake :: "cb_dut \<Rightarrow> 'a cbench_scheme \<Rightarrow> 'a cbench_scheme py" where
  "cb_log_wake v s = (if dv_wake v = 0 then Inr s else
     py_bind (cb_wake_fields (dv_wake v)) (\<lambda>w. Inr (s\<lparr>cb_wakes := cb_wakes s @ [(cb_cycle s, w)]\<rparr>)))"

text \<open>Every presented request was reserved: the hardware must be ready for it.\<close>

definition cb_reserved :: "cb_dut \<Rightarrow> 'a cbench_scheme \<Rightarrow> bool" where
  "cb_reserved v s \<longleftrightarrow> list_all (\<lambda>(p, r). r \<noteq> None \<longrightarrow> drop_bit p (dv_cpu_ready v) AND 1 \<noteq> 0) (enumerate 0 (cb_cpu s))"

text \<open>A get: queue the grant with the memory's data. An upgrade of a shared line is acknowledged without data.\<close>

definition cb_get :: "cb_cfg \<Rightarrow> cb_dut \<Rightarrow> 'a cbench_scheme \<Rightarrow> 'a cbench_scheme py" where
  "cb_get cfg v s = (if \<not> dv_req_valid v \<or> \<not> cc_request_ready cfg then Inr s else
     py_bind (cb_get_fields (dv_req v)) (\<lambda>(op, line, tid).
     py_bind (py_assert (op \<in> {GETS, GETM} \<and> tid \<notin> fst ` set (cb_sent s))) (\<lambda>_.
     py_bind (py_assert (length (cb_sent s) < cc_n cfg)) (\<lambda>_.
     py_bind (py_assert (cb_held s line \<noteq> Some HX)) (\<lambda>_.
       let rspop = (if op = GETM \<and> cb_held s line = Some HS then ACKE
                    else if line \<in> set (cc_shared cfg) \<and> op = GETS then DATAS else DATAE)
       in Inr (s\<lparr>cb_sent := AList.update tid line (cb_sent s),
                 cb_pending := cb_pending s @ [\<lparr>cg_due = cb_cycle s + cc_latency cfg, cg_op = rspop, cg_tid = tid,
                   cg_err = (line \<in> set (cc_errors cfg)), cg_data = cb_backing s line, cg_line = line\<rparr>]\<rparr>))))))"

text \<open>The write-back of a dirty message.\<close>

definition cb_write_back :: "cb_msg \<Rightarrow> 'a cbench_scheme \<Rightarrow> 'a cbench_scheme py" where
  "cb_write_back q s = (if \<not> um_dirty q then Inr s else
     py_bind (py_assert (cb_held s (um_line q) = Some HX)) (\<lambda>_.
     py_bind (py_assert (um_data q = cb_golden_line s (um_line q))) (\<lambda>_.
       Inr (s\<lparr>cb_mem := (cb_mem s)(um_line q \<mapsto> um_data q)\<rparr>))))"

definition cb_release :: "cb_msg \<Rightarrow> 'a cbench_scheme \<Rightarrow> 'a cbench_scheme py" where
  "cb_release q s = (let line = um_line q in
     if um_op q = PUT then
       py_bind (py_assert (cb_held s line \<noteq> None)) (\<lambda>_.
         Inr (s\<lparr>cb_held := (cb_held s)(line := None),
                cb_pending := cb_pending s @ [\<lparr>cg_due = cb_cycle s + 7, cg_op = PUTACK, cg_tid = um_tid q,
                  cg_err = False, cg_data = 0, cg_line = line\<rparr>]\<rparr>))
     else (case cb_snp s of
         None \<Rightarrow> Inl AssertionError
       | Some (sop, owner, sline) \<Rightarrow>
           py_bind (py_assert (cb_snp_sent s)) (\<lambda>_.
           py_bind (py_assert (line = sline \<and> um_op q = (if sop = 0 then INVACK else DOWNACK))) (\<lambda>_.
             Inr (s\<lparr>cb_held := (if um_op q = INVACK then (cb_held s)(line := None)
                              else if cb_held s line \<noteq> None then (cb_held s)(line \<mapsto> HS) else cb_held s),
                    cb_snp := None, cb_snp_sent := False\<rparr>)))))"

definition cb_up_msg :: "cb_dut \<Rightarrow> 'a cbench_scheme \<Rightarrow> 'a cbench_scheme py" where
  "cb_up_msg v s = (if \<not> dv_up_valid v then Inr s else
     py_bind (cb_up_fields (dv_up v)) (\<lambda>q.
     py_bind (cb_write_back q (s\<lparr>cb_up := cb_up s @ [(cb_cycle s, q)]\<rparr>)) (\<lambda>s. cb_release q s)))"

text \<open>The cache takes the presented response.\<close>

definition cb_take_rsp :: "cb_dut \<Rightarrow> 'a cbench_scheme \<Rightarrow> 'a cbench_scheme py" where
  "cb_take_rsp v s = (case cb_rsp s of None \<Rightarrow> Inr s | Some g \<Rightarrow>
     if \<not> dv_resp_ready v then Inr s else
     py_bind (if cg_op g = PUTACK then Inr s else
       (case map_of (cb_sent s) (cg_tid g) of
          None \<Rightarrow> Inl KeyError
        | Some line \<Rightarrow> py_bind (py_assert (line = cg_line g)) (\<lambda>_.
            Inr (s\<lparr>cb_sent := AList.delete (cg_tid g) (cb_sent s),
                   cb_held := (if cg_err g then cb_held s
                               else (cb_held s)(cg_line g \<mapsto> (if cg_op g = DATAS then HS else HX)))\<rparr>)))) (\<lambda>s.
       Inr (s\<lparr>cb_rsp := None\<rparr>)))"

definition cb_take_snp :: "cb_dut \<Rightarrow> 'a cbench_scheme \<Rightarrow> 'a cbench_scheme" where
  "cb_take_snp v s = (if cb_snp s \<noteq> None \<and> \<not> cb_snp_sent s \<and> dv_snp_ready v then s\<lparr>cb_snp_sent := True\<rparr> else s)"

text \<open>Accepted requests are withdrawn; the processor's pair moves to the next stage.\<close>

definition cb_take_requests :: "cb_dut \<Rightarrow> 'a cbench_scheme \<Rightarrow> 'a cbench_scheme" where
  "cb_take_requests v s = s\<lparr>cb_st := (if dv_st_ready v then None else cb_st s),
     cb_ptw := (if dv_ptw_ready v then None else cb_ptw s), cb_ad := (if dv_ad_ready v then None else cb_ad s),
     cb_prev_cpu := cb_cpu s, cb_cpu := [None, None]\<rparr>"

text \<open>The responses, logged before any channel moves.\<close>

definition cb_log_all :: "cb_widths \<Rightarrow> cb_dut \<Rightarrow> 'a cbench_scheme \<Rightarrow> 'a cbench_scheme py" where
  "cb_log_all wd v s = py_bind (cb_log_resp wd v 0 s) (\<lambda>s. py_bind (cb_log_resp wd v 1 s) (\<lambda>s.
     py_bind (cb_log_st wd v s) (\<lambda>s. py_bind (cb_log_ptw wd v s) (\<lambda>s. Inr (cb_log_ad v s)))))"

text \<open>A DMA invalidation must coincide with the tag becoming invalid.\<close>

definition cb_dma_check :: "cb_cfg \<Rightarrow> cb_dut \<Rightarrow> cb_mon \<Rightarrow> 'a cbench_scheme \<Rightarrow> 'a cbench_scheme py" where
  "cb_dma_check cfg v after s = (if \<not> dv_dma_inv v then Inr s else
     let addr = push_bit 6 (dv_dma_line v); before = cb_state cfg (dv_mon v) addr in
     py_bind (py_assert (cb_state cfg after addr = 0)) (\<lambda>_.
       Inr (s\<lparr>cb_dma_inval := cb_dma_inval s @ [(cb_cycle s - 1, dv_dma_line v, before)]\<rparr>)))"

definition cb_sample :: "cb_cfg \<Rightarrow> cb_dut \<Rightarrow> 'a cbench_scheme \<Rightarrow> 'a cbench_scheme py" where
  "cb_sample cfg v s =
     py_bind (py_assert (dv_fatal v = 0)) (\<lambda>_.
     py_bind (py_assert (cb_reserved v s)) (\<lambda>_.
     py_bind (cb_log_all (cc_widths cfg) v s) (\<lambda>s.
     py_bind (cb_log_wake v s) (\<lambda>s.
     py_bind (cb_get cfg v s) (\<lambda>s.
     py_bind (cb_up_msg v s) (\<lambda>s.
     py_bind (cb_take_rsp v s) (\<lambda>s.
       Inr (cb_take_requests v (cb_take_snp v s)))))))))"

definition cb_tick :: "cb_world \<Rightarrow> 'a cbench_scheme \<Rightarrow> 'a cbench_scheme py" where
  "cb_tick w s = (let now = cb_cycle s; cfg = cw_cfg w now; v = cw_mid w now; s1 = cb_present_rsp cfg s in
     py_bind (cb_drive cfg s1) (\<lambda>_.
     py_bind (cb_sample cfg v s1) (\<lambda>s2.
       cb_dma_check cfg v (pr_mon (cw_pre w (Suc now))) (s2\<lparr>cb_cycle := Suc now\<rparr>))))"

section \<open>Drivers\<close>

primrec cb_until :: "('s \<Rightarrow> 's py) \<Rightarrow> ('s \<Rightarrow> bool) \<Rightarrow> nat \<Rightarrow> 's \<Rightarrow> 's py" where
  "cb_until tick cond 0 s = Inl AssertionError"
| "cb_until tick cond (Suc n) s = (if cond s then Inr s else py_bind (tick s) (cb_until tick cond n))"

primrec cb_ticks :: "('s \<Rightarrow> 's py) \<Rightarrow> nat \<Rightarrow> 's \<Rightarrow> 's py" where
  "cb_ticks tick 0 s = Inr s"
| "cb_ticks tick (Suc n) s = py_bind (tick s) (cb_ticks tick n)"

text \<open>The requests of one cycle, by lane.\<close>

fun cb_place :: "cpu_req list \<Rightarrow> cpu_req option list \<Rightarrow> cpu_req option list py" where
  "cb_place [] cpu = Inr cpu"
| "cb_place (r # rs) cpu = py_bind (py_upd cpu (cq_lane r) (Some r)) (cb_place rs)"

text \<open>Reserve, present, and collect the answers three cycles later, in the order of the requests. (\<open>next\<close> on an exhausted
  generator raises \<open>StopIteration\<close>, which leaves a coroutine as \<open>RuntimeError\<close>.)\<close>

definition cb_answer :: "(nat \<times> nat \<times> cb_resp) list \<Rightarrow> cpu_req \<Rightarrow> cb_resp py" where
  "cb_answer answers r = (case find (\<lambda>(_, p, _). p = cq_lane r) answers of
     None \<Rightarrow> Inl RuntimeError | Some (_, _, a) \<Rightarrow> Inr a)"

definition cb_issue ::
  "cb_world \<Rightarrow> ('a cbench_scheme \<Rightarrow> 'a cbench_scheme py) \<Rightarrow> cpu_req list \<Rightarrow> 'a cbench_scheme \<Rightarrow>
   (cb_resp list \<times> 'a cbench_scheme) py" where
  "cb_issue w tick reqs s =
     py_bind (cb_until tick (\<lambda>s. \<not> pr_full_busy (cw_pre w (cb_cycle s)) \<and> \<not> pr_internal_busy (cw_pre w (cb_cycle s))) 1000 s) (\<lambda>s.
     py_bind (cb_ticks tick (cc_reservation (cw_cfg w (cb_cycle s))) s) (\<lambda>s.
       let before = length (cb_responses s) in
       py_bind (cb_place reqs (cb_cpu s)) (\<lambda>cpu.
       py_bind (cb_ticks tick 3 (s\<lparr>cb_cpu := cpu\<rparr>)) (\<lambda>s.
         let answers = drop before (cb_responses s) in
         py_bind (py_assert (length answers = length reqs)) (\<lambda>_.
         py_bind (py_mapM (cb_answer answers) reqs) (\<lambda>rs. Inr (rs, s)))))))"

definition cb_woken :: "nat \<Rightarrow> nat \<Rightarrow> 'a cbench_scheme \<Rightarrow> bool" where
  "cb_woken start tid s \<longleftrightarrow> list_ex (\<lambda>(_, w). wk_valid w \<and> wk_mshr w = tid) (drop start (cb_wakes s))"

text \<open>Between two attempts a load waits for the event its answer names.\<close>

definition cb_load_wait ::
  "cb_world \<Rightarrow> ('a cbench_scheme \<Rightarrow> 'a cbench_scheme py) \<Rightarrow> cb_resp \<Rightarrow> 'a cbench_scheme \<Rightarrow> 'a cbench_scheme py" where
  "cb_load_wait w tick r s = (let start = length (cb_wakes s) in
     if rs_status r = S_MISS then cb_until tick (cb_woken start (rs_mshr r)) 1000 s
     else if rs_reason r = R_WB_LINE then
       cb_until tick (\<lambda>s. \<not> cc_block_putacks (cw_cfg w (cb_cycle s)) \<and> pr_idle (cw_pre w (cb_cycle s))) 1000 s
     else if rs_reason r = R_FULL then
       cb_until tick (\<lambda>s. list_ex (\<lambda>(_, w). wk_free w) (drop start (cb_wakes s))) 1000 s
     else Inr s)"

primrec cb_load_from ::
  "cb_world \<Rightarrow> ('a cbench_scheme \<Rightarrow> 'a cbench_scheme py) \<Rightarrow> cpu_req \<Rightarrow> nat \<Rightarrow> 'a cbench_scheme \<Rightarrow>
   (cb_resp \<times> 'a cbench_scheme) py" where
  "cb_load_from w tick q 0 s = Inl AssertionError"
| "cb_load_from w tick q (Suc n) s = py_bind (cb_issue w tick [q] s) (\<lambda>(rs, s). let r = hd rs in
     if rs_status r = S_OK \<or> rs_status r = S_ERROR then Inr (r, s)
     else py_bind (cb_load_wait w tick r s) (cb_load_from w tick q n))"

definition cb_load ::
  "cb_world \<Rightarrow> ('a cbench_scheme \<Rightarrow> 'a cbench_scheme py) \<Rightarrow> cpu_req \<Rightarrow> 'a cbench_scheme \<Rightarrow> (cb_resp \<times> 'a cbench_scheme) py" where
  "cb_load w tick q s = cb_load_from w tick q 100 s"

text \<open>The bytes of an accepted store, merged into the golden line.\<close>

definition cb_merge :: "nat \<Rightarrow> nat \<Rightarrow> nat \<Rightarrow> nat \<Rightarrow> nat" where
  "cb_merge addr d msk old = foldl (\<lambda>old i.
     if drop_bit i msk AND 1 \<noteq> 0 then
       let shift = ((addr AND 63) + i) * 8 in
       and_not old (push_bit shift 255) OR push_bit shift (drop_bit (i * 8) d AND 255)
     else old) old [0..<8]"

definition cb_commit :: "nat \<Rightarrow> nat \<Rightarrow> nat \<Rightarrow> 'a cbench_scheme \<Rightarrow> 'a cbench_scheme" where
  "cb_commit addr d msk s = (let line = drop_bit 6 addr in
     s\<lparr>cb_gold := (cb_gold s)(line \<mapsto> cb_merge addr d msk (cb_golden_line s line))\<rparr>)"

primrec cb_store_from ::
  "('a cbench_scheme \<Rightarrow> 'a cbench_scheme py) \<Rightarrow> nat \<Rightarrow> nat \<Rightarrow> nat \<Rightarrow> nat \<Rightarrow> nat \<Rightarrow> 'a cbench_scheme \<Rightarrow>
   (cb_resp \<times> 'a cbench_scheme) py" where
  "cb_store_from tick addr d msk ident 0 s = Inl AssertionError"
| "cb_store_from tick addr d msk ident (Suc n) s =
     (let start = length (cb_st_responses s);
          q = (cpu_default addr)\<lparr>cq_write := True, cq_src := 1, cq_data := d, cq_mask := msk, cq_ident := ident\<rparr> in
      py_bind (cb_until tick (\<lambda>s. start < length (cb_st_responses s)) 1000 (s\<lparr>cb_st := Some q\<rparr>)) (\<lambda>s.
        let r = snd (last (cb_st_responses s)) in
        if rs_status r = S_OK then Inr (r, cb_commit addr d msk s)
        else if rs_status r = S_ERROR then Inr (r, s)
        else py_bind (if rs_status r = S_MISS
                      then cb_until tick (cb_woken (length (cb_wakes s)) (rs_mshr r)) 1000 s
                      else tick s) (cb_store_from tick addr d msk ident n)))"

definition cb_store ::
  "('a cbench_scheme \<Rightarrow> 'a cbench_scheme py) \<Rightarrow> nat \<Rightarrow> nat \<Rightarrow> nat \<Rightarrow> nat \<Rightarrow> 'a cbench_scheme \<Rightarrow>
   (cb_resp \<times> 'a cbench_scheme) py" where
  "cb_store tick addr d msk ident s = cb_store_from tick addr d msk ident 100 s"

definition cb_probe ::
  "('a cbench_scheme \<Rightarrow> 'a cbench_scheme py) \<Rightarrow> nat \<Rightarrow> bool \<Rightarrow> 'a cbench_scheme \<Rightarrow> (cb_msg \<times> 'a cbench_scheme) py" where
  "cb_probe tick addr down s =
     py_bind (py_assert (cb_snp s = None)) (\<lambda>_.
       let line = drop_bit 6 addr; start = length (cb_up s) in
       py_bind (cb_until tick (\<lambda>s. cb_snp s = None) 1000
         (s\<lparr>cb_snp := Some (of_bool down, of_bool (cb_held s line = Some HX), line)\<rparr>)) (\<lambda>s.
         let answers = drop start (cb_up s) in
         if answers = [] then Inl IndexError else Inr (snd (last answers), s)))"

definition cb_idle :: "cb_world \<Rightarrow> ('a cbench_scheme \<Rightarrow> 'a cbench_scheme py) \<Rightarrow> 'a cbench_scheme \<Rightarrow> 'a cbench_scheme py" where
  "cb_idle w tick s = cb_until tick (\<lambda>s. pr_idle (cw_pre w (cb_cycle s)) \<and> cb_pending s = [] \<and> cb_rsp s = None \<and>
     cb_sent s = [] \<and> cb_snp s = None) 1000 s"

end
