(* ===== verification/System_Bench.thy ===== *)
theory System_Bench
  imports Cache_Bench
begin

text \<open>
  The bench around the L1 data cache and the L2 together: \<open>sim/cocotb/memsys/system_agents.py\<close>, class
  \<open>SystemBench\<close>, a subclass of \<open>CacheBench\<close>. Its state extends the record of \<open>Cache_Bench\<close> (what it
  overrides is defined here; \<open>sent\<close>, which maps a transaction to its line and operation here, has a
  field of its own), and the drivers are those of \<open>Cache_Bench\<close> with this \<open>tick\<close>. It observes the
  internal channels, plays the instruction client and the AXI memory, and keeps an architectural
  memory. The random choices are an input. The hooks \<open>drive_extra\<close> and \<open>sample_extra\<close> do nothing in this class;
  \<open>note\<close> and the log are left out.
\<close>

section \<open>Data\<close>

text \<open>What the hardware drives beside the signals of the L1D.\<close>

record sys_dut =
  sv_req_ready :: bool
  sv_resp_valid :: bool
  sv_resp :: nat
  sv_up_ready :: bool
  sv_snp_valid :: bool
  sv_snp :: nat
  sv_l2_fatal :: nat
  sv_init_done :: bool
  sv_i_ready :: bool
  sv_i_resp_valid :: bool
  sv_i_resp :: nat
  sv_arvalid :: bool
  sv_ar :: "nat \<times> nat \<times> nat \<times> nat \<times> nat"
  sv_awvalid :: bool
  sv_aw :: "nat \<times> nat \<times> nat \<times> nat \<times> nat"
  sv_wvalid :: bool
  sv_w :: "nat \<times> nat \<times> nat"
  sv_rready :: bool
  sv_bready :: bool

record sys_world = cb_world +
  sw_dut :: "nat \<Rightarrow> sys_dut"
  sw_rng :: "nat \<Rightarrow> bench_rng"
  sw_l2 :: "nat \<Rightarrow> bench_mon"
  sw_l2_sets :: nat
  sw_l2_ways :: nat

record sys_bench = cbench +
  sb_sent :: "(nat \<times> nat \<times> nat) list"
  sb_puts :: "(nat \<times> nat) list"
  sb_probe :: "(nat \<times> nat \<times> nat) option"
  sb_readq :: "(nat \<times> nat \<times> nat \<times> nat \<times> nat) list"
  sb_rhold :: "(nat \<times> nat \<times> nat) option"
  sb_awq :: "(nat \<times> nat) list"
  sb_wq :: "(nat \<times> nat) list"
  sb_bq :: "(nat \<times> nat) list"
  sb_bhold :: "nat option"
  sb_ipresent :: "(nat \<times> nat \<times> nat) option"
  sb_iout :: "(nat \<times> nat \<times> nat) list"
  sb_i_script :: "nat list"
  sb_history :: "nat \<Rightarrow> (nat \<times> nat) list"
  sb_stalled :: "nat list option list"
  sb_loads_done :: nat
  sb_stas_done :: nat
  sb_stores_done :: nat
  sb_i_done :: nat
  sb_axi_reads :: nat
  sb_axi_writes :: nat
  sb_reasons :: "nat \<Rightarrow> nat"

definition sys_init :: sys_bench where
  "sys_init = cbench.extend cb_init \<lparr>sb_sent = [], sb_puts = [], sb_probe = None, sb_readq = [], sb_rhold = None, sb_awq = [],
     sb_wq = [], sb_bq = [], sb_bhold = None, sb_ipresent = None, sb_iout = [], sb_i_script = [], sb_history = (\<lambda>_. []),
     sb_stalled = replicate 6 None, sb_loads_done = 0, sb_stas_done = 0, sb_stores_done = 0, sb_i_done = 0,
     sb_axi_reads = 0, sb_axi_writes = 0, sb_reasons = (\<lambda>_. 0)\<rparr>"

section \<open>Driving the pins\<close>

text \<open>The next instruction line is presented under the first free identifier.\<close>

definition sys_issue_i :: "sys_bench \<Rightarrow> sys_bench py" where
  "sys_issue_i s = (case sb_i_script s of
     line # rest \<Rightarrow>
       if sb_ipresent s = None \<and> length (sb_iout s) < 4 then
         (case find (\<lambda>i. i \<notin> fst ` set (sb_iout s)) [0..<4] of
            None \<Rightarrow> Inl RuntimeError
          | Some tid \<Rightarrow> Inr (s\<lparr>sb_ipresent := Some (tid, line, cb_cycle s), sb_i_script := rest\<rparr>))
       else Inr s
   | [] \<Rightarrow> Inr s)"

definition sys_i_pin :: "sys_bench \<Rightarrow> nat option py" where
  "sys_i_pin s = py_opt (\<lambda>(tid, line, start). link_req READ_LINE line tid 0 0) (sb_ipresent s)"

definition sys_drive_r :: "bench_rng \<Rightarrow> sys_bench \<Rightarrow> sys_bench" where
  "sys_drive_r r s =
     (if sb_rhold s = None \<and> rg_r r then
        let ids = map fst (filter (\<lambda>(_, _, _, _, due). due \<le> cb_cycle s) (sb_readq s)) in
        if ids = [] then s else
          let rid = ids ! (rg_pick r mod length ids) in
          (case map_of (sb_readq s) rid of
             None \<Rightarrow> s
           | Some (line, d, beat, due) \<Rightarrow> s\<lparr>sb_rhold := Some (rid, lane 128 beat d, of_bool (beat = 3))\<rparr>)
      else s)"

definition sys_drive_b :: "sys_bench \<Rightarrow> sys_bench" where
  "sys_drive_b s = (case sb_bq s of
     [] \<Rightarrow> s
   | (due, wid) # rest \<Rightarrow>
       if sb_bhold s = None \<and> due \<le> cb_cycle s then s\<lparr>sb_bhold := Some wid, sb_bq := rest\<rparr> else s)"

text \<open>The pins of the processor side; an encoding error is the only way this fails.\<close>

definition sys_drive_cpu :: "cb_widths \<Rightarrow> sys_bench \<Rightarrow> unit py" where
  "sys_drive_cpu wd s =
     py_bind (py_mapM (cb_req_bits wd) (cb_cpu s)) (\<lambda>_. py_bind (py_mapM (cb_req_bits wd) (cb_prev_cpu s)) (\<lambda>_.
     py_bind (cb_req_bits wd (cb_st s)) (\<lambda>_. py_bind (cb_req_bits wd (cb_ptw s)) (\<lambda>_.
     py_bind (py_opt (\<lambda>(pa, pte, a, d, tag). pack [(56, pa), (64, pte), (1, a), (1, d), (8, tag)]) (cb_ad s)) (\<lambda>_. Inr ())))))"

definition sys_drive :: "cb_widths \<Rightarrow> bench_rng \<Rightarrow> sys_bench \<Rightarrow> sys_bench py" where
  "sys_drive wd r s = py_bind (sys_drive_cpu wd s) (\<lambda>_. py_bind (sys_issue_i s) (\<lambda>s. py_bind (sys_i_pin s) (\<lambda>_.
     Inr (sys_drive_b (sys_drive_r r s)))))"

section \<open>Sampling\<close>

text \<open>The six observed channels in the code's order.\<close>

definition sys_channels :: "bench_rng \<Rightarrow> cb_dut \<Rightarrow> sys_dut \<Rightarrow> (bool \<times> bool \<times> nat list) list" where
  "sys_channels r v x = (let five = (\<lambda>(a, b, c, d, e). [a, b, c, d, e]) in
     [(dv_req_valid v, sv_req_ready x, [dv_req v]), (dv_up_valid v, sv_up_ready x, [dv_up v]),
      (sv_snp_valid x, dv_snp_ready v, [sv_snp x]), (sv_arvalid x, rg_ar r, five (sv_ar x)),
      (sv_awvalid x, rg_aw r, five (sv_aw x)), (sv_wvalid x, rg_w r, (case sv_w x of (d, strb, lst) \<Rightarrow> [d, strb, lst]))])"

text \<open>A response to the L1D: the acknowledgement of a put, or a grant that keeps one writer and brings golden data.\<close>

definition sys_resp :: "sys_dut \<Rightarrow> sys_bench \<Rightarrow> sys_bench py" where
  "sys_resp x s = (if \<not> sv_resp_valid x then Inr s else
     let (op, tid, err, d) = link_response (sv_resp x) in
     py_bind (py_assert (err = 0)) (\<lambda>_.
       if op = PUTACK then
         py_bind (py_assert (tid \<in> fst ` set (sb_puts s))) (\<lambda>_. Inr (s\<lparr>sb_puts := AList.delete tid (sb_puts s)\<rparr>))
       else (case map_of (sb_sent s) tid of
           None \<Rightarrow> Inl AssertionError
         | Some (line, getop) \<Rightarrow>
             py_bind (py_assert (op \<in> {DATAS, DATAE, ACKE} \<and> (getop \<noteq> GETM \<or> op \<noteq> DATAS))) (\<lambda>_.
             py_bind (py_assert (if op = ACKE then cb_held s line = Some HS else cb_held s line = None)) (\<lambda>_.
             py_bind (py_assert (op = ACKE \<or> d = cb_golden_line s line)) (\<lambda>_.
               Inr (s\<lparr>sb_sent := AList.delete tid (sb_sent s),
                      cb_held := (cb_held s)(line \<mapsto> (if op = DATAS then HS else HX))\<rparr>)))))))"

text \<open>An instruction response returns a value its line had since it was asked for, and no one may write the line.\<close>

definition sys_i_resp :: "sys_dut \<Rightarrow> sys_bench \<Rightarrow> sys_bench py" where
  "sys_i_resp x s = (if \<not> sv_i_resp_valid x then Inr s else
     let (op, tid, err, d) = link_response (sv_i_resp x) in
     (case map_of (sb_iout s) tid of
        None \<Rightarrow> Inl AssertionError
      | Some (line, start) \<Rightarrow>
          py_bind (py_assert (op = READDATA \<and> err = 0)) (\<lambda>_.
          py_bind (py_assert (d \<in> set (bench_legal_reads (cb_initial line) (sb_history s line) start (cb_cycle s)))) (\<lambda>_.
          py_bind (py_assert (cb_held s line \<noteq> Some HX)) (\<lambda>_.
            Inr (s\<lparr>sb_iout := AList.delete tid (sb_iout s), sb_i_done := sb_i_done s + 1\<rparr>))))))"

text \<open>A put or a probe answer of the L1D. Dirty data comes from the owner and is golden.\<close>

definition sys_release :: "cb_msg \<Rightarrow> sys_bench \<Rightarrow> sys_bench py" where
  "sys_release q s = (let line = um_line q in
     if um_op q = PUT then
       py_bind (py_assert (cb_held s line \<noteq> None \<and> um_tid q \<notin> fst ` set (sb_puts s))) (\<lambda>_.
         Inr (s\<lparr>cb_held := (cb_held s)(line := None), sb_puts := AList.update (um_tid q) line (sb_puts s)\<rparr>))
     else (case sb_probe s of
         None \<Rightarrow> Inl AssertionError
       | Some (pop, owner, pline) \<Rightarrow>
           py_bind (py_assert (pline = line)) (\<lambda>_.
           py_bind (py_assert (um_op q = (if pop = 0 then INVACK else DOWNACK))) (\<lambda>_.
             Inr (s\<lparr>cb_held := (if um_op q = INVACK then (cb_held s)(line := None)
                              else if cb_held s line \<noteq> None then (cb_held s)(line \<mapsto> HS) else cb_held s),
                    sb_probe := None\<rparr>)))))"

definition sys_up :: "cb_dut \<Rightarrow> sys_bench \<Rightarrow> sys_bench py" where
  "sys_up v s = (if \<not> dv_up_valid v then Inr s else
     py_bind (cb_up_fields (dv_up v)) (\<lambda>q.
     py_bind (py_assert (um_dirty q \<longrightarrow> cb_held s (um_line q) = Some HX)) (\<lambda>_.
     py_bind (py_assert (um_dirty q \<longrightarrow> um_data q = cb_golden_line s (um_line q))) (\<lambda>_.
       sys_release q (s\<lparr>cb_up := cb_up s @ [(cb_cycle s, q)]\<rparr>)))))"

definition sys_snoop :: "cb_dut \<Rightarrow> sys_dut \<Rightarrow> sys_bench \<Rightarrow> sys_bench py" where
  "sys_snoop v x s = (if \<not> sv_snp_valid x \<or> \<not> dv_snp_ready v then Inr s else
     let raw = sv_snp x; line = raw AND (push_bit 26 1 - 1); owner = drop_bit 27 raw AND 1; op = drop_bit 28 raw in
     py_bind (py_assert (sb_probe s = None)) (\<lambda>_. Inr (s\<lparr>sb_probe := Some (op, owner, line)\<rparr>)))"

definition sys_get :: "nat \<Rightarrow> cb_dut \<Rightarrow> sys_dut \<Rightarrow> sys_bench \<Rightarrow> sys_bench py" where
  "sys_get n v x s = (if \<not> dv_req_valid v \<or> \<not> sv_req_ready x then Inr s else
     py_bind (cb_get_fields (dv_req v)) (\<lambda>(op, line, tid).
     py_bind (py_assert (op \<in> {GETS, GETM} \<and> tid \<notin> fst ` set (sb_sent s) \<and> length (sb_sent s) < n)) (\<lambda>_.
     py_bind (py_assert (if op = GETS then cb_held s line = None else cb_held s line \<noteq> Some HX)) (\<lambda>_.
     py_bind (py_assert (line \<notin> snd ` set (sb_puts s))) (\<lambda>_.
       Inr (s\<lparr>sb_sent := AList.update tid (line, op) (sb_sent s)\<rparr>))))))"

definition sys_i_accept :: "sys_dut \<Rightarrow> sys_bench \<Rightarrow> sys_bench" where
  "sys_i_accept x s = (case sb_ipresent s of
     None \<Rightarrow> s
   | Some (tid, line, start) \<Rightarrow>
       if sv_i_ready x then s\<lparr>sb_iout := AList.update tid (line, start) (sb_iout s), sb_ipresent := None\<rparr> else s)"

section \<open>The AXI memory\<close>

definition sys_ar :: "bench_rng \<Rightarrow> sys_dut \<Rightarrow> sys_bench \<Rightarrow> sys_bench py" where
  "sys_ar r x s = (if \<not> sv_arvalid x \<or> \<not> rg_ar r then Inr s else
     let (rid, addr, len, sz, burst) = sv_ar x; line = drop_bit 6 addr in
     py_bind (py_assert (rid \<notin> fst ` set (sb_readq s) \<and> addr mod 64 = 0 \<and> (len, sz, burst) = (3, 4, 1))) (\<lambda>_.
       Inr (s\<lparr>sb_readq := AList.update rid (line, cb_backing s line, 0, cb_cycle s + (1 + rg_rdelay r mod 12)) (sb_readq s),
              sb_axi_reads := sb_axi_reads s + 1\<rparr>)))"

definition sys_r :: "sys_dut \<Rightarrow> sys_bench \<Rightarrow> sys_bench py" where
  "sys_r x s = (case sb_rhold s of
     None \<Rightarrow> Inr s
   | Some (rid, _, lst) \<Rightarrow>
       if \<not> sv_rready x then Inr s else
       (case map_of (sb_readq s) rid of
          None \<Rightarrow> Inl KeyError
        | Some (line, d, beat, due) \<Rightarrow>
            Inr (s\<lparr>sb_readq := (if lst \<noteq> 0 then AList.delete rid (sb_readq s)
                              else AList.update rid (line, d, beat + 1, due) (sb_readq s)),
                   sb_rhold := None\<rparr>)))"

definition sys_aw :: "bench_rng \<Rightarrow> sys_dut \<Rightarrow> sys_bench \<Rightarrow> sys_bench py" where
  "sys_aw r x s = (if \<not> sv_awvalid x \<or> \<not> rg_aw r then Inr s else
     let (wid, addr, len, sz, burst) = sv_aw x in
     py_bind (py_assert ((len, sz, burst) = (3, 4, 1))) (\<lambda>_. Inr (s\<lparr>sb_awq := sb_awq s @ [(wid, drop_bit 6 addr)]\<rparr>)))"

definition sys_w :: "bench_rng \<Rightarrow> sys_dut \<Rightarrow> sys_bench \<Rightarrow> sys_bench py" where
  "sys_w r x s = (if \<not> sv_wvalid x \<or> \<not> rg_w r then Inr s else
     let (d, strb, lst) = sv_w x in
     py_bind (py_assert (strb = 0xFFFF)) (\<lambda>_. Inr (s\<lparr>sb_wq := sb_wq s @ [(d, lst)]\<rparr>)))"

definition sys_commit :: "bench_rng \<Rightarrow> sys_bench \<Rightarrow> sys_bench py" where
  "sys_commit r s = (case sb_awq s of
     [] \<Rightarrow> Inr s
   | (wid, line) # rest \<Rightarrow>
       if length (sb_wq s) < 4 then Inr s else
       let beats = take 4 (sb_wq s) in
       py_bind (py_assert (map snd beats = [0, 0, 0, 1])) (\<lambda>_.
         Inr (s\<lparr>sb_awq := rest, sb_wq := drop 4 (sb_wq s), cb_mem := (cb_mem s)(line \<mapsto> join_lanes 128 (map fst beats)),
                sb_bq := sb_bq s @ [(cb_cycle s + (2 + rg_bdelay r mod 13), wid)], sb_axi_writes := sb_axi_writes s + 1\<rparr>)))"

definition sys_b :: "sys_dut \<Rightarrow> sys_bench \<Rightarrow> sys_bench" where
  "sys_b x s = (if sb_bhold s \<noteq> None \<and> sv_bready x then s\<lparr>sb_bhold := None\<rparr> else s)"

section \<open>The tick\<close>

text \<open>The directory: a state exactly with a sharer, no fourth state, no tag twice.\<close>

fun sys_directory_from :: "bench_mon \<Rightarrow> nat list \<Rightarrow> nat list \<Rightarrow> unit py" where
  "sys_directory_from m seen [] = Inr ()"
| "sys_directory_from m seen (k # ks) =
     (let state = drop_bit (2 * k) (mn_state m) AND 3; share = drop_bit k (mn_sharer m) AND 1 in
      py_bind (py_assert ((state = 0) = (share = 0) \<and> state < 3)) (\<lambda>_.
        if drop_bit k (mn_valid m) AND 1 \<noteq> 0 then
          let line = drop_bit (26 * k) (mn_addr m) AND (push_bit 26 1 - 1) in
          py_bind (py_assert (line \<notin> set seen)) (\<lambda>_. sys_directory_from m (line # seen) ks)
        else sys_directory_from m seen ks))"

definition sys_directory_check :: "'a sys_world_scheme \<Rightarrow> nat \<Rightarrow> unit py" where
  "sys_directory_check w c = sys_directory_from (sw_l2 w c) [] [0..<sw_l2_sets w * sw_l2_ways w]"

definition sys_checks :: "cb_dut \<Rightarrow> sys_dut \<Rightarrow> sys_bench \<Rightarrow> bool" where
  "sys_checks v x s \<longleftrightarrow> dv_fatal v = 0 \<and> sv_l2_fatal x = 0 \<and> (sv_init_done x \<longrightarrow> sv_up_ready x \<and> dv_resp_ready v) \<and>
     cb_reserved v s"

definition sys_sample :: "cb_cfg \<Rightarrow> bench_rng \<Rightarrow> cb_dut \<Rightarrow> sys_dut \<Rightarrow> sys_bench \<Rightarrow> sys_bench py" where
  "sys_sample cfg r v x s =
     py_bind (py_assert (sys_checks v x s)) (\<lambda>_.
     py_bind (cb_log_all (cc_widths cfg) v s) (\<lambda>s.
     py_bind (cb_log_wake v s) (\<lambda>s.
     py_bind (bench_stall (sys_channels r v x) (sb_stalled s)) (\<lambda>st.
     py_bind (sys_resp x (s\<lparr>sb_stalled := st\<rparr>)) (\<lambda>s.
     py_bind (sys_i_resp x s) (\<lambda>s.
     py_bind (sys_up v s) (\<lambda>s.
     py_bind (sys_snoop v x s) (\<lambda>s.
     py_bind (sys_get (cc_n cfg) v x s) (\<lambda>s.
     py_bind (sys_ar r x (sys_i_accept x s)) (\<lambda>s.
     py_bind (sys_r x s) (\<lambda>s.
     py_bind (sys_aw r x s) (\<lambda>s.
     py_bind (sys_w r x s) (\<lambda>s.
     py_bind (sys_commit r s) (\<lambda>s.
       Inr (cb_take_requests v (sys_b x s))))))))))))))))"

definition sys_tick :: "'a sys_world_scheme \<Rightarrow> sys_bench \<Rightarrow> sys_bench py" where
  "sys_tick w s = (let now = cb_cycle s; cfg = cw_cfg w now; r = sw_rng w now in
     py_bind (sys_drive (cc_widths cfg) r s) (\<lambda>s1.
     py_bind (sys_sample cfg r (cw_mid w now) (sw_dut w now) s1) (\<lambda>s2.
     py_bind (sys_directory_check w (Suc now)) (\<lambda>_. Inr (s2\<lparr>cb_cycle := Suc now\<rparr>)))))"

section \<open>Drivers\<close>

text \<open>A waiting load: its request, its last answer, and the cycle from which wake-ups count.\<close>

type_synonym sys_waiter = "nat \<times> cpu_req \<times> cb_resp option \<times> nat"

definition sys_ready :: "(nat \<times> cb_wake) list \<Rightarrow> cb_resp option \<Rightarrow> nat \<Rightarrow> bool" where
  "sys_ready wakes answer since = (case answer of None \<Rightarrow> True | Some a \<Rightarrow>
     let ws = map snd (filter (\<lambda>(c, _). since \<le> c) wakes) in
     (rs_status a = S_MISS \<and> list_ex (\<lambda>w. wk_valid w \<and> wk_mshr w = rs_mshr a) ws) \<or>
     (rs_status a = S_REPLAY \<and> (rs_reason a \<in> {R_CONFLICT, R_SNAP, R_BANK} \<or>
        (rs_reason a = R_FULL \<and> list_ex wk_free ws) \<or> (rs_reason a = R_WB_LINE \<and> list_ex wk_wb_free ws))))"

text \<open>The answer of one load: it is done with golden data, or waits again.\<close>

fun sys_load_answers :: "(cpu_req \<times> cb_resp) list \<Rightarrow> sys_waiter list \<Rightarrow> sys_bench \<Rightarrow> (sys_waiter list \<times> sys_bench) py" where
  "sys_load_answers [] waiting s = Inr (waiting, s)"
| "sys_load_answers ((r, a) # rest) waiting s =
     (if rs_status a = S_OK then
        py_bind (py_assert (rs_data a = cb_golden s (cq_addr r) 8)) (\<lambda>_.
          sys_load_answers rest (AList.delete (cq_ident r) waiting) (s\<lparr>sb_loads_done := sb_loads_done s + 1\<rparr>))
      else
        py_bind (py_assert (rs_status a = S_MISS \<or> rs_status a = S_REPLAY)) (\<lambda>_.
          case find (\<lambda>(_, _, x). rs_ident x = cq_ident r) (rev (cb_responses s)) of
            None \<Rightarrow> Inl RuntimeError
          | Some (c, _, _) \<Rightarrow>
              sys_load_answers rest (AList.update (cq_ident r) (r, Some a, c) waiting)
                (s\<lparr>sb_reasons := (sb_reasons s)(rs_reason a := sb_reasons s (rs_reason a) + 1)\<rparr>)))"

text \<open>One round of \<open>loads\<close>: issue the loads whose event has come, or let a cycle pass.\<close>

definition sys_ready_requests :: "sys_waiter list \<Rightarrow> sys_bench \<Rightarrow> cpu_req list" where
  "sys_ready_requests waiting s =
     map (\<lambda>(_, r, _). r) (filter (\<lambda>(_, _, a, since). sys_ready (cb_wakes s) a since) waiting)"

definition sys_round :: "'a sys_world_scheme \<Rightarrow> sys_waiter list \<Rightarrow> sys_bench \<Rightarrow> (sys_waiter list \<times> sys_bench) py" where
  "sys_round w waiting s = (let ready = sys_ready_requests waiting s in
     if ready = [] then py_bind (sys_tick w s) (\<lambda>s. Inr (waiting, s))
     else py_bind (cb_issue (cb_world.truncate w) (sys_tick w) ready s) (\<lambda>(answers, s).
       sys_load_answers (zip ready answers) waiting s))"

text \<open>The loop of \<open>loads\<close>; its watchdog bounds it, so the number of rounds is bounded by the cycles left (each round takes
  one at least).\<close>

primrec sys_loads_from :: "'a sys_world_scheme \<Rightarrow> nat \<Rightarrow> nat \<Rightarrow> sys_waiter list \<Rightarrow> sys_bench \<Rightarrow> sys_bench py" where
  "sys_loads_from w start 0 waiting s = Inl AssertionError"
| "sys_loads_from w start (Suc n) waiting s =
     (if waiting = [] then Inr s else
      py_bind (py_assert (cb_cycle s - start < 5000)) (\<lambda>_.
        py_bind (sys_round w waiting s) (\<lambda>(waiting, s). sys_loads_from w start n waiting s)))"

definition sys_loads :: "'a sys_world_scheme \<Rightarrow> cpu_req list \<Rightarrow> sys_bench \<Rightarrow> sys_bench py" where
  "sys_loads w requests s = sys_loads_from w (cb_cycle s) 5001
     (foldl (\<lambda>ws r. AList.update (cq_ident r) (r, None, 0) ws) [] requests) s"

primrec sys_sta_from :: "'a sys_world_scheme \<Rightarrow> cpu_req \<Rightarrow> nat \<Rightarrow> sys_bench \<Rightarrow> sys_bench py" where
  "sys_sta_from w r 0 s = Inl AssertionError"
| "sys_sta_from w r (Suc n) s = py_bind (cb_issue (cb_world.truncate w) (sys_tick w) [r] s) (\<lambda>(as, s). let a = hd as in
     if rs_status a = S_OK then Inr (s\<lparr>sb_stas_done := sb_stas_done s + 1\<rparr>)
     else py_bind (py_assert (rs_status a = S_REPLAY \<and> rs_reason a \<in> {R_CONFLICT, R_SNAP, R_BANK})) (\<lambda>_.
       sys_sta_from w r n s))"

definition sys_sta :: "'a sys_world_scheme \<Rightarrow> cpu_req \<Rightarrow> sys_bench \<Rightarrow> sys_bench py" where
  "sys_sta w r s = sys_sta_from w r 100 s"

definition sys_store :: "'a sys_world_scheme \<Rightarrow> nat \<Rightarrow> nat \<Rightarrow> nat \<Rightarrow> nat \<Rightarrow> sys_bench \<Rightarrow> (cb_resp \<times> sys_bench) py" where
  "sys_store w addr d msk ident s = py_bind (cb_store (sys_tick w) addr d msk ident s) (\<lambda>(a, s).
     py_bind (py_assert (rs_status a = S_OK)) (\<lambda>_. let line = drop_bit 6 addr in
       Inr (a, s\<lparr>sb_stores_done := sb_stores_done s + 1,
         sb_history := (sb_history s)(line := sb_history s line @ [(cb_cycle s - 1, cb_golden_line s line)])\<rparr>)))"

definition sys_quiet :: "'a sys_world_scheme \<Rightarrow> sys_bench \<Rightarrow> bool" where
  "sys_quiet w s \<longleftrightarrow> pr_idle (cw_pre w (cb_cycle s)) \<and> sb_sent s = [] \<and> sb_puts s = [] \<and> sb_probe s = None \<and>
     sb_i_script s = [] \<and> sb_ipresent s = None \<and> sb_iout s = [] \<and> sb_readq s = [] \<and> sb_rhold s = None \<and>
     sb_awq s = [] \<and> sb_wq s = [] \<and> sb_bq s = [] \<and> sb_bhold s = None \<and> \<not> mn_slot_busy (sw_l2 w (cb_cycle s))"

text \<open>The permissions of the L2 directory and the states of the L1D's copies, as the monitors show them.\<close>

definition sys_directory_map :: "bench_mon \<Rightarrow> nat \<Rightarrow> nat \<rightharpoonup> hold" where
  "sys_directory_map m n = foldl (\<lambda>d k. let state = drop_bit (2 * k) (mn_state m) AND 3 in
     if drop_bit k (mn_valid m) AND 1 \<noteq> 0 \<and> state \<noteq> 0
     then d(drop_bit (26 * k) (mn_addr m) AND (push_bit 26 1 - 1) \<mapsto> (if state = 1 then HS else HX)) else d)
     Map.empty [0..<n]"

fun sys_copies_from :: "cb_mon \<Rightarrow> (nat \<rightharpoonup> hold) \<Rightarrow> nat list \<Rightarrow> (nat \<rightharpoonup> hold) py" where
  "sys_copies_from m d [] = Inr d"
| "sys_copies_from m d (k # ks) =
     (let state = drop_bit (2 * k) (cm_state m) AND 3; line = drop_bit (26 * k) (cm_addr m) AND (push_bit 26 1 - 1) in
      if state = 0 then sys_copies_from m d ks
      else py_bind (py_assert (d line = None)) (\<lambda>_.
        sys_copies_from m (d(line \<mapsto> (if state = 1 then HS else HX))) ks))"

definition sys_finish :: "'a sys_world_scheme \<Rightarrow> sys_bench \<Rightarrow> sys_bench py" where
  "sys_finish w s =
     py_bind (cb_until (sys_tick w) (sys_quiet w) 5000 s) (\<lambda>s.
       let c = cb_cycle s; cfg = cw_cfg w c; directory = sys_directory_map (sw_l2 w c) (sw_l2_sets w * sw_l2_ways w) in
       py_bind (sys_copies_from (pr_mon (cw_pre w c)) Map.empty [0..<cc_sets cfg * cc_ways cfg]) (\<lambda>copies.
       py_bind (py_assert (directory = cb_held s \<and> cb_held s = copies)) (\<lambda>_.
       py_bind (foldl (\<lambda>r line. py_bind r (sys_loads w [cpu_default (push_bit 6 line)])) (Inr s)
                  (sorted_list_of_set (dom (cb_gold s)))) (\<lambda>s.
         cb_until (sys_tick w) (sys_quiet w) 5000 s))))"

end
