(* ===== verification/Cache_Coherence.thy ===== *)
theory Cache_Coherence
  imports Cache_Bench "HOL-Library.Multiset"
begin

text \<open>
  What the L1D bench of \<open>Cache_Bench\<close> guarantees. The word codecs invert each other; a committed store changes
  exactly the bytes its mask names. The drivers (\<open>issue\<close>, \<open>load\<close>, \<open>store\<close>, \<open>probe\<close>, \<open>idle\<close>) only take bench steps
  (locale \<open>cb_driver\<close>), so an invariant of the steps is one of every driver. The gets in flight are exactly
  the grants in flight, and in a run whose cache keeps to the protocol every line that the cache does not
  own is golden in memory and every grant carries the golden data.
\<close>

section \<open>The word codec\<close>

lemma pack_from_snoc:
  "pack_from v (fs @ [(w, x)]) =
     py_bind (pack_from v fs) (\<lambda>r. py_bind (py_assert (x < push_bit w 1)) (\<lambda>_. Inr (push_bit w r OR x)))"
proof (induction v fs rule: pack_from.induct)
  case (1 v)
  then show ?case by simp
next
  case (2 v w' x' fs)
  then show ?case by (cases "x' < push_bit w' 1") (simp_all add: py_assert_def)
qed

lemma unpack_snoc:
  "unpack r (fs @ [(n, w)]) =
     py_bind (unpack (drop_bit w r) fs) (\<lambda>xs. Inr ((n, r AND (push_bit w 1 - 1)) # xs))"
  by (simp add: unpack_def)

text \<open>Unpacking what was packed gives the fields back.\<close>

lemma unpack_pack:
  "pack (map snd fs) = Inr r \<Longrightarrow>
   unpack r (map (\<lambda>(n, w, x). (n, w)) fs) = Inr (rev (map (\<lambda>(n, w, x). (n, x)) fs))"
proof (induction fs arbitrary: r rule: rev_induct)
  case Nil
  then show ?case by (simp add: pack_def unpack_def)
next
  case (snoc f fs)
  obtain n w x where f: "f = (n, w, x)" by (cases f)
  with snoc.prems obtain r' where r': "pack (map snd fs) = Inr r'" "x < 2 ^ w" "r = push_bit w r' OR x"
    by (auto simp: pack_def pack_from_snoc py_bind_Inr_iff)
  have "drop_bit w r = r'" "r AND (push_bit w 1 - 1) = x"
    unfolding r'(3) nat_and_mask by (rule pack_high [OF r'(2)], rule pack_low [OF r'(2)])
  with snoc.IH [OF r'(1)] show ?case by (simp add: f unpack_snoc)
qed

text \<open>Packing what was unpacked gives the word back.\<close>

lemma pack_unpack:
  "unpack r fs = Inr xs \<Longrightarrow> length xs = length fs \<and> pack (zip (map snd fs) (map snd (rev xs))) = Inr r"
proof (induction fs arbitrary: r xs rule: rev_induct)
  case Nil
  then show ?case by (auto simp: pack_def unpack_def py_bind_Inr_iff)
next
  case (snoc f fs)
  obtain n w where f: "f = (n, w)" by (cases f)
  with snoc.prems obtain ys where ys: "unpack (drop_bit w r) fs = Inr ys" "xs = (n, r AND (push_bit w 1 - 1)) # ys"
    by (auto simp: unpack_snoc py_bind_Inr_iff)
  from snoc.IH [OF ys(1)] have l: "length ys = length fs"
    and p: "pack (zip (map snd fs) (map snd (rev ys))) = Inr (drop_bit w r)" by simp_all
  have "push_bit w (drop_bit w r) OR take_bit w r = r"
    by (rule bit_eqI) (auto simp: bit_or_iff bit_push_bit_iff bit_drop_bit_eq bit_take_bit_iff)
  moreover have "py_assert (take_bit w r < push_bit w 1) = Inr ()" by (simp add: py_assert_def push_bit_eq_mult)
  moreover have "zip (map snd (fs @ [f])) (map snd (rev xs)) = zip (map snd fs) (map snd (rev ys)) @ [(w, take_bit w r)]"
    using l by (simp add: f ys(2) nat_and_mask [symmetric])
  ultimately have "pack (zip (map snd (fs @ [f])) (map snd (rev xs))) = Inr r"
    using p by (simp only: pack_def pack_from_snoc py_bind_simps)
  then show ?case using l by (simp add: ys(2))
qed

text \<open>The layout codec of the bench is a bijection: a word accepted by \<open>unpack\<close> packs again to itself, and a packed word
  unpacks to its fields.\<close>

theorem unpack_roundtrip:
  "(\<forall>r xs. unpack r fs = Inr xs \<longrightarrow> pack (zip (map snd fs) (map snd (rev xs))) = Inr r) \<and>
   (\<forall>r gs. pack (map snd gs) = Inr r \<longrightarrow>
      unpack r (map (\<lambda>(n, w, x). (n, w)) gs) = Inr (rev (map (\<lambda>(n, w, x). (n, x)) gs)))"
  using pack_unpack unpack_pack by blast

theorem unpack_roundtrip_witness:
  "\<exists>r. pack [(1, 1), (2, 2)] = Inr r \<and> unpack r [(''a'', 1), (''b'', 2)] = Inr [(''b'', 2), (''a'', 1)]"
proof -
  let ?gs = "[(''a'', 1, 1), (''b'', 2, 2)] :: (string \<times> nat \<times> nat) list"
  obtain r where r: "pack (map snd ?gs) = Inr r" by (simp add: pack_def py_assert_def)
  have "unpack r (map (\<lambda>(n, w, x). (n, w)) ?gs) = Inr (rev (map (\<lambda>(n, w, x). (n, x)) ?gs))"
    using conjunct2 [OF unpack_roundtrip [of "[]"], rule_format, OF r] .
  with r show ?thesis by auto
qed

section \<open>Stores\<close>

lemma bit_255: "bit (255::nat) i \<longleftrightarrow> i < 8"
proof -
  have "(255::nat) = mask 8" by (simp add: mask_eq_exp_minus_1)
  then show ?thesis by (simp only: bit_mask_iff) simp
qed

lemma and_1_bit: "(drop_bit i (m::nat) AND 1 \<noteq> 0) = bit m i"
  by (simp add: and_one_eq bit_iff_odd_drop_bit odd_iff_mod_2_eq_one)

lemma bit_byte_insert:
  "bit (and_not old (push_bit (8 * k) 255) OR push_bit (8 * k) (b AND 255)) j \<longleftrightarrow>
     (if j div 8 = k then bit b (j - 8 * k) else bit old j)"
proof -
  have "8 * k \<le> j \<and> j - 8 * k < 8 \<longleftrightarrow> j div 8 = k" by auto
  then show ?thesis
    by (auto simp: bit_or_iff bit_and_not bit_push_bit_iff bit_and_iff bit_255)
qed

lemma bit_cb_merge_from:
  "bit (foldl (\<lambda>old i. if drop_bit i (msk::nat) AND 1 \<noteq> 0 then
         let shift = (k + i) * 8 in and_not old (push_bit shift 255) OR push_bit shift (drop_bit (i * 8) d AND 255)
       else old) old [0..<n]) j \<longleftrightarrow>
     (if k \<le> j div 8 \<and> j div 8 < k + n \<and> bit msk (j div 8 - k) then bit d (j - 8 * k) else bit old j)"
proof (induction n)
  case 0
  then show ?case by auto
next
  case (Suc n)
  have c: "(k + n) * 8 = 8 * (k + n)" by simp
  have "8 * (k + n) \<le> j" if "j div 8 = k + n" using that by auto
  then have e: "bit (drop_bit (n * 8) d) (j - 8 * (k + n)) = bit d (j - 8 * k)" if "j div 8 = k + n"
    using that by (simp add: bit_drop_bit_eq algebra_simps)
  have step: "bit (if drop_bit n msk AND 1 \<noteq> 0 then
         let shift = (k + n) * 8 in and_not X (push_bit shift 255) OR push_bit shift (drop_bit (n * 8) d AND 255)
       else X) j = (if bit msk n \<and> j div 8 = k + n then bit d (j - 8 * k) else bit X j)" for X
    unfolding and_1_bit Let_def c by (simp only: if_distrib [of "\<lambda>x. bit x j"] bit_byte_insert e cong: if_cong) simp
  have "bit (foldl (\<lambda>old i. if drop_bit i msk AND 1 \<noteq> 0 then
         let shift = (k + i) * 8 in and_not old (push_bit shift 255) OR push_bit shift (drop_bit (i * 8) d AND 255)
       else old) old [0..<Suc n]) j = (if bit msk n \<and> j div 8 = k + n then bit d (j - 8 * k) else
       bit (foldl (\<lambda>old i. if drop_bit i msk AND 1 \<noteq> 0 then
         let shift = (k + i) * 8 in and_not old (push_bit shift 255) OR push_bit shift (drop_bit (i * 8) d AND 255)
       else old) old [0..<n]) j)"
    by (simp only: upt_Suc le0 if_True foldl_append foldl_Cons foldl_Nil step)
  then show ?case unfolding Suc by (auto simp: less_Suc_eq)
qed

text \<open>Bit \<open>j\<close> of the merged line: from the store for a byte its mask names, else as before.\<close>

lemma bit_cb_merge:
  "bit (cb_merge addr d msk old) j \<longleftrightarrow>
     (let k = addr mod 64 in
      if k \<le> j div 8 \<and> j div 8 < k + 8 \<and> bit msk (j div 8 - k) then bit d (j - 8 * k) else bit old j)"
proof -
  have "addr AND 63 = addr mod 64" using and_mask_mod [of addr 6] by simp
  then show ?thesis unfolding cb_merge_def bit_cb_merge_from by (simp add: Let_def)
qed

text \<open>A committed store changes, of its own line only, exactly the bytes its mask names; a doubleword written in full
  and aligned reads back.\<close>

theorem cb_commit_bytes:
  "(\<forall>l. l \<noteq> drop_bit 6 addr \<longrightarrow> cb_golden_line (cb_commit addr d msk s) l = cb_golden_line s l) \<and>
   (\<forall>j. bit (cb_golden_line (cb_commit addr d msk s) (drop_bit 6 addr)) j \<longleftrightarrow>
      (let k = addr mod 64 in
       if k \<le> j div 8 \<and> j div 8 < k + 8 \<and> bit msk (j div 8 - k) then bit d (j - 8 * k)
       else bit (cb_golden_line s (drop_bit 6 addr)) j)) \<and>
   cb_golden (cb_commit addr d 255 s) addr 8 = d mod 2 ^ 64"
proof (intro conjI allI impI)
  show "cb_golden_line (cb_commit addr d msk s) l = cb_golden_line s l" if "l \<noteq> drop_bit 6 addr" for l
    using that by (simp add: cb_golden_line_def cb_commit_def Let_def)
  have line: "cb_golden_line (cb_commit addr d m s) (drop_bit 6 addr) = cb_merge addr d m (cb_golden_line s (drop_bit 6 addr))"
    for m by (simp add: cb_commit_def cb_golden_line_def Let_def)
  show "bit (cb_golden_line (cb_commit addr d msk s) (drop_bit 6 addr)) j \<longleftrightarrow>
      (let k = addr mod 64 in
       if k \<le> j div 8 \<and> j div 8 < k + 8 \<and> bit msk (j div 8 - k) then bit d (j - 8 * k)
       else bit (cb_golden_line s (drop_bit 6 addr)) j)" for j
    unfolding line by (rule bit_cb_merge)
  have a: "addr AND 63 = addr mod 64" using and_mask_mod [of addr 6] by simp
  have "cb_golden (cb_commit addr d 255 s) addr 8 =
      take_bit 64 (drop_bit ((addr mod 64) * 8) (cb_merge addr d 255 (cb_golden_line s (drop_bit 6 addr))))"
    unfolding cb_golden_def line a nat_and_mask by simp
  also have "\<dots> = take_bit 64 d"
  proof (rule bit_eqI)
    fix i
    have "(addr mod 64 * 8 + i) div 8 = addr mod 64 + i div 8" by (simp add: div_add)
    then show "bit (take_bit 64 (drop_bit (addr mod 64 * 8) (cb_merge addr d 255 (cb_golden_line s (drop_bit 6 addr))))) i
        = bit (take_bit 64 d) i"
      by (auto simp: bit_take_bit_iff bit_drop_bit_eq bit_cb_merge bit_255 Let_def)
  qed
  finally show "cb_golden (cb_commit addr d 255 s) addr 8 = d mod 2 ^ 64" by (simp add: take_bit_eq_mod)
qed

theorem cb_commit_bytes_witness:
  "cb_golden (cb_commit 320 7 255 cb_init) 320 8 = 7 \<and> cb_golden_line (cb_commit 320 7 255 cb_init) 6 = cb_golden_line cb_init 6"
  using cb_commit_bytes [of 320 7 255 cb_init] by (auto simp: drop_bit_eq_div)

section \<open>Drivers only take bench steps\<close>

text \<open>The contract of a bench for its drivers: an invariant kept by a tick, by presenting a request or a probe and by
  committing a store. Every driver keeps it.\<close>

locale cb_driver =
  fixes tick :: "'a cbench_scheme \<Rightarrow> 'a cbench_scheme py"
    and inv :: "'a cbench_scheme \<Rightarrow> bool"
  assumes tick_inv: "inv s \<Longrightarrow> tick s = Inr s' \<Longrightarrow> inv s'"
    and present_cpu: "inv s \<Longrightarrow> inv (s\<lparr>cb_cpu := cpu\<rparr>)"
    and present_st: "inv s \<Longrightarrow> inv (s\<lparr>cb_st := q\<rparr>)"
    and present_snp: "inv s \<Longrightarrow> cb_snp s = None \<Longrightarrow> inv (s\<lparr>cb_snp := p\<rparr>)"
    and commit_inv: "inv s \<Longrightarrow> inv (cb_commit addr d msk s)"
begin

lemma until_inv: "inv s \<Longrightarrow> cb_until tick cond n s = Inr s' \<Longrightarrow> inv s'"
proof (induction n arbitrary: s)
  case (Suc n)
  then show ?case by (cases "cond s") (auto simp: py_bind_Inr_iff intro: tick_inv)
qed simp

lemma ticks_inv: "inv s \<Longrightarrow> cb_ticks tick n s = Inr s' \<Longrightarrow> inv s'"
proof (induction n arbitrary: s)
  case (Suc n)
  then show ?case by (auto simp: py_bind_Inr_iff intro: tick_inv)
qed simp

lemma issue_inv:
  assumes "inv s" "cb_issue w tick reqs s = Inr (rs, s')"
  shows "inv s'"
proof -
  from assms(2) obtain cond s1 s2 cpu where u: "cb_until tick cond 1000 s = Inr s1"
    and r: "cb_ticks tick (cc_reservation (cw_cfg w (cb_cycle s1))) s1 = Inr s2"
    and t: "cb_ticks tick 3 (s2\<lparr>cb_cpu := cpu\<rparr>) = Inr s'"
    unfolding cb_issue_def Let_def py_bind_Inr_iff by (elim exE conjE) (simp; blast)
  have "inv s2" by (rule ticks_inv [OF until_inv [OF assms(1) u] r])
  then show ?thesis by (rule ticks_inv [OF present_cpu t])
qed

lemma load_wait_inv: "inv s \<Longrightarrow> cb_load_wait w tick r s = Inr s' \<Longrightarrow> inv s'"
  unfolding cb_load_wait_def Let_def by (auto dest: until_inv split: if_splits)

lemma load_from_inv: "inv s \<Longrightarrow> cb_load_from w tick q n s = Inr (r, s') \<Longrightarrow> inv s'"
proof (induction n arbitrary: s)
  case (Suc n)
  from Suc.prems obtain rs s1 where s1: "cb_issue w tick [q] s = Inr (rs, s1)"
    and rest: "(if rs_status (hd rs) = S_OK \<or> rs_status (hd rs) = S_ERROR then Inr (hd rs, s1)
      else py_bind (cb_load_wait w tick (hd rs) s1) (cb_load_from w tick q n)) = Inr (r, s')"
    by (auto simp: py_bind_Inr_iff Let_def)
  from Suc.prems(1) s1 have "inv s1" by (rule issue_inv)
  with rest Suc.IH show ?case by (auto simp: py_bind_Inr_iff dest: load_wait_inv split: if_splits)
qed simp

lemma load_inv: "inv s \<Longrightarrow> cb_load w tick q s = Inr (r, s') \<Longrightarrow> inv s'"
  unfolding cb_load_def by (rule load_from_inv)

lemma store_from_inv: "inv s \<Longrightarrow> cb_store_from tick addr d msk ident n s = Inr (r, s') \<Longrightarrow> inv s'"
proof (induction n arbitrary: s)
  case (Suc n)
  from Suc.prems obtain q s1 where
    s1: "cb_until tick (\<lambda>s'. length (cb_st_responses s) < length (cb_st_responses s')) 1000 (s\<lparr>cb_st := q\<rparr>) = Inr s1"
    and rest: "(let r = snd (last (cb_st_responses s1)) in
        if rs_status r = S_OK then Inr (r, cb_commit addr d msk s1)
        else if rs_status r = S_ERROR then Inr (r, s1)
        else py_bind (if rs_status r = S_MISS
                      then cb_until tick (cb_woken (length (cb_wakes s1)) (rs_mshr r)) 1000 s1
                      else tick s1) (cb_store_from tick addr d msk ident n)) = Inr (r, s')"
    by (auto simp: py_bind_Inr_iff Let_def)
  have "inv s1" by (rule until_inv [OF present_st [OF Suc.prems(1)] s1])
  with rest Suc.IH show ?case
    by (auto simp: py_bind_Inr_iff Let_def intro: commit_inv dest: until_inv tick_inv split: if_splits)
qed simp

lemma store_inv: "inv s \<Longrightarrow> cb_store tick addr d msk ident s = Inr (r, s') \<Longrightarrow> inv s'"
  unfolding cb_store_def by (rule store_from_inv)

lemma probe_inv: "inv s \<Longrightarrow> cb_probe tick addr down s = Inr (q, s') \<Longrightarrow> inv s'"
  unfolding cb_probe_def Let_def py_bind_Inr_iff
  by (auto dest: until_inv [OF present_snp] split: if_splits)

lemma idle_inv: "inv s \<Longrightarrow> cb_idle w tick s = Inr s' \<Longrightarrow> inv s'"
  unfolding cb_idle_def by (rule until_inv)

end

section \<open>Gets and grants\<close>

text \<open>The grants in flight: presented or queued.\<close>

definition cb_grants :: "'a cbench_scheme \<Rightarrow> cb_grant list" where
  "cb_grants s = filter (\<lambda>g. cg_op g \<noteq> PUTACK) ((case cb_rsp s of None \<Rightarrow> [] | Some g \<Rightarrow> [g]) @ cb_pending s)"

text \<open>Every get in flight has exactly one grant in flight, for its line, and the other way round.\<close>

definition cb_flight :: "'a cbench_scheme \<Rightarrow> bool" where
  "cb_flight s \<longleftrightarrow> distinct (map fst (cb_sent s)) \<and>
     mset (map (\<lambda>g. (cg_tid g, cg_line g)) (cb_grants s)) = mset (cb_sent s)"

text \<open>The operations that touch neither.\<close>

lemma alist_update_new: "k \<notin> fst ` set xs \<Longrightarrow> AList.update k x xs = xs @ [(k, x)]"
  by (induction xs) auto

lemma alist_delete_mset:
  "distinct (map fst xs) \<Longrightarrow> map_of xs k = Some x \<Longrightarrow> mset (AList.delete k xs) = mset xs - {#(k, x)#}"
proof (induction xs)
  case (Cons p xs)
  obtain k' x' where p: "p = (k', x')" by (cases p)
  show ?case
  proof (cases "k' = k")
    case True
    with Cons.prems p have "k \<notin> fst ` set xs" by auto
    then have "AList.delete k xs = xs" by (induction xs) auto
    with True Cons.prems p show ?thesis by simp
  next
    case False
    with Cons p have IH: "mset (AList.delete k xs) = mset xs - {#(k, x)#}" and "map_of xs k = Some x" by auto
    then have "(k, x) \<in># mset xs" by (simp add: map_of_SomeD)
    with IH False p show ?thesis by simp
  qed
qed simp

lemma cb_flight_cong:
  "cb_rsp s' = cb_rsp s \<Longrightarrow> cb_pending s' = cb_pending s \<Longrightarrow> cb_sent s' = cb_sent s \<Longrightarrow> cb_flight s' = cb_flight s"
  by (simp add: cb_flight_def cb_grants_def)

text \<open>What the logs leave alone.\<close>

definition cb_core :: "'a cbench_scheme \<Rightarrow> 'a cbench_scheme \<Rightarrow> bool" where
  "cb_core s s' \<longleftrightarrow> cb_rsp s' = cb_rsp s \<and> cb_pending s' = cb_pending s \<and> cb_sent s' = cb_sent s \<and>
     cb_held s' = cb_held s \<and> cb_mem s' = cb_mem s \<and> cb_gold s' = cb_gold s"

lemma cb_core_refl: "cb_core s s"
  by (simp add: cb_core_def)

lemma cb_core_trans: "cb_core s s1 \<Longrightarrow> cb_core s1 s2 \<Longrightarrow> cb_core s s2"
  by (simp add: cb_core_def)

lemma cb_log_core:
  "cb_log_resp wd v p s = Inr s' \<Longrightarrow> cb_core s s'" "cb_log_st wd v s = Inr s' \<Longrightarrow> cb_core s s'"
  "cb_log_ptw wd v s = Inr s' \<Longrightarrow> cb_core s s'" "cb_core s (cb_log_ad v s)" "cb_log_wake v s = Inr s' \<Longrightarrow> cb_core s s'"
  by (auto simp: cb_log_resp_def cb_log_st_def cb_log_ptw_def cb_log_ad_def cb_log_wake_def py_bind_Inr_iff cb_core_def
      split: if_splits)

lemma cb_log_all_core:
  assumes "cb_log_all wd v s = Inr s'"
  shows "cb_core s s'"
proof -
  from assms obtain s1 s2 s3 s4 where "cb_log_resp wd v 0 s = Inr s1" "cb_log_resp wd v 1 s1 = Inr s2"
    "cb_log_st wd v s2 = Inr s3" "cb_log_ptw wd v s3 = Inr s4" "s' = cb_log_ad v s4"
    unfolding cb_log_all_def py_bind_Inr_iff by blast
  then show ?thesis by (metis cb_core_trans cb_log_core(1-4))
qed

lemma cb_present_rsp_grants: "mset (cb_grants (cb_present_rsp cfg s)) = mset (cb_grants s)"
proof (cases "cb_rsp s")
  case None
  show ?thesis
  proof (cases "find (cb_offered cfg (cb_cycle s)) (cb_pending s)")
    case (Some g)
    then have "g \<in> set (cb_pending s)" by (auto simp: find_Some_iff)
    then have "mset (cb_pending s) = add_mset g (mset (remove1 g (cb_pending s)))" by simp
    then have "mset (filter (\<lambda>g. cg_op g \<noteq> PUTACK) (cb_pending s)) =
        mset (filter (\<lambda>g. cg_op g \<noteq> PUTACK) (g # remove1 g (cb_pending s)))"
      by (simp only: mset_filter mset.simps)
    then show ?thesis by (simp add: cb_present_rsp_def None Some cb_grants_def)
  qed (simp add: cb_present_rsp_def None)
qed (simp add: cb_present_rsp_def)

lemma cb_present_rsp_frame:
  "cb_sent (cb_present_rsp cfg s) = cb_sent s" "cb_held (cb_present_rsp cfg s) = cb_held s"
  "cb_mem (cb_present_rsp cfg s) = cb_mem s" "cb_gold (cb_present_rsp cfg s) = cb_gold s"
  "cb_snp (cb_present_rsp cfg s) = cb_snp s" "cb_cycle (cb_present_rsp cfg s) = cb_cycle s"
  by (simp_all add: cb_present_rsp_def split: option.splits)

lemma cb_flight_present: "cb_flight s \<Longrightarrow> cb_flight (cb_present_rsp cfg s)"
  using arg_cong [OF cb_present_rsp_grants [of cfg s], of "image_mset (\<lambda>g. (cg_tid g, cg_line g))"]
  by (simp add: cb_flight_def cb_present_rsp_frame)

lemma cb_get_InrE:
  assumes "cb_get cfg v s = Inr s'" "dv_req_valid v" "cc_request_ready cfg"
  obtains op line tid g where "cb_get_fields (dv_req v) = Inr (op, line, tid)" "op \<in> {GETS, GETM}"
    "tid \<notin> fst ` set (cb_sent s)" "length (cb_sent s) < cc_n cfg" "cb_held s line \<noteq> Some HX"
    "cg_op g \<in> {DATAS, DATAE, ACKE}" "cg_tid g = tid" "cg_line g = line" "cg_data g = cb_backing s line"
    "s' = s\<lparr>cb_sent := cb_sent s @ [(tid, line)], cb_pending := cb_pending s @ [g]\<rparr>"
proof -
  from assms obtain op line tid where f: "cb_get_fields (dv_req v) = Inr (op, line, tid)" "op \<in> {GETS, GETM}"
    "tid \<notin> fst ` set (cb_sent s)" "length (cb_sent s) < cc_n cfg" "cb_held s line \<noteq> Some HX"
    unfolding cb_get_def by (auto simp: py_bind_Inr_iff Let_def)
  let ?g = "\<lparr>cg_due = cb_cycle s + cc_latency cfg,
      cg_op = (if op = GETM \<and> cb_held s line = Some HS then ACKE else if line \<in> set (cc_shared cfg) \<and> op = GETS then DATAS else DATAE),
      cg_tid = tid, cg_err = (line \<in> set (cc_errors cfg)), cg_data = cb_backing s line, cg_line = line\<rparr>"
  have s': "s' = s\<lparr>cb_sent := cb_sent s @ [(tid, line)], cb_pending := cb_pending s @ [?g]\<rparr>"
    using assms f by (simp add: cb_get_def Let_def alist_update_new py_assert_def)
  show ?thesis by (rule that [OF f, of ?g]) (simp_all add: s')
qed

lemma cb_flight_get:
  assumes "cb_flight s" "cb_get cfg v s = Inr s'"
  shows "cb_flight s'"
proof (cases "dv_req_valid v \<and> cc_request_ready cfg")
  case True
  then have "dv_req_valid v" "cc_request_ready cfg" by simp_all
  from cb_get_InrE [OF assms(2) this] obtain op line tid g where
    "tid \<notin> fst ` set (cb_sent s)" "cg_op g \<in> {DATAS, DATAE, ACKE}" "cg_tid g = tid" "cg_line g = line"
    "s' = s\<lparr>cb_sent := cb_sent s @ [(tid, line)], cb_pending := cb_pending s @ [g]\<rparr>" by metis
  with assms(1) show ?thesis by (auto simp: cb_flight_def cb_grants_def)
next
  case False
  with assms show ?thesis by (simp add: cb_get_def)
qed

lemma cb_write_back_Inr:
  "cb_write_back q s = Inr s' \<longleftrightarrow>
     (um_dirty q \<longrightarrow> cb_held s (um_line q) = Some HX \<and> um_data q = cb_golden_line s (um_line q)) \<and>
     s' = s\<lparr>cb_mem := (if um_dirty q then (cb_mem s)(um_line q \<mapsto> um_data q) else cb_mem s)\<rparr>"
  by (auto simp: cb_write_back_def py_bind_Inr_iff)

lemma cb_release_frame:
  assumes "cb_release q s = Inr s'"
  shows "cb_sent s' = cb_sent s \<and> cb_rsp s' = cb_rsp s \<and> cb_grants s' = cb_grants s \<and> cb_gold s' = cb_gold s \<and>
    cb_mem s' = cb_mem s \<and> (\<forall>l. l \<noteq> um_line q \<longrightarrow> cb_held s' l = cb_held s l) \<and> cb_held s' (um_line q) \<noteq> Some HX"
proof (cases "um_op q = PUT")
  case True
  with assms show ?thesis by (auto simp: cb_release_def Let_def py_bind_Inr_iff cb_grants_def)
next
  case False
  with assms obtain p where "cb_snp s = Some p" by (auto simp: cb_release_def Let_def split: option.splits)
  with False assms show ?thesis
    by (cases p) (auto simp: cb_release_def Let_def py_bind_Inr_iff cb_grants_def split: if_splits)
qed

lemma cb_up_msg_InrE:
  assumes "cb_up_msg v s = Inr s'" "dv_up_valid v"
  obtains q where "cb_up_fields (dv_up v) = Inr q" "cb_sent s' = cb_sent s" "cb_rsp s' = cb_rsp s"
    "cb_grants s' = cb_grants s" "cb_gold s' = cb_gold s"
    "um_dirty q \<longrightarrow> cb_held s (um_line q) = Some HX \<and> um_data q = cb_golden_line s (um_line q)"
    "cb_mem s' = (if um_dirty q then (cb_mem s)(um_line q \<mapsto> um_data q) else cb_mem s)"
    "\<forall>l. l \<noteq> um_line q \<longrightarrow> cb_held s' l = cb_held s l" "cb_held s' (um_line q) \<noteq> Some HX"
proof -
  from assms obtain q s1 where q: "cb_up_fields (dv_up v) = Inr q"
    and s1: "cb_write_back q (s\<lparr>cb_up := cb_up s @ [(cb_cycle s, q)]\<rparr>) = Inr s1" and r: "cb_release q s1 = Inr s'"
    by (auto simp: cb_up_msg_def py_bind_Inr_iff)
  have w: "um_dirty q \<longrightarrow> cb_held s (um_line q) = Some HX \<and> um_data q = cb_golden_line s (um_line q)"
    "cb_sent s1 = cb_sent s" "cb_rsp s1 = cb_rsp s" "cb_grants s1 = cb_grants s" "cb_gold s1 = cb_gold s" "cb_held s1 = cb_held s"
    "cb_mem s1 = (if um_dirty q then (cb_mem s)(um_line q \<mapsto> um_data q) else cb_mem s)"
    using s1 unfolding cb_write_back_Inr by (auto simp: cb_grants_def cb_golden_line_def)
  show ?thesis using that [OF q] w cb_release_frame [OF r] by simp
qed

lemma cb_flight_up:
  assumes "cb_flight s" "cb_up_msg v s = Inr s'"
  shows "cb_flight s'"
proof (cases "dv_up_valid v")
  case True
  from cb_up_msg_InrE [OF assms(2) True] have "cb_sent s' = cb_sent s" "cb_grants s' = cb_grants s" by metis+
  with assms(1) show ?thesis by (simp add: cb_flight_def)
next
  case False
  with assms show ?thesis by (simp add: cb_up_msg_def)
qed

text \<open>The presented grant is of a get in flight.\<close>

lemma cb_flight_rsp:
  assumes "cb_flight s" "cb_rsp s = Some g" "cg_op g \<noteq> PUTACK"
  shows "map_of (cb_sent s) (cg_tid g) = Some (cg_line g)"
proof -
  have "(cg_tid g, cg_line g) \<in># mset (map (\<lambda>g. (cg_tid g, cg_line g)) (cb_grants s))"
    using assms(2,3) by (simp add: cb_grants_def)
  also have "mset (map (\<lambda>g. (cg_tid g, cg_line g)) (cb_grants s)) = mset (cb_sent s)" using assms(1) by (simp add: cb_flight_def)
  finally have "(cg_tid g, cg_line g) \<in> set (cb_sent s)" by simp
  with assms(1) show ?thesis by (simp add: cb_flight_def)
qed

lemma cb_take_rsp_InrE:
  assumes "cb_flight s" "cb_take_rsp v s = Inr s'"
  obtains (none) "s' = s"
  | (putack) g where "cb_rsp s = Some g" "cg_op g = PUTACK" "s' = s\<lparr>cb_rsp := None\<rparr>"
  | (grant) g where "cb_rsp s = Some g" "cg_op g \<noteq> PUTACK" "map_of (cb_sent s) (cg_tid g) = Some (cg_line g)"
      "s' = s\<lparr>cb_sent := AList.delete (cg_tid g) (cb_sent s), cb_rsp := None,
         cb_held := (if cg_err g then cb_held s
                     else (cb_held s)(cg_line g \<mapsto> (if cg_op g = DATAS then HS else HX)))\<rparr>"
  using assms(2) cb_flight_rsp [OF assms(1)] unfolding cb_take_rsp_def
  by (auto simp: py_bind_Inr_iff split: option.splits if_splits)

lemma cb_flight_take_rsp:
  assumes f: "cb_flight s" and t: "cb_take_rsp v s = Inr s'"
  shows "cb_flight s'"
  using f t
proof (cases rule: cb_take_rsp_InrE)
  case none
  with f show ?thesis by simp
next
  case (putack g)
  with f show ?thesis by (simp add: cb_flight_def cb_grants_def)
next
  case (grant g)
  have d: "distinct (map fst (cb_sent s))" using f by (simp add: cb_flight_def)
  have "mset (cb_sent s) = add_mset (cg_tid g, cg_line g) (mset (map (\<lambda>g. (cg_tid g, cg_line g)) (cb_grants s')))"
    using f grant by (simp add: cb_flight_def cb_grants_def)
  then have "mset (map (\<lambda>g. (cg_tid g, cg_line g)) (cb_grants s')) = mset (cb_sent s')"
    using alist_delete_mset [OF d grant(3)] grant(4) by simp
  moreover have "distinct (map fst (cb_sent s'))" using d by (simp add: grant(4) AList.distinct_delete)
  ultimately show ?thesis by (simp add: cb_flight_def)
qed

lemma cb_tail_frame:
  "cb_rsp (cb_take_requests v s) = cb_rsp s" "cb_pending (cb_take_requests v s) = cb_pending s"
  "cb_sent (cb_take_requests v s) = cb_sent s" "cb_held (cb_take_requests v s) = cb_held s"
  "cb_mem (cb_take_requests v s) = cb_mem s" "cb_gold (cb_take_requests v s) = cb_gold s"
  "cb_rsp (cb_take_snp v s) = cb_rsp s" "cb_pending (cb_take_snp v s) = cb_pending s"
  "cb_sent (cb_take_snp v s) = cb_sent s" "cb_held (cb_take_snp v s) = cb_held s"
  "cb_mem (cb_take_snp v s) = cb_mem s" "cb_gold (cb_take_snp v s) = cb_gold s"
  by (simp_all add: cb_take_requests_def cb_take_snp_def)

text \<open>A tick: the presented response, the logs, then the four channels in order.\<close>

lemma cb_tick_InrE:
  assumes "cb_tick w s = Inr s'"
  defines "cfg \<equiv> cw_cfg w (cb_cycle s)" and "v \<equiv> cw_mid w (cb_cycle s)"
  obtains s2 s3 s4 s5 where "cb_core (cb_present_rsp cfg s) s2" "cb_get cfg v s2 = Inr s3" "cb_up_msg v s3 = Inr s4"
    "cb_take_rsp v s4 = Inr s5" "cb_core s5 s'"
proof -
  let ?s1 = "cb_present_rsp cfg s"
  from assms(1) obtain s6 where s6: "cb_sample cfg v ?s1 = Inr s6"
    and last: "cb_dma_check cfg v (pr_mon (cw_pre w (Suc (cb_cycle s)))) (s6\<lparr>cb_cycle := Suc (cb_cycle s)\<rparr>) = Inr s'"
    unfolding cb_tick_def Let_def py_bind_Inr_iff cfg_def v_def by blast
  from s6 obtain s1 s2 s3 s4 s5 where s: "cb_log_all (cc_widths cfg) v ?s1 = Inr s1" "cb_log_wake v s1 = Inr s2"
    "cb_get cfg v s2 = Inr s3" "cb_up_msg v s3 = Inr s4" "cb_take_rsp v s4 = Inr s5"
    "s6 = cb_take_requests v (cb_take_snp v s5)"
    unfolding cb_sample_def py_bind_Inr_iff by auto
  have "cb_core ?s1 s2" using cb_log_all_core [OF s(1)] cb_log_core(5) [OF s(2)] by (rule cb_core_trans)
  moreover have "cb_core s5 s'"
    using last unfolding cb_dma_check_def Let_def
    by (auto simp: s(6) cb_core_def cb_tail_frame py_bind_Inr_iff split: if_splits)
  ultimately show ?thesis using s(3-5) that by blast
qed

lemma cb_core_flight: "cb_core s s' \<Longrightarrow> cb_flight s' = cb_flight s"
  unfolding cb_core_def by (intro cb_flight_cong) simp_all

lemma cb_flight_tick: "cb_flight s \<Longrightarrow> cb_tick w s = Inr s' \<Longrightarrow> cb_flight s'"
  by (erule cb_tick_InrE) (meson cb_core_flight cb_flight_get cb_flight_present cb_flight_take_rsp cb_flight_up)

lemma cb_flight_init: "cb_flight cb_init"
  by (simp add: cb_flight_def cb_grants_def cb_init_def)

lemma cb_flight_frame:
  "cb_flight (s\<lparr>cb_cpu := cpu\<rparr>) = cb_flight s" "cb_flight (s\<lparr>cb_st := q\<rparr>) = cb_flight s"
  "cb_flight (s\<lparr>cb_snp := p\<rparr>) = cb_flight s" "cb_flight (cb_commit addr d msk s) = cb_flight s"
  by (intro cb_flight_cong; simp add: cb_commit_def Let_def)+

interpretation cb_flights: cb_driver "cb_tick w" cb_flight for w
  by unfold_locales (simp_all add: cb_flight_frame cb_flight_tick)

section \<open>Events\<close>

text \<open>What the drivers and the tests do to the bench, one event at a time.\<close>

datatype cb_event =
    E_tick
  | E_cpu "cpu_req option list"
  | E_st "cpu_req option"
  | E_ptw "cpu_req option"
  | E_ad "(nat \<times> nat \<times> nat \<times> nat \<times> nat) option"
  | E_snp "(nat \<times> nat \<times> nat) option"
  | E_commit nat nat nat

fun cb_step :: "cb_world \<Rightarrow> 'a cbench_scheme \<Rightarrow> cb_event \<Rightarrow> 'a cbench_scheme py" where
  "cb_step w s E_tick = cb_tick w s"
| "cb_step w s (E_cpu cpu) = Inr (s\<lparr>cb_cpu := cpu\<rparr>)"
| "cb_step w s (E_st q) = Inr (s\<lparr>cb_st := q\<rparr>)"
| "cb_step w s (E_ptw q) = Inr (s\<lparr>cb_ptw := q\<rparr>)"
| "cb_step w s (E_ad a) = Inr (s\<lparr>cb_ad := a\<rparr>)"
| "cb_step w s (E_snp p) = py_bind (py_assert (cb_snp s = None)) (\<lambda>_. Inr (s\<lparr>cb_snp := p\<rparr>))"
| "cb_step w s (E_commit addr d msk) = Inr (cb_commit addr d msk s)"

text \<open>Every driver is a sequence of events.\<close>

lemma py_run_snoc: "py_run step s xs = Inr s1 \<Longrightarrow> step s1 x = Inr s2 \<Longrightarrow> \<exists>ys. py_run step s ys = Inr s2"
  by (rule exI [of _ "xs @ [x]"]) (simp add: py_run_append)

interpretation cb_runs: cb_driver "cb_tick w" "\<lambda>s. \<exists>evs. py_run (cb_step w) s0 evs = Inr s" for w s0
proof unfold_locales
  fix s assume "\<exists>evs. py_run (cb_step w) s0 evs = Inr s"
  then obtain evs where evs: "py_run (cb_step w) s0 evs = Inr s" by blast
  show "\<exists>evs. py_run (cb_step w) s0 evs = Inr s'" if "cb_tick w s = Inr s'" for s'
    using that by (intro py_run_snoc [OF evs, of E_tick]) simp
  show "\<exists>evs. py_run (cb_step w) s0 evs = Inr (s\<lparr>cb_cpu := cpu\<rparr>)" for cpu
    by (intro py_run_snoc [OF evs, of "E_cpu cpu"]) simp
  show "\<exists>evs. py_run (cb_step w) s0 evs = Inr (s\<lparr>cb_st := q\<rparr>)" for q
    by (intro py_run_snoc [OF evs, of "E_st q"]) simp
  show "\<exists>evs. py_run (cb_step w) s0 evs = Inr (s\<lparr>cb_snp := p\<rparr>)" if "cb_snp s = None" for p
    using that by (intro py_run_snoc [OF evs, of "E_snp p"]) simp
  show "\<exists>evs. py_run (cb_step w) s0 evs = Inr (cb_commit addr d msk s)" for addr d msk
    by (intro py_run_snoc [OF evs, of "E_commit addr d msk"]) simp
qed

text \<open>So whatever holds after every run of events holds after every driver.\<close>

theorem cb_drivers_are_runs:
  "(\<forall>reqs rs s'. cb_issue w (cb_tick w) reqs s = Inr (rs, s') \<longrightarrow> (\<exists>evs. py_run (cb_step w) s evs = Inr s')) \<and>
   (\<forall>q r s'. cb_load w (cb_tick w) q s = Inr (r, s') \<longrightarrow> (\<exists>evs. py_run (cb_step w) s evs = Inr s')) \<and>
   (\<forall>addr d msk ident r s'. cb_store (cb_tick w) addr d msk ident s = Inr (r, s') \<longrightarrow> (\<exists>evs. py_run (cb_step w) s evs = Inr s')) \<and>
   (\<forall>addr down q s'. cb_probe (cb_tick w) addr down s = Inr (q, s') \<longrightarrow> (\<exists>evs. py_run (cb_step w) s evs = Inr s')) \<and>
   (\<forall>s'. cb_idle w (cb_tick w) s = Inr s' \<longrightarrow> (\<exists>evs. py_run (cb_step w) s evs = Inr s'))"
proof -
  have "py_run (cb_step w) s [] = Inr s" by simp
  then have start: "\<exists>evs. py_run (cb_step w) s evs = Inr s" by blast
  show ?thesis
    by (intro conjI allI impI; (erule cb_runs.issue_inv [OF start] | erule cb_runs.load_inv [OF start]
      | erule cb_runs.store_inv [OF start] | erule cb_runs.probe_inv [OF start] | erule cb_runs.idle_inv [OF start]))
qed

lemma cb_flight_step: "cb_flight s \<Longrightarrow> cb_step w s ev = Inr s' \<Longrightarrow> cb_flight s'"
proof (cases ev)
  case (E_ptw q)
  assume "cb_flight s" "cb_step w s ev = Inr s'"
  with E_ptw show ?thesis by (auto simp: cb_flight_def cb_grants_def)
next
  case (E_ad a)
  assume "cb_flight s" "cb_step w s ev = Inr s'"
  with E_ad show ?thesis by (auto simp: cb_flight_def cb_grants_def)
qed (auto simp: cb_flight_frame cb_flight_tick py_bind_Inr_iff)

interpretation cb_any: monitored cb_init "cb_step w" "\<lambda>_ _. True" cb_flight for w
  by unfold_locales (auto intro: cb_flight_init cb_flight_step)

lemma cb_any_run_ok: "cb_any.run_ok w s evs"
  by (induction evs arbitrary: s) (auto split: sum.splits)

text \<open>C25: Whatever the tests do and whatever the cache drives, as long as no check fails, the transactions in flight are
  distinct and each has exactly one grant, presented or queued, for its line; so when the cache takes
  a presented response the look-up of its transaction and the check of its line succeed.\<close>

theorem cb_grants_exact:
  assumes "py_run (cb_step w) cb_init evs = Inr s"
  shows "distinct (map fst (cb_sent s)) \<and>
    mset (map (\<lambda>g. (cg_tid g, cg_line g)) (cb_grants s)) = mset (cb_sent s) \<and> (\<exists>s'. cb_take_rsp v s = Inr s')"
proof -
  have f: "cb_flight s" by (rule cb_any.run_inv [OF cb_flight_init cb_any_run_ok assms])
  then have "\<exists>s'. cb_take_rsp v s = Inr s'"
    using cb_flight_rsp [OF f] by (auto simp: cb_take_rsp_def py_assert_def split: option.splits)
  with f show ?thesis by (simp add: cb_flight_def)
qed

section \<open>Coherence\<close>

text \<open>What the cache and the tests owe the bench and the bench does not check: a get is for a line without a get in
  flight; a clean message gives up only a line that is golden in memory; a store commits on an owned line.\<close>

definition cb_get_env :: "cb_cfg \<Rightarrow> cb_dut \<Rightarrow> 'a cbench_scheme \<Rightarrow> bool" where
  "cb_get_env cfg v s \<longleftrightarrow> (case cb_get_fields (dv_req v) of
     Inl e \<Rightarrow> True
   | Inr (op, line, tid) \<Rightarrow> dv_req_valid v \<and> cc_request_ready cfg \<longrightarrow> line \<notin> snd ` set (cb_sent s))"

definition cb_up_env :: "cb_dut \<Rightarrow> 'a cbench_scheme \<Rightarrow> bool" where
  "cb_up_env v s \<longleftrightarrow> (case cb_up_fields (dv_up v) of
     Inl e \<Rightarrow> True
   | Inr q \<Rightarrow> dv_up_valid v \<and> \<not> um_dirty q \<longrightarrow> cb_backing s (um_line q) = cb_golden_line s (um_line q))"

fun cb_env :: "cb_world \<Rightarrow> 'a cbench_scheme \<Rightarrow> cb_event \<Rightarrow> bool" where
  "cb_env w s E_tick \<longleftrightarrow> cb_get_env (cw_cfg w (cb_cycle s)) (cw_mid w (cb_cycle s)) s \<and> cb_up_env (cw_mid w (cb_cycle s)) s"
| "cb_env w s (E_commit addr d msk) \<longleftrightarrow> cb_held s (drop_bit 6 addr) = Some HX"
| "cb_env w s _ \<longleftrightarrow> True"

definition cb_fresh :: "'a cbench_scheme \<Rightarrow> bool" where
  "cb_fresh s \<longleftrightarrow> distinct (map snd (cb_sent s)) \<and>
     (\<forall>l. cb_held s l \<noteq> Some HX \<longrightarrow> cb_backing s l = cb_golden_line s l) \<and>
     (\<forall>g \<in> set (cb_grants s). cb_held s (cg_line g) \<noteq> Some HX \<and> cg_data g = cb_golden_line s (cg_line g))"

definition cb_coherent :: "'a cbench_scheme \<Rightarrow> bool" where
  "cb_coherent s \<longleftrightarrow> cb_flight s \<and> cb_fresh s"

lemma cb_fresh_cong:
  assumes "mset (cb_grants s') = mset (cb_grants s)" "cb_sent s' = cb_sent s" "cb_held s' = cb_held s"
    "cb_mem s' = cb_mem s" "cb_gold s' = cb_gold s"
  shows "cb_fresh s' = cb_fresh s"
  using assms mset_eq_setD [OF assms(1)] by (simp add: cb_fresh_def cb_backing_def cb_golden_line_def)

lemma cb_fresh_core: "cb_core s s' \<Longrightarrow> cb_fresh s' = cb_fresh s"
  by (rule cb_fresh_cong) (simp_all add: cb_core_def cb_grants_def)

lemma cb_fresh_present: "cb_fresh (cb_present_rsp cfg s) = cb_fresh s"
  by (rule cb_fresh_cong) (simp_all add: cb_present_rsp_grants cb_present_rsp_frame)

lemma cb_get_frame: "cb_get cfg v s = Inr s' \<Longrightarrow> cb_mem s' = cb_mem s \<and> cb_gold s' = cb_gold s"
  by (auto simp: cb_get_def py_bind_Inr_iff Let_def split: if_splits)

lemma cb_fresh_get:
  assumes "cb_fresh s" "cb_get cfg v s = Inr s'" "cb_get_env cfg v s"
  shows "cb_fresh s'"
proof (cases "dv_req_valid v \<and> cc_request_ready cfg")
  case True
  then have v: "dv_req_valid v" "cc_request_ready cfg" by simp_all
  from cb_get_InrE [OF assms(2) v] obtain op line tid g where
    f: "cb_get_fields (dv_req v) = Inr (op, line, tid)" and
    g: "cb_held s line \<noteq> Some HX" "cg_op g \<in> {DATAS, DATAE, ACKE}" "cg_line g = line" "cg_data g = cb_backing s line"
      "s' = s\<lparr>cb_sent := cb_sent s @ [(tid, line)], cb_pending := cb_pending s @ [g]\<rparr>" by metis
  have "line \<notin> snd ` set (cb_sent s)" using assms(3) v f by (simp add: cb_get_env_def)
  moreover have "set (cb_grants s') = insert g (set (cb_grants s))" using g(2) by (auto simp: g(5) cb_grants_def)
  ultimately show ?thesis
    using assms(1) g(1,3,4) by (auto simp: cb_fresh_def g(5) cb_backing_def cb_golden_line_def)
next
  case False
  with assms show ?thesis by (simp add: cb_get_def)
qed

lemma cb_fresh_up:
  assumes s: "cb_fresh s" "cb_up_msg v s = Inr s'" and env: "cb_up_env v s"
  shows "cb_fresh s'"
proof (cases "dv_up_valid v")
  case True
  from s(2) True show ?thesis
  proof (rule cb_up_msg_InrE)
  fix q
  assume q: "cb_up_fields (dv_up v) = Inr q" "cb_sent s' = cb_sent s" "cb_rsp s' = cb_rsp s" "cb_grants s' = cb_grants s" "cb_gold s' = cb_gold s"
      "um_dirty q \<longrightarrow> cb_held s (um_line q) = Some HX \<and> um_data q = cb_golden_line s (um_line q)"
      "cb_mem s' = (if um_dirty q then (cb_mem s)(um_line q \<mapsto> um_data q) else cb_mem s)"
      "\<forall>l. l \<noteq> um_line q \<longrightarrow> cb_held s' l = cb_held s l" "cb_held s' (um_line q) \<noteq> Some HX"
  have gold: "cb_golden_line s' l = cb_golden_line s l" for l using q(5) by (simp add: cb_golden_line_def)
  have bk: "cb_backing s' l = (if um_dirty q \<and> l = um_line q then um_data q else cb_backing s l)" for l
    using q(7) by (simp add: cb_backing_def)
  have "cb_backing s' l = cb_golden_line s' l" if "cb_held s' l \<noteq> Some HX" for l
  proof (cases "l = um_line q")
    case True
    with q(1,6) env \<open>dv_up_valid v\<close> show ?thesis by (cases "um_dirty q") (simp_all add: bk gold cb_up_env_def)
  next
    case False
    with that q(8) s(1) show ?thesis by (simp add: bk gold cb_fresh_def)
  qed
  moreover have "cb_held s' l \<noteq> Some HX" if "cb_held s l \<noteq> Some HX" for l
    using that q(8,9) by (cases "l = um_line q") simp_all
  ultimately show ?thesis using s(1) by (simp add: cb_fresh_def gold q(2,4))
  qed
next
  case False
  with s show ?thesis by (simp add: cb_up_msg_def)
qed

lemma cb_fresh_take_rsp:
  assumes f: "cb_flight s" and t: "cb_take_rsp v s = Inr s'" and s: "cb_fresh s"
  shows "cb_fresh s'"
  using f t
proof (cases rule: cb_take_rsp_InrE)
  case none
  with s show ?thesis by simp
next
  case (putack g)
  have "cb_fresh s' = cb_fresh s" by (rule cb_fresh_cong) (simp_all add: putack cb_grants_def)
  with s show ?thesis by simp
next
  case (grant g)
  have gs: "cb_grants s = g # cb_grants s'" using grant by (simp add: cb_grants_def)
  have "mset (map snd (cb_sent s)) = image_mset snd (mset (cb_sent s))" by simp
  also have "\<dots> = image_mset snd (mset (map (\<lambda>g. (cg_tid g, cg_line g)) (cb_grants s)))"
    using f by (simp only: cb_flight_def)
  also have "\<dots> = mset (map cg_line (cb_grants s))" by (simp add: multiset.map_comp comp_def)
  finally have lines: "distinct (map cg_line (cb_grants s))"
    using s mset_eq_imp_distinct_iff [of "map snd (cb_sent s)"] by (simp add: cb_fresh_def)
  have same: "cb_backing s' l = cb_backing s l" "cb_golden_line s' l = cb_golden_line s l" for l
    by (simp_all add: grant(4) cb_backing_def cb_golden_line_def)
  have g: "cb_held s (cg_line g) \<noteq> Some HX" using s gs by (simp add: cb_fresh_def)
  have "distinct (map snd (cb_sent s'))"
    using s by (simp add: grant(4) cb_fresh_def AList.delete_eq distinct_map_filter)
  moreover have "cb_backing s' l = cb_golden_line s' l" if "cb_held s' l \<noteq> Some HX" for l
  proof -
    have "cb_held s l \<noteq> Some HX" using that g by (cases "l = cg_line g") (auto simp: grant(4) split: if_splits)
    with s show ?thesis by (simp add: same cb_fresh_def)
  qed
  moreover have "cb_held s' (cg_line g') \<noteq> Some HX \<and> cg_data g' = cb_golden_line s' (cg_line g')"
    if "g' \<in> set (cb_grants s')" for g'
  proof -
    have "cg_line g' \<in> cg_line ` set (cb_grants s')" using that by (rule imageI)
    then have "cg_line g' \<noteq> cg_line g" using lines gs by auto
    then have "cb_held s' (cg_line g') = cb_held s (cg_line g')" by (simp add: grant(4))
    with s that gs show ?thesis by (simp add: same cb_fresh_def)
  qed
  ultimately show ?thesis by (simp add: cb_fresh_def)
qed

lemma cb_get_env_cong: "cb_sent s' = cb_sent s \<Longrightarrow> cb_get_env cfg v s' = cb_get_env cfg v s"
  by (auto simp: cb_get_env_def split: sum.splits)

lemma cb_up_env_cong: "cb_mem s' = cb_mem s \<Longrightarrow> cb_gold s' = cb_gold s \<Longrightarrow> cb_up_env v s' = cb_up_env v s"
  by (auto simp: cb_up_env_def cb_backing_def cb_golden_line_def split: sum.splits)

lemma cb_coherent_tick:
  assumes s: "cb_coherent s" and env: "cb_env w s E_tick" and t: "cb_tick w s = Inr s'"
  shows "cb_coherent s'"
  using t
proof (rule cb_tick_InrE)
  let ?cfg = "cw_cfg w (cb_cycle s)" and ?v = "cw_mid w (cb_cycle s)"
  fix s2 s3 s4 s5
  assume st: "cb_core (cb_present_rsp ?cfg s) s2" "cb_get ?cfg ?v s2 = Inr s3" "cb_up_msg ?v s3 = Inr s4"
    "cb_take_rsp ?v s4 = Inr s5" "cb_core s5 s'"
  have e: "cb_get_env ?cfg ?v s" "cb_up_env ?v s" using env by simp_all
  have f2: "cb_flight s2" "cb_fresh s2"
    using s st(1) cb_flight_present [of s ?cfg] by (simp_all add: cb_coherent_def cb_core_flight cb_fresh_core cb_fresh_present)
  have sent: "cb_sent s2 = cb_sent s" using st(1) by (simp add: cb_core_def cb_present_rsp_frame)
  then have "cb_get_env ?cfg ?v s2" using e(1) cb_get_env_cong [OF sent] by simp
  then have f3: "cb_flight s3" "cb_fresh s3" using f2 st(2) by (auto intro: cb_flight_get cb_fresh_get)
  have "cb_mem s3 = cb_mem s" "cb_gold s3 = cb_gold s"
    using st(1) cb_get_frame [OF st(2)] by (simp_all add: cb_core_def cb_present_rsp_frame)
  then have "cb_up_env ?v s3" using e(2) cb_up_env_cong [of s3 s] by simp
  then have f4: "cb_flight s4" "cb_fresh s4" using f3 st(3) by (auto intro: cb_flight_up cb_fresh_up)
  have "cb_flight s5" by (rule cb_flight_take_rsp [OF f4(1) st(4)])
  moreover have "cb_fresh s5" by (rule cb_fresh_take_rsp [OF f4(1) st(4) f4(2)])
  ultimately show ?thesis using st(5) by (simp add: cb_coherent_def cb_core_flight cb_fresh_core)
qed

lemma cb_coherent_commit:
  assumes "cb_coherent s" "cb_held s (drop_bit 6 addr) = Some HX"
  shows "cb_coherent (cb_commit addr d msk s)"
proof -
  let ?s = "cb_commit addr d msk s"
  have c: "cb_sent ?s = cb_sent s" "cb_held ?s = cb_held s" "cb_grants ?s = cb_grants s" "cb_backing ?s l = cb_backing s l"
    "l \<noteq> drop_bit 6 addr \<Longrightarrow> cb_golden_line ?s l = cb_golden_line s l" for l
    by (simp_all add: cb_commit_def Let_def cb_grants_def cb_backing_def cb_golden_line_def)
  have "l \<noteq> drop_bit 6 addr" if "cb_held s l \<noteq> Some HX" for l using that assms(2) by auto
  then have "cb_fresh ?s" using assms(1) by (simp add: cb_coherent_def cb_fresh_def c)
  with assms(1) show ?thesis by (simp add: cb_coherent_def cb_flight_frame)
qed

lemma cb_coherent_step: "cb_coherent s \<Longrightarrow> cb_env w s ev \<Longrightarrow> cb_step w s ev = Inr s' \<Longrightarrow> cb_coherent s'"
proof (cases ev)
  case E_tick
  then show "cb_coherent s \<Longrightarrow> cb_env w s ev \<Longrightarrow> cb_step w s ev = Inr s' \<Longrightarrow> ?thesis"
    using cb_coherent_tick by simp
next
  case (E_commit addr d msk)
  then show "cb_coherent s \<Longrightarrow> cb_env w s ev \<Longrightarrow> cb_step w s ev = Inr s' \<Longrightarrow> ?thesis"
    using cb_coherent_commit by auto
qed (auto simp: cb_coherent_def cb_flight_def cb_fresh_def cb_grants_def cb_backing_def cb_golden_line_def py_bind_Inr_iff)

lemma cb_coherent_init: "cb_coherent cb_init"
  by (simp add: cb_coherent_def cb_flight_init) (simp add: cb_fresh_def cb_init_def cb_grants_def cb_backing_def cb_golden_line_def)

interpretation cb_proto: monitored cb_init "cb_step w" "cb_env w" cb_coherent for w
  by unfold_locales (auto intro: cb_coherent_init cb_coherent_step)

text \<open>C24: In every accepted run whose cache keeps to the protocol, a line that the cache does not own is golden in memory,
  and every grant in flight is for a line it does not own and carries the golden data.\<close>

theorem cb_coherence:
  assumes "py_run (cb_step w) cb_init evs = Inr s" "cb_proto.run_ok w cb_init evs"
  shows "(\<forall>l. cb_held s l \<noteq> Some HX \<longrightarrow> cb_backing s l = cb_golden_line s l) \<and>
    (\<forall>g \<in> set (cb_grants s). cb_held s (cg_line g) \<noteq> Some HX \<and> cg_data g = cb_golden_line s (cg_line g))"
  using cb_proto.run_inv [OF cb_coherent_init assms(2,1)] by (simp add: cb_coherent_def cb_fresh_def)

section \<open>A run\<close>

text \<open>Line 5 is requested in cycle 0, granted in cycle 1, written, and put back dirty in cycle 2.\<close>

definition demo_cfg :: cb_cfg where
  "demo_cfg = \<lparr>cc_n = 4, cc_sets = 1, cc_ways = 1, cc_widths = \<lparr>wd_lq = 4, wd_sq = 4, wd_rob = 4, wd_branch = 4\<rparr>,
     cc_reservation = 1, cc_block_gets = False, cc_block_putacks = False, cc_latency = 1, cc_errors = [], cc_shared = [],
     cc_request_ready = True, cc_snp_dma_write = False\<rparr>"

definition demo_dut :: cb_dut where
  "demo_dut = \<lparr>dv_cpu_ready = 3, dv_resp = (\<lambda>_. 0), dv_st_ready = True, dv_st_resp = 0, dv_ptw_ready = True,
     dv_ptw_resp = 0, dv_ad_ready = True, dv_ad_resp = 0, dv_wake = 0, dv_req_valid = False, dv_req = 0, dv_resp_ready = True,
     dv_up_valid = False, dv_up = 0, dv_snp_ready = True, dv_fatal = 0, dv_dma_inv = False, dv_dma_line = 0,
     dv_mon = \<lparr>cm_state = 0, cm_addr = 0\<rparr>\<rparr>"

definition demo_world :: "nat \<Rightarrow> nat \<Rightarrow> cb_world" where
  "demo_world r u = \<lparr>cw_cfg = (\<lambda>_. demo_cfg),
     cw_mid = (\<lambda>c. if c = 0 then demo_dut\<lparr>dv_req_valid := True, dv_req := r\<rparr>
                 else if c = 2 then demo_dut\<lparr>dv_up_valid := True, dv_up := u\<rparr> else demo_dut),
     cw_pre = (\<lambda>_. \<lparr>pr_full_busy = False, pr_internal_busy = False, pr_idle = True, pr_mon = \<lparr>cm_state = 0, cm_addr = 0\<rparr>\<rparr>)\<rparr>"

definition demo_data :: nat where
  "demo_data = cb_merge 320 7 1 (cb_initial 5)"

lemma cb_initial_less: "cb_initial line < 2 ^ 512"
proof -
  have "cb_initial line < 256 ^ length (map (\<lambda>i. (line * 7 + i * 3 + 11) AND 255) [0..<64])"
    unfolding cb_initial_def by (rule bytes_le_less) (use and_mask_less [of _ 8] in auto)
  then show ?thesis by (simp add: power_mult [symmetric])
qed

lemma demo_data_less: "demo_data < 2 ^ 512"
  unfolding less_exp_bit_iff demo_data_def bit_cb_merge
  using cb_initial_less [of 5, unfolded less_exp_bit_iff] by (auto simp: Let_def)

lemma demo_words:
  obtains r u where "cb_get_fields r = Inr (GETS, 5, 0)"
    "cb_up_fields u = Inr \<lparr>um_op = PUT, um_dirty = True, um_line = 5, um_tid = 0, um_data = demo_data\<rparr>"
proof -
  let ?r = "[(''op'', 2, 0), (''line'', 26, 5), (''tid'', 2, 0), (''mask'', 64, 0), (''data'', 512, 0)] :: (string \<times> nat \<times> nat) list"
  let ?u = "[(''op'', 2, 0), (''dirty'', 1, 1), (''line'', 26, 5), (''tid'', 2, 0), (''data'', 512, demo_data)] :: (string \<times> nat \<times> nat) list"
  obtain r where "pack (map snd ?r) = Inr r"
    using pack_from_total [of "map snd ?r" 0] unfolding pack_def by auto
  moreover obtain u where "pack (map snd ?u) = Inr u"
    using pack_from_total [of "map snd ?u" 0] demo_data_less unfolding pack_def by auto
  ultimately have "unpack r (map (\<lambda>(n, w, x). (n, w)) ?r) = Inr (rev (map (\<lambda>(n, w, x). (n, x)) ?r))"
    "unpack u (map (\<lambda>(n, w, x). (n, w)) ?u) = Inr (rev (map (\<lambda>(n, w, x). (n, x)) ?u))"
    by (simp_all only: unpack_pack)
  then show ?thesis
    by (intro that [of r u]) (simp_all add: cb_get_fields_def cb_up_fields_def cb_up_layout_def field_of_def)
qed

definition demo_grant :: cb_grant where
  "demo_grant = \<lparr>cg_due = 1, cg_op = DATAE, cg_tid = 0, cg_err = False, cg_data = cb_initial 5, cg_line = 5\<rparr>"

definition demo1 :: cbench where
  "demo1 = cb_init\<lparr>cb_cycle := 1, cb_sent := [(0, 5)], cb_pending := [demo_grant]\<rparr>"

definition demo2 :: cbench where
  "demo2 = cb_init\<lparr>cb_cycle := 2, cb_held := [5 \<mapsto> HX]\<rparr>"

lemma demo_resp: "cb_resp_fields (cc_widths demo_cfg) 0 = Inr \<lparr>rs_valid = False, rs_src = 0, rs_status = 0, rs_reason = 0,
    rs_mshr = 0, rs_ident = 0, rs_gen = 0, rs_sq = 0, rs_data = 0, rs_sc_fail = False, rs_need_d = False, rs_io = False,
    rs_head = False, rs_pa = 0, rs_exc = 0\<rparr>"
  by (simp add: cb_resp_fields_def cb_resp_layout_def unpack_def field_of_def py_assert_def Let_def)

lemma demo_dut_fields:
  "dv_cpu_ready demo_dut = 3" "dv_resp demo_dut p = 0" "dv_st_ready demo_dut" "dv_st_resp demo_dut = 0" "dv_ptw_ready demo_dut"
  "dv_ptw_resp demo_dut = 0" "dv_ad_ready demo_dut" "dv_ad_resp demo_dut = 0" "dv_wake demo_dut = 0" "\<not> dv_req_valid demo_dut"
  "dv_resp_ready demo_dut" "\<not> dv_up_valid demo_dut" "dv_snp_ready demo_dut" "dv_fatal demo_dut = 0" "\<not> dv_dma_inv demo_dut"
  "cc_n demo_cfg = 4" "\<not> cc_block_gets demo_cfg" "\<not> cc_block_putacks demo_cfg" "cc_latency demo_cfg = 1" "cc_errors demo_cfg = []"
  "cc_shared demo_cfg = []" "cc_request_ready demo_cfg"
  by (simp_all add: demo_dut_def demo_cfg_def)

lemma demo_log_all:
  "dv_resp v = dv_resp demo_dut \<Longrightarrow> dv_st_resp v = dv_st_resp demo_dut \<Longrightarrow> dv_ptw_resp v = dv_ptw_resp demo_dut \<Longrightarrow>
   dv_ad_resp v = dv_ad_resp demo_dut \<Longrightarrow> cb_log_all (cc_widths demo_cfg) v s = Inr s"
  by (simp add: cb_log_all_def cb_log_resp_def cb_log_st_def cb_log_ptw_def cb_log_ad_def demo_resp demo_dut_fields)

lemma demo_drive:
  "cb_cpu s = [None, None] \<Longrightarrow> cb_prev_cpu s = [None, None] \<Longrightarrow> cb_st s = None \<Longrightarrow> cb_ptw s = None \<Longrightarrow> cb_ad s = None \<Longrightarrow>
   cb_snp s = None \<Longrightarrow> cb_rsp s = None \<or> cb_rsp s = Some demo_grant \<Longrightarrow> \<exists>p. cb_drive demo_cfg s = Inr p"
  using cb_initial_less [of 5]
  by (auto simp: cb_drive_def cb_req_bits_def py_opt_def Let_def pack_def py_assert_def demo_grant_def push_bit_eq_mult)

lemmas demo_simps = cb_tick_def Let_def cb_sample_def cb_reserved_def cb_log_wake_def cb_get_def cb_up_msg_def
  cb_take_rsp_def cb_take_snp_def cb_take_requests_def cb_dma_check_def demo_dut_fields demo_log_all py_assert_def

lemma demo_step1:
  assumes "cb_get_fields r = Inr (GETS, 5, 0)"
  shows "cb_tick (demo_world r u) cb_init = Inr demo1"
proof -
  have "cb_present_rsp demo_cfg cb_init = cb_init" by (simp add: cb_present_rsp_def cb_init_def)
  moreover obtain p where "cb_drive demo_cfg cb_init = Inr p" using demo_drive [of cb_init] by (auto simp: cb_init_def)
  ultimately show ?thesis using assms
    by (simp add: demo_world_def demo_simps) (simp add: cb_init_def cb_backing_def demo1_def demo_grant_def)
qed

lemma demo_step2: "cb_tick (demo_world r u) demo1 = Inr demo2"
proof -
  let ?s = "demo1\<lparr>cb_pending := [], cb_rsp := Some demo_grant\<rparr>"
  have "cb_present_rsp demo_cfg demo1 = ?s"
    by (simp add: cb_present_rsp_def demo1_def cb_init_def cb_offered_def demo_dut_fields) (simp add: demo_grant_def)
  moreover obtain p where "cb_drive demo_cfg ?s = Inr p" using demo_drive [of ?s] by (auto simp: demo1_def cb_init_def)
  ultimately show ?thesis
    by (simp add: demo_world_def demo_simps demo1_def cb_init_def) (simp add: demo_grant_def demo2_def cb_init_def)
qed

definition demo3 :: cbench where
  "demo3 = demo2\<lparr>cb_gold := [5 \<mapsto> demo_data]\<rparr>"

lemma demo_step3: "cb_commit 320 7 1 demo2 = demo3"
  by (simp add: cb_commit_def Let_def demo3_def demo2_def cb_init_def cb_golden_line_def demo_data_def drop_bit_eq_div)

definition demo_msg :: cb_msg where
  "demo_msg = \<lparr>um_op = PUT, um_dirty = True, um_line = 5, um_tid = 0, um_data = demo_data\<rparr>"

definition demo4 :: cbench where
  "demo4 = demo3\<lparr>cb_cycle := 3, cb_held := Map.empty, cb_mem := [5 \<mapsto> demo_data], cb_up := [(2, demo_msg)],
     cb_pending := [\<lparr>cg_due = 9, cg_op = PUTACK, cg_tid = 0, cg_err = False, cg_data = 0, cg_line = 5\<rparr>]\<rparr>"

lemma demo_step4:
  assumes "cb_up_fields u = Inr demo_msg"
  shows "cb_tick (demo_world r u) demo3 = Inr demo4"
proof -
  have "cb_present_rsp demo_cfg demo3 = demo3" by (simp add: cb_present_rsp_def demo3_def demo2_def cb_init_def)
  moreover obtain p where "cb_drive demo_cfg demo3 = Inr p"
    using demo_drive [of demo3] by (auto simp: demo3_def demo2_def cb_init_def)
  moreover have "cb_cycle demo3 = 2" "cb_cpu demo3 = [None, None]" by (simp_all add: demo3_def demo2_def cb_init_def)
  ultimately show ?thesis using assms
    by (simp add: demo_world_def demo_simps)
      (simp add: demo3_def demo2_def cb_init_def demo4_def demo_msg_def cb_write_back_def cb_release_def cb_golden_line_def
        py_assert_def Let_def)
qed

definition demo_events :: "cb_event list" where
  "demo_events = [E_tick, E_tick, E_commit 320 7 1, E_tick]"

lemma demo_run:
  obtains w where "py_run (cb_step w) cb_init demo_events = Inr demo4" "cb_proto.run_ok w cb_init demo_events"
    "py_run (cb_step w) cb_init [E_tick] = Inr demo1"
proof -
  obtain r u where w: "cb_get_fields r = Inr (GETS, 5, 0)" "cb_up_fields u = Inr demo_msg"
    using demo_words unfolding demo_msg_def by metis
  note steps = demo_step1 [OF w(1)] demo_step2 demo_step3 demo_step4 [OF w(2)]
  have up0: "cb_up_fields 0 = Inr \<lparr>um_op = 0, um_dirty = False, um_line = 0, um_tid = 0, um_data = 0\<rparr>"
    by (simp add: cb_up_fields_def cb_up_layout_def unpack_def field_of_def py_assert_def Let_def)
  have "cb_env (demo_world r u) cb_init E_tick" "cb_env (demo_world r u) demo1 E_tick"
    "cb_env (demo_world r u) demo2 (E_commit 320 7 1)" "cb_env (demo_world r u) demo3 E_tick"
    using w by (auto simp: cb_get_env_def cb_up_env_def demo_world_def cb_init_def demo1_def demo2_def demo3_def demo_dut_fields
        demo_msg_def drop_bit_eq_div split: sum.splits)
  then show ?thesis by (intro that [of "demo_world r u"]) (simp_all add: demo_events_def steps demo_step3 [unfolded One_nat_def])
qed

theorem cb_grants_exact_witness:
  "\<exists>w s. py_run (cb_step w) cb_init [E_tick] = Inr s \<and> cb_sent s = [(0, 5)] \<and>
     mset (map (\<lambda>g. (cg_tid g, cg_line g)) (cb_grants s)) = {#(0, 5)#}"
proof -
  obtain w where w: "py_run (cb_step w) cb_init [E_tick] = Inr demo1" using demo_run by metis
  have "cb_sent demo1 = [(0, 5)]" by (simp add: demo1_def)
  moreover have "mset (map (\<lambda>g. (cg_tid g, cg_line g)) (cb_grants demo1)) = mset (cb_sent demo1)"
    using cb_grants_exact [OF w] by blast
  ultimately show ?thesis using w by auto
qed

theorem cb_coherence_witness:
  "\<exists>w s. py_run (cb_step w) cb_init demo_events = Inr s \<and> cb_held s 5 = None \<and> cb_backing s 5 = demo_data \<and>
     cb_backing s 5 = cb_golden_line s 5"
proof -
  obtain w where w: "py_run (cb_step w) cb_init demo_events = Inr demo4" "cb_proto.run_ok w cb_init demo_events"
    using demo_run by metis
  have "cb_held demo4 5 = None" "cb_backing demo4 5 = demo_data" by (simp_all add: demo4_def cb_backing_def)
  moreover have "cb_held demo4 5 \<noteq> Some HX \<longrightarrow> cb_backing demo4 5 = cb_golden_line demo4 5"
    using cb_coherence [OF w] by blast
  ultimately show ?thesis using w(1) by (intro exI [of _ w] exI [of _ demo4]) simp
qed

end
