(* ===== verification/System_Coherence.thy ===== *)
theory System_Coherence
  imports System_Bench Cache_Coherence
begin

text \<open>
  What the system bench of \<open>System_Bench\<close> guarantees: the drivers of \<open>Cache_Bench\<close> take only steps of this bench too
  (the locale \<open>cb_driver\<close> interpreted on \<open>sys_tick\<close>), its AXI memory delivers the four beats of a burst in
  order, an instruction read returns a value its line had while it was in flight, and \<open>loads\<close> ends, with
  one golden answer per request.
\<close>

section \<open>What each part of a tick leaves alone\<close>

definition sys_keep :: "sys_bench \<Rightarrow> sys_bench \<Rightarrow> bool" where
  "sys_keep s s' \<longleftrightarrow> sb_loads_done s' = sb_loads_done s \<and> cb_cycle s' = cb_cycle s \<and> sb_history s' = sb_history s \<and>
     cb_gold s' = cb_gold s"

definition sys_same_axi :: "sys_bench \<Rightarrow> sys_bench \<Rightarrow> bool" where
  "sys_same_axi s s' \<longleftrightarrow> sys_keep s s' \<and> sb_readq s' = sb_readq s \<and> sb_rhold s' = sb_rhold s"

lemma sys_keep_refl [simp]: "sys_keep s s"
  by (simp add: sys_keep_def)

lemma sys_keep_trans: "sys_keep s s1 \<Longrightarrow> sys_keep s1 s2 \<Longrightarrow> sys_keep s s2"
  by (simp add: sys_keep_def)

lemma sys_same_axi_refl [simp]: "sys_same_axi s s"
  by (simp add: sys_same_axi_def)

lemma sys_same_axi_trans: "sys_same_axi s s1 \<Longrightarrow> sys_same_axi s1 s2 \<Longrightarrow> sys_same_axi s s2"
  by (simp add: sys_same_axi_def sys_keep_def)

lemma sys_same_axi_keep: "sys_same_axi s s' \<Longrightarrow> sys_keep s s'"
  by (simp add: sys_same_axi_def)

lemmas sys_same_simps = sys_same_axi_def sys_keep_def

lemma sys_same_log:
  fixes s :: sys_bench
  shows "cb_log_resp wd v p s = Inr s' \<Longrightarrow> sys_same_axi s s'" "cb_log_st wd v s = Inr s' \<Longrightarrow> sys_same_axi s s'"
    "cb_log_ptw wd v s = Inr s' \<Longrightarrow> sys_same_axi s s'" "sys_same_axi s (cb_log_ad v s)" "cb_log_wake v s = Inr s' \<Longrightarrow> sys_same_axi s s'"
  by (auto simp: cb_log_resp_def cb_log_st_def cb_log_ptw_def cb_log_ad_def cb_log_wake_def py_bind_Inr_iff sys_same_simps
      split: if_splits)

lemma sys_same_log_all:
  fixes s :: sys_bench
  assumes "cb_log_all wd v s = Inr s'"
  shows "sys_same_axi s s'"
proof -
  from assms obtain s1 s2 s3 s4 where "cb_log_resp wd v 0 s = Inr s1" "cb_log_resp wd v 1 s1 = Inr s2"
    "cb_log_st wd v s2 = Inr s3" "cb_log_ptw wd v s3 = Inr s4" "s' = cb_log_ad v s4"
    unfolding cb_log_all_def py_bind_Inr_iff by blast
  then show ?thesis by (metis sys_same_axi_trans sys_same_log(1-4))
qed

lemma sys_same_issue_i: "sys_issue_i s = Inr s' \<Longrightarrow> sys_same_axi s s'"
  by (auto simp: sys_issue_i_def sys_same_simps split: list.splits if_splits option.splits)

lemma sys_same_drive_b: "sys_same_axi s (sys_drive_b s)"
  by (auto simp: sys_drive_b_def sys_same_simps split: list.splits)

lemma sys_same_resp: "sys_resp x s = Inr s' \<Longrightarrow> sys_same_axi s s'"
  by (auto simp: sys_resp_def sys_same_simps py_bind_Inr_iff Let_def split: if_splits prod.splits option.splits)

lemma sys_same_i_resp: "sys_i_resp x s = Inr s' \<Longrightarrow> sys_same_axi s s'"
  by (auto simp: sys_i_resp_def sys_same_simps py_bind_Inr_iff Let_def split: if_splits prod.splits option.splits)

lemma sys_same_release: "sys_release q s = Inr s' \<Longrightarrow> sys_same_axi s s'"
  by (auto simp: sys_release_def sys_same_simps py_bind_Inr_iff Let_def split: if_splits prod.splits option.splits)

lemma sys_same_up: "sys_up v s = Inr s' \<Longrightarrow> sys_same_axi s s'"
  by (auto simp: sys_up_def py_bind_Inr_iff split: if_splits dest!: sys_same_release) (simp_all add: sys_same_simps)

lemma sys_same_snoop: "sys_snoop v x s = Inr s' \<Longrightarrow> sys_same_axi s s'"
  by (auto simp: sys_snoop_def sys_same_simps py_bind_Inr_iff Let_def split: if_splits)

lemma sys_same_get: "sys_get n v x s = Inr s' \<Longrightarrow> sys_same_axi s s'"
  by (auto simp: sys_get_def sys_same_simps py_bind_Inr_iff split: if_splits prod.splits)

lemma sys_same_i_accept: "sys_same_axi s (sys_i_accept x s)"
  by (auto simp: sys_i_accept_def sys_same_simps split: option.splits)

lemma sys_same_aw: "sys_aw r x s = Inr s' \<Longrightarrow> sys_same_axi s s'"
  by (auto simp: sys_aw_def sys_same_simps py_bind_Inr_iff split: if_splits prod.splits)

lemma sys_same_w: "sys_w r x s = Inr s' \<Longrightarrow> sys_same_axi s s'"
  by (auto simp: sys_w_def sys_same_simps py_bind_Inr_iff split: if_splits prod.splits)

lemma sys_same_commit: "sys_commit r s = Inr s' \<Longrightarrow> sys_same_axi s s'"
  by (auto simp: sys_commit_def sys_same_simps py_bind_Inr_iff Let_def split: list.splits if_splits)

lemma sys_same_tail:
  fixes s :: sys_bench
  shows "sys_same_axi s (sys_b x s)" "sys_same_axi s (cb_take_requests v s)"
  by (simp_all add: sys_b_def cb_take_requests_def sys_same_simps)

lemma sys_keep_ar: "sys_ar r x s = Inr s' \<Longrightarrow> sys_keep s s'"
  by (auto simp: sys_ar_def sys_keep_def py_bind_Inr_iff Let_def split: if_splits prod.splits)

lemma sys_keep_r: "sys_r x s = Inr s' \<Longrightarrow> sys_keep s s'"
  by (auto simp: sys_r_def sys_keep_def split: if_splits prod.splits option.splits)

lemma sys_keep_drive_r: "sys_keep s (sys_drive_r r s)"
  by (auto simp: sys_drive_r_def sys_keep_def Let_def split: prod.splits option.splits)

text \<open>A tick is a change outside the AXI read channel, the choice of a beat, another such change, an accepted address, a
  taken beat, and another such change.\<close>

lemma sys_tick_InrE:
  assumes "sys_tick w s = Inr s'"
  obtains s1 s2 s3 s4 s5 where "sys_same_axi s s1" "sys_same_axi (sys_drive_r (sw_rng w (cb_cycle s)) s1) s2"
    "sys_ar (sw_rng w (cb_cycle s)) (sw_dut w (cb_cycle s)) s2 = Inr s3" "sys_r (sw_dut w (cb_cycle s)) s3 = Inr s4"
    "sys_same_axi s4 s5" "s' = s5\<lparr>cb_cycle := Suc (cb_cycle s)\<rparr>"
proof -
  let ?cfg = "cw_cfg w (cb_cycle s)" and ?r = "sw_rng w (cb_cycle s)" and ?v = "cw_mid w (cb_cycle s)" and ?x = "sw_dut w (cb_cycle s)"
  from assms obtain a s5 where a: "sys_drive (cc_widths ?cfg) ?r s = Inr a" and b: "sys_sample ?cfg ?r ?v ?x a = Inr s5"
    and s': "s' = s5\<lparr>cb_cycle := Suc (cb_cycle s)\<rparr>"
    unfolding sys_tick_def Let_def py_bind_Inr_iff by blast
  from a obtain s1 where s1: "sys_issue_i s = Inr s1" "a = sys_drive_b (sys_drive_r ?r s1)"
    unfolding sys_drive_def py_bind_Inr_iff by blast
  from b obtain b1 b2 st b3 b4 b5 b6 b7 b8 b9 b10 b11 b12 where
    b: "cb_log_all (cc_widths ?cfg) ?v a = Inr b1" "cb_log_wake ?v b1 = Inr b2" "sys_resp ?x (b2\<lparr>sb_stalled := st\<rparr>) = Inr b3"
      "sys_i_resp ?x b3 = Inr b4" "sys_up ?v b4 = Inr b5" "sys_snoop ?v ?x b5 = Inr b6" "sys_get (cc_n ?cfg) ?v ?x b6 = Inr b7"
      "sys_ar ?r ?x (sys_i_accept ?x b7) = Inr b8" "sys_r ?x b8 = Inr b9" "sys_aw ?r ?x b9 = Inr b10" "sys_w ?r ?x b10 = Inr b11"
      "sys_commit ?r b11 = Inr b12" "s5 = cb_take_requests ?v (sys_b ?x b12)"
    unfolding sys_sample_def py_bind_Inr_iff by (elim exE conjE) (simp; blast)
  have "sys_same_axi (sys_drive_r ?r s1) a" unfolding s1(2) by (rule sys_same_drive_b)
  also note [trans] = sys_same_axi_trans
  note sys_same_log_all [OF b(1)]
  also note sys_same_log(5) [OF b(2)]
  also have "sys_same_axi b2 (b2\<lparr>sb_stalled := st\<rparr>)" by (simp add: sys_same_simps)
  also note sys_same_resp [OF b(3)]
  also note sys_same_i_resp [OF b(4)]
  also note sys_same_up [OF b(5)]
  also note sys_same_snoop [OF b(6)]
  also note sys_same_get [OF b(7)]
  also note sys_same_i_accept [of b7 ?x]
  finally have pre: "sys_same_axi (sys_drive_r ?r s1) (sys_i_accept ?x b7)" .
  note sys_same_aw [OF b(10)]
  also note sys_same_w [OF b(11)]
  also note sys_same_commit [OF b(12)]
  also note sys_same_tail(1) [of b12 ?x]
  also note sys_same_tail(2) [of "sys_b ?x b12" ?v]
  finally have post: "sys_same_axi b9 s5" by (simp only: b(13))
  show ?thesis by (rule that [OF sys_same_issue_i [OF s1(1)] pre b(8) b(9) post s'])
qed

lemma sys_tick_keep:
  assumes "sys_tick w s = Inr s'"
  shows "sb_loads_done s' = sb_loads_done s \<and> sb_history s' = sb_history s \<and> cb_gold s' = cb_gold s \<and>
    cb_cycle s' = Suc (cb_cycle s)"
  using assms
proof (rule sys_tick_InrE)
  fix s1 s2 s3 s4 s5
  assume st: "sys_same_axi s s1" "sys_same_axi (sys_drive_r (sw_rng w (cb_cycle s)) s1) s2"
    "sys_ar (sw_rng w (cb_cycle s)) (sw_dut w (cb_cycle s)) s2 = Inr s3" "sys_r (sw_dut w (cb_cycle s)) s3 = Inr s4"
    "sys_same_axi s4 s5" and s': "s' = s5\<lparr>cb_cycle := Suc (cb_cycle s)\<rparr>"
  note sys_same_axi_keep [OF st(1)]
  also note [trans] = sys_keep_trans
  note sys_keep_drive_r
  also note sys_same_axi_keep [OF st(2)]
  also note sys_keep_ar [OF st(3)]
  also note sys_keep_r [OF st(4)]
  also note sys_same_axi_keep [OF st(5)]
  finally show ?thesis by (simp add: s' sys_keep_def)
qed

section \<open>The AXI memory\<close>

text \<open>A presented beat is the next beat of a burst in flight, marked last when it is the fourth.\<close>

definition sys_axi_ok :: "sys_bench \<Rightarrow> bool" where
  "sys_axi_ok s \<longleftrightarrow>
     (\<forall>rid line d beat due. map_of (sb_readq s) rid = Some (line, d, beat, due) \<longrightarrow> beat < 4) \<and>
     (\<forall>rid x lst. sb_rhold s = Some (rid, x, lst) \<longrightarrow>
        (\<exists>line d beat due. map_of (sb_readq s) rid = Some (line, d, beat, due) \<and> x = lane 128 beat d \<and> lst = of_bool (beat = 3)))"

lemma sys_axi_cong: "sys_same_axi s s' \<Longrightarrow> sys_axi_ok s' = sys_axi_ok s"
  by (simp add: sys_axi_ok_def sys_same_axi_def)

lemma sys_axi_drive_r: "sys_axi_ok s \<Longrightarrow> sys_axi_ok (sys_drive_r r s)"
  by (auto simp: sys_drive_r_def sys_axi_ok_def Let_def split: option.splits)

lemma sys_axi_ar:
  assumes "sys_axi_ok s" "sys_ar r x s = Inr s'"
  shows "sys_axi_ok s'"
proof (cases "sv_arvalid x \<and> rg_ar r")
  case True
  obtain rid addr len sz burst where x: "sv_ar x = (rid, addr, len, sz, burst)" by (cases "sv_ar x")
  with True assms(2) have new: "rid \<notin> fst ` set (sb_readq s)" and
    s': "s' = s\<lparr>sb_readq := AList.update rid (drop_bit 6 addr, cb_backing s (drop_bit 6 addr), 0, cb_cycle s + (1 + rg_rdelay r mod 12)) (sb_readq s),
              sb_axi_reads := sb_axi_reads s + 1\<rparr>"
    by (auto simp: sys_ar_def py_bind_Inr_iff Let_def)
  have "map_of (sb_readq s) rid = None" using new by (simp add: map_of_eq_None_iff)
  with assms(1) have "\<forall>rid' y lst. sb_rhold s = Some (rid', y, lst) \<longrightarrow> rid' \<noteq> rid" by (fastforce simp: sys_axi_ok_def)
  with assms(1) show ?thesis by (auto simp: s' sys_axi_ok_def)
next
  case False
  with assms show ?thesis by (auto simp: sys_ar_def)
qed

lemma sys_axi_r:
  assumes "sys_axi_ok s"
  shows "\<exists>s'. sys_r x s = Inr s' \<and> sys_axi_ok s'"
proof (cases "sb_rhold s")
  case None
  with assms show ?thesis by (simp add: sys_r_def)
next
  case (Some h)
  obtain rid y lst where h: "h = (rid, y, lst)" by (cases h)
  with assms Some obtain line d beat due where q: "map_of (sb_readq s) rid = Some (line, d, beat, due)" "lst = of_bool (beat = 3)" "beat < 4"
    unfolding sys_axi_ok_def by blast
  then have r: "sys_r x s = Inr (if sv_rready x then s\<lparr>sb_readq := (if beat = 3 then AList.delete rid (sb_readq s)
      else AList.update rid (line, d, beat + 1, due) (sb_readq s)), sb_rhold := None\<rparr> else s)"
    by (simp add: sys_r_def Some h)
  show ?thesis using assms q unfolding r
    by (auto simp: sys_axi_ok_def split: if_splits)
qed

lemma sys_axi_tick:
  assumes "sys_axi_ok s" "sys_tick w s = Inr s'"
  shows "sys_axi_ok s'"
  using assms(2)
proof (rule sys_tick_InrE)
  fix s1 s2 s3 s4 s5
  assume st: "sys_same_axi s s1" "sys_same_axi (sys_drive_r (sw_rng w (cb_cycle s)) s1) s2"
    "sys_ar (sw_rng w (cb_cycle s)) (sw_dut w (cb_cycle s)) s2 = Inr s3" "sys_r (sw_dut w (cb_cycle s)) s3 = Inr s4"
    "sys_same_axi s4 s5" and s': "s' = s5\<lparr>cb_cycle := Suc (cb_cycle s)\<rparr>"
  have "sys_axi_ok s1" using assms(1) sys_axi_cong [OF st(1)] by simp
  then have "sys_axi_ok s2" using sys_axi_drive_r sys_axi_cong [OF st(2)] by simp
  then have "sys_axi_ok s3" using st(3) by (rule sys_axi_ar)
  then have "sys_axi_ok s4" using sys_axi_r [of s3 "sw_dut w (cb_cycle s)"] st(4) by auto
  then have "sys_axi_ok s5" using sys_axi_cong [OF st(5)] by simp
  then show ?thesis by (simp add: s' sys_axi_ok_def)
qed

section \<open>Events\<close>

text \<open>What the drivers and tests do: the events of \<open>Cache_Bench\<close>, a script line, and the completion of a store.\<close>

datatype sys_event =
    Y_tick
  | Y_cpu "cpu_req option list"
  | Y_st "cpu_req option"
  | Y_script nat
  | Y_stored nat nat nat

fun sys_step :: "'a sys_world_scheme \<Rightarrow> sys_bench \<Rightarrow> sys_event \<Rightarrow> sys_bench py" where
  "sys_step w s Y_tick = sys_tick w s"
| "sys_step w s (Y_cpu cpu) = Inr (s\<lparr>cb_cpu := cpu\<rparr>)"
| "sys_step w s (Y_st q) = Inr (s\<lparr>cb_st := q\<rparr>)"
| "sys_step w s (Y_script line) = Inr (s\<lparr>sb_i_script := sb_i_script s @ [line]\<rparr>)"
| "sys_step w s (Y_stored addr d msk) = (let s = cb_commit addr d msk s; line = drop_bit 6 addr in
     Inr (s\<lparr>sb_stores_done := sb_stores_done s + 1,
       sb_history := (sb_history s)(line := sb_history s line @ [(cb_cycle s - 1, cb_golden_line s line)])\<rparr>))"

text \<open>The history of a line is in order, not from the future, and ends with the golden value.\<close>

definition sys_history_ok :: "sys_bench \<Rightarrow> bool" where
  "sys_history_ok s \<longleftrightarrow> (\<forall>l. sorted (map fst (sb_history s l)) \<and> (\<forall>(c, d) \<in> set (sb_history s l). c \<le> cb_cycle s - 1) \<and>
     cb_golden_line s l = (if sb_history s l = [] then cb_initial l else snd (last (sb_history s l))))"

definition sys_ok :: "sys_bench \<Rightarrow> bool" where
  "sys_ok s \<longleftrightarrow> sys_axi_ok s \<and> sys_history_ok s"

lemma sys_history_cong:
  "sb_history s' = sb_history s \<Longrightarrow> cb_gold s' = cb_gold s \<Longrightarrow> cb_cycle s \<le> cb_cycle s' \<Longrightarrow> sys_history_ok s \<Longrightarrow> sys_history_ok s'"
  unfolding sys_history_ok_def cb_golden_line_def by (fastforce intro: diff_le_mono le_trans)

lemma sys_history_stored:
  assumes "sys_history_ok s" "sys_step w s (Y_stored addr d msk) = Inr s'"
  shows "sys_history_ok s'"
proof -
  let ?l = "drop_bit 6 addr"
  have s': "cb_cycle s' = cb_cycle s" "cb_golden_line s' l = cb_golden_line (cb_commit addr d msk s) l"
    "sb_history s' = (sb_history s)(?l := sb_history s ?l @ [(cb_cycle s - 1, cb_golden_line (cb_commit addr d msk s) ?l)])" for l
    using assms(2) by (auto simp: Let_def cb_commit_def cb_golden_line_def)
  have "cb_golden_line (cb_commit addr d msk s) l = cb_golden_line s l" if "l \<noteq> ?l" for l
    using that by (simp add: cb_golden_line_def cb_commit_def Let_def)
  with assms(1) show ?thesis
    by (auto simp: sys_history_ok_def s' sorted_append case_prod_beta)
qed

lemma sys_ok_frame:
  "sys_ok (s\<lparr>cb_cpu := cpu\<rparr>) = sys_ok s" "sys_ok (s\<lparr>cb_st := q\<rparr>) = sys_ok s" "sys_ok (s\<lparr>sb_i_script := ls\<rparr>) = sys_ok s"
  by (simp_all add: sys_ok_def sys_axi_ok_def sys_history_ok_def cb_golden_line_def)

lemma sys_ok_step:
  assumes "sys_ok s" "sys_step w s ev = Inr s'"
  shows "sys_ok s'"
proof (cases ev)
  case Y_tick
  with assms have t: "sys_tick w s = Inr s'" by simp
  with assms(1) show ?thesis
    using sys_axi_tick [OF _ t] sys_history_cong [of s' s] sys_tick_keep [OF t] by (simp add: sys_ok_def)
next
  case (Y_stored addr d msk)
  with assms sys_history_stored [of s w addr d msk s'] have "sys_history_ok s'" by (simp add: sys_ok_def)
  moreover have "sb_readq s' = sb_readq s" "sb_rhold s' = sb_rhold s"
    using assms Y_stored by (auto simp: Let_def cb_commit_def)
  then have "sys_axi_ok s'" using assms(1) by (simp add: sys_ok_def sys_axi_ok_def)
  ultimately show ?thesis by (simp add: sys_ok_def)
qed (use assms in \<open>auto simp: sys_ok_frame\<close>)

lemma sys_ok_init: "sys_ok sys_init"
  by (simp add: sys_ok_def sys_axi_ok_def sys_history_ok_def sys_init_def cb_init_def cbench.defs cb_golden_line_def)

interpretation sys_any: monitored sys_init "sys_step w" "\<lambda>_ _. True" sys_ok for w :: sys_world
  by unfold_locales (auto intro: sys_ok_init sys_ok_step)

lemma sys_any_run_ok: "sys_any.run_ok w s evs"
  by (induction evs arbitrary: s) (auto split: sum.splits)

text \<open>Whatever the tests do and whatever the hardware drives, as long as no check fails: a beat the memory presents is
  the next one of a burst in flight and marked last exactly when it is the fourth, and taking it never
  fails.\<close>

theorem sys_axi_beats:
  fixes w :: sys_world
  assumes "py_run (sys_step w) sys_init evs = Inr s" "sb_rhold s = Some (rid, x, lst)"
  shows "\<exists>line d beat due. map_of (sb_readq s) rid = Some (line, d, beat, due) \<and> beat < 4 \<and> x = lane 128 beat d \<and>
    (lst \<noteq> 0 \<longleftrightarrow> beat = 3) \<and> (\<exists>s'. sys_r y s = Inr s')"
proof -
  have ok: "sys_axi_ok s" using sys_any.run_inv [OF sys_ok_init sys_any_run_ok assms(1)] by (simp add: sys_ok_def)
  with assms(2) obtain line d beat due where "map_of (sb_readq s) rid = Some (line, d, beat, due)" "x = lane 128 beat d"
    "lst = of_bool (beat = 3)" "beat < 4" unfolding sys_axi_ok_def by blast
  with sys_axi_r [OF ok, of y] show ?thesis by auto
qed

text \<open>An instruction response that is accepted carries a value that its line had at some moment between presentation and
  response, and no one may write the line at that moment.\<close>

theorem sys_i_window:
  fixes w :: sys_world
  assumes "py_run (sys_step w) sys_init evs = Inr s" "sys_i_resp x s = Inr s'" "sv_i_resp_valid x"
    "link_response (sv_i_resp x) = (op, tid, err, d)" "map_of (sb_iout s) tid = Some (line, start)"
  shows "cb_held s line \<noteq> Some HX \<and> (\<exists>k \<le> length (sb_history s line).
    (\<forall>i < length (sb_history s line). fst (sb_history s line ! i) \<le> start \<longrightarrow> i < k) \<and>
    d = value_after (cb_initial line) (sb_history s line) k)"
proof -
  have "sys_history_ok s" using sys_any.run_inv [OF sys_ok_init sys_any_run_ok assms(1)] by (simp add: sys_ok_def)
  then have "sorted (map fst (sb_history s line))" by (simp add: sys_history_ok_def)
  moreover have "cb_held s line \<noteq> Some HX" "d \<in> set (bench_legal_reads (cb_initial line) (sb_history s line) start (cb_cycle s))"
    using assms(2-5) by (auto simp: sys_i_resp_def py_bind_Inr_iff)
  ultimately show ?thesis using legal_reads_sound by blast
qed

section \<open>Loads\<close>

text \<open>The drivers of the L1D bench on this bench: an invariant of \<open>sys_tick\<close> is one of theirs. Two are needed, the number of
  completed loads and a lower bound on the cycle.\<close>

interpretation sys_loads_const: cb_driver "sys_tick w" "\<lambda>s. sb_loads_done s = n" for w :: sys_world and n
  by unfold_locales (auto dest: sys_tick_keep simp: cb_commit_def Let_def)

interpretation sys_time: cb_driver "sys_tick w" "\<lambda>s. n \<le> cb_cycle s" for w :: sys_world and n
  by unfold_locales (auto dest: sys_tick_keep simp: cb_commit_def Let_def)

text \<open>An issue takes at least one cycle.\<close>

lemma sys_issue_later:
  fixes w :: sys_world
  assumes "cb_issue w' (sys_tick w) reqs s = Inr (rs, s')"
  shows "cb_cycle s < cb_cycle s'"
proof -
  from assms obtain cond s1 s2 cpu where u: "cb_until (sys_tick w) cond 1000 s = Inr s1"
    and r: "cb_ticks (sys_tick w) (cc_reservation (cw_cfg w' (cb_cycle s1))) s1 = Inr s2"
    and t3: "cb_ticks (sys_tick w) 3 (s2\<lparr>cb_cpu := cpu\<rparr>) = Inr s'"
    unfolding cb_issue_def Let_def py_bind_Inr_iff by (elim exE conjE) (simp; blast)
  from t3 obtain s3 where t: "sys_tick w (s2\<lparr>cb_cpu := cpu\<rparr>) = Inr s3" and t2: "cb_ticks (sys_tick w) 2 s3 = Inr s'"
    by (auto simp: numeral_3_eq_3 numeral_2_eq_2 py_bind_Inr_iff)
  have "cb_cycle s \<le> cb_cycle s2" by (rule sys_time.ticks_inv [OF sys_time.until_inv [OF order_refl u] r])
  also have "cb_cycle s2 < cb_cycle s3" using sys_tick_keep [OF t] by simp
  also have "cb_cycle s3 \<le> cb_cycle s'" by (rule sys_time.ticks_inv [OF order_refl t2])
  finally show ?thesis .
qed

text \<open>Processing answers completes a load or keeps it waiting.\<close>

lemma length_delete_key: "distinct (map fst xs) \<Longrightarrow> k \<in> fst ` set xs \<Longrightarrow> Suc (length (AList.delete k xs)) = length xs"
proof (induction xs)
  case (Cons p xs)
  show ?case
  proof (cases "fst p = k")
    case True
    with Cons.prems have "k \<notin> fst ` set xs" by auto
    then have "AList.delete k xs = xs" by (induction xs) auto
    with True show ?thesis by (cases p) simp
  next
    case False
    with Cons show ?thesis by (cases p) auto
  qed
qed simp

definition waiters_ok :: "sys_waiter list \<Rightarrow> bool" where
  "waiters_ok ws \<longleftrightarrow> distinct (map fst ws) \<and> (\<forall>(k, r, _) \<in> set ws. cq_ident r = k)"

lemma fst_alist_update: "fst ` set (AList.update k x xs) = insert k (fst ` set xs)"
  by (induction xs) auto

lemma set_delete_subset: "set (AList.delete k xs) \<subseteq> set xs"
  by (auto simp: AList.delete_eq)

lemma waiters_ok_update: "waiters_ok ws \<Longrightarrow> waiters_ok (AList.update (cq_ident r) (r, a, c) ws)"
proof -
  assume "waiters_ok ws"
  moreover have "set (AList.update (cq_ident r) (r, a, c) ws) \<subseteq> insert (cq_ident r, r, a, c) (set ws)"
    by (induction ws) auto
  ultimately show ?thesis by (auto simp: waiters_ok_def AList.distinct_update)
qed

lemma waiters_ok_delete: "waiters_ok ws \<Longrightarrow> waiters_ok (AList.delete k ws)"
  by (auto simp: waiters_ok_def AList.distinct_delete dest: set_mp [OF set_delete_subset])

lemma sys_load_answers_cycle: "sys_load_answers ras ws s = Inr (ws', s') \<Longrightarrow> cb_cycle s' = cb_cycle s"
  by (induction ras ws s rule: sys_load_answers.induct)
    (auto simp: py_bind_Inr_iff split: if_splits option.splits)

lemma sys_load_answers_count:
  "sys_load_answers ras ws s = Inr (ws', s') \<Longrightarrow> waiters_ok ws \<Longrightarrow> distinct (map (\<lambda>x. cq_ident (fst x)) ras) \<Longrightarrow>
   (\<lambda>x. cq_ident (fst x)) ` set ras \<subseteq> fst ` set ws \<Longrightarrow>
   waiters_ok ws' \<and> sb_loads_done s' + length ws' = sb_loads_done s + length ws \<and> cb_cycle s' = cb_cycle s"
proof (induction ras ws s rule: sys_load_answers.induct)
  case (1 ws s)
  then show ?case by simp
next
  case (2 r a rest ws s)
  have k: "cq_ident r \<in> fst ` set ws" using "2.prems"(4) by auto
  have rest: "distinct (map (\<lambda>x. cq_ident (fst x)) rest)" "cq_ident r \<notin> (\<lambda>x. cq_ident (fst x)) ` set rest" "(\<lambda>x. cq_ident (fst x)) ` set rest \<subseteq> fst ` set ws"
    using "2.prems"(3,4) by auto
  show ?case
  proof (cases "rs_status a = S_OK")
    case True
    with "2.prems"(1) have p: "rs_data a = cb_golden s (cq_addr r) 8"
      and c: "sys_load_answers rest (AList.delete (cq_ident r) ws) (s\<lparr>sb_loads_done := sb_loads_done s + 1\<rparr>) = Inr (ws', s')"
      by (auto simp: py_bind_Inr_iff)
    have "(\<lambda>x. cq_ident (fst x)) ` set rest \<subseteq> fst ` set (AList.delete (cq_ident r) ws)"
      using rest(2,3) unfolding fst_alist_delete by blast
    with "2.IH"(1) [OF True c waiters_ok_delete [OF "2.prems"(2)] rest(1)] p
    show ?thesis using length_delete_key [OF _ k] "2.prems"(2) by (simp add: waiters_ok_def py_assert_def)
  next
    case False
    with "2.prems"(1) obtain c p x where st: "rs_status a = S_MISS \<or> rs_status a = S_REPLAY"
      and f: "find (\<lambda>(_, _, x). rs_ident x = cq_ident r) (rev (cb_responses s)) = Some (c, p, x)"
      and c: "sys_load_answers rest (AList.update (cq_ident r) (r, Some a, c) ws)
        (s\<lparr>sb_reasons := (sb_reasons s)(rs_reason a := sb_reasons s (rs_reason a) + 1)\<rparr>) = Inr (ws', s')"
      by (auto simp: py_bind_Inr_iff split: option.splits)
    have "(\<lambda>x. cq_ident (fst x)) ` set rest \<subseteq> fst ` set (AList.update (cq_ident r) (r, Some a, c) ws)"
      using rest(3) by (auto simp: fst_alist_update)
    with "2.IH"(2) [OF False f refl refl c waiters_ok_update [OF "2.prems"(2)] rest(1)] st
    show ?thesis using k by (simp add: length_alist_update py_assert_def)
  qed
qed

lemma py_mapM_length: "py_mapM f xs = Inr ys \<Longrightarrow> length ys = length xs"
  by (induction xs arbitrary: ys) (auto simp: py_bind_Inr_iff)

lemma cb_issue_length: "cb_issue w tick reqs s = Inr (rs, s') \<Longrightarrow> length rs = length reqs"
  unfolding cb_issue_def Let_def py_bind_Inr_iff by (auto dest: py_mapM_length)

lemma sys_ready_keys:
  assumes "waiters_ok ws" "length answers = length (sys_ready_requests ws s)"
  shows "distinct (map (\<lambda>x. cq_ident (fst x)) (zip (sys_ready_requests ws s) answers))"
    "(\<lambda>x. cq_ident (fst x)) ` set (zip (sys_ready_requests ws s) answers) \<subseteq> fst ` set ws"
proof -
  let ?P = "\<lambda>(_, _, a, since). sys_ready (cb_wakes s) a since" and ?z = "zip (sys_ready_requests ws s) answers"
  have "map (\<lambda>x. cq_ident (fst x)) ?z = map cq_ident (map fst ?z)" by simp
  also have "map fst ?z = sys_ready_requests ws s" using assms(2) by simp
  also have "map cq_ident (sys_ready_requests ws s) = map fst (filter ?P ws)"
    using assms(1) by (auto simp: sys_ready_requests_def waiters_ok_def)
  finally have m: "map (\<lambda>x. cq_ident (fst x)) ?z = map fst (filter ?P ws)" .
  show "distinct (map (\<lambda>x. cq_ident (fst x)) ?z)"
    unfolding m using assms(1) by (simp add: waiters_ok_def distinct_map_filter)
  have "(\<lambda>x. cq_ident (fst x)) ` set ?z = set (map fst (filter ?P ws))"
    unfolding m [symmetric] by simp
  then show "(\<lambda>x. cq_ident (fst x)) ` set ?z \<subseteq> fst ` set ws" by auto
qed

text \<open>One round takes time and keeps account of the loads.\<close>

lemma sys_round_count:
  fixes w :: sys_world
  assumes "sys_round w ws s = Inr (ws', s')" "waiters_ok ws"
  shows "waiters_ok ws' \<and> sb_loads_done s' + length ws' = sb_loads_done s + length ws"
proof (cases "sys_ready_requests ws s = []")
  case True
  with assms show ?thesis by (auto simp: sys_round_def py_bind_Inr_iff dest: sys_tick_keep)
next
  case False
  with assms(1) obtain answers s1 where i: "cb_issue (cb_world.truncate w) (sys_tick w) (sys_ready_requests ws s) s = Inr (answers, s1)"
    and a: "sys_load_answers (zip (sys_ready_requests ws s) answers) ws s1 = Inr (ws', s')"
    by (auto simp: sys_round_def Let_def py_bind_Inr_iff)
  have "sb_loads_done s1 = sb_loads_done s" by (rule sys_loads_const.issue_inv [OF refl i])
  with sys_load_answers_count [OF a assms(2) sys_ready_keys [OF assms(2) cb_issue_length [OF i]]] show ?thesis by simp
qed

lemma sys_round_later:
  fixes w :: sys_world
  assumes "sys_round w ws s = Inr (ws', s')"
  shows "cb_cycle s < cb_cycle s'"
proof (cases "sys_ready_requests ws s = []")
  case True
  with assms show ?thesis by (auto simp: sys_round_def py_bind_Inr_iff dest: sys_tick_keep)
next
  case False
  with assms(1) obtain answers s1 where i: "cb_issue (cb_world.truncate w) (sys_tick w) (sys_ready_requests ws s) s = Inr (answers, s1)"
    and a: "sys_load_answers (zip (sys_ready_requests ws s) answers) ws s1 = Inr (ws', s')"
    by (auto simp: sys_round_def Let_def py_bind_Inr_iff)
  show ?thesis using sys_issue_later [OF i] sys_load_answers_cycle [OF a] by simp
qed

lemma sys_loads_from_count:
  fixes w :: sys_world
  shows "sys_loads_from w start n ws s = Inr s' \<Longrightarrow> waiters_ok ws \<Longrightarrow> sb_loads_done s' = sb_loads_done s + length ws"
proof (induction n arbitrary: ws s)
  case (Suc n)
  show ?case
  proof (cases "ws = []")
    case False
    with Suc.prems(1) obtain ws1 s1 where "sys_round w ws s = Inr (ws1, s1)" "sys_loads_from w start n ws1 s1 = Inr s'"
      by (auto simp: py_bind_Inr_iff)
    with sys_round_count [OF _ Suc.prems(2)] Suc.IH show ?thesis by fastforce
  qed (use Suc.prems in simp)
qed simp

lemma waiters_fold: "waiters_ok ws \<Longrightarrow> waiters_ok (foldl (\<lambda>ws r. AList.update (cq_ident r) (r, None, 0) ws) ws reqs)"
  by (induction reqs arbitrary: ws) (simp_all add: waiters_ok_update)

lemma waiters_fold_keys:
  "fst ` set (foldl (\<lambda>ws r. AList.update (cq_ident r) (r, None, 0) ws) ws reqs) = fst ` set ws \<union> cq_ident ` set reqs"
  by (induction reqs arbitrary: ws) (auto simp: fst_alist_update)


lemma sys_loads_from_fuel:
  fixes w :: sys_world
  shows "start \<le> cb_cycle s \<Longrightarrow> 5000 \<le> n + (cb_cycle s - start) \<Longrightarrow>
    sys_loads_from w start (Suc n + k) ws s = sys_loads_from w start (Suc n) ws s"
proof (induction n arbitrary: ws s)
  case 0
  then have "\<not> cb_cycle s - start < 5000" by simp
  then show ?case by (simp add: py_assert_def)
next
  case (Suc n)
  have "sys_loads_from w start (Suc n + k) ws' s' = sys_loads_from w start (Suc n) ws' s'"
    if "sys_round w ws s = Inr (ws', s')" for ws' s'
    using sys_round_later [OF that] Suc.prems by (intro Suc.IH) auto
  then have "py_bind (sys_round w ws s) (\<lambda>(ws, s). sys_loads_from w start (Suc n + k) ws s) =
      py_bind (sys_round w ws s) (\<lambda>(ws, s). sys_loads_from w start (Suc n) ws s)"
    by (cases "sys_round w ws s") auto
  then show ?case
    unfolding sys_loads_from.simps(2) [of w start "Suc n" ws s] add_Suc [of "Suc n"]
      sys_loads_from.simps(2) [of w start "Suc n + k" ws s] by (simp only:)
qed

text \<open>The loop ends: a round takes at least one cycle, so the watchdog stops it within 5001 rounds; allowing it more rounds
  changes nothing.\<close>

theorem sys_loads_watchdog:
  fixes w :: sys_world
  shows "sys_loads_from w (cb_cycle s) (5001 + k) ws s = sys_loads_from w (cb_cycle s) 5001 ws s"
  using sys_loads_from_fuel [of "cb_cycle s" s 5000 w k ws] by simp

section \<open>Runs\<close>

text \<open>Nothing happens but what \<open>x\<close> drives in cycle 0 and the word \<open>r\<close> in which lane 0 is answered in cycle 3.\<close>

definition sys_demo_dut :: sys_dut where
  "sys_demo_dut = \<lparr>sv_req_ready = True, sv_resp_valid = False, sv_resp = 0, sv_up_ready = True, sv_snp_valid = False, sv_snp = 0,
     sv_l2_fatal = 0, sv_init_done = True, sv_i_ready = True, sv_i_resp_valid = False, sv_i_resp = 0, sv_arvalid = False,
     sv_ar = (6, 576, 3, 4, 1), sv_awvalid = False, sv_aw = (0, 0, 0, 0, 0), sv_wvalid = False, sv_w = (0, 0, 0),
     sv_rready = False, sv_bready = False\<rparr>"

definition sys_demo_world :: "bool \<Rightarrow> nat \<Rightarrow> sys_world" where
  "sys_demo_world ar r = cb_world.extend
     \<lparr>cw_cfg = (\<lambda>_. demo_cfg), cw_mid = (\<lambda>c. if c = 3 then demo_dut\<lparr>dv_resp := (\<lambda>p. if p = 0 then r else 0)\<rparr> else demo_dut),
      cw_pre = (\<lambda>_. \<lparr>pr_full_busy = False, pr_internal_busy = False, pr_idle = True, pr_mon = \<lparr>cm_state = 0, cm_addr = 0\<rparr>\<rparr>)\<rparr>
     \<lparr>sw_dut = (\<lambda>c. sys_demo_dut\<lparr>sv_arvalid := ar \<and> c = 0\<rparr>), sw_rng = (\<lambda>_. bench_demo_rng),
      sw_l2 = (\<lambda>_. \<lparr>mn_valid = 0, mn_sharer = 0, mn_state = 0, mn_addr = 0, mn_slot_busy = False\<rparr>), sw_l2_sets = 0, sw_l2_ways = 0\<rparr>"

lemma sys_demo_fields:
  "cw_cfg (sys_demo_world ar r) c = demo_cfg" "sw_rng (sys_demo_world ar r) c = bench_demo_rng"
  "cw_mid (sys_demo_world ar r) c = (if c = 3 then demo_dut\<lparr>dv_resp := (\<lambda>p. if p = 0 then r else 0)\<rparr> else demo_dut)"
  "sw_dut (sys_demo_world ar r) c = sys_demo_dut\<lparr>sv_arvalid := ar \<and> c = 0\<rparr>"
  "sys_directory_check (sys_demo_world ar r) c = Inr ()"
  "\<not> pr_full_busy (cw_pre (cb_world.truncate (sys_demo_world ar r)) c)"
  "\<not> pr_internal_busy (cw_pre (cb_world.truncate (sys_demo_world ar r)) c)"
  "cw_cfg (cb_world.truncate (sys_demo_world ar r)) c = demo_cfg"
  by (simp_all add: sys_demo_world_def cb_world.defs sys_directory_check_def)

lemma sys_demo_dut_fields:
  "sv_req_ready sys_demo_dut" "\<not> sv_resp_valid sys_demo_dut" "sv_up_ready sys_demo_dut" "\<not> sv_snp_valid sys_demo_dut"
  "sv_l2_fatal sys_demo_dut = 0" "sv_i_ready sys_demo_dut" "\<not> sv_i_resp_valid sys_demo_dut" "\<not> sv_arvalid sys_demo_dut"
  "sv_ar sys_demo_dut = (6, 576, 3, 4, 1)" "\<not> sv_awvalid sys_demo_dut" "\<not> sv_wvalid sys_demo_dut" "\<not> sv_rready sys_demo_dut"
  "\<not> sv_bready sys_demo_dut"
  by (simp_all add: sys_demo_dut_def)

text \<open>Cycle 0 of a run in which a burst of line 9 is read and the instruction line 5 accepted; cycle 1 presents the first beat.\<close>

definition sys_demo1 :: sys_bench where
  "sys_demo1 = sys_init\<lparr>cb_cycle := 1, sb_iout := [(0, 5, 0)], sb_readq := [(6, 9, cb_initial 9, 0, 1)], sb_axi_reads := 1\<rparr>"

definition sys_demo2 :: sys_bench where
  "sys_demo2 = sys_demo1\<lparr>cb_cycle := 2, sb_rhold := Some (6, lane 128 0 (cb_initial 9), 0)\<rparr>"

definition sys_demo_events :: "sys_event list" where
  "sys_demo_events = [Y_script 5, Y_tick, Y_tick]"

lemma sys_init_fields:
  "cb_cycle sys_init = 0" "cb_cpu sys_init = [None, None]" "cb_prev_cpu sys_init = [None, None]" "cb_st sys_init = None"
  "cb_ptw sys_init = None" "cb_ad sys_init = None" "sb_ipresent sys_init = None" "sb_iout sys_init = []"
  "sb_rhold sys_init = None" "sb_readq sys_init = []" "sb_bq sys_init = []" "sb_awq sys_init = []" "sb_bhold sys_init = None"
  "sb_stalled sys_init = [None, None, None, None, None, None]" "sb_i_script sys_init = []" "sb_axi_reads sys_init = 0"
  "cb_backing sys_init l = cb_initial l" "cb_responses sys_init = []" "sb_loads_done sys_init = 0"
  "cb_golden sys_init addr sz = drop_bit ((addr AND 63) * 8) (cb_initial (drop_bit 6 addr)) AND (push_bit (sz * 8) 1 - 1)"
  by (simp_all add: sys_init_def cb_init_def cbench.defs cb_backing_def cb_golden_def cb_golden_line_def numeral_eq_Suc)

text \<open>What a tick of these worlds does to a state without queued writes.\<close>

lemma sys_demo_tick:
  assumes "sb_bq s = []" "sb_awq s = []" "sb_bhold s = None" "sb_stalled s = [None, None, None, None, None, None]"
    "sb_i_script s = []" "length (cb_cpu s) = 2" "sb_ipresent s = None" "\<exists>u. sys_drive_cpu (cc_widths demo_cfg) s = Inr u"
    "cb_log_all (cc_widths demo_cfg) (cw_mid (sys_demo_world ar r) (cb_cycle s)) (sys_drive_r bench_demo_rng s)
       = Inr ((sys_drive_r bench_demo_rng s)\<lparr>cb_responses := rs\<rparr>)" "\<not> (ar \<and> cb_cycle s = 0)"
  shows "sys_tick (sys_demo_world ar r) s = Inr (cb_take_requests demo_dut ((sys_drive_r bench_demo_rng s)
    \<lparr>cb_responses := rs, cb_cycle := Suc (cb_cycle s)\<rparr>))"
proof -
  obtain u where u: "sys_drive_cpu (cc_widths demo_cfg) s = Inr u" using assms(8) by blast
  have same: "sb_bq (sys_drive_r bench_demo_rng s) = []" "sb_awq (sys_drive_r bench_demo_rng s) = []" "sb_bhold (sys_drive_r bench_demo_rng s) = None"
    "sb_stalled (sys_drive_r bench_demo_rng s) = [None, None, None, None, None, None]"
    "sb_ipresent (sys_drive_r bench_demo_rng s) = None" "cb_cycle (sys_drive_r bench_demo_rng s) = cb_cycle s"
    "cb_cpu (sys_drive_r bench_demo_rng s) = cb_cpu s"
    using assms by (simp_all add: sys_drive_r_def Let_def split: option.splits)
  let ?s = "sys_drive_r bench_demo_rng s"
  have drive: "sys_drive (cc_widths demo_cfg) bench_demo_rng s = Inr ?s"
    using assms same by (simp add: sys_drive_def u sys_issue_i_def sys_i_pin_def py_opt_def sys_drive_b_def)
  obtain p q where "cb_cpu s = [p, q]" using assms(6) by (auto simp: numeral_2_eq_2 length_Suc_conv)
  then have res: "cb_reserved (cw_mid (sys_demo_world ar r) c) ?s" for c
    by (simp add: cb_reserved_def same sys_demo_fields demo_dut_fields drop_bit_eq_div)
  have v: "dv_fatal (cw_mid (sys_demo_world ar r) c) = 0" "dv_wake (cw_mid (sys_demo_world ar r) c) = 0"
    "\<not> dv_req_valid (cw_mid (sys_demo_world ar r) c)" "\<not> dv_up_valid (cw_mid (sys_demo_world ar r) c)"
    "dv_resp_ready (cw_mid (sys_demo_world ar r) c)"
    "cb_take_requests (cw_mid (sys_demo_world ar r) c) t = cb_take_requests demo_dut t" for c and t :: sys_bench
    by (simp_all add: sys_demo_fields demo_dut_fields cb_take_requests_def)
  have x: "\<not> sv_arvalid (sw_dut (sys_demo_world ar r) (cb_cycle s))" "sv_l2_fatal (sw_dut (sys_demo_world ar r) c) = 0"
    "sv_up_ready (sw_dut (sys_demo_world ar r) c)" "\<not> sv_resp_valid (sw_dut (sys_demo_world ar r) c)"
    "\<not> sv_i_resp_valid (sw_dut (sys_demo_world ar r) c)" "\<not> sv_snp_valid (sw_dut (sys_demo_world ar r) c)"
    "\<not> sv_awvalid (sw_dut (sys_demo_world ar r) c)" "\<not> sv_wvalid (sw_dut (sys_demo_world ar r) c)"
    "\<not> sv_rready (sw_dut (sys_demo_world ar r) c)" "\<not> sv_bready (sw_dut (sys_demo_world ar r) c)" for c
    using assms(10) by (simp_all add: sys_demo_fields sys_demo_dut_fields)
  have r: "sys_r (sw_dut (sys_demo_world ar r) c) t = Inr t" for c t using x(9) by (simp add: sys_r_def split: option.split)
  have st: "bench_stall (sys_channels bench_demo_rng (cw_mid (sys_demo_world ar r) (cb_cycle s)) (sw_dut (sys_demo_world ar r) (cb_cycle s)))
      [None, None, None, None, None, None] = Inr [None, None, None, None, None, None]"
    using v(3,4) x by (simp add: sys_channels_def Let_def py_assert_def)
  let ?t = "?s\<lparr>cb_responses := rs\<rparr>"
  have t: "?t\<lparr>sb_stalled := [None, None, None, None, None, None]\<rparr> = ?t" "sb_ipresent ?t = None" "sb_awq ?t = []" "sb_bhold ?t = None"
    using same by simp_all
  have "sys_sample demo_cfg bench_demo_rng (cw_mid (sys_demo_world ar r) (cb_cycle s)) (sw_dut (sys_demo_world ar r) (cb_cycle s)) ?s =
      Inr (cb_take_requests demo_dut ?t)"
    unfolding sys_sample_def sys_checks_def assms(9) py_bind_simps
    using v(1-5) x res same st t(2-4)
    by (simp add: py_assert_def cb_log_wake_def sys_resp_def sys_i_resp_def sys_up_def sys_snoop_def sys_get_def sys_i_accept_def
        sys_ar_def r sys_aw_def sys_w_def sys_commit_def sys_b_def v(6) t(1))
  then show ?thesis
    by (simp add: sys_tick_def Let_def drive sys_demo_fields(1,2,5) cb_take_requests_def)
qed

lemma sys_demo_step1: "sys_tick (sys_demo_world True r) (sys_init\<lparr>sb_i_script := [5]\<rparr>) = Inr sys_demo1"
proof -
  obtain n where n: "link_req READ_LINE 5 0 0 0 = Inr n"
    by (simp add: link_req_def pack_def py_assert_def)
  let ?a = "sys_init\<lparr>sb_i_script := [5]\<rparr>" and ?b = "sys_init\<lparr>sb_ipresent := Some (0, 5, 0)\<rparr>"
  have "sys_drive_cpu (cc_widths demo_cfg) ?a = Inr ()"
    by (simp add: sys_drive_cpu_def sys_init_fields cb_req_bits_def py_opt_def)
  then have drive: "sys_drive (cc_widths demo_cfg) bench_demo_rng ?a = Inr ?b"
    by (simp add: sys_drive_def sys_issue_i_def sys_i_pin_def py_opt_def sys_drive_b_def sys_drive_r_def sys_init_fields n Let_def
        upt_rec)
  have st: "bench_stall (sys_channels bench_demo_rng (cw_mid (sys_demo_world True r) 0) (sw_dut (sys_demo_world True r) 0))
      [None, None, None, None, None, None] = Inr [None, None, None, None, None, None]"
    by (simp add: sys_channels_def Let_def py_assert_def sys_demo_fields sys_demo_dut_fields demo_dut_fields bench_demo_rng_def)
  have log: "cb_log_all (cc_widths demo_cfg) (cw_mid (sys_demo_world True r) 0) ?b = Inr ?b"
    by (rule demo_log_all) (simp_all add: sys_demo_fields)
  have "sys_sample demo_cfg bench_demo_rng (cw_mid (sys_demo_world True r) 0) (sw_dut (sys_demo_world True r) 0) ?b =
      Inr (sys_demo1\<lparr>cb_cycle := 0\<rparr>)"
    unfolding sys_sample_def sys_checks_def log py_bind_simps
    using st by (simp add: py_assert_def sys_demo_fields sys_demo_dut_fields demo_dut_fields cb_reserved_def sys_init_fields
        cb_log_wake_def sys_resp_def sys_i_resp_def sys_up_def sys_snoop_def sys_get_def sys_i_accept_def drop_bit_eq_div
        sys_ar_def sys_r_def sys_aw_def sys_w_def sys_commit_def sys_b_def cb_take_requests_def Let_def bench_demo_rng_def)
      (simp add: sys_demo1_def sys_init_def cb_init_def cbench.defs cb_backing_def numeral_eq_Suc)
  moreover have "cb_cycle ?a = 0" by (simp add: sys_init_fields)
  ultimately have "sys_tick (sys_demo_world True r) ?a = Inr (sys_demo1\<lparr>cb_cycle := Suc 0\<rparr>)"
    unfolding sys_tick_def Let_def by (simp only: sys_demo_fields(1,2,5) drive py_bind_simps) simp
  then show ?thesis by (simp add: sys_demo1_def sys_init_def cb_init_def cbench.defs)
qed

lemma sys_demo_step2: "sys_tick (sys_demo_world True r) sys_demo1 = Inr sys_demo2"
proof -
  have d: "sys_drive_r bench_demo_rng sys_demo1 = sys_demo1\<lparr>sb_rhold := Some (6, lane 128 0 (cb_initial 9), 0)\<rparr>"
    by (simp add: sys_drive_r_def Let_def sys_demo1_def sys_init_fields bench_demo_rng_def)
  have l: "cb_log_all (cc_widths demo_cfg) (cw_mid (sys_demo_world True r) 1) t = Inr t" for t :: sys_bench
    by (rule demo_log_all) (simp_all add: sys_demo_fields)
  have "\<exists>u. sys_drive_cpu (cc_widths demo_cfg) sys_demo1 = Inr u"
    by (simp add: sys_drive_cpu_def sys_demo1_def sys_init_fields cb_req_bits_def py_opt_def)
  then have "sys_tick (sys_demo_world True r) sys_demo1 = Inr (cb_take_requests demo_dut (sys_demo1
      \<lparr>sb_rhold := Some (6, lane 128 0 (cb_initial 9), 0), cb_responses := [], cb_cycle := Suc (cb_cycle sys_demo1)\<rparr>))"
    using sys_demo_tick [of sys_demo1 True r "[]"] l
    by (simp add: d) (simp add: sys_demo1_def sys_init_fields sys_init_def cb_init_def cbench.defs numeral_eq_Suc)
  then show ?thesis
    by (simp add: cb_take_requests_def demo_dut_fields)
      (simp add: sys_demo2_def sys_demo1_def sys_init_def cb_init_def cbench.defs)
qed

lemma sys_demo_run: "py_run (sys_step (sys_demo_world True r)) sys_init sys_demo_events = Inr sys_demo2"
  using sys_demo_step1 [of r] sys_demo_step2 [of r] by (simp add: sys_demo_events_def sys_init_fields)

theorem sys_axi_beats_witness:
  "\<exists>(w :: sys_world) s s'. py_run (sys_step w) sys_init sys_demo_events = Inr s \<and> sb_rhold s = Some (6, lane 128 0 (cb_initial 9), 0) \<and>
     sys_r (sys_demo_dut\<lparr>sv_rready := True\<rparr>) s = Inr s'"
proof -
  have "sb_rhold sys_demo2 = Some (6, lane 128 0 (cb_initial 9), 0)" by (simp add: sys_demo2_def)
  with sys_axi_beats [OF sys_demo_run [of 0] this] sys_demo_run [of 0] show ?thesis by blast
qed

theorem sys_i_window_witness:
  "\<exists>(w :: sys_world) s x s'. py_run (sys_step w) sys_init sys_demo_events = Inr s \<and> sys_i_resp x s = Inr s' \<and> cb_held s 5 \<noteq> Some HX"
proof -
  obtain v where v: "link_response v = (READDATA, 0, 0, cb_initial 5)"
    using link_response_pack [of READDATA 0 0 "cb_initial 5"] cb_initial_less [of 5] by auto
  let ?x = "sys_demo_dut\<lparr>sv_i_resp_valid := True, sv_i_resp := v\<rparr>"
  have m: "map_of (sb_iout sys_demo2) 0 = Some (5, 0)" by (simp add: sys_demo2_def sys_demo1_def)
  have "\<exists>s'. sys_i_resp ?x sys_demo2 = Inr s'"
    by (simp add: sys_i_resp_def v m py_assert_def bench_legal_reads_def)
      (simp add: sys_demo2_def sys_demo1_def sys_init_def cb_init_def cbench.defs)
  then obtain s' where s': "sys_i_resp ?x sys_demo2 = Inr s'" by blast
  have x: "sv_i_resp_valid ?x" "link_response (sv_i_resp ?x) = (READDATA, 0, 0, cb_initial 5)" using v by simp_all
  have "cb_held sys_demo2 5 \<noteq> Some HX" using sys_i_window [OF sys_demo_run [of 0] s' x m] by blast
  with s' sys_demo_run [of 0] show ?thesis by blast
qed

text \<open>One load, answered with the golden doubleword.\<close>

definition sys_demo_resp :: cb_resp where
  "sys_demo_resp = \<lparr>rs_valid = True, rs_src = 0, rs_status = S_OK, rs_reason = 0, rs_mshr = 0, rs_ident = 1, rs_gen = 0, rs_sq = 0,
     rs_data = cb_golden sys_init 320 8, rs_sc_fail = False, rs_need_d = False, rs_io = False, rs_head = False, rs_pa = 0, rs_exc = 0\<rparr>"

lemma sys_demo_word:
  obtains r where "cb_resp_fields (cc_widths demo_cfg) r = Inr sys_demo_resp"
proof -
  let ?d = "cb_golden sys_init 320 8"
  let ?r = "[(''valid'', 1, 1), (''src'', 3, 0), (''status'', 3, 0), (''reason'', 4, 0), (''mshr'', 2, 0), (''ident'', 4, 1),
     (''gen'', 8, 0), (''sq'', 4, 0), (''data'', 64, ?d), (''sc_fail'', 1, 0), (''need_d'', 1, 0), (''io'', 1, 0), (''head'', 1, 0),
     (''pa'', 56, 0), (''exc'', 71, 0)] :: (string \<times> nat \<times> nat) list"
  have "?d < 2 ^ 64" unfolding cb_golden_def using and_mask_less [of _ 64] by (simp add: push_bit_eq_mult)
  then obtain r where "pack (map snd ?r) = Inr r"
    using pack_from_total [of "map snd ?r" 0] unfolding pack_def by auto
  then have "unpack r (map (\<lambda>(n, w, x). (n, w)) ?r) = Inr (rev (map (\<lambda>(n, w, x). (n, x)) ?r))"
    by (rule unpack_pack)
  moreover have "wd_lq (cc_widths demo_cfg) = 4" "wd_sq (cc_widths demo_cfg) = 4" by (simp_all add: demo_cfg_def)
  ultimately show ?thesis
    by (intro that [of r]) (simp add: cb_resp_fields_def cb_resp_layout_def field_of_def Let_def sys_demo_resp_def)
qed

definition sys_demo_load :: "nat \<Rightarrow> cpu_req option list \<Rightarrow> cpu_req option list \<Rightarrow> (nat \<times> nat \<times> cb_resp) list \<Rightarrow> sys_bench" where
  "sys_demo_load c cpu prev rs = sys_init\<lparr>cb_cycle := c, cb_cpu := cpu, cb_prev_cpu := prev, cb_responses := rs\<rparr>"

lemma sys_demo_load_tick:
  assumes "length cpu = 2" "set cpu \<union> set prev \<subseteq> {None, Some (cpu_default 320)}"
    "cb_resp_fields (cc_widths demo_cfg) r = Inr sys_demo_resp"
  shows "sys_tick (sys_demo_world False r) (sys_demo_load c cpu prev rs) =
    Inr (sys_demo_load (Suc c) [None, None] cpu (rs @ (if c = 3 then [(3, 0, sys_demo_resp)] else [])))"
proof -
  let ?s = "sys_demo_load c cpu prev rs" and ?w = "cc_widths demo_cfg"
  have f: "sb_bq ?s = []" "sb_awq ?s = []" "sb_bhold ?s = None" "sb_stalled ?s = [None, None, None, None, None, None]"
    "sb_i_script ?s = []" "cb_cpu ?s = cpu" "sb_ipresent ?s = None" "cb_cycle ?s = c" "cb_prev_cpu ?s = prev" "cb_responses ?s = rs"
    "cb_st ?s = None" "cb_ptw ?s = None" "cb_ad ?s = None"
    by (simp_all add: sys_demo_load_def sys_init_fields)
  have d: "sys_drive_r bench_demo_rng ?s = ?s"
    by (simp add: sys_drive_r_def Let_def sys_demo_load_def sys_init_fields)
  have wd: "wd_lq ?w = 4" "wd_sq ?w = 4" "wd_rob ?w = 4" "wd_branch ?w = 4" by (simp_all add: demo_cfg_def)
  obtain n0 where n0: "cb_req_bits ?w None = Inr n0" by (simp add: cb_req_bits_def)
  obtain n1 where n1: "cb_req_bits ?w (Some (cpu_default 320)) = Inr n1"
    by (simp add: cb_req_bits_def cpu_default_def pack_def py_assert_def wd push_bit_eq_mult)
  have m: "\<exists>ns. py_mapM (cb_req_bits ?w) xs = Inr ns" if "set xs \<subseteq> {None, Some (cpu_default 320)}" for xs
    using that by (induction xs) (auto simp: n0 n1)
  obtain a1 a2 where "py_mapM (cb_req_bits ?w) cpu = Inr a1" "py_mapM (cb_req_bits ?w) prev = Inr a2"
    using m [of cpu] m [of prev] assms(2) by auto
  then have cpu: "\<exists>u. sys_drive_cpu ?w ?s = Inr u"
    by (simp add: sys_drive_cpu_def f py_opt_def n0)
  have log: "cb_log_all ?w (cw_mid (sys_demo_world False r) c) ?s =
      Inr (?s\<lparr>cb_responses := rs @ (if c = 3 then [(3, 0, sys_demo_resp)] else [])\<rparr>)"
  proof (cases "c = 3")
    case True
    have "rs_valid sys_demo_resp" by (simp add: sys_demo_resp_def)
    with True assms(3) show ?thesis
      by (simp add: cb_log_all_def cb_log_resp_def cb_log_st_def cb_log_ptw_def cb_log_ad_def demo_resp sys_demo_fields demo_dut_fields
        sys_demo_load_def)
  next
    case False
    have "cb_log_all ?w (cw_mid (sys_demo_world False r) c) ?s = Inr ?s"
      using False by (intro demo_log_all) (simp_all add: sys_demo_fields)
    moreover have "?s\<lparr>cb_responses := rs\<rparr> = ?s" by (simp add: sys_demo_load_def)
    ultimately show ?thesis using False by simp
  qed
  have "sys_tick (sys_demo_world False r) ?s = Inr (cb_take_requests demo_dut (?s
      \<lparr>cb_responses := rs @ (if c = 3 then [(3, 0, sys_demo_resp)] else []), cb_cycle := Suc c\<rparr>))"
    using sys_demo_tick [OF f(1-5) _ f(7) cpu, of False r, unfolded f d, OF assms(1) log] by simp
  then show ?thesis
    by (simp add: cb_take_requests_def demo_dut_fields f)
      (simp add: sys_demo_load_def sys_init_def cb_init_def cbench.defs)
qed


end
