(* ===== verification/Spec2Isabelle.thy ===== *)
theory Spec2Isabelle
  imports BPU_Records TAGE BTB UBTB RAS IFU_F1 Return_Queue Sv39 Mem_Agents AXI_Router Gen_Random Arch_Reference Watchdog Trace_Checks LSU_Bench SoC_Build BIOS_SD Spike_Batch Small_Models Verilog_Text Batch_Runs Tool_Scripts Watchdog_Check Generated_Text SoC_Flow Lane_Checks System_Coherence
begin

text \<open>
  \<^bold>\<open>The program.\<close> CISLC-O3 is an out-of-order RV64GC core in SystemVerilog with its SoC, simulation and FPGA
  environment in Python. The Python is what is verified here: the reference models and bus agents against which the
  hardware modules are tested (\<open>sim/cocotb\<close>), the generators, references and checkers of the whole-core runs
  (\<open>sim/o3\<close>), the SoC hardware written in Migen and its platform description (\<open>litex_wrapper/o3\<close>,
  \<open>scripts/gen_platform_pkg.py\<close>), the SoC simulations (\<open>sim/litex\<close>), the board scripts (\<open>fpga/kcu105\<close>,
  \<open>scripts/vivado\<close>), the area and equivalence flow (\<open>perf/resource\<close>) and the test suites
  (\<open>verification\<close>). A mistake in one of these hides a hardware bug or builds a wrong SoC, so each is modelled as
  written and proved against what it promises.

  \<^bold>\<open>Conventions.\<close> \<open>O3_Prelude\<close> holds Python's results (\<open>'a py\<close>: an exception or a value,
  \<open>py_bind\<close>, \<open>py_assert\<close>, \<open>py_key\<close>, list access), bit fields and list lemmas. A Python integer that can be
  negative is \<open>int\<close>, one that cannot is \<open>nat\<close>; machine integers keep their width through masks, \<open>mod 2 ^ w\<close> or
  \<open>'w word\<close>. A dictionary is a map or an association list. Hardware pins a cycle shows, what the random
  generator returns and the tools a script calls are parameters. \<open>Clocked\<close> has \<open>py_run\<close>, the run of a clocked model
  over its inputs, and the locales of what such models share: invariants from reset, runs that never raise, resets
  that forget, and simulation of one machine by another. Every locale is interpreted on the program's own
  definitions.

  \<^bold>\<open>Branch prediction.\<close> \<open>TAGE\<close> (\<open>tage/tage_model.py\<close>, and the immediate-training
  \<open>legacy_tage_reference.py\<close>, which repeats its table operations), \<open>BTB\<close> (\<open>main_btb\<close>, both organisations),
  \<open>UBTB\<close>, \<open>RAS\<close> over the specification \<open>Bounded_Stack\<close>, and \<open>BPU_Records\<close> (packed records and the slow
  prediction of \<open>bpu/bpu_model.py\<close>). Lemma groups: a well-formedness invariant of every table and register under
  every cycle, the effect of one training step, the equivalence or refinement between pipelined and immediate models,
  replacement fairness, and round trips of the packed metadata. The section below composes the fetch decoder with
  the return stack.

  \<^bold>\<open>Fetch.\<close> \<open>IFU_F1\<close> (instruction encoders, decoder, block evaluation of \<open>ifu_f1_model.py\<close>), \<open>Return_Queue\<close>
  (\<open>fetch_return_queue_model.py\<close>, refining a FIFO with removal), \<open>Sv39\<close> (\<open>mmu_model.py\<close>) and \<open>Small_Models\<close>.

  \<^bold>\<open>Memory agents.\<close> \<open>Link_Codec\<close> (message layouts; the codec of \<open>l3_contract.py\<close>), \<open>Mem_Agents\<close> (the home-node
  bench \<open>l2_home/mem_agents.py\<close>), \<open>Cache_Bench\<close> with \<open>Cache_Coherence\<close> (\<open>dcache/l8a_agents.py\<close>),
  \<open>System_Bench\<close> with \<open>System_Coherence\<close> (\<open>memsys/system_agents.py\<close>) and \<open>LSU_Bench\<close>
  (\<open>load_store_unit/l8a_lsu_agents.py\<close>). Each is a state record and a tick; the proofs give the invariant the
  bench's assertions rest on (golden data, permissions, credits, transactions in flight, ownership of saved
  requests) for every run it accepts, with what the hardware must keep to as a hypothesis on the run.

  \<^bold>\<open>Whole-core runs.\<close> \<open>Gen_Random\<close> (\<open>gen_random.py\<close>), \<open>Arch_Reference\<close> (the RV64I reference
  \<open>make_l8a_reference.py\<close> and the backend program), \<open>Spike_Batch\<close> (\<open>run_spike.py\<close>) and \<open>Trace_Checks\<close>
  (\<open>check_l7_predict.py\<close>, \<open>check_l7c_frontend.py\<close>, \<open>check_trace.py\<close>, \<open>check_l7_layout.py\<close>). They meet:
  a generated block is run by the reference, and the batch returns for every target the generator supports.

  \<^bold>\<open>Text.\<close> Much of the flow rewrites or writes text. \<open>Py_Regex\<close> holds Python's string operations and the regular
  expressions the sources use: a datatype of expressions, and a search that lists the matches in the order Python's
  backtracking prefers. \<open>Verilog_Text\<close> (\<open>generate_wrappers.py\<close>, \<open>generate_wb_miter.py\<close>, \<open>generate_ftq_miter.py\<close>)
  and \<open>Generated_Text\<close> (\<open>gen_platform_pkg.py\<close>, the source patches of \<open>software.py\<close>, \<open>gen_dts.py\<close>,
  \<open>prepare_sd_boot.py\<close>) define what is written letter by letter; the lemmas read it back: which ports a wrapper or
  miter connects, which numbers the package declares, which part of an upstream file a patch leaves alone.

  \<^bold>\<open>Batches and runs.\<close> \<open>Batch_Runs\<close> (\<open>run_one.py\<close>, \<open>run_suite.py\<close>, \<open>run_l5.py\<close>, \<open>run_functional.py\<close>,
  \<open>run_modules.py\<close>, \<open>run_area_pipeline.py\<close>, the log lines of \<open>run_spike.py\<close>) and \<open>Tool_Scripts\<close>
  (\<open>run_soc_smoke.py\<close>, \<open>soc_synth_only.py\<close>, \<open>run_soc_area.py\<close>): child processes are functions from their command
  to exit code and output; the lemmas say what an exit code of 0 means and when a run ends.

  \<^bold>\<open>SoC.\<close> \<open>Platform\<close> (\<open>platform.py\<close> and the generated attribute lookup), \<open>AXI_Router\<close> (\<open>axi_router.py\<close>,
  \<open>mmio_bridge.py\<close>), \<open>Watchdog\<close> (\<open>ila.py\<close>; its probes and the test \<open>check_debug_watchdog.py\<close> in
  \<open>Watchdog_Check\<close>), \<open>SoC_Build\<close> (\<open>clint_verilog.py\<close>, \<open>plic_verilog.py\<close>,
  \<open>core.py\<close>, \<open>target.py\<close>, \<open>gen_dts.py\<close>, \<open>prepare_sd_boot.py\<close>, the scanner of \<open>generate_wrappers.py\<close>) and
  \<open>BIOS_SD\<close> (the card transfer of \<open>software.py\<close>). \<open>SoC_Flow\<close> has the flow around them: the source list, the checks
  and files of \<open>target.py\<close>'s main, \<open>check_platform_irqs.py\<close> and \<open>o3_sim.py\<close>. \<open>Lane_Checks\<close> has the tests of
  the bridge lanes and of the register window (\<open>check_mmio_read_lanes.py\<close>, \<open>check_csr_window.py\<close>) over any device
  given by its step. What the others prove of addresses and interrupts rests on
  \<open>load_platform\<close> having accepted the description; \<open>o3_platform\<close> is the description of the repository.

  \<^bold>\<open>Bounds.\<close> Loops with a limit in the code keep it as their bound: 1000 ticks in the cache bench, 100 in the
  load/store bench, 100 attempts of a load, 200000 instructions of the reference. The load driver of the system bench
  loops until answered; its watchdog ends it within 5001 rounds, which is the fuel given and proved sufficient. The
  generator's loop ends because every turn adds an event; targets from 2000 to 4113 are the ones for which the
  program provably fits below the trap handler at word 8192.

  \<^bold>\<open>Findings.\<close> The reference shifts all 64 bits for 32-bit right shifts (\<open>ref_srliw_deviates\<close>), the range check of
  the card transfer is defeated by a buffer that wraps around the address space (\<open>sd_wrap_bypasses\<close>), and the
  generator's metadata lists loops it has dropped.

  \<^bold>\<open>Not modelled.\<close> The SystemVerilog; the cocotb test cases, which are stimuli; the clock, reset and pin
  writes of the simulator and the event logs of the benches; the construction of the SoC and of the simulated test
  tops out of LiteX, Migen and vendor parts (\<open>crg.py\<close>, the classes of \<open>target.py\<close>, \<open>core.py\<close> and \<open>o3_sim.py\<close>),
  which is code of those libraries; the reading and writing of files, JSON documents, digests, disassembly,
  environment variables and most command lines. Of the components modelled, the waiting wrappers \<open>read\<close>, \<open>dma\<close> and
  \<open>finish\<close> of the home-node bench are left out.
\<close>

section \<open>From fetched words to predicted returns\<close>

text \<open>
  The fetch stage's decoder names the return-stack action of every word and the link address of every
  push (\<open>f1_decode\<close>, \<open>f1_seq\<close> for a 4-byte instruction); the stack applies them in fetch order.
  \<open>frontend_calls\<close> reads the calls and returns off the words, \<open>frontend_predict\<close> runs the stack
  and lists what it predicts for each word that pops.
\<close>

definition frontend_ops :: "int \<times> int \<Rightarrow> nat call_op list" where
  "frontend_ops x = (case x of (pc, w) \<Rightarrow>
     let link = nat ((pc + 4) AND pc_mask) in
     (case fst (snd (f1_decode w pc)) of
        RAS_NONE \<Rightarrow> [] | RAS_PUSH \<Rightarrow> [Call link] | RAS_POP \<Rightarrow> [Ret] | RAS_POP_PUSH \<Rightarrow> [Ret, Call link]))"

definition frontend_calls :: "(int \<times> int) list \<Rightarrow> nat call_op list" where
  "frontend_calls code = concat (map frontend_ops code)"

fun frontend_predict :: "nat \<Rightarrow> ras_state \<Rightarrow> (int \<times> int) list \<Rightarrow> (nat list \<times> ras_state) py" where
  "frontend_predict depth s [] = Inr ([], s)"
| "frontend_predict depth s ((pc, w) # code) =
     (let action = fst (snd (f1_decode w pc)) in
      py_bind (ras_advance depth s (ras_op action (nat ((pc + 4) AND pc_mask)))) (\<lambda>s1.
        py_bind (frontend_predict depth s1 code) (\<lambda>(ps, s2).
          Inr ((if action \<in> {RAS_POP, RAS_POP_PUSH} then [ck_addr (ras_checkpoint s)] else []) @ ps, s2))))"

lemma ras_pop_push_act:
  assumes "ras_wf depth s"
  shows "ras_act depth RAS_POP_PUSH a s = Inr (ras_push depth a (ras_pop depth s))"
proof -
  have idx: "(nat ((int (rs_idx s) - 1) mod int depth) + 1) mod depth = rs_idx s"
    using ras_pos_push [of 0 depth] assms by (auto simp: ras_wf_def ras_pop_idx ras_pos_def mod_Suc_eq)
  show ?thesis
    using assms idx
    by (cases s) (auto simp: ras_act_def ras_push_def ras_pop_def ras_wf_def Let_def min_def)
qed

lemma ras_act_simple:
  "ras_act depth RAS_NONE a s = Inr s" "ras_act depth RAS_PUSH a s = Inr (ras_push depth a s)"
  "ras_act depth RAS_POP a s = Inr (ras_pop depth s)"
  by (simp_all add: ras_act_def)

lemma frontend_predict_trace:
  "ras_wf depth s \<Longrightarrow> 0 < depth \<Longrightarrow> frontend_predict depth s code = ras_trace depth s (frontend_calls code)"
proof (induction code arbitrary: s)
  case Nil
  show ?case by (simp add: frontend_calls_def)
next
  case (Cons x code)
  obtain pc w where x: "x = (pc, w)" by (cases x)
  have calls: "frontend_calls (x # code) = frontend_ops x @ frontend_calls code" for x
    by (simp add: frontend_calls_def)
  have wf: "ras_wf depth (ras_push depth a s)" "ras_wf depth (ras_pop depth s)"
    "ras_wf depth (ras_push depth a (ras_pop depth s))" for a
    using Cons.prems by (simp_all add: ras_push_wf ras_pop_wf)
  show ?case
    using Cons.IH [OF Cons.prems] Cons.IH [OF wf(1)] Cons.IH [OF wf(2)] Cons.IH [OF wf(3)] Cons.prems
    by (cases "fst (snd (f1_decode w pc))")
       (simp_all add: x calls frontend_ops_def Let_def ras_advance_def ras_op_def ras_pop_push_act ras_trace_run
          ras_act_simple case_prod_beta)
qed


lemma frontend_demo_words:
  "fst (snd (f1_decode (f1_jal 1 64) 0x1000)) = RAS_PUSH"
  "fst (snd (f1_decode (f1_jal 5 (-32)) 0x1040)) = RAS_PUSH"
  "fst (snd (f1_decode (f1_jalr 0 5 0) 0x1020)) = RAS_POP"
  "fst (snd (f1_decode (f1_jalr 0 1 0) 0x1044)) = RAS_POP"
  using f1_decode_jal [of 1 64 "0x1000"] f1_decode_jal [of 5 "- 32" "0x1040"] f1_decode_jalr [of 0 5 0 "0x1020"]
    f1_decode_jalr [of 0 1 0 "0x1044"]
  by (simp_all add: f1_reg_def f1_link_def)


end
